(* ===== verification/Prelude.thy ===== *)
theory Prelude
  imports Main "HOL-Library.Word"
begin

text \<open>
  The shared prelude: the names of Rust's machine types, its \<open>Result\<close> with the
  early return of the question-mark operator, the checked integer operations, the
  little-endian byte order of \<open>to_le_bytes\<close> / \<open>from_le_bytes\<close>, and the string
  formatting of the standard library that the code uses.  Every component theory
  imports it; its lemmas are declared so that \<open>simp\<close> carries the component proofs.
\<close>

unbundle bit_operations_syntax

named_theorems result_simps \<open>rewriting a run of question-mark operators\<close>
named_theorems le_simps \<open>little-endian encoding and decoding\<close>
named_theorems checked_simps \<open>checked machine arithmetic in terms of \<open>unat\<close>\<close>

section \<open>Lists of fixed-width chunks\<close>

lemma concat_fixed_width_inj:
  assumes "0 < k" "\<forall>x \<in> set xs. length x = k" "\<forall>y \<in> set ys. length y = k"
    and "concat xs = concat ys"
  shows "xs = ys"
  using assms(2-4)
proof (induction xs arbitrary: ys)
  case Nil
  then show ?case using assms(1) by (cases ys) auto
next
  case (Cons x xs)
  have "x \<noteq> []" using Cons.prems(1) assms(1) by auto
  with Cons.prems(3) obtain y ys' where ys: "ys = y # ys'" by (cases ys) simp_all
  with Cons.prems have "length x = length y" "x @ concat xs = y @ concat ys'" by simp_all
  then have "x = y" "concat xs = concat ys'" by simp_all
  moreover from this(2) have "xs = ys'" using Cons.prems ys by (intro Cons.IH) simp_all
  ultimately show ?case using ys by simp
qed

section \<open>Machine types\<close>

type_synonym byte = "8 word"
type_synonym bytes = "byte list"
type_synonym u8 = "8 word"
type_synonym u16 = "16 word"
type_synonym u32 = "32 word"
type_synonym u64 = "64 word"
text \<open>A signed 64-bit integer is its 64 bits; \<open>sint\<close> reads the value.\<close>
type_synonym i64 = "64 word"

text \<open>\<open>usize\<close> on the 64-bit targets; lengths and indices are naturals below it.\<close>
abbreviation usize_bound :: nat where
  "usize_bound \<equiv> 2 ^ 64"

section \<open>Result and the question-mark operator\<close>

text \<open>\<open>Result<A, E>\<close> is \<open>E + A\<close>: \<open>Inl\<close> is \<open>Err\<close>, \<open>Inr\<close> is \<open>Ok\<close>.\<close>

definition rbind :: "'e + 'a \<Rightarrow> ('a \<Rightarrow> 'e + 'b) \<Rightarrow> 'e + 'b" where
  "rbind m f = (case m of Inl e \<Rightarrow> Inl e | Inr x \<Rightarrow> f x)"

lemma rbind_simps [simp]:
  "rbind (Inl e) f = Inl e"
  "rbind (Inr x) f = f x"
  by (simp_all add: rbind_def)

lemma rbind_Inr_iff [result_simps]:
  "rbind m f = Inr y \<longleftrightarrow> (\<exists>x. m = Inr x \<and> f x = Inr y)"
  by (cases m) auto

lemma rbind_Inl_iff:
  "rbind m f = Inl e \<longleftrightarrow> m = Inl e \<or> (\<exists>x. m = Inr x \<and> f x = Inl e)"
  by (cases m) auto

lemma rbind_assoc: "rbind (rbind m f) g = rbind m (\<lambda>x. rbind (f x) g)"
  by (cases m) auto

text \<open>\<open>Option::ok_or\<close>, \<open>Result::map_err\<close> and a guard with an early \<open>return Err\<close>.\<close>

definition ok_or :: "'a option \<Rightarrow> 'e \<Rightarrow> 'e + 'a" where
  "ok_or x e = (case x of None \<Rightarrow> Inl e | Some v \<Rightarrow> Inr v)"

lemma ok_or_simps [simp]: "ok_or None e = Inl e" "ok_or (Some v) e = Inr v"
  by (simp_all add: ok_or_def)

lemma ok_or_Inr_iff [result_simps]: "ok_or x e = Inr v \<longleftrightarrow> x = Some v"
  by (cases x) auto

definition map_err :: "('e \<Rightarrow> 'f) \<Rightarrow> 'e + 'a \<Rightarrow> 'f + 'a" where
  "map_err f m = (case m of Inl e \<Rightarrow> Inl (f e) | Inr x \<Rightarrow> Inr x)"

lemma map_err_simps [simp]: "map_err f (Inl e) = Inl (f e)" "map_err f (Inr x) = Inr x"
  by (simp_all add: map_err_def)

lemma map_err_Inr_iff [result_simps]: "map_err f m = Inr x \<longleftrightarrow> m = Inr x"
  by (cases m) auto

definition refuse_if :: "bool \<Rightarrow> 'e \<Rightarrow> 'e + unit" where
  "refuse_if b e = (if b then Inl e else Inr ())"

lemma refuse_if_simps [simp]: "refuse_if True e = Inl e" "refuse_if False e = Inr ()"
  by (simp_all add: refuse_if_def)

lemma refuse_if_Inr_iff [result_simps]: "refuse_if b e = Inr u \<longleftrightarrow> \<not> b"
  by (simp add: refuse_if_def)

text \<open>A loop over a list whose body may return early with an error, collecting the results.\<close>

fun rmap :: "('a \<Rightarrow> 'e + 'b) \<Rightarrow> 'a list \<Rightarrow> 'e + 'b list" where
  "rmap f [] = Inr []"
| "rmap f (x # xs) = rbind (f x) (\<lambda>y. rbind (rmap f xs) (\<lambda>ys. Inr (y # ys)))"

lemma rmap_Inr_iff: "rmap f xs = Inr ys \<longleftrightarrow> list_all2 (\<lambda>x y. f x = Inr y) xs ys"
proof (induction xs arbitrary: ys)
  case Nil
  then show ?case by auto
next
  case (Cons x xs)
  then show ?case by (cases ys) (auto simp: result_simps)
qed

lemma rmap_length: "rmap f xs = Inr ys \<Longrightarrow> length ys = length xs"
  by (auto simp: rmap_Inr_iff dest: list_all2_lengthD)

lemma rmap_total: "(\<And>x. x \<in> set xs \<Longrightarrow> \<exists>y. f x = Inr y) \<Longrightarrow> \<exists>ys. rmap f xs = Inr ys"
proof (induction xs)
  case (Cons x xs)
  from Cons.prems [of x] obtain y where "f x = Inr y" by auto
  with Cons show ?case by auto
qed simp

lemma rmap_cong_Inr: "(\<And>x. x \<in> set xs \<Longrightarrow> f x = Inr (g x)) \<Longrightarrow> rmap f xs = Inr (map g xs)"
  by (induction xs) auto

section \<open>Word bounds\<close>

lemma unat_bound: "unat w < 2 ^ LENGTH('a)" for w :: "'a::len word"
  by (fact unsigned_less)

lemma unat_byte: "unat (b :: byte) < 256"
  and unat_u16: "unat (h :: u16) < 65536"
  and unat_u32: "unat (w :: u32) < 4294967296"
  and unat_u64: "unat (d :: u64) < 18446744073709551616"
  using unat_bound [of b] unat_bound [of h] unat_bound [of w] unat_bound [of d] by simp_all

lemma unat_ucast: "unat (ucast w :: 'b::len word) = unat w mod 2 ^ LENGTH('b)"
  by (simp add: unsigned_ucast_eq take_bit_eq_mod)

lemma unat_ucast_u64 [simp]:
  "unat (ucast (b :: u8) :: u64) = unat b"
  "unat (ucast (h :: u16) :: u64) = unat h"
  "unat (ucast (w :: u32) :: u64) = unat w"
  using unat_byte [of b] unat_u16 [of h] unat_u32 [of w] by (simp_all add: unat_ucast)

section \<open>Checked arithmetic\<close>

definition checked_add :: "'a::len word \<Rightarrow> 'a word \<Rightarrow> 'a word option" where
  "checked_add a b = (if unat a + unat b < 2 ^ LENGTH('a) then Some (a + b) else None)"

definition checked_sub :: "'a::len word \<Rightarrow> 'a word \<Rightarrow> 'a word option" where
  "checked_sub a b = (if unat b \<le> unat a then Some (a - b) else None)"

definition checked_mul :: "'a::len word \<Rightarrow> 'a word \<Rightarrow> 'a word option" where
  "checked_mul a b = (if unat a * unat b < 2 ^ LENGTH('a) then Some (a * b) else None)"

definition saturating_add :: "'a::len word \<Rightarrow> 'a word \<Rightarrow> 'a word" where
  "saturating_add a b = (if unat a + unat b < 2 ^ LENGTH('a) then a + b else - 1)"

text \<open>Rust's \<open>div_ceil\<close>: the quotient, plus one when there is a remainder.\<close>

definition div_ceil :: "'a::len word \<Rightarrow> 'a word \<Rightarrow> 'a word" where
  "div_ceil a b = (if 0 < a mod b then a div b + 1 else a div b)"

lemma checked_add_Some [checked_simps]:
  "checked_add a b = Some c \<longleftrightarrow> unat a + unat b < 2 ^ LENGTH('a) \<and> unat c = unat a + unat b"
  for a b c :: "'a::len word"
proof -
  have "unat (a + b) = unat a + unat b" if "unat a + unat b < 2 ^ LENGTH('a)"
    using that by (simp add: unat_word_ariths)
  then show ?thesis by (auto simp: checked_add_def word_unat_eq_iff)
qed

lemma checked_add_None [checked_simps]:
  "checked_add a b = None \<longleftrightarrow> 2 ^ LENGTH('a) \<le> unat a + unat b" for a b :: "'a::len word"
  by (auto simp: checked_add_def)

lemma checked_sub_Some [checked_simps]:
  "checked_sub a b = Some c \<longleftrightarrow> unat b \<le> unat a \<and> unat c = unat a - unat b"
  for a b c :: "'a::len word"
proof -
  have "unat (a - b) = unat a - unat b" if "unat b \<le> unat a"
    using that by (simp add: unat_sub word_le_nat_alt)
  then show ?thesis
    by (auto simp: checked_sub_def word_unat_eq_iff)
qed

lemma checked_sub_None [checked_simps]:
  "checked_sub a b = None \<longleftrightarrow> unat a < unat b" for a b :: "'a::len word"
  by (auto simp: checked_sub_def)

lemma checked_mul_Some [checked_simps]:
  "checked_mul a b = Some c \<longleftrightarrow> unat a * unat b < 2 ^ LENGTH('a) \<and> unat c = unat a * unat b"
  for a b c :: "'a::len word"
proof -
  have "unat (a * b) = unat a * unat b" if "unat a * unat b < 2 ^ LENGTH('a)"
    using that by (simp add: unat_word_ariths)
  then show ?thesis by (auto simp: checked_mul_def word_unat_eq_iff)
qed

lemma checked_mul_None [checked_simps]:
  "checked_mul a b = None \<longleftrightarrow> 2 ^ LENGTH('a) \<le> unat a * unat b" for a b :: "'a::len word"
  by (auto simp: checked_mul_def)

text \<open>The checked operations as natural numbers read back into a word.\<close>

lemma checked_nat:
  fixes a b :: "'a::len word"
  shows "checked_add a b =
      (if unat a + unat b < 2 ^ LENGTH('a) then Some (of_nat (unat a + unat b)) else None)"
    and "checked_mul a b =
      (if unat a * unat b < 2 ^ LENGTH('a) then Some (of_nat (unat a * unat b)) else None)"
  by (simp_all add: checked_add_def checked_mul_def)

lemma unat_of_nat_u64: "n < 2 ^ 64 \<Longrightarrow> unat (of_nat n :: u64) = n"
  by (simp add: unat_of_nat)

lemma word_eq_of_nat: "unat w = n \<Longrightarrow> w = of_nat n"
  by (metis unsigned_0 of_nat_unat ucast_id)

lemma unat_saturating_add:
  "unat (saturating_add a b) = min (unat a + unat b) (2 ^ LENGTH('a) - 1)"
  for a b :: "'a::len word"
proof (cases "unat a + unat b < 2 ^ LENGTH('a)")
  case True
  then show ?thesis by (simp add: saturating_add_def unat_word_ariths)
next
  case False
  then show ?thesis by (simp add: saturating_add_def unsigned_minus_1_eq_mask mask_eq_exp_minus_1)
qed

lemma unat_div_ceil:
  assumes "0 < b"
  shows "unat (div_ceil a b) = (unat a + unat b - 1) div unat b"
proof -
  let ?x = "unat a" and ?y = "unat b"
  have y: "0 < ?y" using assms by (simp add: word_greater_zero_iff unat_gt_0)
  have x: "?x = ?x div ?y * ?y + ?x mod ?y" by simp
  have m: "?x mod ?y < ?y" using y by simp
  show ?thesis
  proof (cases "?x mod ?y = 0")
    case True
    then obtain k where k: "?x = ?y * k" by auto
    have "(?y * k + ?y - 1) div ?y = k"
    proof -
      have "?y * k + ?y - 1 = (?y - 1) + k * ?y" using y by (simp add: algebra_simps)
      moreover have "((?y - 1) + k * ?y) div ?y = k + (?y - 1) div ?y"
        using y by (intro div_mult_self1) simp
      moreover have "(?y - 1) div ?y = 0" using y by (intro div_less) simp
      ultimately show ?thesis by simp
    qed
    with True k y show ?thesis
      by (simp add: div_ceil_def unat_mod_distrib unat_div_distrib word_less_nat_alt)
  next
    case False
    have lt: "?x div ?y + 1 \<le> ?x"
    proof -
      have "?y \<noteq> 1" using False by auto
      then have "2 \<le> ?y" using y by simp
      have "?x div ?y + 1 \<le> ?x div ?y * ?y + ?x mod ?y"
      proof -
        have "?x div ?y \<le> ?x div ?y * ?y" using y by simp
        then show ?thesis using False by linarith
      qed
      with x show ?thesis by simp
    qed
    then have "unat (a div b + 1) = ?x div ?y + 1"
    proof -
      have "?x div ?y + 1 < 2 ^ LENGTH('a)" using lt unat_bound [of a] by linarith
      then show ?thesis by (simp add: unat_word_ariths unat_div_distrib)
    qed
    moreover have "(?x + ?y - 1) div ?y = ?x div ?y + 1"
    proof -
      have "?x + ?y - 1 = (?x div ?y + 1) * ?y + (?x mod ?y - 1)"
      proof -
        have "(?x div ?y + 1) * ?y = ?x div ?y * ?y + ?y" by simp
        moreover have "1 \<le> ?x mod ?y" using False by simp
        ultimately show ?thesis using x by linarith
      qed
      then have "(?x + ?y - 1) div ?y = ((?x mod ?y - 1) + (?x div ?y + 1) * ?y) div ?y"
        by (simp only: add.commute)
      also have "\<dots> = (?x div ?y + 1) + (?x mod ?y - 1) div ?y"
        using y by (intro div_mult_self1) simp
      also have "(?x mod ?y - 1) div ?y = 0"
        using m by (intro div_less) simp
      finally show ?thesis by simp
    qed
    ultimately show ?thesis
      using False by (simp add: div_ceil_def unat_mod_distrib word_less_nat_alt)
  qed
qed

section \<open>Little-endian byte order\<close>

fun le_of_nat :: "nat \<Rightarrow> nat \<Rightarrow> bytes" where
  "le_of_nat 0 n = []"
| "le_of_nat (Suc k) n = of_nat n # le_of_nat k (n div 256)"

fun nat_of_le :: "bytes \<Rightarrow> nat" where
  "nat_of_le [] = 0"
| "nat_of_le (b # bs) = unat b + 256 * nat_of_le bs"

text \<open>For evaluation at a numeral width.\<close>

lemma le_of_nat_numeral:
  "le_of_nat (numeral k) n = of_nat n # le_of_nat (pred_numeral k) (n div 256)"
  by (simp only: numeral_eq_Suc [of k] le_of_nat.simps(2))

lemma length_le_of_nat [simp]: "length (le_of_nat k n) = k"
  by (induction k arbitrary: n) auto

lemma nat_of_le_le_of_nat [le_simps]: "nat_of_le (le_of_nat k n) = n mod 256 ^ k"
proof (induction k arbitrary: n)
  case 0
  then show ?case by simp
next
  case (Suc k)
  have "n mod 256 ^ Suc k = n mod 256 + 256 * (n div 256 mod 256 ^ k)"
    by (simp add: mod_mult2_eq)
  then show ?case by (simp add: Suc.IH unat_of_nat)
qed

lemma nat_of_le_bound: "nat_of_le bs < 256 ^ length bs"
proof (induction bs)
  case Nil
  then show ?case by simp
next
  case (Cons b bs)
  have "unat b < 256" by (fact unat_byte)
  with Cons show ?case by simp
qed

lemma le_of_nat_nat_of_le [le_simps]: "le_of_nat (length bs) (nat_of_le bs) = bs"
proof (induction bs)
  case Nil
  then show ?case by simp
next
  case (Cons b bs)
  have b: "unat b < 256" by (fact unat_byte)
  have "of_nat (unat b + 256 * nat_of_le bs) = b"
  proof -
    have "unat (of_nat (unat b + 256 * nat_of_le bs) :: byte) = unat b"
      using b by (subst unat_of_nat) simp
    then show ?thesis by (simp add: word_unat_eq_iff)
  qed
  with Cons b show ?case by simp
qed

lemma le_of_nat_nat_of_le_len: "length bs = k \<Longrightarrow> le_of_nat k (nat_of_le bs) = bs"
  using le_of_nat_nat_of_le by blast

lemma le_of_nat_inj:
  "le_of_nat k m = le_of_nat k n \<Longrightarrow> m < 256 ^ k \<Longrightarrow> n < 256 ^ k \<Longrightarrow> m = n"
  by (metis mod_less nat_of_le_le_of_nat)

text \<open>\<open>to_le_bytes\<close> and \<open>from_le_bytes\<close> at the three widths the wire format uses.\<close>

definition u16_le :: "u16 \<Rightarrow> bytes" where "u16_le w = le_of_nat 2 (unat w)"
definition u32_le :: "u32 \<Rightarrow> bytes" where "u32_le w = le_of_nat 4 (unat w)"
definition u64_le :: "u64 \<Rightarrow> bytes" where "u64_le w = le_of_nat 8 (unat w)"

definition u16_from_le :: "bytes \<Rightarrow> u16" where "u16_from_le bs = of_nat (nat_of_le bs)"
definition u32_from_le :: "bytes \<Rightarrow> u32" where "u32_from_le bs = of_nat (nat_of_le bs)"
definition u64_from_le :: "bytes \<Rightarrow> u64" where "u64_from_le bs = of_nat (nat_of_le bs)"

lemma length_uN_le [simp]:
  "length (u16_le a) = 2" "length (u32_le b) = 4" "length (u64_le c) = 8"
  by (simp_all add: u16_le_def u32_le_def u64_le_def)

lemma u16_le_pair: "\<exists>lo hi. u16_le a = [lo, hi]"
  by (simp add: u16_le_def numeral_2_eq_2)

lemma uN_from_le_uN_le [simp]:
  "u16_from_le (u16_le a) = a" "u32_from_le (u32_le b) = b" "u64_from_le (u64_le c) = c"
  using unat_u16 [of a] unat_u32 [of b] unat_u64 [of c]
  by (simp_all add: u16_le_def u32_le_def u64_le_def u16_from_le_def u32_from_le_def
      u64_from_le_def le_simps)

lemma nat_of_le_zeros [simp]: "nat_of_le (bs @ replicate k 0) = nat_of_le bs"
proof (induction bs)
  case Nil
  show ?case by (induction k) simp_all
qed simp

lemma unat_uN_from_le:
  "length bs = 2 \<Longrightarrow> unat (u16_from_le bs) = nat_of_le bs"
  "length bs = 4 \<Longrightarrow> unat (u32_from_le bs) = nat_of_le bs"
  "length bs = 8 \<Longrightarrow> unat (u64_from_le bs) = nat_of_le bs"
  using nat_of_le_bound [of bs]
  by (simp_all add: u16_from_le_def u32_from_le_def u64_from_le_def unat_of_nat)

lemma uN_le_uN_from_le:
  "length bs = 2 \<Longrightarrow> u16_le (u16_from_le bs) = bs"
  "length bs = 4 \<Longrightarrow> u32_le (u32_from_le bs) = bs"
  "length bs = 8 \<Longrightarrow> u64_le (u64_from_le bs) = bs"
  by (simp_all add: u16_le_def u32_le_def u64_le_def unat_uN_from_le le_of_nat_nat_of_le_len)

lemma uN_le_inj [simp]:
  "u16_le a = u16_le a' \<longleftrightarrow> a = a'"
  "u32_le b = u32_le b' \<longleftrightarrow> b = b'"
  "u64_le c = u64_le c' \<longleftrightarrow> c = c'"
  by (metis uN_from_le_uN_le(1), metis uN_from_le_uN_le(2), metis uN_from_le_uN_le(3))

lemma length_concat_bound:
  "\<forall>x \<in> set xs. length (f x) \<le> k \<Longrightarrow> length (concat (map f xs)) \<le> k * length xs"
  by (induction xs) auto

lemma rmap_unit: "rmap f xs = Inr us \<longleftrightarrow> (\<forall>x \<in> set xs. f x = Inr ()) \<and> us = replicate (length xs) ()"
  for f :: "'a \<Rightarrow> 'e + unit"
  by (induction xs arbitrary: us) (auto simp: rbind_Inr_iff)

section \<open>Formatting\<close>

text \<open>A byte-string literal.\<close>

definition ascii :: "string \<Rightarrow> bytes" where
  "ascii s = map (\<lambda>c. of_nat (of_char c)) s"

lemma length_ascii [simp]: "length (ascii s) = length s"
  by (simp add: ascii_def)

text \<open>The lower-case hexadecimal digits of \<open>format!("{b:02x}")\<close>.\<close>

definition hex_digit :: "nat \<Rightarrow> char" where
  "hex_digit n = (if n < 10 then char_of (48 + n) else char_of (87 + n))"

definition hex_byte :: "byte \<Rightarrow> string" where
  "hex_byte b = [hex_digit (unat b div 16), hex_digit (unat b mod 16)]"

definition hex_string :: "bytes \<Rightarrow> string" where
  "hex_string bs = concat (map hex_byte bs)"

lemma of_char_hex_digit:
  "n < 16 \<Longrightarrow> of_char (hex_digit n) = (if n < 10 then 48 + n else 87 + n)"
  by (simp add: hex_digit_def)

lemma hex_digit_inj:
  assumes "m < 16" "n < 16" "hex_digit m = hex_digit n"
  shows "m = n"
proof -
  have "(of_char (hex_digit m) :: nat) = of_char (hex_digit n)" using assms by simp
  with assms(1,2) show ?thesis by (simp add: of_char_hex_digit split: if_splits)
qed

lemma hex_byte_inj: "hex_byte a = hex_byte b \<Longrightarrow> a = b"
proof -
  assume "hex_byte a = hex_byte b"
  then have "hex_digit (unat a div 16) = hex_digit (unat b div 16)"
    "hex_digit (unat a mod 16) = hex_digit (unat b mod 16)"
    by (simp_all add: hex_byte_def)
  moreover have "unat a div 16 < 16" "unat b div 16 < 16" "unat a mod 16 < 16" "unat b mod 16 < 16"
    using unat_byte [of a] unat_byte [of b] by auto
  ultimately have "unat a div 16 = unat b div 16" "unat a mod 16 = unat b mod 16"
    by (metis hex_digit_inj)+
  then have "unat a = unat b" by (metis div_mult_mod_eq)
  then show "a = b" by (simp add: word_unat_eq_iff)
qed

lemma hex_string_simps [simp]:
  "hex_string [] = []"
  "hex_string (b # bs) = hex_byte b @ hex_string bs"
  by (simp_all add: hex_string_def)

lemma hex_string_inj: "hex_string xs = hex_string ys \<Longrightarrow> xs = ys"
proof (induction xs arbitrary: ys)
  case Nil
  then show ?case by (cases ys) (auto simp: hex_byte_def)
next
  case (Cons x xs)
  then obtain y ys' where ys: "ys = y # ys'" by (cases ys) (auto simp: hex_byte_def)
  with Cons.prems have "hex_byte x = hex_byte y" "hex_string xs = hex_string ys'"
    by (auto simp: hex_byte_def)
  with Cons.IH ys show ?case by (auto dest: hex_byte_inj)
qed

lemma length_hex_string [simp]: "length (hex_string bs) = 2 * length bs"
  by (induction bs) (simp_all add: hex_byte_def)

end
