(* ===== verification/Codec.thy ===== *)
theory Codec
  imports Prelude
begin

text \<open>
  Reading bytes through a cursor.  Both bounds-checked readers of the code, the
  transaction \<open>Reader\<close> of \<open>verus-wire\<close> and the \<open>ScriptReader\<close> of
  \<open>verus-tx-protocol\<close>, are a byte slice with an offset into it; the methods take
  \<open>&mut self\<close> and return a \<open>Result\<close>, so an operation is a function from a cursor to an
  error or a value with the moved cursor.

  The locale \<open>codec\<close> is the contract between a writer and a reader of one kind of field,
  and every field of the wire format is an interpretation of it.
\<close>

section \<open>Cursors\<close>

record cursor =
  cur_bytes :: bytes
  cur_at :: nat

definition cursor_new :: "bytes \<Rightarrow> cursor" where
  "cursor_new bs = \<lparr>cur_bytes = bs, cur_at = 0\<rparr>"

text \<open>What has not been read yet; the invariant every method keeps; and moving forward.\<close>

definition rest :: "cursor \<Rightarrow> bytes" where
  "rest r = drop (cur_at r) (cur_bytes r)"

definition wf_cursor :: "cursor \<Rightarrow> bool" where
  "wf_cursor r \<longleftrightarrow> cur_at r \<le> length (cur_bytes r) \<and> length (cur_bytes r) < usize_bound"

definition advance :: "cursor \<Rightarrow> nat \<Rightarrow> cursor" where
  "advance r n = r\<lparr>cur_at := cur_at r + n\<rparr>"

lemma cursor_new_simps [simp]:
  "rest (cursor_new bs) = bs"
  "cur_bytes (cursor_new bs) = bs"
  "cur_at (cursor_new bs) = 0"
  "wf_cursor (cursor_new bs) \<longleftrightarrow> length bs < usize_bound"
  by (simp_all add: cursor_new_def rest_def wf_cursor_def)

lemma advance_simps [simp]:
  "cur_bytes (advance r n) = cur_bytes r"
  "cur_at (advance r n) = cur_at r + n"
  "rest (advance r n) = drop n (rest r)"
  "advance (advance r m) n = advance r (m + n)"
  "advance r 0 = r"
  by (simp_all add: advance_def rest_def add.commute add.assoc)

lemma length_rest: "length (rest r) = length (cur_bytes r) - cur_at r"
  by (simp add: rest_def)

lemma wf_advance [intro]: "wf_cursor r \<Longrightarrow> n \<le> length (rest r) \<Longrightarrow> wf_cursor (advance r n)"
  by (auto simp: wf_cursor_def length_rest)

lemma wf_rest_bound: "wf_cursor r \<Longrightarrow> length (rest r) < usize_bound"
  by (auto simp: wf_cursor_def length_rest)

lemma advance_inj: "advance r m = advance r n \<Longrightarrow> m = n"
  by (metis add_left_cancel advance_simps(2))

text \<open>Reading \<open>xs\<close> moves \<open>r\<close> to \<open>r'\<close>: what was consumed is exactly \<open>xs\<close>.\<close>

definition reads :: "cursor \<Rightarrow> bytes \<Rightarrow> cursor \<Rightarrow> bool" where
  "reads r xs r' \<longleftrightarrow> r' = advance r (length xs) \<and> rest r = xs @ rest r'"

lemma reads_Nil [simp]: "reads r [] r' \<longleftrightarrow> r' = r"
  by (auto simp: reads_def)

lemma reads_append [trans]: "reads r xs r1 \<Longrightarrow> reads r1 ys r2 \<Longrightarrow> reads r (xs @ ys) r2"
  unfolding reads_def by (metis advance_simps(4) append.assoc length_append)

lemma reads_advance: "reads r xs r' \<Longrightarrow> r' = advance r (length xs)"
  and reads_rest: "reads r xs r' \<Longrightarrow> rest r = xs @ rest r'"
  unfolding reads_def by blast+

lemma reads_wf: "wf_cursor r \<Longrightarrow> reads r xs r' \<Longrightarrow> wf_cursor r'"
  unfolding reads_def by (metis le_add1 length_append wf_advance)

section \<open>Readers\<close>

type_synonym ('e, 'a) rd = "cursor \<Rightarrow> 'e + 'a \<times> cursor"

definition rd_return :: "'a \<Rightarrow> ('e, 'a) rd" where
  "rd_return x r = Inr (x, r)"

definition rd_fail :: "'e \<Rightarrow> ('e, 'a) rd" where
  "rd_fail e r = Inl e"

definition rd_bind :: "('e, 'a) rd \<Rightarrow> ('a \<Rightarrow> ('e, 'b) rd) \<Rightarrow> ('e, 'b) rd" where
  "rd_bind m f r = (case m r of Inl e \<Rightarrow> Inl e | Inr (x, r') \<Rightarrow> f x r')"

text \<open>\<open>for _ in 0..count { out.push(item?) }\<close>.\<close>

fun rd_times :: "nat \<Rightarrow> ('e, 'a) rd \<Rightarrow> ('e, 'a list) rd" where
  "rd_times 0 m = rd_return []"
| "rd_times (Suc n) m = rd_bind m (\<lambda>x. rd_bind (rd_times n m) (\<lambda>xs. rd_return (x # xs)))"

named_theorems rd_simps \<open>rewriting a successful run of a reader\<close>

lemma rd_return_eq [simp]: "rd_return x r = Inr y \<longleftrightarrow> y = (x, r)"
  by (auto simp: rd_return_def)

lemma rd_fail_eq [simp]: "rd_fail e r = Inr y \<longleftrightarrow> False" "rd_fail e r = Inl e' \<longleftrightarrow> e' = e"
  by (auto simp: rd_fail_def)

lemma rd_bind_Inr_iff [rd_simps]:
  "rd_bind m f r = Inr y \<longleftrightarrow> (\<exists>x r'. m r = Inr (x, r') \<and> f x r' = Inr y)"
  by (auto simp: rd_bind_def split: sum.splits)

lemma rd_bind_run: "m r = Inr (x, r') \<Longrightarrow> rd_bind m f r = f x r'"
  by (simp add: rd_bind_def)

lemma rd_bind_err: "m r = Inl e \<Longrightarrow> rd_bind m f r = Inl e"
  by (simp add: rd_bind_def)

section \<open>The contract between a writer and a reader\<close>

text \<open>
  \<open>enc\<close> is what the writer appends, \<open>dec\<close> the reader, \<open>ok\<close> the values the type of the
  field allows.  Soundness: what was read is the writer's own bytes for the value
  returned, so no other spelling of it is accepted.  Completeness: the writer's bytes
  are read back, whatever follows them.
\<close>

locale codec =
  fixes enc :: "'a \<Rightarrow> bytes"
    and dec :: "('e, 'a) rd"
    and ok :: "'a \<Rightarrow> bool"
  assumes dec_sound: "wf_cursor r \<Longrightarrow> dec r = Inr (x, r') \<Longrightarrow>
      ok x \<and> r' = advance r (length (enc x)) \<and> rest r = enc x @ rest r'"
    and dec_complete: "wf_cursor r \<Longrightarrow> ok x \<Longrightarrow> rest r = enc x @ suf \<Longrightarrow>
      dec r = Inr (x, advance r (length (enc x)))"
begin

lemma dec_wf: "wf_cursor r \<Longrightarrow> dec r = Inr (x, r') \<Longrightarrow> wf_cursor r'"
  using dec_sound [of r x r'] by (metis length_append le_add1 wf_advance)

lemma dec_ok: "wf_cursor r \<Longrightarrow> dec r = Inr (x, r') \<Longrightarrow> ok x"
  using dec_sound by blast

lemma dec_rest: "wf_cursor r \<Longrightarrow> dec r = Inr (x, r') \<Longrightarrow> rest r = enc x @ rest r'"
  using dec_sound by blast

lemma dec_advance: "wf_cursor r \<Longrightarrow> dec r = Inr (x, r') \<Longrightarrow> r' = advance r (length (enc x))"
  using dec_sound by blast

lemma dec_reads: "wf_cursor r \<Longrightarrow> dec r = Inr (x, r') \<Longrightarrow> reads r (enc x) r'"
  using dec_sound unfolding reads_def by blast

text \<open>One step of a run of a longer reader that starts with this field.\<close>

lemma bind_soundE:
  assumes "rd_bind dec f r = Inr y" "wf_cursor r"
  obtains x r1 where "ok x" "reads r (enc x) r1" "wf_cursor r1" "f x r1 = Inr y"
  using assms by (auto simp: rd_simps dest: dec_ok dec_reads dec_wf)

lemma dec_run:
  assumes "wf_cursor r" "ok x" "rest r = enc x @ suf"
  obtains r1 where "wf_cursor r1" "reads r (enc x) r1" "rest r1 = suf" "dec r = Inr (x, r1)"
proof -
  have 1: "dec r = Inr (x, advance r (length (enc x)))"
    by (rule dec_complete [OF assms])
  moreover have "rest (advance r (length (enc x))) = suf" using assms(3) by simp
  ultimately show thesis using that dec_wf [OF assms(1) 1] dec_reads [OF assms(1) 1] by blast
qed

lemma dec_iff:
  "wf_cursor r \<Longrightarrow>
     dec r = Inr (x, r') \<longleftrightarrow>
       ok x \<and> r' = advance r (length (enc x)) \<and> rest r = enc x @ drop (length (enc x)) (rest r)"
  by (metis advance_simps(3) dec_complete dec_sound)

lemma bind_complete:
  "wf_cursor r \<Longrightarrow> ok x \<Longrightarrow> rest r = enc x @ suf \<Longrightarrow>
     rd_bind dec f r = f x (advance r (length (enc x)))"
  by (simp add: rd_bind_run dec_complete)

text \<open>The encoding is uniquely decodable: two encodings never share a prefix.\<close>

lemma enc_prefix_free:
  assumes "ok x" "ok y" "enc x @ s = enc y @ t" "length (enc x @ s) < usize_bound"
  shows "x = y \<and> s = t"
proof -
  let ?r = "cursor_new (enc x @ s)"
  have wf: "wf_cursor ?r" using assms(4) by simp
  have "dec ?r = Inr (x, advance ?r (length (enc x)))"
    using dec_complete [OF wf assms(1)] by simp
  moreover have "dec ?r = Inr (y, advance ?r (length (enc y)))"
    using dec_complete [OF wf assms(2)] assms(3) by simp
  ultimately have "x = y" by simp
  with assms(3) show ?thesis by simp
qed

end

text \<open>Introducing a codec for a structure from the runs of its fields.\<close>

lemma codec_intro:
  assumes "\<And>r x r'. wf_cursor r \<Longrightarrow> dec r = Inr (x, r') \<Longrightarrow> ok x \<and> reads r (enc x) r'"
    and "\<And>r x suf. wf_cursor r \<Longrightarrow> ok x \<Longrightarrow> rest r = enc x @ suf \<Longrightarrow>
      \<exists>r'. dec r = Inr (x, r') \<and> reads r (enc x) r'"
  shows "codec enc dec ok"
proof
  show "wf_cursor r \<Longrightarrow> dec r = Inr (x, r') \<Longrightarrow>
      ok x \<and> r' = advance r (length (enc x)) \<and> rest r = enc x @ rest r'" for r x r'
    using assms(1) unfolding reads_def by blast
  show "wf_cursor r \<Longrightarrow> ok x \<Longrightarrow> rest r = enc x @ suf \<Longrightarrow>
      dec r = Inr (x, advance r (length (enc x)))" for r x suf
    using assms(2) unfolding reads_def by blast
qed

text \<open>A field that always takes at least one byte can be repeated a known number of times.\<close>

locale codec_item = codec enc dec ok
  for enc :: "'a \<Rightarrow> bytes" and dec :: "('e, 'a) rd" and ok :: "'a \<Rightarrow> bool" +
  assumes enc_nonempty: "ok x \<Longrightarrow> enc x \<noteq> []"
begin

lemma length_concat_enc: "list_all ok xs \<Longrightarrow> length xs \<le> length (concat (map enc xs))"
proof (induction xs)
  case Nil
  then show ?case by simp
next
  case (Cons x xs)
  then have "1 \<le> length (enc x)" using enc_nonempty [of x] by (cases "enc x") auto
  with Cons show ?case by simp
qed

lemma concat_enc_inj:
  "list_all ok xs \<Longrightarrow> list_all ok ys \<Longrightarrow> concat (map enc xs) = concat (map enc ys) \<Longrightarrow>
     length (concat (map enc xs)) < usize_bound \<Longrightarrow> xs = ys"
proof (induction xs arbitrary: ys)
  case Nil
  then show ?case using enc_nonempty by (cases ys) auto
next
  case (Cons x xs)
  then obtain y ys' where ys: "ys = y # ys'" using enc_nonempty by (cases ys) auto
  with Cons.prems have "enc x @ concat (map enc xs) = enc y @ concat (map enc ys')" by simp
  then have "x = y \<and> concat (map enc xs) = concat (map enc ys')"
    by (rule enc_prefix_free [rotated 2]) (use Cons.prems ys in auto)
  with Cons ys show ?case by simp
qed

lemma times_sound:
  "wf_cursor r \<Longrightarrow> rd_times n dec r = Inr (xs, r') \<Longrightarrow>
     length xs = n \<and> list_all ok xs \<and> r' = advance r (length (concat (map enc xs))) \<and>
     rest r = concat (map enc xs) @ rest r'"
proof (induction n arbitrary: r xs)
  case 0
  then show ?case by auto
next
  case (Suc n)
  from Suc.prems(2) obtain x r1 ys where
    x: "dec r = Inr (x, r1)" and ys: "rd_times n dec r1 = Inr (ys, r')" and xs: "xs = x # ys"
    by (auto simp: rd_simps)
  note IH = Suc.IH [OF dec_wf [OF Suc.prems(1) x] ys]
  note hd = dec_sound [OF Suc.prems(1) x]
  have "r' = advance r (length (enc x) + length (concat (map enc ys)))"
    using IH hd by (metis advance_simps(4))
  moreover have "rest r = enc x @ concat (map enc ys) @ rest r'"
    using IH hd by metis
  moreover have "length ys = n" "list_all ok ys" "ok x"
    using IH hd by blast+
  ultimately show ?case using xs by simp
qed

lemma times_complete:
  "wf_cursor r \<Longrightarrow> list_all ok xs \<Longrightarrow> rest r = concat (map enc xs) @ suf \<Longrightarrow>
     rd_times (length xs) dec r = Inr (xs, advance r (length (concat (map enc xs))))"
proof (induction xs arbitrary: r)
  case Nil
  then show ?case by simp
next
  case (Cons x xs)
  from Cons.prems have x: "ok x" and xs: "list_all ok xs"
    and r: "rest r = enc x @ (concat (map enc xs) @ suf)" by simp_all
  let ?r1 = "advance r (length (enc x))"
  from x r Cons.prems(1) have 1: "dec r = Inr (x, ?r1)" by (blast intro: dec_complete)
  from r have "rest ?r1 = concat (map enc xs) @ suf" by simp
  from Cons.IH [OF dec_wf [OF Cons.prems(1) 1] xs this] 1
  show ?case by (simp add: rd_bind_def add.commute rd_return_def)
qed

end

section \<open>Lax readers\<close>

text \<open>
  A reader that accepts more than one spelling of a value is no \<open>codec\<close>.  \<open>decodes m bs x\<close>
  says that \<open>m\<close> reads \<open>bs\<close> as \<open>x\<close> whatever follows, \<open>yields m P\<close> that whatever \<open>m\<close> returns
  satisfies \<open>P\<close>.  Both are closed under the combinators, so a proof about a long reader is
  a derivation along its fields.
\<close>

definition rd_lift :: "'e + 'a \<Rightarrow> ('e, 'a) rd" where
  "rd_lift m r = (case m of Inl e \<Rightarrow> Inl e | Inr x \<Rightarrow> Inr (x, r))"

lemma rd_lift_eq [simp]: "rd_lift m r = Inr y \<longleftrightarrow> (\<exists>x. m = Inr x \<and> y = (x, r))"
  by (auto simp: rd_lift_def split: sum.splits)

definition decodes :: "('e, 'a) rd \<Rightarrow> bytes \<Rightarrow> 'a \<Rightarrow> bool" where
  "decodes m bs x \<longleftrightarrow> (\<forall>r suf. wf_cursor r \<longrightarrow> rest r = bs @ suf \<longrightarrow> m r = Inr (x, advance r (length bs)))"

definition yields :: "('e, 'a) rd \<Rightarrow> ('a \<Rightarrow> bool) \<Rightarrow> bool" where
  "yields m P \<longleftrightarrow> (\<forall>r x r'. wf_cursor r \<longrightarrow> m r = Inr (x, r') \<longrightarrow> P x \<and> wf_cursor r')"

named_theorems decodes_intros \<open>how a reader reads the bytes of its parts\<close>
named_theorems yields_intros \<open>what a reader returns\<close>

lemma decodesD: "decodes m bs x \<Longrightarrow> wf_cursor r \<Longrightarrow> rest r = bs @ suf \<Longrightarrow> m r = Inr (x, advance r (length bs))"
  unfolding decodes_def by blast

lemma yieldsD: "yields m P \<Longrightarrow> wf_cursor r \<Longrightarrow> m r = Inr (x, r') \<Longrightarrow> P x \<and> wf_cursor r'"
  unfolding yields_def by blast

lemma decodes_return [decodes_intros]: "decodes (rd_return x) [] x"
  by (simp add: decodes_def)

lemma decodes_lift [decodes_intros]: "m = Inr x \<Longrightarrow> decodes (rd_lift m) [] x"
  by (simp add: decodes_def)

lemma decodes_bind:
  assumes "decodes m xs a" "decodes (f a) ys b"
  shows "decodes (rd_bind m f) (xs @ ys) b"
  unfolding decodes_def
proof (intro allI impI)
  fix r suf
  assume r: "wf_cursor r" "rest r = (xs @ ys) @ suf"
  then have "m r = Inr (a, advance r (length xs))" using decodesD [OF assms(1), of r "ys @ suf"] by simp
  moreover have "f a (advance r (length xs)) = Inr (b, advance (advance r (length xs)) (length ys))"
    by (rule decodesD [OF assms(2)]) (use r in auto)
  ultimately show "rd_bind m f r = Inr (b, advance r (length (xs @ ys)))"
    by (simp add: rd_bind_def)
qed

lemma decodes_bind_Nil: "decodes m [] a \<Longrightarrow> decodes (f a) ys b \<Longrightarrow> decodes (rd_bind m f) ys b"
  using decodes_bind [of m "[]" a f ys b] by simp

lemma decodes_bind_last: "decodes m xs a \<Longrightarrow> decodes (f a) [] b \<Longrightarrow> decodes (rd_bind m f) xs b"
  using decodes_bind [of m xs a f "[]" b] by simp

lemma decodes_unless: "\<not> c \<Longrightarrow> decodes m bs x \<Longrightarrow> decodes (if c then e else m) bs x"
  by simp

lemma decodes_times [decodes_intros]:
  "(\<And>x. x \<in> set xs \<Longrightarrow> decodes m (enc x) x) \<Longrightarrow>
     decodes (rd_times (length xs) m) (concat (map enc xs)) xs"
proof (induction xs)
  case Nil
  show ?case by (simp add: decodes_return)
next
  case (Cons x xs)
  then have "decodes m (enc x) x" "decodes (rd_times (length xs) m) (concat (map enc xs)) xs" by auto
  from decodes_bind [OF this(1) decodes_bind_last [OF this(2) decodes_return]]
  show ?case by simp
qed

context codec
begin

lemma decodes_dec: "ok x \<Longrightarrow> decodes dec (enc x) x"
  unfolding decodes_def using dec_complete by blast

end

lemma yields_return [yields_intros]: "P x \<Longrightarrow> yields (rd_return x) P"
  by (simp add: yields_def)

lemma yields_fail [yields_intros]: "yields (rd_fail e) P"
  by (simp add: yields_def)

lemma yields_unless [yields_intros]: "(\<not> c \<Longrightarrow> yields m P) \<Longrightarrow> yields (if c then rd_fail e else m) P"
  by (simp add: yields_fail)

lemma yields_lift [yields_intros]: "(\<And>x. m = Inr x \<Longrightarrow> P x) \<Longrightarrow> yields (rd_lift m) P"
  by (auto simp: yields_def)

context codec
begin

lemma yields_dec: "yields dec ok"
  unfolding yields_def using dec_ok dec_wf by blast

end

lemma yields_bind:
  assumes "yields m P" "\<And>x. P x \<Longrightarrow> yields (f x) Q"
  shows "yields (rd_bind m f) Q"
  unfolding yields_def
proof (intro allI impI)
  fix r x r'
  assume r: "wf_cursor r" and run: "rd_bind m f r = Inr (x, r')"
  from run obtain y r1 where y: "m r = Inr (y, r1)" "f y r1 = Inr (x, r')"
    by (auto simp: rd_bind_Inr_iff)
  from yieldsD [OF assms(1) r y(1)] have "P y" "wf_cursor r1" by blast+
  from yieldsD [OF assms(2) [OF this(1)] this(2) y(2)] show "Q x \<and> wf_cursor r'" .
qed

lemma yields_mono: "yields m P \<Longrightarrow> (\<And>x. P x \<Longrightarrow> Q x) \<Longrightarrow> yields m Q"
  unfolding yields_def by blast

lemma yields_times [yields_intros]:
  assumes "yields m P"
  shows "yields (rd_times n m) (\<lambda>xs. length xs = n \<and> list_all P xs)"
proof (induction n)
  case 0
  show ?case by (simp add: yields_return)
next
  case (Suc n)
  show ?case
    unfolding rd_times.simps
    by (rule yields_bind [OF assms], rule yields_bind [OF Suc], rule yields_return) simp
qed

end
