(* ===== verification/Wire_Compact.thy ===== *)
theory Wire_Compact
  imports Codec
begin

text \<open>
  \<open>verus-wire\<close>: the error type (\<open>error.rs\<close>), CompactSize and length-prefixed slices
  (\<open>compact.rs\<close>), and the bounds-checked \<open>Reader\<close> of \<open>tx.rs\<close> that reads them back.
  Each primitive reader is interpreted as a \<open>codec\<close> against the bytes its writer
  appends; \<open>wire_item\<close> lifts an item codec to the counted vectors of the wire format.
\<close>

section \<open>Errors\<close>

datatype wire_error =
    MissingBindingSignature
  | MissingSpendAuthSignature nat
  | InputIndexOutOfRange nat nat
  | UnsupportedSighashType u32
  | SighashSingleWithoutOutput nat nat
  | TruncatedTransaction
  | TrailingBytes nat
  | NonCanonicalCompactSize
  | UnsupportedTransactionVersion u32
  | UnsupportedVersionGroup u32
  | JoinSplitsUnsupported u64

type_synonym 'a wire_rd = "(wire_error, 'a) rd"

section \<open>Writers\<close>

definition write_compact_size :: "bytes \<Rightarrow> u64 \<Rightarrow> bytes" where
  "write_compact_size buf n =
     (if n < 0xfd then buf @ [ucast n]
      else if n \<le> 0xffff then buf @ [0xfd] @ u16_le (ucast n)
      else if n \<le> 0xffffffff then buf @ [0xfe] @ u32_le (ucast n)
      else buf @ [0xff] @ u64_le n)"

definition write_var_slice :: "bytes \<Rightarrow> bytes \<Rightarrow> bytes" where
  "write_var_slice buf bs = write_compact_size buf (of_nat (length bs)) @ bs"

text \<open>Both append; what they append on their own is the encoding of the field.\<close>

abbreviation compact_bytes :: "u64 \<Rightarrow> bytes" where
  "compact_bytes n \<equiv> write_compact_size [] n"

abbreviation slice_bytes :: "bytes \<Rightarrow> bytes" where
  "slice_bytes bs \<equiv> write_var_slice [] bs"

lemma write_compact_size_append: "write_compact_size buf n = buf @ compact_bytes n"
  by (simp add: write_compact_size_def)

lemma write_var_slice_append: "write_var_slice buf bs = buf @ slice_bytes bs"
  by (simp add: write_var_slice_def write_compact_size_append [of buf])

lemma compact_bytes_nonempty [simp]: "compact_bytes n \<noteq> []"
  by (simp add: write_compact_size_def)

lemma length_compact_bytes:
  "length (compact_bytes n) =
     (if n < 0xfd then 1 else if n \<le> 0xffff then 3 else if n \<le> 0xffffffff then 5 else 9)"
  by (simp add: write_compact_size_def)

section \<open>The bounds-checked reader\<close>

definition reader_take :: "nat \<Rightarrow> bytes wire_rd" where
  "reader_take n r =
     (if usize_bound \<le> cur_at r + n then Inl TruncatedTransaction
      else if cur_at r + n \<le> length (cur_bytes r)
        then Inr (take n (drop (cur_at r) (cur_bytes r)), r\<lparr>cur_at := cur_at r + n\<rparr>)
      else Inl TruncatedTransaction)"

definition reader_u32 :: "u32 wire_rd" where
  "reader_u32 = rd_bind (reader_take 4) (\<lambda>b. rd_return (u32_from_le b))"

definition reader_u64 :: "u64 wire_rd" where
  "reader_u64 = rd_bind (reader_take 8) (\<lambda>b. rd_return (u64_from_le b))"

definition reader_array32 :: "bytes wire_rd" where
  "reader_array32 = reader_take 32"

definition reader_array64 :: "bytes wire_rd" where
  "reader_array64 = reader_take 64"

text \<open>The three wide forms are refused when a narrower one would have done.\<close>

definition compact_value :: "byte \<Rightarrow> u64 wire_rd" where
  "compact_value first =
     (if first = 0xfd then
        rd_bind (reader_take 2) (\<lambda>b. let n = ucast (u16_from_le b) :: u64 in
          if n < 0xfd then rd_fail NonCanonicalCompactSize else rd_return n)
      else if first = 0xfe then
        rd_bind (reader_take 4) (\<lambda>b. let n = ucast (u32_from_le b) :: u64 in
          if n \<le> 0xffff then rd_fail NonCanonicalCompactSize else rd_return n)
      else if first = 0xff then
        rd_bind (reader_take 8) (\<lambda>b. let n = u64_from_le b in
          if n \<le> 0xffffffff then rd_fail NonCanonicalCompactSize else rd_return n)
      else rd_return (ucast first))"

definition reader_compact_size :: "u64 wire_rd" where
  "reader_compact_size =
     rd_bind (reader_take 1) (\<lambda>b.
     rd_bind (compact_value (b ! 0)) (\<lambda>value r.
       if length (cur_bytes r) - cur_at r < unat value then Inl TruncatedTransaction
       else Inr (value, r)))"

definition reader_var_slice :: "bytes wire_rd" where
  "reader_var_slice = rd_bind reader_compact_size (\<lambda>n. reader_take (unat n))"

definition reader_expect_end :: "unit wire_rd" where
  "reader_expect_end r =
     (if cur_at r \<noteq> length (cur_bytes r)
      then Inl (TrailingBytes (length (cur_bytes r) - cur_at r)) else Inr ((), r))"

section \<open>The primitive readers invert the writers\<close>

lemma reader_take_iff:
  assumes "wf_cursor r"
  shows "reader_take n r = Inr (xs, r') \<longleftrightarrow>
    n \<le> length (rest r) \<and> xs = take n (rest r) \<and> r' = advance r n"
  using assms
  by (auto simp: reader_take_def wf_cursor_def length_rest rest_def advance_def)

lemma reader_take_run:
  "wf_cursor r \<Longrightarrow> rest r = xs @ suf \<Longrightarrow> length xs = n \<Longrightarrow>
     reader_take n r = Inr (xs, advance r n)"
  by (simp add: reader_take_iff)

lemma reader_take_short:
  "wf_cursor r \<Longrightarrow> length (rest r) < n \<Longrightarrow> reader_take n r = Inl TruncatedTransaction"
  by (auto simp: reader_take_def wf_cursor_def length_rest)

interpretation raw: codec "\<lambda>xs. xs" "reader_take n" "\<lambda>xs. length xs = n" for n
  by unfold_locales (auto simp: reader_take_iff)

interpretation le32: codec u32_le reader_u32 "\<lambda>_. True"
proof
  fix r x r'
  assume r: "wf_cursor r" and "reader_u32 r = Inr (x, r')"
  then obtain n: "4 \<le> length (rest r)" and x: "x = u32_from_le (take 4 (rest r))"
    and r': "r' = advance r 4"
    by (auto simp: reader_u32_def rd_simps reader_take_iff)
  have "u32_le x = take 4 (rest r)" using n x by (simp add: uN_le_uN_from_le)
  then have "rest r = u32_le x @ drop 4 (rest r)" by simp
  with r' show "True \<and> r' = advance r (length (u32_le x)) \<and> rest r = u32_le x @ rest r'" by simp
next
  fix r x suf
  assume "wf_cursor r" "rest r = u32_le x @ suf"
  then show "reader_u32 r = Inr (x, advance r (length (u32_le x)))"
    by (simp add: reader_u32_def rd_bind_run [OF reader_take_run] rd_return_def)
qed

interpretation le64: codec u64_le reader_u64 "\<lambda>_. True"
proof
  fix r x r'
  assume r: "wf_cursor r" and "reader_u64 r = Inr (x, r')"
  then obtain n: "8 \<le> length (rest r)" and x: "x = u64_from_le (take 8 (rest r))"
    and r': "r' = advance r 8"
    by (auto simp: reader_u64_def rd_simps reader_take_iff)
  have "u64_le x = take 8 (rest r)" using n x by (simp add: uN_le_uN_from_le)
  then have "rest r = u64_le x @ drop 8 (rest r)" by simp
  with r' show "True \<and> r' = advance r (length (u64_le x)) \<and> rest r = u64_le x @ rest r'" by simp
next
  fix r x suf
  assume "wf_cursor r" "rest r = u64_le x @ suf"
  then show "reader_u64 r = Inr (x, advance r (length (u64_le x)))"
    by (simp add: reader_u64_def rd_bind_run [OF reader_take_run] rd_return_def)
qed

interpretation arr32: codec "\<lambda>xs. xs" reader_array32 "\<lambda>xs. length xs = 32"
  unfolding reader_array32_def by (fact raw.codec_axioms)

interpretation arr64: codec "\<lambda>xs. xs" reader_array64 "\<lambda>xs. length xs = 64"
  unfolding reader_array64_def by (fact raw.codec_axioms)

section \<open>CompactSize is canonical\<close>

lemma compact_bytes_nat:
  "compact_bytes v =
     (if unat v < 253 then [of_nat (unat v)]
      else if unat v \<le> 65535 then 0xfd # le_of_nat 2 (unat v)
      else if unat v \<le> 4294967295 then 0xfe # le_of_nat 4 (unat v)
      else 0xff # le_of_nat 8 (unat v))"
  by (auto simp: write_compact_size_def word_less_nat_alt word_le_nat_alt u16_le_def u32_le_def
      u64_le_def unat_ucast)

lemma compact_value_sound:
  assumes r: "wf_cursor r" and run: "compact_value b r = Inr (v, r')"
  shows "\<exists>xs. compact_bytes v = b # xs \<and> r' = advance r (length xs) \<and> take (length xs) (rest r) = xs"
proof -
  consider "b = 0xfd" | "b = 0xfe" | "b = 0xff" | "unat b < 253"
  proof -
    have "unat b < 253 \<or> unat b = 253 \<or> unat b = 254 \<or> unat b = 255"
      using unat_byte [of b] by linarith
    with that show thesis by (auto simp: word_unat_eq_iff)
  qed
  then show ?thesis
  proof cases
    case 1
    with r run obtain n: "2 \<le> length (rest r)" and v: "v = ucast (u16_from_le (take 2 (rest r)))"
      and ge: "253 \<le> unat v" and r': "r' = advance r 2"
      by (auto simp: compact_value_def rd_simps reader_take_iff Let_def word_less_nat_alt
          split: if_splits)
    let ?xs = "take 2 (rest r)"
    have u: "unat v = nat_of_le ?xs" using n v by (simp add: unat_uN_from_le)
    then have "unat v \<le> 65535" using nat_of_le_bound [of ?xs] n by simp
    with ge u n have "compact_bytes v = b # ?xs"
      using 1 by (simp add: compact_bytes_nat le_of_nat_nat_of_le_len)
    with r' n show ?thesis by (intro exI [of _ ?xs]) simp
  next
    case 2
    with r run obtain n: "4 \<le> length (rest r)" and v: "v = ucast (u32_from_le (take 4 (rest r)))"
      and ge: "65535 < unat v" and r': "r' = advance r 4"
      by (auto simp: compact_value_def rd_simps reader_take_iff Let_def word_le_nat_alt
          split: if_splits)
    let ?xs = "take 4 (rest r)"
    have u: "unat v = nat_of_le ?xs" using n v by (simp add: unat_uN_from_le)
    then have "unat v \<le> 4294967295" using nat_of_le_bound [of ?xs] n by simp
    with ge u n have "compact_bytes v = b # ?xs"
      using 2 by (simp add: compact_bytes_nat le_of_nat_nat_of_le_len)
    with r' n show ?thesis by (intro exI [of _ ?xs]) simp
  next
    case 3
    with r run obtain n: "8 \<le> length (rest r)" and v: "v = u64_from_le (take 8 (rest r))"
      and ge: "4294967295 < unat v" and r': "r' = advance r 8"
      by (auto simp: compact_value_def rd_simps reader_take_iff Let_def word_le_nat_alt
          split: if_splits)
    let ?xs = "take 8 (rest r)"
    have u: "unat v = nat_of_le ?xs" using n v by (simp add: unat_uN_from_le)
    with ge n have "compact_bytes v = b # ?xs"
      using 3 by (simp add: compact_bytes_nat le_of_nat_nat_of_le_len)
    with r' n show ?thesis by (intro exI [of _ ?xs]) simp
  next
    case 4
    then have "b \<noteq> 0xfd" "b \<noteq> 0xfe" "b \<noteq> 0xff" by auto
    with run have v: "v = ucast b" and r': "r' = r" by (auto simp: compact_value_def)
    with 4 have "compact_bytes v = [b]" by (simp add: compact_bytes_nat)
    with r' show ?thesis by simp
  qed
qed

lemma compact_value_complete:
  assumes r: "wf_cursor r" and b: "compact_bytes v = b # xs" and xs: "rest r = xs @ suf"
  shows "compact_value b r = Inr (v, advance r (length xs))"
proof -
  consider "unat v < 253" | "253 \<le> unat v" "unat v \<le> 65535"
    | "65535 < unat v" "unat v \<le> 4294967295" | "4294967295 < unat v" by linarith
  then show ?thesis
  proof cases
    case 1
    then have "b = of_nat (unat v)" and [simp]: "xs = []" using b by (auto simp: compact_bytes_nat)
    then have u: "unat b = unat v" using 1 by (simp add: unat_ucast)
    then have "b \<noteq> 0xfd" "b \<noteq> 0xfe" "b \<noteq> 0xff" using 1 by (auto simp: word_unat_eq_iff)
    moreover have "ucast b = v" using u by (simp add: word_unat_eq_iff)
    ultimately show ?thesis by (simp add: compact_value_def rd_return_def)
  next
    case 2
    then have bv: "b = 0xfd" and x: "xs = u16_le (ucast v)"
      using b by (auto simp: compact_bytes_nat u16_le_def unat_ucast)
    have "ucast (ucast v :: u16) = v" using 2 by (simp add: word_unat_eq_iff unat_ucast)
    with 2 bv x r xs show ?thesis
      by (simp add: compact_value_def rd_bind_run [OF reader_take_run] Let_def rd_return_def
          word_less_nat_alt unat_ucast)
  next
    case 3
    then have bv: "b = 0xfe" and x: "xs = u32_le (ucast v)"
      using b by (auto simp: compact_bytes_nat u32_le_def unat_ucast)
    have "ucast (ucast v :: u32) = v" using 3 by (simp add: word_unat_eq_iff unat_ucast)
    with 3 bv x r xs show ?thesis
      by (simp add: compact_value_def rd_bind_run [OF reader_take_run] Let_def rd_return_def
          word_le_nat_alt unat_ucast)
  next
    case 4
    then have bv: "b = 0xff" and x: "xs = u64_le v"
      using b by (auto simp: compact_bytes_nat u64_le_def)
    with 4 r xs show ?thesis
      by (simp add: compact_value_def rd_bind_run [OF reader_take_run] Let_def rd_return_def
          word_le_nat_alt unat_ucast)
  qed
qed

text \<open>
  The reader of a count also refuses a count larger than what is left, so the bytes that
  follow matter: completeness asks for at least as many bytes as the count says.
\<close>

lemma compact_size_sound:
  assumes r: "wf_cursor r" and run: "reader_compact_size r = Inr (v, r')"
  shows "r' = advance r (length (compact_bytes v))"
    and "rest r = compact_bytes v @ rest r'"
    and "unat v \<le> length (rest r')"
    and "wf_cursor r'"
proof -
  from r run obtain b r1 where n: "1 \<le> length (rest r)" and b: "b = rest r ! 0"
    and r1: "r1 = advance r 1" and v: "compact_value b r1 = Inr (v, r')"
    and bound: "unat v \<le> length (cur_bytes r') - cur_at r'"
    by (auto simp: reader_compact_size_def rd_simps reader_take_iff not_less split: if_splits)
  from n b have hd: "rest r = b # rest r1" using r1 by (cases "rest r") auto
  have wf1: "wf_cursor r1" using r n r1 by blast
  from compact_value_sound [OF wf1 v] obtain xs where
    xs: "compact_bytes v = b # xs" "r' = advance r1 (length xs)" "take (length xs) (rest r1) = xs"
    by blast
  then have t: "rest r1 = xs @ rest r'" by (metis advance_simps(3) append_take_drop_id)
  show "r' = advance r (length (compact_bytes v))" using xs r1 by simp
  show "rest r = compact_bytes v @ rest r'" using hd t xs(1) by simp
  show "unat v \<le> length (rest r')" using bound by (simp add: length_rest)
  show "wf_cursor r'"
    using wf1 xs(2) t by (metis le_add1 length_append wf_advance)
qed

lemma compact_size_complete:
  assumes r: "wf_cursor r" and suf: "rest r = compact_bytes v @ suf" and n: "unat v \<le> length suf"
  shows "reader_compact_size r = Inr (v, advance r (length (compact_bytes v)))"
proof -
  obtain b xs where b: "compact_bytes v = b # xs" by (cases "compact_bytes v") auto
  let ?r1 = "advance r 1"
  have take: "reader_take 1 r = Inr ([b], ?r1)"
    using r suf b by (intro reader_take_run) auto
  have wf1: "wf_cursor ?r1" using r suf b by (intro wf_advance) auto
  have rest1: "rest ?r1 = xs @ suf" using suf b by simp
  have "length (cur_bytes r) - cur_at r = length (rest r)" by (simp add: length_rest)
  then have len: "length (cur_bytes r) - (cur_at r + (1 + length xs)) = length suf"
    using suf b by (simp add: length_rest)
  show ?thesis
    using take compact_value_complete [OF wf1 b rest1] n len b
    by (simp add: reader_compact_size_def rd_bind_def)
qed

interpretation var_slice: codec slice_bytes reader_var_slice "\<lambda>xs. length xs < usize_bound"
proof
  fix r :: cursor and xs r'
  assume r: "wf_cursor r" and run: "reader_var_slice r = Inr (xs, r')"
  then obtain n r1 where 1: "reader_compact_size r = Inr (n, r1)"
    and 2: "reader_take (unat n) r1 = Inr (xs, r')"
    by (auto simp: reader_var_slice_def rd_simps)
  note c = compact_size_sound [OF r 1]
  from 2 c(4) have xs: "unat n \<le> length (rest r1)" "xs = take (unat n) (rest r1)"
    "r' = advance r1 (unat n)"
    by (simp_all add: reader_take_iff)
  then have len: "length xs = unat n" by simp
  then have sl: "slice_bytes xs = compact_bytes n @ xs" by (simp add: write_var_slice_def)
  have "rest r1 = xs @ rest r'" using xs by (metis advance_simps(3) append_take_drop_id)
  then have "rest r = slice_bytes xs @ rest r'" using c(2) sl by simp
  moreover have "r' = advance r (length (slice_bytes xs))"
    using c(1) sl len xs(3) by simp
  moreover have "length xs < usize_bound" using len unat_u64 [of n] by simp
  ultimately show "length xs < usize_bound \<and> r' = advance r (length (slice_bytes xs)) \<and>
      rest r = slice_bytes xs @ rest r'"
    by blast
next
  fix r :: cursor and xs suf
  assume r: "wf_cursor r" and len: "length xs < usize_bound" and suf: "rest r = slice_bytes xs @ suf"
  let ?n = "of_nat (length xs) :: u64"
  have n: "unat ?n = length xs" using len by (simp add: unat_of_nat)
  from suf have suf': "rest r = compact_bytes ?n @ (xs @ suf)" by (simp add: write_var_slice_def)
  have 1: "reader_compact_size r = Inr (?n, advance r (length (compact_bytes ?n)))"
    by (rule compact_size_complete [OF r suf']) (use n in simp)
  have "reader_take (length xs) (advance r (length (compact_bytes ?n))) =
      Inr (xs, advance r (length (compact_bytes ?n) + length xs))"
    using reader_take_run [OF compact_size_sound(4) [OF r 1], of xs suf "length xs"] suf' by simp
  with 1 n show "reader_var_slice r = Inr (xs, advance r (length (slice_bytes xs)))"
    by (simp add: reader_var_slice_def rd_bind_def write_var_slice_def)
qed

section \<open>Counted vectors\<close>

definition write_vec :: "('a \<Rightarrow> bytes) \<Rightarrow> 'a list \<Rightarrow> bytes" where
  "write_vec enc xs = compact_bytes (of_nat (length xs)) @ concat (map enc xs)"

definition reader_vec :: "'a wire_rd \<Rightarrow> 'a list wire_rd" where
  "reader_vec dec = rd_bind reader_compact_size (\<lambda>n. rd_times (unat n) dec)"

locale wire_item = codec_item enc dec ok
  for enc :: "'a \<Rightarrow> bytes" and dec :: "'a wire_rd" and ok :: "'a \<Rightarrow> bool"
begin

lemma vec_sound:
  assumes r: "wf_cursor r" and run: "reader_vec dec r = Inr (xs, r')"
  shows "list_all ok xs \<and> r' = advance r (length (write_vec enc xs)) \<and>
    rest r = write_vec enc xs @ rest r'"
proof -
  from run obtain n r1 where 1: "reader_compact_size r = Inr (n, r1)"
    and 2: "rd_times (unat n) dec r1 = Inr (xs, r')"
    by (auto simp: reader_vec_def rd_simps)
  note c = compact_size_sound [OF r 1]
  note t = times_sound [OF c(4) 2]
  then have v: "write_vec enc xs = compact_bytes n @ concat (map enc xs)"
    by (simp add: write_vec_def)
  have "rest r = write_vec enc xs @ rest r'" using c(2) t v by (metis append.assoc)
  moreover have "r' = advance r (length (write_vec enc xs))"
    using c(1) t v by (metis advance_simps(4) length_append)
  ultimately show ?thesis using t by blast
qed

lemma vec_complete:
  assumes r: "wf_cursor r" and xs: "list_all ok xs" and suf: "rest r = write_vec enc xs @ suf"
  shows "reader_vec dec r = Inr (xs, advance r (length (write_vec enc xs)))"
proof -
  let ?n = "of_nat (length xs) :: u64"
  from suf have suf': "rest r = compact_bytes ?n @ (concat (map enc xs) @ suf)"
    by (simp add: write_vec_def)
  have le: "length xs \<le> length (concat (map enc xs))" by (rule length_concat_enc [OF xs])
  moreover have "length (concat (map enc xs)) \<le> length (rest r)" using suf' by simp
  ultimately have "length xs < usize_bound" using wf_rest_bound [OF r] by linarith
  then have n: "unat ?n = length xs" by (simp add: unat_of_nat)
  have 1: "reader_compact_size r = Inr (?n, advance r (length (compact_bytes ?n)))"
    by (rule compact_size_complete [OF r suf']) (use n le in simp)
  have "rest (advance r (length (compact_bytes ?n))) = concat (map enc xs) @ suf"
    using suf' by simp
  from times_complete [OF compact_size_sound(4) [OF r 1] xs this] 1 n
  show ?thesis by (simp add: reader_vec_def rd_bind_def write_vec_def)
qed

end

sublocale wire_item \<subseteq> vec: codec "write_vec enc" "reader_vec dec" "list_all ok"
  by unfold_locales (blast dest: vec_sound, blast intro: vec_complete)

section \<open>Properties\<close>

text \<open>
  A count is read exactly when the bytes at the cursor are the one canonical encoding
  of it and at least that many bytes follow.  No other spelling of a number is accepted,
  and no declared count is believed beyond what is left to read.
\<close>

theorem compact_size_accepts:
  assumes "wf_cursor r"
  shows "reader_compact_size r = Inr (v, r') \<longleftrightarrow>
    (\<exists>suf. rest r = compact_bytes v @ suf \<and> unat v \<le> length suf \<and>
       r' = advance r (length (compact_bytes v)))"
  using compact_size_sound [OF assms, of v r'] compact_size_complete [OF assms, of v] by auto

theorem compact_size_accepts_witness:
  "reader_compact_size (cursor_new [2, 7, 8]) = Inr (2, advance (cursor_new [2, 7, 8]) 1) \<and>
   reader_compact_size (cursor_new [3, 7, 8]) \<noteq> Inr (3, advance (cursor_new [3, 7, 8]) 1)"
  using compact_size_accepts [of "cursor_new [2, 7, 8]" 2 "advance (cursor_new [2, 7, 8]) 1"]
    compact_size_accepts [of "cursor_new [3, 7, 8]" 3 "advance (cursor_new [3, 7, 8]) 1"]
  by (simp add: compact_bytes_nat)

end
