(* ===== verification/Wire_Tx.thy ===== *)
theory Wire_Tx
  imports Wire_Compact
begin

text \<open>
  \<open>verus-wire/src/tx.rs\<close> and \<open>consensus.rs\<close>: the v4 transaction, its serializer and its
  parser.  The four kinds of item (inputs, outputs, shielded spends, shielded outputs) are
  interpretations of \<open>wire_item\<close>, so both directions of the round trip of a whole
  transaction are compositions of the facts of the fields.
\<close>

section \<open>Constants\<close>

definition V4_HEADER :: u32 where "V4_HEADER = 0x80000004"
definition SAPLING_VERSION_GROUP_ID :: u32 where "SAPLING_VERSION_GROUP_ID = 0x892f2085"
definition VERUS_BRANCH_ID :: u32 where "VERUS_BRANCH_ID = 0x76b809bb"
definition SPEND_BODY_LEN :: nat where "SPEND_BODY_LEN = 320"
definition SHIELDED_OUTPUT_LEN :: nat where "SHIELDED_OUTPUT_LEN = 948"

section \<open>Data\<close>

record tx_in =
  in_txid :: bytes
  in_vout :: u32
  in_sequence :: u32
  in_script_sig :: bytes

definition tx_in_unsigned :: "bytes \<Rightarrow> u32 \<Rightarrow> u32 \<Rightarrow> tx_in" where
  "tx_in_unsigned txid vout sequence =
     \<lparr>in_txid = txid, in_vout = vout, in_sequence = sequence, in_script_sig = []\<rparr>"

record tx_out =
  out_value :: u64
  out_script_pubkey :: bytes

record shielded_spend =
  spend_body :: bytes
  spend_auth_sig :: "bytes option"

definition shielded_spend_unsigned :: "bytes \<Rightarrow> shielded_spend" where
  "shielded_spend_unsigned body = \<lparr>spend_body = body, spend_auth_sig = None\<rparr>"

record tx_v4 =
  tx_inputs :: "tx_in list"
  tx_outputs :: "tx_out list"
  tx_lock_time :: u32
  tx_expiry_height :: u32
  tx_value_balance :: i64
  tx_shielded_spends :: "shielded_spend list"
  tx_shielded_outputs :: "bytes list"
  tx_binding_sig :: "bytes option"

definition tx_default :: tx_v4 where
  "tx_default = \<lparr>tx_inputs = [], tx_outputs = [], tx_lock_time = 0, tx_expiry_height = 0,
     tx_value_balance = 0, tx_shielded_spends = [], tx_shielded_outputs = [],
     tx_binding_sig = None\<rparr>"

definition is_shielded :: "tx_v4 \<Rightarrow> bool" where
  "is_shielded t \<longleftrightarrow> tx_shielded_spends t \<noteq> [] \<or> tx_shielded_outputs t \<noteq> []"

text \<open>
  The invariant of the Rust types: a transaction id is \<open>[u8; 32]\<close> and a signature
  \<open>[u8; 64]\<close>, and no vector is longer than the address space.
\<close>

definition wf_tx_in :: "tx_in \<Rightarrow> bool" where
  "wf_tx_in i \<longleftrightarrow> length (in_txid i) = 32 \<and> length (in_script_sig i) < usize_bound"

definition wf_tx_out :: "tx_out \<Rightarrow> bool" where
  "wf_tx_out out \<longleftrightarrow> length (out_script_pubkey out) < usize_bound"

definition wf_spend :: "shielded_spend \<Rightarrow> bool" where
  "wf_spend s \<longleftrightarrow> pred_option (\<lambda>sig. length sig = 64) (spend_auth_sig s)"

definition wf_tx :: "tx_v4 \<Rightarrow> bool" where
  "wf_tx t \<longleftrightarrow> list_all wf_tx_in (tx_inputs t) \<and> list_all wf_tx_out (tx_outputs t) \<and>
     list_all wf_spend (tx_shielded_spends t) \<and>
     pred_option (\<lambda>sig. length sig = 64) (tx_binding_sig t)"

section \<open>Serialization\<close>

fun write_inputs :: "bytes \<Rightarrow> tx_in list \<Rightarrow> bytes" where
  "write_inputs tx [] = tx"
| "write_inputs tx (i # is) =
     write_inputs
       (write_var_slice (tx @ in_txid i @ u32_le (in_vout i)) (in_script_sig i)
         @ u32_le (in_sequence i)) is"

fun write_outputs :: "bytes \<Rightarrow> tx_out list \<Rightarrow> bytes" where
  "write_outputs tx [] = tx"
| "write_outputs tx (out # outs) =
     write_outputs (write_var_slice (tx @ u64_le (out_value out)) (out_script_pubkey out)) outs"

fun write_spends :: "nat \<Rightarrow> bytes \<Rightarrow> shielded_spend list \<Rightarrow> wire_error + bytes" where
  "write_spends index tx [] = Inr tx"
| "write_spends index tx (s # ss) =
     rbind (ok_or (spend_auth_sig s) (MissingSpendAuthSignature index))
       (\<lambda>sig. write_spends (Suc index) (tx @ spend_body s @ sig) ss)"

definition serialize :: "tx_v4 \<Rightarrow> wire_error + bytes" where
  "serialize t =
     rbind (refuse_if (is_shielded t \<and> tx_binding_sig t = None) MissingBindingSignature) (\<lambda>_.
       let tx = u32_le V4_HEADER @ u32_le SAPLING_VERSION_GROUP_ID;
           tx = write_inputs (write_compact_size tx (of_nat (length (tx_inputs t)))) (tx_inputs t);
           tx = write_outputs (write_compact_size tx (of_nat (length (tx_outputs t)))) (tx_outputs t);
           tx = tx @ u32_le (tx_lock_time t) @ u32_le (tx_expiry_height t)
                   @ u64_le (tx_value_balance t);
           tx = write_compact_size tx (of_nat (length (tx_shielded_spends t)))
       in rbind (write_spends 0 tx (tx_shielded_spends t)) (\<lambda>tx.
            let tx = write_compact_size tx (of_nat (length (tx_shielded_outputs t)));
                tx = tx @ concat (tx_shielded_outputs t);
                tx = write_compact_size tx 0
            in if is_shielded t
               then rbind (ok_or (tx_binding_sig t) MissingBindingSignature) (\<lambda>sig. Inr (tx @ sig))
               else Inr tx))"

section \<open>Parsing\<close>

definition reader_input :: "tx_in wire_rd" where
  "reader_input =
     rd_bind reader_array32 (\<lambda>txid.
     rd_bind reader_u32 (\<lambda>vout.
     rd_bind reader_var_slice (\<lambda>script_sig.
     rd_bind reader_u32 (\<lambda>sequence.
     rd_return \<lparr>in_txid = txid, in_vout = vout, in_sequence = sequence,
                in_script_sig = script_sig\<rparr>))))"

definition reader_output :: "tx_out wire_rd" where
  "reader_output =
     rd_bind reader_u64 (\<lambda>value.
     rd_bind reader_var_slice (\<lambda>script_pubkey.
     rd_return \<lparr>out_value = value, out_script_pubkey = script_pubkey\<rparr>))"

definition reader_spend :: "shielded_spend wire_rd" where
  "reader_spend =
     rd_bind (reader_take SPEND_BODY_LEN) (\<lambda>body.
     rd_bind reader_array64 (\<lambda>sig.
     rd_return \<lparr>spend_body = body, spend_auth_sig = Some sig\<rparr>))"

definition reader_binding :: "bool \<Rightarrow> bytes option wire_rd" where
  "reader_binding shielded =
     (if shielded then rd_bind reader_array64 (\<lambda>sig. rd_return (Some sig)) else rd_return None)"

definition reader_tx :: "tx_v4 wire_rd" where
  "reader_tx =
     rd_bind reader_u32 (\<lambda>header.
     if header \<noteq> V4_HEADER then rd_fail (UnsupportedTransactionVersion header) else
     rd_bind reader_u32 (\<lambda>group.
     if group \<noteq> SAPLING_VERSION_GROUP_ID then rd_fail (UnsupportedVersionGroup group) else
     rd_bind (reader_vec reader_input) (\<lambda>inputs.
     rd_bind (reader_vec reader_output) (\<lambda>outputs.
     rd_bind reader_u32 (\<lambda>lock_time.
     rd_bind reader_u32 (\<lambda>expiry_height.
     rd_bind reader_u64 (\<lambda>value_balance.
     rd_bind (reader_vec reader_spend) (\<lambda>spends.
     rd_bind (reader_vec (reader_take SHIELDED_OUTPUT_LEN)) (\<lambda>shielded_outputs.
     rd_bind reader_compact_size (\<lambda>join_splits.
     if join_splits \<noteq> 0 then rd_fail (JoinSplitsUnsupported join_splits) else
     rd_bind (reader_binding (spends \<noteq> [] \<or> shielded_outputs \<noteq> [])) (\<lambda>binding_sig.
     rd_bind reader_expect_end (\<lambda>_.
     rd_return \<lparr>tx_inputs = inputs, tx_outputs = outputs, tx_lock_time = lock_time,
        tx_expiry_height = expiry_height, tx_value_balance = value_balance,
        tx_shielded_spends = spends, tx_shielded_outputs = shielded_outputs,
        tx_binding_sig = binding_sig\<rparr>))))))))))))"

definition deserialize :: "bytes \<Rightarrow> wire_error + tx_v4" where
  "deserialize bs = rbind (reader_tx (cursor_new bs)) (\<lambda>(t, _). Inr t)"

section \<open>The encodings of the items\<close>

definition input_bytes :: "tx_in \<Rightarrow> bytes" where
  "input_bytes i =
     in_txid i @ u32_le (in_vout i) @ slice_bytes (in_script_sig i) @ u32_le (in_sequence i)"

definition output_bytes :: "tx_out \<Rightarrow> bytes" where
  "output_bytes out = u64_le (out_value out) @ slice_bytes (out_script_pubkey out)"

definition spend_bytes :: "shielded_spend \<Rightarrow> bytes" where
  "spend_bytes s = spend_body s @ (case spend_auth_sig s of None \<Rightarrow> [] | Some sig \<Rightarrow> sig)"

text \<open>What a spend must be for its bytes to say where it ends.\<close>

definition signed_spend :: "shielded_spend \<Rightarrow> bool" where
  "signed_spend s \<longleftrightarrow> length (spend_body s) = SPEND_BODY_LEN \<and>
     (\<exists>sig. spend_auth_sig s = Some sig \<and> length sig = 64)"

lemma write_inputs_eq: "write_inputs tx is = tx @ concat (map input_bytes is)"
  by (induction "is" arbitrary: tx)
    (simp_all add: input_bytes_def write_var_slice_append [of "_ @ _"])

lemma write_outputs_eq: "write_outputs tx outs = tx @ concat (map output_bytes outs)"
  by (induction outs arbitrary: tx)
    (simp_all add: output_bytes_def write_var_slice_append [of "_ @ _"])

lemma write_spends_Inr_iff:
  "write_spends n tx ss = Inr bs \<longleftrightarrow>
     (\<forall>s \<in> set ss. spend_auth_sig s \<noteq> None) \<and> bs = tx @ concat (map spend_bytes ss)"
proof (induction ss arbitrary: n tx)
  case Nil
  then show ?case by auto
next
  case (Cons s ss)
  then show ?case by (cases "spend_auth_sig s") (auto simp: spend_bytes_def)
qed

interpretation txin: wire_item input_bytes reader_input wf_tx_in
proof (intro wire_item.intro codec_item.intro codec_item_axioms.intro codec_intro)
  fix r i r'
  assume "wf_cursor r" "reader_input r = Inr (i, r')"
  then show "wf_tx_in i \<and> reads r (input_bytes i) r'"
    unfolding reader_input_def
    by (elim arr32.bind_soundE le32.bind_soundE var_slice.bind_soundE)
      (auto simp: input_bytes_def wf_tx_in_def intro!: reads_append)
next
  fix r i suf
  assume r: "wf_cursor r" and i: "wf_tx_in i" and suf: "rest r = input_bytes i @ suf"
  obtain r1 where r1: "wf_cursor r1" "reads r (in_txid i) r1"
      "rest r1 = u32_le (in_vout i) @ slice_bytes (in_script_sig i) @ u32_le (in_sequence i) @ suf"
      "reader_array32 r = Inr ((in_txid i), r1)"
    by (rule arr32.dec_run [OF r, of "in_txid i"])
      (use i suf in \<open>auto simp: input_bytes_def wf_tx_in_def\<close>)
  obtain r2 where r2: "wf_cursor r2" "reads r1 (u32_le (in_vout i)) r2"
      "rest r2 = slice_bytes (in_script_sig i) @ u32_le (in_sequence i) @ suf"
      "reader_u32 r1 = Inr ((in_vout i), r2)"
    using le32.dec_run [OF r1(1) _ r1(3)] by blast
  obtain r3 where r3: "wf_cursor r3" "reads r2 (slice_bytes (in_script_sig i)) r3"
      "rest r3 = u32_le (in_sequence i) @ suf"
      "reader_var_slice r2 = Inr ((in_script_sig i), r3)"
    using var_slice.dec_run [OF r2(1) _ r2(3)] i unfolding wf_tx_in_def by blast
  obtain r4 where r4: "reads r3 (u32_le (in_sequence i)) r4"
      "reader_u32 r3 = Inr ((in_sequence i), r4)"
    using le32.dec_run [OF r3(1) _ r3(3)] by blast
  have "reader_input r = Inr (i, r4)"
    using r1(4) r2(4) r3(4) r4(2) by (simp add: reader_input_def rd_bind_def rd_return_def)
  moreover have "reads r (input_bytes i) r4"
    using r1(2) r2(2) r3(2) r4(1) by (simp add: input_bytes_def) (blast intro: reads_append)
  ultimately show "\<exists>r'. reader_input r = Inr (i, r') \<and> reads r (input_bytes i) r'" by blast
next
  show "wf_tx_in i \<Longrightarrow> input_bytes i \<noteq> []" for i
    by (auto simp: input_bytes_def wf_tx_in_def)
qed

interpretation txout: wire_item output_bytes reader_output wf_tx_out
proof (intro wire_item.intro codec_item.intro codec_item_axioms.intro codec_intro)
  fix r out r'
  assume "wf_cursor r" "reader_output r = Inr (out, r')"
  then show "wf_tx_out out \<and> reads r (output_bytes out) r'"
    unfolding reader_output_def
    by (elim le64.bind_soundE var_slice.bind_soundE)
      (auto simp: output_bytes_def wf_tx_out_def intro!: reads_append)
next
  fix r out suf
  assume r: "wf_cursor r" and out: "wf_tx_out out" and suf: "rest r = output_bytes out @ suf"
  obtain r1 where r1: "wf_cursor r1" "reads r (u64_le (out_value out)) r1"
      "rest r1 = slice_bytes (out_script_pubkey out) @ suf"
      "reader_u64 r = Inr ((out_value out), r1)"
    by (rule le64.dec_run [OF r, of "out_value out"]) (use suf in \<open>auto simp: output_bytes_def\<close>)
  obtain r2 where r2: "reads r1 (slice_bytes (out_script_pubkey out)) r2"
      "reader_var_slice r1 = Inr ((out_script_pubkey out), r2)"
    using var_slice.dec_run [OF r1(1) _ r1(3)] out unfolding wf_tx_out_def by blast
  have "reader_output r = Inr (out, r2)"
    using r1(4) r2(2) by (simp add: reader_output_def rd_bind_def rd_return_def)
  moreover have "reads r (output_bytes out) r2"
    using r1(2) r2(1) by (simp add: output_bytes_def) (blast intro: reads_append)
  ultimately show "\<exists>r'. reader_output r = Inr (out, r') \<and> reads r (output_bytes out) r'" by blast
next
  show "output_bytes out \<noteq> []" for out
    by (metis append_is_Nil_conv length_0_conv length_uN_le(3) output_bytes_def zero_neq_numeral)
qed

interpretation spendd: wire_item spend_bytes reader_spend signed_spend
proof (intro wire_item.intro codec_item.intro codec_item_axioms.intro codec_intro)
  fix r s r'
  assume "wf_cursor r" "reader_spend r = Inr (s, r')"
  then show "signed_spend s \<and> reads r (spend_bytes s) r'"
    unfolding reader_spend_def
    by (elim raw.bind_soundE arr64.bind_soundE)
      (auto simp: spend_bytes_def signed_spend_def intro!: reads_append)
next
  fix r s suf
  assume r: "wf_cursor r" and s: "signed_spend s" and suf: "rest r = spend_bytes s @ suf"
  from s obtain sig where sig: "spend_auth_sig s = Some sig" "length sig = 64"
    by (auto simp: signed_spend_def)
  obtain r1 where r1: "wf_cursor r1" "reads r (spend_body s) r1" "rest r1 = sig @ suf"
      "reader_take SPEND_BODY_LEN r = Inr ((spend_body s), r1)"
    by (rule raw.dec_run [OF r, of "spend_body s" SPEND_BODY_LEN])
      (use s sig suf in \<open>auto simp: spend_bytes_def signed_spend_def\<close>)
  obtain r2 where r2: "reads r1 sig r2" "reader_array64 r1 = Inr (sig, r2)"
    using arr64.dec_run [OF r1(1) sig(2) r1(3)] by blast
  have "reader_spend r = Inr (s, r2)"
    using r1(4) r2(2) sig by (simp add: reader_spend_def rd_bind_def rd_return_def)
  moreover have "reads r (spend_bytes s) r2"
    using r1(2) r2(1) sig by (simp add: spend_bytes_def) (blast intro: reads_append)
  ultimately show "\<exists>r'. reader_spend r = Inr (s, r') \<and> reads r (spend_bytes s) r'" by blast
next
  show "signed_spend s \<Longrightarrow> spend_bytes s \<noteq> []" for s
    by (auto simp: spend_bytes_def signed_spend_def SPEND_BODY_LEN_def)
qed

interpretation shielded_out: wire_item "\<lambda>xs. xs" "reader_take SHIELDED_OUTPUT_LEN"
    "\<lambda>xs. length xs = SHIELDED_OUTPUT_LEN"
  by unfold_locales (auto simp: SHIELDED_OUTPUT_LEN_def)

section \<open>The bytes of a transaction\<close>

definition tx_body_bytes :: "tx_v4 \<Rightarrow> bytes" where
  "tx_body_bytes t =
     u32_le V4_HEADER @ u32_le SAPLING_VERSION_GROUP_ID @
     write_vec input_bytes (tx_inputs t) @ write_vec output_bytes (tx_outputs t) @
     u32_le (tx_lock_time t) @ u32_le (tx_expiry_height t) @ u64_le (tx_value_balance t) @
     write_vec spend_bytes (tx_shielded_spends t) @
     write_vec (\<lambda>xs. xs) (tx_shielded_outputs t) @ compact_bytes 0"

definition binding_bytes :: "tx_v4 \<Rightarrow> bytes" where
  "binding_bytes t = (case tx_binding_sig t of None \<Rightarrow> [] | Some sig \<Rightarrow> if is_shielded t then sig else [])"

text \<open>
  The transactions the wire format can hold: signed spends and output descriptions of
  the protocol's sizes, and a binding signature exactly when something is shielded.
\<close>

definition canonical_tx :: "tx_v4 \<Rightarrow> bool" where
  "canonical_tx t \<longleftrightarrow> list_all wf_tx_in (tx_inputs t) \<and> list_all wf_tx_out (tx_outputs t) \<and>
     list_all signed_spend (tx_shielded_spends t) \<and>
     list_all (\<lambda>xs. length xs = SHIELDED_OUTPUT_LEN) (tx_shielded_outputs t) \<and>
     (case tx_binding_sig t of None \<Rightarrow> \<not> is_shielded t
      | Some sig \<Rightarrow> is_shielded t \<and> length sig = 64)"

lemma serialize_Inr_iff:
  "serialize t = Inr bs \<longleftrightarrow>
     (is_shielded t \<longrightarrow> tx_binding_sig t \<noteq> None) \<and>
     (\<forall>s \<in> set (tx_shielded_spends t). spend_auth_sig s \<noteq> None) \<and>
     bs = tx_body_bytes t @ binding_bytes t"
  by (auto simp: serialize_def result_simps Let_def write_spends_Inr_iff write_inputs_eq
      write_outputs_eq write_vec_def write_compact_size_append [of "_ @ _"]
      tx_body_bytes_def binding_bytes_def split: option.splits)

lemma canonical_serialize:
  "canonical_tx t \<Longrightarrow> serialize t = Inr (tx_body_bytes t @ binding_bytes t)"
  by (auto simp: serialize_Inr_iff canonical_tx_def list_all_iff signed_spend_def
      split: option.splits)

lemma zero_count_sound:
  "wf_cursor r \<Longrightarrow> reader_compact_size r = Inr (n, r') \<Longrightarrow> reads r (compact_bytes n) r' \<and> wf_cursor r'"
  using compact_size_sound [of r n r'] unfolding reads_def by blast

lemma zero_count_run:
  assumes "wf_cursor r" "rest r = compact_bytes 0 @ suf"
  obtains r1 where "wf_cursor r1" "reads r (compact_bytes 0) r1" "rest r1 = suf"
    "reader_compact_size r = Inr (0, r1)"
proof -
  have 1: "reader_compact_size r = Inr (0, advance r (length (compact_bytes 0)))"
    by (rule compact_size_complete [OF assms]) simp
  with zero_count_sound [OF assms(1) 1] assms(2) show thesis
    by (intro that [of "advance r (length (compact_bytes 0))"]) auto
qed

text \<open>
  The part of the parser before the check for trailing bytes, as a relation between a
  cursor and what it reads: the fields in the order of the wire format.
\<close>

lemma expect_end_iff:
  "wf_cursor r \<Longrightarrow> reader_expect_end r = Inr (u, r') \<longleftrightarrow> r' = r \<and> rest r = []"
  by (auto simp: reader_expect_end_def rest_def wf_cursor_def)

lemma expect_end_trailing:
  "wf_cursor r \<Longrightarrow> rest r \<noteq> [] \<Longrightarrow> reader_expect_end r = Inl (TrailingBytes (length (rest r)))"
  by (auto simp: reader_expect_end_def rest_def wf_cursor_def)

lemma reader_binding_sound:
  assumes "wf_cursor r" "reader_binding b r = Inr (sig, r')"
  shows "(b \<longleftrightarrow> sig \<noteq> None) \<and> pred_option (\<lambda>s. length s = 64) sig \<and>
    reads r (case sig of None \<Rightarrow> [] | Some s \<Rightarrow> s) r' \<and> wf_cursor r'"
  using assms
  by (auto simp: reader_binding_def rd_simps dest: arr64.dec_ok arr64.dec_reads arr64.dec_wf
      split: if_splits)

lemma reader_binding_run:
  assumes "wf_cursor r" "b \<longleftrightarrow> sig \<noteq> None" "pred_option (\<lambda>s. length s = 64) sig"
    "rest r = (case sig of None \<Rightarrow> [] | Some s \<Rightarrow> s) @ suf"
  obtains r1 where "wf_cursor r1" "rest r1 = suf" "reader_binding b r = Inr (sig, r1)"
proof (cases sig)
  case None
  with assms that [of r] show thesis by (simp add: reader_binding_def rd_return_def)
next
  case (Some s)
  with assms have s: "length s = 64" and r: "rest r = s @ suf" and b: b by simp_all
  show thesis
    by (rule arr64.dec_run [OF assms(1) s r])
      (use that Some b in \<open>auto simp: reader_binding_def rd_bind_def rd_return_def\<close>)
qed

lemma reader_tx_sound:
  assumes r: "wf_cursor r" and run: "reader_tx r = Inr (t, r')"
  shows "canonical_tx t \<and> reads r (tx_body_bytes t @ binding_bytes t) r' \<and> rest r' = []"
proof -
  from run obtain r1 r2 ins r3 outs r4 lt r5 eh r6 vb r7 ss r8 so r9 r10 sig where
    h: "reader_u32 r = Inr (V4_HEADER, r1)" and g: "reader_u32 r1 = Inr (SAPLING_VERSION_GROUP_ID, r2)"
    and ins: "reader_vec reader_input r2 = Inr (ins, r3)"
    and outs: "reader_vec reader_output r3 = Inr (outs, r4)"
    and lt: "reader_u32 r4 = Inr (lt, r5)" and eh: "reader_u32 r5 = Inr (eh, r6)"
    and vb: "reader_u64 r6 = Inr (vb, r7)" and ss: "reader_vec reader_spend r7 = Inr (ss, r8)"
    and so: "reader_vec (reader_take SHIELDED_OUTPUT_LEN) r8 = Inr (so, r9)"
    and js: "reader_compact_size r9 = Inr (0, r10)"
    and bs: "reader_binding (ss \<noteq> [] \<or> so \<noteq> []) r10 = Inr (sig, r')" and e: "reader_expect_end r' = Inr ((), r')"
    and t: "t = \<lparr>tx_inputs = ins, tx_outputs = outs, tx_lock_time = lt, tx_expiry_height = eh,
      tx_value_balance = vb, tx_shielded_spends = ss, tx_shielded_outputs = so,
      tx_binding_sig = sig\<rparr>"
  proof -
    have e: "reader_expect_end q = Inr (u, q') \<Longrightarrow> q' = q" for q u q'
      by (auto simp: reader_expect_end_def split: if_splits)
    from run show thesis
      by (auto simp: reader_tx_def rd_simps split: if_splits dest: e intro!: that)
  qed
  note w1 = le32.dec_wf [OF r h] note w2 = le32.dec_wf [OF w1 g]
  note w3 = txin.vec.dec_wf [OF w2 ins] note w4 = txout.vec.dec_wf [OF w3 outs]
  note w5 = le32.dec_wf [OF w4 lt] note w6 = le32.dec_wf [OF w5 eh] note w7 = le64.dec_wf [OF w6 vb]
  note w8 = spendd.vec.dec_wf [OF w7 ss] note w9 = shielded_out.vec.dec_wf [OF w8 so]
  note c = zero_count_sound [OF w9 js] note b = reader_binding_sound [OF conjunct2 [OF c] bs]
  have sh: "is_shielded t \<longleftrightarrow> sig \<noteq> None" using b t by (simp add: is_shielded_def)
  have "canonical_tx t"
    using txin.vec.dec_ok [OF w2 ins] txout.vec.dec_ok [OF w3 outs] spendd.vec.dec_ok [OF w7 ss]
      shielded_out.vec.dec_ok [OF w8 so] b sh t
    by (auto simp: canonical_tx_def split: option.splits)
  moreover have "reads r (tx_body_bytes t) r10"
    unfolding tx_body_bytes_def t
    using le32.dec_reads [OF r h] le32.dec_reads [OF w1 g] txin.vec.dec_reads [OF w2 ins]
      txout.vec.dec_reads [OF w3 outs] le32.dec_reads [OF w4 lt] le32.dec_reads [OF w5 eh]
      le64.dec_reads [OF w6 vb] spendd.vec.dec_reads [OF w7 ss]
      shielded_out.vec.dec_reads [OF w8 so] c
    by simp (blast intro: reads_append)
  moreover have "reads r10 (binding_bytes t) r'"
    using b sh t by (auto simp: binding_bytes_def split: option.splits)
  ultimately show ?thesis using e b by (auto simp: expect_end_iff intro: reads_append)
qed

lemma reader_tx_run:
  assumes r: "wf_cursor r" and t: "canonical_tx t"
    and suf: "rest r = tx_body_bytes t @ binding_bytes t @ suf"
  obtains r1 where "wf_cursor r1" "rest r1 = suf"
    "reader_tx r = rd_bind reader_expect_end (\<lambda>_. rd_return t) r1"
proof -
  note ok = t [unfolded canonical_tx_def]
  let ?b8 = "write_vec (\<lambda>xs. xs) (tx_shielded_outputs t) @ compact_bytes 0 @ binding_bytes t @ suf"
  let ?b7 = "write_vec spend_bytes (tx_shielded_spends t) @ ?b8"
  let ?b6 = "u64_le (tx_value_balance t) @ ?b7"
  let ?b5 = "u32_le (tx_expiry_height t) @ ?b6"
  let ?b4 = "u32_le (tx_lock_time t) @ ?b5"
  let ?b3 = "write_vec output_bytes (tx_outputs t) @ ?b4"
  let ?b2 = "write_vec input_bytes (tx_inputs t) @ ?b3"
  let ?b1 = "u32_le SAPLING_VERSION_GROUP_ID @ ?b2"
  have b0: "rest r = u32_le V4_HEADER @ ?b1" using suf by (simp add: tx_body_bytes_def)
  obtain r1 where w1: "wf_cursor r1" and b1: "rest r1 = ?b1"
    and h: "reader_u32 r = Inr (V4_HEADER, r1)"
    by (rule le32.dec_run [OF r TrueI b0])
  obtain r2 where w2: "wf_cursor r2" and b2: "rest r2 = ?b2"
    and g: "reader_u32 r1 = Inr (SAPLING_VERSION_GROUP_ID, r2)"
    by (rule le32.dec_run [OF w1 TrueI b1])
  obtain r3 where w3: "wf_cursor r3" and b3: "rest r3 = ?b3"
    and ins: "reader_vec reader_input r2 = Inr (tx_inputs t, r3)"
    by (rule txin.vec.dec_run [OF w2 _ b2]) (use ok in auto)
  obtain r4 where w4: "wf_cursor r4" and b4: "rest r4 = ?b4"
    and outs: "reader_vec reader_output r3 = Inr (tx_outputs t, r4)"
    by (rule txout.vec.dec_run [OF w3 _ b3]) (use ok in auto)
  obtain r5 where w5: "wf_cursor r5" and b5: "rest r5 = ?b5"
    and lt: "reader_u32 r4 = Inr (tx_lock_time t, r5)"
    by (rule le32.dec_run [OF w4 TrueI b4])
  obtain r6 where w6: "wf_cursor r6" and b6: "rest r6 = ?b6"
    and eh: "reader_u32 r5 = Inr (tx_expiry_height t, r6)"
    by (rule le32.dec_run [OF w5 TrueI b5])
  obtain r7 where w7: "wf_cursor r7" and b7: "rest r7 = ?b7"
    and vb: "reader_u64 r6 = Inr (tx_value_balance t, r7)"
    by (rule le64.dec_run [OF w6 TrueI b6])
  obtain r8 where w8: "wf_cursor r8" and b8: "rest r8 = ?b8"
    and ss: "reader_vec reader_spend r7 = Inr (tx_shielded_spends t, r8)"
    by (rule spendd.vec.dec_run [OF w7 _ b7]) (use ok in auto)
  obtain r9 where w9: "wf_cursor r9" and b9: "rest r9 = compact_bytes 0 @ binding_bytes t @ suf"
    and so: "reader_vec (reader_take SHIELDED_OUTPUT_LEN) r8 = Inr (tx_shielded_outputs t, r9)"
    by (rule shielded_out.vec.dec_run [OF w8 _ b8]) (use ok in auto)
  obtain r10 where w10: "wf_cursor r10" and b10: "rest r10 = binding_bytes t @ suf"
    and js: "reader_compact_size r9 = Inr (0, r10)"
    by (rule zero_count_run [OF w9 b9])
  have sh: "is_shielded t \<longleftrightarrow> tx_binding_sig t \<noteq> None" using ok by (auto split: option.splits)
  obtain r11 where w11: "wf_cursor r11" and b11: "rest r11 = suf"
    and bs: "reader_binding (is_shielded t) r10 = Inr (tx_binding_sig t, r11)"
    by (rule reader_binding_run [OF w10 sh])
      (use ok b10 sh in \<open>auto simp: binding_bytes_def split: option.splits\<close>)
  have eta: "\<lparr>tx_inputs = tx_inputs t, tx_outputs = tx_outputs t, tx_lock_time = tx_lock_time t,
      tx_expiry_height = tx_expiry_height t, tx_value_balance = tx_value_balance t,
      tx_shielded_spends = tx_shielded_spends t, tx_shielded_outputs = tx_shielded_outputs t,
      tx_binding_sig = tx_binding_sig t\<rparr> = t" by simp
  have "reader_tx r = rd_bind reader_expect_end (\<lambda>_. rd_return t) r11"
    using h g ins outs lt eh vb ss so js bs
    by (simp add: reader_tx_def rd_bind_def is_shielded_def eta)
  with w11 b11 show thesis by (rule that)
qed

lemma deserialize_sound:
  assumes "length bs < usize_bound" "deserialize bs = Inr t"
  shows "canonical_tx t" and "serialize t = Inr bs"
proof -
  let ?r = "cursor_new bs"
  from assms(2) obtain r' where run: "reader_tx ?r = Inr (t, r')"
    by (auto simp: deserialize_def result_simps)
  have "wf_cursor ?r" using assms(1) by simp
  from reader_tx_sound [OF this run]
  have c: "canonical_tx t" and "rest ?r = (tx_body_bytes t @ binding_bytes t) @ rest r'"
    and "rest r' = []"
    unfolding reads_def by blast+
  then have bs: "bs = tx_body_bytes t @ binding_bytes t" by simp
  show "canonical_tx t" by (rule c)
  show "serialize t = Inr bs" using canonical_serialize [OF c] bs by simp
qed

lemma deserialize_followed_by:
  assumes "canonical_tx t" "serialize t = Inr bs" "length (bs @ suf) < usize_bound"
  shows "deserialize (bs @ suf) = (if suf = [] then Inr t else Inl (TrailingBytes (length suf)))"
proof -
  let ?r = "cursor_new (bs @ suf)"
  have r: "wf_cursor ?r" using assms(3) by simp
  have "rest ?r = tx_body_bytes t @ binding_bytes t @ suf"
    using canonical_serialize [OF assms(1)] assms(2) by simp
  then obtain r1 where r1: "wf_cursor r1" "rest r1 = suf"
    "reader_tx ?r = rd_bind reader_expect_end (\<lambda>_. rd_return t) r1"
    by (rule reader_tx_run [OF r assms(1)])
  show ?thesis
  proof (cases "suf = []")
    case True
    then have "reader_expect_end r1 = Inr ((), r1)" using r1 by (simp add: expect_end_iff)
    with True r1(3) show ?thesis by (simp add: deserialize_def rd_bind_def rd_return_def)
  next
    case False
    then have "reader_expect_end r1 = Inl (TrailingBytes (length suf))"
      using r1 expect_end_trailing [of r1] by simp
    with False r1(3) show ?thesis by (simp add: deserialize_def rd_bind_def)
  qed
qed

text \<open>Where serialization stops: the first spend without its signature.\<close>

fun first_unsigned :: "nat \<Rightarrow> shielded_spend list \<Rightarrow> nat option" where
  "first_unsigned n [] = None"
| "first_unsigned n (s # ss) =
     (if spend_auth_sig s = None then Some n else first_unsigned (Suc n) ss)"

lemma write_spends_first_unsigned:
  "write_spends n tx ss =
     (case first_unsigned n ss of Some k \<Rightarrow> Inl (MissingSpendAuthSignature k)
      | None \<Rightarrow> Inr (tx @ concat (map spend_bytes ss)))"
proof (induction ss arbitrary: n tx)
  case Nil
  then show ?case by simp
next
  case (Cons s ss)
  then show ?case by (cases "spend_auth_sig s") (simp_all add: spend_bytes_def [of s] split: option.splits)
qed

lemma first_unsigned_None: "first_unsigned n ss = None \<longleftrightarrow> (\<forall>s \<in> set ss. spend_auth_sig s \<noteq> None)"
  by (induction ss arbitrary: n) auto

lemma first_unsigned_Some:
  "first_unsigned n ss = Some k \<longleftrightarrow>
     (\<exists>j < length ss. k = n + j \<and> spend_auth_sig (ss ! j) = None \<and>
        (\<forall>i < j. spend_auth_sig (ss ! i) \<noteq> None))"
proof (induction ss arbitrary: n)
  case Nil
  then show ?case by simp
next
  case (Cons s ss)
  show ?case
  proof (cases "spend_auth_sig s = None")
    case True
    then show ?thesis by (auto simp: Ex_less_Suc2 All_less_Suc2)
  next
    case False
    then show ?thesis by (auto simp: Ex_less_Suc2 All_less_Suc2 Cons.IH)
  qed
qed

section \<open>Properties\<close>

text \<open>
  C1: parsing accepts exactly the bytes serialization produces.  A byte string parses to a
  transaction if and only if that transaction is one the wire format can hold and its
  serialization is that very byte string; so the parser inverts the serializer, and no
  two different byte strings parse to the same transaction.
\<close>

theorem deserialize_iff_serialize:
  assumes "length bs < usize_bound"
  shows "deserialize bs = Inr t \<longleftrightarrow> canonical_tx t \<and> serialize t = Inr bs"
  using assms deserialize_sound [of bs t] deserialize_followed_by [of t bs "[]"] by auto

text \<open>A transaction with one input and one output, and its bytes.\<close>

definition sample_tx :: tx_v4 where
  "sample_tx = tx_default\<lparr>
     tx_inputs := [tx_in_unsigned (replicate 32 0x11) 1 0xffffffff],
     tx_outputs := [\<lparr>out_value = 50000000, out_script_pubkey = [0x76, 0xa9]\<rparr>]\<rparr>"

definition sample_bytes :: bytes where
  "sample_bytes = [0x04, 0, 0, 0x80, 0x85, 0x20, 0x2f, 0x89, 1] @ replicate 32 0x11 @
     [1, 0, 0, 0, 0, 0xff, 0xff, 0xff, 0xff, 1, 0x80, 0xf0, 0xfa, 2, 0, 0, 0, 0, 2, 0x76, 0xa9] @
     [0, 0, 0, 0, 0, 0, 0, 0, 0, 0, 0, 0, 0, 0, 0, 0, 0, 0, 0]"

lemma sample_canonical: "canonical_tx sample_tx"
  by (simp add: canonical_tx_def sample_tx_def tx_default_def tx_in_unsigned_def wf_tx_in_def
      wf_tx_out_def is_shielded_def)

lemma sample_serialize: "serialize sample_tx = Inr sample_bytes"
  by (simp add: serialize_def sample_tx_def sample_bytes_def tx_default_def tx_in_unsigned_def
      is_shielded_def V4_HEADER_def SAPLING_VERSION_GROUP_ID_def u32_le_def u64_le_def
      write_compact_size_def write_var_slice_def le_of_nat_numeral)

theorem deserialize_iff_serialize_witness: "deserialize sample_bytes = Inr sample_tx"
proof -
  have "length sample_bytes < usize_bound" by (simp add: sample_bytes_def)
  from deserialize_iff_serialize [OF this, of sample_tx]
  show ?thesis using sample_canonical sample_serialize by blast
qed

text \<open>
  Bytes after a complete transaction are refused, whatever they are, and the error
  says how many there were.
\<close>

theorem deserialize_refuses_trailing:
  assumes "canonical_tx t" "serialize t = Inr bs" "extra \<noteq> []"
    and "length (bs @ extra) < usize_bound"
  shows "deserialize (bs @ extra) = Inl (TrailingBytes (length extra))"
  using deserialize_followed_by [OF assms(1,2,4)] assms(3) by simp

theorem deserialize_refuses_trailing_witness:
  "deserialize (sample_bytes @ [0xab, 0xcd]) = Inl (TrailingBytes 2)"
  using deserialize_refuses_trailing [OF sample_canonical sample_serialize, of "[0xab, 0xcd]"]
  by (simp add: sample_bytes_def)

text \<open>
  When serialization fails and with which error.  A shielded transaction without a
  binding signature is refused first; otherwise the only failure is a shielded spend
  without its spend-auth signature, reported by the index of the first such spend.
\<close>

theorem serialize_errors:
  "serialize t = Inl e \<longleftrightarrow>
     (if is_shielded t \<and> tx_binding_sig t = None then e = MissingBindingSignature
      else \<exists>k < length (tx_shielded_spends t). e = MissingSpendAuthSignature k \<and>
        spend_auth_sig (tx_shielded_spends t ! k) = None \<and>
        (\<forall>j < k. spend_auth_sig (tx_shielded_spends t ! j) \<noteq> None))"
proof (cases "is_shielded t \<and> tx_binding_sig t = None")
  case True
  then show ?thesis by (auto simp: serialize_def)
next
  case False
  then have ok: "serialize t = Inl e \<longleftrightarrow>
      (\<exists>k. first_unsigned 0 (tx_shielded_spends t) = Some k \<and> e = MissingSpendAuthSignature k)"
    by (auto simp: serialize_def Let_def write_spends_first_unsigned split: option.splits)
  with False show ?thesis by (auto simp: first_unsigned_Some)
qed

theorem serialize_errors_witness:
  "serialize (tx_default\<lparr>tx_shielded_spends := [shielded_spend_unsigned []],
      tx_binding_sig := Some []\<rparr>) = Inl (MissingSpendAuthSignature 0)"
  by (subst serialize_errors)
    (simp add: tx_default_def is_shielded_def shielded_spend_unsigned_def)

end
