(* ===== verification/Wire_Sighash.thy ===== *)
theory Wire_Sighash
  imports Wire_Tx
begin

text \<open>
  \<open>verus-wire/src/hash.rs\<close> and the ZIP-243 signature hashes of \<open>tx.rs\<close>.  BLAKE2b and
  SHA-256 come from third-party crates: they are the arguments \<open>b2\<close> (digest length,
  personalization, message) and \<open>sha\<close> of the definitions.
\<close>

section \<open>Hashes\<close>

type_synonym blake2b = "nat \<Rightarrow> bytes \<Rightarrow> bytes \<Rightarrow> bytes"
type_synonym sha256 = "bytes \<Rightarrow> bytes"

definition blake2b_personal :: "blake2b \<Rightarrow> bytes \<Rightarrow> bytes \<Rightarrow> bytes" where
  "blake2b_personal b2 personal msg = b2 32 personal msg"

definition sha256d :: "sha256 \<Rightarrow> bytes \<Rightarrow> bytes" where
  "sha256d sha msg = (let first = sha msg in sha first)"

definition txid_display :: "bytes \<Rightarrow> string" where
  "txid_display txid_internal = hex_string (rev txid_internal)"

definition tx_txid :: "sha256 \<Rightarrow> tx_v4 \<Rightarrow> wire_error + bytes" where
  "tx_txid sha t = rbind (serialize t) (\<lambda>bs. Inr (sha256d sha bs))"

section \<open>Consensus constants\<close>

definition SIGHASH_ALL :: u32 where "SIGHASH_ALL = 1"
definition SIGHASH_NONE :: u32 where "SIGHASH_NONE = 2"
definition SIGHASH_SINGLE :: u32 where "SIGHASH_SINGLE = 3"
definition SIGHASH_ANYONECANPAY :: u32 where "SIGHASH_ANYONECANPAY = 0x80"
definition SIGHASH_MASK :: u32 where "SIGHASH_MASK = 0x1f"

definition PREVOUT_PERSONAL :: bytes where "PREVOUT_PERSONAL = ascii ''ZcashPrevoutHash''"
definition SEQUENCE_PERSONAL :: bytes where "SEQUENCE_PERSONAL = ascii ''ZcashSequencHash''"
definition OUTPUTS_PERSONAL :: bytes where "OUTPUTS_PERSONAL = ascii ''ZcashOutputsHash''"
definition SHIELDED_SPENDS_PERSONAL :: bytes where
  "SHIELDED_SPENDS_PERSONAL = ascii ''ZcashSSpendsHash''"
definition SHIELDED_OUTPUTS_PERSONAL :: bytes where
  "SHIELDED_OUTPUTS_PERSONAL = ascii ''ZcashSOutputHash''"
definition SIGHASH_PREFIX :: bytes where "SIGHASH_PREFIX = ascii ''ZcashSigHash''"

lemmas sighash_consts =
  SIGHASH_ALL_def SIGHASH_NONE_def SIGHASH_SINGLE_def SIGHASH_ANYONECANPAY_def SIGHASH_MASK_def

definition sighash_personal :: "u32 \<Rightarrow> bytes" where
  "sighash_personal branch_id = SIGHASH_PREFIX @ u32_le branch_id"

section \<open>Signature hashes\<close>

definition zero_hash :: bytes where
  "zero_hash = replicate 32 0"

definition check_sighash_type :: "u32 \<Rightarrow> wire_error + unit" where
  "check_sighash_type hash_type =
     (let base = hash_type AND SIGHASH_MASK;
          known = base = SIGHASH_ALL \<or> base = SIGHASH_NONE \<or> base = SIGHASH_SINGLE;
          extra = hash_type AND NOT (SIGHASH_MASK OR SIGHASH_ANYONECANPAY)
      in if \<not> known \<or> extra \<noteq> 0 then Inl (UnsupportedSighashType hash_type) else Inr ())"

definition hash_descriptions :: "blake2b \<Rightarrow> bytes \<Rightarrow> bytes list \<Rightarrow> bytes" where
  "hash_descriptions b2 personal descriptions =
     (if descriptions = [] then zero_hash
      else blake2b_personal b2 personal (concat descriptions))"

definition prevout_data :: "tx_v4 \<Rightarrow> bytes" where
  "prevout_data t = concat (map (\<lambda>i. in_txid i @ u32_le (in_vout i)) (tx_inputs t))"

definition sequence_data :: "tx_v4 \<Rightarrow> bytes" where
  "sequence_data t = concat (map (\<lambda>i. u32_le (in_sequence i)) (tx_inputs t))"

definition output_data :: "tx_out \<Rightarrow> bytes" where
  "output_data out = write_var_slice (u64_le (out_value out)) (out_script_pubkey out)"

definition sighash_prefix_for :: "blake2b \<Rightarrow> tx_v4 \<Rightarrow> u32 \<Rightarrow> nat \<Rightarrow> bytes" where
  "sighash_prefix_for b2 t hash_type input_index =
     (let base = hash_type AND SIGHASH_MASK;
          anyone_can_pay = hash_type AND SIGHASH_ANYONECANPAY \<noteq> 0;
          hash_prevouts =
            (if anyone_can_pay then zero_hash
             else blake2b_personal b2 PREVOUT_PERSONAL (prevout_data t));
          hash_sequence =
            (if anyone_can_pay \<or> base = SIGHASH_SINGLE \<or> base = SIGHASH_NONE then zero_hash
             else blake2b_personal b2 SEQUENCE_PERSONAL (sequence_data t));
          hash_outputs =
            (if base = SIGHASH_SINGLE then
               (if input_index < length (tx_outputs t)
                then blake2b_personal b2 OUTPUTS_PERSONAL (output_data (tx_outputs t ! input_index))
                else zero_hash)
             else if base = SIGHASH_NONE then zero_hash
             else blake2b_personal b2 OUTPUTS_PERSONAL (concat (map output_data (tx_outputs t))));
          hash_joinsplits = zero_hash;
          hash_shielded_spends =
            hash_descriptions b2 SHIELDED_SPENDS_PERSONAL (map spend_body (tx_shielded_spends t));
          hash_shielded_outputs =
            hash_descriptions b2 SHIELDED_OUTPUTS_PERSONAL (tx_shielded_outputs t)
      in u32_le V4_HEADER @ u32_le SAPLING_VERSION_GROUP_ID @ hash_prevouts @ hash_sequence @
         hash_outputs @ hash_joinsplits @ hash_shielded_spends @ hash_shielded_outputs @
         u32_le (tx_lock_time t) @ u32_le (tx_expiry_height t) @ u64_le (tx_value_balance t))"

definition sighash_prefix :: "blake2b \<Rightarrow> tx_v4 \<Rightarrow> bytes" where
  "sighash_prefix b2 t = sighash_prefix_for b2 t SIGHASH_ALL 0"

definition shielded_sighash :: "blake2b \<Rightarrow> tx_v4 \<Rightarrow> u32 \<Rightarrow> bytes" where
  "shielded_sighash b2 t branch_id =
     (let preimage = sighash_prefix b2 t @ u32_le SIGHASH_ALL
      in blake2b_personal b2 (sighash_personal branch_id) preimage)"

definition transparent_preimage ::
  "blake2b \<Rightarrow> tx_v4 \<Rightarrow> nat \<Rightarrow> tx_in \<Rightarrow> bytes \<Rightarrow> u64 \<Rightarrow> u32 \<Rightarrow> bytes" where
  "transparent_preimage b2 t input_index i script_code value hash_type =
     write_var_slice
       (sighash_prefix_for b2 t hash_type input_index @ u32_le hash_type
         @ in_txid i @ u32_le (in_vout i)) script_code
     @ u64_le value @ u32_le (in_sequence i)"

definition transparent_sighash ::
  "blake2b \<Rightarrow> tx_v4 \<Rightarrow> u32 \<Rightarrow> nat \<Rightarrow> bytes \<Rightarrow> u64 \<Rightarrow> u32 \<Rightarrow> wire_error + bytes" where
  "transparent_sighash b2 t branch_id input_index script_code value hash_type =
     rbind (check_sighash_type hash_type) (\<lambda>_.
     rbind (refuse_if (hash_type AND SIGHASH_MASK = SIGHASH_SINGLE \<and>
                       length (tx_outputs t) \<le> input_index)
              (SighashSingleWithoutOutput input_index (length (tx_outputs t)))) (\<lambda>_.
     rbind (if input_index < length (tx_inputs t) then Inr (tx_inputs t ! input_index)
            else Inl (InputIndexOutOfRange input_index (length (tx_inputs t)))) (\<lambda>i.
     Inr (blake2b_personal b2 (sighash_personal branch_id)
            (transparent_preimage b2 t input_index i script_code value hash_type)))))"

section \<open>Which hash types are signed\<close>

lemma check_sighash_type_iff:
  "check_sighash_type h = Inr u \<longleftrightarrow>
     (h AND SIGHASH_MASK) \<in> {SIGHASH_ALL, SIGHASH_NONE, SIGHASH_SINGLE} \<and>
     h AND NOT (SIGHASH_MASK OR SIGHASH_ANYONECANPAY) = 0"
  by (auto simp: check_sighash_type_def Let_def)

lemma check_sighash_type_err:
  "check_sighash_type h = Inr () \<or> check_sighash_type h = Inl (UnsupportedSighashType h)"
  by (auto simp: check_sighash_type_def Let_def)

lemma sighash_type_split:
  assumes "h AND NOT (SIGHASH_MASK OR SIGHASH_ANYONECANPAY) = 0"
  shows "h = (h AND SIGHASH_MASK) OR (h AND SIGHASH_ANYONECANPAY)"
proof -
  have "h = h AND (SIGHASH_MASK OR SIGHASH_ANYONECANPAY) OR
      h AND NOT (SIGHASH_MASK OR SIGHASH_ANYONECANPAY)"
    by (rule bit_eqI) (auto simp: bit_simps)
  then show ?thesis using assms by (simp add: bit.conj_disj_distrib)
qed

lemma anyonecanpay_cases: "h AND SIGHASH_ANYONECANPAY \<in> {0, SIGHASH_ANYONECANPAY}"
proof -
  have e: "SIGHASH_ANYONECANPAY = 2 ^ 7" by (simp add: sighash_consts)
  have "h AND SIGHASH_ANYONECANPAY = (if bit h 7 then SIGHASH_ANYONECANPAY else 0)"
  proof (rule bit_eqI)
    fix n
    have "bit SIGHASH_ANYONECANPAY n \<longleftrightarrow> n = 7"
      unfolding e by (simp only: bit_exp_iff) auto
    then show "bit (h AND SIGHASH_ANYONECANPAY) n =
        bit (if bit h 7 then SIGHASH_ANYONECANPAY else 0) n"
      by (auto simp: bit_and_iff)
  qed
  then show ?thesis by simp
qed

lemma check_sighash_type_known:
  "check_sighash_type h = Inr () \<longleftrightarrow> h \<in> {1, 2, 3, 0x81, 0x82, 0x83}"
proof
  assume "check_sighash_type h = Inr ()"
  then have m: "h AND SIGHASH_MASK \<in> {1, 2, 3}"
    and x: "h AND NOT (SIGHASH_MASK OR SIGHASH_ANYONECANPAY) = 0"
    by (auto simp: check_sighash_type_iff sighash_consts)
  from sighash_type_split [OF x] anyonecanpay_cases [of h] m
  show "h \<in> {1, 2, 3, 0x81, 0x82, 0x83}"
    by (auto simp: SIGHASH_ANYONECANPAY_def)
next
  assume "h \<in> {1, 2, 3, 0x81, 0x82, 0x83}"
  then show "check_sighash_type h = Inr ()"
    by (auto simp: check_sighash_type_iff sighash_consts)
qed

lemma transparent_sighash_Inr_iff:
  "transparent_sighash b2 t branch n script v h = Inr d \<longleftrightarrow>
     check_sighash_type h = Inr () \<and>
     (h AND SIGHASH_MASK = SIGHASH_SINGLE \<longrightarrow> n < length (tx_outputs t)) \<and>
     n < length (tx_inputs t) \<and>
     d = b2 32 (sighash_personal branch) (transparent_preimage b2 t n (tx_inputs t ! n) script v h)"
  by (auto simp: transparent_sighash_def result_simps blake2b_personal_def)

section \<open>What a signature under SIGHASH_ALL commits to\<close>

text \<open>
  The messages hashed on the way to one transparent signature hash, and the assumption
  that the hash shows no collision among a given set of them: the digests are 32 bytes,
  none of them is the all-zero digest that stands for an empty set of descriptions, and
  equal digests under one personalization come from equal messages.
\<close>

definition sighash_queries ::
  "blake2b \<Rightarrow> tx_v4 \<Rightarrow> u32 \<Rightarrow> nat \<Rightarrow> bytes \<Rightarrow> u64 \<Rightarrow> (bytes \<times> bytes) set" where
  "sighash_queries b2 t branch n script v =
     {(PREVOUT_PERSONAL, prevout_data t), (SEQUENCE_PERSONAL, sequence_data t),
      (OUTPUTS_PERSONAL, concat (map output_data (tx_outputs t))),
      (SHIELDED_SPENDS_PERSONAL, concat (map spend_body (tx_shielded_spends t))),
      (SHIELDED_OUTPUTS_PERSONAL, concat (tx_shielded_outputs t)),
      (sighash_personal branch,
       transparent_preimage b2 t n (tx_inputs t ! n) script v SIGHASH_ALL)}"

definition no_collision :: "blake2b \<Rightarrow> (bytes \<times> bytes) set \<Rightarrow> bool" where
  "no_collision b2 Q \<longleftrightarrow>
     (\<forall>(p, x) \<in> Q. length (b2 32 p x) = 32 \<and> b2 32 p x \<noteq> zero_hash) \<and>
     (\<forall>(p, x) \<in> Q. \<forall>(q, y) \<in> Q. p = q \<and> b2 32 p x = b2 32 q y \<longrightarrow> x = y)"

text \<open>Everything of a transaction but its signatures.\<close>

definition signed_view where
  "signed_view t =
     (map (\<lambda>i. (in_txid i, in_vout i)) (tx_inputs t), map in_sequence (tx_inputs t), tx_outputs t,
      map spend_body (tx_shielded_spends t), tx_shielded_outputs t,
      tx_lock_time t, tx_expiry_height t, tx_value_balance t)"

text \<open>The sizes the protocol fixes, and Rust's bound on the bytes a vector can hold.\<close>

definition sized_tx :: "tx_v4 \<Rightarrow> bool" where
  "sized_tx t \<longleftrightarrow> list_all wf_tx_in (tx_inputs t) \<and> list_all wf_tx_out (tx_outputs t) \<and>
     list_all (\<lambda>s. length (spend_body s) = SPEND_BODY_LEN) (tx_shielded_spends t) \<and>
     list_all (\<lambda>xs. length xs = SHIELDED_OUTPUT_LEN) (tx_shielded_outputs t) \<and>
     length (concat (map output_data (tx_outputs t))) < 2 ^ 63"

lemma no_collisionD:
  assumes "no_collision b2 Q" "(p, x) \<in> Q" "(p, y) \<in> Q" "b2 32 p x = b2 32 p y"
  shows "x = y"
  using assms by (fastforce simp: no_collision_def)

lemma no_collision_len: "no_collision b2 Q \<Longrightarrow> (p, x) \<in> Q \<Longrightarrow> length (b2 32 p x) = 32"
  and no_collision_nz: "no_collision b2 Q \<Longrightarrow> (p, x) \<in> Q \<Longrightarrow> b2 32 p x \<noteq> zero_hash"
  by (auto simp: no_collision_def)

lemma length_zero_hash [simp]: "length zero_hash = 32"
  by (simp add: zero_hash_def)

lemma output_data_eq: "output_data out = output_bytes out"
  by (simp add: output_data_def output_bytes_def write_var_slice_append [of "u64_le _"])

lemma slice_bytes_inj:
  assumes "slice_bytes xs = slice_bytes ys" "length xs < 2 ^ 63" "length ys < 2 ^ 63"
  shows "xs = ys"
proof -
  have "length (slice_bytes xs) < usize_bound"
    using assms(2) by (simp add: write_var_slice_def length_compact_bytes)
  with assms show ?thesis using var_slice.enc_prefix_free [of xs ys "[]" "[]"] by simp
qed

text \<open>The preimage under SIGHASH_ALL, field by field.\<close>

lemma preimage_all:
  "transparent_preimage b2 t n i script v SIGHASH_ALL =
     u32_le V4_HEADER @ u32_le SAPLING_VERSION_GROUP_ID @
     b2 32 PREVOUT_PERSONAL (prevout_data t) @ b2 32 SEQUENCE_PERSONAL (sequence_data t) @
     b2 32 OUTPUTS_PERSONAL (concat (map output_data (tx_outputs t))) @ zero_hash @
     hash_descriptions b2 SHIELDED_SPENDS_PERSONAL (map spend_body (tx_shielded_spends t)) @
     hash_descriptions b2 SHIELDED_OUTPUTS_PERSONAL (tx_shielded_outputs t) @
     u32_le (tx_lock_time t) @ u32_le (tx_expiry_height t) @ u64_le (tx_value_balance t) @
     u32_le SIGHASH_ALL @ in_txid i @ u32_le (in_vout i) @
     slice_bytes script @ u64_le v @ u32_le (in_sequence i)"
  by (simp add: transparent_preimage_def sighash_prefix_for_def Let_def sighash_consts
      blake2b_personal_def write_var_slice_append [of "_ @ _"])

lemma length_hash_descriptions:
  "no_collision b2 Q \<Longrightarrow> (p, concat ds) \<in> Q \<Longrightarrow> length (hash_descriptions b2 p ds) = 32"
  by (auto simp: hash_descriptions_def blake2b_personal_def no_collision_len)

lemma hash_descriptions_inj:
  assumes "no_collision b2 Q" "(p, concat ds) \<in> Q" "(p, concat es) \<in> Q" "0 < k"
    and "list_all (\<lambda>x. length x = k) ds" "list_all (\<lambda>x. length x = k) es"
    and "hash_descriptions b2 p ds = hash_descriptions b2 p es"
  shows "ds = es"
proof (cases "ds = [] \<or> es = []")
  case True
  with assms(7) no_collision_nz [OF assms(1,2)] no_collision_nz [OF assms(1,3)] show ?thesis
    by (auto simp: hash_descriptions_def blake2b_personal_def split: if_splits)
next
  case False
  with assms(7) have "b2 32 p (concat ds) = b2 32 p (concat es)"
    by (simp add: hash_descriptions_def blake2b_personal_def)
  then have "concat ds = concat es" using no_collisionD [OF assms(1-3)] by blast
  with assms(4-6) show ?thesis by (auto simp: list_all_iff intro: concat_fixed_width_inj)
qed

text \<open>The three vectors hashed on their own determine what they were made of.\<close>

lemma prevout_data_inj:
  assumes "list_all wf_tx_in (tx_inputs s)" "list_all wf_tx_in (tx_inputs t)"
    and "prevout_data s = prevout_data t"
  shows "map (\<lambda>i. (in_txid i, in_vout i)) (tx_inputs s) = map (\<lambda>i. (in_txid i, in_vout i)) (tx_inputs t)"
proof -
  let ?f = "\<lambda>p. fst p @ u32_le (snd p)" and ?g = "\<lambda>i. (in_txid i, in_vout i)"
  have "map ?f (map ?g (tx_inputs s)) = map ?f (map ?g (tx_inputs t))"
    by (rule concat_fixed_width_inj [of 36])
      (use assms in \<open>auto simp: prevout_data_def list_all_iff wf_tx_in_def comp_def\<close>)
  moreover have "inj_on ?f (set (map ?g (tx_inputs s)) \<union> set (map ?g (tx_inputs t)))"
    by (rule inj_onI) (use assms in \<open>auto simp: list_all_iff wf_tx_in_def\<close>)
  ultimately show ?thesis by (rule map_inj_on)
qed

lemma sequence_data_inj:
  assumes "sequence_data s = sequence_data t"
  shows "map in_sequence (tx_inputs s) = map in_sequence (tx_inputs t)"
proof -
  have "map u32_le (map in_sequence (tx_inputs s)) = map u32_le (map in_sequence (tx_inputs t))"
    by (rule concat_fixed_width_inj [of 4]) (use assms in \<open>auto simp: sequence_data_def comp_def\<close>)
  then show ?thesis by (rule map_injective) (simp add: inj_def)
qed

lemma outputs_data_inj:
  assumes "sized_tx s" "sized_tx t"
    and "concat (map output_data (tx_outputs s)) = concat (map output_data (tx_outputs t))"
  shows "tx_outputs s = tx_outputs t"
  by (rule txout.concat_enc_inj)
    (use assms in \<open>auto simp: sized_tx_def output_data_eq [abs_def]\<close>)

text \<open>Equal preimages have equal fields.\<close>

lemma preimage_all_inj:
  assumes eq: "transparent_preimage b2 s m i scr v SIGHASH_ALL =
      transparent_preimage b2 t n j scr' v' SIGHASH_ALL"
    and nc: "no_collision b2 Q"
    and "sighash_queries b2 s b m scr v \<subseteq> Q" "sighash_queries b2 t b n scr' v' \<subseteq> Q"
    and "length (in_txid i) = 32" "length (in_txid j) = 32"
    and "length scr < 2 ^ 63" "length scr' < 2 ^ 63"
  shows "b2 32 PREVOUT_PERSONAL (prevout_data s) = b2 32 PREVOUT_PERSONAL (prevout_data t)"
    and "b2 32 SEQUENCE_PERSONAL (sequence_data s) = b2 32 SEQUENCE_PERSONAL (sequence_data t)"
    and "b2 32 OUTPUTS_PERSONAL (concat (map output_data (tx_outputs s))) =
      b2 32 OUTPUTS_PERSONAL (concat (map output_data (tx_outputs t)))"
    and "hash_descriptions b2 SHIELDED_SPENDS_PERSONAL (map spend_body (tx_shielded_spends s)) =
      hash_descriptions b2 SHIELDED_SPENDS_PERSONAL (map spend_body (tx_shielded_spends t))"
    and "hash_descriptions b2 SHIELDED_OUTPUTS_PERSONAL (tx_shielded_outputs s) =
      hash_descriptions b2 SHIELDED_OUTPUTS_PERSONAL (tx_shielded_outputs t)"
    and "tx_lock_time s = tx_lock_time t" "tx_expiry_height s = tx_expiry_height t"
    and "tx_value_balance s = tx_value_balance t"
    and "in_txid i = in_txid j" "in_vout i = in_vout j" "in_sequence i = in_sequence j"
    and "scr = scr'" "v = v'"
proof -
  have len: "length (b2 32 PREVOUT_PERSONAL (prevout_data x)) = 32"
    "length (b2 32 SEQUENCE_PERSONAL (sequence_data x)) = 32"
    "length (b2 32 OUTPUTS_PERSONAL (concat (map output_data (tx_outputs x)))) = 32"
    "length (hash_descriptions b2 SHIELDED_SPENDS_PERSONAL (map spend_body (tx_shielded_spends x))) = 32"
    "length (hash_descriptions b2 SHIELDED_OUTPUTS_PERSONAL (tx_shielded_outputs x)) = 32"
    if "sighash_queries b2 x b k sc w \<subseteq> Q" for x k sc w
    using that nc
    by (auto simp: sighash_queries_def intro: no_collision_len length_hash_descriptions)
  note ls = len [OF assms(3)] and lt = len [OF assms(4)]
  note f = eq [unfolded preimage_all, simplified ls lt assms(5,6) append_eq_append_conv
      length_uN_le length_zero_hash, simplified]
  show "b2 32 PREVOUT_PERSONAL (prevout_data s) = b2 32 PREVOUT_PERSONAL (prevout_data t)"
    and "b2 32 SEQUENCE_PERSONAL (sequence_data s) = b2 32 SEQUENCE_PERSONAL (sequence_data t)"
    and "b2 32 OUTPUTS_PERSONAL (concat (map output_data (tx_outputs s))) =
      b2 32 OUTPUTS_PERSONAL (concat (map output_data (tx_outputs t)))"
    and "hash_descriptions b2 SHIELDED_SPENDS_PERSONAL (map spend_body (tx_shielded_spends s)) =
      hash_descriptions b2 SHIELDED_SPENDS_PERSONAL (map spend_body (tx_shielded_spends t))"
    and "hash_descriptions b2 SHIELDED_OUTPUTS_PERSONAL (tx_shielded_outputs s) =
      hash_descriptions b2 SHIELDED_OUTPUTS_PERSONAL (tx_shielded_outputs t)"
    and "tx_lock_time s = tx_lock_time t" "tx_expiry_height s = tx_expiry_height t"
    and "tx_value_balance s = tx_value_balance t"
    and "in_txid i = in_txid j" "in_vout i = in_vout j" "in_sequence i = in_sequence j"
    and "scr = scr'" "v = v'"
    using f ls lt assms(5-8) by (auto dest: slice_bytes_inj)
qed

text \<open>
  The other direction: what a narrower hash type leaves open.  The unlocking scripts are
  never covered, so signing the inputs one after another hashes the same message as
  signing them on the unsigned transaction.
\<close>

definition strip_scripts :: "tx_v4 \<Rightarrow> tx_v4" where
  "strip_scripts t = t\<lparr>tx_inputs := map (\<lambda>i. i\<lparr>in_script_sig := []\<rparr>) (tx_inputs t)\<rparr>"

lemma sighash_prefix_for_strip:
  "sighash_prefix_for b2 (strip_scripts t) h n = sighash_prefix_for b2 t h n"
  by (simp add: sighash_prefix_for_def strip_scripts_def prevout_data_def sequence_data_def comp_def
      Let_def)

lemma transparent_sighash_strip:
  "transparent_sighash b2 (strip_scripts t) b n script v h = transparent_sighash b2 t b n script v h"
proof -
  have "transparent_preimage b2 (strip_scripts t) n (tx_inputs (strip_scripts t) ! n) script v h =
      transparent_preimage b2 t n (tx_inputs t ! n) script v h" if "n < length (tx_inputs t)"
    using that
    by (simp add: transparent_preimage_def sighash_prefix_for_strip) (simp add: strip_scripts_def)
  then show ?thesis
    by (cases "n < length (tx_inputs t)")
      (simp_all add: transparent_sighash_def, simp_all add: strip_scripts_def)
qed

lemma transparent_sighash_scripts:
  "strip_scripts s = strip_scripts t \<Longrightarrow>
     transparent_sighash b2 s b n script v h = transparent_sighash b2 t b n script v h"
  by (metis transparent_sighash_strip)

text \<open>What the blanked hashes leave out of the message.\<close>

lemma sighash_outputs_none:
  assumes "h AND SIGHASH_MASK = SIGHASH_NONE"
  shows "transparent_sighash b2 (t\<lparr>tx_outputs := outs\<rparr>) branch n scr v h =
    transparent_sighash b2 t branch n scr v h"
proof -
  have "h AND SIGHASH_MASK \<noteq> SIGHASH_SINGLE" using assms by (simp add: sighash_consts)
  with assms show ?thesis
    by (simp add: transparent_sighash_def transparent_preimage_def sighash_prefix_for_def
        prevout_data_def sequence_data_def)
qed

lemma sighash_outputs_single:
  assumes "h AND SIGHASH_MASK = SIGHASH_SINGLE" "n < length (tx_outputs t)" "n < length outs"
    and "outs ! n = tx_outputs t ! n"
  shows "transparent_sighash b2 (t\<lparr>tx_outputs := outs\<rparr>) branch n scr v h =
    transparent_sighash b2 t branch n scr v h"
  using assms
  by (simp add: transparent_sighash_def transparent_preimage_def sighash_prefix_for_def
      prevout_data_def sequence_data_def)

lemma sighash_inputs_anyonecanpay:
  assumes "h AND SIGHASH_ANYONECANPAY \<noteq> 0" "n < length (tx_inputs t)" "n < length ins"
    and "ins ! n = tx_inputs t ! n"
  shows "transparent_sighash b2 (t\<lparr>tx_inputs := ins\<rparr>) branch n scr v h =
    transparent_sighash b2 t branch n scr v h"
  using assms
  by (simp add: transparent_sighash_def transparent_preimage_def sighash_prefix_for_def Let_def)

section \<open>Properties\<close>

text \<open>
  C2: a signature under SIGHASH_ALL commits to the whole transaction.  If two signing
  requests on the same branch give the same hash, and the hash function shows no
  collision among the messages the two requests hash, then the two transactions agree on
  every prevout, sequence number, output, shielded description, lock time, expiry and
  value balance, and the two signed inputs agree on their prevout, script code and value.
\<close>

theorem sighash_all_commits:
  assumes "transparent_sighash b2 s branch m scr v SIGHASH_ALL = Inr d"
    and "transparent_sighash b2 t branch n scr' v' SIGHASH_ALL = Inr d"
    and nc: "no_collision b2 (sighash_queries b2 s branch m scr v \<union> sighash_queries b2 t branch n scr' v')"
    and sz: "sized_tx s" "sized_tx t" "length scr < 2 ^ 63" "length scr' < 2 ^ 63"
  shows "signed_view s = signed_view t \<and> scr = scr' \<and> v = v' \<and>
    in_txid (tx_inputs s ! m) = in_txid (tx_inputs t ! n) \<and>
    in_vout (tx_inputs s ! m) = in_vout (tx_inputs t ! n) \<and>
    in_sequence (tx_inputs s ! m) = in_sequence (tx_inputs t ! n)"
proof -
  let ?Q = "sighash_queries b2 s branch m scr v \<union> sighash_queries b2 t branch n scr' v'"
  note qs = sighash_queries_def
  from assms(1,2) have m: "m < length (tx_inputs s)" and n: "n < length (tx_inputs t)"
    and d: "b2 32 (sighash_personal branch) (transparent_preimage b2 s m (tx_inputs s ! m) scr v SIGHASH_ALL) =
      b2 32 (sighash_personal branch) (transparent_preimage b2 t n (tx_inputs t ! n) scr' v' SIGHASH_ALL)"
    by (simp_all add: transparent_sighash_Inr_iff)
  have eq: "transparent_preimage b2 s m (tx_inputs s ! m) scr v SIGHASH_ALL =
      transparent_preimage b2 t n (tx_inputs t ! n) scr' v' SIGHASH_ALL"
    by (rule no_collisionD [OF nc _ _ d]) (simp_all add: qs)
  have ids: "length (in_txid (tx_inputs s ! m)) = 32" "length (in_txid (tx_inputs t ! n)) = 32"
    using sz(1,2) m n by (simp_all add: sized_tx_def list_all_length wf_tx_in_def)
  note f = preimage_all_inj [OF eq nc, of branch, OF Un_upper1 Un_upper2 ids sz(3,4)]
  have "prevout_data s = prevout_data t" by (rule no_collisionD [OF nc _ _ f(1)]) (simp_all add: qs)
  moreover have "sequence_data s = sequence_data t"
    by (rule no_collisionD [OF nc _ _ f(2)]) (simp_all add: qs)
  moreover have "concat (map output_data (tx_outputs s)) = concat (map output_data (tx_outputs t))"
    by (rule no_collisionD [OF nc _ _ f(3)]) (simp_all add: qs)
  moreover have "map spend_body (tx_shielded_spends s) = map spend_body (tx_shielded_spends t)"
    by (rule hash_descriptions_inj [OF nc _ _ _ _ _ f(4), of SPEND_BODY_LEN])
      (use sz in \<open>simp_all add: qs sized_tx_def SPEND_BODY_LEN_def list.pred_map comp_def\<close>)
  moreover have "tx_shielded_outputs s = tx_shielded_outputs t"
    by (rule hash_descriptions_inj [OF nc _ _ _ _ _ f(5), of SHIELDED_OUTPUT_LEN])
      (use sz in \<open>simp_all add: qs sized_tx_def SHIELDED_OUTPUT_LEN_def\<close>)
  ultimately show ?thesis
    using f(6-13) sz prevout_data_inj [of s t] sequence_data_inj [of s t] outputs_data_inj [of s t]
    by (simp add: signed_view_def sized_tx_def)
qed

text \<open>
  The witness: one transaction before and after its input is signed, under a hash with
  32-byte digests.
\<close>

definition sample_signed :: tx_v4 where
  "sample_signed = sample_tx\<lparr>tx_inputs :=
     [(tx_in_unsigned (replicate 32 0x11) 1 0xffffffff)\<lparr>in_script_sig := [1, 2, 3]\<rparr>]\<rparr>"

definition const_hash :: blake2b where
  "const_hash k p x = replicate k 1"

lemmas sample_hash_simps =
  sample_tx_def sample_signed_def tx_default_def tx_in_unsigned_def prevout_data_def
  sequence_data_def transparent_preimage_def sighash_prefix_for_def Let_def

lemma sample_queries:
  "sighash_queries const_hash sample_tx VERUS_BRANCH_ID 0 [] 7 =
   sighash_queries const_hash sample_signed VERUS_BRANCH_ID 0 [] 7"
  by (simp add: sighash_queries_def sample_hash_simps)

lemma personals_distinct:
  "distinct [PREVOUT_PERSONAL, SEQUENCE_PERSONAL, OUTPUTS_PERSONAL, SHIELDED_SPENDS_PERSONAL,
     SHIELDED_OUTPUTS_PERSONAL, sighash_personal VERUS_BRANCH_ID]"
  by (simp add: PREVOUT_PERSONAL_def SEQUENCE_PERSONAL_def OUTPUTS_PERSONAL_def
      SHIELDED_SPENDS_PERSONAL_def SHIELDED_OUTPUTS_PERSONAL_def SIGHASH_PREFIX_def
      sighash_personal_def ascii_def VERUS_BRANCH_ID_def u32_le_def le_of_nat_numeral)

lemma const_hash_no_collision:
  "no_collision const_hash (sighash_queries const_hash t VERUS_BRANCH_ID n scr v)"
  using personals_distinct
  by (auto simp: no_collision_def sighash_queries_def const_hash_def zero_hash_def)

theorem sighash_all_commits_witness: "signed_view sample_tx = signed_view sample_signed"
proof -
  let ?h = "transparent_preimage const_hash"
  have a: "transparent_sighash const_hash sample_tx VERUS_BRANCH_ID 0 [] 7 SIGHASH_ALL =
      Inr (replicate 32 1)"
    by (simp add: transparent_sighash_Inr_iff const_hash_def)
      (simp add: sample_hash_simps check_sighash_type_known sighash_consts)
  have b: "transparent_sighash const_hash sample_signed VERUS_BRANCH_ID 0 [] 7 SIGHASH_ALL =
      Inr (replicate 32 1)"
    by (simp add: transparent_sighash_Inr_iff const_hash_def)
      (simp add: sample_hash_simps check_sighash_type_known sighash_consts)
  have "sized_tx sample_tx" "sized_tx sample_signed"
    by (simp_all add: sized_tx_def sample_hash_simps wf_tx_in_def wf_tx_out_def output_data_def
        write_var_slice_def length_compact_bytes write_compact_size_append [of "u64_le _"])
  with sighash_all_commits [OF a b] const_hash_no_collision show ?thesis
    by (simp add: sample_queries)
qed

text \<open>
  Which signing requests are answered.  A hash is produced exactly for the six hash
  types ALL, NONE and SINGLE with or without ANYONECANPAY, for an input that exists and,
  under SINGLE, with an output at the same index; every other request is refused with the
  first of the three errors that applies.
\<close>

theorem transparent_sighash_branches:
  "transparent_sighash b2 t branch n scr v h =
     (if h \<notin> {1, 2, 3, 0x81, 0x82, 0x83} then Inl (UnsupportedSighashType h)
      else if h \<in> {3, 0x83} \<and> length (tx_outputs t) \<le> n
        then Inl (SighashSingleWithoutOutput n (length (tx_outputs t)))
      else if length (tx_inputs t) \<le> n then Inl (InputIndexOutOfRange n (length (tx_inputs t)))
      else Inr (b2 32 (sighash_personal branch)
        (transparent_preimage b2 t n (tx_inputs t ! n) scr v h)))"
proof (cases "h \<in> {1, 2, 3, 0x81, 0x82, 0x83}")
  case True
  then have "check_sighash_type h = Inr ()" by (simp only: check_sighash_type_known)
  moreover have "h AND SIGHASH_MASK = SIGHASH_SINGLE \<longleftrightarrow> h \<in> {3, 0x83}"
    using True by (auto simp: sighash_consts)
  ultimately show ?thesis
    using True by (auto simp: transparent_sighash_def refuse_if_def blake2b_personal_def)
next
  case False
  then have "check_sighash_type h = Inl (UnsupportedSighashType h)"
    using check_sighash_type_err check_sighash_type_known by blast
  with False show ?thesis by (simp add: transparent_sighash_def)
qed

text \<open>
  What the narrower hash types leave open, and only that.  Under NONE the outputs may
  be anything; under SINGLE only the output at the signed index matters; with
  ANYONECANPAY the other inputs may be anything; and no hash type covers the unlocking
  scripts.
\<close>

theorem sighash_leaves_open:
  "(h AND SIGHASH_MASK = SIGHASH_NONE \<longrightarrow>
      transparent_sighash b2 (t\<lparr>tx_outputs := outs\<rparr>) branch n scr v h =
      transparent_sighash b2 t branch n scr v h) \<and>
   (h AND SIGHASH_MASK = SIGHASH_SINGLE \<and> n < length (tx_outputs t) \<and> n < length outs \<and>
      outs ! n = tx_outputs t ! n \<longrightarrow>
      transparent_sighash b2 (t\<lparr>tx_outputs := outs\<rparr>) branch n scr v h =
      transparent_sighash b2 t branch n scr v h) \<and>
   (h AND SIGHASH_ANYONECANPAY \<noteq> 0 \<and> n < length (tx_inputs t) \<and> n < length ins \<and>
      ins ! n = tx_inputs t ! n \<longrightarrow>
      transparent_sighash b2 (t\<lparr>tx_inputs := ins\<rparr>) branch n scr v h =
      transparent_sighash b2 t branch n scr v h) \<and>
   transparent_sighash b2 (strip_scripts t) branch n scr v h =
     transparent_sighash b2 t branch n scr v h"
  using sighash_outputs_none [of h b2 outs t branch n scr v]
    sighash_outputs_single [of h n t outs b2 branch scr v]
    sighash_inputs_anyonecanpay [of h n t ins b2 branch scr v]
    transparent_sighash_strip [of b2 t branch n scr v h]
  by blast

theorem sighash_leaves_open_witness:
  "transparent_sighash const_hash
       (sample_tx\<lparr>tx_outputs := tx_outputs sample_tx @ [\<lparr>out_value = 9, out_script_pubkey = []\<rparr>]\<rparr>)
       VERUS_BRANCH_ID 0 [] 7 0x83 =
     transparent_sighash const_hash sample_tx VERUS_BRANCH_ID 0 [] 7 0x83 \<and>
   transparent_sighash const_hash
       (sample_tx\<lparr>tx_inputs := tx_inputs sample_tx @ [tx_in_unsigned [] 5 0]\<rparr>)
       VERUS_BRANCH_ID 0 [] 7 0x83 =
     transparent_sighash const_hash sample_tx VERUS_BRANCH_ID 0 [] 7 0x83 \<and>
   transparent_sighash const_hash (sample_tx\<lparr>tx_outputs := []\<rparr>) VERUS_BRANCH_ID 0 [] 7 2 =
     transparent_sighash const_hash sample_tx VERUS_BRANCH_ID 0 [] 7 2"
  using sighash_leaves_open [of "0x83" const_hash
      "tx_outputs sample_tx @ [\<lparr>out_value = 9, out_script_pubkey = []\<rparr>]" sample_tx VERUS_BRANCH_ID 0 "[]" 7
      "tx_inputs sample_tx @ [tx_in_unsigned [] 5 0]"]
    sighash_leaves_open [of 2 const_hash "[]" sample_tx VERUS_BRANCH_ID 0 "[]" 7 "[]"]
  by (simp add: sighash_consts sample_tx_def)

end
