(* ===== verification/Rust_Text.thy ===== *)
theory Rust_Text
  imports Prelude
begin

text \<open>
  The operations of Rust's \<open>str\<close> that the code uses.  A \<open>str\<close> is its UTF-8 bytes, one
  \<open>char\<close> each: \<open>str::trim\<close> over the Unicode \<open>White_Space\<close> characters, \<open>split_once\<close>,
  \<open>is_ascii_digit\<close>, decimal formatting, \<open>u64::from_str\<close> and \<open>trim_end_matches\<close>.  The
  lemmas relate decimal formatting to the value of a digit string.
\<close>

type_synonym str = string

section \<open>White space\<close>

text \<open>The UTF-8 encodings of the characters with the \<open>White_Space\<close> property.\<close>

definition utf8 :: "nat list \<Rightarrow> str" where
  "utf8 = map char_of"

definition white_space :: "str list" where
  "white_space = map (\<lambda>n. utf8 [n]) [9, 10, 11, 12, 13, 32]
     @ map utf8 [[194, 133], [194, 160], [225, 154, 128]]
     @ map (\<lambda>n. utf8 [226, 128, n]) ([128, 129, 130, 131, 132, 133, 134, 135, 136, 137, 138]
         @ [168, 169, 175])
     @ map utf8 [[226, 129, 159], [227, 128, 128]]"

text \<open>Remove, as long as there is one, a prefix found in a list of words.\<close>

fun starts_with :: "'a list \<Rightarrow> 'a list \<Rightarrow> bool" where
  "starts_with [] s = True"
| "starts_with (c # w) [] = False"
| "starts_with (c # w) (d # s) = (c = d \<and> starts_with w s)"

lemma starts_with_iff: "starts_with w s \<longleftrightarrow> (\<exists>r. s = w @ r)"
  by (induction w s rule: starts_with.induct) auto

function trim_start_with :: "str list \<Rightarrow> str \<Rightarrow> str" where
  "trim_start_with ws s = (case List.find (\<lambda>w. w \<noteq> [] \<and> starts_with w s) ws of
       None \<Rightarrow> s
     | Some w \<Rightarrow> trim_start_with ws (drop (length w) s))"
  by pat_completeness auto

termination
  by (relation "measure (\<lambda>(ws, s). length s)")
    (auto simp: find_Some_iff starts_with_iff)

declare trim_start_with.simps [simp del]

definition trim :: "str \<Rightarrow> str" where
  "trim s = rev (trim_start_with (map rev white_space) (rev (trim_start_with white_space s)))"

text \<open>A character that no encoding of white space starts or ends with is not trimmed.\<close>

lemma trim_start_with_no_prefix:
  assumes "\<forall>w \<in> set ws. \<not> starts_with w (c # s)"
  shows "trim_start_with ws (c # s) = c # s"
proof -
  have "List.find (\<lambda>w. w \<noteq> [] \<and> starts_with w (c # s)) ws = None"
    using assms by (auto simp: find_None_iff)
  then show ?thesis by (simp add: trim_start_with.simps)
qed

lemma trim_start_with_Nil [simp]: "trim_start_with ws [] = []"
proof -
  have "List.find (\<lambda>w. w \<noteq> [] \<and> starts_with w []) ws = None"
    by (auto simp: find_None_iff neq_Nil_conv)
  then show ?thesis by (simp add: trim_start_with.simps)
qed

definition plain_char :: "char \<Rightarrow> bool" where
  "plain_char c \<longleftrightarrow> (let n = (of_char c :: nat) in 33 \<le> n \<and> n < 127)"

lemma plain_char_no_white_space:
  assumes "plain_char c"
  shows "\<forall>w \<in> set white_space. \<not> starts_with w (c # s)"
    and "\<forall>w \<in> set (map rev white_space). \<not> starts_with w (c # s)"
  using assms by (auto simp: white_space_def utf8_def plain_char_def)

lemma trim_plain:
  assumes "\<forall>c \<in> set s. plain_char c"
  shows "trim s = s"
proof -
  have start: "trim_start_with white_space t = t" if "\<forall>c \<in> set t. plain_char c" for t
    using that plain_char_no_white_space(1) by (cases t) (auto intro!: trim_start_with_no_prefix)
  have end_: "trim_start_with (map rev white_space) t = t" if "\<forall>c \<in> set t. plain_char c" for t
    using that plain_char_no_white_space(2) by (cases t) (auto intro!: trim_start_with_no_prefix)
  have "trim_start_with (map rev white_space) (rev s) = rev s"
    using assms by (intro end_) simp
  with start [OF assms] show ?thesis by (simp add: trim_def)
qed

section \<open>Splitting at a character\<close>

text \<open>\<open>str::split_once\<close> at an ASCII character.\<close>

fun split_once :: "char \<Rightarrow> str \<Rightarrow> (str \<times> str) option" where
  "split_once c [] = None"
| "split_once c (d # s) =
     (if d = c then Some ([], s) else map_option (\<lambda>(a, b). (d # a, b)) (split_once c s))"

lemma split_once_None: "split_once c s = None \<longleftrightarrow> c \<notin> set s"
  by (induction s) auto

lemma split_once_Some:
  "split_once c s = Some (a, b) \<longleftrightarrow> s = a @ c # b \<and> c \<notin> set a"
proof (induction s arbitrary: a)
  case Nil
  then show ?case by simp
next
  case (Cons d s)
  then show ?case by (cases a) auto
qed

section \<open>Decimal digits\<close>

definition is_ascii_digit :: "char \<Rightarrow> bool" where
  "is_ascii_digit c \<longleftrightarrow> 48 \<le> (of_char c :: nat) \<and> (of_char c :: nat) \<le> 57"

definition digit_value :: "char \<Rightarrow> nat" where
  "digit_value c = of_char c - 48"

definition digit_char :: "nat \<Rightarrow> char" where
  "digit_char n = char_of (48 + n)"

definition all_digits :: "str \<Rightarrow> bool" where
  "all_digits s \<longleftrightarrow> list_all is_ascii_digit s"

definition dec_value :: "str \<Rightarrow> nat" where
  "dec_value s = foldl (\<lambda>n c. 10 * n + digit_value c) 0 s"

lemma digit_char_facts [simp]:
  assumes "n < 10"
  shows "is_ascii_digit (digit_char n)" "digit_value (digit_char n) = n"
    "digit_char n = CHR ''0'' \<longleftrightarrow> n = 0"
proof -
  have o: "of_char (digit_char n) = 48 + n" using assms by (simp add: digit_char_def)
  show "is_ascii_digit (digit_char n)" "digit_value (digit_char n) = n"
    using o assms by (simp_all add: is_ascii_digit_def digit_value_def)
  have "digit_char n = CHR ''0'' \<longleftrightarrow> (of_char (digit_char n) :: nat) = of_char (CHR ''0'')"
    by (rule of_char_eq_iff [symmetric])
  then show "digit_char n = CHR ''0'' \<longleftrightarrow> n = 0" using o by simp
qed

lemma digit_value_less: "is_ascii_digit c \<Longrightarrow> digit_value c < 10"
  by (auto simp: is_ascii_digit_def digit_value_def)

lemma digit_char_value: "is_ascii_digit c \<Longrightarrow> digit_char (digit_value c) = c"
  by (auto simp: is_ascii_digit_def digit_value_def digit_char_def)

lemma digit_plain: "is_ascii_digit c \<Longrightarrow> plain_char c"
  by (auto simp: is_ascii_digit_def plain_char_def Let_def)

lemma digit_not_punctuation:
  "is_ascii_digit c \<Longrightarrow> c \<noteq> CHR ''.'' \<and> c \<noteq> CHR ''-'' \<and> c \<noteq> CHR ''+''"
  by (auto simp: is_ascii_digit_def)

lemma all_digits_simps [simp]:
  "all_digits []" "all_digits (c # s) \<longleftrightarrow> is_ascii_digit c \<and> all_digits s"
  "all_digits (s @ t) \<longleftrightarrow> all_digits s \<and> all_digits t"
  by (simp_all add: all_digits_def)

lemma all_digits_no_point: "all_digits s \<Longrightarrow> CHR ''.'' \<notin> set s"
  using digit_not_punctuation by (auto simp: all_digits_def list_all_iff)

lemma dec_value_foldl:
  "foldl (\<lambda>n c. 10 * n + digit_value c) k s = k * 10 ^ length s + dec_value s"
proof (induction s arbitrary: k)
  case Nil
  then show ?case by (simp add: dec_value_def)
next
  case (Cons c s)
  show ?case
    using Cons [of "10 * k + digit_value c"] Cons [of "digit_value c"]
    by (simp add: dec_value_def algebra_simps)
qed

lemma dec_value_simps [simp]:
  "dec_value [] = 0"
  "dec_value (c # s) = digit_value c * 10 ^ length s + dec_value s"
  "dec_value (s @ t) = dec_value s * 10 ^ length t + dec_value t"
  using dec_value_foldl [of "digit_value c" s] dec_value_foldl [of "dec_value s" t]
  by (simp_all add: dec_value_def)

lemma dec_value_bound: "all_digits s \<Longrightarrow> dec_value s < 10 ^ length s"
proof (induction s)
  case Nil
  then show ?case by simp
next
  case (Cons c s)
  then have "digit_value c \<le> 9" "dec_value s < 10 ^ length s"
    using digit_value_less [of c] by auto
  then have "digit_value c * 10 ^ length s + dec_value s < 9 * 10 ^ length s + 10 ^ length s"
    by (intro add_le_less_mono) simp_all
  then show ?case by simp
qed

text \<open>\<open>u64::from_str\<close>: an optional plus sign, then decimal digits, no overflow.\<close>

definition parse_u64 :: "str \<Rightarrow> u64 option" where
  "parse_u64 s =
     (let t = (if starts_with ''+'' s then drop 1 s else s) in
      if t \<noteq> [] \<and> all_digits t \<and> dec_value t < 2 ^ 64 then Some (of_nat (dec_value t)) else None)"

lemma starts_with_single [simp]: "starts_with [c] s \<longleftrightarrow> s \<noteq> [] \<and> hd s = c"
  by (cases s) auto

lemma parse_u64_digits:
  assumes "all_digits s" "s \<noteq> []"
  shows "parse_u64 s = (if dec_value s < 2 ^ 64 then Some (of_nat (dec_value s)) else None)"
proof -
  have "hd s \<noteq> CHR ''+''" using assms digit_not_punctuation by (cases s) auto
  with assms show ?thesis by (simp add: parse_u64_def)
qed

section \<open>Formatting\<close>

text \<open>\<open>to_string\<close> of an unsigned integer.\<close>

fun dec_string :: "nat \<Rightarrow> str" where
  "dec_string n = (if n < 10 then [digit_char n] else dec_string (n div 10) @ [digit_char (n mod 10)])"

declare dec_string.simps [simp del]

text \<open>\<open>format!("{n:08}")\<close>: padded with zeros on the left.\<close>

definition zero_padded :: "nat \<Rightarrow> nat \<Rightarrow> str" where
  "zero_padded k n = replicate (k - length (dec_string n)) (CHR ''0'') @ dec_string n"

text \<open>\<open>trim_end_matches('0')\<close>.\<close>

definition trim_end_zeros :: "str \<Rightarrow> str" where
  "trim_end_zeros s = rev (dropWhile (\<lambda>c. c = CHR ''0'') (rev s))"

lemma dec_string_digits [simp]: "all_digits (dec_string n)"
  by (induction n rule: dec_string.induct) (subst dec_string.simps, simp)

lemma dec_string_nonempty [simp]: "dec_string n \<noteq> []"
  by (subst dec_string.simps) simp

lemma dec_value_dec_string [simp]: "dec_value (dec_string n) = n"
proof (induction n rule: dec_string.induct)
  case (1 n)
  then show ?case by (subst dec_string.simps) simp
qed

lemma length_dec_string: "0 < k \<Longrightarrow> n < 10 ^ k \<Longrightarrow> length (dec_string n) \<le> k"
proof (induction n arbitrary: k rule: dec_string.induct)
  case (1 n)
  show ?case
  proof (cases "n < 10")
    case True
    then show ?thesis using "1.prems"(1) by (subst dec_string.simps) simp
  next
    case False
    then obtain j where k: "k = Suc j" "0 < j"
      using "1.prems" by (cases k; cases "k - 1") auto
    then have "n div 10 < 10 ^ j" using "1.prems"(2) by (simp add: less_mult_imp_div_less mult.commute)
    then have "length (dec_string (n div 10)) \<le> j" using "1.IH" False k by blast
    with False k show ?thesis by (subst dec_string.simps) simp
  qed
qed

lemma dec_value_zeros [simp]: "dec_value (replicate j (CHR ''0'')) = 0"
  by (induction j) (simp_all add: digit_value_def)

lemma all_digits_zeros [simp]: "all_digits (replicate j (CHR ''0''))"
  by (induction j) (simp_all add: is_ascii_digit_def)

lemma zero_padded_facts:
  assumes "0 < k" "n < 10 ^ k"
  shows "length (zero_padded k n) = k" "all_digits (zero_padded k n)"
    "dec_value (zero_padded k n) = n"
  using length_dec_string [OF assms] by (simp_all add: zero_padded_def)

lemma trim_end_zeros_split:
  obtains j where "s = trim_end_zeros s @ replicate j (CHR ''0'')"
proof -
  let ?p = "\<lambda>c. c = CHR ''0''"
  have t: "takeWhile ?p (rev s) = replicate (length (takeWhile ?p (rev s))) (CHR ''0'')"
    by (intro replicate_eqI) (auto dest: set_takeWhileD)
  have "rev s = takeWhile ?p (rev s) @ dropWhile ?p (rev s)" by simp
  then have "s = rev (dropWhile ?p (rev s)) @ rev (takeWhile ?p (rev s))"
    by (metis rev_append rev_rev_ident)
  then show thesis
    using t that [of "length (takeWhile ?p (rev s))"]
    by (simp add: trim_end_zeros_def) (metis rev_replicate)
qed

lemma trim_end_zeros_last:
  "trim_end_zeros s \<noteq> [] \<Longrightarrow> last (trim_end_zeros s) \<noteq> CHR ''0''"
  using hd_dropWhile [of "\<lambda>c. c = CHR ''0''" "rev s"] by (simp add: trim_end_zeros_def last_rev)

section \<open>UTF-8\<close>

text \<open>
  \<open>core::str::from_utf8\<close>: the length of the valid prefix and, when the input did not merely
  end early, how many bytes make up the invalid sequence.  A char is at most four bytes, and
  overlong forms, surrogates and values past U+10FFFF are refused at their second byte.
\<close>

type_synonym utf8_error = "nat \<times> nat option"

definition continuation :: "byte \<Rightarrow> bool" where
  "continuation b \<longleftrightarrow> 0x80 \<le> b \<and> b \<le> 0xbf"

definition second_of_three :: "byte \<Rightarrow> byte \<Rightarrow> bool" where
  "second_of_three a b \<longleftrightarrow>
     (if a = 0xe0 then 0xa0 \<le> b \<and> b \<le> 0xbf
      else if a = 0xed then 0x80 \<le> b \<and> b \<le> 0x9f
      else continuation b)"

definition second_of_four :: "byte \<Rightarrow> byte \<Rightarrow> bool" where
  "second_of_four a b \<longleftrightarrow>
     (if a = 0xf0 then 0x90 \<le> b \<and> b \<le> 0xbf
      else if a = 0xf4 then 0x80 \<le> b \<and> b \<le> 0x8f
      else continuation b)"

text \<open>The checks on the bytes after the first, in order; \<open>k\<close> counts the bytes accepted.\<close>

fun check_tail :: "nat \<Rightarrow> (byte \<Rightarrow> bool) list \<Rightarrow> bytes \<Rightarrow> nat option + unit" where
  "check_tail k [] bs = Inr ()"
| "check_tail k (p # ps) [] = Inl None"
| "check_tail k (p # ps) (b # bs) = (if p b then check_tail (Suc k) ps bs else Inl (Some k))"

definition tail_checks :: "byte \<Rightarrow> (byte \<Rightarrow> bool) list option" where
  "tail_checks a =
     (if a < 0x80 then Some []
      else if 0xc2 \<le> a \<and> a \<le> 0xdf then Some [continuation]
      else if 0xe0 \<le> a \<and> a \<le> 0xef then Some [second_of_three a, continuation]
      else if 0xf0 \<le> a \<and> a \<le> 0xf4 then Some [second_of_four a, continuation, continuation]
      else None)"

function utf8_check :: "nat \<Rightarrow> bytes \<Rightarrow> utf8_error option" where
  "utf8_check at [] = None"
| "utf8_check at (a # bs) =
     (case tail_checks a of
        None \<Rightarrow> Some (at, Some 1)
      | Some ps \<Rightarrow> (case check_tail 1 ps bs of
            Inl e \<Rightarrow> Some (at, e)
          | Inr _ \<Rightarrow> utf8_check (at + 1 + length ps) (drop (length ps) bs)))"
  by pat_completeness auto

termination
  by (relation "measure (\<lambda>(at, bs). length bs)") auto

definition valid_utf8 :: "bytes \<Rightarrow> bool" where
  "valid_utf8 bs \<longleftrightarrow> utf8_check 0 bs = None"

definition str_of_bytes :: "bytes \<Rightarrow> str" where
  "str_of_bytes bs = map (\<lambda>b. char_of (unat b)) bs"

text \<open>\<open>String::from_utf8\<close> and the \<open>Display\<close> of its error.\<close>

definition from_utf8 :: "bytes \<Rightarrow> utf8_error + str" where
  "from_utf8 bs = (case utf8_check 0 bs of Some e \<Rightarrow> Inl e | None \<Rightarrow> Inr (str_of_bytes bs))"

definition utf8_error_string :: "utf8_error \<Rightarrow> str" where
  "utf8_error_string e = (case e of
       (at, Some n) \<Rightarrow> ''invalid utf-8 sequence of '' @ dec_string n @ '' bytes from index '' @ dec_string at
     | (at, None) \<Rightarrow> ''incomplete utf-8 byte sequence from index '' @ dec_string at)"

lemma str_bytes [simp]: "ascii (str_of_bytes bs) = bs" "str_of_bytes (ascii s) = s"
proof -
  have "of_nat (of_char (char_of (unat b) :: char)) = b" for b :: byte
    using unat_byte [of b] by simp
  then show "ascii (str_of_bytes bs) = bs" by (simp add: ascii_def str_of_bytes_def comp_def map_idI)
  have "char_of (unat (of_nat (of_char c) :: byte)) = c" for c :: char
  proof -
    have "(of_char c :: nat) < 256" by simp
    then show ?thesis by (simp add: unat_of_nat)
  qed
  then show "str_of_bytes (ascii s) = s" by (simp add: ascii_def str_of_bytes_def comp_def map_idI)
qed

lemma from_utf8_Inr: "from_utf8 bs = Inr s \<longleftrightarrow> valid_utf8 bs \<and> bs = ascii s"
  by (auto simp: from_utf8_def valid_utf8_def split: option.splits)

text \<open>Plain ASCII is valid.\<close>

lemma valid_utf8_ascii: "list_all (\<lambda>b. b < 0x80) bs \<Longrightarrow> valid_utf8 bs"
proof -
  have "list_all (\<lambda>b. b < 0x80) bs \<Longrightarrow> utf8_check at bs = None" for at
    by (induction bs arbitrary: at) (auto simp: tail_checks_def)
  then show "list_all (\<lambda>b. b < 0x80) bs \<Longrightarrow> valid_utf8 bs" by (simp add: valid_utf8_def)
qed

end
