(* ===== verification/Keys.thy ===== *)
theory Keys
  imports Rust_Text
begin

text \<open>
  The crate verus-keys: base58check (\<open>base58.rs\<close>), addresses (\<open>address.rs\<close>), and WIF
  keys, signatures and public keys (\<open>key.rs\<close>).  The hash functions, the base58 codec and
  the secp256k1 implementation are third-party crates: they are the fields of the records
  \<open>hash_lib\<close> and \<open>ec_lib\<close>, and what the code relies on of them is \<open>hash_lib_ok\<close> and
  \<open>ec_lib_ok\<close>.
\<close>

section \<open>Parameters\<close>

text \<open>
  \<open>hl_b58_decode\<close> returns the text of the crate's error.
\<close>

record hash_lib =
  hl_sha256 :: "bytes \<Rightarrow> bytes"
  hl_ripemd160 :: "bytes \<Rightarrow> bytes"
  hl_b58_encode :: "bytes \<Rightarrow> str"
  hl_b58_decode :: "str \<Rightarrow> str + bytes"

definition hash_lib_ok :: "hash_lib \<Rightarrow> bool" where
  "hash_lib_ok H \<longleftrightarrow>
     (\<forall>x. length (hl_sha256 H x) = 32) \<and> (\<forall>x. length (hl_ripemd160 H x) = 20) \<and>
     (\<forall>d. hl_b58_decode H (hl_b58_encode H d) = Inr d) \<and>
     (\<forall>s d. hl_b58_decode H s = Inr d \<longrightarrow> hl_b58_encode H d = s)"

text \<open>
  secp256k1: a signing key, a verifying key and a signature are opaque; the operations are
  those of \<open>k256\<close> that the code calls, \<open>None\<close> for an \<open>Err\<close>.
\<close>

record ('sk, 'vk, 'sg) ec_lib =
  el_sk_from_slice :: "bytes \<Rightarrow> 'sk option"
  el_sk_to_bytes :: "'sk \<Rightarrow> bytes"
  el_verifying_key :: "'sk \<Rightarrow> 'vk"
  el_sign_prehash :: "'sk \<Rightarrow> bytes \<Rightarrow> 'sg option"
  el_sign_recoverable :: "'sk \<Rightarrow> bytes \<Rightarrow> 'sg \<times> u8"
  el_sig_to_bytes :: "'sg \<Rightarrow> bytes"
  el_sig_from_slice :: "bytes \<Rightarrow> 'sg option"
  el_sig_to_der :: "'sg \<Rightarrow> bytes"
  el_sig_from_der :: "bytes \<Rightarrow> 'sg option"
  el_vk_from_sec1 :: "bytes \<Rightarrow> 'vk option"
  el_vk_to_sec1 :: "'vk \<Rightarrow> bool \<Rightarrow> bytes"
  el_verify_prehash :: "'vk \<Rightarrow> bytes \<Rightarrow> 'sg \<Rightarrow> bool"
  el_recover :: "bytes \<Rightarrow> 'sg \<Rightarrow> u8 \<Rightarrow> 'vk option"

text \<open>
  The documented laws: scalars are 32 canonical bytes; a signature round-trips through its
  64-byte and DER forms; a signature verifies, and recovers to, the key that made it; a
  recovery id is below 4.
\<close>

definition ec_lib_ok :: "('sk, 'vk, 'sg) ec_lib \<Rightarrow> bool" where
  "ec_lib_ok E \<longleftrightarrow>
     (\<forall>k. length (el_sk_to_bytes E k) = 32 \<and> el_sk_from_slice E (el_sk_to_bytes E k) = Some k) \<and>
     (\<forall>b k. el_sk_from_slice E b = Some k \<longrightarrow> el_sk_to_bytes E k = b) \<and>
     (\<forall>g. length (el_sig_to_bytes E g) = 64 \<and> el_sig_from_slice E (el_sig_to_bytes E g) = Some g) \<and>
     (\<forall>g. el_sig_from_der E (el_sig_to_der E g) = Some g) \<and>
     (\<forall>k h g. el_sign_prehash E k h = Some g \<longrightarrow> el_verify_prehash E (el_verifying_key E k) h g) \<and>
     (\<forall>k h g r. el_sign_recoverable E k h = (g, r) \<longrightarrow>
        unat r < 4 \<and> el_recover E h g r = Some (el_verifying_key E k))"

text \<open>\<open>error.rs\<close>\<close>

datatype key_error =
    Base58 str
  | WrongWifVersion u8 u8
  | WifLength nat
  | WifCompressionFlag u8
  | UnknownAddressVersion u8
  | AddressLength nat
  | InvalidPrivateKey
  | InvalidPublicKey
  | EmptySeedPhrase
  | InvalidSignature
  | SeedPhraseIsWif

section \<open>The contract of a textual form\<close>

text \<open>
  \<open>show L x\<close> is the text of a well-formed value, \<open>parse L s\<close> reads it, both using a library
  \<open>L\<close>; under \<open>lib_ok L\<close> they are inverse.
\<close>

locale text_form =
  fixes lib_ok :: "'l \<Rightarrow> bool"
    and text_of :: "'l \<Rightarrow> 'a \<Rightarrow> str"
    and parse :: "'l \<Rightarrow> str \<Rightarrow> 'e + 'a"
    and wf :: "'a \<Rightarrow> bool"
  assumes parse_text: "lib_ok L \<Longrightarrow> wf x \<Longrightarrow> parse L (text_of L x) = Inr x"
begin

lemma text_inj: "lib_ok L \<Longrightarrow> wf x \<Longrightarrow> wf y \<Longrightarrow> text_of L x = text_of L y \<Longrightarrow> x = y"
  by (metis parse_text sum.inject(2))

end

text \<open>A canonical one: each value has one text.\<close>

locale canonical_text_form = text_form +
  assumes parse_canonical: "lib_ok L \<Longrightarrow> parse L s = Inr x \<Longrightarrow> wf x \<and> text_of L x = s"
begin

lemma parse_iff: "lib_ok L \<Longrightarrow> parse L s = Inr x \<longleftrightarrow> wf x \<and> s = text_of L x"
  using parse_text parse_canonical by blast

lemma parse_inj: "lib_ok L \<Longrightarrow> parse L s = Inr x \<Longrightarrow> parse L t = Inr x \<Longrightarrow> s = t"
  using parse_canonical by blast

end

section \<open>Base58check\<close>

definition CHECKSUM_LEN :: nat where "CHECKSUM_LEN = 4"

definition checksum :: "hash_lib \<Rightarrow> bytes \<Rightarrow> bytes" where
  "checksum H data = take CHECKSUM_LEN (hl_sha256 H (hl_sha256 H data))"

definition encode_check :: "hash_lib \<Rightarrow> u8 \<Rightarrow> bytes \<Rightarrow> str" where
  "encode_check H version payload =
     (let data = version # payload in hl_b58_encode H (data @ checksum H data))"

definition decode_check :: "hash_lib \<Rightarrow> str \<Rightarrow> key_error + u8 \<times> bytes" where
  "decode_check H encoded =
     rbind (map_err Base58 (hl_b58_decode H encoded)) (\<lambda>data.
     rbind (refuse_if (length data < CHECKSUM_LEN)
              (Base58 ''provided string is too small to contain a checksum'')) (\<lambda>_.
     let split = length data - CHECKSUM_LEN in
     rbind (refuse_if (checksum H (take split data) \<noteq> drop split data)
              (Base58 ''invalid checksum'')) (\<lambda>_.
     case take split data of
       [] \<Rightarrow> Inl (Base58 ''empty payload'')
     | version # payload \<Rightarrow> Inr (version, payload))))"

lemma length_checksum: "hash_lib_ok H \<Longrightarrow> length (checksum H d) = 4"
  by (simp add: checksum_def hash_lib_ok_def CHECKSUM_LEN_def)

lemma decode_check_Inr:
  assumes "hash_lib_ok H"
  shows "decode_check H s = Inr (v, p) \<longleftrightarrow>
     hl_b58_decode H s = Inr ((v # p) @ checksum H (v # p))"
proof
  assume l: "decode_check H s = Inr (v, p)"
  then obtain d where d: "hl_b58_decode H s = Inr d"
    by (auto simp: decode_check_def result_simps)
  let ?k = "length d - CHECKSUM_LEN"
  from l d have "checksum H (take ?k d) = drop ?k d" "take ?k d = v # p"
    by (auto simp: decode_check_def result_simps Let_def split: list.splits)
  moreover have "d = take ?k d @ drop ?k d" by simp
  ultimately show "hl_b58_decode H s = Inr ((v # p) @ checksum H (v # p))"
    using d by metis
next
  assume "hl_b58_decode H s = Inr ((v # p) @ checksum H (v # p))"
  then show "decode_check H s = Inr (v, p)"
    using length_checksum [OF assms]
    by (simp add: decode_check_def CHECKSUM_LEN_def)
qed

interpretation base58: canonical_text_form hash_lib_ok "\<lambda>H (v, p). encode_check H v p"
  decode_check "\<lambda>_. True"
proof
  fix H :: hash_lib and x :: "u8 \<times> bytes"
  assume H: "hash_lib_ok H"
  then show "decode_check H (case x of (v, p) \<Rightarrow> encode_check H v p) = Inr x"
    by (cases x) (simp only: prod.case decode_check_Inr encode_check_def Let_def, simp add: hash_lib_ok_def)
next
  fix H :: hash_lib and s and x :: "u8 \<times> bytes"
  assume H: "hash_lib_ok H" and d: "decode_check H s = Inr x"
  obtain v p where x: "x = (v, p)" by force
  have "hl_b58_decode H s = Inr ((v # p) @ checksum H (v # p))"
    using d H x decode_check_Inr by blast
  then have "hl_b58_encode H ((v # p) @ checksum H (v # p)) = s"
    using H by (simp only: hash_lib_ok_def)
  then show "True \<and> (case x of (v, p) \<Rightarrow> encode_check H v p) = s"
    using x by (simp add: encode_check_def)
qed

lemma decode_check_iff:
  "hash_lib_ok H \<Longrightarrow> decode_check H s = Inr (v, p) \<longleftrightarrow> s = encode_check H v p"
  using base58.parse_iff [of H s "(v, p)"] by simp

lemma decode_check_encode_check [simp]:
  "hash_lib_ok H \<Longrightarrow> decode_check H (encode_check H v p) = Inr (v, p)"
  by (simp add: decode_check_iff)

lemma encode_check_inj:
  "hash_lib_ok H \<Longrightarrow> encode_check H v p = encode_check H v' p' \<Longrightarrow> v = v' \<and> p = p'"
  using base58.text_inj [of H "(v, p)" "(v', p')"] by simp

section \<open>Addresses\<close>

definition PUBKEY_HASH_VERSION :: u8 where "PUBKEY_HASH_VERSION = 0x3c"
definition IDENTITY_VERSION :: u8 where "IDENTITY_VERSION = 0x66"
definition SCRIPT_HASH_VERSION :: u8 where "SCRIPT_HASH_VERSION = 0x55"

definition hash160 :: "hash_lib \<Rightarrow> bytes \<Rightarrow> bytes" where
  "hash160 H data = hl_ripemd160 H (hl_sha256 H data)"

lemma length_hash160: "hash_lib_ok H \<Longrightarrow> length (hash160 H d) = 20"
  by (simp add: hash160_def hash_lib_ok_def)

datatype address_kind = PubKeyHash | Identity | ScriptHash

fun kind_version :: "address_kind \<Rightarrow> u8" where
  "kind_version PubKeyHash = PUBKEY_HASH_VERSION"
| "kind_version Identity = IDENTITY_VERSION"
| "kind_version ScriptHash = SCRIPT_HASH_VERSION"

definition kind_from_version :: "u8 \<Rightarrow> key_error + address_kind" where
  "kind_from_version version =
     (if version = PUBKEY_HASH_VERSION then Inr PubKeyHash
      else if version = IDENTITY_VERSION then Inr Identity
      else if version = SCRIPT_HASH_VERSION then Inr ScriptHash
      else Inl (UnknownAddressVersion version))"

lemma kind_from_version_Inr: "kind_from_version v = Inr k \<longleftrightarrow> v = kind_version k"
  by (cases k) (auto simp: kind_from_version_def PUBKEY_HASH_VERSION_def IDENTITY_VERSION_def
      SCRIPT_HASH_VERSION_def)

record address =
  addr_kind :: address_kind
  addr_hash :: bytes

definition address_new :: "address_kind \<Rightarrow> bytes \<Rightarrow> address" where
  "address_new kind hash = \<lparr>addr_kind = kind, addr_hash = hash\<rparr>"

text \<open>The hash field is a \<open>[u8; 20]\<close>.\<close>

definition wf_address :: "address \<Rightarrow> bool" where
  "wf_address a \<longleftrightarrow> length (addr_hash a) = 20"

definition p2pkh_script_pubkey :: "address \<Rightarrow> key_error + bytes" where
  "p2pkh_script_pubkey a =
     (if addr_kind a \<noteq> PubKeyHash then Inl (UnknownAddressVersion (kind_version (addr_kind a)))
      else Inr ([0x76, 0xa9, 0x14] @ addr_hash a @ [0x88, 0xac]))"

definition from_p2pkh_script_pubkey :: "bytes \<Rightarrow> address option" where
  "from_p2pkh_script_pubkey script =
     (if length script \<noteq> 25 \<or> take 3 script \<noteq> [0x76, 0xa9, 0x14]
         \<or> take 2 (drop 23 script) \<noteq> [0x88, 0xac] then None
      else Some (address_new PubKeyHash (take 20 (drop 3 script))))"

definition address_to_string :: "hash_lib \<Rightarrow> address \<Rightarrow> str" where
  "address_to_string H a = encode_check H (kind_version (addr_kind a)) (addr_hash a)"

definition address_from_str :: "hash_lib \<Rightarrow> str \<Rightarrow> key_error + address" where
  "address_from_str H s =
     rbind (decode_check H s) (\<lambda>(version, payload).
     rbind (refuse_if (length payload \<noteq> 20) (AddressLength (length payload + 1))) (\<lambda>_.
     rbind (kind_from_version version) (\<lambda>kind. Inr (address_new kind payload))))"

lemma from_p2pkh_iff:
  "from_p2pkh_script_pubkey s = Some a \<longleftrightarrow> wf_address a \<and> p2pkh_script_pubkey a = Inr s"
proof
  assume "from_p2pkh_script_pubkey s = Some a"
  then have len: "length s = 25" and t: "take 3 s = [0x76, 0xa9, 0x14]"
    and d: "take 2 (drop 23 s) = [0x88, 0xac]"
    and a: "a = address_new PubKeyHash (take 20 (drop 3 s))"
    by (auto simp: from_p2pkh_script_pubkey_def split: if_splits)
  have "s = take 3 s @ take 20 (drop 3 s) @ drop 23 s"
    using append_take_drop_id [of 3 s] append_take_drop_id [of 20 "drop 3 s"] by simp
  moreover have "take 2 (drop 23 s) = drop 23 s" using len by simp
  ultimately have "s = [0x76, 0xa9, 0x14] @ take 20 (drop 3 s) @ [0x88, 0xac]"
    using t d by metis
  with a len show "wf_address a \<and> p2pkh_script_pubkey a = Inr s"
    by (simp add: wf_address_def p2pkh_script_pubkey_def address_new_def)
next
  assume "wf_address a \<and> p2pkh_script_pubkey a = Inr s"
  then show "from_p2pkh_script_pubkey s = Some a"
    by (cases a) (auto simp: from_p2pkh_script_pubkey_def wf_address_def p2pkh_script_pubkey_def
        address_new_def split: if_splits)
qed

interpretation addr: canonical_text_form hash_lib_ok address_to_string address_from_str wf_address
proof
  fix H x
  assume "hash_lib_ok H" "wf_address x"
  then show "address_from_str H (address_to_string H x) = Inr x"
    by (cases x)
      (simp add: address_from_str_def address_to_string_def wf_address_def address_new_def
        kind_from_version_Inr [THEN iffD2])
next
  fix H s x
  assume "hash_lib_ok H" "address_from_str H s = Inr x"
  then show "wf_address x \<and> address_to_string H x = s"
    by (auto simp: address_from_str_def result_simps decode_check_iff kind_from_version_Inr
        address_to_string_def wf_address_def address_new_def)
qed

section \<open>Private keys and WIF\<close>

definition WIF_VERSION :: u8 where "WIF_VERSION = 0xbc"

record 'sk private_key =
  sk_signing_key :: 'sk
  sk_compressed :: bool

record 'vk public_key =
  pk_verifying_key :: 'vk
  pk_compressed :: bool

definition private_from_bytes :: "('sk, 'vk, 'sg) ec_lib \<Rightarrow> bytes \<Rightarrow> bool \<Rightarrow> key_error + 'sk private_key" where
  "private_from_bytes E bytes compressed =
     rbind (ok_or (el_sk_from_slice E bytes) InvalidPrivateKey)
       (\<lambda>k. Inr \<lparr>sk_signing_key = k, sk_compressed = compressed\<rparr>)"

definition private_to_bytes :: "('sk, 'vk, 'sg) ec_lib \<Rightarrow> 'sk private_key \<Rightarrow> bytes" where
  "private_to_bytes E k = el_sk_to_bytes E (sk_signing_key k)"

definition from_wif :: "hash_lib \<Rightarrow> ('sk, 'vk, 'sg) ec_lib \<Rightarrow> str \<Rightarrow> key_error + 'sk private_key" where
  "from_wif H E wif =
     rbind (decode_check H wif) (\<lambda>(version, payload).
     rbind (refuse_if (version \<noteq> WIF_VERSION) (WrongWifVersion version WIF_VERSION)) (\<lambda>_.
     rbind (if length payload = 32 then Inr False
            else if length payload = 33 then
              rbind (refuse_if (payload ! 32 \<noteq> 0x01) (WifCompressionFlag (payload ! 32)))
                (\<lambda>_. Inr True)
            else Inl (WifLength (length payload + 1))) (\<lambda>compressed.
     private_from_bytes E (take 32 payload) compressed)))"

definition to_wif :: "hash_lib \<Rightarrow> ('sk, 'vk, 'sg) ec_lib \<Rightarrow> 'sk private_key \<Rightarrow> str" where
  "to_wif H E k =
     encode_check H WIF_VERSION (private_to_bytes E k @ (if sk_compressed k then [0x01] else []))"

text \<open>The text form of a key uses both libraries.\<close>

definition key_libs_ok :: "hash_lib \<times> ('sk, 'vk, 'sg) ec_lib \<Rightarrow> bool" where
  "key_libs_ok HE \<longleftrightarrow> hash_lib_ok (fst HE) \<and> ec_lib_ok (snd HE)"

lemma from_wif_canonical:
  assumes "hash_lib_ok H" "ec_lib_ok E" "from_wif H E s = Inr k"
  shows "to_wif H E k = s"
proof -
  from assms(3) obtain p c where s: "decode_check H s = Inr (WIF_VERSION, p)"
    and c: "length p = 32 \<and> \<not> c \<or> length p = 33 \<and> p ! 32 = 1 \<and> c"
    and k: "private_from_bytes E (take 32 p) c = Inr k"
    by (auto simp: from_wif_def result_simps split: if_splits)
  from k obtain x where x: "el_sk_from_slice E (take 32 p) = Some x" "sk_signing_key k = x"
    "sk_compressed k = c"
    by (auto simp: private_from_bytes_def result_simps)
  have "el_sk_to_bytes E x = take 32 p" using assms(2) x(1) by (simp add: ec_lib_ok_def)
  moreover have "take 32 p @ (if c then [1] else []) = p"
  proof (cases c)
    case True
    with c have "p = take 32 p @ [p ! 32]"
      using take_Suc_conv_app_nth [of 32 p] by simp
    with True c show ?thesis by metis
  qed (use c in simp)
  ultimately show ?thesis
    using s x assms(1) by (simp add: to_wif_def private_to_bytes_def decode_check_iff)
qed

interpretation wif: canonical_text_form key_libs_ok "\<lambda>(H, E). to_wif H E" "\<lambda>(H, E). from_wif H E"
  "\<lambda>_. True"
proof
  fix HE :: "hash_lib \<times> ('sk, 'vk, 'sg) ec_lib" and x
  assume "key_libs_ok HE"
  then show "(case HE of (H, E) \<Rightarrow> from_wif H E) ((case HE of (H, E) \<Rightarrow> to_wif H E) x) = Inr x"
    by (cases HE; cases x)
      (simp add: key_libs_ok_def from_wif_def to_wif_def private_to_bytes_def
        private_from_bytes_def ec_lib_ok_def nth_append)
next
  fix HE :: "hash_lib \<times> ('sk, 'vk, 'sg) ec_lib" and s x
  assume "key_libs_ok HE" "(case HE of (H, E) \<Rightarrow> from_wif H E) s = Inr x"
  then show "True \<and> (case HE of (H, E) \<Rightarrow> to_wif H E) x = s"
    using from_wif_canonical by (cases HE) (auto simp: key_libs_ok_def)
qed

section \<open>Signatures\<close>

definition private_public_key :: "('sk, 'vk, 'sg) ec_lib \<Rightarrow> 'sk private_key \<Rightarrow> 'vk public_key" where
  "private_public_key E k =
     \<lparr>pk_verifying_key = el_verifying_key E (sk_signing_key k), pk_compressed = sk_compressed k\<rparr>"

definition sign_prehash :: "('sk, 'vk, 'sg) ec_lib \<Rightarrow> 'sk private_key \<Rightarrow> bytes \<Rightarrow> key_error + 'sg" where
  "sign_prehash E k hash = ok_or (el_sign_prehash E (sk_signing_key k) hash) InvalidPrivateKey"

definition sign_prehash_compact ::
  "('sk, 'vk, 'sg) ec_lib \<Rightarrow> 'sk private_key \<Rightarrow> bytes \<Rightarrow> key_error + bytes" where
  "sign_prehash_compact E k hash =
     rbind (sign_prehash E k hash) (\<lambda>signature. Inr (el_sig_to_bytes E signature))"

definition sign_prehash_recoverable ::
  "('sk, 'vk, 'sg) ec_lib \<Rightarrow> 'sk private_key \<Rightarrow> bytes \<Rightarrow> key_error + bytes" where
  "sign_prehash_recoverable E k hash =
     (case el_sign_recoverable E (sk_signing_key k) hash of (signature, recovery_id) \<Rightarrow>
        Inr ((27 + recovery_id + (if sk_compressed k then 4 else 0)) # el_sig_to_bytes E signature))"

definition sign_prehash_der ::
  "('sk, 'vk, 'sg) ec_lib \<Rightarrow> 'sk private_key \<Rightarrow> bytes \<Rightarrow> u8 \<Rightarrow> key_error + bytes" where
  "sign_prehash_der E k hash hash_type =
     rbind (sign_prehash E k hash) (\<lambda>signature. Inr (el_sig_to_der E signature @ [hash_type]))"

definition public_from_bytes :: "('sk, 'vk, 'sg) ec_lib \<Rightarrow> bytes \<Rightarrow> key_error + 'vk public_key" where
  "public_from_bytes E bytes =
     rbind (ok_or (el_vk_from_sec1 E bytes) InvalidPublicKey)
       (\<lambda>v. Inr \<lparr>pk_verifying_key = v, pk_compressed = (length bytes = 33)\<rparr>)"

definition public_to_bytes :: "('sk, 'vk, 'sg) ec_lib \<Rightarrow> 'vk public_key \<Rightarrow> bytes" where
  "public_to_bytes E p = el_vk_to_sec1 E (pk_verifying_key p) (pk_compressed p)"

definition verify_der :: "('sk, 'vk, 'sg) ec_lib \<Rightarrow> 'vk public_key \<Rightarrow> bytes \<Rightarrow> bytes \<Rightarrow> bool" where
  "verify_der E p hash signature =
     (case el_sig_from_der E signature of
        None \<Rightarrow> False
      | Some g \<Rightarrow> el_verify_prehash E (pk_verifying_key p) hash g)"

definition verify_compact :: "('sk, 'vk, 'sg) ec_lib \<Rightarrow> 'vk public_key \<Rightarrow> bytes \<Rightarrow> bytes \<Rightarrow> bool" where
  "verify_compact E p hash signature =
     (if length signature \<noteq> 64 then False
      else case el_sig_from_slice E signature of
        None \<Rightarrow> False
      | Some g \<Rightarrow> el_verify_prehash E (pk_verifying_key p) hash g)"

text \<open>The signature argument is a \<open>[u8; 65]\<close>; \<open>RecoveryId::from_byte\<close> accepts 0 to 3.\<close>

definition recover :: "('sk, 'vk, 'sg) ec_lib \<Rightarrow> bytes \<Rightarrow> bytes \<Rightarrow> key_error + 'vk public_key" where
  "recover E hash signature =
     (let header = signature ! 0 in
      rbind (refuse_if (\<not> (27 \<le> header \<and> header \<le> 34)) InvalidSignature) (\<lambda>_.
      let compressed = 31 \<le> header; recovery_id = (header - 27) AND 3 in
      rbind (refuse_if (\<not> recovery_id < 4) InvalidSignature) (\<lambda>_.
      rbind (ok_or (el_sig_from_slice E (drop 1 signature)) InvalidSignature) (\<lambda>parsed.
      rbind (ok_or (el_recover E hash parsed recovery_id) InvalidSignature) (\<lambda>verifying_key.
      Inr \<lparr>pk_verifying_key = verifying_key, pk_compressed = compressed\<rparr>)))))"

definition public_hash160 :: "hash_lib \<Rightarrow> ('sk, 'vk, 'sg) ec_lib \<Rightarrow> 'vk public_key \<Rightarrow> bytes" where
  "public_hash160 H E p = hash160 H (public_to_bytes E p)"

definition public_address :: "hash_lib \<Rightarrow> ('sk, 'vk, 'sg) ec_lib \<Rightarrow> 'vk public_key \<Rightarrow> address" where
  "public_address H E p = address_new PubKeyHash (public_hash160 H E p)"

definition private_address :: "hash_lib \<Rightarrow> ('sk, 'vk, 'sg) ec_lib \<Rightarrow> 'sk private_key \<Rightarrow> address" where
  "private_address H E k = public_address H E (private_public_key E k)"

lemma wf_public_address: "hash_lib_ok H \<Longrightarrow> wf_address (public_address H E p)"
  by (simp add: wf_address_def public_address_def public_hash160_def address_new_def length_hash160)

text \<open>The arithmetic of the recoverable header.\<close>

lemma recovery_header:
  fixes r :: u8
  assumes "unat r < 4"
  shows "(27 :: u8) \<le> 27 + r + (if c then 4 else 0)" "27 + r + (if c then 4 else 0) \<le> (34 :: u8)"
    "(31 :: u8) \<le> 27 + r + (if c then 4 else 0) \<longleftrightarrow> c"
    "(27 + r + (if c then 4 else 0) - 27) AND 3 = r"
proof -
  have "unat r = 0 \<or> unat r = 1 \<or> unat r = 2 \<or> unat r = 3" using assms by linarith
  then have "r = 0 \<or> r = 1 \<or> r = 2 \<or> r = 3" by (simp add: word_unat_eq_iff)
  then show "(27 :: u8) \<le> 27 + r + (if c then 4 else 0)" "27 + r + (if c then 4 else 0) \<le> (34 :: u8)"
    "(31 :: u8) \<le> 27 + r + (if c then 4 else 0) \<longleftrightarrow> c"
    "(27 + r + (if c then 4 else 0) - 27) AND 3 = r"
    by (elim disjE; cases c; simp)+
qed

section \<open>Properties\<close>

text \<open>Libraries to instantiate the hypotheses with.\<close>

definition toy_hash_lib :: hash_lib where
  "toy_hash_lib =
     \<lparr>hl_sha256 = (\<lambda>x. take 32 (x @ replicate 32 0)),
      hl_ripemd160 = (\<lambda>x. take 20 (x @ replicate 20 0)),
      hl_b58_encode = map (\<lambda>b. char_of (unat b)),
      hl_b58_decode = (\<lambda>s. Inr (map (\<lambda>c. of_nat (of_char c)) s))\<rparr>"

lemma toy_hash_lib_ok: "hash_lib_ok toy_hash_lib"
proof -
  have a: "of_nat (unat b mod 256) = b" for b :: byte
    using unat_byte [of b] by simp
  have b: "char_of (unat (of_nat (of_char c) :: byte)) = c" for c :: char
  proof -
    have "(of_char c :: nat) < 256" by simp
    then show ?thesis by (simp add: unat_of_nat)
  qed
  show ?thesis by (auto simp: hash_lib_ok_def toy_hash_lib_def a b comp_def)
qed

text \<open>A key is its 32 bytes; a signature is 64 bytes: the key and the hash.\<close>

typedef key32 = "{b :: bytes. length b = 32}"
  by (rule exI [of _ "replicate 32 0"]) simp

typedef sig64 = "{b :: bytes. length b = 64}"
  by (rule exI [of _ "replicate 64 0"]) simp

definition toy_ec_lib :: "(key32, key32, sig64) ec_lib" where
  "toy_ec_lib =
     \<lparr>el_sk_from_slice = (\<lambda>b. if length b = 32 then Some (Abs_key32 b) else None),
      el_sk_to_bytes = Rep_key32,
      el_verifying_key = (\<lambda>k. k),
      el_sign_prehash = (\<lambda>k h. Some (Abs_sig64 (Rep_key32 k @ take 32 (h @ replicate 32 0)))),
      el_sign_recoverable = (\<lambda>k h. (Abs_sig64 (Rep_key32 k @ take 32 (h @ replicate 32 0)), 1)),
      el_sig_to_bytes = Rep_sig64,
      el_sig_from_slice = (\<lambda>b. if length b = 64 then Some (Abs_sig64 b) else None),
      el_sig_to_der = Rep_sig64,
      el_sig_from_der = (\<lambda>b. if length b = 64 then Some (Abs_sig64 b) else None),
      el_vk_from_sec1 = (\<lambda>b. if length b = 33 then Some (Abs_key32 (drop 1 b)) else None),
      el_vk_to_sec1 = (\<lambda>k c. 2 # Rep_key32 k),
      el_verify_prehash = (\<lambda>k h g. Rep_sig64 g = Rep_key32 k @ take 32 (h @ replicate 32 0)),
      el_recover = (\<lambda>h g r. Some (Abs_key32 (take 32 (Rep_sig64 g))))\<rparr>"

lemma toy_ec_lib_ok: "ec_lib_ok toy_ec_lib"
proof -
  have k: "length (Rep_key32 k) = 32" for k using Rep_key32 [of k] by simp
  have g: "length (Rep_sig64 g) = 64" for g using Rep_sig64 [of g] by simp
  have inv: "Rep_sig64 (Abs_sig64 (Rep_key32 k @ take 32 (h @ replicate 32 0)))
      = Rep_key32 k @ take 32 (h @ replicate 32 0)" for k h
    by (rule Abs_sig64_inverse) (simp add: k)
  have "take 32 (Rep_key32 k @ x) = Rep_key32 k" for k x
    using k [of k] by simp
  then show ?thesis
    by (simp add: ec_lib_ok_def toy_ec_lib_def k g inv Rep_key32_inverse Rep_sig64_inverse
        Abs_key32_inverse del: take_append)
qed

text \<open>
  An address is parsed from exactly one string, its own \<open>Display\<close> form: no other
  string reads as it and no two addresses share a string.  On any well-formed base58check
  string, a payload that is not 20 bytes and a version byte that is not one of the three
  are refused, with the offending length and version in the error.
\<close>

theorem address_text_canonical:
  assumes "hash_lib_ok H"
  shows "(address_from_str H s = Inr a \<longleftrightarrow> wf_address a \<and> s = address_to_string H a) \<and>
    (length p \<noteq> 20 \<longrightarrow>
       address_from_str H (encode_check H v p) = Inl (AddressLength (length p + 1))) \<and>
    (length p = 20 \<longrightarrow> v \<notin> {0x3c, 0x66, 0x55} \<longrightarrow>
       address_from_str H (encode_check H v p) = Inl (UnknownAddressVersion v))"
  using addr.parse_iff [OF assms] assms
  by (simp add: address_from_str_def kind_from_version_def PUBKEY_HASH_VERSION_def
      IDENTITY_VERSION_def SCRIPT_HASH_VERSION_def)

lemma address_text_canonical_witness:
  "address_from_str toy_hash_lib
     (address_to_string toy_hash_lib (address_new Identity (replicate 20 7)))
       = Inr (address_new Identity (replicate 20 7)) \<and>
   address_from_str toy_hash_lib (encode_check toy_hash_lib 0 (replicate 20 7))
       = Inl (UnknownAddressVersion 0)"
  using address_text_canonical [OF toy_hash_lib_ok,
      of "address_to_string toy_hash_lib (address_new Identity (replicate 20 7))"
        "address_new Identity (replicate 20 7)" "replicate 20 7" 0]
  by (simp add: wf_address_def address_new_def)

text \<open>
  The P2PKH script.  A script is read as an address exactly when it is
  \<open>76 a9 14 h 88 ac\<close> around a 20-byte hash, the address read pays to that very script
  again, and an identity or script-hash address has no such script: asking for it is the
  error naming its version byte.
\<close>

theorem p2pkh_script_exact:
  "(from_p2pkh_script_pubkey s = Some a \<longleftrightarrow>
      addr_kind a = PubKeyHash \<and> length (addr_hash a) = 20 \<and>
      s = [0x76, 0xa9, 0x14] @ addr_hash a @ [0x88, 0xac]) \<and>
   (length h = 20 \<longrightarrow> p2pkh_script_pubkey (address_new PubKeyHash h) = Inr t \<longrightarrow>
      from_p2pkh_script_pubkey t = Some (address_new PubKeyHash h)) \<and>
   p2pkh_script_pubkey (address_new Identity h) = Inl (UnknownAddressVersion 0x66) \<and>
   p2pkh_script_pubkey (address_new ScriptHash h) = Inl (UnknownAddressVersion 0x55)"
  by (auto simp: from_p2pkh_iff wf_address_def p2pkh_script_pubkey_def address_new_def
      IDENTITY_VERSION_def SCRIPT_HASH_VERSION_def)

lemma p2pkh_script_exact_witness:
  "from_p2pkh_script_pubkey ([0x76, 0xa9, 0x14] @ replicate 20 9 @ [0x88, 0xac])
     = Some (address_new PubKeyHash (replicate 20 9))"
  using p2pkh_script_exact [of "[0x76, 0xa9, 0x14] @ replicate 20 9 @ [0x88, 0xac]"
      "address_new PubKeyHash (replicate 20 9)" "replicate 20 9"
      "[0x76, 0xa9, 0x14] @ replicate 20 9 @ [0x88, 0xac]"]
  by (simp add: address_new_def)

text \<open>
  WIF.  A key is read from exactly the string \<open>to_wif\<close> writes for it, the compression
  flag included; on any base58check string, another version byte (Bitcoin's 0x80), a
  33-byte payload whose flag is not 1, and any other length are refused, in that order,
  before the scalar is looked at.
\<close>

theorem wif_canonical:
  fixes E :: "('sk, 'vk, 'sg) ec_lib"
  assumes "hash_lib_ok H" "ec_lib_ok E"
  shows "(from_wif H E s = Inr k \<longleftrightarrow> s = to_wif H E k) \<and>
    (v \<noteq> 0xbc \<longrightarrow> from_wif H E (encode_check H v p) = Inl (WrongWifVersion v 0xbc)) \<and>
    (length p = 33 \<longrightarrow> p ! 32 \<noteq> 1 \<longrightarrow>
       from_wif H E (encode_check H 0xbc p) = Inl (WifCompressionFlag (p ! 32))) \<and>
    (length p \<notin> {32, 33} \<longrightarrow>
       from_wif H E (encode_check H 0xbc p) = Inl (WifLength (length p + 1)))"
  using wif.parse_iff [of "(H, E)" s k] assms
  by (simp add: key_libs_ok_def from_wif_def WIF_VERSION_def)

lemma wif_canonical_witness:
  "from_wif toy_hash_lib toy_ec_lib
     (to_wif toy_hash_lib toy_ec_lib \<lparr>sk_signing_key = Abs_key32 (replicate 32 5), sk_compressed = True\<rparr>)
       = Inr \<lparr>sk_signing_key = Abs_key32 (replicate 32 5), sk_compressed = True\<rparr> \<and>
   from_wif toy_hash_lib toy_ec_lib (encode_check toy_hash_lib 0x80 [])
       = Inl (WrongWifVersion 0x80 0xbc)"
  using wif_canonical [OF toy_hash_lib_ok toy_ec_lib_ok,
      where s = "to_wif toy_hash_lib toy_ec_lib
            \<lparr>sk_signing_key = Abs_key32 (replicate 32 5), sk_compressed = True\<rparr>"
        and k = "\<lparr>sk_signing_key = Abs_key32 (replicate 32 5), sk_compressed = True\<rparr>"
        and v = "0x80" and p = "[]"]
  by simp

text \<open>
  Signatures.  Recovering from a recoverable signature gives the public key that made
  it, compression included, since the header byte stays in 27 to 34 and carries both the
  recovery id and the flag; a header outside that range is refused whatever the rest says.
  A DER signature ends in the hash type, and what precedes it verifies under the key, as
  does the compact form, which no other length than 64 can.
\<close>

theorem signatures_verify:
  fixes E :: "('sk, 'vk, 'sg) ec_lib"
  assumes "ec_lib_ok E"
  shows "rbind (sign_prehash_recoverable E k h) (recover E h) = Inr (private_public_key E k) \<and>
    (header < 27 \<or> 34 < header \<longrightarrow> recover E h (header # body) = Inl InvalidSignature) \<and>
    (sign_prehash_der E k h t = Inr der \<longrightarrow> last der = t \<and>
       verify_der E (private_public_key E k) h (butlast der)) \<and>
    (sign_prehash_compact E k h = Inr compact \<longrightarrow>
       verify_compact E (private_public_key E k) h compact) \<and>
    (verify_compact E p h sig \<longrightarrow> length sig = 64)"
proof (intro conjI impI)
  obtain g r where gr: "el_sign_recoverable E (sk_signing_key k) h = (g, r)" by force
  with assms have r: "unat r < 4" "el_recover E h g r = Some (el_verifying_key E (sk_signing_key k))"
    "el_sig_from_slice E (el_sig_to_bytes E g) = Some g"
    by (auto simp: ec_lib_ok_def)
  have "r < 4" using r(1) by (simp add: word_less_nat_alt)
  then show "rbind (sign_prehash_recoverable E k h) (recover E h) = Inr (private_public_key E k)"
    using r recovery_header [OF r(1), of "sk_compressed k"]
    by (simp add: sign_prehash_recoverable_def gr recover_def private_public_key_def Let_def
        del: diff_add_cancel add_diff_cancel_left')
next
  assume "header < 27 \<or> 34 < header"
  then show "recover E h (header # body) = Inl InvalidSignature"
    by (auto simp: recover_def refuse_if_def not_le)
next
  assume "sign_prehash_der E k h t = Inr der"
  then show "last der = t" "verify_der E (private_public_key E k) h (butlast der)"
    using assms
    by (auto simp: sign_prehash_der_def sign_prehash_def result_simps verify_der_def
        private_public_key_def ec_lib_ok_def)
next
  assume "sign_prehash_compact E k h = Inr compact"
  then show "verify_compact E (private_public_key E k) h compact"
    using assms
    by (auto simp: sign_prehash_compact_def sign_prehash_def result_simps verify_compact_def
        private_public_key_def ec_lib_ok_def)
next
  assume "verify_compact E p h sig"
  then show "length sig = 64" by (auto simp: verify_compact_def split: if_splits)
qed

lemma signatures_verify_witness:
  "rbind (sign_prehash_recoverable toy_ec_lib
      \<lparr>sk_signing_key = Abs_key32 (replicate 32 5), sk_compressed = True\<rparr> [1])
        (recover toy_ec_lib [1])
     = Inr (private_public_key toy_ec_lib
         \<lparr>sk_signing_key = Abs_key32 (replicate 32 5), sk_compressed = True\<rparr>) \<and>
   recover toy_ec_lib [1] [35] = Inl InvalidSignature"
  using signatures_verify [OF toy_ec_lib_ok,
      where k = "\<lparr>sk_signing_key = Abs_key32 (replicate 32 5), sk_compressed = True\<rparr>" and h = "[1]"
        and header = 35 and body = "[]"]
  by simp

end
