(* ===== verification/Tx_Primitives.thy ===== *)
theory Tx_Primitives
  imports Keys Wire_Tx
begin

text \<open>
  The crate verus-tx-primitives without \<open>fee.rs\<close> and \<open>cc.rs\<close>: the error type
  (\<open>error.rs\<close>), amounts (\<open>amount.rs\<close>), transaction ids (\<open>txid.rs\<close>), expiry heights
  (\<open>expiry.rs\<close>), currency ids (\<open>currency.rs\<close>) and unspent outputs (\<open>utxo.rs\<close>).
\<close>

section \<open>Errors\<close>

text \<open>
  \<open>usize\<close> fields are naturals; the \<open>i128\<close> of \<open>ValueNotConserved\<close> is an integer.  \<open>Panic\<close> is
  not a variant of the source: it is the value of a run that panics in an \<open>expect\<close>.
\<close>

datatype tx_error =
    InsufficientFunds u64 u64
  | DuplicateUtxo str u32
  | UnsupportedFundingScript str u32
  | MalformedIdentity str
  | IdentityHeldFunding str u32 str
  | PrevoutCountMismatch nat nat
  | UnsupportedRecipient
  | NoOutputs
  | ZeroValueOutput nat
  | ExpiryHeightTooLarge u32
  | ValueNotConserved u64 u64 int u64
  | InvalidIdentityName str
  | InvalidMinSigs u32 nat
  | CommitmentMismatch
  | LeadingInputCarriesValue str u32 u64
  | MixedFunding
  | MissingChangeScript
  | InvalidVdxfName str
  | MalformedVdxfObject str
  | InvalidAmount str
  | FeeTooLarge u64 u64
  | MissingSignature nat
  | InvalidInputSignature nat
  | MessageSignature str
  | InvalidOffer str
  | InvalidCurrencyDefinition str
  | InvalidMultisig str
  | InvalidConversion str
  | MalformedPartialTransaction str
  | UncountableOutput str u32 str
  | ValueOverflow
  | ReferralNotCommitted
  | ReferralChainTooLong nat u32
  | ImplausibleReferralLevels u32 u32
  | UnsupportedParentProofProtocol u32
  | NotAPrimaryAddress str
  | NotEnoughSigners nat u32
  | NoSignatures
  | AuthorityChangeRefused str
  | AlreadyRevoked
  | NotRevoked
  | StillRevoked
  | RevocationWouldStrand
  | TimelockRefused str
  | FundsTimelocked "u32 option"
  | IdentityOutputMismatch
  | CcPayloadTooLarge nat
  | InsufficientTokens str u64
  | UnsupportedFundingEval str u32 u8
  | MalformedCryptoCondition str
  | UnsupportedScript str
  | InvalidTxid str
  | Key key_error
  | Wire wire_error
  | Panic str

section \<open>Amounts\<close>

datatype amount = Amount (to_sat: u64)

definition SATS_PER_COIN :: u64 where "SATS_PER_COIN = 100000000"

definition amount_zero :: amount where "amount_zero = Amount 0"

definition from_sat :: "u64 \<Rightarrow> amount" where "from_sat satoshis = Amount satoshis"

definition amount_is_zero :: "amount \<Rightarrow> bool" where "amount_is_zero a \<longleftrightarrow> to_sat a = 0"

definition amount_checked_add :: "amount \<Rightarrow> amount \<Rightarrow> amount option" where
  "amount_checked_add a b = map_option Amount (checked_add (to_sat a) (to_sat b))"

definition amount_checked_sub :: "amount \<Rightarrow> amount \<Rightarrow> amount option" where
  "amount_checked_sub a b = map_option Amount (checked_sub (to_sat a) (to_sat b))"

definition amount_checked_mul :: "amount \<Rightarrow> u64 \<Rightarrow> amount option" where
  "amount_checked_mul a factor = map_option Amount (checked_mul (to_sat a) factor)"

text \<open>\<open>try_fold\<close> from zero.\<close>

fun amount_sum_from :: "amount \<Rightarrow> amount list \<Rightarrow> amount option" where
  "amount_sum_from acc [] = Some acc"
| "amount_sum_from acc (a # as) = Option.bind (amount_checked_add acc a) (\<lambda>acc'. amount_sum_from acc' as)"

definition amount_checked_sum :: "amount list \<Rightarrow> amount option" where
  "amount_checked_sum amounts = amount_sum_from amount_zero amounts"

text \<open>The order derived for the struct is that of the satoshis.\<close>

instantiation amount :: linorder
begin

definition less_eq_amount :: "amount \<Rightarrow> amount \<Rightarrow> bool" where
  "less_eq_amount a b \<longleftrightarrow> to_sat a \<le> to_sat b"

definition less_amount :: "amount \<Rightarrow> amount \<Rightarrow> bool" where
  "less_amount a b \<longleftrightarrow> to_sat a < to_sat b"

instance
  by standard (auto simp: less_eq_amount_def less_amount_def amount.expand)

end

text \<open>The value in satoshis, as a natural number.\<close>

abbreviation sats :: "amount \<Rightarrow> nat" where "sats a \<equiv> unat (to_sat a)"

lemma sats_inject: "sats a = sats b \<longleftrightarrow> a = b"
  by (cases a; cases b) (simp add: word_unat_eq_iff)

lemma sats_bound: "sats a < 2 ^ 64"
  using unat_bound [of "to_sat a"] by simp

lemma amount_le_iff: "a \<le> b \<longleftrightarrow> sats a \<le> sats b"
  and amount_less_iff: "a < b \<longleftrightarrow> sats a < sats b"
  by (simp_all add: less_eq_amount_def less_amount_def word_le_nat_alt word_less_nat_alt)

lemma sats_zero [simp]: "sats amount_zero = 0"
  by (simp add: amount_zero_def)

lemma amount_checked_add_Some [checked_simps]:
  "amount_checked_add a b = Some c \<longleftrightarrow> sats a + sats b < 2 ^ 64 \<and> sats c = sats a + sats b"
  by (cases c) (auto simp: amount_checked_add_def checked_simps)

lemma amount_checked_sub_Some [checked_simps]:
  "amount_checked_sub a b = Some c \<longleftrightarrow> sats b \<le> sats a \<and> sats c = sats a - sats b"
  by (cases c) (auto simp: amount_checked_sub_def checked_simps)

lemma amount_checked_mul_Some [checked_simps]:
  "amount_checked_mul a n = Some c \<longleftrightarrow> sats a * unat n < 2 ^ 64 \<and> sats c = sats a * unat n"
  by (cases c) (auto simp: amount_checked_mul_def checked_simps)

lemma amount_checked_None [checked_simps]:
  "amount_checked_add a b = None \<longleftrightarrow> 2 ^ 64 \<le> sats a + sats b"
  "amount_checked_sub a b = None \<longleftrightarrow> sats a < sats b"
  "amount_checked_mul a n = None \<longleftrightarrow> 2 ^ 64 \<le> sats a * unat n"
  by (simp_all add: amount_checked_add_def amount_checked_sub_def amount_checked_mul_def checked_simps)

definition total_sats :: "amount list \<Rightarrow> nat" where
  "total_sats as = sum_list (map sats as)"

lemma total_sats_simps [simp]:
  "total_sats [] = 0" "total_sats (a # as) = sats a + total_sats as"
  "total_sats (as @ bs) = total_sats as + total_sats bs"
  by (simp_all add: total_sats_def)

lemma amount_sum_from_Some:
  "amount_sum_from acc as = Some s \<longleftrightarrow>
     sats acc + total_sats as < 2 ^ 64 \<and> sats s = sats acc + total_sats as"
proof (induction as arbitrary: acc)
  case Nil
  then show ?case using sats_bound [of acc] sats_inject [of acc s] by auto
next
  case (Cons a as)
  show ?case
  proof (cases "amount_checked_add acc a")
    case None
    then have "2 ^ 64 \<le> sats acc + sats a" by (simp only: checked_simps)
    with None show ?thesis by simp
  next
    case (Some b)
    then have "sats b = sats acc + sats a" by (simp only: checked_simps)
    with Some Cons.IH [of b] show ?thesis by (simp add: add.assoc)
  qed
qed

lemma amount_checked_sum_Some [checked_simps]:
  "amount_checked_sum as = Some s \<longleftrightarrow> total_sats as < 2 ^ 64 \<and> sats s = total_sats as"
  by (simp add: amount_checked_sum_def amount_sum_from_Some)

lemma amount_of_sats: "n < 2 ^ 64 \<Longrightarrow> sats (Amount (of_nat n)) = n"
  by (simp add: unat_of_nat)

lemma amount_checked_sum_None [checked_simps]:
  "amount_checked_sum as = None \<longleftrightarrow> 2 ^ 64 \<le> total_sats as"
proof -
  have "(\<exists>s. amount_checked_sum as = Some s) \<longleftrightarrow> total_sats as < 2 ^ 64"
    using amount_of_sats [of "total_sats as"] by (simp only: amount_checked_sum_Some) blast
  then show ?thesis by (metis linorder_not_less not_None_eq)
qed

section \<open>Decimal coin strings\<close>

text \<open>The loop that multiplies the fraction by ten, once per missing place.\<close>

fun scale_fraction :: "nat \<Rightarrow> u64 \<Rightarrow> u64 option" where
  "scale_fraction 0 x = Some x"
| "scale_fraction (Suc k) x = Option.bind (checked_mul x 10) (scale_fraction k)"

text \<open>\<open>fraction.len()..8\<close> is the truncated subtraction, and the closure \<open>invalid\<close> holds the untrimmed text.\<close>

definition from_coins_str :: "str \<Rightarrow> tx_error + amount" where
  "from_coins_str text0 =
     (let invalid = InvalidAmount text0; text = trim text0 in
      rbind (refuse_if (text = [] \<or> starts_with ''-'' text \<or> starts_with ''+'' text) invalid) (\<lambda>_.
      let (whole, fraction) =
        (case split_once (CHR ''.'') text of Some p \<Rightarrow> p | None \<Rightarrow> (text, [])) in
      rbind (refuse_if (whole = [] \<and> fraction = []) invalid) (\<lambda>_.
      rbind (refuse_if (\<not> all_digits whole \<or> \<not> all_digits fraction \<or> 8 < length fraction) invalid) (\<lambda>_.
      rbind (if whole = [] then Inr 0 else ok_or (parse_u64 whole) invalid) (\<lambda>whole_coins.
      rbind (if fraction = [] then Inr 0 else ok_or (parse_u64 fraction) invalid) (\<lambda>fraction_sats0.
      rbind (ok_or (scale_fraction (8 - length fraction) fraction_sats0) invalid) (\<lambda>fraction_sats.
      ok_or (map_option Amount
               (Option.bind (checked_mul whole_coins SATS_PER_COIN)
                  (\<lambda>sats. checked_add sats fraction_sats))) invalid))))))) "

definition to_coins_string :: "amount \<Rightarrow> str" where
  "to_coins_string a =
     (let whole = to_sat a div SATS_PER_COIN; fraction = to_sat a mod SATS_PER_COIN in
      if fraction = 0 then dec_string (unat whole)
      else dec_string (unat whole) @ ''.'' @ trim_end_zeros (zero_padded 8 (unat fraction)))"

lemma unat_SATS_PER_COIN: "unat SATS_PER_COIN = 100000000"
  by (simp add: SATS_PER_COIN_def)

lemma scale_fraction_Some:
  "scale_fraction k x = Some y \<longleftrightarrow> unat x * 10 ^ k < 2 ^ 64 \<and> unat y = unat x * 10 ^ k"
proof (induction k arbitrary: x)
  case 0
  then show ?case using unat_bound [of x] by (auto simp: word_unat_eq_iff)
next
  case (Suc k)
  show ?case
  proof (cases "checked_mul x 10")
    case None
    then have "2 ^ 64 \<le> unat x * 10" by (simp add: checked_simps)
    moreover have "unat x * 10 \<le> unat x * 10 ^ Suc k" by simp
    ultimately have "\<not> unat x * 10 ^ Suc k < 2 ^ 64" by linarith
    with None show ?thesis by simp
  next
    case (Some z)
    then have "unat z = unat x * 10" by (simp add: checked_simps)
    with Some Suc.IH [of z] show ?thesis by (simp add: mult.assoc)
  qed
qed

text \<open>
  The numeral of a whole and a fraction part: what the trimmed text has to be, and the value
  in satoshis it stands for.
\<close>

definition coins_value :: "str \<Rightarrow> str \<Rightarrow> nat" where
  "coins_value whole fraction =
     dec_value whole * 100000000 + dec_value fraction * 10 ^ (8 - length fraction)"

definition coins_numeral :: "str \<Rightarrow> str \<Rightarrow> str \<Rightarrow> bool" where
  "coins_numeral text whole fraction \<longleftrightarrow>
     (text = whole \<and> fraction = [] \<or> text = whole @ ''.'' @ fraction) \<and>
     all_digits whole \<and> all_digits fraction \<and> length fraction \<le> 8 \<and>
     (whole \<noteq> [] \<or> fraction \<noteq> [])"

lemma coins_numeral_parts:
  assumes "coins_numeral text w f"
  shows "\<not> starts_with ''-'' text" "\<not> starts_with ''+'' text" "text \<noteq> []"
    "(case split_once (CHR ''.'') text of Some p \<Rightarrow> p | None \<Rightarrow> (text, [])) = (w, f)"
proof -
  have w: "all_digits w" "CHR ''.'' \<notin> set w" and ne: "w \<noteq> [] \<or> f \<noteq> []"
    and t: "text = w \<and> f = [] \<or> text = w @ CHR ''.'' # f"
    using assms all_digits_no_point by (auto simp: coins_numeral_def)
  have hd: "hd w \<noteq> CHR ''-''" "hd w \<noteq> CHR ''+''" if "w \<noteq> []"
    using w that digit_not_punctuation by (cases w; auto)+
  show "text \<noteq> []" using t ne by auto
  show "\<not> starts_with ''-'' text" "\<not> starts_with ''+'' text"
    using t hd by (cases w; auto)+
  have "split_once (CHR ''.'') w = None" "split_once (CHR ''.'') (w @ CHR ''.'' # f) = Some (w, f)"
    using w(2) by (simp_all add: split_once_None split_once_Some)
  then show "(case split_once (CHR ''.'') text of Some p \<Rightarrow> p | None \<Rightarrow> (text, [])) = (w, f)"
    using t by auto
qed

lemma digits_part:
  assumes "all_digits s"
  shows "(if s = [] then Inr 0 else ok_or (parse_u64 s) e) = Inr v \<longleftrightarrow>
     dec_value s < 2 ^ 64 \<and> unat v = dec_value s"
  using assms by (auto simp: parse_u64_digits result_simps unat_of_nat word_unat_eq_iff)

lemma fraction_value_bound:
  assumes "all_digits f" "length f \<le> 8"
  shows "dec_value f * 10 ^ (8 - length f) < 100000000" "dec_value f < 100000000"
proof -
  have "dec_value f * 10 ^ (8 - length f) < 10 ^ length f * 10 ^ (8 - length f)"
    using dec_value_bound [OF assms(1)] by simp
  also have "\<dots> = (10 :: nat) ^ 8" using assms(2) by (simp add: power_add [symmetric])
  finally show b: "dec_value f * 10 ^ (8 - length f) < 100000000" by simp
  have "dec_value f * 1 \<le> dec_value f * 10 ^ (8 - length f)" by (intro mult_le_mono2) simp
  with b show "dec_value f < 100000000" by linarith
qed

lemma from_coins_str_numeral:
  assumes "coins_numeral (trim s) w f"
  shows "from_coins_str s = Inr a \<longleftrightarrow> coins_value w f < 2 ^ 64 \<and> sats a = coins_value w f"
proof -
  note parts = coins_numeral_parts [OF assms]
  have d: "all_digits w" "all_digits f" "length f \<le> 8" "w \<noteq> [] \<or> f \<noteq> []"
    using assms by (auto simp: coins_numeral_def)
  note fb = fraction_value_bound [OF d(2,3)]
  let ?e = "InvalidAmount s"
  let ?P = "\<lambda>wc fc fs. (if w = [] then Inr 0 else ok_or (parse_u64 w) ?e) = Inr wc \<and>
      (if f = [] then Inr 0 else ok_or (parse_u64 f) ?e) = Inr fc \<and>
      scale_fraction (8 - length f) fc = Some fs \<and>
      map_option Amount (Option.bind (checked_mul wc SATS_PER_COIN) (\<lambda>sats. checked_add sats fs)) = Some a"
  have "from_coins_str s = Inr a \<longleftrightarrow> (\<exists>wc fc fs. ?P wc fc fs)"
  proof -
    have "from_coins_str s =
        rbind (if w = [] then Inr 0 else ok_or (parse_u64 w) ?e) (\<lambda>wc.
        rbind (if f = [] then Inr 0 else ok_or (parse_u64 f) ?e) (\<lambda>fc.
        rbind (ok_or (scale_fraction (8 - length f) fc) ?e) (\<lambda>fs.
        ok_or (map_option Amount
          (Option.bind (checked_mul wc SATS_PER_COIN) (\<lambda>sats. checked_add sats fs))) ?e)))"
      using parts d by (simp add: from_coins_str_def Let_def)
    then show ?thesis by (simp only: rbind_Inr_iff ok_or_Inr_iff) blast
  qed
  also have "\<dots> \<longleftrightarrow> (\<exists>(wc :: u64) (fc :: u64) (fs :: u64). dec_value w < 2 ^ 64 \<and> unat wc = dec_value w \<and>
      dec_value f < 2 ^ 64 \<and> unat fc = dec_value f \<and>
      unat fc * 10 ^ (8 - length f) < 2 ^ 64 \<and> unat fs = unat fc * 10 ^ (8 - length f) \<and>
      unat wc * 100000000 < 2 ^ 64 \<and> unat wc * 100000000 + unat fs < 2 ^ 64 \<and>
      sats a = unat wc * 100000000 + unat fs)"
  proof -
    have m: "map_option Amount (Option.bind (checked_mul wc SATS_PER_COIN) (\<lambda>sats. checked_add sats fs)) = Some a
        \<longleftrightarrow> unat wc * 100000000 < 2 ^ 64 \<and> unat wc * 100000000 + unat fs < 2 ^ 64 \<and>
            sats a = unat wc * 100000000 + unat fs" for wc fs
    proof (cases "checked_mul wc SATS_PER_COIN")
      case None
      then have "2 ^ 64 \<le> unat wc * 100000000" by (simp only: checked_simps unat_SATS_PER_COIN) simp
      with None show ?thesis by simp
    next
      case (Some m)
      then have "unat m = unat wc * 100000000" "unat wc * 100000000 < 2 ^ 64"
        by (simp_all add: checked_simps unat_SATS_PER_COIN)
      moreover have "map_option Amount (checked_add m fs) = Some a
          \<longleftrightarrow> unat m + unat fs < 2 ^ 64 \<and> sats a = unat m + unat fs"
        by (cases a) (auto simp: checked_simps)
      ultimately show ?thesis by (simp add: Some)
    qed
    show ?thesis
      by (simp only: digits_part [OF d(1)] digits_part [OF d(2)] scale_fraction_Some m conj_assoc)
  qed
  also have "\<dots> \<longleftrightarrow> coins_value w f < 2 ^ 64 \<and> sats a = coins_value w f"
  proof
    assume r: "coins_value w f < 2 ^ 64 \<and> sats a = coins_value w f"
    have "\<exists>x :: u64. unat x = n" if "n < 2 ^ 64" for n
      using that by (intro exI [of _ "of_nat n"]) (simp add: unat_of_nat)
    moreover have "dec_value w < 2 ^ 64" "dec_value f * 10 ^ (8 - length f) < 2 ^ 64" "dec_value f < 2 ^ 64"
      using r fb by (auto simp: coins_value_def)
    ultimately obtain wc fc fs :: u64 where "unat wc = dec_value w" "unat fc = dec_value f"
      "unat fs = dec_value f * 10 ^ (8 - length f)" by metis
    with r fb show "\<exists>(wc :: u64) (fc :: u64) (fs :: u64). dec_value w < 2 ^ 64 \<and> unat wc = dec_value w \<and>
      dec_value f < 2 ^ 64 \<and> unat fc = dec_value f \<and>
      unat fc * 10 ^ (8 - length f) < 2 ^ 64 \<and> unat fs = unat fc * 10 ^ (8 - length f) \<and>
      unat wc * 100000000 < 2 ^ 64 \<and> unat wc * 100000000 + unat fs < 2 ^ 64 \<and>
      sats a = unat wc * 100000000 + unat fs"
      by (intro exI [of _ wc] exI [of _ fc] exI [of _ fs]) (auto simp: coins_value_def)
  qed (auto simp: coins_value_def)
  finally show ?thesis .
qed

lemma from_coins_str_Inr:
  "from_coins_str s = Inr a \<longleftrightarrow>
     (\<exists>w f. coins_numeral (trim s) w f \<and> coins_value w f < 2 ^ 64 \<and> sats a = coins_value w f)"
proof
  assume l: "from_coins_str s = Inr a"
  obtain w f where wf:
    "(case split_once (CHR ''.'') (trim s) of Some p \<Rightarrow> p | None \<Rightarrow> (trim s, [])) = (w, f)"
    by force
  have "coins_numeral (trim s) w f"
    using l wf
    by (auto simp: from_coins_str_def Let_def rbind_Inr_iff refuse_if_Inr_iff coins_numeral_def
        split_once_Some split: option.splits)
  with l from_coins_str_numeral show "\<exists>w f. coins_numeral (trim s) w f \<and> coins_value w f < 2 ^ 64 \<and>
      sats a = coins_value w f"
    by blast
qed (use from_coins_str_numeral in blast)

lemma from_coins_str_Inl:
  "from_coins_str s = Inl e \<Longrightarrow> e = InvalidAmount s"
  by (auto simp: from_coins_str_def Let_def rbind_Inl_iff refuse_if_def ok_or_def
      split: if_splits option.splits prod.splits)

lemma to_coins_string_numeral:
  "\<exists>w f. coins_numeral (to_coins_string a) w f \<and> coins_value w f = sats a \<and> w \<noteq> [] \<and>
     (f \<noteq> [] \<longrightarrow> last f \<noteq> CHR ''0'')"
proof -
  let ?w = "dec_string (unat (to_sat a div SATS_PER_COIN))"
  let ?n = "unat (to_sat a mod SATS_PER_COIN)"
  have dm: "sats a = unat (to_sat a div SATS_PER_COIN) * 100000000 + ?n"
    by (simp add: unat_div_distrib unat_mod_distrib unat_SATS_PER_COIN)
  have n: "?n < 100000000" by (simp add: unat_mod_distrib unat_SATS_PER_COIN)
  show ?thesis
  proof (cases "to_sat a mod SATS_PER_COIN = 0")
    case True
    with dm show ?thesis
      by (intro exI [of _ ?w] exI [of _ "[]"])
        (simp add: to_coins_string_def Let_def coins_numeral_def coins_value_def)
  next
    case False
    let ?z = "zero_padded 8 ?n"
    have z: "length ?z = 8" "all_digits ?z" "dec_value ?z = ?n"
      using zero_padded_facts [of 8 ?n] n by simp_all
    obtain j where j: "?z = trim_end_zeros ?z @ replicate j (CHR ''0'')"
      by (rule trim_end_zeros_split)
    let ?f = "trim_end_zeros ?z"
    have lj: "length ?f + j = 8" using z(1) j by (metis length_append length_replicate)
    have v: "dec_value ?f * 10 ^ (8 - length ?f) = ?n"
    proof -
      have "?n = dec_value (?f @ replicate j (CHR ''0''))" using z(3) j by metis
      moreover have "8 - length ?f = j" using lj by linarith
      ultimately show ?thesis by simp
    qed
    have dg: "all_digits ?f" using z(2) j by (metis all_digits_simps(3))
    have "?n \<noteq> 0" using False by (simp add: unat_eq_0)
    then have ne: "?f \<noteq> []" using v by auto
    show ?thesis
    proof (intro exI conjI impI)
      show "coins_numeral (to_coins_string a) ?w ?f"
        using False dg lj ne by (simp add: to_coins_string_def Let_def coins_numeral_def)
      show "coins_value ?w ?f = sats a" using dm v by (simp add: coins_value_def)
      show "last ?f \<noteq> CHR ''0''" using ne by (rule trim_end_zeros_last)
    qed simp
  qed
qed

lemma coins_numeral_plain:
  assumes "coins_numeral t w f"
  shows "\<forall>c \<in> set t. plain_char c"
proof -
  have "plain_char (CHR ''.'')" by (simp add: plain_char_def)
  moreover have "\<forall>c \<in> set w \<union> set f. plain_char c"
    using assms digit_plain by (auto simp: coins_numeral_def all_digits_def list_all_iff)
  ultimately show ?thesis using assms by (auto simp: coins_numeral_def)
qed

text \<open>The contract of a textual form, with no library needed.\<close>

interpretation coins: text_form "\<lambda>_ :: unit. True" "\<lambda>_. to_coins_string" "\<lambda>_. from_coins_str" "\<lambda>_. True"
proof
  fix x :: amount
  obtain w f where n: "coins_numeral (to_coins_string x) w f" "coins_value w f = sats x"
    using to_coins_string_numeral by blast
  have t: "trim (to_coins_string x) = to_coins_string x"
    using coins_numeral_plain [OF n(1)] by (rule trim_plain)
  show "from_coins_str (to_coins_string x) = Inr x"
    unfolding from_coins_str_Inr t
    by (intro exI [of _ w] exI [of _ f] conjI) (simp_all only: n sats_bound)
qed

text \<open>
  Parsing an amount of coins is exact.  A text is accepted exactly when, trimmed, it is
  digits with at most one point and at most eight places after it, and its value in
  satoshis fits 64 bits; the amount is that value, with no rounding; every refusal is
  \<open>InvalidAmount\<close> with the text as given.  Signs, exponents, a lone point and a ninth
  decimal place are refused.
\<close>

theorem from_coins_str_exact:
  "(from_coins_str s = Inr a \<longleftrightarrow>
      (\<exists>whole fraction. coins_numeral (trim s) whole fraction \<and>
         coins_value whole fraction < 2 ^ 64 \<and> sats a = coins_value whole fraction)) \<and>
   from_coins_str s \<in> {Inl (InvalidAmount s)} \<union> range Inr \<and>
   from_coins_str ''.'' = Inl (InvalidAmount ''.'')"
proof (intro conjI)
  show "from_coins_str s \<in> {Inl (InvalidAmount s)} \<union> range Inr"
    using from_coins_str_Inl by (cases "from_coins_str s") auto
  have "\<not> coins_numeral ''.'' w f" for w f
    by (cases w) (auto simp: coins_numeral_def is_ascii_digit_def)
  moreover have "trim ''.'' = ''.''" by (rule trim_plain) (simp add: plain_char_def)
  ultimately have "\<forall>b. from_coins_str ''.'' \<noteq> Inr b" by (simp add: from_coins_str_Inr)
  then show "from_coins_str ''.'' = Inl (InvalidAmount ''.'')"
    using from_coins_str_Inl by (cases "from_coins_str ''.''") auto
qed (rule from_coins_str_Inr)

text \<open>
  Printing and parsing amounts.  Every amount, up to the largest 64-bit count, is read
  back exactly from the string it prints as, so two different amounts never print alike,
  and that string never ends in a superfluous zero after the point.
\<close>

theorem coins_string_roundtrip:
  "from_coins_str (to_coins_string a) = Inr a \<and>
   (\<exists>whole fraction. coins_numeral (to_coins_string a) whole fraction \<and> whole \<noteq> [] \<and>
      (fraction = [] \<or> last fraction \<noteq> CHR ''0''))"
  using coins.parse_text to_coins_string_numeral by blast

lemma coins_string_roundtrip_witness:
  "from_coins_str (to_coins_string (Amount 150000000)) = Inr (Amount 150000000)"
  using coins_string_roundtrip by blast

section \<open>Transaction ids\<close>

text \<open>
  \<open>hex::decode\<close> is a crate: \<open>hx\<close> maps a text to its bytes or the error's text, and accepts
  what the lower-case formatting writes.
\<close>

type_synonym hex_decode = "str \<Rightarrow> str + bytes"

definition hex_decode_ok :: "hex_decode \<Rightarrow> bool" where
  "hex_decode_ok hx \<longleftrightarrow> (\<forall>b. hx (hex_string b) = Inr b)"

datatype txid = Txid (to_internal: bytes)

definition wf_txid :: "txid \<Rightarrow> bool" where "wf_txid t \<longleftrightarrow> length (to_internal t) = 32"

definition from_internal :: "bytes \<Rightarrow> txid" where "from_internal bytes = Txid bytes"

definition from_display_hex :: "hex_decode \<Rightarrow> str \<Rightarrow> tx_error + txid" where
  "from_display_hex hx hex_str =
     rbind (map_err (\<lambda>e. InvalidTxid (''not hex: '' @ e)) (hx hex_str)) (\<lambda>decoded.
     rbind (refuse_if (length decoded \<noteq> 32)
              (InvalidTxid (''expected 32 bytes, got '' @ dec_string (length decoded)))) (\<lambda>_.
     Inr (Txid (rev decoded))))"

definition to_display_hex :: "txid \<Rightarrow> str" where
  "to_display_hex t = hex_string (rev (to_internal t))"

interpretation txid_text: text_form hex_decode_ok "\<lambda>_. to_display_hex" from_display_hex wf_txid
proof
  fix hx x
  assume "hex_decode_ok hx" "wf_txid x"
  then show "from_display_hex hx (to_display_hex x) = Inr x"
    by (cases x) (simp add: from_display_hex_def to_display_hex_def hex_decode_ok_def wf_txid_def)
qed

section \<open>Expiry heights\<close>

definition EXPIRY_HEIGHT_THRESHOLD :: u32 where "EXPIRY_HEIGHT_THRESHOLD = 500000000"
definition DEFAULT_EXPIRY_BLOCKS :: u32 where "DEFAULT_EXPIRY_BLOCKS = 20"

datatype expiry = Never | AtHeight u32

definition expiry_within :: "u32 \<Rightarrow> u32 \<Rightarrow> expiry" where
  "expiry_within current_height blocks = AtHeight (saturating_add current_height blocks)"

fun to_height :: "expiry \<Rightarrow> u32" where
  "to_height Never = 0"
| "to_height (AtHeight height) = height"

definition from_height :: "u32 \<Rightarrow> expiry" where
  "from_height height = (if height = 0 then Never else AtHeight height)"

fun expiry_check :: "expiry \<Rightarrow> tx_error + unit" where
  "expiry_check (AtHeight height) =
     (if EXPIRY_HEIGHT_THRESHOLD \<le> height then Inl (ExpiryHeightTooLarge height) else Inr ())"
| "expiry_check Never = Inr ()"

section \<open>Currency ids and unspent outputs\<close>

datatype currency_id = CurrencyId (currency_to_bytes: bytes)

definition currency_from_bytes :: "bytes \<Rightarrow> currency_id" where
  "currency_from_bytes bytes = CurrencyId bytes"

definition of_identity :: "bytes \<Rightarrow> currency_id" where
  "of_identity identity = CurrencyId identity"

definition currency_to_string :: "currency_id \<Rightarrow> str" where
  "currency_to_string c = hex_string (currency_to_bytes c)"

record utxo =
  utxo_txid :: txid
  utxo_vout :: u32
  utxo_satoshis :: amount
  utxo_script_pubkey :: bytes

section \<open>Properties of ids and expiry\<close>

text \<open>
  Transaction ids.  A displayed id is the lower-case hex of the reversed internal bytes
  and reads back as the same id, so distinct ids never display alike; decoding to another
  length than 32 bytes is refused, with that length in the message.
\<close>

theorem txid_display_roundtrip:
  assumes "hex_decode_ok hx"
  shows "(wf_txid t \<longrightarrow> from_display_hex hx (to_display_hex t) = Inr t \<and> length (to_display_hex t) = 64) \<and>
    (length b = 32 \<longrightarrow> from_display_hex hx (hex_string b) = Inr (from_internal (rev b))) \<and>
    (length b \<noteq> 32 \<longrightarrow> from_display_hex hx (hex_string b) =
       Inl (InvalidTxid (''expected 32 bytes, got '' @ dec_string (length b))))"
  using txid_text.parse_text [OF assms] assms
  by (simp add: to_display_hex_def wf_txid_def from_display_hex_def hex_decode_ok_def from_internal_def)

text \<open>A decoder to instantiate the hypothesis with: the inverse of \<open>hex_string\<close>.\<close>

fun unhex :: "str \<Rightarrow> bytes" where
  "unhex (a # b # s) =
     (let v = (\<lambda>c. if (of_char c :: nat) < 58 then of_char c - 48 else of_char c - 87) in
      of_nat (16 * v a + v b) # unhex s)"
| "unhex s = []"

lemma unhex_hex_string: "unhex (hex_string b) = b"
proof (induction b)
  case (Cons x b)
  have x: "unat x div 16 < 16" "unat x mod 16 < 16" using unat_byte [of x] by auto
  have "of_nat (16 * (unat x div 16) + unat x mod 16) = x" by simp
  then have "16 * of_nat (unat x div 16) + of_nat (unat x mod 16) = x"
    by (simp only: of_nat_add of_nat_mult of_nat_numeral)
  with Cons x show ?case
    by (simp add: hex_byte_def of_char_hex_digit Let_def del: mult_div_mod_eq)
qed simp

lemma toy_hex_ok: "hex_decode_ok (\<lambda>s. Inr (unhex s))"
  by (simp add: hex_decode_ok_def unhex_hex_string)

lemma txid_display_roundtrip_witness:
  "from_display_hex (\<lambda>s. Inr (unhex s)) (hex_string (replicate 32 1)) = Inr (Txid (replicate 32 1))
   \<and> from_display_hex (\<lambda>s. Inr (unhex s)) (hex_string [1]) \<noteq> Inr (Txid [1])"
  using txid_display_roundtrip [OF toy_hex_ok, of "Txid []" "replicate 32 1"]
    txid_display_roundtrip [OF toy_hex_ok, of "Txid []" "[1]"]
  by (simp add: from_internal_def)

text \<open>
  Expiry.  \<open>check\<close> accepts exactly the heights below the consensus threshold, so an
  offset that saturates, or any sum at or past the threshold, is refused rather than
  wrapping to a low height; below the threshold \<open>within\<close> is the exact sum.  The wire height
  determines the expiry except that \<open>AtHeight 0\<close> is written as the 0 of \<open>Never\<close>.
\<close>

theorem expiry_never_wraps:
  "(expiry_check e = Inr () \<longleftrightarrow> unat (to_height e) < 500000000) \<and>
   (expiry_check (expiry_within h b) = Inr () \<longleftrightarrow> unat h + unat b < 500000000) \<and>
   (unat h + unat b < 500000000 \<longrightarrow> unat (to_height (expiry_within h b)) = unat h + unat b) \<and>
   (500000000 \<le> unat h + unat b \<longrightarrow> expiry_check (expiry_within h b) =
      Inl (ExpiryHeightTooLarge (saturating_add h b))) \<and>
   to_height (from_height h) = h \<and>
   from_height (to_height e) = (if e = AtHeight 0 then Never else e)"
proof -
  have s: "unat (saturating_add h b) = min (unat h + unat b) 4294967295"
    by (simp add: unat_saturating_add)
  have t: "EXPIRY_HEIGHT_THRESHOLD \<le> x \<longleftrightarrow> 500000000 \<le> unat x" for x
    by (simp add: EXPIRY_HEIGHT_THRESHOLD_def word_le_nat_alt)
  have "from_height (to_height e) = (if e = AtHeight 0 then Never else e)"
    by (cases e) (auto simp: from_height_def)
  moreover have "expiry_check e = Inr () \<longleftrightarrow> unat (to_height e) < 500000000"
    by (cases e) (auto simp: t)
  ultimately show ?thesis
    by (auto simp: expiry_within_def t s from_height_def)
qed

lemma expiry_never_wraps_witness:
  "unat (to_height (expiry_within 1167200 20)) = 1167220 \<and>
   expiry_check (expiry_within 4294967294 100) = Inl (ExpiryHeightTooLarge 4294967295)"
  using expiry_never_wraps [of Never 1167200 20] expiry_never_wraps [of Never 4294967294 100]
  by (simp add: saturating_add_def)

end
