(* ===== verification/Fee.thy ===== *)
theory Fee
  imports Tx_Primitives "HOL-Library.Multiset"
begin

text \<open>
  \<open>verus-tx-primitives/src/fee.rs\<close>: the fee estimate, the sanity ceilings, and the greedy
  selection of unspent outputs.  The lemmas characterise the selection loop by the prefixes
  of the sorted candidates; the properties are conservation of value, minimality, the error
  cases and the absence of wrap-around in the unchecked subtractions of the code.
\<close>

section \<open>Constants and ceilings\<close>

definition TX_OVERHEAD :: u64 where "TX_OVERHEAD = 60"
definition INPUT_SIZE :: u64 where "INPUT_SIZE = 180"
definition P2PKH_OUTPUT_SIZE :: u64 where "P2PKH_OUTPUT_SIZE = 34"
definition SMART_OUTPUT_SIZE :: u64 where "SMART_OUTPUT_SIZE = 200"
definition DEFAULT_FEE_PER_KB :: u64 where "DEFAULT_FEE_PER_KB = 10000"
definition MIN_FEE :: u64 where "MIN_FEE = 10000"
definition DUST_THRESHOLD :: u64 where "DUST_THRESHOLD = 546"
definition MAX_MINER_FEE :: u64 where "MAX_MINER_FEE = 100000000"
definition MAX_DECLARED_BURN :: u64 where "MAX_DECLARED_BURN = 100000000000"
definition MAX_TRUSTED_NODE_FEE :: u64 where "MAX_TRUSTED_NODE_FEE = 500 * SATS_PER_COIN"

lemmas fee_constants = TX_OVERHEAD_def INPUT_SIZE_def P2PKH_OUTPUT_SIZE_def SMART_OUTPUT_SIZE_def
  DEFAULT_FEE_PER_KB_def MIN_FEE_def DUST_THRESHOLD_def MAX_MINER_FEE_def MAX_DECLARED_BURN_def

definition check_fee_ceiling :: "u64 \<Rightarrow> tx_error + unit" where
  "check_fee_ceiling fee = refuse_if (MAX_MINER_FEE < fee) (FeeTooLarge fee MAX_MINER_FEE)"

definition check_burn_ceiling :: "u64 \<Rightarrow> tx_error + unit" where
  "check_burn_ceiling burn = refuse_if (MAX_DECLARED_BURN < burn) (FeeTooLarge burn MAX_DECLARED_BURN)"

lemma check_fee_ceiling_Inr [result_simps]:
  "check_fee_ceiling fee = Inr u \<longleftrightarrow> unat fee \<le> 100000000"
  by (simp add: check_fee_ceiling_def result_simps MAX_MINER_FEE_def word_less_nat_alt not_less)

lemma check_burn_ceiling_Inr [result_simps]:
  "check_burn_ceiling burn = Inr u \<longleftrightarrow> unat burn \<le> 100000000000"
  by (simp add: check_burn_ceiling_def result_simps MAX_DECLARED_BURN_def word_less_nat_alt not_less)

section \<open>The fee estimate\<close>

definition estimate_fee :: "u64 \<Rightarrow> u64 \<Rightarrow> u64 \<Rightarrow> bool \<Rightarrow> tx_error + u64" where
  "estimate_fee num_inputs num_outputs fee_per_kb has_smart_outputs =
     (let output_size = (if has_smart_outputs then SMART_OUTPUT_SIZE else P2PKH_OUTPUT_SIZE) in
      rbind (ok_or (checked_mul num_inputs INPUT_SIZE) ValueOverflow) (\<lambda>inputs_size.
      rbind (ok_or (checked_mul num_outputs output_size) ValueOverflow) (\<lambda>outputs_size.
      rbind (ok_or (Option.bind (checked_add TX_OVERHEAD inputs_size)
               (\<lambda>size. checked_add size outputs_size)) ValueOverflow) (\<lambda>tx_size.
      rbind (ok_or (checked_mul tx_size fee_per_kb) ValueOverflow) (\<lambda>product.
      let fee = div_ceil product 1000 in
      Inr (if MIN_FEE < fee then fee else MIN_FEE))))))"

text \<open>The same in natural numbers.\<close>

definition size_estimate :: "nat \<Rightarrow> nat \<Rightarrow> bool \<Rightarrow> nat" where
  "size_estimate inputs outputs smart = 60 + 180 * inputs + (if smart then 200 else 34) * outputs"

definition fee_estimate :: "nat \<Rightarrow> nat \<Rightarrow> nat \<Rightarrow> bool \<Rightarrow> nat" where
  "fee_estimate inputs outputs rate smart =
     max 10000 ((size_estimate inputs outputs smart * rate + 999) div 1000)"

lemma size_chain:
  fixes n m s :: u64
  defines "tx_size \<equiv> 60 + unat n * 180 + unat m * unat s"
  shows "rbind (ok_or (checked_mul n INPUT_SIZE) e) (\<lambda>i. rbind (ok_or (checked_mul m s) e) (\<lambda>j.
      rbind (ok_or (Option.bind (checked_add TX_OVERHEAD i) (\<lambda>size. checked_add size j)) e) F))
    = (if tx_size < 2 ^ 64 then F (of_nat tx_size) else Inl e)"
proof -
  have c: "unat INPUT_SIZE = 180" "unat TX_OVERHEAD = 60"
    by (simp_all add: fee_constants)
  show ?thesis
  proof (cases "checked_mul n INPUT_SIZE")
    case None
    then have "2 ^ 64 \<le> unat n * 180" by (simp only: checked_simps c) simp
    with None show ?thesis by (simp add: tx_size_def)
  next
    case i: (Some i)
    then have ui: "unat i = unat n * 180" by (simp only: checked_simps c)
    show ?thesis
    proof (cases "checked_mul m s")
      case None
      then have "2 ^ 64 \<le> unat m * unat s" by (simp only: checked_simps) simp
      with i None show ?thesis by (simp add: tx_size_def)
    next
      case j: (Some j)
      then have uj: "unat j = unat m * unat s" by (simp only: checked_simps)
      show ?thesis
      proof (cases "checked_add TX_OVERHEAD i")
        case None
        then have "2 ^ 64 \<le> 60 + unat n * 180" by (simp only: checked_simps c ui) simp
        with i j None show ?thesis by (simp add: tx_size_def)
      next
        case k: (Some k)
        then have uk: "unat k = 60 + unat n * 180" by (simp only: checked_simps c ui)
        show ?thesis
        proof (cases "checked_add k j")
          case None
          then have "2 ^ 64 \<le> tx_size" by (simp only: checked_simps uk uj tx_size_def) simp
          with i j k None show ?thesis by simp
        next
          case (Some x)
          then have ux: "unat x = tx_size" "tx_size < 2 ^ 64"
            by (simp_all only: checked_simps uk uj tx_size_def) simp
          then have "x = of_nat tx_size" by (intro word_eq_of_nat)
          with i j k Some ux show ?thesis by simp
        qed
      qed
    qed
  qed
qed

lemma estimate_fee_value:
  fixes n m r :: u64 and smart :: bool
  defines "tx_size \<equiv> size_estimate (unat n) (unat m) smart"
  shows "estimate_fee n m r smart =
     (if tx_size < 2 ^ 64 \<and> tx_size * unat r < 2 ^ 64
      then Inr (of_nat (fee_estimate (unat n) (unat m) (unat r) smart)) else Inl ValueOverflow)"
proof -
  let ?s = "if smart then SMART_OUTPUT_SIZE else P2PKH_OUTPUT_SIZE"
  have sz: "60 + unat n * 180 + unat m * unat ?s = tx_size"
    by (simp add: tx_size_def size_estimate_def fee_constants)
  have st: "estimate_fee n m r smart =
    (if tx_size < 2 ^ 64 then
       rbind (ok_or (checked_mul (of_nat tx_size) r) ValueOverflow)
         (\<lambda>p. let fee = div_ceil p 1000 in Inr (if MIN_FEE < fee then fee else MIN_FEE))
     else Inl ValueOverflow)"
    unfolding estimate_fee_def Let_def size_chain sz ..
  have "rbind (ok_or (checked_mul (of_nat tx_size) r) ValueOverflow)
         (\<lambda>p. let fee = div_ceil p 1000 in Inr (if MIN_FEE < fee then fee else MIN_FEE)) =
     (if tx_size * unat r < 2 ^ 64
      then Inr (of_nat (fee_estimate (unat n) (unat m) (unat r) smart)) else Inl ValueOverflow)"
    if "tx_size < 2 ^ 64"
  proof (cases "checked_mul (of_nat tx_size) r")
    case None
    then have "2 ^ 64 \<le> tx_size * unat r"
      by (simp only: checked_simps unat_of_nat_u64 [OF that]) simp
    with None show ?thesis by simp
  next
    case (Some p)
    then have p: "tx_size * unat r < 2 ^ 64" "unat p = tx_size * unat r"
      by (simp_all only: checked_simps unat_of_nat_u64 [OF that]) simp
    let ?f = "div_ceil p 1000" and ?n = "(tx_size * unat r + 999) div 1000"
    have f: "unat ?f = ?n" by (subst unat_div_ceil) (simp_all add: p(2))
    then have "?f = of_nat ?n" by (rule word_eq_of_nat)
    moreover have "MIN_FEE < ?f \<longleftrightarrow> 10000 < ?n"
      unfolding word_less_nat_alt f by (simp add: MIN_FEE_def)
    ultimately have "(if MIN_FEE < ?f then ?f else MIN_FEE)
        = of_nat (fee_estimate (unat n) (unat m) (unat r) smart)"
      by (simp add: fee_estimate_def tx_size_def max_def MIN_FEE_def)
    with Some p show ?thesis by (simp add: Let_def)
  qed
  with st show ?thesis by auto
qed

text \<open>
  In natural numbers: a successful estimate is the formula, and fits 64 bits.
\<close>

lemma estimate_fee_Inr:
  assumes "estimate_fee n m r smart = Inr fee"
  shows "unat fee = fee_estimate (unat n) (unat m) (unat r) smart"
proof -
  let ?x = "size_estimate (unat n) (unat m) smart * unat r"
  from assms have x: "?x < 2 ^ 64"
    and f: "fee = of_nat (fee_estimate (unat n) (unat m) (unat r) smart)"
    by (auto simp: estimate_fee_value split: if_splits)
  from x have "fee_estimate (unat n) (unat m) (unat r) smart < 2 ^ 64"
    by (simp add: fee_estimate_def)
  with f show ?thesis by (simp add: unat_of_nat)
qed

lemma estimate_fee_min: "estimate_fee n m r smart = Inr fee \<Longrightarrow> 10000 \<le> unat fee"
  by (simp add: estimate_fee_Inr fee_estimate_def)

lemma estimate_fee_Inl: "estimate_fee n m r smart = Inl e \<Longrightarrow> e = ValueOverflow"
  by (auto simp: estimate_fee_value split: if_splits)

section \<open>Selection\<close>

record selection =
  sel_selected :: "utxo list"
  sel_change :: u64
  sel_fee :: u64

abbreviation outpoint :: "utxo \<Rightarrow> txid \<times> u32" where
  "outpoint u \<equiv> (utxo_txid u, utxo_vout u)"

text \<open>The scan for a repeated outpoint: the first element that an earlier one equals.\<close>

fun first_duplicate :: "utxo list \<Rightarrow> utxo list \<Rightarrow> utxo option" where
  "first_duplicate earlier [] = None"
| "first_duplicate earlier (u # us) =
     (if \<exists>e \<in> set earlier. utxo_txid e = utxo_txid u \<and> utxo_vout e = utxo_vout u then Some u
      else first_duplicate (earlier @ [u]) us)"

text \<open>Stable and descending: \<open>sort_by_key\<close> with \<open>Reverse\<close>.\<close>

definition descending :: "utxo list \<Rightarrow> utxo list" where
  "descending utxos = sort_key (\<lambda>u. - uint (to_sat (utxo_satoshis u))) utxos"

text \<open>
  The loop, with the iterator as the list of remaining candidates; \<open>est\<close> estimates the fee
  for a number of inputs and \<open>insufficient\<close> builds the error from the current fee.
\<close>

fun select_loop ::
  "(u64 \<Rightarrow> tx_error + u64) \<Rightarrow> (u64 \<Rightarrow> tx_error) \<Rightarrow> utxo list \<Rightarrow> utxo list \<Rightarrow> int \<Rightarrow> u64
    \<Rightarrow> tx_error + utxo list \<times> u64" where
  "select_loop est insufficient candidates selected remaining_native fee =
     (if 0 < remaining_native + uint fee then
        (case candidates of
           [] \<Rightarrow> Inl (insufficient fee)
         | u # candidates' \<Rightarrow>
             rbind (est (of_nat (length (selected @ [u])))) (\<lambda>fee'.
             select_loop est insufficient candidates' (selected @ [u])
               (remaining_native - uint (to_sat (utxo_satoshis u))) fee'))
      else Inr (selected, fee))"

definition insufficient_funds :: "utxo list \<Rightarrow> u64 \<Rightarrow> u64 \<Rightarrow> tx_error" where
  "insufficient_funds utxos required_native fee =
     InsufficientFunds (saturating_add required_native fee)
       (case amount_checked_sum (map utxo_satoshis utxos) of Some a \<Rightarrow> to_sat a | None \<Rightarrow> - 1)"

definition select_utxos ::
  "utxo list \<Rightarrow> u64 \<Rightarrow> u64 \<Rightarrow> u64 \<Rightarrow> bool \<Rightarrow> tx_error + selection" where
  "select_utxos utxos required_native num_outputs fee_per_kb has_smart_outputs =
     rbind (case first_duplicate [] utxos of
              Some u \<Rightarrow> Inl (DuplicateUtxo (to_display_hex (utxo_txid u)) (utxo_vout u))
            | None \<Rightarrow> Inr ()) (\<lambda>_.
     let candidates = descending utxos in
     rbind (ok_or (checked_add num_outputs 1) ValueOverflow) (\<lambda>change_outputs.
     rbind (estimate_fee 1 change_outputs fee_per_kb has_smart_outputs) (\<lambda>fee0.
     rbind (select_loop (\<lambda>n. estimate_fee n change_outputs fee_per_kb has_smart_outputs)
              (insufficient_funds utxos required_native) candidates [] (uint required_native) fee0)
       (\<lambda>(selected, fee).
     rbind (ok_or (amount_checked_sum (map utxo_satoshis selected)) ValueOverflow) (\<lambda>sum.
     let total_in = to_sat sum; actual_change = total_in - required_native - fee;
         selection = (if DUST_THRESHOLD < actual_change
           then \<lparr>sel_selected = selected, sel_change = actual_change, sel_fee = fee\<rparr>
           else \<lparr>sel_selected = selected, sel_change = 0, sel_fee = fee + actual_change\<rparr>) in
     rbind (check_fee_ceiling (sel_fee selection)) (\<lambda>_. Inr selection))))))"

declare select_loop.simps [simp del]

abbreviation utxo_total :: "utxo list \<Rightarrow> nat" where
  "utxo_total us \<equiv> total_sats (map utxo_satoshis us)"

lemma first_duplicate_None:
  "first_duplicate earlier us = None \<longleftrightarrow>
     distinct (map outpoint us) \<and> outpoint ` set earlier \<inter> outpoint ` set us = {}"
proof (induction us arbitrary: earlier)
  case Nil
  then show ?case by simp
next
  case (Cons u us)
  show ?case using Cons.IH [of "earlier @ [u]"] by (auto simp: image_iff) metis+
qed

lemma descending_facts [simp]:
  "mset (descending us) = mset us" "set (descending us) = set us"
  "length (descending us) = length us"
  by (simp_all add: descending_def)

lemma descending_distinct:
  "distinct (map outpoint (descending us)) \<longleftrightarrow> distinct (map outpoint us)"
proof -
  have "mset (map outpoint (descending us)) = mset (map outpoint us)" by simp
  then show ?thesis by (rule mset_eq_imp_distinct_iff)
qed

lemma descending_sorted:
  "sorted_wrt (\<lambda>a b. sats (utxo_satoshis b) \<le> sats (utxo_satoshis a)) (descending us)"
proof -
  have "sorted (map (\<lambda>u. - uint (to_sat (utxo_satoshis u))) (descending us))"
    by (simp add: descending_def)
  then show ?thesis
    by (auto simp: sorted_map elim!: sorted_wrt_mono_rel [rotated]
        simp: word_le_nat_alt [symmetric] word_le_def)
qed

text \<open>Equal values keep the caller's order.\<close>

lemma descending_stable:
  "filter (\<lambda>u. utxo_satoshis u = a) (descending us) = filter (\<lambda>u. utxo_satoshis u = a) us"
proof -
  have p: "uint (to_sat (utxo_satoshis u)) = uint (to_sat a) \<longleftrightarrow> utxo_satoshis u = a" for u
    by (auto simp: word_uint_eq_iff intro!: amount.expand)
  show ?thesis
    using sort_key_stable [of "\<lambda>u. - uint (to_sat (utxo_satoshis u))" "- uint (to_sat a)" us]
    by (simp add: descending_def p)
qed

section \<open>The loop by prefixes\<close>

text \<open>
  \<open>stage\<close> is the fee in force once \<open>n\<close> inputs are chosen; a prefix is funded when it covers
  the requirement and that fee.
\<close>

definition stage :: "(u64 \<Rightarrow> tx_error + u64) \<Rightarrow> u64 \<Rightarrow> nat \<Rightarrow> tx_error + u64" where
  "stage est fee0 n = (if n = 0 then Inr fee0 else est (of_nat n))"

definition funded :: "(u64 \<Rightarrow> tx_error + u64) \<Rightarrow> u64 \<Rightarrow> nat \<Rightarrow> utxo list \<Rightarrow> bool" where
  "funded est fee0 required us \<longleftrightarrow>
     (\<exists>g. stage est fee0 (length us) = Inr g \<and> required + unat g \<le> utxo_total us)"

definition underfunded :: "(u64 \<Rightarrow> tx_error + u64) \<Rightarrow> u64 \<Rightarrow> nat \<Rightarrow> utxo list \<Rightarrow> bool" where
  "underfunded est fee0 required us \<longleftrightarrow>
     (\<exists>g. stage est fee0 (length us) = Inr g \<and> utxo_total us < required + unat g)"

text \<open>What each outcome of the loop says of the prefixes of \<open>all\<close> from length \<open>n\<close> on.\<close>

fun loop_outcome ::
  "(u64 \<Rightarrow> tx_error + u64) \<Rightarrow> u64 \<Rightarrow> nat \<Rightarrow> (u64 \<Rightarrow> tx_error) \<Rightarrow> utxo list \<Rightarrow> nat
    \<Rightarrow> tx_error + utxo list \<times> u64 \<Rightarrow> bool" where
  "loop_outcome est fee0 required ins all n (Inr (us, fee)) \<longleftrightarrow>
     (\<exists>k. n \<le> k \<and> k \<le> length all \<and> us = take k all \<and> stage est fee0 k = Inr fee \<and>
        required + unat fee \<le> utxo_total us \<and>
        (\<forall>j. n \<le> j \<and> j < k \<longrightarrow> underfunded est fee0 required (take j all)))"
| "loop_outcome est fee0 required ins all n (Inl e) \<longleftrightarrow>
     (\<exists>k. n \<le> k \<and> k \<le> length all \<and>
        (\<forall>j. n \<le> j \<and> j < k \<longrightarrow> underfunded est fee0 required (take j all)) \<and>
        (stage est fee0 k = Inl e \<or>
         k = length all \<and> underfunded est fee0 required all \<and>
           (\<exists>g. stage est fee0 k = Inr g \<and> e = ins g)))"

lemma loop_outcome_step:
  assumes "underfunded est fee0 required (take n all)" "loop_outcome est fee0 required ins all (Suc n) r"
  shows "loop_outcome est fee0 required ins all n r"
proof -
  have j: "n \<le> j \<and> j < k \<longrightarrow> underfunded est fee0 required (take j all)"
    if "\<forall>j. Suc n \<le> j \<and> j < k \<longrightarrow> underfunded est fee0 required (take j all)" for j k
    using that assms(1) by (cases "j = n") auto
  show ?thesis
  proof (cases r)
    case (Inl e)
    from assms(2) obtain k where "Suc n \<le> k"
      and k: "k \<le> length all" "\<forall>j. Suc n \<le> j \<and> j < k \<longrightarrow> underfunded est fee0 required (take j all)"
      "stage est fee0 k = Inl e \<or> k = length all \<and> underfunded est fee0 required all \<and>
        (\<exists>g. stage est fee0 k = Inr g \<and> e = ins g)"
      unfolding Inl loop_outcome.simps by blast
    then have "n \<le> k" by simp
    moreover have "\<forall>i. n \<le> i \<and> i < k \<longrightarrow> underfunded est fee0 required (take i all)"
      using j [OF k(2)] by simp
    ultimately show ?thesis
      using k unfolding Inl loop_outcome.simps by (intro exI [of _ k] conjI)
  next
    case (Inr p)
    obtain us fee where p: "p = (us, fee)" by force
    from assms(2) obtain k where "Suc n \<le> k"
      and k: "k \<le> length all" "us = take k all" "stage est fee0 k = Inr fee"
      "required + unat fee \<le> utxo_total us"
      "\<forall>j. Suc n \<le> j \<and> j < k \<longrightarrow> underfunded est fee0 required (take j all)"
      unfolding Inr p loop_outcome.simps by blast
    then have "n \<le> k" by simp
    moreover have "\<forall>i. n \<le> i \<and> i < k \<longrightarrow> underfunded est fee0 required (take i all)"
      using j [OF k(5)] by simp
    ultimately show ?thesis
      using k unfolding Inr p loop_outcome.simps by (intro exI [of _ k] conjI)
  qed
qed

lemma select_loop_outcome:
  assumes "all = selected @ candidates" "stage est fee0 (length selected) = Inr fee"
    and "remaining = int required - int (utxo_total selected)"
  shows "loop_outcome est fee0 required ins all (length selected)
     (select_loop est ins candidates selected remaining fee)"
  using assms
proof (induction candidates arbitrary: selected remaining fee)
  case Nil
  show ?case
  proof (cases "0 < remaining + uint fee")
    case True
    then have "utxo_total selected < required + unat fee"
      using Nil.prems(3) uint_nat [of fee] by linarith
    with True Nil.prems show ?thesis
      by (auto simp: select_loop.simps [of _ _ "[]"] underfunded_def)
  next
    case False
    then have "required + unat fee \<le> utxo_total selected"
      using Nil.prems(3) uint_nat [of fee] by linarith
    with False Nil.prems show ?thesis
      by (auto simp: select_loop.simps [of _ _ "[]"])
  qed
next
  case (Cons u candidates)
  let ?n = "length selected"
  show ?case
  proof (cases "0 < remaining + uint fee")
    case False
    then have "required + unat fee \<le> utxo_total selected"
      using Cons.prems(3) uint_nat [of fee] by linarith
    with False Cons.prems show ?thesis
      by (auto simp: select_loop.simps [of _ _ "u # candidates"] intro!: exI [of _ ?n])
  next
    case True
    then have "utxo_total selected < required + unat fee"
      using Cons.prems(3) uint_nat [of fee] by linarith
    then have under: "underfunded est fee0 required (take ?n all)"
      using Cons.prems by (simp add: underfunded_def)
    show ?thesis
    proof (cases "est (of_nat (length (selected @ [u])))")
      case (Inl e)
      then have "stage est fee0 (Suc ?n) = Inl e" by (simp add: stage_def)
      with Inl True under Cons.prems(1) show ?thesis
        by (intro loop_outcome_step [OF under])
          (auto simp: select_loop.simps [of _ _ "u # candidates"] intro!: exI [of _ "Suc ?n"])
    next
      case (Inr fee')
      let ?r = "select_loop est ins candidates (selected @ [u])
          (remaining - uint (to_sat (utxo_satoshis u))) fee'"
      have "loop_outcome est fee0 required ins all (length (selected @ [u])) ?r"
      proof (rule Cons.IH)
        have "utxo_total (selected @ [u]) = utxo_total selected + sats (utxo_satoshis u)" by simp
        then show "remaining - uint (to_sat (utxo_satoshis u))
            = int required - int (utxo_total (selected @ [u]))"
          using Cons.prems(3) uint_nat [of "to_sat (utxo_satoshis u)"] by linarith
      qed (use Cons.prems Inr in \<open>simp_all add: stage_def\<close>)
      moreover have "select_loop est ins (u # candidates) selected remaining fee = ?r"
        using True Inr by (simp add: select_loop.simps [of _ _ "u # candidates"])
      ultimately show ?thesis by (intro loop_outcome_step [OF under]) simp
    qed
  qed
qed

section \<open>Selection by prefixes\<close>

text \<open>The fee the code estimates for \<open>k\<close> inputs, the change output counted.\<close>

abbreviation selection_fee :: "u64 \<Rightarrow> u64 \<Rightarrow> bool \<Rightarrow> nat \<Rightarrow> tx_error + u64" where
  "selection_fee outs rate smart k \<equiv> estimate_fee (of_nat k) (outs + 1) rate smart"

text \<open>The first \<open>k\<close> candidates cannot pay for themselves and the requirement.\<close>

definition too_little :: "utxo list \<Rightarrow> u64 \<Rightarrow> u64 \<Rightarrow> u64 \<Rightarrow> bool \<Rightarrow> nat \<Rightarrow> bool" where
  "too_little us required outs rate smart k \<longleftrightarrow>
     (\<exists>g. selection_fee outs rate smart k = Inr g \<and>
        utxo_total (take k (descending us)) < unat required + unat g)"

lemma underfunded_too_little:
  assumes "underfunded (\<lambda>n. estimate_fee n (outs + 1) rate smart) fee0 (unat required)
      (take k (descending us))" "0 < k" "k \<le> length us"
  shows "too_little us required outs rate smart k"
  using assms by (simp add: underfunded_def too_little_def stage_def)

lemma checked_add_one: "checked_add n (1 :: u64) = Some m \<longleftrightarrow> unat n + 1 < 2 ^ 64 \<and> m = n + 1"
  by (auto simp: checked_add_def)

lemma select_utxos_loop:
  assumes "first_duplicate [] us = None" "unat outs + 1 < 2 ^ 64"
    and "selection_fee outs rate smart 1 = Inr fee0"
  shows "loop_outcome (\<lambda>n. estimate_fee n (outs + 1) rate smart) fee0 (unat required)
      (insufficient_funds us required) (descending us) 1
      (select_loop (\<lambda>n. estimate_fee n (outs + 1) rate smart) (insufficient_funds us required)
        (descending us) [] (uint required) fee0) \<or> us = [] \<and>
      select_loop (\<lambda>n. estimate_fee n (outs + 1) rate smart) (insufficient_funds us required)
        (descending us) [] (uint required) fee0 = Inl (insufficient_funds us required fee0)"
proof -
  let ?O = "loop_outcome (\<lambda>n. estimate_fee n (outs + 1) rate smart) fee0 (unat required)
      (insufficient_funds us required) (descending us)"
  let ?r = "select_loop (\<lambda>n. estimate_fee n (outs + 1) rate smart) (insufficient_funds us required)
        (descending us) [] (uint required) fee0"
  have o: "?O 0 ?r"
    using select_loop_outcome [of "descending us" "[]" "descending us"
        "\<lambda>n. estimate_fee n (outs + 1) rate smart" fee0 fee0 "uint required" "unat required"]
    by (simp add: stage_def)
  have "0 < unat fee0" using estimate_fee_min [OF assms(3)] by simp
  show ?thesis
  proof (cases ?r)
    case (Inr p)
    obtain sel fee where p: "p = (sel, fee)" by force
    from o obtain k where k: "k \<le> length (descending us)" "sel = take k (descending us)"
      "stage (\<lambda>n. estimate_fee n (outs + 1) rate smart) fee0 k = Inr fee"
      "unat required + unat fee \<le> utxo_total sel"
      "\<forall>j. 0 \<le> j \<and> j < k \<longrightarrow> underfunded (\<lambda>n. estimate_fee n (outs + 1) rate smart) fee0
          (unat required) (take j (descending us))"
      unfolding Inr p loop_outcome.simps by blast
    have "1 \<le> k"
      using k(2,3,4) \<open>0 < unat fee0\<close> by (cases k) (simp_all add: stage_def)
    with k have "?O 1 ?r" unfolding Inr p loop_outcome.simps by (intro exI [of _ k]) simp
    then show ?thesis ..
  next
    case (Inl e)
    from o obtain k where k: "k \<le> length (descending us)"
      "\<forall>j. 0 \<le> j \<and> j < k \<longrightarrow> underfunded (\<lambda>n. estimate_fee n (outs + 1) rate smart) fee0
          (unat required) (take j (descending us))"
      "stage (\<lambda>n. estimate_fee n (outs + 1) rate smart) fee0 k = Inl e \<or>
       k = length (descending us) \<and>
         underfunded (\<lambda>n. estimate_fee n (outs + 1) rate smart) fee0 (unat required) (descending us) \<and>
         (\<exists>g. stage (\<lambda>n. estimate_fee n (outs + 1) rate smart) fee0 k = Inr g \<and>
            e = insufficient_funds us required g)"
      unfolding Inl loop_outcome.simps by blast
    show ?thesis
    proof (cases "k = 0")
      case True
      with k(3) have "us = []" "e = insufficient_funds us required fee0"
        by (auto simp: stage_def)
      with Inl show ?thesis by simp
    next
      case False
      then have "1 \<le> k" by simp
      with k have "?O 1 ?r" unfolding Inl loop_outcome.simps by (intro exI [of _ k]) simp
      then show ?thesis ..
    qed
  qed
qed

text \<open>What a selection is.\<close>

lemma select_utxos_Inr:
  assumes "select_utxos us required outs rate smart = Inr s"
  obtains k fee where "1 \<le> k" "k \<le> length us" "sel_selected s = take k (descending us)"
    "selection_fee outs rate smart k = Inr fee" "distinct (map outpoint us)" "unat outs + 1 < 2 ^ 64"
    "utxo_total (sel_selected s) < 2 ^ 64"
    "utxo_total (sel_selected s) = unat required + unat (sel_fee s) + unat (sel_change s)"
    "unat (sel_fee s) = unat fee + (if sel_change s = 0
        then utxo_total (sel_selected s) - unat required - unat fee else 0)"
    "unat required + unat fee \<le> utxo_total (sel_selected s)"
    "sel_change s = 0 \<longleftrightarrow> utxo_total (sel_selected s) \<le> unat required + unat fee + 546"
    "unat (sel_fee s) \<le> 100000000"
    "\<forall>j. 1 \<le> j \<and> j < k \<longrightarrow> too_little us required outs rate smart j"
proof -
  let ?est = "\<lambda>n. estimate_fee n (outs + 1) rate smart"
  from assms obtain fee0 sel fee sum where dup: "first_duplicate [] us = None"
    and outs: "unat outs + 1 < 2 ^ 64" and fee0: "estimate_fee 1 (outs + 1) rate smart = Inr fee0"
    and loop: "select_loop ?est (insufficient_funds us required)
        (descending us) [] (uint required) fee0 = Inr (sel, fee)"
    and sum: "amount_checked_sum (map utxo_satoshis sel) = Some sum"
    and s: "s = (let actual_change = to_sat sum - required - fee in
        if DUST_THRESHOLD < actual_change
        then \<lparr>sel_selected = sel, sel_change = actual_change, sel_fee = fee\<rparr>
        else \<lparr>sel_selected = sel, sel_change = 0, sel_fee = fee + actual_change\<rparr>)"
    and ceiling: "unat (sel_fee s) \<le> 100000000"
    by (auto simp: select_utxos_def result_simps Let_def checked_add_one split: option.splits if_splits)
  have "selection_fee outs rate smart 1 = Inr fee0" using fee0 by simp
  then have "loop_outcome ?est fee0 (unat required) (insufficient_funds us required) (descending us) 1
      (Inr (sel, fee))"
    using select_utxos_loop [OF dup outs, of rate smart fee0 required] unfolding loop
    by (auto simp del: loop_outcome.simps)
  then obtain k where k: "1 \<le> k" "k \<le> length us" "sel = take k (descending us)"
    "stage ?est fee0 k = Inr fee" "unat required + unat fee \<le> utxo_total sel"
    "\<forall>j. 1 \<le> j \<and> j < k \<longrightarrow> underfunded ?est fee0 (unat required) (take j (descending us))"
    unfolding loop_outcome.simps descending_facts by blast
  have tot: "utxo_total sel < 2 ^ 64" "sats sum = utxo_total sel"
    using sum by (simp_all only: checked_simps)
  let ?c = "to_sat sum - required - fee"
  have r1: "unat (to_sat sum - required) = utxo_total sel - unat required"
    using tot(2) k(5) by (subst unat_sub) (simp_all add: word_le_nat_alt)
  have c: "unat ?c = utxo_total sel - unat required - unat fee"
    using r1 k(5) by (subst unat_sub) (simp_all add: word_le_nat_alt)
  have f: "unat (fee + ?c) = utxo_total sel - unat required"
    using c k(5) tot(1) by (subst unat_add_lem [THEN iffD1]) simp_all
  have dust: "DUST_THRESHOLD < ?c \<longleftrightarrow> 546 < utxo_total sel - unat required - unat fee"
    unfolding word_less_nat_alt c by (simp add: DUST_THRESHOLD_def)
  have sel: "sel_selected s = sel" by (simp add: s Let_def)
  have z: "sel_change s = 0 \<longleftrightarrow> \<not> DUST_THRESHOLD < ?c"
    by (auto simp: s Let_def)
  show thesis
  proof (rule that [OF k(1,2)])
    show "sel_selected s = take k (descending us)" using sel k(3) by simp
    show "selection_fee outs rate smart k = Inr fee" using k(1,4) by (simp add: stage_def)
    show "distinct (map outpoint us)" using dup by (simp add: first_duplicate_None)
    show "utxo_total (sel_selected s) = unat required + unat (sel_fee s) + unat (sel_change s)"
      using c f k(5) by (simp add: sel) (simp add: s Let_def)
    show "unat (sel_fee s) = unat fee + (if sel_change s = 0
        then utxo_total (sel_selected s) - unat required - unat fee else 0)"
      using z f k(5) by (cases "DUST_THRESHOLD < ?c") (simp_all add: s Let_def)
    show "sel_change s = 0 \<longleftrightarrow> utxo_total (sel_selected s) \<le> unat required + unat fee + 546"
      unfolding z dust sel using k(5) by linarith
    show "\<forall>j. 1 \<le> j \<and> j < k \<longrightarrow> too_little us required outs rate smart j"
      using k(2,6) underfunded_too_little by fastforce
  qed (use outs tot(1) sel k(5) ceiling in simp_all)
qed

text \<open>What a refusal means.\<close>

lemma select_utxos_Inl:
  assumes "select_utxos us required outs rate smart = Inl e"
  shows "(\<exists>u \<in> set us. e = DuplicateUtxo (to_display_hex (utxo_txid u)) (utxo_vout u)) \<and>
       \<not> distinct (map outpoint us) \<or>
     distinct (map outpoint us) \<and>
     (e = ValueOverflow \<or> (\<exists>fee. 100000000 < unat fee \<and> e = FeeTooLarge fee 100000000) \<or>
      (\<exists>g. selection_fee outs rate smart (max 1 (length us)) = Inr g \<and>
         (\<forall>k. 1 \<le> k \<and> k \<le> length us \<longrightarrow> too_little us required outs rate smart k) \<and>
         e = InsufficientFunds (saturating_add required g) (of_nat (min (utxo_total us) (2 ^ 64 - 1)))))"
proof (cases "first_duplicate [] us")
  case (Some u)
  have "\<exists>u' \<in> set vs. u' = u" if "first_duplicate es vs = Some u" for es vs
    using that by (induction es vs rule: first_duplicate.induct) (auto split: if_splits)
  then have "u \<in> set us" using Some by blast
  moreover have "\<not> distinct (map outpoint us)" using Some first_duplicate_None [of "[]" us] by auto
  ultimately show ?thesis using assms Some by (auto simp: select_utxos_def)
next
  case None
  then have d: "distinct (map outpoint us)" by (simp add: first_duplicate_None)
  let ?est = "\<lambda>n. estimate_fee n (outs + 1) rate smart"
  let ?loop = "\<lambda>fee0. select_loop ?est (insufficient_funds us required) (descending us) [] (uint required) fee0"
  from assms None have cases: "e = ValueOverflow \<or> (\<exists>fee. 100000000 < unat fee \<and> e = FeeTooLarge fee 100000000) \<or>
      (\<exists>fee0. unat outs + 1 < 2 ^ 64 \<and> estimate_fee 1 (outs + 1) rate smart = Inr fee0 \<and> ?loop fee0 = Inl e)"
    by (auto simp: select_utxos_def rbind_Inl_iff Let_def checked_add_one ok_or_def check_fee_ceiling_def
        refuse_if_def MAX_MINER_FEE_def word_less_nat_alt dest: estimate_fee_Inl split: option.splits if_splits)
  moreover have ?thesis
    if outs: "unat outs + 1 < 2 ^ 64" and fee0: "estimate_fee 1 (outs + 1) rate smart = Inr fee0"
      and loop: "?loop fee0 = Inl e" for fee0
  proof -
    have ins: "insufficient_funds us required g =
        InsufficientFunds (saturating_add required g) (of_nat (min (utxo_total us) (2 ^ 64 - 1)))" for g
    proof (cases "amount_checked_sum (map utxo_satoshis us)")
      case None
      then have "2 ^ 64 \<le> utxo_total us" by (simp only: checked_simps)
      then have "min (utxo_total us) (2 ^ 64 - 1) = 2 ^ 64 - 1" by simp
      with None show ?thesis
        by (simp add: insufficient_funds_def word_unat_eq_iff unsigned_minus_1_eq_mask mask_eq_exp_minus_1)
    next
      case (Some a)
      then have "sats a = utxo_total us" "utxo_total us < 2 ^ 64" by (simp_all only: checked_simps)
      then have "to_sat a = of_nat (min (utxo_total us) (2 ^ 64 - 1))" by (intro word_eq_of_nat) simp
      with Some show ?thesis by (simp add: insufficient_funds_def)
    qed
    have f1: "selection_fee outs rate smart 1 = Inr fee0" using fee0 by simp
    have l: "select_loop ?est (insufficient_funds us required) (descending us) [] (uint required) fee0
        = Inl e" by (rule loop)
    consider (empty) "us = []" "e = insufficient_funds us required fee0"
      | (loop) "loop_outcome ?est fee0 (unat required) (insufficient_funds us required) (descending us) 1 (Inl e)"
      using select_utxos_loop [OF None outs f1, of required] unfolding l
      by (auto simp del: loop_outcome.simps)
    then show ?thesis
    proof cases
      case empty
      with f1 d ins show ?thesis by simp
    next
      case loop
      then obtain k where k: "1 \<le> k" "k \<le> length us"
        "\<forall>j. 1 \<le> j \<and> j < k \<longrightarrow> underfunded ?est fee0 (unat required) (take j (descending us))"
        "stage ?est fee0 k = Inl e \<or> k = length us \<and>
          underfunded ?est fee0 (unat required) (descending us) \<and>
          (\<exists>g. stage ?est fee0 k = Inr g \<and> e = insufficient_funds us required g)"
        unfolding loop_outcome.simps descending_facts by blast
      show ?thesis
      proof (cases "stage ?est fee0 k = Inl e")
        case True
        then have "e = ValueOverflow" using k(1) by (auto simp: stage_def dest: estimate_fee_Inl)
        with d show ?thesis by simp
      next
        case False
        with k(4) obtain g where g: "k = length us" "stage ?est fee0 k = Inr g"
          "e = insufficient_funds us required g"
          "underfunded ?est fee0 (unat required) (take k (descending us))"
          by auto
        have "\<forall>j. 1 \<le> j \<and> j \<le> length us \<longrightarrow> too_little us required outs rate smart j"
        proof (intro allI impI)
          fix j assume j: "1 \<le> j \<and> j \<le> length us"
          then have "underfunded ?est fee0 (unat required) (take j (descending us))"
            using k(3) g(1,4) by (cases "j = k") simp_all
          then show "too_little us required outs rate smart j"
            using j by (intro underfunded_too_little) simp_all
        qed
        moreover have "selection_fee outs rate smart (max 1 (length us)) = Inr g"
          using g(1,2) k(1) by (cases "us = []") (simp_all add: stage_def max_def)
        ultimately show ?thesis using d g(3) ins by blast
      qed
    qed
  qed
  ultimately show ?thesis using d by blast
qed

section \<open>Properties\<close>

text \<open>
  The fee estimate is the exact rounded-up product of the size model and the rate, never
  below 10000 satoshis, whenever the size and the product fit 64 bits, and is the error
  \<open>ValueOverflow\<close> otherwise: no request wraps to a small fee, and the estimate never
  decreases with the number of inputs or the rate.
\<close>

theorem estimate_fee_exact:
  fixes n m r :: u64 and smart :: bool
  defines "tx_size \<equiv> 60 + 180 * unat n + (if smart then 200 else 34) * unat m"
  shows "estimate_fee n m r smart =
      (if tx_size < 2 ^ 64 \<and> tx_size * unat r < 2 ^ 64
       then Inr (of_nat (max 10000 ((tx_size * unat r + 999) div 1000))) else Inl ValueOverflow) \<and>
    (estimate_fee n m r smart = Inr fee \<longrightarrow>
       unat fee = max 10000 ((tx_size * unat r + 999) div 1000) \<and> 10000 \<le> unat fee \<and>
       tx_size * unat r \<le> 1000 * unat fee) \<and>
    (estimate_fee n m r smart = Inr fee \<longrightarrow> estimate_fee n' m r' smart = Inr fee' \<longrightarrow>
       n \<le> n' \<longrightarrow> r \<le> r' \<longrightarrow> fee \<le> fee')"
proof (intro conjI impI)
  have sz: "size_estimate (unat n) (unat m) smart = tx_size"
    by (simp add: size_estimate_def tx_size_def)
  show "estimate_fee n m r smart =
      (if tx_size < 2 ^ 64 \<and> tx_size * unat r < 2 ^ 64
       then Inr (of_nat (max 10000 ((tx_size * unat r + 999) div 1000))) else Inl ValueOverflow)"
    unfolding estimate_fee_value fee_estimate_def sz ..
  assume f: "estimate_fee n m r smart = Inr fee"
  from estimate_fee_Inr [OF f]
  show v: "unat fee = max 10000 ((tx_size * unat r + 999) div 1000)"
    by (simp add: fee_estimate_def sz)
  then show "10000 \<le> unat fee" by simp
  have "tx_size * unat r \<le> 1000 * ((tx_size * unat r + 999) div 1000)" by simp
  with v show "tx_size * unat r \<le> 1000 * unat fee" by linarith
  assume f': "estimate_fee n' m r' smart = Inr fee'" and "n \<le> n'" "r \<le> r'"
  then have "size_estimate (unat n) (unat m) smart * unat r
      \<le> size_estimate (unat n') (unat m) smart * unat r'"
    by (intro mult_le_mono) (simp_all add: size_estimate_def word_le_nat_alt)
  then have "fee_estimate (unat n) (unat m) (unat r) smart
      \<le> fee_estimate (unat n') (unat m) (unat r') smart"
    unfolding fee_estimate_def by (intro max.mono div_le_mono) simp_all
  then show "fee \<le> fee'"
    unfolding word_le_nat_alt estimate_fee_Inr [OF f] estimate_fee_Inr [OF f'] .
qed

lemma estimate_fee_exact_witness:
  "estimate_fee 2 3 10000 True = Inr 10200 \<and> (10000 :: u64) \<le> 10200"
  using estimate_fee_exact [of 2 3 10000 True 10200 2 10000 10200] by simp

text \<open>
  C3: selection conserves value.  What is selected is worth exactly the requirement plus the
  fee plus the change, so the unchecked subtractions never wrap; change is zero or more than
  546 satoshis; the fee is the estimate for the number of inputs chosen, plus at most 546
  folded satoshis and only when there is no change, and never above one coin.
\<close>

theorem select_conserves:
  assumes "select_utxos us required outs rate smart = Inr s"
  shows "\<exists>fee. utxo_total (sel_selected s) =
      unat required + unat (sel_fee s) + unat (sel_change s) \<and>
    (sel_change s = 0 \<or> 546 < unat (sel_change s)) \<and>
    estimate_fee (of_nat (length (sel_selected s))) (outs + 1) rate smart = Inr fee \<and>
    unat fee \<le> unat (sel_fee s) \<and> unat (sel_fee s) \<le> unat fee + 546 \<and>
    (sel_change s \<noteq> 0 \<longrightarrow> sel_fee s = fee) \<and>
    unat (sel_fee s) \<le> 100000000 \<and> utxo_total (sel_selected s) < 2 ^ 64"
proof -
  from assms obtain k fee where k: "1 \<le> k" "k \<le> length us" "sel_selected s = take k (descending us)"
    "selection_fee outs rate smart k = Inr fee" "utxo_total (sel_selected s) < 2 ^ 64"
    "utxo_total (sel_selected s) = unat required + unat (sel_fee s) + unat (sel_change s)"
    "unat (sel_fee s) = unat fee + (if sel_change s = 0
        then utxo_total (sel_selected s) - unat required - unat fee else 0)"
    "unat required + unat fee \<le> utxo_total (sel_selected s)"
    "sel_change s = 0 \<longleftrightarrow> utxo_total (sel_selected s) \<le> unat required + unat fee + 546"
    "unat (sel_fee s) \<le> 100000000"
    by (rule select_utxos_Inr)
  have len: "length (sel_selected s) = k" using k(2,3) by simp
  show ?thesis
  proof (intro exI [of _ fee] conjI impI)
    show "estimate_fee (of_nat (length (sel_selected s))) (outs + 1) rate smart = Inr fee"
      using k(4) len by simp
    show "sel_change s = 0 \<or> 546 < unat (sel_change s)"
      using k(6,7,8,9) by auto
    show "unat (sel_fee s) \<le> unat fee + 546" using k(7,8,9) by auto
    show "sel_fee s = fee" if "sel_change s \<noteq> 0"
      using that k(7) by (simp add: word_unat_eq_iff)
  qed (use k in simp_all)
qed

text \<open>A concrete selection: three outputs of 3, 5 and 5 hundred thousand satoshis.\<close>

definition sample_utxo :: "u32 \<Rightarrow> u64 \<Rightarrow> utxo" where
  "sample_utxo n v = \<lparr>utxo_txid = Txid (replicate 32 0), utxo_vout = n, utxo_satoshis = Amount v,
     utxo_script_pubkey = []\<rparr>"

definition sample_utxos :: "utxo list" where
  "sample_utxos = [sample_utxo 0 300000, sample_utxo 1 500000, sample_utxo 2 500000]"

lemma descending_sample:
  "descending sample_utxos = [sample_utxo 1 500000, sample_utxo 2 500000, sample_utxo 0 300000]"
  by (simp add: descending_def sample_utxos_def sample_utxo_def)

lemma sample_select:
  "select_utxos sample_utxos 600000 1 10000 False =
     Inr \<lparr>sel_selected = [sample_utxo 1 500000, sample_utxo 2 500000], sel_change = 390000, sel_fee = 10000\<rparr>"
proof -
  have d: "first_duplicate [] sample_utxos = None"
    by (simp add: sample_utxos_def sample_utxo_def)
  show ?thesis
    by (simp add: select_utxos_def d descending_sample checked_add_def estimate_fee_value
        size_estimate_def fee_estimate_def select_loop.simps sample_utxo_def amount_checked_sum_def
        amount_checked_add_def amount_zero_def Let_def DUST_THRESHOLD_def check_fee_ceiling_def
        MAX_MINER_FEE_def)
qed

lemma select_conserves_witness:
  "utxo_total [sample_utxo 1 500000, sample_utxo 2 500000] = 600000 + 10000 + 390000"
  using select_conserves [OF sample_select] by (simp add: sample_utxo_def)

text \<open>
  Which outputs are chosen.  The selected outputs are the shortest nonempty prefix of the
  caller's outputs, sorted by falling value and equal values in the caller's order, that
  covers the requirement and the fee for its own size; so none is spent twice, every one is
  the caller's, and no larger output is passed over for a smaller one.
\<close>

theorem select_minimal_prefix:
  assumes "select_utxos us required outs rate smart = Inr s"
  shows "(\<exists>k. 1 \<le> k \<and> k \<le> length us \<and> sel_selected s = take k (descending us) \<and>
      (\<forall>j. 1 \<le> j \<and> j < k \<longrightarrow> too_little us required outs rate smart j) \<and>
      \<not> too_little us required outs rate smart k) \<and>
    distinct (map outpoint (sel_selected s)) \<and> set (sel_selected s) \<subseteq> set us \<and>
    sorted_wrt (\<lambda>a b. sats (utxo_satoshis b) \<le> sats (utxo_satoshis a)) (sel_selected s) \<and>
    (\<forall>u \<in> set us - set (sel_selected s). \<forall>v \<in> set (sel_selected s).
       sats (utxo_satoshis u) \<le> sats (utxo_satoshis v))"
proof -
  from assms obtain k fee where k: "1 \<le> k" "k \<le> length us" "sel_selected s = take k (descending us)"
    "selection_fee outs rate smart k = Inr fee" "distinct (map outpoint us)"
    "unat required + unat fee \<le> utxo_total (sel_selected s)"
    "\<forall>j. 1 \<le> j \<and> j < k \<longrightarrow> too_little us required outs rate smart j"
    by (rule select_utxos_Inr)
  let ?d = "descending us"
  have split: "?d = take k ?d @ drop k ?d" by simp
  have "\<not> too_little us required outs rate smart k"
    using k(3,4,6) by (auto simp: too_little_def)
  moreover have "distinct (map outpoint (take k ?d))"
    using descending_distinct [of us] k(5) distinct_take [of "map outpoint ?d" k]
    by (simp add: take_map)
  moreover have "set (take k ?d) \<subseteq> set us"
    using set_take_subset [of k ?d] by simp
  moreover have "sorted_wrt (\<lambda>a b. sats (utxo_satoshis b) \<le> sats (utxo_satoshis a)) (take k ?d)"
    and "\<forall>v \<in> set (take k ?d). \<forall>u \<in> set (drop k ?d). sats (utxo_satoshis u) \<le> sats (utxo_satoshis v)"
    using descending_sorted [of us] split by (metis sorted_wrt_append)+
  moreover have "set us - set (take k ?d) \<subseteq> set (drop k ?d)"
    using split set_append [of "take k ?d" "drop k ?d"] descending_facts(2) [of us] by (metis Diff_subset_conv subset_refl)
  ultimately show ?thesis using k(1,2,3,7) by (intro conjI) auto
qed

lemma select_minimal_prefix_witness:
  "distinct (map outpoint [sample_utxo 1 500000, sample_utxo 2 500000])"
  using select_minimal_prefix [OF sample_select] by simp

text \<open>
  When selection refuses.  A repeated outpoint, and only that, gives \<open>DuplicateUtxo\<close>,
  naming an output of the caller; \<open>InsufficientFunds\<close> is given only when no prefix of the
  sorted outputs covers its own fee, with the saturated sum of the requirement and the fee
  for all of them, and the total held; the other refusals are an arithmetic overflow and a
  fee above one coin.  In particular a funded request with exact fees is never refused for
  insufficient funds.
\<close>

theorem select_refusals:
  assumes "select_utxos us required outs rate smart = Inl e"
  shows "((\<exists>t v. e = DuplicateUtxo t v) \<longleftrightarrow> \<not> distinct (map outpoint us)) \<and>
    (\<forall>t v. e = DuplicateUtxo t v \<longrightarrow>
       (\<exists>u \<in> set us. t = to_display_hex (utxo_txid u) \<and> v = utxo_vout u)) \<and>
    (\<forall>r a. e = InsufficientFunds r a \<longrightarrow>
       (\<forall>k. 1 \<le> k \<and> k \<le> length us \<longrightarrow> too_little us required outs rate smart k) \<and>
       unat a = min (utxo_total us) (2 ^ 64 - 1) \<and>
       (\<exists>g. estimate_fee (of_nat (max 1 (length us))) (outs + 1) rate smart = Inr g \<and>
          unat r = min (unat required + unat g) (2 ^ 64 - 1))) \<and>
    ((\<exists>t v. e = DuplicateUtxo t v) \<or> (\<exists>r a. e = InsufficientFunds r a) \<or> e = ValueOverflow \<or>
     (\<exists>f. 100000000 < unat f \<and> e = FeeTooLarge f 100000000))"
proof -
  have m: "unat (of_nat (min n (2 ^ 64 - 1)) :: u64) = min n (2 ^ 64 - 1)" for n :: nat
    by (rule unat_of_nat_u64) simp
  have sat: "unat (saturating_add required g) = min (unat required + unat g) (2 ^ 64 - 1)" for g
    by (simp add: unat_saturating_add)
  from select_utxos_Inl [OF assms] consider
    (dup) u where "u \<in> set us" "e = DuplicateUtxo (to_display_hex (utxo_txid u)) (utxo_vout u)"
      "\<not> distinct (map outpoint us)"
    | (other) "distinct (map outpoint us)"
      "e = ValueOverflow \<or> (\<exists>fee. 100000000 < unat fee \<and> e = FeeTooLarge fee 100000000)"
    | (ins) g where "distinct (map outpoint us)"
      "selection_fee outs rate smart (max 1 (length us)) = Inr g"
      "\<forall>k. 1 \<le> k \<and> k \<le> length us \<longrightarrow> too_little us required outs rate smart k"
      "e = InsufficientFunds (saturating_add required g) (of_nat (min (utxo_total us) (2 ^ 64 - 1)))"
    by blast
  then show ?thesis
  proof cases
    case dup
    then show ?thesis by auto
  next
    case other
    then show ?thesis by auto
  next
    case ins
    then show ?thesis
      unfolding ins(4) by (simp only: tx_error.inject tx_error.distinct m sat simp_thms ex_simps) (use ins m sat in auto)
  qed
qed

lemma sample_refusals:
  "select_utxos [] 5 1 10000 False = Inl (InsufficientFunds 10005 0)"
  "select_utxos [sample_utxo 0 1, sample_utxo 0 2] 5 1 10000 False =
     Inl (DuplicateUtxo (to_display_hex (Txid (replicate 32 0))) 0)"
  by (simp_all add: select_utxos_def checked_add_def estimate_fee_value descending_def
      size_estimate_def fee_estimate_def select_loop.simps sample_utxo_def amount_checked_sum_def
      insufficient_funds_def amount_zero_def saturating_add_def)

text \<open>
  A rate of 1000000 satoshis per byte on one large output: the derived fee is past the
  ceiling.
\<close>

lemma fee_ceiling_reached:
  "select_utxos [sample_utxo 0 10000000000] 5 1 1000000000 False =
     Inl (FeeTooLarge 308000000 100000000)"
  by (simp add: select_utxos_def checked_add_def estimate_fee_value descending_def
      size_estimate_def fee_estimate_def select_loop.simps sample_utxo_def amount_checked_sum_def
      amount_checked_add_def amount_zero_def Let_def DUST_THRESHOLD_def check_fee_ceiling_def
      MAX_MINER_FEE_def)

lemma select_refusals_witness:
  "unat (0 :: u64) = min (utxo_total []) (2 ^ 64 - 1) \<and>
   \<not> distinct (map outpoint [sample_utxo 0 1, sample_utxo 0 2])"
  using select_refusals [OF sample_refusals(1)] select_refusals [OF sample_refusals(2)] by simp

end
