(* ===== verification/Cc.thy ===== *)
theory Cc
  imports Tx_Primitives
begin

text \<open>
  \<open>verus-tx-primitives/src/cc.rs\<close>: CryptoCondition scripts as the code writes them, script
  pushes, the VARINT encoding, destinations, \<open>OptCCParams\<close> sections, the payment, token
  and identity output scripts, and the fulfillment that spends such an output.  The
  reading side is in the theory \<open>Script\<close>, which proves the two inverse.
\<close>

section \<open>Constants\<close>

definition EVAL_NONE :: u8 where "EVAL_NONE = 0"
definition EVAL_CURRENCY_DEFINITION :: u8 where "EVAL_CURRENCY_DEFINITION = 2"
definition EVAL_ACCEPTEDNOTARIZATION :: u8 where "EVAL_ACCEPTEDNOTARIZATION = 5"
definition EVAL_RESERVE_TRANSFER :: u8 where "EVAL_RESERVE_TRANSFER = 8"
definition EVAL_RESERVE_OUTPUT :: u8 where "EVAL_RESERVE_OUTPUT = 9"
definition EVAL_IDENTITY_ADVANCEDRESERVATION :: u8 where "EVAL_IDENTITY_ADVANCEDRESERVATION = 10"
definition EVAL_RESERVE_DEPOSIT :: u8 where "EVAL_RESERVE_DEPOSIT = 11"
definition EVAL_CROSSCHAIN_EXPORT :: u8 where "EVAL_CROSSCHAIN_EXPORT = 12"
definition EVAL_CROSSCHAIN_IMPORT :: u8 where "EVAL_CROSSCHAIN_IMPORT = 13"
definition EVAL_IDENTITY_PRIMARY :: u8 where "EVAL_IDENTITY_PRIMARY = 14"
definition EVAL_IDENTITY_REVOKE :: u8 where "EVAL_IDENTITY_REVOKE = 15"
definition EVAL_IDENTITY_RECOVER :: u8 where "EVAL_IDENTITY_RECOVER = 16"
definition EVAL_IDENTITY_COMMITMENT :: u8 where "EVAL_IDENTITY_COMMITMENT = 17"

definition OP_CHECKCRYPTOCONDITION :: u8 where "OP_CHECKCRYPTOCONDITION = 0xcc"
definition OP_DROP :: u8 where "OP_DROP = 0x75"
definition OP_PUSHDATA1 :: u8 where "OP_PUSHDATA1 = 0x4c"
definition OP_PUSHDATA2 :: u8 where "OP_PUSHDATA2 = 0x4d"
definition OPT_CC_PARAMS_VERSION :: u8 where "OPT_CC_PARAMS_VERSION = 3"
definition TOKEN_OUTPUT_VERSION_SINGLE :: u64 where "TOKEN_OUTPUT_VERSION_SINGLE = 1"

lemmas op_codes = OP_CHECKCRYPTOCONDITION_def OP_DROP_def OP_PUSHDATA1_def OP_PUSHDATA2_def

lemmas eval_codes = EVAL_NONE_def EVAL_CURRENCY_DEFINITION_def EVAL_ACCEPTEDNOTARIZATION_def
  EVAL_RESERVE_TRANSFER_def EVAL_RESERVE_OUTPUT_def EVAL_IDENTITY_ADVANCEDRESERVATION_def
  EVAL_RESERVE_DEPOSIT_def EVAL_CROSSCHAIN_EXPORT_def EVAL_CROSSCHAIN_IMPORT_def
  EVAL_IDENTITY_PRIMARY_def EVAL_IDENTITY_REVOKE_def EVAL_IDENTITY_RECOVER_def
  EVAL_IDENTITY_COMMITMENT_def

section \<open>Pushes\<close>

definition push_data :: "bytes \<Rightarrow> bytes \<Rightarrow> tx_error + bytes" where
  "push_data script bs =
     (let n = length bs in
      rbind (if n \<le> 75 then Inr (script @ [of_nat n])
             else if n \<le> 255 then Inr (script @ [OP_PUSHDATA1, of_nat n])
             else if n \<le> 65535 then Inr (script @ [OP_PUSHDATA2] @ u16_le (of_nat n))
             else Inl (CcPayloadTooLarge n)) (\<lambda>script.
      Inr (script @ bs)))"

text \<open>What a push appends, when the data fits one.\<close>

definition push_bytes :: "bytes \<Rightarrow> bytes" where
  "push_bytes bs =
     (if length bs \<le> 75 then of_nat (length bs) # bs
      else if length bs \<le> 255 then OP_PUSHDATA1 # of_nat (length bs) # bs
      else OP_PUSHDATA2 # u16_le (of_nat (length bs)) @ bs)"

lemma push_data_eq:
  "push_data script bs =
     (if length bs \<le> 65535 then Inr (script @ push_bytes bs) else Inl (CcPayloadTooLarge (length bs)))"
  by (simp add: push_data_def push_bytes_def Let_def)

lemma push_data_Inr [result_simps]:
  "push_data script bs = Inr s \<longleftrightarrow> length bs \<le> 65535 \<and> s = script @ push_bytes bs"
  by (auto simp: push_data_eq)

section \<open>VARINT\<close>

lemma unat_drop_bit_7: "unat (drop_bit 7 v :: u64) = unat v div 128"
  by (simp add: drop_bit_eq_div unat_div_distrib)

lemma var_int_step:
  fixes v :: u64
  assumes "\<not> v \<le> 0x7f"
  shows "unat (drop_bit 7 v - 1) = unat v div 128 - 1" "128 \<le> unat v"
proof -
  show l: "128 \<le> unat v" using assms by (simp add: word_le_nat_alt)
  then have "1 \<le> unat v div 128" by simp
  then show "unat (drop_bit 7 v - 1) = unat v div 128 - 1"
    by (subst unat_sub) (simp_all add: word_le_nat_alt unat_drop_bit_7)
qed

function var_int_loop :: "u64 \<Rightarrow> bool \<Rightarrow> bytes \<Rightarrow> bytes" where
  "var_int_loop value first out =
     (let byte = ucast (value AND 0x7f);
          out = out @ [if first then byte else byte OR 0x80] in
      if value \<le> 0x7f then out else var_int_loop (drop_bit 7 value - 1) False out)"
  by pat_completeness auto

termination
  by (relation "measure (\<lambda>(value, _, _). unat value)")
    (auto simp: var_int_step simp del: not_le intro!: order.strict_trans1 [OF diff_le_self]
      dest: var_int_step(2))

declare var_int_loop.simps [simp del]

definition var_int :: "u64 \<Rightarrow> bytes" where
  "var_int value = rev (var_int_loop value True [])"

text \<open>
  The same in base-128 digits: \<open>groups\<close> are the digits of the encoding, most significant
  first, \<open>vnat a\<close> reads them back from an accumulator, and \<open>mark\<close> sets the continuation
  bit of every digit but the last.
\<close>

fun groups :: "nat \<Rightarrow> nat list" where
  "groups n = (if n < 128 then [n] else groups (n div 128 - 1) @ [n mod 128])"

declare groups.simps [simp del]

fun vnat :: "nat \<Rightarrow> nat list \<Rightarrow> nat" where
  "vnat a [] = a"
| "vnat a [d] = a * 128 + d"
| "vnat a (d # ds) = vnat (a * 128 + d + 1) ds"

fun mark :: "nat list \<Rightarrow> bytes" where
  "mark [] = []"
| "mark [d] = [of_nat d]"
| "mark (d # ds) = of_nat (d + 128) # mark ds"

lemma groups_facts: "groups n \<noteq> []" "\<forall>d \<in> set (groups n). d < 128"
proof (induction n rule: groups.induct)
  case (1 n)
  case 1
  show ?case by (subst groups.simps) simp
  case 2
  from "1.IH"(2) groups.simps [of n] show ?case by auto
qed

lemma vnat_snoc: "ds \<noteq> [] \<Longrightarrow> vnat a (ds @ [d]) = (vnat a ds + 1) * 128 + d"
proof (induction ds arbitrary: a)
  case (Cons e ds)
  then show ?case by (cases ds) simp_all
qed simp

lemma vnat_groups [simp]: "vnat 0 (groups n) = n"
proof (induction n rule: groups.induct)
  case (1 n)
  show ?case
  proof (cases "n < 128")
    case False
    then have "groups n = groups (n div 128 - 1) @ [n mod 128]" by (subst groups.simps) simp
    moreover have "n div 128 \<noteq> 0" using False by simp
    ultimately show ?thesis
      using 1 [OF False] by (simp add: vnat_snoc groups_facts)
  qed (subst groups.simps, simp)
qed

lemma groups_vnat: "ds \<noteq> [] \<Longrightarrow> \<forall>d \<in> set ds. d < 128 \<Longrightarrow> groups (vnat 0 ds) = ds"
proof (induction ds rule: rev_induct)
  case (snoc d ds)
  show ?case
  proof (cases "ds = []")
    case True
    with snoc.prems show ?thesis by (subst groups.simps) simp
  next
    case False
    have "((vnat 0 ds + 1) * 128 + d) div 128 = vnat 0 ds + 1"
      "((vnat 0 ds + 1) * 128 + d) mod 128 = d"
    proof -
      have "d < 128" using snoc.prems(2) by simp
      then have "((x + 1) * 128 + d) div 128 = x + 1 \<and> ((x + 1) * 128 + d) mod 128 = d" for x
        by presburger
      then show "((vnat 0 ds + 1) * 128 + d) div 128 = vnat 0 ds + 1"
        "((vnat 0 ds + 1) * 128 + d) mod 128 = d" by blast+
    qed
    then show ?thesis
      using False snoc by (subst groups.simps) (simp add: vnat_snoc)
  qed
qed simp

lemma vnat_le: "ds \<noteq> [] \<Longrightarrow> a * 128 + hd ds \<le> vnat a ds \<and> (tl ds \<noteq> [] \<longrightarrow> a * 128 + hd ds + 1 \<le> vnat a ds)"
proof (induction a ds rule: vnat.induct)
  case (3 a d e ds)
  then have "a * 128 + d + 1 \<le> (a * 128 + d + 1) * 128 + hd (e # ds)" by simp
  also have "\<dots> \<le> vnat (a * 128 + d + 1) (e # ds)" using 3 by simp
  finally show ?case by simp
qed simp_all

lemma mark_snoc: "ds \<noteq> [] \<Longrightarrow> mark (ds @ [d]) = map (\<lambda>e. of_nat (e + 128)) ds @ [of_nat d]"
proof (induction ds)
  case (Cons e ds)
  then show ?case by (cases ds) simp_all
qed simp

lemma ucast_and_7f: "ucast (v AND 0x7f :: u64) = (of_nat (unat v mod 128) :: u8)"
proof -
  have "v AND 0x7f = take_bit 7 v" by (simp add: take_bit_eq_mask mask_eq_exp_minus_1)
  then have "unat (v AND 0x7f) = unat v mod 128"
    by (simp add: unsigned_take_bit_eq take_bit_eq_mod unat_mod_distrib)
  then show ?thesis
    by (simp add: word_unat_eq_iff unat_ucast unat_of_nat)
qed

lemma or_80_table: "\<forall>n \<in> set [0..<128]. (of_nat n :: u8) OR 0x80 = of_nat (n + 128)"
  by code_simp

lemma or_80: "n < 128 \<Longrightarrow> (of_nat n :: u8) OR 0x80 = of_nat (n + 128)"
  using or_80_table by simp

lemma byte_and_7f: "unat (b AND 0x7f :: u8) = unat b mod 128"
proof -
  have "b AND 0x7f = take_bit 7 b" by (simp add: take_bit_eq_mask mask_eq_exp_minus_1)
  then show ?thesis by (simp add: unsigned_take_bit_eq take_bit_eq_mod unat_mod_distrib)
qed

lemma byte_and_80: "b AND 0x80 = (0 :: u8) \<longleftrightarrow> unat b < 128"
proof -
  have "b AND 0x80 = b AND 2 ^ 7" by simp
  then have "b AND 0x80 = 0 \<longleftrightarrow> \<not> bit b 7" by (simp only: and_exp_eq_0_iff_not_bit)
  also have "bit b 7 \<longleftrightarrow> bit (unat b) 7" by (simp add: bit_unsigned_iff)
  also have "\<not> bit (unat b) 7 \<longleftrightarrow> unat b < 128"
  proof -
    have "unat b div 128 < 2" using unat_byte [of b] by (simp add: less_mult_imp_div_less)
    then have "odd (unat b div 128) \<longleftrightarrow> unat b div 128 \<noteq> 0" by (auto simp: less_2_cases_iff)
    then show ?thesis by (simp add: bit_iff_odd div_eq_0_iff)
  qed
  finally show ?thesis .
qed

lemma var_int_loop_eq:
  "var_int_loop v first out =
     out @ rev (if first then mark (groups (unat v))
                else map (\<lambda>e. of_nat (e + 128)) (groups (unat v)))"
proof (induction v first out rule: var_int_loop.induct)
  case (1 v first out)
  show ?case
  proof (cases "v \<le> 0x7f")
    case True
    then have "unat v < 128" by (simp add: word_le_nat_alt)
    then show ?thesis
      using True or_80 [of "unat v"]
      by (subst var_int_loop.simps, subst (1 2) groups.simps) (simp add: ucast_and_7f or_80 Let_def)
  next
    case False
    note s = var_int_step [OF False]
    have g: "groups (unat v) = groups (unat v div 128 - 1) @ [unat v mod 128]"
      using s(2) by (subst groups.simps) simp
    have "unat v mod 128 < 128" by simp
    then show ?thesis
      using False 1 [OF refl refl False, unfolded ucast_and_7f] s(1)
      by (subst var_int_loop.simps)
        (cases first; simp add: g ucast_and_7f or_80 Let_def mark_snoc groups_facts)
  qed
qed

lemma var_int_groups: "var_int v = mark (groups (unat v))"
  by (simp add: var_int_def var_int_loop_eq)

lemma var_int_nonempty [simp]: "var_int v \<noteq> []"
  using groups_facts(1) [of "unat v"] unfolding var_int_groups
  by (cases "groups (unat v)" rule: mark.cases) simp_all

section \<open>Destinations and condition sections\<close>

datatype destination =
    DestPubKeyHash bytes
  | DestPubKey bytes
  | DestScriptHash bytes
  | DestIdentity bytes

definition DEST_TYPE_SCRIPT_HASH :: u8 where "DEST_TYPE_SCRIPT_HASH = 3"
definition DEST_TYPE_IDENTITY :: u8 where "DEST_TYPE_IDENTITY = 4"

definition tagged :: "u8 \<Rightarrow> bytes \<Rightarrow> bytes" where
  "tagged kind hash = kind # hash"

fun to_push :: "destination \<Rightarrow> bytes" where
  "to_push (DestPubKeyHash hash) = hash"
| "to_push (DestPubKey key) = key"
| "to_push (DestScriptHash hash) = tagged DEST_TYPE_SCRIPT_HASH hash"
| "to_push (DestIdentity hash) = tagged DEST_TYPE_IDENTITY hash"

definition from_push :: "bytes \<Rightarrow> tx_error + destination" where
  "from_push bs =
     (if length bs = 20 then Inr (DestPubKeyHash bs)
      else if length bs = 33 \<or> length bs = 65 then Inr (DestPubKey bs)
      else if length bs = 21 then
        let hash = drop 1 bs in
        if bs ! 0 = DEST_TYPE_SCRIPT_HASH then Inr (DestScriptHash hash)
        else if bs ! 0 = DEST_TYPE_IDENTITY then Inr (DestIdentity hash)
        else Inl (MalformedCryptoCondition (''destination type '' @ dec_string (unat (bs ! 0))
               @ '' is not one this crate decodes''))
      else Inl (MalformedCryptoCondition (''a destination of '' @ dec_string (length bs)
             @ '' bytes matches no known kind'')))"

text \<open>The hashes are \<open>[u8; 20]\<close>; a public key is documented as 33 or 65 bytes.\<close>

fun wf_destination :: "destination \<Rightarrow> bool" where
  "wf_destination (DestPubKeyHash h) \<longleftrightarrow> length h = 20"
| "wf_destination (DestPubKey k) \<longleftrightarrow> length k = 33 \<or> length k = 65"
| "wf_destination (DestScriptHash h) \<longleftrightarrow> length h = 20"
| "wf_destination (DestIdentity h) \<longleftrightarrow> length h = 20"

lemma from_push_iff: "from_push bs = Inr d \<longleftrightarrow> wf_destination d \<and> bs = to_push d"
proof
  assume "from_push bs = Inr d"
  moreover have "bs = bs ! 0 # drop 1 bs" if "length bs = 21"
    using that by (cases bs) simp_all
  ultimately show "wf_destination d \<and> bs = to_push d"
    by (auto simp: from_push_def tagged_def Let_def split: if_splits)
next
  assume "wf_destination d \<and> bs = to_push d"
  then show "from_push bs = Inr d"
    by (cases d) (auto simp: from_push_def tagged_def DEST_TYPE_SCRIPT_HASH_def DEST_TYPE_IDENTITY_def)
qed

lemma length_to_push: "wf_destination d \<Longrightarrow> 20 \<le> length (to_push d) \<and> length (to_push d) \<le> 65"
  by (cases d) (auto simp: tagged_def)

record opt_cc_params =
  cc_version :: u8
  cc_eval_code :: u8
  cc_m :: u8
  cc_n :: u8
  cc_destinations :: "destination list"
  cc_vdata :: "bytes list"

definition one_of_one :: "u8 \<Rightarrow> destination \<Rightarrow> opt_cc_params" where
  "one_of_one eval_code d =
     \<lparr>cc_version = OPT_CC_PARAMS_VERSION, cc_eval_code = eval_code, cc_m = 1, cc_n = 1,
      cc_destinations = [d], cc_vdata = []\<rparr>"

fun push_all :: "bytes \<Rightarrow> bytes list \<Rightarrow> tx_error + bytes" where
  "push_all chunk [] = Inr chunk"
| "push_all chunk (d # ds) = rbind (push_data chunk d) (\<lambda>chunk. push_all chunk ds)"

definition to_chunk :: "opt_cc_params \<Rightarrow> tx_error + bytes" where
  "to_chunk p =
     rbind (push_data [] [cc_version p, cc_eval_code p, cc_m p, cc_n p]) (\<lambda>chunk.
     rbind (push_all chunk (map to_push (cc_destinations p))) (\<lambda>chunk.
     push_all chunk (cc_vdata p)))"

definition cc_script :: "opt_cc_params \<Rightarrow> opt_cc_params \<Rightarrow> tx_error + bytes" where
  "cc_script master params =
     rbind (to_chunk master) (\<lambda>master_chunk.
     rbind (push_data [] master_chunk) (\<lambda>script.
     let script = script @ [OP_CHECKCRYPTOCONDITION] in
     rbind (to_chunk params) (\<lambda>params_chunk.
     rbind (push_data script params_chunk) (\<lambda>script.
     Inr (script @ [OP_DROP])))))"

section \<open>Output scripts\<close>

definition identity_payment_script :: "bytes \<Rightarrow> tx_error + bytes" where
  "identity_payment_script identity =
     cc_script
       \<lparr>cc_version = OPT_CC_PARAMS_VERSION, cc_eval_code = EVAL_NONE, cc_m = 0, cc_n = 0,
        cc_destinations = [], cc_vdata = []\<rparr>
       (one_of_one EVAL_NONE (DestIdentity identity))"

definition token_output :: "currency_id \<Rightarrow> u64 \<Rightarrow> bytes" where
  "token_output currency amount =
     var_int TOKEN_OUTPUT_VERSION_SINGLE @ currency_to_bytes currency @ var_int amount"

definition reserve_output_script_to :: "destination \<Rightarrow> currency_id \<Rightarrow> u64 \<Rightarrow> tx_error + bytes" where
  "reserve_output_script_to d currency amount =
     cc_script (one_of_one EVAL_NONE d)
       ((one_of_one EVAL_RESERVE_OUTPUT d)\<lparr>cc_vdata := [token_output currency amount]\<rparr>)"

definition reserve_output_script :: "bytes \<Rightarrow> currency_id \<Rightarrow> u64 \<Rightarrow> tx_error + bytes" where
  "reserve_output_script d currency amount = reserve_output_script_to (DestPubKeyHash d) currency amount"

definition IDENTITY_RECOVER_KEYHASH :: bytes where
  "IDENTITY_RECOVER_KEYHASH =
     [0xb6, 0xaf, 0xf5, 0x98, 0xba, 0x59, 0x55, 0x62, 0xed, 0x96, 0xe7, 0xa4, 0x84, 0x19, 0x36, 0xed,
      0x23, 0x6c, 0xf3, 0xbd]"

definition identity_primary_script ::
  "bytes \<Rightarrow> bytes \<Rightarrow> bytes \<Rightarrow> bytes \<Rightarrow> bool \<Rightarrow> tx_error + bytes" where
  "identity_primary_script identity_id identity_bytes revocation recovery tokenized_control =
     (let master = \<lparr>cc_version = OPT_CC_PARAMS_VERSION, cc_eval_code = EVAL_NONE, cc_m = 1, cc_n = 3,
            cc_destinations = [DestIdentity identity_id, DestIdentity revocation, DestIdentity recovery],
            cc_vdata = []\<rparr>;
          revoke = one_of_one EVAL_IDENTITY_REVOKE (DestIdentity revocation);
          recover = one_of_one EVAL_IDENTITY_RECOVER (DestIdentity recovery);
          recover = (if tokenized_control
            then recover\<lparr>cc_destinations := cc_destinations recover @ [DestPubKeyHash IDENTITY_RECOVER_KEYHASH],
                         cc_n := 2\<rparr>
            else recover) in
      rbind (to_chunk revoke) (\<lambda>revoke_chunk.
      rbind (to_chunk recover) (\<lambda>recover_chunk.
      cc_script master
        ((one_of_one EVAL_IDENTITY_PRIMARY (DestIdentity identity_id))
           \<lparr>cc_vdata := [identity_bytes, revoke_chunk, recover_chunk]\<rparr>))))"

section \<open>Fulfillments\<close>

definition cc_compact_size :: "nat \<Rightarrow> tx_error + bytes" where
  "cc_compact_size n = (if n \<le> 252 then Inr [of_nat n] else Inl (CcPayloadTooLarge n))"

fun push_signatures :: "bytes \<Rightarrow> (bytes \<times> bytes) list \<Rightarrow> tx_error + bytes" where
  "push_signatures f [] = Inr f"
| "push_signatures f ((pubkey, signature) # sigs) =
     rbind (refuse_if (255 < length pubkey) (CcPayloadTooLarge (length pubkey))) (\<lambda>_.
     push_signatures (f @ [1] @ [of_nat (length pubkey)] @ pubkey @ [64] @ signature) sigs)"

definition fulfillment_script_sig :: "(bytes \<times> bytes) list \<Rightarrow> u8 \<Rightarrow> tx_error + bytes" where
  "fulfillment_script_sig signatures hash_type =
     rbind (refuse_if (signatures = []) NoSignatures) (\<lambda>_.
     rbind (cc_compact_size (length signatures)) (\<lambda>count.
     rbind (push_signatures ([1, hash_type] @ count) signatures) (\<lambda>fulfillment.
     push_data [] fulfillment)))"

section \<open>What the builders write\<close>

lemma push_bytes_inj:
  assumes "push_bytes xs @ s = push_bytes ys @ t" "length xs \<le> 65535" "length ys \<le> 65535"
  shows "xs = ys \<and> s = t"
proof -
  have small: "n \<le> 255 \<Longrightarrow> unat (of_nat n :: byte) = n" for n by (subst unat_of_nat) simp
  have big: "n \<le> 65535 \<Longrightarrow> unat (of_nat n :: u16) = n" for n by (subst unat_of_nat) simp
  have op: "(of_nat n :: byte) \<noteq> OP_PUSHDATA1" "(of_nat n :: byte) \<noteq> OP_PUSHDATA2" if "n \<le> 75" for n
    using that small [of n] by (auto simp: op_codes word_unat_eq_iff)
  have inj: "(of_nat m :: byte) = of_nat n \<longleftrightarrow> m = n" if "m \<le> 255" "n \<le> 255" for m n
    using that small by (metis)
  have inj2: "(of_nat m :: u16) = of_nat n \<longleftrightarrow> m = n" if "m \<le> 65535" "n \<le> 65535" for m n
    using that big by (metis)
  have "length xs = length ys"
    using assms op [of "length xs"] op [of "length ys"]
    by (auto simp: push_bytes_def inj inj2 op_codes append_eq_append_conv split: if_splits)
  then show ?thesis using assms(1) by (auto simp: push_bytes_def split: if_splits)
qed

lemma push_all_Inr:
  "push_all chunk ds = Inr s \<longleftrightarrow>
     (\<forall>d \<in> set ds. length d \<le> 65535) \<and> s = chunk @ concat (map push_bytes ds)"
  by (induction ds arbitrary: chunk) (auto simp: rbind_Inr_iff push_data_Inr)

lemma to_chunk_Inr:
  "to_chunk p = Inr s \<longleftrightarrow>
     (\<forall>d \<in> set (cc_destinations p). length (to_push d) \<le> 65535) \<and>
     (\<forall>d \<in> set (cc_vdata p). length d \<le> 65535) \<and>
     s = push_bytes [cc_version p, cc_eval_code p, cc_m p, cc_n p] @
         concat (map (push_bytes \<circ> to_push) (cc_destinations p)) @ concat (map push_bytes (cc_vdata p))"
  by (auto simp: to_chunk_def rbind_Inr_iff push_data_Inr push_all_Inr)

lemma cc_script_Inr:
  "cc_script master params = Inr s \<longleftrightarrow>
     (\<exists>m p. to_chunk master = Inr m \<and> to_chunk params = Inr p \<and> length m \<le> 65535 \<and> length p \<le> 65535 \<and>
        s = push_bytes m @ [OP_CHECKCRYPTOCONDITION] @ push_bytes p @ [OP_DROP])"
  by (auto simp: cc_script_def rbind_Inr_iff push_data_Inr Let_def)

text \<open>One entry of a fulfillment.\<close>

definition signature_entry :: "bytes \<times> bytes \<Rightarrow> bytes" where
  "signature_entry ps = [1, of_nat (length (fst ps))] @ fst ps @ [64] @ snd ps"

lemma push_signatures_Inr:
  "push_signatures f sigs = Inr s \<longleftrightarrow>
     (\<forall>ps \<in> set sigs. length (fst ps) \<le> 255) \<and> s = f @ concat (map signature_entry sigs)"
  by (induction f sigs rule: push_signatures.induct)
    (auto simp: rbind_Inr_iff refuse_if_Inr_iff signature_entry_def not_less)

lemma signature_entries_inj:
  "concat (map signature_entry xs) @ s = concat (map signature_entry ys) @ t \<Longrightarrow> length xs = length ys \<Longrightarrow>
     \<forall>ps \<in> set xs \<union> set ys. length (fst ps) \<le> 255 \<and> length (snd ps) = 64 \<Longrightarrow> xs = ys"
proof (induction xs arbitrary: ys)
  case (Cons x xs)
  then obtain y ys' where ys: "ys = y # ys'" by (cases ys) simp_all
  have small: "n \<le> 255 \<Longrightarrow> unat (of_nat n :: byte) = n" for n by (subst unat_of_nat) simp
  have "(of_nat (length (fst x)) :: byte) = of_nat (length (fst y))"
    using Cons.prems(1) ys by (simp add: signature_entry_def)
  then have "length (fst x) = length (fst y)"
    using Cons.prems(3) ys small by (metis UnCI list.set_intros(1))
  moreover have "length (snd x) = length (snd y)" using Cons.prems(3) ys by simp
  ultimately have l: "length (signature_entry x) = length (signature_entry y)"
    and lens: "length (fst x) = length (fst y)" by (simp_all add: signature_entry_def)
  have "signature_entry x @ (concat (map signature_entry xs) @ s)
      = signature_entry y @ (concat (map signature_entry ys') @ t)"
    using Cons.prems(1) ys by simp
  with l have e: "signature_entry x = signature_entry y"
    "concat (map signature_entry xs) @ s = concat (map signature_entry ys') @ t"
    using append_eq_append_conv [of "signature_entry x" "signature_entry y"] by blast+
  have "x = y" using e(1) lens by (auto simp: signature_entry_def prod_eq_iff)
  moreover from e(2) have "xs = ys'" using Cons ys by simp
  ultimately show ?case using ys by simp
qed simp

lemma fulfillment_Inr:
  "fulfillment_script_sig sigs hash_type = Inr s \<longleftrightarrow>
     sigs \<noteq> [] \<and> length sigs \<le> 252 \<and> (\<forall>ps \<in> set sigs. length (fst ps) \<le> 255) \<and>
     length ([1, hash_type, of_nat (length sigs)] @ concat (map signature_entry sigs)) \<le> 65535 \<and>
     s = push_bytes ([1, hash_type, of_nat (length sigs)] @ concat (map signature_entry sigs))"
  by (auto simp: fulfillment_script_sig_def rbind_Inr_iff refuse_if_Inr_iff push_data_Inr
      push_signatures_Inr cc_compact_size_def split: if_splits)

section \<open>Properties\<close>

text \<open>
  Destinations.  A destination reads back from its push exactly when its hash is 20 bytes
  or its key 33 or 65, the bytes of one destination never read as another, and in
  particular an identity is never written as the transparent address sharing its hash.
\<close>

theorem destination_push_exact:
  "(from_push (to_push d) = Inr d \<longleftrightarrow> wf_destination d) \<and>
   (from_push bs = Inr d \<longrightarrow> bs = to_push d \<and> wf_destination d) \<and>
   (length h = 20 \<longrightarrow> from_push (to_push (DestIdentity h)) = Inr (DestIdentity h)) \<and>
   (length h = 20 \<longrightarrow> length h' = 20 \<longrightarrow>
      to_push (DestIdentity h) \<noteq> to_push (DestPubKeyHash h'))"
  by (auto simp: from_push_iff tagged_def)

lemma destination_push_exact_witness:
  "from_push (4 # replicate 20 7) = Inr (DestIdentity (replicate 20 7)) \<and>
   from_push (replicate 20 7) \<noteq> Inr (DestIdentity (replicate 20 7))"
  using destination_push_exact [of "DestIdentity (replicate 20 7)" "replicate 20 7" "replicate 20 7"
      "replicate 20 7"]
  by (simp add: tagged_def DEST_TYPE_IDENTITY_def)

text \<open>
  Fulfillments.  A fulfillment is refused exactly for no signatures, more than 252 of
  them, a public key longer than 255 bytes or a body past the largest push; otherwise it
  determines the hash type and the whole list of keys and signatures in order, so no two
  sets of signers produce the same script.
\<close>

theorem fulfillment_determines_signers:
  assumes "\<forall>ps \<in> set sigs \<union> set sigs'. length (snd ps) = 64"
  shows "(fulfillment_script_sig sigs t = Inr s \<longrightarrow> fulfillment_script_sig sigs' t' = Inr s \<longrightarrow>
      sigs = sigs' \<and> t = t') \<and>
    (fulfillment_script_sig sigs t \<in> range Inr \<longleftrightarrow>
      sigs \<noteq> [] \<and> length sigs \<le> 252 \<and> (\<forall>ps \<in> set sigs. length (fst ps) \<le> 255) \<and>
      3 + (\<Sum>ps \<leftarrow> sigs. 67 + length (fst ps)) \<le> 65535)"
proof (intro conjI impI)
  assume a: "fulfillment_script_sig sigs t = Inr s" "fulfillment_script_sig sigs' t' = Inr s"
  from a [unfolded fulfillment_Inr] have eq:
    "[1, t, of_nat (length sigs)] @ concat (map signature_entry sigs) =
     [1, t', of_nat (length sigs')] @ concat (map signature_entry sigs')"
    using push_bytes_inj [of "[1, t, of_nat (length sigs)] @ concat (map signature_entry sigs)" "[]"
        "[1, t', of_nat (length sigs')] @ concat (map signature_entry sigs')" "[]"] by auto
  then have t: "t = t'" and n: "(of_nat (length sigs) :: byte) = of_nat (length sigs')"
    and c: "concat (map signature_entry sigs) @ [] = concat (map signature_entry sigs') @ []" by simp_all
  have small: "n \<le> 252 \<Longrightarrow> unat (of_nat n :: byte) = n" for n by (subst unat_of_nat) simp
  have "length sigs = length sigs'" using n a [unfolded fulfillment_Inr] small by metis
  with c have "sigs = sigs'"
    using assms a [unfolded fulfillment_Inr] by (intro signature_entries_inj [of _ "[]" _ "[]"]) auto
  with t show "sigs = sigs'" "t = t'" by auto
next
  have "length (concat (map signature_entry xs)) = (\<Sum>ps \<leftarrow> xs. 67 + length (fst ps))"
    if "\<forall>ps \<in> set xs. length (snd ps) = 64" for xs
    using that by (induction xs) (simp_all add: signature_entry_def)
  then have "length (concat (map signature_entry sigs)) = (\<Sum>ps \<leftarrow> sigs. 67 + length (fst ps))"
    using assms by simp
  then show "fulfillment_script_sig sigs t \<in> range Inr \<longleftrightarrow>
      sigs \<noteq> [] \<and> length sigs \<le> 252 \<and> (\<forall>ps \<in> set sigs. length (fst ps) \<le> 255) \<and>
      3 + (\<Sum>ps \<leftarrow> sigs. 67 + length (fst ps)) \<le> 65535"
    by (auto simp: image_iff fulfillment_Inr)
qed

lemma fulfillment_determines_signers_witness:
  "fulfillment_script_sig [(replicate 33 2, replicate 64 9)] 1 \<noteq>
   fulfillment_script_sig [(replicate 33 3, replicate 64 9)] 1"
proof
  assume e: "fulfillment_script_sig [(replicate 33 2, replicate 64 9)] 1 =
      fulfillment_script_sig [(replicate 33 3, replicate 64 9)] 1"
  have h: "\<forall>ps \<in> set [(replicate 33 2 :: bytes, replicate 64 9 :: bytes)]
      \<union> set [(replicate 33 3, replicate 64 9)]. length (snd ps) = 64" by simp
  have "fulfillment_script_sig [(replicate 33 2, replicate 64 9)] 1 \<in> range Inr"
    using fulfillment_determines_signers [OF h, of 1 _ 1] by simp
  then obtain s where "fulfillment_script_sig [(replicate 33 2, replicate 64 9)] 1 = Inr s" by auto
  with e fulfillment_determines_signers [OF h, of 1 s 1]
  have "(replicate 33 2 :: bytes) = replicate 33 3" by simp
  then show False by (simp add: replicate_eq_replicate)
qed

end
