(* ===== verification/Script.thy ===== *)
theory Script
  imports Cc Wire_Compact
begin

text \<open>
  The reading half of \<open>verus-tx-protocol/src/decode.rs\<close>: the \<open>ScriptReader\<close>, VARINT and
  CompactSize at an offset, currency maps and token outputs.  A \<open>(bytes, &mut offset)\<close> pair
  and a \<open>ScriptReader\<close> are both a \<open>cursor\<close>.  VARINT and CompactSize are interpreted as
  codecs against the encoders of \<open>cc.rs\<close> and \<open>compact.rs\<close>; pushes are read back whatever
  follows them.
\<close>

type_synonym 'a script_rd = "(tx_error, 'a) rd"

text \<open>\<open>hex::encode\<close>, a crate function used in error messages.\<close>

type_synonym hex_encode = "bytes \<Rightarrow> str"

section \<open>The script reader\<close>

definition OP_PUSHDATA4 :: u8 where "OP_PUSHDATA4 = 0x4e"

definition malformed :: "str \<Rightarrow> tx_error" where
  "malformed detail = MalformedCryptoCondition detail"

definition reader_done :: "cursor \<Rightarrow> bool" where
  "reader_done r \<longleftrightarrow> length (cur_bytes r) \<le> cur_at r"

definition peek :: "cursor \<Rightarrow> byte option" where
  "peek r = (if cur_at r < length (cur_bytes r) then Some (cur_bytes r ! cur_at r) else None)"

definition take_opcode :: "byte script_rd" where
  "take_opcode r =
     rbind (ok_or (peek r) (malformed ''script ended early'')) (\<lambda>byte.
     Inr (byte, r\<lparr>cur_at := cur_at r + 1\<rparr>))"

text \<open>\<open>slice.get(offset..offset + n)\<close>, moving on.\<close>

definition take_slice :: "nat \<Rightarrow> tx_error \<Rightarrow> bytes script_rd" where
  "take_slice n e r =
     (if cur_at r + n \<le> length (cur_bytes r)
      then Inr (take n (drop (cur_at r) (cur_bytes r)), r\<lparr>cur_at := cur_at r + n\<rparr>)
      else Inl e)"

definition push_length :: "byte \<Rightarrow> nat script_rd" where
  "push_length opcode =
     (if 1 \<le> opcode \<and> opcode \<le> 75 then rd_return (unat opcode)
      else if opcode = OP_PUSHDATA1 then rd_bind take_opcode (\<lambda>n. rd_return (unat n))
      else if opcode = OP_PUSHDATA2 then
        rd_bind take_opcode (\<lambda>low. rd_bind take_opcode (\<lambda>high. rd_return (unat (u16_from_le [low, high]))))
      else if opcode = OP_PUSHDATA4 then
        rd_fail (malformed (''OP_PUSHDATA4 push encountered; this crate's own encoder refuses to emit one ''
          @ ''(see cc.rs push_data's CcPayloadTooLarge), so decoding it would exercise an encoding ''
          @ ''nothing here has tested''))
      else rd_fail (malformed (''expected a data push, found opcode 0x'' @ hex_byte opcode)))"

definition take_push :: "bytes script_rd" where
  "take_push =
     rd_bind take_opcode (\<lambda>opcode.
     rd_bind (push_length opcode) (\<lambda>n r.
       if usize_bound \<le> cur_at r + n then Inl (malformed ''push length overflows'')
       else take_slice n (malformed ''push runs past the end of the script'') r))"

section \<open>Numbers\<close>

function read_var_int_from :: "u64 \<Rightarrow> u64 script_rd" where
  "read_var_int_from acc r =
     (if length (cur_bytes r) \<le> cur_at r then Inl (malformed ''VARINT ended early'')
      else
        let byte = cur_bytes r ! cur_at r; r' = r\<lparr>cur_at := cur_at r + 1\<rparr> in
        rbind (ok_or (Option.bind (checked_mul acc 128) (\<lambda>v. checked_add v (ucast (byte AND 0x7f))))
                 (malformed ''VARINT overflows u64'')) (\<lambda>value.
        if byte AND 0x80 = 0 then Inr (value, r')
        else rbind (ok_or (checked_add value 1) (malformed ''VARINT overflows u64'')) (\<lambda>value.
          read_var_int_from value r')))"
  by pat_completeness auto

termination
  by (relation "measure (\<lambda>(_, r). length (cur_bytes r) - cur_at r)") auto

declare read_var_int_from.simps [simp del]

definition read_var_int :: "u64 script_rd" where
  "read_var_int r = read_var_int_from 0 r"

definition compact_fixed :: "nat \<Rightarrow> u64 \<Rightarrow> u64 script_rd" where
  "compact_fixed width minimum =
     rd_bind (take_slice width (malformed ''CompactSize ended early'')) (\<lambda>slice.
     let value = u64_from_le (slice @ replicate (8 - width) 0) in
     if value < minimum then rd_fail (malformed ''non-canonical CompactSize'')
     else rd_return value)"

definition read_compact_size :: "u64 script_rd" where
  "read_compact_size r =
     rbind (ok_or (peek r) (malformed ''CompactSize ended early'')) (\<lambda>first.
     let r' = r\<lparr>cur_at := cur_at r + 1\<rparr> in
     if first = 0xfd then compact_fixed 2 0xfd r'
     else if first = 0xfe then compact_fixed 4 (0xffff + 1) r'
     else if first = 0xff then compact_fixed 8 (0xffffffff + 1) r'
     else Inr (ucast first, r'))"

section \<open>Currency maps and token outputs\<close>

definition signed_string :: "i64 \<Rightarrow> str" where
  "signed_string a =
     (if sint a < 0 then ''-'' @ dec_string (nat (- sint a)) else dec_string (nat (sint a)))"

definition currency_entry :: "hex_encode \<Rightarrow> (currency_id \<times> u64) script_rd" where
  "currency_entry hx r =
     (let currency = take 20 (drop (cur_at r) (cur_bytes r));
          amount = u64_from_le (take 8 (drop (cur_at r + 20) (cur_bytes r))) in
      if sint amount < 0 then
        Inl (malformed (''a currency map holds a negative amount ('' @ signed_string amount
               @ '') for '' @ hx currency))
      else Inr ((currency_from_bytes currency, amount), r\<lparr>cur_at := cur_at r + 28\<rparr>))"

definition read_currency_value_map :: "hex_encode \<Rightarrow> (currency_id \<times> u64) list script_rd" where
  "read_currency_value_map hx =
     rd_bind read_compact_size (\<lambda>count r.
     let remaining = length (cur_bytes r) - cur_at r in
     if min (unat count * 28) (2 ^ 64 - 1) \<le> remaining
     then rd_times (unat count) (currency_entry hx) r
     else Inl (malformed (''a currency map claims '' @ dec_string (unat count)
            @ '' entries, which is more than the '' @ dec_string remaining
            @ '' bytes left can hold'')))"

definition TOKEN_OUTPUT_MULTIVALUE :: u64 where "TOKEN_OUTPUT_MULTIVALUE = 0x80000000"

definition parse_token_output_at :: "hex_encode \<Rightarrow> (currency_id \<times> u64) list script_rd" where
  "parse_token_output_at hx =
     rd_bind read_var_int (\<lambda>version.
     let multivalue = version AND TOKEN_OUTPUT_MULTIVALUE \<noteq> 0;
         base = version AND NOT TOKEN_OUTPUT_MULTIVALUE in
     if base \<noteq> 1 then
       rd_fail (malformed (''unsupported TokenOutput version '' @ dec_string (unat base)
         @ ''; only version 1 is decoded''))
     else if multivalue then read_currency_value_map hx
     else
       rd_bind (take_slice 20 (malformed ''TokenOutput ended before its currency id'')) (\<lambda>currency.
       rd_bind read_var_int (\<lambda>amount.
       rd_return [(currency_from_bytes currency, amount)])))"

definition parse_token_output :: "hex_encode \<Rightarrow> bytes \<Rightarrow> tx_error + (currency_id \<times> u64) list" where
  "parse_token_output hx payload =
     rbind (parse_token_output_at hx (cursor_new payload)) (\<lambda>(tokens, r).
     rbind (refuse_if (cur_at r \<noteq> length payload) (malformed ''trailing bytes after the TokenOutput'')) (\<lambda>_.
     Inr tokens))"

definition read_currency_at :: "currency_id script_rd" where
  "read_currency_at =
     rd_bind (take_slice 20 (malformed ''a payload ended before a currency id'')) (\<lambda>raw.
     rd_return (currency_from_bytes raw))"

section \<open>Slices, opcodes and pushes\<close>

lemma take_slice_iff:
  assumes "wf_cursor r"
  shows "take_slice n e r = Inr (xs, r') \<longleftrightarrow>
    n \<le> length (rest r) \<and> xs = take n (rest r) \<and> r' = advance r n"
  using assms by (auto simp: take_slice_def wf_cursor_def length_rest rest_def advance_def)

interpretation slice: codec "\<lambda>xs. xs" "take_slice n e" "\<lambda>xs. length xs = n" for n e
  by unfold_locales (auto simp: take_slice_iff)

lemma peek_rest: "wf_cursor r \<Longrightarrow> peek r = (case rest r of [] \<Rightarrow> None | b # _ \<Rightarrow> Some b)"
proof -
  assume r: "wf_cursor r"
  show ?thesis
  proof (cases "cur_at r < length (cur_bytes r)")
    case True
    then have "rest r = cur_bytes r ! cur_at r # drop (Suc (cur_at r)) (cur_bytes r)"
      by (simp add: rest_def Cons_nth_drop_Suc)
    with True show ?thesis by (simp add: peek_def)
  next
    case False
    then show ?thesis by (simp add: peek_def rest_def)
  qed
qed

lemma reader_done_iff: "wf_cursor r \<Longrightarrow> reader_done r \<longleftrightarrow> rest r = []"
  by (simp add: reader_done_def rest_def)

interpretation opcode: codec "\<lambda>b. [b]" take_opcode "\<lambda>_. True"
proof
  fix r x r'
  assume "wf_cursor r" "take_opcode r = Inr (x, r')"
  then show "True \<and> r' = advance r (length [x]) \<and> rest r = [x] @ rest r'"
    by (auto simp: take_opcode_def result_simps peek_rest advance_def split: list.splits)
      (auto simp: rest_def drop_Suc drop_tl)
next
  fix r x suf
  assume "wf_cursor r" "rest r = [x] @ suf"
  then show "take_opcode r = Inr (x, advance r (length [x]))"
    by (simp add: take_opcode_def peek_rest advance_def)
qed

text \<open>Reading back what \<open>push_data\<close> writes.  An empty push is the one exception.\<close>

lemma push_length_run:
  assumes "wf_cursor r" "bs \<noteq> []" "length bs \<le> 65535" "rest r = push_bytes bs @ suf"
  shows "\<exists>opcode r1 r2. take_opcode r = Inr (opcode, r1) \<and> push_length opcode r1 = Inr (length bs, r2) \<and>
     wf_cursor r2 \<and> rest r2 = bs @ suf \<and> r2 = advance r (length (push_bytes bs) - length bs)"
proof -
  let ?n = "length bs"
  consider (direct) "?n \<le> 75" | (one) "75 < ?n" "?n \<le> 255" | (two) "255 < ?n" by linarith
  then show ?thesis
  proof cases
    case direct
    then have p: "rest r = [of_nat ?n] @ (bs @ suf)" using assms(4) by (simp add: push_bytes_def)
    obtain r1 where r1: "wf_cursor r1" "reads r [of_nat ?n] r1" "rest r1 = bs @ suf"
      "take_opcode r = Inr (of_nat ?n, r1)"
      by (rule opcode.dec_run [OF assms(1) _ p]) simp
    have u: "unat (of_nat ?n :: byte) = ?n" using direct by (simp add: unat_of_nat)
    have "1 \<le> (of_nat ?n :: byte)" "(of_nat ?n :: byte) \<le> 75"
      using direct assms(2) unfolding word_le_nat_alt u by (cases bs; simp)+
    then have "push_length (of_nat ?n) r1 = Inr (?n, r1)"
      by (simp add: push_length_def u)
    with r1(1,3,4) direct reads_advance [OF r1(2)] show ?thesis
      by (intro exI [of _ "of_nat ?n"] exI [of _ r1] exI [of _ r1]) (simp add: push_bytes_def)
  next
    case one
    then have p: "rest r = [OP_PUSHDATA1] @ ([of_nat ?n] @ (bs @ suf))"
      using assms(4) by (simp add: push_bytes_def)
    obtain r1 where r1: "wf_cursor r1" "reads r [OP_PUSHDATA1] r1" "rest r1 = [of_nat ?n] @ (bs @ suf)"
      "take_opcode r = Inr (OP_PUSHDATA1, r1)"
      by (rule opcode.dec_run [OF assms(1) _ p]) simp
    obtain r2 where r2: "wf_cursor r2" "reads r1 [of_nat ?n] r2" "rest r2 = bs @ suf"
      "take_opcode r1 = Inr (of_nat ?n, r2)"
      by (rule opcode.dec_run [OF r1(1) _ r1(3)]) simp
    have u: "unat (of_nat ?n :: byte) = ?n" using one by (simp add: unat_of_nat)
    have "push_length OP_PUSHDATA1 r1 = Inr (?n, r2)"
      using r2(4) by (simp add: push_length_def op_codes rd_bind_def u)
    moreover have "r2 = advance r 2"
      using reads_advance [OF reads_append [OF r1(2) r2(2)]] by simp
    ultimately show ?thesis
      using r1(4) r2(1,3) one
      by (intro exI [of _ OP_PUSHDATA1] exI [of _ r1] exI [of _ r2]) (simp add: push_bytes_def)
  next
    case two
    obtain lo hi where lh: "u16_le (of_nat ?n) = [lo, hi]"
      using u16_le_pair by blast
    then have p: "rest r = [OP_PUSHDATA2] @ ([lo] @ ([hi] @ (bs @ suf)))"
      using assms(4) two by (simp add: push_bytes_def)
    obtain r1 where r1: "wf_cursor r1" "reads r [OP_PUSHDATA2] r1" "rest r1 = [lo] @ ([hi] @ (bs @ suf))"
      "take_opcode r = Inr (OP_PUSHDATA2, r1)"
      by (rule opcode.dec_run [OF assms(1) _ p]) simp
    obtain r2 where r2: "wf_cursor r2" "reads r1 [lo] r2" "rest r2 = [hi] @ (bs @ suf)"
      "take_opcode r1 = Inr (lo, r2)"
      by (rule opcode.dec_run [OF r1(1) _ r1(3)]) simp
    obtain r3 where r3: "wf_cursor r3" "reads r2 [hi] r3" "rest r3 = bs @ suf"
      "take_opcode r2 = Inr (hi, r3)"
      by (rule opcode.dec_run [OF r2(1) _ r2(3)]) simp
    have "u16_from_le [lo, hi] = of_nat ?n" using lh uN_from_le_uN_le(1) [of "of_nat ?n"] by simp
    then have u: "unat (u16_from_le [lo, hi]) = ?n" using assms(3) by (simp add: unat_of_nat)
    have "push_length OP_PUSHDATA2 r1 = Inr (?n, r3)"
      using r2(4) r3(4) by (simp add: push_length_def op_codes rd_bind_def rd_return_def u)
    moreover have "r3 = advance r 3"
      using reads_advance [OF reads_append [OF reads_append [OF r1(2) r2(2)] r3(2)]] by simp
    ultimately show ?thesis
      using r1(4) r3(1,3) two
      by (intro exI [of _ OP_PUSHDATA2] exI [of _ r1] exI [of _ r3]) (simp add: push_bytes_def)
  qed
qed

lemma take_push_run:
  assumes "wf_cursor r" "bs \<noteq> []" "length bs \<le> 65535" "rest r = push_bytes bs @ suf"
  shows "take_push r = Inr (bs, advance r (length (push_bytes bs)))"
proof -
  obtain opcode r1 r2 where o: "take_opcode r = Inr (opcode, r1)"
    and l: "push_length opcode r1 = Inr (length bs, r2)" and w: "wf_cursor r2"
    and s: "rest r2 = bs @ suf" and a: "r2 = advance r (length (push_bytes bs) - length bs)"
    using push_length_run [OF assms] by blast
  have len: "length bs \<le> length (push_bytes bs)" by (simp add: push_bytes_def)
  have "cur_at r2 + length bs < usize_bound"
  proof -
    have "length bs \<le> length (cur_bytes r2) - cur_at r2"
      using s by (metis length_rest length_append le_add1)
    then show ?thesis using w assms(2) by (cases bs) (auto simp: wf_cursor_def)
  qed
  moreover have "take_slice (length bs) e r2 = Inr (bs, advance r2 (length bs))" for e
    using w s by (simp add: take_slice_iff)
  ultimately show ?thesis
    using o l a len by (simp add: take_push_def rd_bind_def)
qed

section \<open>VARINT is read back, and only its own encoding\<close>

lemma varint_digit:
  "(case Option.bind (checked_mul a 128) (\<lambda>v. checked_add v (ucast (b AND 0x7f :: byte))) of
      None \<Rightarrow> 2 ^ 64 \<le> unat (a :: u64) * 128 + unat b mod 128
    | Some v \<Rightarrow> unat v = unat a * 128 + unat b mod 128)"
proof (cases "checked_mul a 128")
  case None
  then have "2 ^ 64 \<le> unat a * 128" by (simp only: checked_simps) simp
  with None show ?thesis by simp
next
  case (Some m)
  then have m: "unat m = unat a * 128" by (simp only: checked_simps) simp
  have d: "unat (ucast (b AND 0x7f :: byte) :: u64) = unat b mod 128"
    by (simp add: byte_and_7f)
  show ?thesis
  proof (cases "checked_add m (ucast (b AND 0x7f))")
    case None
    then have "2 ^ 64 \<le> unat a * 128 + unat b mod 128" by (simp only: checked_simps m d) simp
    with Some None show ?thesis by simp
  next
    case v: (Some v)
    then have "unat v = unat a * 128 + unat b mod 128" by (simp only: checked_simps m d)
    with Some v show ?thesis by simp
  qed
qed

lemma byte_split: "unat b < 128 \<Longrightarrow> of_nat (unat b mod 128) = b"
  "\<not> unat b < 128 \<Longrightarrow> of_nat (unat b mod 128 + 128) = b" for b :: byte
proof -
  show "of_nat (unat b mod 128) = b" if "unat b < 128" using that by simp
  assume "\<not> unat b < 128"
  moreover have "n < 256 \<Longrightarrow> \<not> n < 128 \<Longrightarrow> n mod 128 + 128 = n" for n :: nat
    by (auto simp: mod_if)
  ultimately have "unat b mod 128 + 128 = unat b" using unat_byte [of b] by blast
  then show "of_nat (unat b mod 128 + 128) = b" by (simp only: of_nat_unat ucast_id)
qed

lemma cursor_step:
  assumes "wf_cursor r" "\<not> length (cur_bytes r) \<le> cur_at r"
  shows "reads r [cur_bytes r ! cur_at r] (r\<lparr>cur_at := cur_at r + 1\<rparr>)"
    and "wf_cursor (r\<lparr>cur_at := cur_at r + 1\<rparr>)"
proof -
  have "drop (cur_at r) (cur_bytes r) = cur_bytes r ! cur_at r # drop (Suc (cur_at r)) (cur_bytes r)"
    using assms(2) by (intro Cons_nth_drop_Suc [symmetric]) simp
  then show "reads r [cur_bytes r ! cur_at r] (r\<lparr>cur_at := cur_at r + 1\<rparr>)"
    by (simp add: reads_def rest_def advance_def)
  then show "wf_cursor (r\<lparr>cur_at := cur_at r + 1\<rparr>)" using assms(1) by (rule reads_wf [rotated])
qed

lemma read_var_int_from_sound:
  "wf_cursor r \<Longrightarrow> read_var_int_from a r = Inr (x, r') \<Longrightarrow>
     \<exists>ds. ds \<noteq> [] \<and> (\<forall>d \<in> set ds. d < 128) \<and> reads r (mark ds) r' \<and> unat x = vnat (unat a) ds"
proof (induction a r arbitrary: x r' rule: read_var_int_from.induct)
  case (1 a r)
  let ?b = "cur_bytes r ! cur_at r" and ?r = "r\<lparr>cur_at := cur_at r + 1\<rparr>"
  let ?o = "Option.bind (checked_mul a 128) (\<lambda>v. checked_add v (ucast (?b AND 0x7f)))"
  note run0 = "1.prems"(2) [unfolded read_var_int_from.simps [of a r]]
  from run0 have ne: "\<not> length (cur_bytes r) \<le> cur_at r"
    by (auto split: if_splits)
  note step = cursor_step [OF "1.prems"(1) ne]
  from run0 ne obtain v where v: "?o = Some v"
    and run: "(if ?b AND 0x80 = 0 then Inr (v, ?r)
      else rbind (ok_or (checked_add v 1) (malformed ''VARINT overflows u64'')) (\<lambda>v. read_var_int_from v ?r))
      = Inr (x, r')"
    by (simp only: if_False Let_def rbind_Inr_iff ok_or_Inr_iff) blast
  have uv: "unat v = unat a * 128 + unat ?b mod 128" using varint_digit [of a ?b] v by simp
  show ?case
  proof (cases "unat ?b < 128")
    case True
    with run have "x = v" "r' = ?r" by (simp_all add: byte_and_80)
    with step uv byte_split(1) [OF True] show ?thesis
      by (intro exI [of _ "[unat ?b mod 128]"]) simp
  next
    case False
    with run obtain w where w: "checked_add v 1 = Some w" "read_var_int_from w ?r = Inr (x, r')"
      by (auto simp: byte_and_80 rbind_Inr_iff ok_or_Inr_iff)
    have uw: "unat w = unat a * 128 + unat ?b mod 128 + 1"
      using w(1) uv by (simp add: checked_simps)
    have c: "\<not> ?b AND 0x80 = 0" using False by (simp add: byte_and_80)
    from "1.IH" [OF ne refl refl c step(2) w(2)] obtain ds where ds: "ds \<noteq> []"
      "\<forall>d \<in> set ds. d < 128" "reads ?r (mark ds) r'" "unat x = vnat (unat w) ds"
      by blast
    let ?d = "unat ?b mod 128"
    have "mark (?d # ds) = [?b] @ mark ds"
      using ds(1) byte_split(2) [OF False] by (cases ds) simp_all
    moreover have "vnat (unat a) (?d # ds) = vnat (unat w) ds"
      using ds(1) uw by (cases ds) simp_all
    ultimately show ?thesis
      using ds reads_append [OF step(1) ds(3)] by (intro exI [of _ "?d # ds"]) simp
  qed
qed

lemma of_nat_digit:
  "d < 128 \<Longrightarrow> unat (of_nat d :: byte) = d" "d < 128 \<Longrightarrow> unat (of_nat (d + 128) :: byte) = d + 128"
  by (subst unat_of_nat, simp)+

lemma read_var_int_from_complete:
  "wf_cursor r \<Longrightarrow> ds \<noteq> [] \<Longrightarrow> \<forall>d \<in> set ds. d < 128 \<Longrightarrow> vnat (unat a) ds < 2 ^ 64 \<Longrightarrow>
     rest r = mark ds @ suf \<Longrightarrow>
     \<exists>x r'. read_var_int_from a r = Inr (x, r') \<and> reads r (mark ds) r' \<and> unat x = vnat (unat a) ds"
proof (induction ds arbitrary: a r)
  case (Cons d ds)
  let ?b = "cur_bytes r ! cur_at r" and ?r = "r\<lparr>cur_at := cur_at r + 1\<rparr>"
  let ?o = "Option.bind (checked_mul a 128) (\<lambda>v. checked_add v (ucast (?b AND 0x7f)))"
  have b: "?b = of_nat (if ds = [] then d else d + 128)" and ne: "\<not> length (cur_bytes r) \<le> cur_at r"
    and rest': "rest ?r = (if ds = [] then [] else mark ds) @ suf"
  proof -
    have m: "rest r = of_nat (if ds = [] then d else d + 128) # ((if ds = [] then [] else mark ds) @ suf)"
      using Cons.prems(5) by (cases ds) simp_all
    then show ne: "\<not> length (cur_bytes r) \<le> cur_at r" by (auto simp: rest_def)
    note r = reads_rest [OF cursor_step(1) [OF Cons.prems(1) ne]]
    from r m show "?b = of_nat (if ds = [] then d else d + 128)"
      "rest ?r = (if ds = [] then [] else mark ds) @ suf" by simp_all
  qed
  note step = cursor_step [OF Cons.prems(1) ne]
  have d: "d < 128" using Cons.prems(3) by simp
  have ub: "unat ?b mod 128 = d" "unat ?b < 128 \<longleftrightarrow> ds = []"
    unfolding b using d of_nat_digit [OF d] by simp_all
  have le: "unat a * 128 + d \<le> vnat (unat a) (d # ds)"
    "ds \<noteq> [] \<Longrightarrow> unat a * 128 + d + 1 \<le> vnat (unat a) (d # ds)"
    using vnat_le [of "d # ds" "unat a"] by simp_all
  obtain v where v: "?o = Some v" "unat v = unat a * 128 + d"
    using varint_digit [of a ?b] le(1) Cons.prems(4) unfolding ub(1) by (cases ?o) auto
  have run: "read_var_int_from a r =
      (if ?b AND 0x80 = 0 then Inr (v, ?r)
       else rbind (ok_or (checked_add v 1) (malformed ''VARINT overflows u64'')) (\<lambda>v. read_var_int_from v ?r))"
    unfolding read_var_int_from.simps [of a r] using ne v(1) by (simp only: if_False Let_def ok_or_simps rbind_simps)
  show ?case
  proof (cases "ds = []")
    case True
    then have "read_var_int_from a r = Inr (v, ?r)" using run ub(2) by (simp add: byte_and_80)
    with True v(2) step(1) b show ?thesis by auto
  next
    case False
    have "unat v + unat (1 :: u64) < 2 ^ 64"
      using le(2) [OF False] v(2) Cons.prems(4) by simp
    then obtain w where w: "checked_add v 1 = Some w" by (auto simp: checked_add_def)
    then have uw: "unat w = unat a * 128 + d + 1" using v(2) by (simp add: checked_simps)
    have vn: "vnat (unat a) (d # ds) = vnat (unat w) ds" using False uw by (cases ds) simp_all
    have "rest ?r = mark ds @ suf" using rest' False by simp
    from Cons.IH [OF step(2) False _ _ this, of w] Cons.prems(3,4) vn
    obtain x r' where x: "read_var_int_from w ?r = Inr (x, r')" "reads ?r (mark ds) r'"
      "unat x = vnat (unat w) ds" by auto
    have "read_var_int_from a r = Inr (x, r')"
      using run False ub(2) w x(1) by (simp add: byte_and_80)
    moreover have "mark (d # ds) = [?b] @ mark ds" using False b by (cases ds) simp_all
    ultimately show ?thesis using reads_append [OF step(1) x(2)] x(3) vn by auto
  qed
qed simp

interpretation varint: codec_item var_int read_var_int "\<lambda>_. True"
proof -
  have "codec var_int read_var_int (\<lambda>_. True)"
  proof (rule codec_intro)
    fix r x r'
    assume "wf_cursor r" "read_var_int r = Inr (x, r')"
    then obtain ds where ds: "ds \<noteq> []" "\<forall>d \<in> set ds. d < 128" "reads r (mark ds) r'"
      "unat x = vnat 0 ds"
      unfolding read_var_int_def using read_var_int_from_sound [of r 0 x r'] by auto
    then have "groups (unat x) = ds" using groups_vnat [OF ds(1,2)] by simp
    with ds(3) show "True \<and> reads r (var_int x) r'" by (simp add: var_int_groups)
  next
    fix r x suf
    assume r: "wf_cursor r" "rest r = var_int x @ suf"
    have "\<exists>y r'. read_var_int_from 0 r = Inr (y, r') \<and> reads r (mark (groups (unat x))) r' \<and>
        unat y = vnat (unat (0 :: u64)) (groups (unat x))"
      using r groups_facts [of "unat x"] unat_bound [of x]
      by (intro read_var_int_from_complete) (simp_all add: var_int_groups)
    then show "\<exists>r'. read_var_int r = Inr (x, r') \<and> reads r (var_int x) r'"
      by (auto simp: read_var_int_def var_int_groups word_unat_eq_iff)
  qed
  then show "codec_item var_int read_var_int (\<lambda>_. True)"
    by (simp add: codec_item_def codec_item_axioms_def)
qed

section \<open>CompactSize is read back, and only its own encoding\<close>

text \<open>The two readers of the repository agree on what a CompactSize is.\<close>

lemma padded_from_le:
  "length bs = 2 \<Longrightarrow> u64_from_le (bs @ replicate 6 0) = ucast (u16_from_le bs)"
  "length bs = 4 \<Longrightarrow> u64_from_le (bs @ replicate 4 0) = ucast (u32_from_le bs)"
  by (simp_all only: word_unat_eq_iff unat_uN_from_le unat_ucast_u64 length_append length_replicate
      nat_of_le_zeros)

lemma take_slice_Inr:
  assumes "wf_cursor r"
  shows "take_slice n e r = Inr y \<longleftrightarrow> reader_take n r = Inr y"
  using assms by (cases y) (simp add: take_slice_iff reader_take_iff)

lemma take_slice_Inl: "take_slice n e r = Inl e' \<Longrightarrow> e' = e"
  by (simp add: take_slice_def split: if_splits)

lemma compact_branches:
  assumes wf: "wf_cursor r"
  shows "(if b = 0xfd then compact_fixed 2 0xfd r
      else if b = 0xfe then compact_fixed 4 (0xffff + 1) r
      else if b = 0xff then compact_fixed 8 (0xffffffff + 1) r
      else Inr (ucast b, r)) = Inr (v, r') \<longleftrightarrow> compact_value b r = Inr (v, r')"
proof -
  have m: "(65536 :: u64) \<le> n \<longleftrightarrow> \<not> n \<le> 0xffff" "(4294967296 :: u64) \<le> n \<longleftrightarrow> \<not> n \<le> 0xffffffff"
    for n by (simp_all add: word_le_nat_alt not_le Suc_le_eq [symmetric])
  have len: "reader_take n r = Inr (bs, r'') \<Longrightarrow> length bs = n" for n bs r''
    using wf by (simp add: reader_take_iff)
  have fixed: "compact_fixed w k r = Inr (v, r') \<longleftrightarrow>
      (\<exists>bs. reader_take w r = Inr (bs, r') \<and> v = u64_from_le (bs @ replicate (8 - w) 0) \<and> k \<le> v)" for w k
    unfolding compact_fixed_def rd_bind_Inr_iff take_slice_Inr [OF wf] by (auto simp: Let_def not_less)
  consider "b = 0xfd" | "b = 0xfe" | "b = 0xff" | "b \<noteq> 0xfd" "b \<noteq> 0xfe" "b \<noteq> 0xff" by blast
  then show ?thesis
    by cases (auto simp: fixed compact_value_def rd_bind_def m Let_def padded_from_le not_less len
        split: sum.splits if_splits)
qed

lemma read_compact_size_Inr:
  assumes "wf_cursor r"
  shows "read_compact_size r = Inr (v, r') \<longleftrightarrow>
    (\<exists>b suf. rest r = b # suf \<and> compact_value b (advance r 1) = Inr (v, r'))"
proof (cases "rest r")
  case Nil
  then show ?thesis using assms by (simp add: read_compact_size_def peek_rest)
next
  case (Cons b suf)
  then have wf: "wf_cursor (advance r 1)" using assms by (intro wf_advance) simp_all
  have r: "r\<lparr>cur_at := cur_at r + 1\<rparr> = advance r 1" by (simp add: advance_def)
  have "read_compact_size r = Inr (v, r') \<longleftrightarrow> compact_value b (advance r 1) = Inr (v, r')"
    unfolding compact_branches [OF wf, symmetric] using Cons assms
    by (simp only: read_compact_size_def peek_rest list.case ok_or_simps rbind_simps Let_def r)
  then show ?thesis using Cons by simp
qed

interpretation script_compact: codec_item compact_bytes read_compact_size "\<lambda>_. True"
proof -
  have "codec compact_bytes read_compact_size (\<lambda>_. True)"
  proof (rule codec_intro)
    fix r v r'
    assume r: "wf_cursor r" and "read_compact_size r = Inr (v, r')"
    then obtain b suf where b: "rest r = b # suf" "compact_value b (advance r 1) = Inr (v, r')"
      by (auto simp: read_compact_size_Inr)
    have wf: "wf_cursor (advance r 1)" using r b(1) by (intro wf_advance) simp_all
    from compact_value_sound [OF wf b(2)] obtain xs where
      xs: "compact_bytes v = b # xs" "r' = advance (advance r 1) (length xs)"
      "take (length xs) (rest (advance r 1)) = xs" by blast
    have "reads r [b] (advance r 1)" using b(1) by (simp add: reads_def)
    moreover have "reads (advance r 1) xs r'"
      using xs(2,3) unfolding reads_def by (metis advance_simps(3) append_take_drop_id)
    ultimately have "reads r ([b] @ xs) r'" by (rule reads_append)
    with xs(1) show "True \<and> reads r (compact_bytes v) r'" by simp
  next
    fix r v suf
    assume r: "wf_cursor r" "rest r = compact_bytes v @ suf"
    obtain b xs where b: "compact_bytes v = b # xs" by (cases "compact_bytes v") auto
    have wf: "wf_cursor (advance r 1)" using r b by (intro wf_advance) simp_all
    have "rest (advance r 1) = xs @ suf" using r(2) b by simp
    from compact_value_complete [OF wf b this]
    have "read_compact_size r = Inr (v, advance (advance r 1) (length xs))"
      using r b by (simp add: read_compact_size_Inr)
    moreover have "reads r (compact_bytes v) (advance (advance r 1) (length xs))"
      using r(2) b by (simp add: reads_def)
    ultimately show "\<exists>r'. read_compact_size r = Inr (v, r') \<and> reads r (compact_bytes v) r'" by blast
  qed
  then show "codec_item compact_bytes read_compact_size (\<lambda>_. True)"
    by (simp add: codec_item_def codec_item_axioms_def)
qed

section \<open>Token outputs\<close>

lemma token_version: "TOKEN_OUTPUT_VERSION_SINGLE AND TOKEN_OUTPUT_MULTIVALUE = 0"
  "TOKEN_OUTPUT_VERSION_SINGLE AND NOT TOKEN_OUTPUT_MULTIVALUE = 1"
  by (simp_all add: TOKEN_OUTPUT_VERSION_SINGLE_def TOKEN_OUTPUT_MULTIVALUE_def)

lemma parse_token_output_at_run:
  assumes "wf_cursor r" "length (currency_to_bytes c) = 20" "rest r = token_output c a @ suf"
  shows "parse_token_output_at hx r = Inr ([(c, a)], advance r (length (token_output c a)))"
proof -
  have p: "rest r = var_int TOKEN_OUTPUT_VERSION_SINGLE @ (currency_to_bytes c @ (var_int a @ suf))"
    using assms(3) by (simp add: token_output_def)
  obtain r1 where r1: "wf_cursor r1" "reads r (var_int TOKEN_OUTPUT_VERSION_SINGLE) r1"
    "rest r1 = currency_to_bytes c @ (var_int a @ suf)"
    "read_var_int r = Inr (TOKEN_OUTPUT_VERSION_SINGLE, r1)"
    by (rule varint.dec_run [OF assms(1) _ p]) simp
  obtain r2 where r2: "wf_cursor r2" "reads r1 (currency_to_bytes c) r2" "rest r2 = var_int a @ suf"
    "take_slice 20 (malformed ''TokenOutput ended before its currency id'') r1 = Inr (currency_to_bytes c, r2)"
    by (rule slice.dec_run [OF r1(1) assms(2) r1(3)])
  obtain r3 where r3: "wf_cursor r3" "reads r2 (var_int a) r3" "read_var_int r2 = Inr (a, r3)"
    by (rule varint.dec_run [OF r2(1) _ r2(3)]) simp
  have "r3 = advance r (length (token_output c a))"
    using reads_advance [OF reads_append [OF reads_append [OF r1(2) r2(2)] r3(2)]]
    by (simp add: token_output_def add.assoc)
  moreover have "currency_from_bytes (currency_to_bytes c) = c" by (simp add: currency_from_bytes_def)
  ultimately show ?thesis
    using r1(4) r2(4) r3(3) token_version
    by (simp add: parse_token_output_at_def rd_bind_def rd_return_def Let_def)
qed

lemma length_groups: "0 < k \<Longrightarrow> n < 128 ^ k \<Longrightarrow> length (groups n) \<le> k"
proof (induction n arbitrary: k rule: groups.induct)
  case (1 n)
  show ?case
  proof (cases "n < 128")
    case True
    then show ?thesis using "1.prems"(1) by (subst groups.simps) simp
  next
    case False
    then obtain j where k: "k = Suc j" "0 < j" using "1.prems" by (cases k; cases "k - 1") auto
    have "n div 128 < 128 ^ j" using "1.prems"(2) k by (simp add: less_mult_imp_div_less mult.commute)
    then have "length (groups (n div 128 - 1)) \<le> j" using "1.IH" [OF False k(2)] by simp
    with False k show ?thesis by (subst groups.simps) simp
  qed
qed

lemma length_mark: "length (mark ds) = length ds"
  by (induction ds rule: mark.induct) simp_all

lemma length_var_int: "length (var_int v) \<le> 10"
  unfolding var_int_groups length_mark
  by (rule length_groups) (use unat_u64 [of v] in simp_all)

section \<open>Properties\<close>

text \<open>
  VARINT.  \<open>read_var_int\<close> returns a value exactly when the bytes at the cursor are that
  value's \<open>var_int\<close> encoding, consuming just them: every 64-bit value round-trips in at most
  ten bytes, no other spelling of a value is accepted, and an encoding past 64 bits is
  refused rather than wrapped.
\<close>

theorem varint_exact:
  assumes "wf_cursor r"
  shows "(read_var_int r = Inr (v, r') \<longleftrightarrow>
      r' = advance r (length (var_int v)) \<and> rest r = var_int v @ rest r') \<and>
    length (var_int v) \<le> 10"
proof -
  have "read_var_int r = Inr (v, r') \<longleftrightarrow>
      r' = advance r (length (var_int v)) \<and> rest r = var_int v @ rest r'"
    using varint.dec_sound [OF assms] varint.dec_complete [OF assms] by blast
  then show ?thesis using length_var_int by blast
qed

lemma var_int_128: "var_int 128 = [0x80, 0x00]"
proof -
  have "groups 128 = [0, 0]" by (simp add: groups.simps [of 128] groups.simps [of 0])
  then show ?thesis by (simp add: var_int_groups)
qed

lemma varint_exact_witness:
  "read_var_int (cursor_new [0x80, 0x00, 7]) = Inr (128, advance (cursor_new [0x80, 0x00, 7]) 2)"
  using varint_exact [of "cursor_new [0x80, 0x00, 7]" 128 "advance (cursor_new [0x80, 0x00, 7]) 2"]
  by (simp add: var_int_128)

text \<open>
  Pushes.  Nonempty data that one push can hold is read back from what \<open>push_data\<close>
  appends, whatever follows; longer data is refused by the writer.  The reader is not the
  writer's exact inverse: it refuses the empty push the writer emits, and it accepts a
  longer opcode than needed, so two scripts can read as the same data.
\<close>

theorem push_read_back:
  assumes "length bs \<le> 65535" "length (push_bytes bs @ suf) < usize_bound"
  shows "push_data script bs = Inr (script @ push_bytes bs) \<and>
    (bs \<noteq> [] \<longrightarrow> take_push (cursor_new (push_bytes bs @ suf)) =
       Inr (bs, advance (cursor_new (push_bytes bs @ suf)) (length (push_bytes bs)))) \<and>
    push_data script [] = Inr (script @ [0]) \<and>
    take_push (cursor_new [0]) = Inl (malformed ''expected a data push, found opcode 0x00'') \<and>
    take_push (cursor_new [0x4c, 1, 9]) = Inr ([9], advance (cursor_new [0x4c, 1, 9]) 3) \<and>
    take_push (cursor_new [1, 9]) = Inr ([9], advance (cursor_new [1, 9]) 2)"
proof (intro conjI impI)
  show "push_data script bs = Inr (script @ push_bytes bs)" using assms(1) by (simp add: push_data_eq)
  show "take_push (cursor_new (push_bytes bs @ suf)) =
       Inr (bs, advance (cursor_new (push_bytes bs @ suf)) (length (push_bytes bs)))" if "bs \<noteq> []"
    using assms that by (intro take_push_run) simp_all
  show "push_data script [] = Inr (script @ [0])" by (simp add: push_data_eq push_bytes_def)
qed (simp_all add: take_push_def rd_bind_def take_opcode_def peek_def cursor_new_def push_length_def
      op_codes OP_PUSHDATA4_def malformed_def hex_byte_def hex_digit_def rd_fail_def rd_return_def
      take_slice_def advance_def char_of_eq_iff)

lemma push_read_back_witness:
  "take_push (cursor_new [2, 8, 9, 0x75]) = Inr ([8, 9], advance (cursor_new [2, 8, 9, 0x75]) 3)"
  using push_read_back [of "[8, 9]" "[0x75]" "[]"] by (simp add: push_bytes_def)

text \<open>
  Token outputs.  What \<open>token_output\<close> writes is parsed back as exactly that currency and
  amount, for every 64-bit amount, and any byte after it is refused.
\<close>

theorem token_output_roundtrip:
  assumes "length (currency_to_bytes c) = 20" "length suf < 1000"
  shows "parse_token_output hx (token_output c a @ suf) =
     (if suf = [] then Inr [(c, a)] else Inl (malformed ''trailing bytes after the TokenOutput''))"
proof -
  have "length (token_output c a) \<le> 40"
    using assms(1) length_var_int [of a] length_var_int [of TOKEN_OUTPUT_VERSION_SINGLE]
    by (simp add: token_output_def)
  then have "wf_cursor (cursor_new (token_output c a @ suf))" using assms(2) by simp
  from parse_token_output_at_run [OF this assms(1), of a suf hx]
  show ?thesis by (auto simp: parse_token_output_def refuse_if_def)
qed

lemma token_output_roundtrip_witness:
  "parse_token_output hex_string (token_output (CurrencyId (replicate 20 1)) 5) =
     Inr [(CurrencyId (replicate 20 1), 5)]"
  using token_output_roundtrip [of "CurrencyId (replicate 20 1)" "[]" hex_string 5] by simp

end
