(* ===== verification/Transparent.thy ===== *)
theory Transparent
  imports Fee Cc Wire_Sighash
begin

text \<open>
  The crate verus-tx-transparent: planning, assembling and signing transactions over
  P2PKH and CryptoCondition inputs (\<open>send.rs\<close>, \<open>assemble.rs\<close>).  The hash functions, the
  elliptic curve and the hex formatter are the fields of \<open>env\<close>.
\<close>

section \<open>The environment\<close>

record ('sk, 'vk, 'sg) env =
  env_hash :: hash_lib
  env_ec :: "('sk, 'vk, 'sg) ec_lib"
  env_blake2b :: blake2b
  env_hex :: "bytes \<Rightarrow> str"

text \<open>\<open>u8::try_from(n).expect(message)\<close>\<close>

definition expect_u8 :: "nat \<Rightarrow> str \<Rightarrow> tx_error + u8" where
  "expect_u8 n message = (if n < 256 then Inr (of_nat n) else Inl (Panic message))"

lemma expect_u8_Inr [result_simps]: "expect_u8 n e = Inr b \<longleftrightarrow> n < 256 \<and> b = of_nat n"
  by (auto simp: expect_u8_def)

section \<open>Signing P2PKH inputs (send.rs)\<close>

definition p2pkh_script_sig ::
  "('sk, 'vk, 'sg) env \<Rightarrow> 'sk private_key \<Rightarrow> bytes \<Rightarrow> bytes \<Rightarrow> tx_error + bytes" where
  "p2pkh_script_sig E key sighash pubkey =
     rbind (map_err Key (sign_prehash_der (env_ec E) key sighash 1)) (\<lambda>signature.
     rbind (expect_u8 (length signature) ''DER signature is under 76 bytes'') (\<lambda>n.
     rbind (expect_u8 (length pubkey) ''public key is 33 or 65 bytes'') (\<lambda>k.
     Inr ([n] @ signature @ [k] @ pubkey))))"

text \<open>\<open>tx.inputs[index].script_sig = s\<close>; the index has been checked by the sighash before.\<close>

definition set_script_sig :: "tx_v4 \<Rightarrow> nat \<Rightarrow> bytes \<Rightarrow> tx_v4" where
  "set_script_sig t index s =
     t\<lparr>tx_inputs := (tx_inputs t)[index := (tx_inputs t ! index)\<lparr>in_script_sig := s\<rparr>]\<rparr>"

definition check_p2pkh :: "utxo \<Rightarrow> tx_error + unit" where
  "check_p2pkh u =
     refuse_if (from_p2pkh_script_pubkey (utxo_script_pubkey u) = None)
       (UnsupportedFundingScript (to_display_hex (utxo_txid u)) (utxo_vout u))"

definition sighash_of ::
  "('sk, 'vk, 'sg) env \<Rightarrow> tx_v4 \<Rightarrow> nat \<Rightarrow> utxo \<Rightarrow> tx_error + bytes" where
  "sighash_of E t index u =
     map_err Wire (transparent_sighash (env_blake2b E) t VERUS_BRANCH_ID index (utxo_script_pubkey u)
       (to_sat (utxo_satoshis u)) SIGHASH_ALL)"

fun sign_p2pkh_from ::
  "('sk, 'vk, 'sg) env \<Rightarrow> 'sk private_key \<Rightarrow> bytes \<Rightarrow> nat \<Rightarrow> tx_v4 \<Rightarrow> utxo list \<Rightarrow> tx_error + tx_v4" where
  "sign_p2pkh_from E key pubkey index t [] = Inr t"
| "sign_p2pkh_from E key pubkey index t (u # us) =
     rbind (check_p2pkh u) (\<lambda>_.
     rbind (sighash_of E t index u) (\<lambda>sighash.
     rbind (p2pkh_script_sig E key sighash pubkey) (\<lambda>s.
     sign_p2pkh_from E key pubkey (Suc index) (set_script_sig t index s) us)))"

definition sign_p2pkh_inputs ::
  "('sk, 'vk, 'sg) env \<Rightarrow> tx_v4 \<Rightarrow> 'sk private_key \<Rightarrow> utxo list \<Rightarrow> tx_error + tx_v4" where
  "sign_p2pkh_inputs E t key prevouts =
     rbind (refuse_if (length prevouts \<noteq> length (tx_inputs t))
              (PrevoutCountMismatch (length (tx_inputs t)) (length prevouts))) (\<lambda>_.
     sign_p2pkh_from E key (public_to_bytes (env_ec E) (private_public_key (env_ec E) key)) 0 t prevouts)"

section \<open>Planning a send\<close>

record recipient =
  rcp_address :: address
  rcp_satoshis :: amount

record send_params =
  sp_utxos :: "utxo list"
  sp_recipients :: "recipient list"
  sp_change_address :: address
  sp_expiry :: expiry
  sp_fee_per_kb :: u64

definition send_params_new ::
  "utxo list \<Rightarrow> recipient list \<Rightarrow> address \<Rightarrow> expiry \<Rightarrow> send_params" where
  "send_params_new utxos recipients change_address expiry =
     \<lparr>sp_utxos = utxos, sp_recipients = recipients, sp_change_address = change_address,
      sp_expiry = expiry, sp_fee_per_kb = DEFAULT_FEE_PER_KB\<rparr>"

definition with_fee_per_kb :: "send_params \<Rightarrow> u64 \<Rightarrow> send_params" where
  "with_fee_per_kb p fee_per_kb = p\<lparr>sp_fee_per_kb := fee_per_kb\<rparr>"

record signed_transaction =
  st_hex :: str
  st_txid :: str
  st_fee :: amount
  st_change :: amount
  st_inputs_used :: "(txid \<times> u32) list"

record transparent_plan =
  pl_selected :: "utxo list"
  pl_outputs :: "tx_out list"
  pl_fee :: amount
  pl_change :: amount
  pl_expiry :: expiry
  pl_lock_time :: u32

text \<open>The loop over the recipients: kinds, zero values and the checked total.\<close>

fun check_recipients :: "nat \<Rightarrow> u64 \<Rightarrow> bool \<Rightarrow> recipient list \<Rightarrow> tx_error + u64 \<times> bool" where
  "check_recipients index required smart [] = Inr (required, smart)"
| "check_recipients index required smart (r # rs) =
     rbind (case addr_kind (rcp_address r) of
              PubKeyHash \<Rightarrow> Inr smart
            | Identity \<Rightarrow> Inr True
            | ScriptHash \<Rightarrow> Inl UnsupportedRecipient) (\<lambda>smart.
     rbind (refuse_if (amount_is_zero (rcp_satoshis r)) (ZeroValueOutput index)) (\<lambda>_.
     rbind (ok_or (checked_add required (to_sat (rcp_satoshis r))) ValueOverflow) (\<lambda>required.
     check_recipients (Suc index) required smart rs)))"

definition recipient_output :: "recipient \<Rightarrow> tx_error + tx_out" where
  "recipient_output r =
     rbind (if addr_kind (rcp_address r) = Identity
            then identity_payment_script (addr_hash (rcp_address r))
            else map_err Key (p2pkh_script_pubkey (rcp_address r))) (\<lambda>script.
     Inr \<lparr>out_value = to_sat (rcp_satoshis r), out_script_pubkey = script\<rparr>)"

text \<open>\<open>.sum()\<close> of a \<open>u64\<close> iterator, wrapping as it does without overflow checks.\<close>

definition wrapping_sum :: "u64 list \<Rightarrow> u64" where
  "wrapping_sum vs = foldl (+) 0 vs"

definition check_conserved :: "u64 \<Rightarrow> u64 \<Rightarrow> u64 \<Rightarrow> tx_error + unit" where
  "check_conserved inputs_total outputs_total expected =
     (let actual = uint inputs_total - uint outputs_total in
      refuse_if (actual \<noteq> uint expected) (ValueNotConserved inputs_total outputs_total actual expected))"

definition plan_transparent_send :: "send_params \<Rightarrow> tx_error + transparent_plan" where
  "plan_transparent_send p =
     rbind (refuse_if (sp_recipients p = []) NoOutputs) (\<lambda>_.
     rbind (expiry_check (sp_expiry p)) (\<lambda>_.
     rbind (rmap check_p2pkh (sp_utxos p)) (\<lambda>_.
     rbind (check_recipients 0 0 False (sp_recipients p)) (\<lambda>(required_native, has_smart_outputs).
     rbind (select_utxos (sp_utxos p) required_native (of_nat (length (sp_recipients p)))
              (sp_fee_per_kb p) has_smart_outputs) (\<lambda>s.
     rbind (rmap recipient_output (sp_recipients p)) (\<lambda>outputs.
     rbind (if 0 < sel_change s
            then rbind (map_err Key (p2pkh_script_pubkey (sp_change_address p))) (\<lambda>script.
              Inr (outputs @ [\<lparr>out_value = sel_change s, out_script_pubkey = script\<rparr>]))
            else Inr outputs) (\<lambda>outputs.
     rbind (check_conserved (wrapping_sum (map (to_sat \<circ> utxo_satoshis) (sel_selected s)))
              (wrapping_sum (map out_value outputs)) (sel_fee s)) (\<lambda>_.
     Inr \<lparr>pl_selected = sel_selected s, pl_outputs = outputs, pl_fee = from_sat (sel_fee s),
          pl_change = from_sat (sel_change s), pl_expiry = sp_expiry p, pl_lock_time = 0\<rparr>))))))))"

definition unsigned_tx :: "utxo list \<Rightarrow> tx_out list \<Rightarrow> u32 \<Rightarrow> u32 \<Rightarrow> tx_v4" where
  "unsigned_tx inputs outputs lock_time expiry_height =
     tx_default\<lparr>
       tx_inputs := map (\<lambda>u. tx_in_unsigned (to_internal (utxo_txid u)) (utxo_vout u) 0xffffffff) inputs,
       tx_outputs := outputs, tx_lock_time := lock_time, tx_expiry_height := expiry_height\<rparr>"

definition signed_transaction_of ::
  "('sk, 'vk, 'sg) env \<Rightarrow> tx_v4 \<Rightarrow> amount \<Rightarrow> amount \<Rightarrow> utxo list \<Rightarrow> tx_error + signed_transaction" where
  "signed_transaction_of E t fee change inputs =
     rbind (map_err Wire (serialize t)) (\<lambda>raw.
     rbind (map_err Wire (tx_txid (hl_sha256 (env_hash E)) t)) (\<lambda>txid.
     Inr \<lparr>st_hex = env_hex E raw, st_txid = txid_display txid, st_fee = fee, st_change = change,
          st_inputs_used = map (\<lambda>u. (utxo_txid u, utxo_vout u)) inputs\<rparr>))"

definition build_transparent_send ::
  "('sk, 'vk, 'sg) env \<Rightarrow> 'sk private_key \<Rightarrow> send_params \<Rightarrow> tx_error + signed_transaction" where
  "build_transparent_send E key p =
     rbind (plan_transparent_send p) (\<lambda>plan.
     let t = unsigned_tx (pl_selected plan) (pl_outputs plan) (pl_lock_time plan) (to_height (pl_expiry plan)) in
     rbind (sign_p2pkh_inputs E t key (pl_selected plan)) (\<lambda>t.
     signed_transaction_of E t (pl_fee plan) (pl_change plan) (pl_selected plan)))"

section \<open>Assembling mixed transactions (assemble.rs)\<close>

record assembly =
  as_leading :: "utxo list"
  as_funding :: "utxo list"
  as_outputs :: "tx_out list"
  as_burn :: amount
  as_fee_output_count :: u64
  as_change_address :: address
  as_change_script :: "bytes option"
  as_value_bearing_leading :: bool
  as_expiry :: expiry
  as_fee_per_kb :: u64

text \<open>The fulfillment signatures of one leading input, one per key.\<close>

definition leading_signature ::
  "('sk, 'vk, 'sg) env \<Rightarrow> bytes \<Rightarrow> 'sk private_key \<Rightarrow> tx_error + bytes \<times> bytes" where
  "leading_signature E sighash key =
     rbind (map_err Key (sign_prehash_compact (env_ec E) key sighash)) (\<lambda>signature.
     Inr (public_to_bytes (env_ec E) (private_public_key (env_ec E) key), signature))"

definition script_sig_for ::
  "('sk, 'vk, 'sg) env \<Rightarrow> 'sk private_key \<Rightarrow> 'sk private_key list \<Rightarrow> bytes \<Rightarrow> nat \<Rightarrow> nat \<Rightarrow> bytes
    \<Rightarrow> tx_error + bytes" where
  "script_sig_for E funding_key leading_keys funding_pubkey leading index sighash =
     (if index < leading
      then rbind (rmap (leading_signature E sighash) leading_keys) (\<lambda>signatures.
        fulfillment_script_sig signatures (ucast SIGHASH_ALL))
      else p2pkh_script_sig E funding_key sighash funding_pubkey)"

fun sign_inputs_from ::
  "('sk, 'vk, 'sg) env \<Rightarrow> 'sk private_key \<Rightarrow> 'sk private_key list \<Rightarrow> bytes \<Rightarrow> nat \<Rightarrow> nat \<Rightarrow> tx_v4 \<Rightarrow> utxo list
    \<Rightarrow> tx_error + tx_v4" where
  "sign_inputs_from E funding_key leading_keys pubkey leading index t [] = Inr t"
| "sign_inputs_from E funding_key leading_keys pubkey leading index t (u # us) =
     rbind (sighash_of E t index u) (\<lambda>sighash.
     rbind (script_sig_for E funding_key leading_keys pubkey leading index sighash) (\<lambda>s.
     sign_inputs_from E funding_key leading_keys pubkey leading (Suc index) (set_script_sig t index s) us))"

definition sign_inputs ::
  "('sk, 'vk, 'sg) env \<Rightarrow> tx_v4 \<Rightarrow> 'sk private_key \<Rightarrow> 'sk private_key list \<Rightarrow> utxo list \<Rightarrow> nat \<Rightarrow> tx_error + tx_v4" where
  "sign_inputs E t funding_key leading_keys prevouts leading =
     rbind (refuse_if (0 < leading \<and> leading_keys = []) NoSignatures) (\<lambda>_.
     sign_inputs_from E funding_key leading_keys
       (public_to_bytes (env_ec E) (private_public_key (env_ec E) funding_key)) leading 0 t prevouts)"

definition check_leading_valueless :: "utxo \<Rightarrow> tx_error + unit" where
  "check_leading_valueless u =
     refuse_if (\<not> amount_is_zero (utxo_satoshis u))
       (LeadingInputCarriesValue (to_display_hex (utxo_txid u)) (utxo_vout u) (to_sat (utxo_satoshis u)))"

text \<open>The guards of a value-bearing plan.\<close>

definition check_value_bearing :: "assembly \<Rightarrow> tx_error + unit" where
  "check_value_bearing plan =
     rbind (refuse_if (as_change_script plan = None) MissingChangeScript) (\<lambda>_.
     rbind (refuse_if (as_funding plan \<noteq> []) MixedFunding) (\<lambda>_.
     case first_duplicate [] (as_leading plan) of
       Some u \<Rightarrow> Inl (DuplicateUtxo (to_display_hex (utxo_txid u)) (utxo_vout u))
     | None \<Rightarrow> Inr ()))"

text \<open>The three branches that produce the selected inputs, the fee and the change.\<close>

definition choose_funding :: "assembly \<Rightarrow> u64 \<Rightarrow> u64 \<Rightarrow> tx_error + utxo list \<times> u64 \<times> u64" where
  "choose_funding plan required leading_total =
     (if required \<le> leading_total \<and> as_value_bearing_leading plan then
        let excess = leading_total - required in
        rbind (estimate_fee (of_nat (length (as_leading plan))) (as_fee_output_count plan)
                 (as_fee_per_kb plan) True) (\<lambda>fee.
        rbind (check_fee_ceiling fee) (\<lambda>_.
        if excess < fee then
          rbind (ok_or (checked_add required fee) ValueOverflow) (\<lambda>needed.
          Inl (InsufficientFunds needed leading_total))
        else
          let change = excess - fee in
          Inr (if change \<le> DUST_THRESHOLD then ([], fee + change, 0) else ([], fee, change))))
      else if as_value_bearing_leading plan then
        rbind (estimate_fee (of_nat (length (as_leading plan))) (as_fee_output_count plan)
                 (as_fee_per_kb plan) True) (\<lambda>fee.
        rbind (ok_or (checked_add required fee) ValueOverflow) (\<lambda>needed.
        Inl (InsufficientFunds needed leading_total)))
      else
        rbind (select_utxos (as_funding plan) required (as_fee_output_count plan) (as_fee_per_kb plan) True)
          (\<lambda>s. Inr (sel_selected s, sel_fee s, sel_change s)))"

definition change_output :: "assembly \<Rightarrow> u64 \<Rightarrow> tx_error + tx_out list" where
  "change_output plan change =
     (if 0 < change then
        rbind (case as_change_script plan of
                 Some script \<Rightarrow> Inr script
               | None \<Rightarrow> map_err Key (p2pkh_script_pubkey (as_change_address plan))) (\<lambda>script.
        Inr [\<lparr>out_value = change, out_script_pubkey = script\<rparr>])
      else Inr [])"

text \<open>
  \<open>assemble\<close> up to the signatures: the unsigned transaction, its inputs, the declared fee
  (miner fee and burn) and the change.
\<close>

definition assemble_unsigned :: "assembly \<Rightarrow> tx_error + tx_v4 \<times> utxo list \<times> u64 \<times> u64" where
  "assemble_unsigned plan =
     rbind (if as_value_bearing_leading plan then Inr []
            else rmap check_leading_valueless (as_leading plan)) (\<lambda>_.
     rbind (check_burn_ceiling (to_sat (as_burn plan))) (\<lambda>_.
     rbind (ok_or (amount_checked_sum (map (from_sat \<circ> out_value) (as_outputs plan))) ValueOverflow)
       (\<lambda>declared.
     rbind (ok_or (checked_add (to_sat declared) (to_sat (as_burn plan))) ValueOverflow) (\<lambda>required.
     rbind (ok_or (amount_checked_sum (map utxo_satoshis (as_leading plan))) ValueOverflow) (\<lambda>leading_sum.
     let leading_total = to_sat leading_sum in
     rbind (if as_value_bearing_leading plan then check_value_bearing plan else Inr ()) (\<lambda>_.
     rbind (choose_funding plan required leading_total) (\<lambda>(selected, fee, change).
     rbind (change_output plan change) (\<lambda>change_outputs.
     let outputs = as_outputs plan @ change_outputs;
         inputs = as_leading plan @ selected;
         t = unsigned_tx inputs outputs 0 (to_height (as_expiry plan)) in
     rbind (ok_or (amount_checked_sum (map utxo_satoshis inputs)) ValueOverflow) (\<lambda>inputs_total.
     rbind (ok_or (amount_checked_sum (map (from_sat \<circ> out_value) outputs)) ValueOverflow) (\<lambda>outputs_total.
     let expected = fee + to_sat (as_burn plan) in
     rbind (check_conserved (to_sat inputs_total) (to_sat outputs_total) expected) (\<lambda>_.
     Inr (t, inputs, expected, change))))))))))))"

definition assemble ::
  "('sk, 'vk, 'sg) env \<Rightarrow> 'sk private_key \<Rightarrow> 'sk private_key list \<Rightarrow> assembly \<Rightarrow> tx_error + signed_transaction" where
  "assemble E funding_key leading_keys plan =
     rbind (assemble_unsigned plan) (\<lambda>(t, inputs, expected, change).
     rbind (sign_inputs E t funding_key leading_keys inputs (length (as_leading plan))) (\<lambda>t.
     signed_transaction_of E t (from_sat expected) (from_sat change) inputs))"

definition check_expiry :: "expiry \<Rightarrow> tx_error + unit" where
  "check_expiry e = expiry_check e"

definition check_p2pkh_funding :: "utxo list \<Rightarrow> tx_error + unit" where
  "check_p2pkh_funding utxos = rbind (rmap check_p2pkh utxos) (\<lambda>_. Inr ())"

section \<open>Sums and conservation\<close>

definition total_value :: "tx_out list \<Rightarrow> nat" where
  "total_value outs = (\<Sum>out \<leftarrow> outs. unat (out_value out))"

lemma total_value_simps [simp]:
  "total_value [] = 0" "total_value (out # outs) = unat (out_value out) + total_value outs"
  "total_value (xs @ ys) = total_value xs + total_value ys"
  by (simp_all add: total_value_def)

lemma total_sats_values: "total_sats (map (from_sat \<circ> out_value) outs) = total_value outs"
  by (simp add: total_sats_def total_value_def from_sat_def comp_def)

lemma unat_wrapping_sum: "unat (wrapping_sum vs) = sum_list (map unat vs) mod 2 ^ 64"
proof -
  have "unat (foldl (+) a vs) = (unat a + sum_list (map unat vs)) mod 2 ^ 64" for a :: u64
  proof (induction vs arbitrary: a)
    case Nil
    show ?case using unat_u64 [of a] by simp
  next
    case (Cons v vs)
    have "unat (foldl (+) (a + v) vs) = (unat (a + v) + sum_list (map unat vs)) mod 2 ^ 64"
      by (rule Cons.IH)
    also have "\<dots> = ((unat a + unat v) mod 2 ^ 64 + sum_list (map unat vs)) mod 2 ^ 64"
      by (simp add: unat_word_ariths)
    also have "\<dots> = (unat a + unat v + sum_list (map unat vs)) mod 2 ^ 64"
      by (rule mod_add_left_eq)
    finally show ?case by (simp add: add.assoc)
  qed
  then show ?thesis by (simp add: wrapping_sum_def)
qed

lemma wrapping_sum_utxos:
  "utxo_total us < 2 ^ 64 \<Longrightarrow> unat (wrapping_sum (map (to_sat \<circ> utxo_satoshis) us)) = utxo_total us"
  unfolding unat_wrapping_sum by (simp add: total_sats_def comp_def)

lemma wrapping_sum_outputs:
  "total_value outs < 2 ^ 64 \<Longrightarrow> unat (wrapping_sum (map out_value outs)) = total_value outs"
  unfolding unat_wrapping_sum by (simp add: total_value_def comp_def)

lemma check_conserved_Inr:
  "check_conserved i out expected = Inr u \<longleftrightarrow> unat i = unat out + unat expected"
proof -
  have "uint i - uint out = uint expected \<longleftrightarrow> int (unat i) = int (unat out + unat expected)"
    unfolding uint_nat by linarith
  then show ?thesis unfolding check_conserved_def Let_def refuse_if_Inr_iff of_nat_eq_iff by simp
qed

section \<open>Plans\<close>

lemma check_p2pkh_Inr [result_simps]:
  "check_p2pkh u = Inr x \<longleftrightarrow> from_p2pkh_script_pubkey (utxo_script_pubkey u) \<noteq> None"
  by (simp add: check_p2pkh_def result_simps)

definition recipients_total :: "recipient list \<Rightarrow> nat" where
  "recipients_total rs = total_sats (map rcp_satoshis rs)"

definition payable :: "recipient \<Rightarrow> bool" where
  "payable r \<longleftrightarrow> addr_kind (rcp_address r) \<noteq> ScriptHash \<and> \<not> amount_is_zero (rcp_satoshis r)"

definition pays_identity :: "recipient \<Rightarrow> bool" where
  "pays_identity r \<longleftrightarrow> addr_kind (rcp_address r) = Identity"

lemma recipients_total_simps [simp]:
  "recipients_total [] = 0" "recipients_total (r # rs) = sats (rcp_satoshis r) + recipients_total rs"
  by (simp_all add: recipients_total_def)

lemma check_recipients_Inr:
  "check_recipients i required smart rs = Inr (tot, smart') \<longleftrightarrow>
     list_all payable rs \<and> unat required + recipients_total rs < 2 ^ 64 \<and>
     unat tot = unat required + recipients_total rs \<and> smart' = (smart \<or> list_ex pays_identity rs)"
proof (induction rs arbitrary: i required smart)
  case Nil
  then show ?case using unat_bound [of required] by (auto simp: word_unat_eq_iff)
next
  case (Cons r rs)
  have step: "check_recipients i required smart (r # rs) = Inr (tot, smart') \<longleftrightarrow>
      payable r \<and> (\<exists>n. checked_add required (to_sat (rcp_satoshis r)) = Some n \<and>
        check_recipients (Suc i) n (smart \<or> pays_identity r) rs = Inr (tot, smart'))"
    by (cases "addr_kind (rcp_address r)")
      (auto simp: rbind_Inr_iff refuse_if_Inr_iff ok_or_Inr_iff payable_def pays_identity_def)
  show ?case
  proof (cases "checked_add required (to_sat (rcp_satoshis r))")
    case None
    then have "2 ^ 64 \<le> unat required + sats (rcp_satoshis r)" by (simp only: checked_simps) simp
    with None step show ?thesis by simp
  next
    case (Some n)
    then have "unat n = unat required + sats (rcp_satoshis r)" by (simp only: checked_simps)
    with Some step Cons.IH [of "Suc i" n] show ?thesis by (auto simp: add.assoc)
  qed
qed

lemma recipient_output_Inr:
  assumes "payable r" "wf_address (rcp_address r)"
  obtains out where "recipient_output r = Inr out" "out_value out = to_sat (rcp_satoshis r)"
proof -
  have "\<exists>s. identity_payment_script (addr_hash (rcp_address r)) = Inr s"
    using assms(2)
    by (auto simp: identity_payment_script_def cc_script_Inr to_chunk_Inr one_of_one_def tagged_def
        wf_address_def push_bytes_def)
  then show thesis
    using that assms(1)
    by (cases "addr_kind (rcp_address r)")
      (auto simp: recipient_output_def payable_def p2pkh_script_pubkey_def)
qed

lemma recipient_output_value: "recipient_output r = Inr out \<Longrightarrow> out_value out = to_sat (rcp_satoshis r)"
  by (auto simp: recipient_output_def rbind_Inr_iff)

lemma recipient_outputs_total:
  "rmap recipient_output rs = Inr outs \<Longrightarrow> total_value outs = recipients_total rs"
  by (induction rs arbitrary: outs) (auto simp: rbind_Inr_iff dest!: recipient_output_value)

definition plan_outputs :: "send_params \<Rightarrow> tx_out list \<Rightarrow> u64 \<Rightarrow> tx_error + tx_out list" where
  "plan_outputs p outputs change =
     (if 0 < change
      then rbind (map_err Key (p2pkh_script_pubkey (sp_change_address p))) (\<lambda>script.
        Inr (outputs @ [\<lparr>out_value = change, out_script_pubkey = script\<rparr>]))
      else Inr outputs)"

lemma plan_outputs_total:
  "plan_outputs p outputs change = Inr outs \<Longrightarrow> total_value outs = total_value outputs + unat change"
  by (auto simp: plan_outputs_def rbind_Inr_iff word_less_nat_alt split: if_splits)

text \<open>The conservation check of a plan always passes.\<close>

lemma plan_conserved:
  assumes "check_recipients 0 0 False (sp_recipients p) = Inr (required, smart)"
    and "select_utxos (sp_utxos p) required outs_count rate smart = Inr s"
    and "rmap recipient_output (sp_recipients p) = Inr outs0"
    and "plan_outputs p outs0 (sel_change s) = Inr outs"
  shows "utxo_total (sel_selected s) = total_value outs + unat (sel_fee s)"
    and "check_conserved (wrapping_sum (map (to_sat \<circ> utxo_satoshis) (sel_selected s)))
      (wrapping_sum (map out_value outs)) (sel_fee s) = Inr ()"
proof -
  from assms(2) have sel: "utxo_total (sel_selected s) < 2 ^ 64"
    "utxo_total (sel_selected s) = unat required + unat (sel_fee s) + unat (sel_change s)"
    by (auto elim!: select_utxos_Inr)
  have "unat required = recipients_total (sp_recipients p)"
    using assms(1) by (simp add: check_recipients_Inr)
  then have "total_value outs = unat required + unat (sel_change s)"
    using plan_outputs_total [OF assms(4)] recipient_outputs_total [OF assms(3)] by simp
  with sel show c: "utxo_total (sel_selected s) = total_value outs + unat (sel_fee s)" by simp
  then have "total_value outs < 2 ^ 64" using sel(1) by simp
  then show "check_conserved (wrapping_sum (map (to_sat \<circ> utxo_satoshis) (sel_selected s)))
      (wrapping_sum (map out_value outs)) (sel_fee s) = Inr ()"
    unfolding check_conserved_Inr wrapping_sum_utxos [OF sel(1)] using c
    by (simp only: wrapping_sum_outputs)
qed

definition all_p2pkh :: "utxo list \<Rightarrow> bool" where
  "all_p2pkh us \<longleftrightarrow> list_all (\<lambda>u. from_p2pkh_script_pubkey (utxo_script_pubkey u) \<noteq> None) us"

lemma rmap_check_p2pkh: "(\<exists>xs. rmap check_p2pkh us = Inr xs) \<longleftrightarrow> all_p2pkh us"
  by (induction us) (auto simp: all_p2pkh_def rbind_Inr_iff result_simps)

text \<open>A run of the planner up to the conservation check, which \<open>plan_conserved\<close> passes.\<close>

definition plan_run :: "send_params \<Rightarrow> selection \<Rightarrow> tx_out list \<Rightarrow> tx_out list \<Rightarrow> bool" where
  "plan_run p s outs0 outs \<longleftrightarrow>
     sp_recipients p \<noteq> [] \<and> expiry_check (sp_expiry p) = Inr () \<and> all_p2pkh (sp_utxos p) \<and>
     (\<exists>required smart. check_recipients 0 0 False (sp_recipients p) = Inr (required, smart) \<and>
        select_utxos (sp_utxos p) required (of_nat (length (sp_recipients p))) (sp_fee_per_kb p) smart = Inr s) \<and>
     rmap recipient_output (sp_recipients p) = Inr outs0 \<and>
     plan_outputs p outs0 (sel_change s) = Inr outs"

definition plan_result :: "send_params \<Rightarrow> selection \<Rightarrow> tx_out list \<Rightarrow> transparent_plan" where
  "plan_result p s outs =
     \<lparr>pl_selected = sel_selected s, pl_outputs = outs, pl_fee = from_sat (sel_fee s),
      pl_change = from_sat (sel_change s), pl_expiry = sp_expiry p, pl_lock_time = 0\<rparr>"

lemma plan_Inr:
  "plan_transparent_send p = Inr pl \<longleftrightarrow>
     (\<exists>s outs0 outs. plan_run p s outs0 outs \<and> pl = plan_result p s outs)"
proof
  assume "plan_transparent_send p = Inr pl"
  then show "\<exists>s outs0 outs. plan_run p s outs0 outs \<and> pl = plan_result p s outs"
    unfolding plan_transparent_send_def plan_outputs_def [symmetric]
    by (auto simp: rbind_Inr_iff refuse_if_Inr_iff plan_run_def plan_result_def
        rmap_check_p2pkh [symmetric] split: prod.splits)
next
  assume "\<exists>s outs0 outs. plan_run p s outs0 outs \<and> pl = plan_result p s outs"
  then obtain s outs0 outs required smart xs where r: "sp_recipients p \<noteq> []" "expiry_check (sp_expiry p) = Inr ()"
    "rmap check_p2pkh (sp_utxos p) = Inr xs"
    "check_recipients 0 0 False (sp_recipients p) = Inr (required, smart)"
    "select_utxos (sp_utxos p) required (of_nat (length (sp_recipients p))) (sp_fee_per_kb p) smart = Inr s"
    "rmap recipient_output (sp_recipients p) = Inr outs0" "plan_outputs p outs0 (sel_change s) = Inr outs"
    "pl = plan_result p s outs"
    by (auto simp: plan_run_def rmap_check_p2pkh [symmetric])
  show "plan_transparent_send p = Inr pl"
    unfolding plan_transparent_send_def plan_outputs_def [symmetric] plan_result_def [symmetric]
    using r plan_conserved [OF r(4,5,6,7)] by simp
qed

lemma plan_never_unconserved: "plan_transparent_send p \<noteq> Inl (ValueNotConserved a b c d)"
proof
  assume e: "plan_transparent_send p = Inl (ValueNotConserved a b c d)"
  have none: "select_utxos us r n f m \<noteq> Inl (ValueNotConserved a b c d)" for us r n f m
    using select_utxos_Inl by fastforce
  have kinds: "check_recipients i r m rs \<noteq> Inl (ValueNotConserved a b c d)" for i r m rs
    by (induction rs arbitrary: i r m)
      (auto simp: rbind_Inl_iff refuse_if_def ok_or_def split: address_kind.splits option.splits if_splits)
  have push: "push_all c0 ds \<noteq> Inl (ValueNotConserved a b c d)" for c0 ds
    by (induction ds arbitrary: c0) (auto simp: rbind_Inl_iff push_data_eq)
  have chunk: "to_chunk x \<noteq> Inl (ValueNotConserved a b c d)" for x
    by (auto simp: to_chunk_def rbind_Inl_iff push push_data_eq)
  have out1: "recipient_output r \<noteq> Inl (ValueNotConserved a b c d)" for r
    by (auto simp: recipient_output_def rbind_Inl_iff identity_payment_script_def cc_script_def chunk
        push_data_eq map_err_def p2pkh_script_pubkey_def Let_def split: sum.splits if_splits)
  have outs: "rmap recipient_output rs \<noteq> Inl (ValueNotConserved a b c d)" for rs
    by (induction rs) (auto simp: rbind_Inl_iff out1)
  have change: "plan_outputs p o0 x \<noteq> Inl (ValueNotConserved a b c d)" for o0 x
    by (auto simp: plan_outputs_def rbind_Inl_iff map_err_def split: sum.splits if_splits)
  have exp: "expiry_check y \<noteq> Inl (ValueNotConserved a b c d)" for y by (cases y) auto
  have fund: "rmap check_p2pkh us \<noteq> Inl (ValueNotConserved a b c d)" for us
    by (induction us) (auto simp: rbind_Inl_iff check_p2pkh_def refuse_if_def)
  obtain required smart s outs0 outs where
    "check_recipients 0 0 False (sp_recipients p) = Inr (required, smart)"
    "select_utxos (sp_utxos p) required (of_nat (length (sp_recipients p))) (sp_fee_per_kb p) smart = Inr s"
    "rmap recipient_output (sp_recipients p) = Inr outs0" "plan_outputs p outs0 (sel_change s) = Inr outs"
    "check_conserved (wrapping_sum (map (to_sat \<circ> utxo_satoshis) (sel_selected s)))
      (wrapping_sum (map out_value outs)) (sel_fee s) \<noteq> Inr ()"
    using e unfolding plan_transparent_send_def plan_outputs_def [symmetric]
    by (auto simp: rbind_Inl_iff none kinds outs change exp fund refuse_if_def split: if_splits)
  with plan_conserved(2) show False by blast
qed

section \<open>Signing\<close>

text \<open>Setting an unlocking script changes no signature hash.\<close>

lemma strip_set_script_sig [simp]: "strip_scripts (set_script_sig t n s) = strip_scripts t"
proof -
  have "map (\<lambda>i. i\<lparr>in_script_sig := []\<rparr>) (is[n := (is ! n)\<lparr>in_script_sig := s\<rparr>])
      = map (\<lambda>i. i\<lparr>in_script_sig := []\<rparr>) is" for "is" :: "tx_in list"
  proof (rule nth_equalityI)
    fix i
    assume "i < length (map (\<lambda>i. i\<lparr>in_script_sig := []\<rparr>) (is[n := (is ! n)\<lparr>in_script_sig := s\<rparr>]))"
    then show "map (\<lambda>i. i\<lparr>in_script_sig := []\<rparr>) (is[n := (is ! n)\<lparr>in_script_sig := s\<rparr>]) ! i
        = map (\<lambda>i. i\<lparr>in_script_sig := []\<rparr>) is ! i"
      by (cases "i = n") simp_all
  qed simp
  then show ?thesis by (simp add: strip_scripts_def set_script_sig_def)
qed

lemma set_script_sig_inputs:
  "length (tx_inputs (set_script_sig t n s)) = length (tx_inputs t)"
  "n < length (tx_inputs t) \<Longrightarrow> in_script_sig (tx_inputs (set_script_sig t n s) ! n) = s"
  "m \<noteq> n \<Longrightarrow> tx_inputs (set_script_sig t n s) ! m = tx_inputs t ! m"
  by (simp_all add: set_script_sig_def)

lemma sighash_of_strip: "strip_scripts t = strip_scripts t' \<Longrightarrow> sighash_of E t n u = sighash_of E t' n u"
  unfolding sighash_of_def by (metis transparent_sighash_strip)

text \<open>Both signing loops, as one: \<open>script_for\<close> makes the script of input \<open>n\<close> from its sighash.\<close>

fun sign_from ::
  "(nat \<Rightarrow> utxo \<Rightarrow> tx_v4 \<Rightarrow> tx_error + bytes) \<Rightarrow> (nat \<Rightarrow> bytes \<Rightarrow> tx_error + bytes) \<Rightarrow> nat \<Rightarrow> tx_v4
    \<Rightarrow> utxo list \<Rightarrow> tx_error + tx_v4" where
  "sign_from sighash script_for n t [] = Inr t"
| "sign_from sighash script_for n t (u # us) =
     rbind (sighash n u t) (\<lambda>h. rbind (script_for n h) (\<lambda>s.
     sign_from sighash script_for (Suc n) (set_script_sig t n s) us))"

lemma sign_from_Inr:
  assumes "\<And>n u t t'. strip_scripts t = strip_scripts t' \<Longrightarrow> sighash n u t = sighash n u t'"
    and "\<And>n u t h. sighash n u t = Inr h \<Longrightarrow> n < length (tx_inputs t)"
    and "sign_from sighash script_for n t us = Inr t'"
  shows "strip_scripts t' = strip_scripts t \<and>
     (\<forall>i < n. tx_inputs t' ! i = tx_inputs t ! i) \<and>
     (\<forall>i < length us. \<exists>h s. sighash (n + i) (us ! i) t' = Inr h \<and> script_for (n + i) h = Inr s \<and>
        in_script_sig (tx_inputs t' ! (n + i)) = s)"
  using assms(3)
proof (induction us arbitrary: n t)
  case Nil
  then show ?case by simp
next
  case (Cons u us)
  then obtain h s where h: "sighash n u t = Inr h" and s: "script_for n h = Inr s"
    and run: "sign_from sighash script_for (Suc n) (set_script_sig t n s) us = Inr t'"
    by (auto simp: rbind_Inr_iff)
  note IH = Cons.IH [OF run]
  have strip: "strip_scripts t' = strip_scripts t" using IH by simp
  have keep: "\<forall>i < n. tx_inputs t' ! i = tx_inputs t ! i"
    using IH by (simp add: set_script_sig_inputs(3))
  have here: "in_script_sig (tx_inputs t' ! n) = s"
    using IH assms(2) [OF h] by (simp add: set_script_sig_inputs(2))
  have "\<exists>h s. sighash (n + i) ((u # us) ! i) t' = Inr h \<and> script_for (n + i) h = Inr s \<and>
        in_script_sig (tx_inputs t' ! (n + i)) = s" if "i < length (u # us)" for i
  proof (cases i)
    case 0
    with h s here assms(1) [OF strip, of n u] show ?thesis by auto
  next
    case (Suc j)
    with that IH show ?thesis by simp
  qed
  with strip keep show ?case by simp
qed

lemma sighash_of_bound: "sighash_of E t n u = Inr h \<Longrightarrow> n < length (tx_inputs t)"
  by (auto simp: sighash_of_def map_err_Inr_iff transparent_sighash_def rbind_Inr_iff split: if_splits)

lemma sign_p2pkh_from_eq:
  "sign_p2pkh_from E key pubkey n t us =
     sign_from (\<lambda>n u t. rbind (check_p2pkh u) (\<lambda>_. sighash_of E t n u))
       (\<lambda>n h. p2pkh_script_sig E key h pubkey) n t us"
  by (induction us arbitrary: n t) (simp_all add: rbind_assoc)

lemma sign_inputs_from_eq:
  "sign_inputs_from E fk lks pubkey leading n t us =
     sign_from (\<lambda>n u t. sighash_of E t n u) (script_sig_for E fk lks pubkey leading) n t us"
  by (induction us arbitrary: n t) simp_all

text \<open>A P2PKH unlocking script whose signature verifies.\<close>

definition p2pkh_unlocks :: "('sk, 'vk, 'sg) env \<Rightarrow> 'sk private_key \<Rightarrow> bytes \<Rightarrow> bytes \<Rightarrow> bool" where
  "p2pkh_unlocks E key sighash script_sig \<longleftrightarrow>
     (let public = private_public_key (env_ec E) key; pubkey = public_to_bytes (env_ec E) public in
      \<exists>der. script_sig = [of_nat (length der + 1)] @ der @ [1] @ [of_nat (length pubkey)] @ pubkey \<and>
        length der < 255 \<and> length pubkey < 256 \<and> verify_der (env_ec E) public sighash der)"

text \<open>A fulfillment with one verifying signature per key, in order.\<close>

definition fulfillment_unlocks :: "('sk, 'vk, 'sg) env \<Rightarrow> 'sk private_key list \<Rightarrow> bytes \<Rightarrow> bytes \<Rightarrow> bool" where
  "fulfillment_unlocks E keys sighash script_sig \<longleftrightarrow>
     (\<exists>sigs. fulfillment_script_sig sigs 1 = Inr script_sig \<and> length sigs = length keys \<and>
        (\<forall>i < length keys. let public = private_public_key (env_ec E) (keys ! i) in
           fst (sigs ! i) = public_to_bytes (env_ec E) public \<and>
           verify_compact (env_ec E) public sighash (snd (sigs ! i))))"

lemma p2pkh_script_sig_unlocks:
  assumes "ec_lib_ok (env_ec E)"
    and "p2pkh_script_sig E key h (public_to_bytes (env_ec E) (private_public_key (env_ec E) key)) = Inr s"
  shows "p2pkh_unlocks E key h s"
proof -
  from assms(2) obtain sig where
    sig: "sign_prehash_der (env_ec E) key h 1 = Inr sig" "length sig < 256"
      "length (public_to_bytes (env_ec E) (private_public_key (env_ec E) key)) < 256"
      "s = [of_nat (length sig)] @ sig @
        [of_nat (length (public_to_bytes (env_ec E) (private_public_key (env_ec E) key)))] @
        public_to_bytes (env_ec E) (private_public_key (env_ec E) key)"
    by (auto simp: p2pkh_script_sig_def rbind_Inr_iff map_err_Inr_iff expect_u8_Inr)
  from sig(1) obtain g where g: "el_sign_prehash (env_ec E) (sk_signing_key key) h = Some g"
    "sig = el_sig_to_der (env_ec E) g @ [1]"
    by (auto simp: sign_prehash_der_def sign_prehash_def rbind_Inr_iff ok_or_Inr_iff)
  have "verify_der (env_ec E) (private_public_key (env_ec E) key) h (el_sig_to_der (env_ec E) g)"
    using assms(1) g(1) by (simp add: verify_der_def private_public_key_def ec_lib_ok_def)
  with sig(2,3,4) g(2) show ?thesis
    by (auto simp: p2pkh_unlocks_def Let_def intro!: exI [of _ "el_sig_to_der (env_ec E) g"])
qed

lemma fulfillment_unlocks_run:
  assumes "ec_lib_ok (env_ec E)" "rmap (leading_signature E h) keys = Inr sigs"
    and "fulfillment_script_sig sigs (ucast SIGHASH_ALL) = Inr s"
  shows "fulfillment_unlocks E keys h s"
proof -
  have l: "list_all2 (\<lambda>k sg. leading_signature E h k = Inr sg) keys sigs"
    using assms(2) by (simp add: rmap_Inr_iff)
  have "fst sg = public_to_bytes (env_ec E) (private_public_key (env_ec E) k) \<and>
      verify_compact (env_ec E) (private_public_key (env_ec E) k) h (snd sg)"
    if "leading_signature E h k = Inr sg" for k sg
    using that assms(1)
    by (auto simp: leading_signature_def rbind_Inr_iff map_err_Inr_iff sign_prehash_compact_def
        sign_prehash_def ok_or_Inr_iff verify_compact_def private_public_key_def ec_lib_ok_def)
  moreover have "ucast SIGHASH_ALL = (1 :: u8)" by (simp add: SIGHASH_ALL_def)
  ultimately show ?thesis
    using l assms(3) unfolding fulfillment_unlocks_def list_all2_conv_all_nth
    by (intro exI [of _ sigs]) (auto simp: Let_def)
qed

section \<open>Properties\<close>

definition pays :: "recipient \<Rightarrow> tx_out \<Rightarrow> bool" where
  "pays r out \<longleftrightarrow> out_value out = to_sat (rcp_satoshis r) \<and>
     (case addr_kind (rcp_address r) of
        PubKeyHash \<Rightarrow> out_script_pubkey out = [0x76, 0xa9, 0x14] @ addr_hash (rcp_address r) @ [0x88, 0xac]
      | Identity \<Rightarrow> identity_payment_script (addr_hash (rcp_address r)) = Inr (out_script_pubkey out)
      | ScriptHash \<Rightarrow> False)"

lemma recipient_output_pays:
  "recipient_output r = Inr out \<Longrightarrow> payable r \<Longrightarrow> pays r out"
  by (cases "addr_kind (rcp_address r)")
    (auto simp: recipient_output_def rbind_Inr_iff map_err_Inr_iff p2pkh_script_pubkey_def pays_def
      payable_def)

lemma recipient_outputs_pay:
  "rmap recipient_output rs = Inr outs \<Longrightarrow> list_all payable rs \<Longrightarrow> list_all2 pays rs outs"
  by (induction rs arbitrary: outs) (auto simp: rbind_Inr_iff recipient_output_pays)

text \<open>
  C4: a planned send pays what it was asked to and nothing else.  The outputs are one per
  recipient, in the caller's order, each of the exact amount to the exact address, then at
  most one change output to the change address; the inputs are distinct P2PKH outputs of the
  caller, worth exactly the outputs plus the declared fee, which is at most one coin; change
  is never dust.
\<close>

theorem plan_pays_exactly:
  assumes "plan_transparent_send p = Inr pl"
  shows "\<exists>outs rest. pl_outputs pl = outs @ rest \<and> list_all2 pays (sp_recipients p) outs \<and>
      (if sats (pl_change pl) = 0 then rest = []
       else 546 < sats (pl_change pl) \<and>
         (\<exists>out. rest = [out] \<and> pays \<lparr>rcp_address = sp_change_address p, rcp_satoshis = pl_change pl\<rparr> out
            \<and> addr_kind (sp_change_address p) = PubKeyHash)) \<and>
      utxo_total (pl_selected pl) = total_value (pl_outputs pl) + sats (pl_fee pl) \<and>
      total_value (pl_outputs pl) = recipients_total (sp_recipients p) + sats (pl_change pl) \<and>
      distinct (map outpoint (pl_selected pl)) \<and> set (pl_selected pl) \<subseteq> set (sp_utxos p) \<and>
      all_p2pkh (pl_selected pl) \<and> 0 < length (pl_selected pl) \<and> sats (pl_fee pl) \<le> 100000000"
proof -
  from assms obtain s outs0 outs where run: "plan_run p s outs0 outs" and pl: "pl = plan_result p s outs"
    by (auto simp: plan_Inr)
  from run obtain required smart where r:
    "check_recipients 0 0 False (sp_recipients p) = Inr (required, smart)"
    "select_utxos (sp_utxos p) required (of_nat (length (sp_recipients p))) (sp_fee_per_kb p) smart = Inr s"
    "rmap recipient_output (sp_recipients p) = Inr outs0" "plan_outputs p outs0 (sel_change s) = Inr outs"
    "all_p2pkh (sp_utxos p)"
    by (auto simp: plan_run_def)
  from r(2) obtain k and fee :: u64 where k: "1 \<le> k" "k \<le> length (sp_utxos p)"
    "sel_selected s = take k (descending (sp_utxos p))" "distinct (map outpoint (sp_utxos p))"
    and tot: "utxo_total (sel_selected s) = unat required + unat (sel_fee s) + unat (sel_change s)"
    "unat (sel_fee s) = unat fee + (if sel_change s = 0
        then utxo_total (sel_selected s) - unat required - unat fee else 0)"
    "sel_change s = 0 \<longleftrightarrow> utxo_total (sel_selected s) \<le> unat required + unat fee + 546"
    and ceiling: "unat (sel_fee s) \<le> 100000000"
    by (rule select_utxos_Inr)
  have dust: "sel_change s = 0 \<or> 546 < unat (sel_change s)" using tot by auto
  have all: "list_all payable (sp_recipients p)" using r(1) by (simp add: check_recipients_Inr)
  obtain rest where rest: "outs = outs0 @ rest" "if sel_change s = 0 then rest = [] else
      (\<exists>out. rest = [out] \<and> addr_kind (sp_change_address p) = PubKeyHash \<and>
        pays \<lparr>rcp_address = sp_change_address p, rcp_satoshis = from_sat (sel_change s)\<rparr> out)"
    using r(4)
    by (auto simp: plan_outputs_def rbind_Inr_iff map_err_Inr_iff p2pkh_script_pubkey_def pays_def
        from_sat_def word_gt_0 split: if_splits)
  have sub: "set (sel_selected s) \<subseteq> set (sp_utxos p)"
    using k(3) set_take_subset [of k "descending (sp_utxos p)"] by simp
  have "distinct (map outpoint (sel_selected s))"
    using descending_distinct [of "sp_utxos p"] k(3,4) distinct_take [of "map outpoint (descending (sp_utxos p))" k]
    by (simp add: take_map)
  moreover have "all_p2pkh (sel_selected s)" using sub r(5) by (auto simp: all_p2pkh_def list_all_iff)
  moreover have "utxo_total (sel_selected s) = total_value outs + unat (sel_fee s)"
    by (rule plan_conserved(1) [OF r(1,2,3,4)])
  moreover have "total_value outs = recipients_total (sp_recipients p) + unat (sel_change s)"
    using plan_outputs_total [OF r(4)] recipient_outputs_total [OF r(3)] by simp
  moreover have "0 < length (sel_selected s)" using k(1,2,3) by simp
  ultimately show ?thesis
    unfolding pl using rest ceiling dust sub recipient_outputs_pay [OF r(3) all]
    by (intro exI [of _ outs0] exI [of _ rest]) (auto simp: plan_result_def from_sat_def unat_eq_0)
qed

definition sample_address :: address where
  "sample_address = \<lparr>addr_kind = PubKeyHash, addr_hash = replicate 20 7\<rparr>"

definition sample_coin :: utxo where
  "sample_coin = \<lparr>utxo_txid = Txid (replicate 32 0), utxo_vout = 3, utxo_satoshis = Amount 500000,
     utxo_script_pubkey = [0x76, 0xa9, 0x14] @ replicate 20 7 @ [0x88, 0xac]\<rparr>"

definition sample_params :: send_params where
  "sample_params = send_params_new [sample_coin]
     [\<lparr>rcp_address = sample_address, rcp_satoshis = Amount 90000\<rparr>] sample_address Never"

definition sample_plan :: transparent_plan where
  "sample_plan = \<lparr>pl_selected = [sample_coin],
     pl_outputs = [\<lparr>out_value = 90000, out_script_pubkey = [0x76, 0xa9, 0x14] @ replicate 20 7 @ [0x88, 0xac]\<rparr>,
       \<lparr>out_value = 400000, out_script_pubkey = [0x76, 0xa9, 0x14] @ replicate 20 7 @ [0x88, 0xac]\<rparr>],
     pl_fee = Amount 10000, pl_change = Amount 400000, pl_expiry = Never, pl_lock_time = 0\<rparr>"

lemma sample_coin_selected:
  "select_utxos [sample_coin] 90000 1 DEFAULT_FEE_PER_KB False =
     Inr \<lparr>sel_selected = [sample_coin], sel_change = 400000, sel_fee = 10000\<rparr>"
  by (simp add: select_utxos_def checked_add_def estimate_fee_value descending_def DEFAULT_FEE_PER_KB_def
      size_estimate_def fee_estimate_def select_loop.simps sample_coin_def amount_checked_sum_def
      amount_checked_add_def amount_zero_def Let_def DUST_THRESHOLD_def check_fee_ceiling_def
      MAX_MINER_FEE_def)

lemma sample_planned: "plan_transparent_send sample_params = Inr sample_plan"
proof -
  have c: "check_p2pkh sample_coin = Inr ()"
    by (simp add: check_p2pkh_def sample_coin_def from_p2pkh_script_pubkey_def refuse_if_def)
  have s: "to_sat (utxo_satoshis sample_coin) = 500000" by (simp add: sample_coin_def)
  show ?thesis
    by (simp add: plan_transparent_send_def sample_params_def send_params_new_def c sample_coin_selected
        sample_address_def amount_is_zero_def amount_zero_def checked_add_def recipient_output_def
        p2pkh_script_pubkey_def wrapping_sum_def check_conserved_def s sample_plan_def from_sat_def
        refuse_if_def)
qed

lemma plan_pays_exactly_witness:
  "utxo_total [sample_coin] = 90000 + 400000 + sats (pl_fee sample_plan)"
  using plan_pays_exactly [OF sample_planned] by (auto simp: sample_plan_def)

text \<open>
  C5: when a send is planned.  Exactly when there is a recipient, the expiry is one consensus
  accepts, every funding output is P2PKH (selected or not), no recipient is a script hash or
  is paid zero, the amounts sum within 64 bits, coin selection succeeds for that sum with the
  smart-output size as soon as one recipient is an identity, and the change address is a
  key hash if there is change.  The conservation check that ends the function never fires.
\<close>

theorem plan_accepts_iff:
  assumes "list_all (wf_address \<circ> rcp_address) (sp_recipients p)"
  shows "((\<exists>pl. plan_transparent_send p = Inr pl) \<longleftrightarrow>
      sp_recipients p \<noteq> [] \<and> expiry_check (sp_expiry p) = Inr () \<and> all_p2pkh (sp_utxos p) \<and>
      list_all payable (sp_recipients p) \<and> recipients_total (sp_recipients p) < 2 ^ 64 \<and>
      (\<exists>s. select_utxos (sp_utxos p) (of_nat (recipients_total (sp_recipients p)))
          (of_nat (length (sp_recipients p))) (sp_fee_per_kb p) (list_ex pays_identity (sp_recipients p)) = Inr s \<and>
        (sel_change s \<noteq> 0 \<longrightarrow> addr_kind (sp_change_address p) = PubKeyHash))) \<and>
    plan_transparent_send p \<noteq> Inl (ValueNotConserved a b c d)"
proof
  have outs: "\<exists>outs. rmap recipient_output rs = Inr outs"
    if "list_all (wf_address \<circ> rcp_address) rs" "list_all payable rs" for rs
    using that
  proof (induction rs)
    case (Cons r rs)
    from Cons.prems obtain out where "recipient_output r = Inr out"
      by (auto elim: recipient_output_Inr)
    with Cons show ?case by auto
  qed simp
  have change: "(\<exists>outs. plan_outputs p outs0 c = Inr outs) \<longleftrightarrow>
      (c \<noteq> 0 \<longrightarrow> addr_kind (sp_change_address p) = PubKeyHash)" for outs0 c
    by (auto simp: plan_outputs_def rbind_Inr_iff map_err_Inr_iff p2pkh_script_pubkey_def word_gt_0)
  have req: "check_recipients 0 0 False (sp_recipients p) = Inr (required, smart) \<longleftrightarrow>
      list_all payable (sp_recipients p) \<and> recipients_total (sp_recipients p) < 2 ^ 64 \<and>
      required = of_nat (recipients_total (sp_recipients p)) \<and> smart = list_ex pays_identity (sp_recipients p)"
    for required smart
    unfolding check_recipients_Inr by (auto simp: unat_of_nat_u64 dest!: sym [of "unat required"])
  have "(\<exists>pl. plan_transparent_send p = Inr pl) \<longleftrightarrow> (\<exists>s outs0 outs. plan_run p s outs0 outs)"
    by (auto simp: plan_Inr)
  then show "(\<exists>pl. plan_transparent_send p = Inr pl) \<longleftrightarrow>
      sp_recipients p \<noteq> [] \<and> expiry_check (sp_expiry p) = Inr () \<and> all_p2pkh (sp_utxos p) \<and>
      list_all payable (sp_recipients p) \<and> recipients_total (sp_recipients p) < 2 ^ 64 \<and>
      (\<exists>s. select_utxos (sp_utxos p) (of_nat (recipients_total (sp_recipients p)))
          (of_nat (length (sp_recipients p))) (sp_fee_per_kb p) (list_ex pays_identity (sp_recipients p)) = Inr s \<and>
        (sel_change s \<noteq> 0 \<longrightarrow> addr_kind (sp_change_address p) = PubKeyHash))"
    using outs [OF assms] change unfolding plan_run_def req by fastforce
  show "plan_transparent_send p \<noteq> Inl (ValueNotConserved a b c d)" by (rule plan_never_unconserved)
qed

lemma plan_accepts_iff_witness:
  "\<exists>pl. plan_transparent_send sample_params = Inr pl"
proof -
  have wf: "list_all (wf_address \<circ> rcp_address) (sp_recipients sample_params)"
    by (simp add: sample_params_def send_params_new_def wf_address_def sample_address_def)
  have "from_p2pkh_script_pubkey (utxo_script_pubkey sample_coin) \<noteq> None"
    by (simp add: sample_coin_def from_p2pkh_script_pubkey_def)
  then show ?thesis
    using plan_accepts_iff [OF wf, of 0 0 0 0] sample_coin_selected
    by (simp add: sample_params_def send_params_new_def all_p2pkh_def payable_def amount_is_zero_def
        amount_zero_def sample_address_def pays_identity_def)
qed

lemma strip_scripts_inputs:
  "strip_scripts t' = strip_scripts t \<Longrightarrow> length (tx_inputs t') = length (tx_inputs t)"
  by (drule arg_cong [where f = "length \<circ> tx_inputs"]) (simp add: strip_scripts_def)

lemma sign_p2pkh_inputs_Inr:
  assumes "ec_lib_ok (env_ec E)" "sign_p2pkh_inputs E t key us = Inr t'"
  shows "strip_scripts t' = strip_scripts t" "length us = length (tx_inputs t')" "all_p2pkh us"
    "i < length us \<Longrightarrow> \<exists>h. sighash_of E t' i (us ! i) = Inr h \<and>
         p2pkh_unlocks E key h (in_script_sig (tx_inputs t' ! i))"
proof -
  let ?pub = "public_to_bytes (env_ec E) (private_public_key (env_ec E) key)"
  let ?sh = "\<lambda>n u t. rbind (check_p2pkh u) (\<lambda>_. sighash_of E t n u)"
  from assms(2) have len: "length us = length (tx_inputs t)"
    and run: "sign_from ?sh (\<lambda>n h. p2pkh_script_sig E key h ?pub) 0 t us = Inr t'"
    by (auto simp: sign_p2pkh_inputs_def rbind_Inr_iff refuse_if_Inr_iff sign_p2pkh_from_eq)
  have strip: "?sh n u t = ?sh n u t'" if "strip_scripts t = strip_scripts t'" for n u t t'
    unfolding sighash_of_strip [OF that] by (rule refl)
  have bound: "n < length (tx_inputs t)" if "?sh n u t = Inr h" for n u t h
    using that sighash_of_bound by (auto simp: rbind_Inr_iff)
  from sign_from_Inr [of ?sh, OF strip bound run]
  have s: "strip_scripts t' = strip_scripts t"
    "\<forall>i < length us. \<exists>h s. ?sh i (us ! i) t' = Inr h \<and> p2pkh_script_sig E key h ?pub = Inr s \<and>
        in_script_sig (tx_inputs t' ! i) = s"
    by auto
  show "strip_scripts t' = strip_scripts t" by (rule s(1))
  show "length us = length (tx_inputs t')" using len strip_scripts_inputs [OF s(1)] by simp
  show "all_p2pkh us"
    using s(2) by (auto simp: all_p2pkh_def list_all_length rbind_Inr_iff check_p2pkh_Inr)
  show "\<exists>h. sighash_of E t' i (us ! i) = Inr h \<and> p2pkh_unlocks E key h (in_script_sig (tx_inputs t' ! i))"
    if "i < length us"
    using s(2) that p2pkh_script_sig_unlocks [OF assms(1)] by (fastforce simp: rbind_Inr_iff)
qed

text \<open>Signing needs a library that signs every hash within the length bytes of the script.\<close>

definition signs_all :: "('sk, 'vk, 'sg) env \<Rightarrow> 'sk private_key \<Rightarrow> bool" where
  "signs_all E key \<longleftrightarrow>
     length (public_to_bytes (env_ec E) (private_public_key (env_ec E) key)) < 256 \<and>
     (\<forall>h. \<exists>g. el_sign_prehash (env_ec E) (sk_signing_key key) h = Some g \<and>
        length (el_sig_to_der (env_ec E) g) < 255)"

lemma p2pkh_script_sig_total:
  assumes "signs_all E key"
  shows "\<exists>s. p2pkh_script_sig E key h (public_to_bytes (env_ec E) (private_public_key (env_ec E) key)) = Inr s"
proof -
  from assms obtain g where "el_sign_prehash (env_ec E) (sk_signing_key key) h = Some g"
    "length (el_sig_to_der (env_ec E) g) < 255"
    unfolding signs_all_def by blast
  with assms show ?thesis
    by (simp add: signs_all_def p2pkh_script_sig_def sign_prehash_der_def sign_prehash_def expect_u8_def)
qed

lemma sighash_of_total: "n < length (tx_inputs t) \<Longrightarrow> \<exists>h. sighash_of E t n u = Inr h"
  by (auto simp: sighash_of_def map_err_Inr_iff transparent_sighash_Inr_iff check_sighash_type_known
      sighash_consts)

lemma sign_p2pkh_from_total:
  assumes "signs_all E key" "all_p2pkh us" "n + length us \<le> length (tx_inputs t)"
  shows "\<exists>t'. sign_p2pkh_from E key (public_to_bytes (env_ec E) (private_public_key (env_ec E) key)) n t us
    = Inr t'"
  using assms(2,3)
proof (induction us arbitrary: n t)
  case (Cons u us)
  from Cons.prems obtain h where h: "sighash_of E t n u = Inr h"
    using sighash_of_total [of n t E u] by auto
  obtain s where s: "p2pkh_script_sig E key h (public_to_bytes (env_ec E) (private_public_key (env_ec E) key)) = Inr s"
    using p2pkh_script_sig_total [OF assms(1)] by blast
  have "\<exists>t'. sign_p2pkh_from E key (public_to_bytes (env_ec E) (private_public_key (env_ec E) key)) (Suc n)
      (set_script_sig t n s) us = Inr t'"
    using Cons.prems by (intro Cons.IH) (auto simp: all_p2pkh_def set_script_sig_inputs)
  with Cons.prems h s show ?case by (auto simp: rbind_Inr_iff check_p2pkh_Inr all_p2pkh_def)
qed simp

text \<open>
  Signing a send.  When \<open>sign_p2pkh_inputs\<close> returns, only unlocking scripts have changed,
  there is one prevout per input, every prevout is P2PKH, and every input carries a signature
  that verifies under the key's public key on the sighash of the final transaction, followed
  by that public key.  A wrong number of prevouts is refused with both counts.
\<close>

theorem p2pkh_signing_unlocks:
  fixes E :: "('sk, 'vk, 'sg) env"
  assumes "ec_lib_ok (env_ec E)"
  shows "(sign_p2pkh_inputs E t key us = Inr t' \<longrightarrow>
      strip_scripts t' = strip_scripts t \<and> length us = length (tx_inputs t') \<and> all_p2pkh us \<and>
      (\<forall>i < length us. \<exists>h. sighash_of E t' i (us ! i) = Inr h \<and>
         p2pkh_unlocks E key h (in_script_sig (tx_inputs t' ! i)))) \<and>
    (length us \<noteq> length (tx_inputs t) \<longrightarrow>
       sign_p2pkh_inputs E t key us = Inl (PrevoutCountMismatch (length (tx_inputs t)) (length us)))"
proof (intro conjI impI allI)
  assume "sign_p2pkh_inputs E t key us = Inr t'"
  note run = sign_p2pkh_inputs_Inr [OF assms this]
  show "strip_scripts t' = strip_scripts t" "length us = length (tx_inputs t')" "all_p2pkh us"
    by (rule run)+
  show "\<exists>h. sighash_of E t' i (us ! i) = Inr h \<and> p2pkh_unlocks E key h (in_script_sig (tx_inputs t' ! i))"
    if "i < length us" for i
    using that by (rule run)
qed (simp add: sign_p2pkh_inputs_def refuse_if_def)

definition sample_env :: "(key32, key32, sig64) env" where
  "sample_env = \<lparr>env_hash = toy_hash_lib, env_ec = toy_ec_lib, env_blake2b = const_hash,
     env_hex = map (\<lambda>b. char_of (unat b))\<rparr>"

definition sample_key :: "key32 private_key" where
  "sample_key = \<lparr>sk_signing_key = Abs_key32 (replicate 32 5), sk_compressed = True\<rparr>"

lemma sample_env_ok: "ec_lib_ok (env_ec sample_env)"
  by (simp add: sample_env_def toy_ec_lib_ok)

lemma sample_signs_all: "signs_all sample_env key"
proof -
  have "length (Rep_key32 k) = 32" "length (Rep_sig64 g) = 64" for k g
    using Rep_key32 [of k] Rep_sig64 [of g] by simp_all
  then show ?thesis
    by (simp add: signs_all_def sample_env_def toy_ec_lib_def public_to_bytes_def private_public_key_def)
qed

lemma sample_coin_p2pkh: "all_p2pkh [sample_coin]"
  by (simp add: all_p2pkh_def sample_coin_def from_p2pkh_script_pubkey_def)

definition sample_unsigned :: tx_v4 where
  "sample_unsigned = unsigned_tx [sample_coin] (pl_outputs sample_plan) 0 0"

lemma p2pkh_signing_unlocks_witness:
  "(\<exists>t' h. sign_p2pkh_inputs sample_env sample_unsigned sample_key [sample_coin] = Inr t' \<and>
     p2pkh_unlocks sample_env sample_key h (in_script_sig (tx_inputs t' ! 0))) \<and>
   sign_p2pkh_inputs sample_env sample_unsigned sample_key [] = Inl (PrevoutCountMismatch 1 0)"
proof -
  have n: "length (tx_inputs sample_unsigned) = 1" by (simp add: sample_unsigned_def unsigned_tx_def)
  then obtain t' where "sign_p2pkh_inputs sample_env sample_unsigned sample_key [sample_coin] = Inr t'"
    using sign_p2pkh_from_total [OF sample_signs_all sample_coin_p2pkh, of 0 sample_unsigned sample_key]
    by (auto simp: sign_p2pkh_inputs_def refuse_if_def)
  then show ?thesis
    using p2pkh_signing_unlocks [OF sample_env_ok, of sample_unsigned sample_key "[sample_coin]" t']
      p2pkh_signing_unlocks [OF sample_env_ok, of sample_unsigned sample_key "[]" t'] n
    by auto
qed

text \<open>Transactions without shielded parts.\<close>

definition transparent_only :: "tx_v4 \<Rightarrow> bool" where
  "transparent_only t \<longleftrightarrow> \<not> is_shielded t \<and> tx_binding_sig t = None"

lemma transparent_only_strip: "strip_scripts t' = strip_scripts t \<Longrightarrow> transparent_only t' = transparent_only t"
proof (drule arg_cong [where f = transparent_only])
  show "transparent_only (strip_scripts t') = transparent_only (strip_scripts t) \<Longrightarrow>
      transparent_only t' = transparent_only t"
    by (simp add: strip_scripts_def transparent_only_def is_shielded_def)
qed

lemma transparent_only_unsigned [simp]: "transparent_only (unsigned_tx is outs l h)"
  by (simp add: transparent_only_def unsigned_tx_def is_shielded_def tx_default_def)

lemma serialize_transparent_only: "transparent_only t \<Longrightarrow> \<exists>raw. serialize t = Inr raw"
  by (auto simp: serialize_Inr_iff transparent_only_def is_shielded_def)

lemma signed_transaction_of_Inr:
  "signed_transaction_of E t fee change us = Inr st \<longleftrightarrow>
     (\<exists>raw. serialize t = Inr raw \<and>
        st = \<lparr>st_hex = env_hex E raw, st_txid = txid_display (sha256d (hl_sha256 (env_hash E)) raw),
          st_fee = fee, st_change = change, st_inputs_used = map outpoint us\<rparr>)"
  by (auto simp: signed_transaction_of_def rbind_Inr_iff map_err_Inr_iff tx_txid_def)

lemma strip_unsigned [simp]: "strip_scripts (unsigned_tx us outs l h) = unsigned_tx us outs l h"
  by (simp add: strip_scripts_def unsigned_tx_def tx_in_unsigned_def)

lemma selected_subset:
  assumes "select_utxos us required outs rate smart = Inr s"
  shows "set (sel_selected s) \<subseteq> set us"
  using assms by (rule select_utxos_Inr) (simp add: subset_trans [OF set_take_subset])

lemma length_concat_map: "x \<in> set xs \<Longrightarrow> length (f x) \<le> length (concat (map f xs))"
  by (induction xs) auto

lemma serialize_bounds_scripts:
  assumes "serialize t = Inr raw"
  shows "i \<in> set (tx_inputs t) \<Longrightarrow> length (in_script_sig i) \<le> length raw"
    and "out \<in> set (tx_outputs t) \<Longrightarrow> length (out_script_pubkey out) \<le> length raw"
proof -
  have raw: "raw = tx_body_bytes t @ binding_bytes t" using assms by (simp add: serialize_Inr_iff)
  show "length (in_script_sig i) \<le> length raw" if "i \<in> set (tx_inputs t)"
    using length_concat_map [OF that, of input_bytes] unfolding raw
    by (simp add: tx_body_bytes_def write_vec_def input_bytes_def write_var_slice_def)
  show "length (out_script_pubkey out) \<le> length raw" if "out \<in> set (tx_outputs t)"
    using length_concat_map [OF that, of output_bytes] unfolding raw
    by (simp add: tx_body_bytes_def write_vec_def output_bytes_def write_var_slice_def)
qed

lemma unsigned_tx_reads_back:
  assumes "strip_scripts t = unsigned_tx us outs l h" "list_all (wf_txid \<circ> utxo_txid) us"
    and "serialize t = Inr raw" "length raw < usize_bound"
  shows "deserialize raw = Inr t"
proof -
  have t: "transparent_only t"
    using assms(1) transparent_only_strip [of t "unsigned_tx us outs l h"] by simp
  have "map in_txid (tx_inputs t) = map in_txid (tx_inputs (strip_scripts t))"
    by (simp add: strip_scripts_def comp_def)
  also have "\<dots> = map (to_internal \<circ> utxo_txid) us"
    unfolding assms(1) by (simp add: unsigned_tx_def tx_in_unsigned_def comp_def)
  finally have "list_all (\<lambda>x. length x = 32) (map in_txid (tx_inputs t))"
    using assms(2) by (simp add: list_all_iff wf_txid_def)
  then have "list_all wf_tx_in (tx_inputs t)"
    using serialize_bounds_scripts(1) [OF assms(3)] assms(4)
    by (fastforce simp: list_all_iff wf_tx_in_def)
  moreover have "list_all wf_tx_out (tx_outputs t)"
    using serialize_bounds_scripts(2) [OF assms(3)] assms(4)
    by (fastforce simp: list_all_iff wf_tx_out_def)
  ultimately have "canonical_tx t"
    using t by (simp add: canonical_tx_def transparent_only_def is_shielded_def)
  then show ?thesis
    using deserialize_followed_by [of t raw "[]"] assms(3,4) by simp
qed

lemma signed_transaction_of_total:
  "transparent_only t \<Longrightarrow> \<exists>st. signed_transaction_of E t fee change us = Inr st"
  using serialize_transparent_only [of t] by (auto simp: signed_transaction_of_Inr)

lemma plan_selected:
  assumes "plan_transparent_send p = Inr pl"
  shows "set (pl_selected pl) \<subseteq> set (sp_utxos p)" "all_p2pkh (pl_selected pl)"
    "pl_lock_time pl = 0" "pl_expiry pl = sp_expiry p"
proof -
  show sub: "set (pl_selected pl) \<subseteq> set (sp_utxos p)"
    and "pl_lock_time pl = 0" "pl_expiry pl = sp_expiry p"
    using assms selected_subset by (fastforce simp: plan_Inr plan_result_def plan_run_def)+
  have "all_p2pkh (sp_utxos p)" using assms by (auto simp: plan_Inr plan_run_def)
  with sub show "all_p2pkh (pl_selected pl)" by (auto simp: all_p2pkh_def list_all_iff)
qed

lemma unsigned_tx_inputs [simp]: "length (tx_inputs (unsigned_tx us outs l h)) = length us"
  by (simp add: unsigned_tx_def)

lemma sign_p2pkh_inputs_total:
  assumes "ec_lib_ok (env_ec E)" "signs_all E key" "all_p2pkh us"
  shows "\<exists>t. sign_p2pkh_inputs E (unsigned_tx us outs l h) key us = Inr t \<and> transparent_only t"
proof -
  obtain t where t: "sign_p2pkh_inputs E (unsigned_tx us outs l h) key us = Inr t"
    using sign_p2pkh_from_total [OF assms(2,3), of 0 "unsigned_tx us outs l h"]
    by (auto simp: sign_p2pkh_inputs_def refuse_if_def)
  with transparent_only_strip [OF sign_p2pkh_inputs_Inr(1) [OF assms(1) t]] show ?thesis by auto
qed

text \<open>
  What a send ships.  The hex of a built send is that of a transaction with the planned
  inputs and outputs, no lock time and the requested expiry, in which every input carries a
  signature of the key that verifies; the id is the hash of the same bytes, the fee, change
  and outpoints are the plan's.  Parsing the bytes gives that transaction back.
\<close>

theorem send_ships_plan:
  fixes E :: "('sk, 'vk, 'sg) env"
  assumes "ec_lib_ok (env_ec E)" "build_transparent_send E key p = Inr st"
    and "list_all (wf_txid \<circ> utxo_txid) (sp_utxos p)"
  shows "\<exists>pl t raw. plan_transparent_send p = Inr pl \<and> serialize t = Inr raw \<and>
     strip_scripts t = unsigned_tx (pl_selected pl) (pl_outputs pl) 0 (to_height (sp_expiry p)) \<and>
     (\<forall>i < length (pl_selected pl). \<exists>h. sighash_of E t i (pl_selected pl ! i) = Inr h \<and>
        p2pkh_unlocks E key h (in_script_sig (tx_inputs t ! i))) \<and>
     st = \<lparr>st_hex = env_hex E raw, st_txid = txid_display (sha256d (hl_sha256 (env_hash E)) raw),
       st_fee = pl_fee pl, st_change = pl_change pl, st_inputs_used = map outpoint (pl_selected pl)\<rparr> \<and>
     (length raw < usize_bound \<longrightarrow> deserialize raw = Inr t)"
proof -
  from assms(2) obtain pl t raw where pl: "plan_transparent_send p = Inr pl"
    and sign: "sign_p2pkh_inputs E (unsigned_tx (pl_selected pl) (pl_outputs pl) (pl_lock_time pl)
        (to_height (pl_expiry pl))) key (pl_selected pl) = Inr t"
    and st: "signed_transaction_of E t (pl_fee pl) (pl_change pl) (pl_selected pl) = Inr st"
    by (auto simp: build_transparent_send_def rbind_Inr_iff Let_def)
  note run = sign_p2pkh_inputs_Inr [OF assms(1) sign]
  have strip: "strip_scripts t = unsigned_tx (pl_selected pl) (pl_outputs pl) 0 (to_height (sp_expiry p))"
    using run(1) by (simp add: plan_selected [OF pl])
  moreover have "list_all (wf_txid \<circ> utxo_txid) (pl_selected pl)"
    using assms(3) plan_selected(1) [OF pl] by (auto simp: list_all_iff)
  ultimately show ?thesis
    using pl st run(4) unsigned_tx_reads_back [OF strip] unfolding signed_transaction_of_Inr by blast
qed

lemma send_ships_plan_witness:
  "\<exists>t raw. serialize t = Inr raw \<and> (length raw < usize_bound \<longrightarrow> deserialize raw = Inr t)"
proof -
  obtain t where t: "sign_p2pkh_inputs sample_env (unsigned_tx [sample_coin] (pl_outputs sample_plan) 0 0)
      sample_key [sample_coin] = Inr t" "transparent_only t"
    using sign_p2pkh_inputs_total [OF sample_env_ok sample_signs_all sample_coin_p2pkh] by blast
  obtain st where "signed_transaction_of sample_env t (Amount 10000) (Amount 400000) [sample_coin] = Inr st"
    using signed_transaction_of_total [OF t(2)] by blast
  with t have "build_transparent_send sample_env sample_key sample_params = Inr st"
    by (simp add: build_transparent_send_def sample_planned) (simp add: sample_plan_def)
  moreover have "list_all (wf_txid \<circ> utxo_txid) (sp_utxos sample_params)"
    by (simp add: sample_params_def send_params_new_def sample_coin_def wf_txid_def)
  ultimately show ?thesis using send_ships_plan [OF sample_env_ok] by blast
qed

text \<open>
  C6: a planned send is never lost on the way to its bytes.  With a library that signs every
  hash, and signatures and keys short enough for their length bytes, building succeeds
  exactly when planning does, with the plan's errors otherwise: no prevout count, index,
  hash type, signature or serialization error is reachable, nor either \<open>expect\<close>.
\<close>

theorem send_completes:
  fixes E :: "('sk, 'vk, 'sg) env"
  assumes "ec_lib_ok (env_ec E)" "signs_all E key"
  shows "((\<exists>st. build_transparent_send E key p = Inr st) \<longleftrightarrow> (\<exists>pl. plan_transparent_send p = Inr pl)) \<and>
    (build_transparent_send E key p = Inl e \<longleftrightarrow> plan_transparent_send p = Inl e)"
    (is "(?built \<longleftrightarrow> ?planned) \<and> ?same")
proof -
  have go: "\<exists>st. build_transparent_send E key p = Inr st" if pl: "plan_transparent_send p = Inr pl" for pl
  proof -
    obtain t where "sign_p2pkh_inputs E (unsigned_tx (pl_selected pl) (pl_outputs pl) (pl_lock_time pl)
        (to_height (pl_expiry pl))) key (pl_selected pl) = Inr t" "transparent_only t"
      using sign_p2pkh_inputs_total [OF assms plan_selected(2) [OF pl]] by blast
    with pl signed_transaction_of_total [of t] show ?thesis
      by (simp add: build_transparent_send_def)
  qed
  then have "?built \<longleftrightarrow> ?planned" by (auto simp: build_transparent_send_def rbind_Inr_iff)
  moreover have ?same
  proof (cases "plan_transparent_send p")
    case (Inr pl)
    with go show ?thesis by auto
  qed (simp add: build_transparent_send_def)
  ultimately show ?thesis ..
qed

lemma send_completes_witness:
  "(\<exists>st. build_transparent_send sample_env sample_key sample_params = Inr st)"
  using send_completes [OF sample_env_ok sample_signs_all] sample_planned by blast

section \<open>Assembled transactions\<close>

text \<open>What each branch of the funding choice returns.\<close>

lemma choose_funding_Inr:
  assumes "choose_funding plan required leading_total = Inr (selected, fee, change)"
    and "as_value_bearing_leading plan \<longrightarrow> unat leading_total = utxo_total (as_leading plan)"
  shows "if as_value_bearing_leading plan
    then selected = [] \<and> utxo_total (as_leading plan) = unat required + unat fee + unat change \<and>
      unat fee \<le> 100000546
    else set selected \<subseteq> set (as_funding plan) \<and> distinct (map outpoint selected) \<and>
      utxo_total selected = unat required + unat fee + unat change \<and> unat fee \<le> 100000000 \<and>
      utxo_total selected < 2 ^ 64"
    and "change = 0 \<or> 546 < unat change"
proof -
  consider (bearing) fee0 where "as_value_bearing_leading plan" "required \<le> leading_total"
      "unat fee0 \<le> 100000000" "fee0 \<le> leading_total - required" "selected = []"
      "(fee, change) = (if leading_total - required - fee0 \<le> DUST_THRESHOLD
         then (fee0 + (leading_total - required - fee0), 0) else (fee0, leading_total - required - fee0))"
    | (selecting) s where "\<not> as_value_bearing_leading plan"
      "select_utxos (as_funding plan) required (as_fee_output_count plan) (as_fee_per_kb plan) True = Inr s"
      "selected = sel_selected s" "fee = sel_fee s" "change = sel_change s"
    using assms(1)
    by (auto simp: choose_funding_def rbind_Inr_iff Let_def check_fee_ceiling_Inr not_less split: if_splits)
  then have "(if as_value_bearing_leading plan
      then selected = [] \<and> utxo_total (as_leading plan) = unat required + unat fee + unat change \<and>
        unat fee \<le> 100000546
      else set selected \<subseteq> set (as_funding plan) \<and> distinct (map outpoint selected) \<and>
        utxo_total selected = unat required + unat fee + unat change \<and> unat fee \<le> 100000000 \<and>
        utxo_total selected < 2 ^ 64) \<and> (change = 0 \<or> 546 < unat change)"
  proof cases
    case bearing
    have 1: "unat (leading_total - required) = unat leading_total - unat required"
      using bearing(2) by (rule unat_sub)
    have 2: "unat (leading_total - required - fee0) = unat leading_total - unat required - unat fee0"
      using unat_sub [OF bearing(4)] 1 by simp
    have le: "unat required \<le> unat leading_total" "unat fee0 \<le> unat leading_total - unat required"
      using bearing(2,4) 1 by (simp_all add: word_le_nat_alt)
    have 3: "fee0 + (leading_total - required - fee0) = leading_total - required" by simp
    show ?thesis
      using bearing(1,3,5,6) assms(2) le 1 2
      by (auto simp: 3 DUST_THRESHOLD_def word_le_nat_alt split: if_splits)
  next
    case selecting
    from selecting(2) obtain k and fee0 :: u64 where k: "sel_selected s = take k (descending (as_funding plan))"
      "distinct (map outpoint (as_funding plan))" "utxo_total (sel_selected s) < 2 ^ 64"
      and tot: "utxo_total (sel_selected s) = unat required + unat (sel_fee s) + unat (sel_change s)"
      "unat (sel_fee s) = unat fee0 + (if sel_change s = 0
          then utxo_total (sel_selected s) - unat required - unat fee0 else 0)"
      "sel_change s = 0 \<longleftrightarrow> utxo_total (sel_selected s) \<le> unat required + unat fee0 + 546"
      and ceiling: "unat (sel_fee s) \<le> 100000000"
      by (rule select_utxos_Inr)
    have "distinct (map outpoint (sel_selected s))"
      using descending_distinct [of "as_funding plan"] k(1,2)
        distinct_take [of "map outpoint (descending (as_funding plan))" k] by (simp add: take_map)
    moreover have "sel_change s = 0 \<or> 546 < unat (sel_change s)" using tot by auto
    ultimately show ?thesis
      using selecting k(3) tot(1) ceiling selected_subset [OF selecting(2)] by simp
  qed
  then show "if as_value_bearing_leading plan
    then selected = [] \<and> utxo_total (as_leading plan) = unat required + unat fee + unat change \<and>
      unat fee \<le> 100000546
    else set selected \<subseteq> set (as_funding plan) \<and> distinct (map outpoint selected) \<and>
      utxo_total selected = unat required + unat fee + unat change \<and> unat fee \<le> 100000000 \<and>
      utxo_total selected < 2 ^ 64"
    and "change = 0 \<or> 546 < unat change" by blast+
qed

lemma change_output_Inr:
  "change_output plan change = Inr outs \<longleftrightarrow>
     (if change = 0 then outs = []
      else \<exists>s. (case as_change_script plan of Some script \<Rightarrow> s = script
             | None \<Rightarrow> p2pkh_script_pubkey (as_change_address plan) = Inr s) \<and>
          outs = [\<lparr>out_value = change, out_script_pubkey = s\<rparr>])"
  by (auto simp: change_output_def rbind_Inr_iff map_err_Inr_iff word_gt_0 split: option.splits)

lemma rmap_valueless:
  "(\<exists>xs. rmap check_leading_valueless us = Inr xs) \<longleftrightarrow> list_all (\<lambda>u. amount_is_zero (utxo_satoshis u)) us"
  by (induction us) (auto simp: rbind_Inr_iff check_leading_valueless_def refuse_if_Inr_iff)

lemma valueless_total: "list_all (\<lambda>u. amount_is_zero (utxo_satoshis u)) us \<Longrightarrow> utxo_total us = 0"
  by (induction us) (auto simp: amount_is_zero_def amount_zero_def)

lemma check_value_bearing_Inr:
  "check_value_bearing plan = Inr u \<longleftrightarrow> as_change_script plan \<noteq> None \<and> as_funding plan = [] \<and>
     distinct (map outpoint (as_leading plan))"
proof -
  have "first_duplicate [] (as_leading plan) = None \<longleftrightarrow> distinct (map outpoint (as_leading plan))"
    using first_duplicate_None [of "[]" "as_leading plan"] by simp
  then show ?thesis
    by (auto simp: check_value_bearing_def rbind_Inr_iff refuse_if_Inr_iff split: option.splits)
qed

text \<open>A run of \<open>assemble_unsigned\<close> up to its last check.\<close>

definition assembly_run ::
  "assembly \<Rightarrow> u64 \<Rightarrow> u64 \<Rightarrow> utxo list \<Rightarrow> u64 \<Rightarrow> u64 \<Rightarrow> tx_out list \<Rightarrow> bool" where
  "assembly_run plan required leading_total selected fee change extra \<longleftrightarrow>
     (if as_value_bearing_leading plan then check_value_bearing plan = Inr ()
      else list_all (\<lambda>u. amount_is_zero (utxo_satoshis u)) (as_leading plan)) \<and>
     sats (as_burn plan) \<le> 100000000000 \<and>
     unat required = total_value (as_outputs plan) + sats (as_burn plan) \<and>
     unat leading_total = utxo_total (as_leading plan) \<and>
     choose_funding plan required leading_total = Inr (selected, fee, change) \<and>
     change_output plan change = Inr extra"

lemma assembly_conserved:
  assumes "assembly_run plan required leading_total selected fee change extra"
  shows "utxo_total (as_leading plan @ selected) =
      total_value (as_outputs plan @ extra) + unat (fee + to_sat (as_burn plan))"
    and "unat (fee + to_sat (as_burn plan)) = unat fee + sats (as_burn plan)"
    and "utxo_total (as_leading plan @ selected) < 2 ^ 64"
    and "total_value (as_outputs plan @ extra) = total_value (as_outputs plan) + unat change"
proof -
  have run: "unat required = total_value (as_outputs plan) + sats (as_burn plan)"
    "sats (as_burn plan) \<le> 100000000000" "unat leading_total = utxo_total (as_leading plan)"
    "choose_funding plan required leading_total = Inr (selected, fee, change)"
    "change_output plan change = Inr extra"
    using assms by (simp_all add: assembly_run_def)
  note c = choose_funding_Inr(1) [OF run(4)]
  have zero: "\<not> as_value_bearing_leading plan \<Longrightarrow> utxo_total (as_leading plan) = 0"
    using assms by (simp add: assembly_run_def valueless_total)
  have tot: "utxo_total (as_leading plan @ selected) = unat required + unat fee + unat change"
    "unat fee \<le> 100000546" "utxo_total (as_leading plan @ selected) < 2 ^ 64"
    using c zero run(3) unat_u64 [of leading_total] by (auto split: if_splits)
  show sum: "unat (fee + to_sat (as_burn plan)) = unat fee + sats (as_burn plan)"
    using tot(2) run(2) by (intro unat_add_lem [THEN iffD1]) simp
  show extra: "total_value (as_outputs plan @ extra) = total_value (as_outputs plan) + unat change"
    using run(5) by (auto simp: change_output_Inr split: if_splits)
  show "utxo_total (as_leading plan @ selected) =
      total_value (as_outputs plan @ extra) + unat (fee + to_sat (as_burn plan))"
    unfolding sum extra using tot(1) run(1) by simp
  show "utxo_total (as_leading plan @ selected) < 2 ^ 64" by (rule tot(3))
qed

lemma amount_sum_eq:
  "total_sats as < 2 ^ 64 \<Longrightarrow> amount_checked_sum as = Some (Amount (of_nat (total_sats as)))"
  by (simp add: amount_checked_sum_Some unat_of_nat_u64)

lemma assemble_unsigned_Inr:
  "assemble_unsigned plan = Inr (t, inputs, expected, change) \<longleftrightarrow>
     (\<exists>required leading_total selected fee extra.
        assembly_run plan required leading_total selected fee change extra \<and>
        inputs = as_leading plan @ selected \<and> expected = fee + to_sat (as_burn plan) \<and>
        t = unsigned_tx inputs (as_outputs plan @ extra) 0 (to_height (as_expiry plan)))"
proof
  assume "assemble_unsigned plan = Inr (t, inputs, expected, change)"
  then obtain declared required leading_sum selected fee extra where
    val: "\<not> as_value_bearing_leading plan \<longrightarrow> (\<exists>xs. rmap check_leading_valueless (as_leading plan) = Inr xs)"
    and burn: "sats (as_burn plan) \<le> 100000000000"
    and declared: "amount_checked_sum (map (from_sat \<circ> out_value) (as_outputs plan)) = Some declared"
    and required: "checked_add (to_sat declared) (to_sat (as_burn plan)) = Some required"
    and leading: "amount_checked_sum (map utxo_satoshis (as_leading plan)) = Some leading_sum"
    and bearing: "as_value_bearing_leading plan \<longrightarrow> check_value_bearing plan = Inr ()"
    and choose: "choose_funding plan required (to_sat leading_sum) = Inr (selected, fee, change)"
    and extra: "change_output plan change = Inr extra"
    and res: "inputs = as_leading plan @ selected" "expected = fee + to_sat (as_burn plan)"
      "t = unsigned_tx inputs (as_outputs plan @ extra) 0 (to_height (as_expiry plan))"
    unfolding assemble_unsigned_def
    by (auto simp: rbind_Inr_iff ok_or_Inr_iff check_burn_ceiling_Inr Let_def split: if_splits)
  have "unat required = total_value (as_outputs plan) + sats (as_burn plan)"
    "sats leading_sum = utxo_total (as_leading plan)"
    using declared required leading by (simp_all add: checked_simps total_sats_values)
  then have "assembly_run plan required (to_sat leading_sum) selected fee change extra"
    using val burn bearing choose extra rmap_valueless [of "as_leading plan"]
    unfolding assembly_run_def by simp
  with res show "\<exists>required leading_total selected fee extra.
        assembly_run plan required leading_total selected fee change extra \<and>
        inputs = as_leading plan @ selected \<and> expected = fee + to_sat (as_burn plan) \<and>
        t = unsigned_tx inputs (as_outputs plan @ extra) 0 (to_height (as_expiry plan))" by blast
next
  assume "\<exists>required leading_total selected fee extra.
        assembly_run plan required leading_total selected fee change extra \<and>
        inputs = as_leading plan @ selected \<and> expected = fee + to_sat (as_burn plan) \<and>
        t = unsigned_tx inputs (as_outputs plan @ extra) 0 (to_height (as_expiry plan))"
  then obtain required leading_total selected fee extra where
    run: "assembly_run plan required leading_total selected fee change extra"
    and res: "inputs = as_leading plan @ selected" "expected = fee + to_sat (as_burn plan)"
      "t = unsigned_tx inputs (as_outputs plan @ extra) 0 (to_height (as_expiry plan))" by blast
  note c = assembly_conserved [OF run]
  have bounds: "total_value (as_outputs plan @ extra) < 2 ^ 64"
    using c(1,3) by linarith
  have sums: "amount_checked_sum (map (from_sat \<circ> out_value) (as_outputs plan))
      = Some (Amount (of_nat (total_value (as_outputs plan))))"
    "amount_checked_sum (map (from_sat \<circ> out_value) (as_outputs plan @ extra))
      = Some (Amount (of_nat (total_value (as_outputs plan @ extra))))"
    "amount_checked_sum (map utxo_satoshis (as_leading plan)) = Some (Amount (of_nat (utxo_total (as_leading plan))))"
    "amount_checked_sum (map utxo_satoshis (as_leading plan @ selected))
      = Some (Amount (of_nat (utxo_total (as_leading plan @ selected))))"
    using bounds c(3) by (subst amount_sum_eq; simp add: total_sats_values)+
  have req: "checked_add (of_nat (total_value (as_outputs plan))) (to_sat (as_burn plan)) = Some required"
    using run bounds unat_u64 [of required]
    by (simp add: checked_add_Some assembly_run_def unat_of_nat_u64)
  have lead: "of_nat (utxo_total (as_leading plan)) = leading_total"
    by (rule word_eq_of_nat [symmetric]) (use run in \<open>simp add: assembly_run_def\<close>)
  have ok: "check_conserved (of_nat (utxo_total (as_leading plan @ selected)))
      (of_nat (total_value (as_outputs plan @ extra))) (fee + to_sat (as_burn plan)) = Inr ()"
    unfolding check_conserved_Inr unat_of_nat_u64 [OF bounds] unat_of_nat_u64 [OF c(3)] by (rule c(1))
  have val: "\<exists>xs. (if as_value_bearing_leading plan then Inr []
      else rmap check_leading_valueless (as_leading plan)) = Inr xs"
    "(if as_value_bearing_leading plan then check_value_bearing plan else Inr ()) = Inr ()"
    using run rmap_valueless [of "as_leading plan"] by (auto simp: assembly_run_def)
  have rest: "check_burn_ceiling (to_sat (as_burn plan)) = Inr ()"
    "choose_funding plan required leading_total = Inr (selected, fee, change)"
    "change_output plan change = Inr extra"
    using run by (auto simp: assembly_run_def check_burn_ceiling_Inr)
  show "assemble_unsigned plan = Inr (t, inputs, expected, change)"
    using val(1) unfolding assemble_unsigned_def
    by (auto simp only: rbind_simps ok_or_simps sums req lead amount.sel ok val(2) rest res Let_def case_prod_conv)
qed

text \<open>
  C7: an assembled transaction moves exactly what was declared.  It spends the leading inputs
  in order, then funding of the caller that no outpoint repeats; it creates the declared
  outputs in order, then at most one change output, to the given script if there is one;
  inputs are worth outputs plus the miner fee plus the declared burn, to the satoshi and
  below \<open>2 ^ 64\<close>, and the sum reported as the fee does not wrap.  The fee is at most one coin
  and 546 satoshis, the burn at most a thousand coins.  With \<open>value_bearing_leading\<close> nothing
  else funds it and change needs an explicit script; without, the leading inputs are
  worth nothing.
\<close>

theorem assemble_conserves:
  assumes "assemble_unsigned plan = Inr (t, inputs, expected, change)"
  shows "\<exists>selected extra fee. inputs = as_leading plan @ selected \<and>
     t = unsigned_tx inputs (as_outputs plan @ extra) 0 (to_height (as_expiry plan)) \<and>
     change_output plan change = Inr extra \<and> (change = 0 \<or> 546 < unat change) \<and>
     utxo_total inputs = total_value (tx_outputs t) + unat expected \<and> utxo_total inputs < 2 ^ 64 \<and>
     total_value (tx_outputs t) = total_value (as_outputs plan) + unat change \<and>
     unat expected = fee + sats (as_burn plan) \<and> fee \<le> 100000546 \<and> sats (as_burn plan) \<le> 100000000000 \<and>
     (if as_value_bearing_leading plan
      then selected = [] \<and> as_change_script plan \<noteq> None \<and> distinct (map outpoint inputs)
      else utxo_total (as_leading plan) = 0 \<and> fee \<le> 100000000 \<and>
        set selected \<subseteq> set (as_funding plan) \<and> distinct (map outpoint selected))"
proof -
  from assms obtain required leading_total selected fee extra where
    run: "assembly_run plan required leading_total selected fee change extra"
    and res: "inputs = as_leading plan @ selected" "expected = fee + to_sat (as_burn plan)"
      "t = unsigned_tx inputs (as_outputs plan @ extra) 0 (to_height (as_expiry plan))"
    by (auto simp: assemble_unsigned_Inr)
  note c = assembly_conserved [OF run]
  have choose: "choose_funding plan required leading_total = Inr (selected, fee, change)"
    and lead: "unat leading_total = utxo_total (as_leading plan)"
    and parts: "change_output plan change = Inr extra" "sats (as_burn plan) \<le> 100000000000"
      "if as_value_bearing_leading plan then check_value_bearing plan = Inr ()
       else list_all (\<lambda>u. amount_is_zero (utxo_satoshis u)) (as_leading plan)"
    using run by (simp_all add: assembly_run_def)
  note f = choose_funding_Inr [OF choose impI [OF lead]]
  have outs: "tx_outputs t = as_outputs plan @ extra" by (simp add: res(3) unsigned_tx_def)
  have cases: "if as_value_bearing_leading plan
      then selected = [] \<and> as_change_script plan \<noteq> None \<and> distinct (map outpoint inputs)
      else utxo_total (as_leading plan) = 0 \<and> unat fee \<le> 100000000 \<and>
        set selected \<subseteq> set (as_funding plan) \<and> distinct (map outpoint selected)"
    using f(1) parts(3) valueless_total by (auto simp: res(1) check_value_bearing_Inr split: if_splits)
  have fee: "unat fee \<le> 100000546" using f(1) by (auto split: if_splits)
  show ?thesis
    by (intro exI [of _ selected] exI [of _ extra] exI [of _ "unat fee"] conjI)
      (use res cases fee c parts f(2) outs in simp_all)
qed

definition sample_assembly :: assembly where
  "sample_assembly = \<lparr>as_leading = [sample_coin\<lparr>utxo_satoshis := Amount 0\<rparr>], as_funding = [sample_coin],
     as_outputs = [\<lparr>out_value = 90000, out_script_pubkey = [1]\<rparr>], as_burn = Amount 200000,
     as_fee_output_count = 1, as_change_address = sample_address, as_change_script = None,
     as_value_bearing_leading = False, as_expiry = Never, as_fee_per_kb = 10000\<rparr>"

lemma sample_coin_funds:
  "select_utxos [sample_coin] 290000 1 10000 True =
     Inr \<lparr>sel_selected = [sample_coin], sel_change = 200000, sel_fee = 10000\<rparr>"
  by (simp add: select_utxos_def checked_add_def estimate_fee_value descending_def
      size_estimate_def fee_estimate_def select_loop.simps sample_coin_def amount_checked_sum_def
      amount_checked_add_def amount_zero_def Let_def DUST_THRESHOLD_def check_fee_ceiling_def
      MAX_MINER_FEE_def)

definition sample_assembled :: tx_v4 where
  "sample_assembled = unsigned_tx [sample_coin\<lparr>utxo_satoshis := Amount 0\<rparr>, sample_coin]
     [\<lparr>out_value = 90000, out_script_pubkey = [1]\<rparr>,
      \<lparr>out_value = 200000, out_script_pubkey = [0x76, 0xa9, 0x14] @ replicate 20 7 @ [0x88, 0xac]\<rparr>] 0 0"

lemma sample_assembled:
  "assemble_unsigned sample_assembly =
     Inr (sample_assembled, [sample_coin\<lparr>utxo_satoshis := Amount 0\<rparr>, sample_coin], 210000, 200000)"
proof -
  have "choose_funding sample_assembly 290000 0 = Inr ([sample_coin], 10000, 200000)"
    by (simp add: choose_funding_def sample_assembly_def sample_coin_funds)
  then have "assembly_run sample_assembly 290000 0 [sample_coin] 10000 200000
      [\<lparr>out_value = 200000, out_script_pubkey = [0x76, 0xa9, 0x14] @ replicate 20 7 @ [0x88, 0xac]\<rparr>]"
    by (simp add: assembly_run_def) (simp add: sample_assembly_def change_output_def sample_address_def
        p2pkh_script_pubkey_def amount_is_zero_def amount_zero_def)
  then show ?thesis
    unfolding assemble_unsigned_Inr sample_assembled_def
    by (intro exI conjI) (assumption, simp_all add: sample_assembly_def)
qed

lemma assemble_conserves_witness:
  "utxo_total [sample_coin\<lparr>utxo_satoshis := Amount 0\<rparr>, sample_coin]
     = total_value (tx_outputs sample_assembled) + (10000 + 200000)"
  using assemble_conserves [OF sample_assembled] by auto

text \<open>
  The value-bearing branch checks the fee ceiling before it folds dust into the fee, so a
  fee above the ceiling is declared; coin selection checks it after.
\<close>

lemma value_bearing_fee_past_ceiling:
  "choose_funding (sample_assembly\<lparr>as_value_bearing_leading := True, as_fee_per_kb := 227272727\<rparr>)
     0 100000546 = Inr ([], 100000546, 0)"
  by (simp add: choose_funding_def sample_assembly_def estimate_fee_value size_estimate_def fee_estimate_def
      check_fee_ceiling_def MAX_MINER_FEE_def DUST_THRESHOLD_def refuse_if_def Let_def)

definition unlocks ::
  "('sk, 'vk, 'sg) env \<Rightarrow> 'sk private_key \<Rightarrow> 'sk private_key list \<Rightarrow> bool \<Rightarrow> bytes \<Rightarrow> bytes \<Rightarrow> bool" where
  "unlocks E funding_key leading_keys leads h script_sig =
     (if leads then fulfillment_unlocks E leading_keys h script_sig else p2pkh_unlocks E funding_key h script_sig)"

lemma script_sig_for_unlocks:
  assumes "ec_lib_ok (env_ec E)"
    and "script_sig_for E fk lks (public_to_bytes (env_ec E) (private_public_key (env_ec E) fk)) leading i h = Inr s"
  shows "unlocks E fk lks (i < leading) h s"
  using assms(2) p2pkh_script_sig_unlocks [OF assms(1)] fulfillment_unlocks_run [OF assms(1)]
  by (auto simp: script_sig_for_def unlocks_def rbind_Inr_iff split: if_splits)

lemma sign_inputs_Inr:
  assumes "ec_lib_ok (env_ec E)" "sign_inputs E t fk lks us leading = Inr t'"
  shows "strip_scripts t' = strip_scripts t" "0 < leading \<Longrightarrow> lks \<noteq> []"
    "i < length us \<Longrightarrow> \<exists>h. sighash_of E t' i (us ! i) = Inr h \<and>
       unlocks E fk lks (i < leading) h (in_script_sig (tx_inputs t' ! i))"
proof -
  let ?pub = "public_to_bytes (env_ec E) (private_public_key (env_ec E) fk)"
  let ?sh = "\<lambda>n u t. sighash_of E t n u"
  from assms(2) have run: "sign_from ?sh (script_sig_for E fk lks ?pub leading) 0 t us = Inr t'"
    and keys: "0 < leading \<longrightarrow> lks \<noteq> []"
    by (auto simp: sign_inputs_def rbind_Inr_iff refuse_if_Inr_iff sign_inputs_from_eq)
  have strip: "?sh n u t = ?sh n u t'" if "strip_scripts t = strip_scripts t'" for n u t t'
    using that by (rule sighash_of_strip)
  have bound: "n < length (tx_inputs t)" if "?sh n u t = Inr h" for n u t h
    using that by (rule sighash_of_bound)
  from sign_from_Inr [of ?sh, OF strip bound run]
  have s: "strip_scripts t' = strip_scripts t"
    "\<forall>i < length us. \<exists>h s. ?sh i (us ! i) t' = Inr h \<and>
        script_sig_for E fk lks ?pub leading i h = Inr s \<and> in_script_sig (tx_inputs t' ! i) = s"
    by auto
  show "strip_scripts t' = strip_scripts t" by (rule s(1))
  show "0 < leading \<Longrightarrow> lks \<noteq> []" using keys by simp
  show "\<exists>h. sighash_of E t' i (us ! i) = Inr h \<and>
       unlocks E fk lks (i < leading) h (in_script_sig (tx_inputs t' ! i))" if "i < length us"
    using s(2) that script_sig_for_unlocks [OF assms(1)] by blast
qed

text \<open>
  C8: what \<open>assemble\<close> ships.  The hex is that of the conserved transaction of C30, with only
  its unlocking scripts filled in: each leading input carries one fulfillment with a
  verifying signature of every leading key, in order, on its own sighash of the whole
  transaction, and each funding input a verifying P2PKH signature; a leading input without
  keys is refused.  The reported fee, change and outpoints are those of the transaction, the
  id is the hash of its bytes, and the bytes parse back to it.
\<close>

theorem assemble_ships:
  fixes E :: "('sk, 'vk, 'sg) env"
  assumes "ec_lib_ok (env_ec E)" "assemble E fk lks plan = Inr st"
    and "list_all (wf_txid \<circ> utxo_txid) (as_leading plan @ as_funding plan)"
  shows "\<exists>t0 t inputs expected change raw.
     assemble_unsigned plan = Inr (t0, inputs, expected, change) \<and> strip_scripts t = t0 \<and>
     (as_leading plan \<noteq> [] \<longrightarrow> lks \<noteq> []) \<and>
     (\<forall>i < length inputs. \<exists>h. sighash_of E t i (inputs ! i) = Inr h \<and>
        unlocks E fk lks (i < length (as_leading plan)) h (in_script_sig (tx_inputs t ! i))) \<and>
     serialize t = Inr raw \<and> (length raw < usize_bound \<longrightarrow> deserialize raw = Inr t) \<and>
     st = \<lparr>st_hex = env_hex E raw, st_txid = txid_display (sha256d (hl_sha256 (env_hash E)) raw),
       st_fee = from_sat expected, st_change = from_sat change, st_inputs_used = map outpoint inputs\<rparr>"
proof -
  from assms(2) obtain t0 t inputs expected change where
    un: "assemble_unsigned plan = Inr (t0, inputs, expected, change)"
    and sign: "sign_inputs E t0 fk lks inputs (length (as_leading plan)) = Inr t"
    and st: "signed_transaction_of E t (from_sat expected) (from_sat change) inputs = Inr st"
    by (auto simp: assemble_def rbind_Inr_iff)
  from un obtain required leading_total selected fee extra where
    run: "assembly_run plan required leading_total selected fee change extra"
    and t0: "t0 = unsigned_tx inputs (as_outputs plan @ extra) 0 (to_height (as_expiry plan))"
    and inputs: "inputs = as_leading plan @ selected"
    by (auto simp: assemble_unsigned_Inr)
  note signed = sign_inputs_Inr [OF assms(1) sign]
  have strip: "strip_scripts t = unsigned_tx inputs (as_outputs plan @ extra) 0 (to_height (as_expiry plan))"
    using signed(1) by (simp add: t0)
  have choose: "choose_funding plan required leading_total = Inr (selected, fee, change)"
    and lead: "unat leading_total = utxo_total (as_leading plan)"
    using run by (simp_all add: assembly_run_def)
  have "set selected \<subseteq> set (as_funding plan)"
    using choose_funding_Inr(1) [OF choose impI [OF lead]] by (auto split: if_splits)
  then have ids: "list_all (wf_txid \<circ> utxo_txid) inputs"
    using assms(3) by (auto simp: inputs list_all_iff)
  from st obtain raw where raw: "serialize t = Inr raw"
    "st = \<lparr>st_hex = env_hex E raw, st_txid = txid_display (sha256d (hl_sha256 (env_hash E)) raw),
       st_fee = from_sat expected, st_change = from_sat change, st_inputs_used = map outpoint inputs\<rparr>"
    by (auto simp: signed_transaction_of_Inr)
  show ?thesis
  proof (intro exI conjI)
    show "assemble_unsigned plan = Inr (t0, inputs, expected, change)" by (rule un)
    show "strip_scripts t = t0" by (simp add: strip t0)
    show "serialize t = Inr raw" by (rule raw(1))
    show "as_leading plan \<noteq> [] \<longrightarrow> lks \<noteq> []" using signed(2) by simp
    show "\<forall>i < length inputs. \<exists>h. sighash_of E t i (inputs ! i) = Inr h \<and>
        unlocks E fk lks (i < length (as_leading plan)) h (in_script_sig (tx_inputs t ! i))"
      using signed(3) by blast
    show "length raw < usize_bound \<longrightarrow> deserialize raw = Inr t"
      using unsigned_tx_reads_back [OF strip ids raw(1)] by blast
  qed (rule raw(2))
qed

text \<open>The sample plan has a leading input and is signed with one leading key.\<close>

lemma sample_sign_total:
  assumes "n + length us \<le> length (tx_inputs t)"
  shows "\<exists>t'. sign_inputs_from sample_env sample_key [sample_key]
    (public_to_bytes (env_ec sample_env) (private_public_key (env_ec sample_env) sample_key)) 1 n t us = Inr t'"
  using assms
proof (induction us arbitrary: n t)
  case (Cons u us)
  let ?pub = "public_to_bytes (env_ec sample_env) (private_public_key (env_ec sample_env) sample_key)"
  from Cons.prems obtain h where h: "sighash_of sample_env t n u = Inr h"
    using sighash_of_total [of n t sample_env u] by auto
  have "length (Rep_key32 k) = 32" "length (Rep_sig64 g) = 64" for k g
    using Rep_key32 [of k] Rep_sig64 [of g] by simp_all
  then have "\<exists>s. script_sig_for sample_env sample_key [sample_key] ?pub 1 n h = Inr s"
    using p2pkh_script_sig_total [OF sample_signs_all, of sample_key h]
    by (simp add: script_sig_for_def leading_signature_def sign_prehash_compact_def sign_prehash_def
        rbind_Inr_iff map_err_Inr_iff ok_or_Inr_iff fulfillment_Inr)
      (simp add: sample_env_def toy_ec_lib_def public_to_bytes_def private_public_key_def signature_entry_def)
  then obtain s where "script_sig_for sample_env sample_key [sample_key] ?pub 1 n h = Inr s" by blast
  with h Cons.IH [of "Suc n" "set_script_sig t n s"] Cons.prems show ?case
    by (simp add: set_script_sig_inputs)
qed simp

lemma assemble_ships_witness:
  "\<exists>t h st. assemble sample_env sample_key [sample_key] sample_assembly = Inr st \<and>
     strip_scripts t = sample_assembled \<and>
     sighash_of sample_env t 0 (sample_coin\<lparr>utxo_satoshis := Amount 0\<rparr>) = Inr h \<and>
     fulfillment_unlocks sample_env [sample_key] h (in_script_sig (tx_inputs t ! 0))"
proof -
  let ?us = "[sample_coin\<lparr>utxo_satoshis := Amount 0\<rparr>, sample_coin]"
  have "length (tx_inputs sample_assembled) = 2" by (simp add: sample_assembled_def)
  then obtain t where "sign_inputs_from sample_env sample_key [sample_key]
      (public_to_bytes (env_ec sample_env) (private_public_key (env_ec sample_env) sample_key)) 1 0
      sample_assembled ?us = Inr t"
    using sample_sign_total [of 0 ?us sample_assembled] by auto
  then have sign: "sign_inputs sample_env sample_assembled sample_key [sample_key] ?us 1 = Inr t"
    by (simp add: sign_inputs_def refuse_if_def)
  have "transparent_only sample_assembled" by (simp add: sample_assembled_def)
  then have "transparent_only t"
    using transparent_only_strip [OF sign_inputs_Inr(1) [OF sample_env_ok sign]] by simp
  from signed_transaction_of_total [OF this] obtain st where
    "signed_transaction_of sample_env t (from_sat 210000) (from_sat 200000) ?us = Inr st" by blast
  then have st: "assemble sample_env sample_key [sample_key] sample_assembly = Inr st"
    by (simp add: assemble_def sample_assembled) (simp add: sample_assembly_def sign [simplified])
  have "list_all (wf_txid \<circ> utxo_txid) (as_leading sample_assembly @ as_funding sample_assembly)"
    by (simp add: sample_assembly_def sample_coin_def wf_txid_def)
  from assemble_ships [OF sample_env_ok st this] obtain t' where
    strip: "strip_scripts t' = sample_assembled"
    and scripts: "\<forall>i < length ?us. \<exists>h. sighash_of sample_env t' i (?us ! i) = Inr h \<and>
      unlocks sample_env sample_key [sample_key] (i < length (as_leading sample_assembly)) h
        (in_script_sig (tx_inputs t' ! i))"
    unfolding sample_assembled by auto
  have "0 < length (as_leading sample_assembly)" by (simp add: sample_assembly_def)
  with spec [OF scripts, of 0] st strip show ?thesis by (auto simp: unlocks_def)
qed

end
