(* ===== verification/Identity.thy ===== *)
theory Identity
  imports Cc Wire_Sighash
begin

text \<open>
  VerusIDs (\<open>verus-tx-protocol/src/identity.rs\<close>): the id derived from a name, the identity
  object as the chain stores it, its timelock, and its two serializations.  The file has a
  reader of its own, laxer than the transaction reader: counts need not be canonical.
\<close>

section \<open>Names and ids\<close>

text \<open>A char below 0x80 is one byte, the bytes of the others are all above: bytewise lowering.\<close>

definition to_lower_c_locale :: "str \<Rightarrow> str" where
  "to_lower_c_locale name =
     map (\<lambda>c. if 65 \<le> (of_char c :: nat) \<and> (of_char c :: nat) \<le> 90
              then char_of (of_char c + 32 :: nat) else c) name"

definition identity_id :: "hash_lib \<Rightarrow> str \<Rightarrow> bytes option \<Rightarrow> bytes" where
  "identity_id H name parent =
     (let id_hash = sha256d (hl_sha256 H) (ascii (to_lower_c_locale name));
          id_hash = (case parent of
              None \<Rightarrow> id_hash
            | Some p \<Rightarrow> if p = replicate 20 0 then id_hash else sha256d (hl_sha256 H) (p @ id_hash))
      in hash160 H id_hash)"

section \<open>The object\<close>

definition IDENTITY_VERSION_VAULT :: u32 where "IDENTITY_VERSION_VAULT = 2"
definition IDENTITY_VERSION_PBAAS :: u32 where "IDENTITY_VERSION_PBAAS = 3"

definition FLAG_REVOKED :: u32 where "FLAG_REVOKED = 0x8000"
definition FLAG_ACTIVE_CURRENCY :: u32 where "FLAG_ACTIVE_CURRENCY = 0x1"
definition FLAG_LOCKED :: u32 where "FLAG_LOCKED = 0x2"
definition MAX_UNLOCK_DELAY :: u32 where "MAX_UNLOCK_DELAY = 60 * 24 * 22 * 365"
definition FLAG_TOKENIZED_CONTROL :: u32 where "FLAG_TOKENIZED_CONTROL = 0x4"

record identity =
  id_version :: u32
  id_flags :: u32
  id_primary_addresses :: "destination list"
  id_min_sigs :: u32
  id_parent :: bytes
  id_name :: str
  id_content_multimap :: "(bytes \<times> bytes list) list"
  id_content_map :: "(bytes \<times> bytes) list"
  id_revocation_authority :: bytes
  id_recovery_authority :: bytes
  id_private_addresses :: "bytes list"
  id_system_id :: bytes
  id_unlock_after :: u32

section \<open>Timelocks and flags\<close>

datatype timelock = NoTimelock | UntilBlock u32 | DelayAfterUnlock u32

definition timelock_of :: "identity \<Rightarrow> timelock" where
  "timelock_of i =
     (if id_flags i AND FLAG_LOCKED \<noteq> 0 then DelayAfterUnlock (id_unlock_after i)
      else if id_unlock_after i \<noteq> 0 then UntilBlock (id_unlock_after i)
      else NoTimelock)"

fun apply_to :: "timelock \<Rightarrow> identity \<Rightarrow> identity" where
  "apply_to NoTimelock i = i\<lparr>id_flags := id_flags i AND NOT FLAG_LOCKED, id_unlock_after := 0\<rparr>"
| "apply_to (UntilBlock height) i =
     i\<lparr>id_flags := id_flags i AND NOT FLAG_LOCKED, id_unlock_after := height\<rparr>"
| "apply_to (DelayAfterUnlock blocks) i =
     i\<lparr>id_flags := id_flags i OR FLAG_LOCKED, id_unlock_after := blocks\<rparr>"

fun spendable_at :: "timelock \<Rightarrow> u32 \<Rightarrow> bool" where
  "spendable_at NoTimelock height = True"
| "spendable_at (UntilBlock unlock) height = (unlock \<le> height)"
| "spendable_at (DelayAfterUnlock _) height = False"

definition has_tokenized_control :: "identity \<Rightarrow> bool" where
  "has_tokenized_control i \<longleftrightarrow> id_flags i AND FLAG_TOKENIZED_CONTROL \<noteq> 0"

definition is_revoked :: "identity \<Rightarrow> bool" where
  "is_revoked i \<longleftrightarrow> id_flags i AND FLAG_REVOKED \<noteq> 0"

definition is_locked :: "identity \<Rightarrow> bool" where
  "is_locked i \<longleftrightarrow> id_flags i AND FLAG_LOCKED \<noteq> 0"

section \<open>Writing\<close>

text \<open>
  \<open>write_compact_size\<close> and \<open>write_var_slice\<close> of this file write what those of \<open>verus-wire\<close>
  do, for a \<open>usize\<close> count.
\<close>

definition id_compact_size :: "nat \<Rightarrow> bytes" where
  "id_compact_size value =
     (if value \<le> 0xfc then [of_nat value]
      else if value \<le> 0xffff then 0xfd # u16_le (of_nat value)
      else if value \<le> 0xffffffff then 0xfe # u32_le (of_nat value)
      else 0xff # u64_le (of_nat value))"

definition id_var_slice :: "bytes \<Rightarrow> bytes" where
  "id_var_slice bs = id_compact_size (length bs) @ bs"

definition malformed_identity :: "str \<Rightarrow> tx_error" where
  "malformed_identity detail = MalformedIdentity detail"

definition multimap_entry :: "bytes \<times> bytes list \<Rightarrow> bytes" where
  "multimap_entry e =
     (case e of (key, vs) \<Rightarrow> key @ id_compact_size (length vs) @ concat (map id_var_slice vs))"

definition multimap_bytes :: "identity \<Rightarrow> tx_error + bytes" where
  "multimap_bytes i =
     (if IDENTITY_VERSION_PBAAS \<le> id_version i then
        Inr (id_compact_size (length (id_content_multimap i)) @
          concat (map multimap_entry (id_content_multimap i)))
      else if id_content_multimap i \<noteq> [] then
        Inl (malformed_identity (''version '' @ dec_string (unat (id_version i)) @
          '' carries no content multimap, but '' @ dec_string (length (id_content_multimap i)) @
          '' entries were set''))
      else Inr [])"

definition identity_to_bytes :: "identity \<Rightarrow> tx_error + bytes" where
  "identity_to_bytes i =
     rbind (refuse_if (id_version i = 0 \<or> IDENTITY_VERSION_PBAAS < id_version i)
       (malformed_identity (''identity version '' @ dec_string (unat (id_version i)) @
          '' is not one this crate encodes''))) (\<lambda>_.
     rbind (multimap_bytes i) (\<lambda>multimap.
     Inr (u32_le (id_version i) @ u32_le (id_flags i) @
       id_compact_size (length (id_primary_addresses i)) @
       concat (map (id_var_slice \<circ> to_push) (id_primary_addresses i)) @
       u32_le (id_min_sigs i) @ id_parent i @ id_var_slice (ascii (id_name i)) @
       multimap @
       id_compact_size (length (id_content_map i)) @
       concat (map (\<lambda>(key, v). key @ v) (id_content_map i)) @
       id_revocation_authority i @ id_recovery_authority i @
       id_compact_size (length (id_private_addresses i)) @ concat (id_private_addresses i) @
       (if IDENTITY_VERSION_VAULT \<le> id_version i
        then id_system_id i @ u32_le (id_unlock_after i) else []))))"

section \<open>Reading\<close>

type_synonym 'a identity_rd = "(tx_error, 'a) rd"

definition id_remaining :: "cursor \<Rightarrow> nat" where
  "id_remaining r = length (cur_bytes r) - cur_at r"

definition id_take :: "nat \<Rightarrow> bytes identity_rd" where
  "id_take count r =
     (if usize_bound \<le> cur_at r + count then Inl (malformed_identity ''length overflows'')
      else if cur_at r + count \<le> length (cur_bytes r)
        then Inr (take count (drop (cur_at r) (cur_bytes r)), r\<lparr>cur_at := cur_at r + count\<rparr>)
      else Inl (malformed_identity (''wanted '' @ dec_string count @ '' bytes, '' @
             dec_string (id_remaining r) @ '' left'')))"

definition id_u32 :: "u32 identity_rd" where
  "id_u32 = rd_bind (id_take 4) (\<lambda>bs. rd_return (u32_from_le bs))"

definition id_array20 :: "bytes identity_rd" where
  "id_array20 = id_take 20"

definition id_count_value :: "byte \<Rightarrow> u64 identity_rd" where
  "id_count_value first =
     (if first \<le> 0xfc then rd_return (ucast first)
      else if first = 0xfd then rd_bind (id_take 2) (\<lambda>bs. rd_return (ucast (u16_from_le bs)))
      else if first = 0xfe then rd_bind (id_take 4) (\<lambda>bs. rd_return (ucast (u32_from_le bs)))
      else rd_bind (id_take 8) (\<lambda>bs. rd_return (u64_from_le bs)))"

text \<open>\<open>usize\<close> has 64 bits, so the conversion of the count never fails.\<close>

definition id_count :: "nat identity_rd" where
  "id_count =
     rd_bind (id_take 1) (\<lambda>bs.
     rd_bind (id_count_value (bs ! 0)) (\<lambda>value r.
       if id_remaining r < unat value then
         Inl (malformed_identity (''a count of '' @ dec_string (unat value) @ '' exceeds the '' @
           dec_string (id_remaining r) @ '' bytes remaining''))
       else Inr (unat value, r)))"

definition id_slice :: "bytes identity_rd" where
  "id_slice = rd_bind id_count id_take"

definition id_vec :: "'a identity_rd \<Rightarrow> 'a list identity_rd" where
  "id_vec item = rd_bind id_count (\<lambda>count. rd_times count item)"

definition id_destination :: "destination identity_rd" where
  "id_destination = rd_bind id_slice (\<lambda>push. rd_lift (from_push push))"

definition id_name_reader :: "str identity_rd" where
  "id_name_reader =
     rd_bind id_slice (\<lambda>bs. rd_lift (map_err
       (\<lambda>e. malformed_identity (''identity name is not UTF-8: '' @ utf8_error_string e)) (from_utf8 bs)))"

definition id_multimap_entry :: "(bytes \<times> bytes list) identity_rd" where
  "id_multimap_entry = rd_bind id_array20 (\<lambda>key. rd_bind (id_vec id_slice) (\<lambda>items. rd_return (key, items)))"

definition id_map_entry :: "(bytes \<times> bytes) identity_rd" where
  "id_map_entry = rd_bind id_array20 (\<lambda>key. rd_bind (id_take 32) (\<lambda>v. rd_return (key, v)))"

definition id_vault :: "u32 \<Rightarrow> bytes \<Rightarrow> (bytes \<times> u32) identity_rd" where
  "id_vault version parent =
     (if IDENTITY_VERSION_VAULT \<le> version
      then rd_bind id_array20 (\<lambda>system. rd_bind id_u32 (\<lambda>unlock. rd_return (system, unlock)))
      else rd_return (parent, 0))"

definition id_expect_end :: "cursor \<Rightarrow> tx_error + unit" where
  "id_expect_end r =
     refuse_if (cur_at r \<noteq> length (cur_bytes r))
       (malformed_identity (dec_string (length (cur_bytes r) - cur_at r) @
          '' trailing bytes after the identity''))"

text \<open>\<open>Identity::from_bytes\<close> up to the check that everything has been read.\<close>

definition identity_reader :: "identity identity_rd" where
  "identity_reader =
     rd_bind id_u32 (\<lambda>version.
     if version = 0 \<or> IDENTITY_VERSION_PBAAS < version then
       rd_fail (malformed_identity (''identity version '' @ dec_string (unat version) @
         '' is not one this crate decodes''))
     else
     rd_bind id_u32 (\<lambda>flags.
     rd_bind (id_vec id_destination) (\<lambda>primary_addresses.
     rd_bind id_u32 (\<lambda>min_sigs.
     rd_bind id_array20 (\<lambda>parent.
     rd_bind id_name_reader (\<lambda>name.
     rd_bind (if IDENTITY_VERSION_PBAAS \<le> version then id_vec id_multimap_entry else rd_return [])
       (\<lambda>content_multimap.
     rd_bind (id_vec id_map_entry) (\<lambda>content_map.
     rd_bind id_array20 (\<lambda>revocation_authority.
     rd_bind id_array20 (\<lambda>recovery_authority.
     rd_bind (id_vec (id_take 43)) (\<lambda>private_addresses.
     rd_bind (id_vault version parent) (\<lambda>(system_id, unlock_after).
     rd_return \<lparr>id_version = version, id_flags = flags, id_primary_addresses = primary_addresses,
        id_min_sigs = min_sigs, id_parent = parent, id_name = name,
        id_content_multimap = content_multimap, id_content_map = content_map,
        id_revocation_authority = revocation_authority, id_recovery_authority = recovery_authority,
        id_private_addresses = private_addresses, id_system_id = system_id,
        id_unlock_after = unlock_after\<rparr>))))))))))))"

definition identity_from_bytes :: "bytes \<Rightarrow> tx_error + identity" where
  "identity_from_bytes bs =
     rbind (identity_reader (cursor_new bs)) (\<lambda>(i, r). rbind (id_expect_end r) (\<lambda>_. Inr i))"

section \<open>The reader reads what the writer writes\<close>

lemma id_take_iff:
  "wf_cursor r \<Longrightarrow> id_take n r = Inr (xs, r') \<longleftrightarrow>
     n \<le> length (rest r) \<and> xs = take n (rest r) \<and> r' = advance r n"
  by (auto simp: id_take_def wf_cursor_def length_rest rest_def advance_def)

interpretation id_raw: codec "\<lambda>xs. xs" "id_take n" "\<lambda>xs. length xs = n" for n
  by unfold_locales (auto simp: id_take_iff)

lemmas decodes_take = id_raw.decodes_dec

lemma yields_take [yields_intros]: "yields (id_take n) (\<lambda>xs. length xs = n)"
  unfolding yields_def using id_raw.dec_ok id_raw.dec_wf by blast

lemma decodes_u32: "decodes id_u32 (u32_le v) v"
  unfolding id_u32_def
  by (rule decodes_bind_last [OF decodes_take])
    (simp_all add: length_uN_le uN_from_le_uN_le decodes_return)

lemma yields_any: "yields m P \<Longrightarrow> yields m (\<lambda>_. True)"
  by (rule yields_mono) simp_all

lemma yields_u32 [yields_intros]: "yields id_u32 (\<lambda>_. True)"
  unfolding id_u32_def by (rule yields_bind [OF yields_take]) (simp add: yields_return)

lemma ucast_of_nat_small:
  "n < 2 ^ LENGTH('a) \<Longrightarrow> ucast (of_nat n :: 'a::len word) = (of_nat n :: 'b::len word)"
  by (metis mod_less of_nat_unat unat_of_nat)

lemma id_count_value_run:
  assumes "n < usize_bound" "id_compact_size n = b # xs"
  shows "decodes (id_count_value b) xs (of_nat n)"
proof -
  consider (one) "n \<le> 0xfc" | (two) "0xfc < n" "n \<le> 0xffff" | (four) "0xffff < n" "n \<le> 0xffffffff"
    | (eight) "0xffffffff < n" by linarith
  then show ?thesis
  proof cases
    case one
    then have b: "b = of_nat n" "xs = []" using assms(2) by (simp_all add: id_compact_size_def)
    have u: "unat (of_nat n :: byte) = n" using one by (simp add: unat_of_nat)
    have "(of_nat n :: byte) \<le> 0xfc" unfolding word_le_nat_alt u using one by simp
    moreover have "ucast (of_nat n :: byte) = (of_nat n :: u64)"
      using u by (metis of_nat_unat)
    ultimately show ?thesis by (simp add: b id_count_value_def decodes_return)
  next
    case two
    then have b: "b = 0xfd" "xs = u16_le (of_nat n)" using assms(2) by (simp_all add: id_compact_size_def)
    have "ucast (of_nat n :: u16) = (of_nat n :: u64)"
      by (rule ucast_of_nat_small) (use two in simp)
    then show ?thesis
      unfolding b id_count_value_def
      by (simp add: decodes_bind_last [OF decodes_take] length_uN_le uN_from_le_uN_le decodes_return)
  next
    case four
    then have b: "b = 0xfe" "xs = u32_le (of_nat n)" using assms(2) by (simp_all add: id_compact_size_def)
    have "ucast (of_nat n :: u32) = (of_nat n :: u64)"
      by (rule ucast_of_nat_small) (use four in simp)
    then show ?thesis
      unfolding b id_count_value_def
      by (simp add: decodes_bind_last [OF decodes_take] length_uN_le uN_from_le_uN_le decodes_return)
  next
    case eight
    then have b: "b = 0xff" "xs = u64_le (of_nat n)" using assms(2) by (simp_all add: id_compact_size_def)
    show ?thesis
      unfolding b id_count_value_def
      by (simp add: decodes_bind_last [OF decodes_take] length_uN_le uN_from_le_uN_le decodes_return)
  qed
qed

lemma id_compact_size_nonempty:
  obtains b xs where "id_compact_size n = b # xs"
proof -
  have "id_compact_size n \<noteq> []" by (simp add: id_compact_size_def)
  then show thesis using that by (cases "id_compact_size n") auto
qed

text \<open>A count is believed when at least that many bytes follow it.\<close>

lemma decodes_count:
  assumes n: "n \<le> length ys" and f: "decodes (f n) ys b"
  shows "decodes (rd_bind id_count f) (id_compact_size n @ ys) b"
  unfolding decodes_def
proof (intro allI impI)
  fix r suf
  assume r: "wf_cursor r" "rest r = (id_compact_size n @ ys) @ suf"
  obtain c xs where c: "id_compact_size n = c # xs" by (rule id_compact_size_nonempty)
  have bound: "n < usize_bound" using wf_rest_bound [OF r(1)] n r(2) by simp
  then have u: "unat (of_nat n :: u64) = n" by (simp add: unat_of_nat)
  have "rest r = [c] @ (xs @ ys @ suf)" using r(2) c by simp
  then have 1: "id_take 1 r = Inr ([c], advance r 1)"
    using decodesD [OF decodes_take r(1), of "[c]" 1] by simp
  have wf1: "wf_cursor (advance r 1)" using r c by (intro wf_advance) auto
  have 2: "id_count_value c (advance r 1) = Inr (of_nat n, advance r (length (id_compact_size n)))"
    using decodesD [OF id_count_value_run [OF bound c] wf1, of "ys @ suf"] r(2) c by simp
  have wf2: "wf_cursor (advance r (length (id_compact_size n)))"
    using r by (intro wf_advance) auto
  have rest2: "rest (advance r (length (id_compact_size n))) = ys @ suf" using r(2) by simp
  then have "\<not> id_remaining (advance r (length (id_compact_size n))) < n"
    using n unfolding id_remaining_def length_rest [symmetric] by simp
  then have 3: "id_count r = Inr (n, advance r (length (id_compact_size n)))"
    unfolding id_count_def using 1 2 u by (simp add: rd_bind_def)
  have "f n (advance r (length (id_compact_size n))) =
      Inr (b, advance (advance r (length (id_compact_size n))) (length ys))"
    by (rule decodesD [OF f wf2 rest2])
  with 3 show "rd_bind id_count f r = Inr (b, advance r (length (id_compact_size n @ ys)))"
    by (simp add: rd_bind_def)
qed

lemma decodes_slice [decodes_intros]: "decodes id_slice (id_var_slice bs) bs"
  unfolding id_slice_def id_var_slice_def by (rule decodes_count) (simp_all add: decodes_take)

lemma length_concat_ge:
  "(\<And>x. x \<in> set xs \<Longrightarrow> enc x \<noteq> []) \<Longrightarrow> length xs \<le> length (concat (map enc xs))"
proof (induction xs)
  case (Cons x xs)
  from Cons.prems [of x] have "1 \<le> length (enc x)" by (cases "enc x") auto
  moreover have "length xs \<le> length (concat (map enc xs))" by (rule Cons.IH) (simp add: Cons.prems)
  ultimately show ?case by simp
qed simp

lemma decodes_vec:
  assumes "\<And>x. x \<in> set xs \<Longrightarrow> decodes item (enc x) x" "\<And>x. x \<in> set xs \<Longrightarrow> enc x \<noteq> []"
  shows "decodes (id_vec item) (id_compact_size (length xs) @ concat (map enc xs)) xs"
  unfolding id_vec_def
proof (rule decodes_count)
  show "length xs \<le> length (concat (map enc xs))" using assms(2) by (rule length_concat_ge)
  show "decodes (rd_times (length xs) item) (concat (map enc xs)) xs"
    using assms(1) by (rule decodes_times)
qed

lemma id_var_slice_nonempty [simp]: "id_var_slice bs \<noteq> []"
  by (simp add: id_var_slice_def id_compact_size_def)

lemma decodes_destination: "wf_destination d \<Longrightarrow> decodes id_destination (id_var_slice (to_push d)) d"
  unfolding id_destination_def
  by (rule decodes_bind_last [OF decodes_slice decodes_lift]) (simp add: from_push_iff)

lemma decodes_name: "valid_utf8 (ascii name) \<Longrightarrow> decodes id_name_reader (id_var_slice (ascii name)) name"
  unfolding id_name_reader_def
  by (rule decodes_bind_last [OF decodes_slice decodes_lift]) (simp add: map_err_Inr_iff from_utf8_Inr)

lemma decodes_multimap_entry:
  assumes "length (fst e) = 20"
  shows "decodes id_multimap_entry (multimap_entry e) e"
proof -
  obtain key vs where e: "e = (key, vs)" by force
  have "decodes (id_vec id_slice) (id_compact_size (length vs) @ concat (map id_var_slice vs)) vs"
    by (rule decodes_vec) (simp_all add: decodes_slice)
  then have "decodes (rd_bind (id_vec id_slice) (\<lambda>items. rd_return (key, items)))
      (id_compact_size (length vs) @ concat (map id_var_slice vs)) (key, vs)"
    by (rule decodes_bind_last) (rule decodes_return)
  then show ?thesis
    unfolding id_multimap_entry_def id_array20_def e multimap_entry_def prod.case
    by (intro decodes_bind [OF decodes_take]) (use assms e in simp_all)
qed

lemma decodes_map_entry:
  assumes "length (fst e) = 20" "length (snd e) = 32"
  shows "decodes id_map_entry ((\<lambda>(key, v). key @ v) e) e"
proof (cases e)
  case (Pair key v)
  show ?thesis
    unfolding id_map_entry_def id_array20_def Pair prod.case
    by (intro decodes_bind [OF decodes_take] decodes_bind_last [OF decodes_take] decodes_return)
      (use assms Pair in simp_all)
qed

text \<open>
  The identities the types of the fields and the version allow: hashes and addresses of their
  fixed lengths, a UTF-8 name, and no field set that the version does not carry.
\<close>

definition wf_identity :: "identity \<Rightarrow> bool" where
  "wf_identity i \<longleftrightarrow>
     1 \<le> unat (id_version i) \<and> unat (id_version i) \<le> 3 \<and>
     list_all wf_destination (id_primary_addresses i) \<and>
     length (id_parent i) = 20 \<and> valid_utf8 (ascii (id_name i)) \<and>
     list_all (\<lambda>e. length (fst e) = 20) (id_content_multimap i) \<and>
     list_all (\<lambda>e. length (fst e) = 20 \<and> length (snd e) = 32) (id_content_map i) \<and>
     length (id_revocation_authority i) = 20 \<and> length (id_recovery_authority i) = 20 \<and>
     list_all (\<lambda>a. length a = 43) (id_private_addresses i) \<and> length (id_system_id i) = 20 \<and>
     (unat (id_version i) < 3 \<longrightarrow> id_content_multimap i = []) \<and>
     (unat (id_version i) < 2 \<longrightarrow> id_system_id i = id_parent i \<and> id_unlock_after i = 0)"

lemma version_tests:
  "version = 0 \<or> IDENTITY_VERSION_PBAAS < version \<longleftrightarrow> \<not> (1 \<le> unat version \<and> unat version \<le> 3)"
  "IDENTITY_VERSION_PBAAS \<le> version \<longleftrightarrow> 3 \<le> unat version"
  "IDENTITY_VERSION_VAULT \<le> version \<longleftrightarrow> 2 \<le> unat version"
  by (auto simp: IDENTITY_VERSION_PBAAS_def IDENTITY_VERSION_VAULT_def word_le_nat_alt word_less_nat_alt
      unat_eq_0 Suc_le_eq unat_gt_0)

definition vault_bytes :: "identity \<Rightarrow> bytes" where
  "vault_bytes i = (if 2 \<le> unat (id_version i) then id_system_id i @ u32_le (id_unlock_after i) else [])"

definition multimap_part :: "identity \<Rightarrow> bytes" where
  "multimap_part i = (if 3 \<le> unat (id_version i)
     then id_compact_size (length (id_content_multimap i)) @ concat (map multimap_entry (id_content_multimap i))
     else [])"

lemma identity_to_bytes_Inr:
  "identity_to_bytes i = Inr bs \<longleftrightarrow>
     1 \<le> unat (id_version i) \<and> unat (id_version i) \<le> 3 \<and>
     (unat (id_version i) < 3 \<longrightarrow> id_content_multimap i = []) \<and>
     bs = u32_le (id_version i) @ u32_le (id_flags i) @
       (id_compact_size (length (id_primary_addresses i)) @
        concat (map (id_var_slice \<circ> to_push) (id_primary_addresses i))) @
       u32_le (id_min_sigs i) @ id_parent i @ id_var_slice (ascii (id_name i)) @
       multimap_part i @
       (id_compact_size (length (id_content_map i)) @ concat (map (\<lambda>(key, v). key @ v) (id_content_map i))) @
       id_revocation_authority i @ id_recovery_authority i @
       (id_compact_size (length (id_private_addresses i)) @ concat (map (\<lambda>a. a) (id_private_addresses i))) @
       vault_bytes i"
  by (auto simp: identity_to_bytes_def rbind_Inr_iff refuse_if_Inr_iff multimap_bytes_def multimap_part_def
      vault_bytes_def version_tests)

lemma decodes_vault:
  assumes "wf_identity i"
  shows "decodes (id_vault (id_version i) (id_parent i)) (vault_bytes i) (id_system_id i, id_unlock_after i)"
proof (cases "2 \<le> unat (id_version i)")
  case True
  with assms show ?thesis
    unfolding id_vault_def vault_bytes_def version_tests id_array20_def
    by (simp add: wf_identity_def)
      (intro decodes_bind [OF decodes_take] decodes_bind_last [OF decodes_u32] decodes_return; simp)
next
  case False
  with assms show ?thesis
    by (simp add: id_vault_def vault_bytes_def version_tests wf_identity_def decodes_return)
qed

lemma decodes_multimap:
  assumes "wf_identity i"
  shows "decodes (if IDENTITY_VERSION_PBAAS \<le> id_version i then id_vec id_multimap_entry else rd_return [])
    (multimap_part i) (id_content_multimap i)"
proof (cases "3 \<le> unat (id_version i)")
  case True
  have "multimap_entry e \<noteq> []" for e
    by (cases e) (simp add: multimap_entry_def id_compact_size_def)
  with True assms show ?thesis
    unfolding multimap_part_def version_tests
    by (simp add: wf_identity_def list_all_iff decodes_vec decodes_multimap_entry)
next
  case False
  with assms show ?thesis
    by (simp add: multimap_part_def version_tests wf_identity_def decodes_return)
qed

lemma decodes_identity:
  assumes wf: "wf_identity i" and bs: "identity_to_bytes i = Inr bs"
  shows "decodes identity_reader bs i"
proof -
  note bytes = bs [unfolded identity_to_bytes_Inr, THEN conjunct2, THEN conjunct2, THEN conjunct2]
  from bs have v: "\<not> (id_version i = 0 \<or> IDENTITY_VERSION_PBAAS < id_version i)"
    by (simp add: identity_to_bytes_Inr version_tests)
  have to: "to_push d \<noteq> []" if "wf_destination d" for d
    using length_to_push [OF that] by auto
  have primary: "decodes (id_vec id_destination) (id_compact_size (length (id_primary_addresses i)) @
      concat (map (id_var_slice \<circ> to_push) (id_primary_addresses i))) (id_primary_addresses i)"
    by (rule decodes_vec) (use wf in \<open>auto simp: wf_identity_def list_all_iff decodes_destination\<close>)
  have cmap: "decodes (id_vec id_map_entry) (id_compact_size (length (id_content_map i)) @
      concat (map (\<lambda>(key, v). key @ v) (id_content_map i))) (id_content_map i)"
  proof (rule decodes_vec)
    fix e assume "e \<in> set (id_content_map i)"
    then have e: "length (fst e) = 20" "length (snd e) = 32"
      using wf by (auto simp: wf_identity_def list_all_iff)
    then show "decodes id_map_entry ((\<lambda>(key, v). key @ v) e) e" by (rule decodes_map_entry)
    show "(\<lambda>(key, v). key @ v) e \<noteq> []" using e by (cases e) auto
  qed
  have sapling: "decodes (id_vec (id_take 43)) (id_compact_size (length (id_private_addresses i)) @
      concat (map (\<lambda>a. a) (id_private_addresses i))) (id_private_addresses i)"
    by (rule decodes_vec) (use wf in \<open>auto simp: wf_identity_def list_all_iff decodes_take\<close>)
  have name: "decodes id_name_reader (id_var_slice (ascii (id_name i))) (id_name i)"
    by (rule decodes_name) (use wf in \<open>simp add: wf_identity_def\<close>)
  have hashes: "decodes id_array20 (id_parent i) (id_parent i)"
    "decodes id_array20 (id_revocation_authority i) (id_revocation_authority i)"
    "decodes id_array20 (id_recovery_authority i) (id_recovery_authority i)"
    using wf by (simp_all add: id_array20_def decodes_take wf_identity_def)
  show ?thesis
    unfolding identity_reader_def bytes
    by (rule decodes_bind [OF decodes_u32] decodes_unless [OF v] decodes_bind [OF primary]
        decodes_bind [OF hashes(1)] decodes_bind [OF name] decodes_bind [OF decodes_multimap [OF wf]]
        decodes_bind [OF cmap] decodes_bind [OF hashes(2)] decodes_bind [OF hashes(3)]
        decodes_bind [OF sapling] decodes_bind_last [OF decodes_vault [OF wf]])+
      (cases i, simp add: decodes_return)
qed

section \<open>What the reader returns\<close>

lemma yields_count: "yields id_count (\<lambda>n. n < usize_bound)"
  unfolding yields_def
proof (intro allI impI)
  fix r n r'
  assume r: "wf_cursor r" and run: "id_count r = Inr (n, r')"
  have v64: "yields (id_count_value b) (\<lambda>_. True)" for b
    unfolding id_count_value_def
    by (simp add: yields_return yields_bind [OF yields_take])
  from run obtain v r1 r2 where 1: "id_take 1 r = Inr (r2, r1)" and 2: "id_count_value (r2 ! 0) r1 = Inr (v, r')"
    and n: "n = unat v"
    by (auto simp: id_count_def rd_simps split: if_splits)
  from yieldsD [OF yields_take r 1] have "wf_cursor r1" by simp
  from yieldsD [OF v64 this 2] have "wf_cursor r'" by simp
  then show "n < usize_bound \<and> wf_cursor r'" using n unat_u64 [of v] by simp
qed

lemma yields_slice: "yields id_slice (\<lambda>_. True)"
  unfolding id_slice_def by (rule yields_bind [OF yields_count], rule yields_any [OF yields_take])

lemma yields_vec: "yields item P \<Longrightarrow> yields (id_vec item) (list_all P)"
  unfolding id_vec_def
  by (rule yields_bind [OF yields_count], rule yields_mono [OF yields_times]) auto

lemma yields_destination: "yields id_destination wf_destination"
  unfolding id_destination_def
  by (rule yields_bind [OF yields_slice], rule yields_lift) (simp add: from_push_iff)

lemma yields_name: "yields id_name_reader (\<lambda>s. valid_utf8 (ascii s))"
  unfolding id_name_reader_def
  by (rule yields_bind [OF yields_slice], rule yields_lift) (simp add: map_err_Inr_iff from_utf8_Inr)

lemma yields_array20: "yields id_array20 (\<lambda>xs. length xs = 20)"
  unfolding id_array20_def by (rule yields_take)

lemma yields_multimap_entry: "yields id_multimap_entry (\<lambda>e. length (fst e) = 20)"
  unfolding id_multimap_entry_def
  by (rule yields_bind [OF yields_array20], rule yields_bind [OF yields_vec [OF yields_slice]], rule yields_return)
    simp

lemma yields_map_entry: "yields id_map_entry (\<lambda>e. length (fst e) = 20 \<and> length (snd e) = 32)"
  unfolding id_map_entry_def
  by (rule yields_bind [OF yields_array20], rule yields_bind [OF yields_take], rule yields_return) simp

lemma yields_vault:
  "yields (id_vault version parent) (\<lambda>(system, unlock).
     if 2 \<le> unat version then length system = 20 else system = parent \<and> unlock = 0)"
  unfolding id_vault_def version_tests
  by (auto intro!: yields_return yields_bind [OF yields_array20] yields_bind [OF yields_u32])

lemma yields_multimap:
  "yields (if IDENTITY_VERSION_PBAAS \<le> version then id_vec id_multimap_entry else rd_return [])
     (\<lambda>m. list_all (\<lambda>e. length (fst e) = 20) m \<and> (unat version < 3 \<longrightarrow> m = []))"
  unfolding version_tests
  by (auto intro!: yields_return yields_mono [OF yields_vec [OF yields_multimap_entry]])

lemma yields_identity: "yields identity_reader wf_identity"
  unfolding identity_reader_def
  by (rule yields_bind [OF yields_u32] yields_unless yields_bind [OF yields_vec [OF yields_destination]]
      yields_bind [OF yields_array20] yields_bind [OF yields_name] yields_bind [OF yields_multimap]
      yields_bind [OF yields_vec [OF yields_map_entry]] yields_bind [OF yields_vec [OF yields_take]]
      yields_bind [OF yields_vault])+
    (simp only: case_prod_beta, rule yields_return,
      auto simp: wf_identity_def version_tests case_prod_beta split: if_splits)

section \<open>Properties\<close>

lemma identity_reader_run:
  assumes "wf_identity i" "identity_to_bytes i = Inr bs" "length (bs @ extra) < usize_bound"
  shows "identity_from_bytes (bs @ extra) = rbind (id_expect_end (advance (cursor_new (bs @ extra)) (length bs))) (\<lambda>_. Inr i)"
  using decodesD [OF decodes_identity [OF assms(1,2)], of "cursor_new (bs @ extra)" extra] assms(3)
  by (simp add: identity_from_bytes_def)

lemma wf_identity_writes: "wf_identity i \<Longrightarrow> \<exists>bs. identity_to_bytes i = Inr bs"
  by (simp add: identity_to_bytes_Inr wf_identity_def)

text \<open>
  C9: an identity survives being restated.  Every well-formed identity is written, and read
  back from its bytes unchanged; anything after them is refused, with its length.
  Whatever bytes were read, the result is well formed, and writing it gives bytes that read
  as the same identity: no field is dropped, reordered or reinterpreted by a round trip
  through an update.
\<close>

theorem identity_restated:
  "(wf_identity i \<longrightarrow> (\<exists>bs. identity_to_bytes i = Inr bs \<and>
      (length bs < usize_bound \<longrightarrow> identity_from_bytes bs = Inr i) \<and>
      (\<forall>extra. extra \<noteq> [] \<longrightarrow> length (bs @ extra) < usize_bound \<longrightarrow>
         identity_from_bytes (bs @ extra) = Inl (MalformedIdentity
           (dec_string (length extra) @ '' trailing bytes after the identity''))))) \<and>
   (length given < usize_bound \<longrightarrow> identity_from_bytes given = Inr i \<longrightarrow> wf_identity i)"
proof (intro conjI impI)
  assume wf: "wf_identity i"
  from wf_identity_writes [OF this] obtain bs where bs: "identity_to_bytes i = Inr bs" by blast
  note run = identity_reader_run [OF wf bs]
  show "\<exists>bs. identity_to_bytes i = Inr bs \<and>
      (length bs < usize_bound \<longrightarrow> identity_from_bytes bs = Inr i) \<and>
      (\<forall>extra. extra \<noteq> [] \<longrightarrow> length (bs @ extra) < usize_bound \<longrightarrow>
         identity_from_bytes (bs @ extra) = Inl (MalformedIdentity
           (dec_string (length extra) @ '' trailing bytes after the identity'')))"
    using bs run run [of "[]"] by (auto simp: id_expect_end_def refuse_if_def malformed_identity_def)
next
  assume len: "length given < usize_bound" and "identity_from_bytes given = Inr i"
  then obtain r where "identity_reader (cursor_new given) = Inr (i, r)"
    by (auto simp: identity_from_bytes_def rbind_Inr_iff)
  from yieldsD [OF yields_identity _ this] len show "wf_identity i" by simp
qed

definition sample_identity :: identity where
  "sample_identity = \<lparr>id_version = 3, id_flags = 0, id_primary_addresses = [DestPubKeyHash (replicate 20 5)],
     id_min_sigs = 1, id_parent = replicate 20 1, id_name = ''bob'',
     id_content_multimap = [(replicate 20 2, [[1, 2], []])], id_content_map = [],
     id_revocation_authority = replicate 20 3, id_recovery_authority = replicate 20 4,
     id_private_addresses = [], id_system_id = replicate 20 1, id_unlock_after = 9\<rparr>"

lemma sample_identity_wf: "wf_identity sample_identity"
proof -
  have "valid_utf8 (ascii ''bob'')" by (rule valid_utf8_ascii) (simp add: ascii_def)
  then show ?thesis by (simp add: wf_identity_def sample_identity_def)
qed

lemma identity_restated_witness:
  "\<exists>bs. identity_to_bytes sample_identity = Inr bs \<and> identity_from_bytes bs = Inr sample_identity \<and>
     wf_identity sample_identity"
proof -
  obtain bs where bs: "identity_to_bytes sample_identity = Inr bs"
    using wf_identity_writes [OF sample_identity_wf] by blast
  then have "length bs < usize_bound"
    by (simp add: identity_to_bytes_Inr sample_identity_def id_compact_size_def id_var_slice_def
        multimap_part_def vault_bytes_def multimap_entry_def length_uN_le)
  with bs show ?thesis
    using identity_restated [of sample_identity bs] sample_identity_wf by auto
qed

text \<open>
  The reader accepts counts the writer never writes, so \<open>to_bytes\<close> does not give every
  accepted byte string back; and version 1 identities are written without their system id
  and unlock height, whatever these hold.
\<close>

lemma long_count_accepted: "id_count (cursor_new [0xfd, 1, 0, 7]) = Inr (1, advance (cursor_new [0xfd, 1, 0, 7]) 3)"
proof -
  let ?r = "cursor_new [0xfd, 1, 0, 7]"
  have 1: "id_take 1 ?r = Inr ([0xfd], advance ?r 1)" by (simp add: id_take_iff)
  have w: "wf_cursor (advance ?r 1)" by (intro wf_advance) simp_all
  have 2: "id_take 2 (advance ?r 1) = Inr ([1, 0], advance ?r 3)" using w by (simp add: id_take_iff numeral_eq_Suc)
  have 3: "u16_from_le [1, 0] = 1" by (simp add: u16_from_le_def)
  show ?thesis
    unfolding id_count_def rd_bind_def 1
    by (simp add: id_count_value_def rd_bind_def 2 3 rd_return_def id_remaining_def del: One_nat_def)
qed

lemma version_one_drops_vault:
  "id_version i = 1 \<Longrightarrow> identity_to_bytes (i\<lparr>id_system_id := s, id_unlock_after := n\<rparr>) = identity_to_bytes i"
  by (simp add: identity_to_bytes_def multimap_bytes_def IDENTITY_VERSION_VAULT_def IDENTITY_VERSION_PBAAS_def
      word_le_nat_alt)

text \<open>
  Timelocks.  A timelock written onto an identity is the one read back, except that an
  absolute height of zero is no timelock; the locked flag is set exactly for a delay, every
  other flag and every other field keeps its value, and writing is idempotent.  Funds under
  it are spendable at a height as \<open>spendable_at\<close> says of the original.
\<close>

theorem timelock_written:
  "timelock_of (apply_to t i) = (if t = UntilBlock 0 then NoTimelock else t) \<and>
   spendable_at (timelock_of (apply_to t i)) height = spendable_at t height \<and>
   (is_locked (apply_to t i) \<longleftrightarrow> (\<exists>blocks. t = DelayAfterUnlock blocks)) \<and>
   id_flags (apply_to t i) AND NOT FLAG_LOCKED = id_flags i AND NOT FLAG_LOCKED \<and>
   is_revoked (apply_to t i) = is_revoked i \<and>
   has_tokenized_control (apply_to t i) = has_tokenized_control i \<and>
   apply_to t i = i\<lparr>id_flags := id_flags (apply_to t i), id_unlock_after := id_unlock_after (apply_to t i)\<rparr> \<and>
   apply_to (timelock_of (apply_to t i)) i = apply_to t i"
proof -
  have clear: "(w AND NOT FLAG_LOCKED) AND FLAG_LOCKED = 0" and set: "FLAG_LOCKED \<noteq> 0"
    and keep: "(w AND NOT FLAG_LOCKED) AND NOT FLAG_LOCKED = w AND NOT FLAG_LOCKED"
      "(w OR FLAG_LOCKED) AND NOT FLAG_LOCKED = w AND NOT FLAG_LOCKED"
    and other: "(w AND NOT FLAG_LOCKED) AND FLAG_REVOKED = w AND FLAG_REVOKED"
      "(w OR FLAG_LOCKED) AND FLAG_REVOKED = w AND FLAG_REVOKED"
      "(w AND NOT FLAG_LOCKED) AND FLAG_TOKENIZED_CONTROL = w AND FLAG_TOKENIZED_CONTROL"
      "(w OR FLAG_LOCKED) AND FLAG_TOKENIZED_CONTROL = w AND FLAG_TOKENIZED_CONTROL" for w
    by (simp_all add: FLAG_LOCKED_def FLAG_REVOKED_def FLAG_TOKENIZED_CONTROL_def and.assoc
        bit.conj_disj_distrib2)
  show ?thesis
    by (cases t) (auto simp: timelock_of_def is_locked_def is_revoked_def has_tokenized_control_def
        clear set keep other)
qed

end
