(* ===== verification/Btree.thy ===== *)
theory Btree
  imports Tx_Primitives "HOL-Library.List_Lexorder"
begin

text \<open>
  \<open>BTreeMap\<close> as the code uses it: an association list kept in strictly rising key order, so
  that iteration order and equality are those of the standard library.  Currency ids are
  ordered as their derived \<open>Ord\<close> does, lexicographically by byte.
\<close>

section \<open>The order of currency ids\<close>

instantiation currency_id :: linorder
begin

definition less_eq_currency_id :: "currency_id \<Rightarrow> currency_id \<Rightarrow> bool" where
  "less_eq_currency_id a b \<longleftrightarrow> currency_to_bytes a \<le> currency_to_bytes b"

definition less_currency_id :: "currency_id \<Rightarrow> currency_id \<Rightarrow> bool" where
  "less_currency_id a b \<longleftrightarrow> currency_to_bytes a < currency_to_bytes b"

instance
proof
  fix a b c :: currency_id
  show "a < b \<longleftrightarrow> a \<le> b \<and> \<not> b \<le> a"
    by (auto simp: less_eq_currency_id_def less_currency_id_def)
  show "a \<le> a" by (simp add: less_eq_currency_id_def)
  show "a \<le> b \<Longrightarrow> b \<le> c \<Longrightarrow> a \<le> c" by (simp add: less_eq_currency_id_def)
  show "a \<le> b \<Longrightarrow> b \<le> a \<Longrightarrow> a = b"
    by (simp add: less_eq_currency_id_def currency_id.expand)
  show "a \<le> b \<or> b \<le> a" by (auto simp: less_eq_currency_id_def)
qed

end

section \<open>Sorted maps\<close>

type_synonym ('k, 'v) btree = "('k \<times> 'v) list"

definition bt_sorted :: "('k::linorder, 'v) btree \<Rightarrow> bool" where
  "bt_sorted m \<longleftrightarrow> sorted_wrt (<) (map fst m)"

fun bt_put :: "'k::linorder \<Rightarrow> 'v \<Rightarrow> ('k, 'v) btree \<Rightarrow> ('k, 'v) btree" where
  "bt_put k v [] = [(k, v)]"
| "bt_put k v ((j, w) # m) =
     (if k < j then (k, v) # (j, w) # m else if k = j then (k, v) # m else (j, w) # bt_put k v m)"

definition bt_remove :: "'k \<Rightarrow> ('k, 'v) btree \<Rightarrow> ('k, 'v) btree" where
  "bt_remove k m = filter (\<lambda>(j, v). j \<noteq> k) m"

text \<open>\<open>*held.entry(k).or_insert(d)\<close>, read.\<close>

definition bt_entry :: "'v \<Rightarrow> 'k \<Rightarrow> ('k, 'v) btree \<Rightarrow> 'v" where
  "bt_entry d k m = (case map_of m k of Some v \<Rightarrow> v | None \<Rightarrow> d)"

lemma keys_bt_put: "set (map fst (bt_put k v m)) = insert k (set (map fst m))"
  by (induction k v m rule: bt_put.induct) auto

lemma map_of_bt_put [simp]: "map_of (bt_put k v m) = (map_of m)(k \<mapsto> v)"
  by (induction k v m rule: bt_put.induct) (auto simp: fun_eq_iff)

lemma map_of_bt_remove [simp]: "map_of (bt_remove k m) = (map_of m)(k := None)"
  by (induction m) (auto simp: bt_remove_def fun_eq_iff)

lemma bt_sorted_put: "bt_sorted m \<Longrightarrow> bt_sorted (bt_put k v m)"
proof (induction k v m rule: bt_put.induct)
  case (2 k v j w m)
  have keys: "\<forall>x \<in> set (map fst (bt_put k v m)). x = k \<or> x \<in> set (map fst m)"
    unfolding keys_bt_put by simp
  show ?case
  proof (cases "k < j \<or> k = j")
    case True
    with "2.prems" show ?thesis by (auto simp: bt_sorted_def)
  next
    case False
    then have "j < k" by auto
    moreover have "bt_sorted (bt_put k v m)" using "2.IH" False "2.prems" by (simp add: bt_sorted_def)
    moreover have "\<forall>x \<in> set (map fst (bt_put k v m)). j < x"
      using keys "2.prems" \<open>j < k\<close> unfolding bt_sorted_def by fastforce
    ultimately show ?thesis using False by (simp add: bt_sorted_def)
  qed
qed (simp add: bt_sorted_def)

lemma bt_sorted_remove: "bt_sorted m \<Longrightarrow> bt_sorted (bt_remove k m)"
  by (induction m) (auto simp: bt_sorted_def bt_remove_def)

lemma bt_sorted_Nil [simp]: "bt_sorted []" by (simp add: bt_sorted_def)

lemma bt_sorted_distinct: "bt_sorted m \<Longrightarrow> distinct (map fst m)"
  unfolding bt_sorted_def by (induction m) auto

lemma bt_in_set: "bt_sorted m \<Longrightarrow> (k, v) \<in> set m \<longleftrightarrow> map_of m k = Some v"
  using bt_sorted_distinct by (auto dest: map_of_SomeD)

end
