(* ===== verification/Convert.thy ===== *)
theory Convert
  imports Script Btree
begin

text \<open>
  Reserve transfers (\<open>verus-tx-protocol/src/convert.rs\<close>): the payload a conversion, mint or
  burn puts on chain, its two serializers and readers, what such an output holds, and the
  checks on a conversion request.
\<close>

section \<open>Flags and destinations\<close>

definition RESERVE_TRANSFER_ADDRESS :: bytes where
  "RESERVE_TRANSFER_ADDRESS =
     [0xcb, 0x8a, 0x0f, 0x7f, 0x65, 0x1b, 0x48, 0x4a, 0x81, 0xe2, 0x31, 0x2c, 0x34, 0x38, 0xde, 0xb6,
      0x01, 0xe2, 0x73, 0x68]"

definition RT_VALID :: u64 where "RT_VALID = 1"
definition RT_CONVERT :: u64 where "RT_CONVERT = 2"
definition RT_PRECONVERT :: u64 where "RT_PRECONVERT = 4"
definition RT_MINT_CURRENCY :: u64 where "RT_MINT_CURRENCY = 32"
definition RT_BURN_CHANGE_PRICE :: u64 where "RT_BURN_CHANGE_PRICE = 128"
definition RT_IMPORT_TO_SOURCE :: u64 where "RT_IMPORT_TO_SOURCE = 512"
definition RT_RESERVE_TO_RESERVE :: u64 where "RT_RESERVE_TO_RESERVE = 1024"
definition RT_CROSS_SYSTEM :: u64 where "RT_CROSS_SYSTEM = 64"

definition FLAG_DEST_AUX :: u8 where "FLAG_DEST_AUX = 64"
definition FLAG_DEST_GATEWAY :: u8 where "FLAG_DEST_GATEWAY = 128"
definition FLAG_MASK :: u8 where "FLAG_MASK = 16 OR 32 OR FLAG_DEST_AUX OR FLAG_DEST_GATEWAY"

lemmas rt_flags = RT_VALID_def RT_CONVERT_def RT_PRECONVERT_def RT_MINT_CURRENCY_def
  RT_BURN_CHANGE_PRICE_def RT_IMPORT_TO_SOURCE_def RT_RESERVE_TO_RESERVE_def RT_CROSS_SYSTEM_def

record gateway_leg =
  gw_gateway :: currency_id
  gw_code :: currency_id
  gw_fees :: u64

record transfer_destination =
  td_recipient :: destination
  td_auxiliary :: "destination list"
  td_gateway :: "gateway_leg option"

definition converting :: "destination \<Rightarrow> transfer_destination" where
  "converting recipient = \<lparr>td_recipient = recipient, td_auxiliary = [recipient], td_gateway = None\<rparr>"

definition converting_with_refund :: "destination \<Rightarrow> destination \<Rightarrow> transfer_destination" where
  "converting_with_refund recipient refund =
     \<lparr>td_recipient = recipient, td_auxiliary = [refund], td_gateway = None\<rparr>"

definition plain_destination :: "destination \<Rightarrow> transfer_destination" where
  "plain_destination recipient = \<lparr>td_recipient = recipient, td_auxiliary = [], td_gateway = None\<rparr>"

definition bad :: "str \<Rightarrow> tx_error" where
  "bad detail = MalformedCryptoCondition detail"

definition destination_for :: "address \<Rightarrow> tx_error + destination" where
  "destination_for a = (case addr_kind a of
       PubKeyHash \<Rightarrow> Inr (DestPubKeyHash (addr_hash a))
     | Identity \<Rightarrow> Inr (DestIdentity (addr_hash a))
     | ScriptHash \<Rightarrow> Inl UnsupportedRecipient)"

fun destination_type :: "destination \<Rightarrow> u8" where
  "destination_type (DestPubKey _) = 1"
| "destination_type (DestPubKeyHash _) = 2"
| "destination_type (DestScriptHash _) = 3"
| "destination_type (DestIdentity _) = 4"

fun destination_bytes :: "destination \<Rightarrow> bytes" where
  "destination_bytes (DestPubKey key) = key"
| "destination_bytes (DestPubKeyHash hash) = hash"
| "destination_bytes (DestScriptHash hash) = hash"
| "destination_bytes (DestIdentity hash) = hash"

text \<open>\<open>write_compact_size\<close> of this file.\<close>

definition rt_compact_size :: "u64 \<Rightarrow> bytes" where
  "rt_compact_size n =
     (if unat n < 0xfd then [of_nat (unat n)]
      else if unat n < 2 ^ 16 then 0xfd # u16_le (of_nat (unat n))
      else if unat n < 2 ^ 32 then 0xfe # u32_le (of_nat (unat n))
      else 0xff # u64_le n)"

definition type_byte :: "transfer_destination \<Rightarrow> u8" where
  "type_byte d =
     (let byte = destination_type (td_recipient d);
          byte = (if td_auxiliary d \<noteq> [] then byte OR FLAG_DEST_AUX else byte)
      in if td_gateway d \<noteq> None then byte OR FLAG_DEST_GATEWAY else byte)"

definition sized_destination :: "destination \<Rightarrow> bytes" where
  "sized_destination d =
     rt_compact_size (of_nat (length (destination_bytes d))) @ destination_bytes d"

definition gateway_bytes :: "gateway_leg option \<Rightarrow> tx_error + bytes" where
  "gateway_bytes g = (case g of
       None \<Rightarrow> Inr []
     | Some leg \<Rightarrow>
         if 2 ^ 63 \<le> unat (gw_fees leg)
         then Inl (InvalidConversion ''a gateway fee does not fit in a CAmount'')
         else Inr (currency_to_bytes (gw_gateway leg) @ currency_to_bytes (gw_code leg) @ u64_le (gw_fees leg)))"

definition auxiliary_bytes :: "destination \<Rightarrow> bytes" where
  "auxiliary_bytes aux =
     (let inner = destination_type aux # sized_destination aux
      in rt_compact_size (of_nat (length inner)) @ inner)"

definition destination_serialize :: "transfer_destination \<Rightarrow> tx_error + bytes" where
  "destination_serialize d =
     rbind (gateway_bytes (td_gateway d)) (\<lambda>gateway.
     Inr (type_byte d # sized_destination (td_recipient d) @ gateway @
       (if td_auxiliary d = [] then []
        else rt_compact_size (of_nat (length (td_auxiliary d))) @ concat (map auxiliary_bytes (td_auxiliary d)))))"

section \<open>Reading a destination\<close>

text \<open>\<open>usize\<close> has 64 bits: converting a count to it never fails.\<close>

definition rt_var_slice :: "bytes script_rd" where
  "rt_var_slice =
     rd_bind read_compact_size (\<lambda>n r.
       if usize_bound \<le> cur_at r + unat n
       then Inl (bad ''a length prefix runs past the end of the payload'')
       else take_slice (unat n) (bad ''a length prefix runs past the end of the payload'') r)"

definition rt_currency :: "currency_id script_rd" where
  "rt_currency =
     rd_bind (take_slice 20 (bad ''a payload ended before a currency id''))
       (\<lambda>raw. rd_return (currency_from_bytes raw))"

definition destination_from :: "u8 \<Rightarrow> bytes \<Rightarrow> tx_error + destination" where
  "destination_from kind body =
     (if kind = 1 then
        if length body \<noteq> 33 \<and> length body \<noteq> 65
        then Inl (bad ''a public key destination is not 33 or 65 bytes'')
        else Inr (DestPubKey body)
      else if kind = 2 \<or> kind = 3 \<or> kind = 4 then
        if length body \<noteq> 20 then Inl (bad ''a destination body is not 20 bytes'')
        else Inr ((if kind = 2 then DestPubKeyHash else if kind = 3 then DestScriptHash
                   else DestIdentity) body)
      else Inl (bad (''transfer destination type '' @ dec_string (unat kind)
             @ '' is not one this crate decodes'')))"

definition read_gateway :: "gateway_leg script_rd" where
  "read_gateway =
     rd_bind rt_currency (\<lambda>gateway.
     rd_bind rt_currency (\<lambda>code.
     rd_bind (take_slice 8 (bad ''a gateway leg ended before its fees'')) (\<lambda>raw.
     let fees = u64_from_le raw in
     if sint fees < 0
     then rd_fail (bad (''a gateway leg holds a negative fee ('' @ signed_string fees @ '')''))
     else rd_return \<lparr>gw_gateway = gateway, gw_code = code, gw_fees = fees\<rparr>)))"

text \<open>\<open>*bytes.get(*offset)\<close>, moving on.\<close>

definition take_byte :: "tx_error \<Rightarrow> byte script_rd" where
  "take_byte e r = rbind (ok_or (peek r) e) (\<lambda>b. Inr (b, r\<lparr>cur_at := cur_at r + 1\<rparr>))"

definition read_inner_auxiliary :: "bytes \<Rightarrow> tx_error + destination" where
  "read_inner_auxiliary inner =
     rbind (rd_bind (take_byte (bad ''an auxiliary destination is empty'')) (\<lambda>aux_type.
            rd_bind rt_var_slice (\<lambda>body. rd_return (aux_type, body))) (cursor_new inner))
       (\<lambda>((aux_type, body), r).
     rbind (refuse_if (cur_at r \<noteq> length inner) (bad ''trailing bytes inside an auxiliary destination'')) (\<lambda>_.
     destination_from (aux_type AND NOT FLAG_MASK) body))"

definition read_auxiliary :: "destination script_rd" where
  "read_auxiliary = rd_bind rt_var_slice (\<lambda>inner. rd_lift (read_inner_auxiliary inner))"

definition read_auxiliaries :: "destination list script_rd" where
  "read_auxiliaries =
     rd_bind read_compact_size (\<lambda>count r.
       if min (unat count * 3) (2 ^ 64 - 1) \<le> length (cur_bytes r) - cur_at r
       then rd_times (unat count) read_auxiliary r
       else Inl (bad ''a destination claims more auxiliaries than it can hold''))"

definition destination_deserialize :: "transfer_destination script_rd" where
  "destination_deserialize =
     rd_bind (take_byte (bad ''a transfer destination ended before its type'')) (\<lambda>type_byte.
     rd_bind rt_var_slice (\<lambda>body.
     rd_bind (rd_lift (destination_from (type_byte AND NOT FLAG_MASK) body)) (\<lambda>recipient.
     rd_bind (if type_byte AND FLAG_DEST_GATEWAY = 0 then rd_return None
              else rd_bind read_gateway (\<lambda>leg. rd_return (Some leg))) (\<lambda>gateway.
     rd_bind (if type_byte AND FLAG_DEST_AUX \<noteq> 0 then read_auxiliaries else rd_return []) (\<lambda>auxiliary.
     rd_return \<lparr>td_recipient = recipient, td_auxiliary = auxiliary, td_gateway = gateway\<rparr>)))))"

section \<open>Payloads\<close>

record reserve_transfer_payload =
  rp_tokens :: "(currency_id \<times> u64) list"
  rp_flags :: u64
  rp_fee_currency :: currency_id
  rp_fees :: u64
  rp_destination :: transfer_destination
  rp_destination_currency :: currency_id
  rp_second_reserve :: "currency_id option"
  rp_destination_system :: "currency_id option"

text \<open>\<open>cond.then(|| read_currency(..)).transpose()?\<close>\<close>

definition optional_currency :: "bool \<Rightarrow> currency_id option script_rd" where
  "optional_currency c =
     (if c then rd_bind rt_currency (\<lambda>x. rd_return (Some x)) else rd_return None)"

definition payload_reader :: "hex_encode \<Rightarrow> reserve_transfer_payload script_rd" where
  "payload_reader hx =
     rd_bind (parse_token_output_at hx) (\<lambda>tokens.
     rd_bind read_var_int (\<lambda>flags.
     rd_bind rt_currency (\<lambda>fee_currency.
     rd_bind read_var_int (\<lambda>fees.
     rd_bind destination_deserialize (\<lambda>destination.
     rd_bind rt_currency (\<lambda>destination_currency.
     rd_bind (optional_currency (flags AND RT_RESERVE_TO_RESERVE \<noteq> 0)) (\<lambda>second_reserve.
     rd_bind (optional_currency (flags AND RT_CROSS_SYSTEM \<noteq> 0)) (\<lambda>destination_system.
     rd_return \<lparr>rp_tokens = tokens, rp_flags = flags, rp_fee_currency = fee_currency, rp_fees = fees,
        rp_destination = destination, rp_destination_currency = destination_currency,
        rp_second_reserve = second_reserve, rp_destination_system = destination_system\<rparr>))))))))"

definition from_payload :: "hex_encode \<Rightarrow> bytes \<Rightarrow> tx_error + reserve_transfer_payload" where
  "from_payload hx payload =
     rbind (payload_reader hx (cursor_new payload)) (\<lambda>(p, r).
     rbind (refuse_if (cur_at r \<noteq> length payload) (bad ''trailing bytes after a reserve transfer'')) (\<lambda>_.
     Inr p))"

definition is_mint :: "reserve_transfer_payload \<Rightarrow> bool" where
  "is_mint p \<longleftrightarrow> rp_flags p AND RT_MINT_CURRENCY \<noteq> 0"

definition null_currency :: currency_id where
  "null_currency = currency_from_bytes (replicate 20 0)"

definition gateway_fees :: "reserve_transfer_payload \<Rightarrow> u64" where
  "gateway_fees p = (case td_gateway (rp_destination p) of
       Some leg \<Rightarrow> if gw_gateway leg \<noteq> null_currency then gw_fees leg else 0
     | None \<Rightarrow> 0)"

fun add_held :: "(currency_id, u64) btree \<Rightarrow> (currency_id \<times> u64) list \<Rightarrow> tx_error + (currency_id, u64) btree" where
  "add_held held [] = Inr held"
| "add_held held ((currency, amount) # tokens) =
     rbind (ok_or (checked_add (bt_entry 0 currency held) amount) ValueOverflow) (\<lambda>total.
     add_held (bt_put currency total held) tokens)"

definition reserve_value :: "currency_id \<Rightarrow> reserve_transfer_payload \<Rightarrow> tx_error + (currency_id \<times> u64) list" where
  "reserve_value native p =
     rbind (ok_or (checked_add (rp_fees p) (gateway_fees p)) ValueOverflow) (\<lambda>fee_amount.
     let held = (if fee_amount \<noteq> 0
       then bt_put (if rp_fee_currency p = null_currency then native else rp_fee_currency p) fee_amount []
       else []) in
     rbind (if is_mint p then Inr held else add_held held (rp_tokens p)) (\<lambda>held.
     Inr (bt_remove native held)))"

section \<open>Requests\<close>

datatype conversion_kind =
    IntoFractional currency_id
  | IntoReserve currency_id
  | ReserveToReserve currency_id currency_id
  | Preconvert currency_id
  | Mint currency_id
  | Burn
  | Contribution currency_id

fun kind_flags :: "conversion_kind \<Rightarrow> u64" where
  "kind_flags (IntoFractional _) = RT_VALID OR RT_CONVERT"
| "kind_flags (Preconvert _) = RT_VALID OR RT_CONVERT OR RT_PRECONVERT"
| "kind_flags (Mint _) = RT_VALID OR RT_MINT_CURRENCY"
| "kind_flags (IntoReserve _) = RT_VALID OR RT_CONVERT OR RT_IMPORT_TO_SOURCE"
| "kind_flags (ReserveToReserve _ _) = RT_VALID OR RT_CONVERT OR RT_RESERVE_TO_RESERVE"
| "kind_flags Burn = RT_VALID OR RT_BURN_CHANGE_PRICE OR RT_IMPORT_TO_SOURCE"
| "kind_flags (Contribution _) = RT_VALID OR RT_PRECONVERT"

fun kind_destination_currency :: "conversion_kind \<Rightarrow> currency_id \<Rightarrow> currency_id" where
  "kind_destination_currency (IntoFractional fractional) source = fractional"
| "kind_destination_currency (Preconvert fractional) source = fractional"
| "kind_destination_currency (Contribution fractional) source = fractional"
| "kind_destination_currency (IntoReserve reserve) source = reserve"
| "kind_destination_currency (ReserveToReserve via target) source = via"
| "kind_destination_currency (Mint currency) source = currency"
| "kind_destination_currency Burn source = source"

fun kind_second_reserve :: "conversion_kind \<Rightarrow> currency_id option" where
  "kind_second_reserve (ReserveToReserve via target) = Some target"
| "kind_second_reserve _ = None"

record reserve_transfer =
  rt_source :: currency_id
  rt_amount :: amount
  rt_kind :: conversion_kind
  rt_fee_currency :: currency_id
  rt_fee :: amount
  rt_destination :: transfer_destination

definition to_payload :: "reserve_transfer \<Rightarrow> tx_error + bytes" where
  "to_payload t =
     rbind (destination_serialize (rt_destination t)) (\<lambda>destination.
     Inr (token_output (rt_source t) (to_sat (rt_amount t)) @
       var_int (kind_flags (rt_kind t)) @ currency_to_bytes (rt_fee_currency t) @
       var_int (to_sat (rt_fee t)) @ destination @
       currency_to_bytes (kind_destination_currency (rt_kind t) (rt_source t)) @
       (case kind_second_reserve (rt_kind t) of Some c \<Rightarrow> currency_to_bytes c | None \<Rightarrow> [])))"

definition to_script :: "reserve_transfer \<Rightarrow> tx_error + bytes" where
  "to_script t =
     (let holder = DestPubKeyHash RESERVE_TRANSFER_ADDRESS in
      rbind (to_payload t) (\<lambda>payload.
      cc_script (one_of_one EVAL_NONE holder)
        ((one_of_one EVAL_RESERVE_TRANSFER holder)\<lparr>cc_vdata := [payload]\<rparr>)))"

definition is_mint_kind :: "conversion_kind \<Rightarrow> bool" where
  "is_mint_kind k \<longleftrightarrow> (case k of Mint _ \<Rightarrow> True | _ \<Rightarrow> False)"

definition native_value :: "reserve_transfer \<Rightarrow> currency_id \<Rightarrow> tx_error + amount" where
  "native_value t chain_currency =
     (if is_mint_kind (rt_kind t)
      then Inr (if rt_fee_currency t = chain_currency then rt_fee t else amount_zero)
      else if rt_source t = chain_currency
        then ok_or (amount_checked_add (rt_amount t) (rt_fee t)) ValueOverflow
      else if rt_fee_currency t = chain_currency then Inr (rt_fee t)
      else Inr amount_zero)"

text \<open>\<open>{:?}\<close> of a currency id.\<close>

fun join_comma :: "str list \<Rightarrow> str" where
  "join_comma [] = []"
| "join_comma [s] = s"
| "join_comma (s # t # ss) = s @ '', '' @ join_comma (t # ss)"

definition currency_debug :: "currency_id \<Rightarrow> str" where
  "currency_debug c =
     ''CurrencyId(['' @ join_comma (map (dec_string \<circ> unat) (currency_to_bytes c)) @ ''])''"

definition check_route :: "conversion_kind \<Rightarrow> currency_id \<Rightarrow> tx_error + unit" where
  "check_route kind source = (case kind of
       ReserveToReserve via target \<Rightarrow>
         if via = target
         then Inl (InvalidConversion ''the currency routed through cannot also be the target'')
         else if target = source
         then Inl (InvalidConversion ''the target reserve is the source currency'')
         else Inr ()
     | _ \<Rightarrow> Inr ())"

definition conversion_destination ::
  "conversion_kind \<Rightarrow> address \<Rightarrow> address \<Rightarrow> tx_error + transfer_destination" where
  "conversion_destination kind recipient refund =
     (if kind = Burn \<or> is_mint_kind kind
      then rbind (destination_for recipient) (\<lambda>d. Inr (plain_destination d))
      else rbind (destination_for recipient) (\<lambda>d.
           rbind (destination_for refund) (\<lambda>e. Inr (converting_with_refund d e))))"

definition build_conversion ::
  "currency_id \<Rightarrow> amount \<Rightarrow> conversion_kind \<Rightarrow> address \<Rightarrow> address \<Rightarrow> currency_id \<Rightarrow> amount
    \<Rightarrow> tx_error + reserve_transfer" where
  "build_conversion source amount kind recipient refund fee_currency fee =
     rbind (refuse_if (amount = amount_zero)
       (InvalidConversion ''a conversion of zero would pay a fee to do nothing'')) (\<lambda>_.
     rbind (refuse_if (kind_destination_currency kind source = source \<and> kind \<noteq> Burn)
       (InvalidConversion (currency_debug source @ '' cannot be converted into itself''))) (\<lambda>_.
     rbind (check_route kind source) (\<lambda>_.
     rbind (conversion_destination kind recipient refund) (\<lambda>destination.
     Inr \<lparr>rt_source = source, rt_amount = amount, rt_kind = kind, rt_fee_currency = fee_currency,
          rt_fee = fee, rt_destination = destination\<rparr>))))"

section \<open>Destinations are read back\<close>

lemma rt_compact_size_eq: "rt_compact_size n = compact_bytes n"
  by (auto simp: rt_compact_size_def compact_bytes_nat u16_le_def u32_le_def u64_le_def unat_of_nat
      unat_ucast)

lemma sint_small: "unat w < 2 ^ 63 \<Longrightarrow> sint w = int (unat w)" for w :: u64
proof -
  assume small: "unat w < 2 ^ 63"
  have u: "uint w = int (unat w)" by (rule uint_nat)
  have "int (unat w) < int (2 ^ 63)" using small by (simp only: of_nat_less_iff)
  then have "uint w < 2 ^ 63" unfolding u [symmetric] by simp
  moreover have "- (2 ^ 63) \<le> uint w" by (rule order_trans [OF _ uint_ge_0]) simp
  ultimately have "- (2 ^ 63) \<le> uint w" "uint w < 2 ^ 63" by blast+
  then have "signed_take_bit 63 (uint w) = uint w" by (rule signed_take_bit_int_eq_self)
  moreover have "sint w = signed_take_bit 63 (uint w)" unfolding sint_uint by simp
  ultimately show "sint w = int (unat w)" unfolding u by simp
qed

lemma decodes_guarded:
  assumes "\<And>r suf. wf_cursor r \<Longrightarrow> rest r = ys @ suf \<Longrightarrow> c r" "decodes m ys x"
  shows "decodes (\<lambda>r. if c r then m r else Inl e) ys x"
  using assms unfolding decodes_def by simp

lemma decodes_compact: "decodes read_compact_size (compact_bytes n) n"
  by (rule script_compact.decodes_dec) simp

lemma decodes_varint: "decodes read_var_int (var_int n) n"
  by (rule varint.decodes_dec) simp

lemma decodes_byte: "decodes (take_byte e) [b] b"
  unfolding decodes_def take_byte_def by (simp add: peek_rest advance_def)

lemma decodes_slice_n: "length xs = n \<Longrightarrow> decodes (take_slice n e) xs xs"
  by (rule slice.decodes_dec)

lemma decodes_var_slice:
  assumes "length bs < usize_bound"
  shows "decodes rt_var_slice (rt_compact_size (of_nat (length bs)) @ bs) bs"
  unfolding rt_var_slice_def rt_compact_size_eq
proof (rule decodes_bind [OF decodes_compact])
  have u: "unat (of_nat (length bs) :: u64) = length bs" using assms by (simp add: unat_of_nat)
  have "\<not> usize_bound \<le> cur_at r + length bs" if "wf_cursor r" "rest r = bs @ suf" for r suf
  proof -
    have "length bs \<le> length (cur_bytes r) - cur_at r" using that(2) length_rest [of r] by simp
    then show ?thesis using that(1) by (auto simp: wf_cursor_def)
  qed
  then show "decodes (\<lambda>r. if usize_bound \<le> cur_at r + unat (of_nat (length bs) :: u64)
       then Inl (bad ''a length prefix runs past the end of the payload'')
       else take_slice (unat (of_nat (length bs) :: u64))
         (bad ''a length prefix runs past the end of the payload'') r) bs bs"
    using decodes_slice_n [of bs "length bs"] unfolding u decodes_def by simp
qed

lemma decodes_currency: "length (currency_to_bytes c) = 20 \<Longrightarrow> decodes rt_currency (currency_to_bytes c) c"
  unfolding rt_currency_def
  by (rule decodes_bind_last [OF decodes_slice_n]) (simp_all add: currency_from_bytes_def decodes_return)

lemma destination_kind: "destination_type d AND NOT FLAG_MASK = destination_type d"
  "(destination_type d OR FLAG_DEST_AUX) AND NOT FLAG_MASK = destination_type d"
  "(destination_type d OR FLAG_DEST_GATEWAY) AND NOT FLAG_MASK = destination_type d"
  "(destination_type d OR FLAG_DEST_AUX OR FLAG_DEST_GATEWAY) AND NOT FLAG_MASK = destination_type d"
  by (cases d; simp add: FLAG_MASK_def FLAG_DEST_AUX_def FLAG_DEST_GATEWAY_def)+

lemma destination_from_own: "wf_destination d \<Longrightarrow> destination_from (destination_type d) (destination_bytes d) = Inr d"
  by (cases d) (auto simp: destination_from_def)

lemma length_destination_bytes: "wf_destination d \<Longrightarrow> 20 \<le> length (destination_bytes d) \<and> length (destination_bytes d) \<le> 65"
  by (cases d) auto

lemma decodes_sized: "wf_destination d \<Longrightarrow> decodes rt_var_slice (sized_destination d) (destination_bytes d)"
  unfolding sized_destination_def by (rule decodes_var_slice) (use length_destination_bytes in fastforce)

lemma length_sized:
  "wf_destination d \<Longrightarrow> 21 \<le> length (sized_destination d) \<and> length (sized_destination d) \<le> 66"
proof -
  assume d: "wf_destination d"
  have "unat (of_nat (length (destination_bytes d)) :: u64) = length (destination_bytes d)"
    using length_destination_bytes [OF d] by (simp add: unat_of_nat)
  then show ?thesis
    using length_destination_bytes [OF d] by (simp add: sized_destination_def rt_compact_size_def)
qed

lemma read_inner_auxiliary_own:
  assumes "wf_destination d"
  shows "read_inner_auxiliary (destination_type d # sized_destination d) = Inr d"
proof -
  have "decodes (rd_bind (take_byte e) (\<lambda>t. rd_bind rt_var_slice (\<lambda>body. rd_return (t, body))))
      ([destination_type d] @ sized_destination d) (destination_type d, destination_bytes d)" for e
    by (rule decodes_bind [OF decodes_byte], rule decodes_bind_last [OF decodes_sized [OF assms]],
        rule decodes_return)
  note run = decodesD [OF this, of "cursor_new (destination_type d # sized_destination d)" "[]"]
  show ?thesis
    unfolding read_inner_auxiliary_def
    using run length_sized [OF assms] by (simp add: refuse_if_def destination_kind destination_from_own [OF assms])
qed

lemma decodes_auxiliary:
  assumes "wf_destination d"
  shows "decodes read_auxiliary (auxiliary_bytes d) d"
proof -
  have "length (destination_type d # sized_destination d) < usize_bound"
    using length_sized [OF assms] by simp
  note slice = decodes_var_slice [OF this]
  show ?thesis
    unfolding read_auxiliary_def auxiliary_bytes_def Let_def
    by (rule decodes_bind_last [OF slice], rule decodes_lift) (rule read_inner_auxiliary_own [OF assms])
qed

lemma length_auxiliary: "wf_destination d \<Longrightarrow> 3 \<le> length (auxiliary_bytes d)"
  using length_sized [of d] by (simp add: auxiliary_bytes_def)

lemma length_auxiliaries:
  "list_all wf_destination ds \<Longrightarrow> length ds * 3 \<le> length (concat (map auxiliary_bytes ds))"
proof (induction ds)
  case (Cons d ds)
  then show ?case using length_auxiliary [of d] by simp
qed simp

lemma decodes_auxiliaries:
  assumes "list_all wf_destination ds" "length ds < usize_bound"
  shows "decodes read_auxiliaries
    (rt_compact_size (of_nat (length ds)) @ concat (map auxiliary_bytes ds)) ds"
  unfolding read_auxiliaries_def rt_compact_size_eq
proof (rule decodes_bind [OF decodes_compact], rule decodes_guarded)
  have u: "unat (of_nat (length ds) :: u64) = length ds" using assms(2) by (simp add: unat_of_nat)
  show "decodes (rd_times (unat (of_nat (length ds) :: u64)) read_auxiliary)
      (concat (map auxiliary_bytes ds)) ds"
    unfolding u by (rule decodes_times) (use assms(1) in \<open>auto simp: list_all_iff decodes_auxiliary\<close>)
  show "min (unat (of_nat (length ds) :: u64) * 3) (2 ^ 64 - 1) \<le> length (cur_bytes r) - cur_at r"
    if "rest r = concat (map auxiliary_bytes ds) @ suf" for r suf
    using that length_auxiliaries [OF assms(1)] length_rest [of r] unfolding u by simp
qed

text \<open>The destinations the types of the fields allow, with a fee a \<open>CAmount\<close> can hold.\<close>

definition wf_leg :: "gateway_leg \<Rightarrow> bool" where
  "wf_leg leg \<longleftrightarrow> length (currency_to_bytes (gw_gateway leg)) = 20 \<and>
     length (currency_to_bytes (gw_code leg)) = 20 \<and> unat (gw_fees leg) < 2 ^ 63"

definition wf_transfer_destination :: "transfer_destination \<Rightarrow> bool" where
  "wf_transfer_destination d \<longleftrightarrow> wf_destination (td_recipient d) \<and>
     list_all wf_destination (td_auxiliary d) \<and> length (td_auxiliary d) < usize_bound \<and>
     pred_option wf_leg (td_gateway d)"

lemma decodes_leg:
  assumes "wf_leg leg"
  shows "decodes read_gateway
    (currency_to_bytes (gw_gateway leg) @ currency_to_bytes (gw_code leg) @ u64_le (gw_fees leg)) leg"
proof -
  have "\<not> sint (gw_fees leg) < 0"
    using assms by (simp add: wf_leg_def sint_small)
  then show ?thesis
    using assms unfolding read_gateway_def wf_leg_def
    by (intro decodes_bind [OF decodes_currency] decodes_bind_last [OF decodes_slice_n])
      (simp_all add: length_uN_le uN_from_le_uN_le, cases leg, simp add: decodes_return)
qed

lemma type_byte_bits:
  "type_byte d AND NOT FLAG_MASK = destination_type (td_recipient d)"
  "type_byte d AND FLAG_DEST_GATEWAY = 0 \<longleftrightarrow> td_gateway d = None"
  "type_byte d AND FLAG_DEST_AUX = 0 \<longleftrightarrow> td_auxiliary d = []"
  by (cases "td_recipient d"; cases "td_auxiliary d"; cases "td_gateway d";
      simp add: type_byte_def FLAG_MASK_def FLAG_DEST_AUX_def FLAG_DEST_GATEWAY_def)+

lemma decodes_transfer_destination:
  assumes wf: "wf_transfer_destination d" and bs: "destination_serialize d = Inr bs"
  shows "decodes destination_deserialize bs d"
proof -
  from bs obtain gateway where g: "gateway_bytes (td_gateway d) = Inr gateway"
    and bytes: "bs = [type_byte d] @ sized_destination (td_recipient d) @ gateway @
       (if td_auxiliary d = [] then []
        else rt_compact_size (of_nat (length (td_auxiliary d))) @ concat (map auxiliary_bytes (td_auxiliary d)))"
    by (auto simp: destination_serialize_def rbind_Inr_iff)
  have gateway: "decodes (if type_byte d AND FLAG_DEST_GATEWAY = 0 then rd_return None
      else rd_bind read_gateway (\<lambda>leg. rd_return (Some leg))) gateway (td_gateway d)"
  proof (cases "td_gateway d")
    case None
    with g show ?thesis by (simp add: type_byte_bits gateway_bytes_def decodes_return)
  next
    case (Some leg)
    with g wf have "wf_leg leg" "gateway = currency_to_bytes (gw_gateway leg) @
        currency_to_bytes (gw_code leg) @ u64_le (gw_fees leg)"
      by (auto simp: wf_transfer_destination_def gateway_bytes_def split: if_splits)
    with decodes_leg Some show ?thesis
      by (simp add: type_byte_bits) (rule decodes_bind_last, assumption, rule decodes_return)
  qed
  have auxiliary: "decodes (if type_byte d AND FLAG_DEST_AUX \<noteq> 0 then read_auxiliaries else rd_return [])
      (if td_auxiliary d = [] then []
       else rt_compact_size (of_nat (length (td_auxiliary d))) @ concat (map auxiliary_bytes (td_auxiliary d)))
      (td_auxiliary d)"
    using wf decodes_auxiliaries [of "td_auxiliary d"]
    by (simp add: type_byte_bits decodes_return wf_transfer_destination_def)
  have recipient: "decodes (rd_lift (destination_from (type_byte d AND NOT FLAG_MASK)
      (destination_bytes (td_recipient d)))) [] (td_recipient d)"
    unfolding type_byte_bits
    by (rule decodes_lift) (use wf in \<open>simp add: destination_from_own wf_transfer_destination_def\<close>)
  have sized: "decodes rt_var_slice (sized_destination (td_recipient d)) (destination_bytes (td_recipient d))"
    by (rule decodes_sized) (use wf in \<open>simp add: wf_transfer_destination_def\<close>)
  show ?thesis
    unfolding destination_deserialize_def bytes
    by (rule decodes_bind [OF decodes_byte] decodes_bind [OF sized] decodes_bind_Nil [OF recipient]
        decodes_bind [OF gateway] decodes_bind_last [OF auxiliary])+
      (cases d, simp add: decodes_return)
qed

section \<open>Payloads are read back\<close>

definition wf_currency :: "currency_id \<Rightarrow> bool" where
  "wf_currency c \<longleftrightarrow> length (currency_to_bytes c) = 20"

fun kind_currencies :: "conversion_kind \<Rightarrow> currency_id list" where
  "kind_currencies (IntoFractional c) = [c]"
| "kind_currencies (IntoReserve c) = [c]"
| "kind_currencies (ReserveToReserve via target) = [via, target]"
| "kind_currencies (Preconvert c) = [c]"
| "kind_currencies (Mint c) = [c]"
| "kind_currencies Burn = []"
| "kind_currencies (Contribution c) = [c]"

definition wf_transfer :: "reserve_transfer \<Rightarrow> bool" where
  "wf_transfer t \<longleftrightarrow> wf_currency (rt_source t) \<and> wf_currency (rt_fee_currency t) \<and>
     list_all wf_currency (kind_currencies (rt_kind t)) \<and> wf_transfer_destination (rt_destination t)"

text \<open>What a request reads as once it is on chain.\<close>

definition payload_of :: "reserve_transfer \<Rightarrow> reserve_transfer_payload" where
  "payload_of t =
     \<lparr>rp_tokens = [(rt_source t, to_sat (rt_amount t))], rp_flags = kind_flags (rt_kind t),
      rp_fee_currency = rt_fee_currency t, rp_fees = to_sat (rt_fee t), rp_destination = rt_destination t,
      rp_destination_currency = kind_destination_currency (rt_kind t) (rt_source t),
      rp_second_reserve = kind_second_reserve (rt_kind t), rp_destination_system = None\<rparr>"

lemma kind_flag_bits:
  "kind_flags k AND RT_RESERVE_TO_RESERVE \<noteq> 0 \<longleftrightarrow> kind_second_reserve k \<noteq> None"
  "kind_flags k AND RT_CROSS_SYSTEM = 0"
  "kind_flags k AND RT_MINT_CURRENCY \<noteq> 0 \<longleftrightarrow> is_mint_kind k"
  by (cases k; simp add: rt_flags is_mint_kind_def)+

lemma decodes_token_output:
  "wf_currency c \<Longrightarrow> decodes (parse_token_output_at hx) (token_output c a) [(c, a)]"
  unfolding decodes_def wf_currency_def using parse_token_output_at_run by blast

lemma decodes_optional:
  "(case x of Some c \<Rightarrow> wf_currency c | None \<Rightarrow> True) \<Longrightarrow> (b \<longleftrightarrow> x \<noteq> None) \<Longrightarrow>
     decodes (optional_currency b) (case x of Some c \<Rightarrow> currency_to_bytes c | None \<Rightarrow> []) x"
  by (cases x) (auto simp: optional_currency_def wf_currency_def
      intro: decodes_return decodes_bind_last [OF decodes_currency])

lemma decodes_payload:
  assumes wf: "wf_transfer t" and bs: "to_payload t = Inr bs"
  shows "decodes (payload_reader hx) bs (payload_of t)"
proof -
  from bs obtain d where d: "destination_serialize (rt_destination t) = Inr d"
    and bytes: "bs = token_output (rt_source t) (to_sat (rt_amount t)) @
       var_int (kind_flags (rt_kind t)) @ currency_to_bytes (rt_fee_currency t) @
       var_int (to_sat (rt_fee t)) @ d @
       currency_to_bytes (kind_destination_currency (rt_kind t) (rt_source t)) @
       (case kind_second_reserve (rt_kind t) of Some c \<Rightarrow> currency_to_bytes c | None \<Rightarrow> [])"
    by (auto simp: to_payload_def rbind_Inr_iff)
  have src: "wf_currency (rt_source t)" and fee: "length (currency_to_bytes (rt_fee_currency t)) = 20"
    and dest: "length (currency_to_bytes (kind_destination_currency (rt_kind t) (rt_source t))) = 20"
    and second: "case kind_second_reserve (rt_kind t) of Some c \<Rightarrow> wf_currency c | None \<Rightarrow> True"
    and td: "wf_transfer_destination (rt_destination t)"
    using wf by (cases "rt_kind t"; simp add: wf_transfer_def wf_currency_def)+
  have none: "decodes (optional_currency (kind_flags k AND RT_CROSS_SYSTEM \<noteq> 0)) [] None" for k
    by (simp add: kind_flag_bits optional_currency_def decodes_return)
  have last: "decodes (rd_bind (optional_currency (kind_flags (rt_kind t) AND RT_CROSS_SYSTEM \<noteq> 0)) f) [] x"
    if "decodes (f None) [] x" for f and x :: reserve_transfer_payload
    by (rule decodes_bind_last [OF none]) (rule that)
  show ?thesis
    unfolding payload_reader_def bytes
    by (rule decodes_bind [OF decodes_token_output [OF src]] decodes_bind [OF decodes_varint]
        decodes_bind [OF decodes_currency [OF fee]]
        decodes_bind [OF decodes_transfer_destination [OF td d]] decodes_bind [OF decodes_currency [OF dest]]
        decodes_bind_last [OF decodes_optional [OF second kind_flag_bits(1)]] last)+
      (simp add: payload_of_def decodes_return)
qed

section \<open>What a transfer holds\<close>

definition token_total :: "currency_id \<Rightarrow> (currency_id \<times> u64) list \<Rightarrow> nat" where
  "token_total c tokens = (\<Sum>(d, a) \<leftarrow> tokens. if d = c then unat a else 0)"

lemma token_total_simps [simp]:
  "token_total c [] = 0"
  "token_total c ((d, a) # ts) = (if d = c then unat a else 0) + token_total c ts"
  "token_total c (ts @ us) = token_total c ts + token_total c us"
  by (simp_all add: token_total_def)

definition fee_currency_of :: "currency_id \<Rightarrow> reserve_transfer_payload \<Rightarrow> currency_id" where
  "fee_currency_of native p = (if rp_fee_currency p = null_currency then native else rp_fee_currency p)"

text \<open>
  The specification: how much of a currency a transfer holds, its fee and the fee of a bridge
  leg included, what a mint creates not.
\<close>

definition holding :: "currency_id \<Rightarrow> reserve_transfer_payload \<Rightarrow> currency_id \<Rightarrow> nat" where
  "holding native p c =
     (if c = fee_currency_of native p then unat (rp_fees p) + unat (gateway_fees p) else 0) +
     (if is_mint p then 0 else token_total c (rp_tokens p))"

lemma bt_entry_put: "bt_entry d c (bt_put k v m) = (if c = k then v else bt_entry d c m)"
  by (simp add: bt_entry_def)

lemma add_held_Inr:
  "(\<exists>m'. add_held m ts = Inr m') \<longleftrightarrow> (\<forall>c \<in> fst ` set ts. unat (bt_entry 0 c m) + token_total c ts < 2 ^ 64)"
  "add_held m ts = Inr m' \<Longrightarrow> bt_sorted m \<Longrightarrow> bt_sorted m' \<and>
     dom (map_of m') = dom (map_of m) \<union> fst ` set ts \<and>
     (\<forall>c. unat (bt_entry 0 c m') = unat (bt_entry 0 c m) + token_total c ts)"
proof (induction ts arbitrary: m)
  case Nil
  {
    case 1
    show ?case by simp
  next
    case 2
    then show ?case by auto
  }
next
  case (Cons t ts)
  obtain k a where t: "t = (k, a)" by force
  {
    case 1
    show ?case
    proof (cases "checked_add (bt_entry 0 k m) a")
      case None
      then have "\<not> unat (bt_entry 0 k m) + unat a < 2 ^ 64" by (simp only: checked_simps) simp
      then have "\<not> unat (bt_entry 0 k m) + token_total k (t # ts) < 2 ^ 64" by (simp add: t)
      then show ?thesis using None by (force simp: t)
    next
      case (Some n)
      then have n: "unat n = unat (bt_entry 0 k m) + unat a" "unat (bt_entry 0 k m) + unat a < 2 ^ 64"
        by (simp_all add: checked_add_Some)
      have tot: "unat (bt_entry 0 c (bt_put k n m)) + token_total c ts
          = unat (bt_entry 0 c m) + token_total c (t # ts)" for c
        by (simp add: bt_entry_put n(1) t)
      have "unat (bt_entry 0 k m) + token_total k (t # ts) < 2 ^ 64" if "k \<notin> fst ` set ts"
      proof -
        have "token_total k ts = 0"
          using that by (induction ts) (auto simp: token_total_def)
        then show ?thesis using n(2) by (simp add: t)
      qed
      then show ?thesis
        using Some "Cons.IH"(1) [of "bt_put k n m"] unfolding tot by (auto simp: t)
    qed
  next
    case 2
    then obtain n where add: "checked_add (bt_entry 0 k m) a = Some n"
      and run: "add_held (bt_put k n m) ts = Inr m'"
      by (auto simp: t rbind_Inr_iff ok_or_Inr_iff)
    from add have n: "unat n = unat (bt_entry 0 k m) + unat a" by (simp only: checked_simps)
    from "Cons.IH"(2) [OF run bt_sorted_put [OF 2(2)]] show ?case
      by (auto simp: bt_entry_put n t)
  }
qed

lemma bt_entry_remove: "bt_entry d c (bt_remove k m) = (if c = k then d else bt_entry d c m)"
  by (simp add: bt_entry_def)

text \<open>The map before the native currency is taken out.\<close>

definition fee_map :: "currency_id \<Rightarrow> reserve_transfer_payload \<Rightarrow> u64 \<Rightarrow> (currency_id, u64) btree" where
  "fee_map native p fee = (if fee \<noteq> 0 then bt_put (fee_currency_of native p) fee [] else [])"

lemma fee_map_facts:
  "bt_sorted (fee_map native p fee)"
  "bt_entry 0 c (fee_map native p fee) = (if c = fee_currency_of native p then fee else 0)"
  by (simp_all add: fee_map_def bt_sorted_def bt_entry_def)

lemma reserve_value_eq:
  "reserve_value native p =
     rbind (ok_or (checked_add (rp_fees p) (gateway_fees p)) ValueOverflow) (\<lambda>fee.
     rbind (add_held (fee_map native p fee) (if is_mint p then [] else rp_tokens p)) (\<lambda>held.
     Inr (bt_remove native held)))"
  by (simp add: reserve_value_def fee_map_def fee_currency_of_def Let_def cong: if_cong)

lemma reserve_value_run:
  assumes "checked_add (rp_fees p) (gateway_fees p) = Some fee"
  shows "unat (bt_entry 0 c (fee_map native p fee)) + token_total c (if is_mint p then [] else rp_tokens p) =
    holding native p c"
  using assms by (simp add: fee_map_facts holding_def checked_add_Some)

lemma reserve_value_Inr:
  assumes "reserve_value native p = Inr vs"
  shows "bt_sorted vs" "map_of vs native = None" "c \<noteq> native \<Longrightarrow> unat (bt_entry 0 c vs) = holding native p c"
proof -
  let ?ts = "if is_mint p then [] else rp_tokens p"
  from assms obtain fee held where fee: "checked_add (rp_fees p) (gateway_fees p) = Some fee"
    and run: "add_held (fee_map native p fee) ?ts = Inr held" and vs: "vs = bt_remove native held"
    by (auto simp: reserve_value_eq rbind_Inr_iff ok_or_Inr_iff)
  from add_held_Inr(2) [OF run fee_map_facts(1)]
  show "bt_sorted vs" "map_of vs native = None" "c \<noteq> native \<Longrightarrow> unat (bt_entry 0 c vs) = holding native p c"
    unfolding vs using reserve_value_run [OF fee] by (auto simp: bt_sorted_remove bt_entry_remove)
qed

lemma token_total_map_of:
  "distinct (map fst ts) \<Longrightarrow> token_total c ts = unat (bt_entry 0 c ts)"
proof (induction ts)
  case (Cons t ts)
  obtain d a where t: "t = (d, a)" by force
  then have "map_of ts d = None" using Cons.prems by (simp add: map_of_eq_None_iff)
  then show ?case using Cons t by (auto simp: bt_entry_def)
qed (simp add: bt_entry_def)

text \<open>
  What a reserve transfer holds.  \<open>reserve_value\<close> answers exactly when the fee and every
  currency's total fit 64 bits, and then reports, in rising order of currency and never the
  native one, each other currency with its true total: the token amounts (none for a mint)
  plus the fee and the bridge fee in the fee currency, a null fee currency meaning the
  native one and a null gateway holding nothing.  Otherwise it is \<open>ValueOverflow\<close>.
\<close>

theorem reserve_value_exact:
  "(reserve_value native p = Inr vs \<longrightarrow>
      bt_sorted vs \<and> map_of vs native = None \<and>
      (\<forall>c. c \<noteq> native \<longrightarrow> unat (bt_entry 0 c vs) = holding native p c)) \<and>
   ((\<exists>vs. reserve_value native p = Inr vs) \<longleftrightarrow>
      unat (rp_fees p) + unat (gateway_fees p) < 2 ^ 64 \<and>
      (\<forall>(c, a) \<in> set (rp_tokens p). is_mint p \<or> holding native p c < 2 ^ 64)) \<and>
   (reserve_value native p = Inl e \<longrightarrow> e = ValueOverflow)"
proof -
  let ?ts = "if is_mint p then [] else rp_tokens p"
  note hold = reserve_value_run
  have 2: "(\<exists>vs. reserve_value native p = Inr vs) \<longleftrightarrow>
      unat (rp_fees p) + unat (gateway_fees p) < 2 ^ 64 \<and>
      (\<forall>(c, a) \<in> set (rp_tokens p). is_mint p \<or> holding native p c < 2 ^ 64)"
  proof (cases "checked_add (rp_fees p) (gateway_fees p)")
    case None
    then show ?thesis
      using checked_add_None [of "rp_fees p" "gateway_fees p"] by (simp add: reserve_value_eq)
  next
    case (Some fee)
    then have small: "unat (rp_fees p) + unat (gateway_fees p) < 2 ^ 64" by (simp add: checked_add_Some)
    have "(\<exists>vs. reserve_value native p = Inr vs) \<longleftrightarrow> (\<exists>held. add_held (fee_map native p fee) ?ts = Inr held)"
      using Some by (auto simp: reserve_value_eq rbind_Inr_iff)
    also have "\<dots> \<longleftrightarrow> (\<forall>c \<in> fst ` set ?ts. holding native p c < 2 ^ 64)"
      unfolding add_held_Inr(1) hold [OF Some] ..
    also have "\<dots> \<longleftrightarrow> (\<forall>(c, a) \<in> set (rp_tokens p). is_mint p \<or> holding native p c < 2 ^ 64)"
      by auto
    finally show ?thesis using small by blast
  qed
  have "add_held m ts = Inl e \<Longrightarrow> e = ValueOverflow" for m ts
    by (induction m ts rule: add_held.induct) (auto simp: rbind_Inl_iff ok_or_def split: option.splits)
  then have 3: "e = ValueOverflow" if "reserve_value native p = Inl e"
    using that by (auto simp: reserve_value_eq rbind_Inl_iff ok_or_def split: option.splits)
  from 2 3 show ?thesis using reserve_value_Inr by blast
qed

section \<open>Properties\<close>

definition sample_currency :: "byte \<Rightarrow> currency_id" where
  "sample_currency n = CurrencyId (replicate 20 n)"

definition sample_transfer :: reserve_transfer where
  "sample_transfer = \<lparr>rt_source = sample_currency 1, rt_amount = Amount 700,
     rt_kind = ReserveToReserve (sample_currency 2) (sample_currency 3),
     rt_fee_currency = sample_currency 1, rt_fee = Amount 20,
     rt_destination = converting_with_refund (DestIdentity (replicate 20 8)) (DestPubKeyHash (replicate 20 9))\<rparr>"

lemma reserve_value_exact_witness:
  "\<exists>vs. reserve_value (sample_currency 9) (payload_of sample_transfer) = Inr vs \<and>
     unat (bt_entry 0 (sample_currency 1) vs) = 720"
proof -
  have h: "holding (sample_currency 9) (payload_of sample_transfer) (sample_currency 1) = 720"
    by (simp add: holding_def payload_of_def sample_transfer_def sample_currency_def fee_currency_of_def
        null_currency_def currency_from_bytes_def gateway_fees_def converting_with_refund_def is_mint_def
        rt_flags)
  have "sample_currency 1 \<noteq> sample_currency 9" by (simp add: sample_currency_def)
  moreover have "rp_tokens (payload_of sample_transfer) = [(sample_currency 1, 700)]"
    "rp_fees (payload_of sample_transfer) = 20" "gateway_fees (payload_of sample_transfer) = 0"
    by (simp_all add: payload_of_def sample_transfer_def gateway_fees_def converting_with_refund_def)
  then obtain vs where "reserve_value (sample_currency 9) (payload_of sample_transfer) = Inr vs"
    using reserve_value_exact [of "sample_currency 9" "payload_of sample_transfer", THEN conjunct2, THEN conjunct1] h
    by auto
  ultimately show ?thesis
    using reserve_value_exact [of "sample_currency 9" "payload_of sample_transfer" vs] h by auto
qed

text \<open>
  A request reads back from the chain as what was asked.  The payload of every
  well-formed request is written; reading it gives the same currency and amount, flag word,
  fee, destination with its refund address and bridge leg, and destination currency, and a
  second reserve exactly for a conversion through one; bytes after it are refused.
\<close>

theorem payload_read_back:
  assumes "wf_transfer t"
  shows "\<exists>bs. to_payload t = Inr bs \<and>
    (\<forall>extra. length (bs @ extra) < usize_bound \<longrightarrow>
       from_payload hx (bs @ extra) = (if extra = [] then Inr (payload_of t)
         else Inl (bad ''trailing bytes after a reserve transfer''))) \<and>
    is_mint (payload_of t) = is_mint_kind (rt_kind t)"
proof -
  have "\<exists>g. gateway_bytes (td_gateway (rt_destination t)) = Inr g"
    using assms by (auto simp: gateway_bytes_def wf_transfer_def wf_transfer_destination_def wf_leg_def
        split: option.splits)
  then obtain bs where bs: "to_payload t = Inr bs"
    by (auto simp: to_payload_def destination_serialize_def)
  have "from_payload hx (bs @ extra) = (if extra = [] then Inr (payload_of t)
         else Inl (bad ''trailing bytes after a reserve transfer''))" if "length (bs @ extra) < usize_bound" for extra
    using decodesD [OF decodes_payload [OF assms bs, of hx], of "cursor_new (bs @ extra)" extra] that
    by (simp add: from_payload_def refuse_if_def)
  with bs show ?thesis
    using kind_flag_bits(3) [of "rt_kind t"] by (simp add: is_mint_def payload_of_def)
qed

lemma sample_transfer_wf: "wf_transfer sample_transfer"
  by (simp add: wf_transfer_def sample_transfer_def sample_currency_def wf_currency_def
      wf_transfer_destination_def converting_with_refund_def)

lemma payload_read_back_witness:
  "\<exists>bs. to_payload sample_transfer = Inr bs \<and>
    (length bs < usize_bound \<longrightarrow> from_payload hex_string bs = Inr (payload_of sample_transfer))"
proof -
  from payload_read_back [OF sample_transfer_wf, of hex_string] obtain bs where
    "to_payload sample_transfer = Inr bs"
    "\<forall>extra. length (bs @ extra) < usize_bound \<longrightarrow>
       from_payload hex_string (bs @ extra) = (if extra = [] then Inr (payload_of sample_transfer)
         else Inl (bad ''trailing bytes after a reserve transfer''))" by blast
  then show ?thesis by (metis append_Nil2)
qed

lemma native_value_holding:
  assumes "rt_fee_currency t \<noteq> null_currency" "td_gateway (rt_destination t) = None"
    and "rt_fee_currency t = native \<or> rt_source t \<noteq> native"
  shows "native_value t native = (if holding native (payload_of t) native < 2 ^ 64
      then Inr (from_sat (of_nat (holding native (payload_of t) native))) else Inl ValueOverflow)"
proof -
  let ?sum = "sats (rt_amount t) + sats (rt_fee t)"
  have hold: "holding native (payload_of t) native =
      (if native = rt_fee_currency t then sats (rt_fee t) else 0) +
      (if is_mint_kind (rt_kind t) then 0 else if rt_source t = native then sats (rt_amount t) else 0)"
    using assms(1,2) kind_flag_bits(3) [of "rt_kind t"]
    by (simp add: holding_def payload_of_def fee_currency_of_def gateway_fees_def is_mint_def)
  have fits: "sats a < 2 ^ 64" and whole: "from_sat (of_nat (sats a)) = a" for a
    using unat_u64 [of "to_sat a"] by (cases a; simp add: from_sat_def)+
  have add: "ok_or (amount_checked_add (rt_amount t) (rt_fee t)) ValueOverflow =
      (if ?sum < 2 ^ 64 then Inr (from_sat (of_nat ?sum)) else Inl ValueOverflow)"
    by (simp add: amount_checked_add_def checked_add_def from_sat_def)
  show ?thesis
    using assms(3) fits whole add unfolding hold native_value_def
    by (auto simp: amount_zero_def from_sat_def add.commute)
qed

text \<open>
  A request's native value is the part its payload hides.  When the fee is paid in the
  native currency, or the source is another currency, the satoshis an output with this
  payload must carry are exactly the native total of the payload, the part \<open>reserve_value\<close>
  takes out, so native and token value together count each unit once.  An overflow is
  refused.
\<close>

theorem native_value_is_hidden_part:
  assumes "rt_fee_currency t \<noteq> null_currency" "td_gateway (rt_destination t) = None"
    and "rt_fee_currency t = native \<or> rt_source t \<noteq> native"
  shows "native_value t native = (if holding native (payload_of t) native < 2 ^ 64
      then Inr (from_sat (of_nat (holding native (payload_of t) native))) else Inl ValueOverflow)"
  using assms by (rule native_value_holding)

lemma native_value_is_hidden_part_witness:
  "native_value sample_transfer (sample_currency 1) = Inr (Amount 720)"
proof -
  have h: "holding (sample_currency 1) (payload_of sample_transfer) (sample_currency 1) = 720"
    by (simp add: holding_def payload_of_def sample_transfer_def sample_currency_def fee_currency_of_def
        null_currency_def currency_from_bytes_def gateway_fees_def converting_with_refund_def is_mint_def
        rt_flags)
  show ?thesis
    using native_value_is_hidden_part [of sample_transfer "sample_currency 1"]
    by (simp add: h from_sat_def) (simp add: sample_transfer_def sample_currency_def null_currency_def
        currency_from_bytes_def converting_with_refund_def)
qed

text \<open>A native source with the fee in a token: the output carries the fee as satoshis too.\<close>

lemma token_fee_counted_natively:
  "native_value (sample_transfer\<lparr>rt_fee_currency := sample_currency 5\<rparr>) (sample_currency 1) = Inr (Amount 720)"
  "holding (sample_currency 1) (payload_of (sample_transfer\<lparr>rt_fee_currency := sample_currency 5\<rparr>))
     (sample_currency 1) = 700"
  by (simp_all add: native_value_def sample_transfer_def sample_currency_def is_mint_kind_def
      amount_checked_add_def checked_add_def holding_def payload_of_def fee_currency_of_def null_currency_def
      currency_from_bytes_def gateway_fees_def converting_with_refund_def is_mint_def rt_flags)

end
