(* ===== verification/Decode.thy ===== *)
theory Decode
  imports Convert Identity
begin

text \<open>
  What an output script pays (\<open>verus-tx-protocol/src/decode.rs\<close>): P2PKH, P2PK and every
  CryptoCondition output the library reads.  A script with a CryptoCondition opcode never
  falls back to being native only: it decodes fully or is refused.
\<close>

section \<open>Kinds of output\<close>

definition ADVANCED_COMMITMENT_KEY :: bytes where
  "ADVANCED_COMMITMENT_KEY =
     [0x27, 0x67, 0x18, 0x1a, 0x4f, 0x6a, 0xbe, 0x20, 0x90, 0xa7, 0xdc, 0xa2, 0xc6, 0x89, 0x47, 0x7d,
      0x16, 0x39, 0x00, 0xf6]"

definition may_carry_currency :: "u8 \<Rightarrow> bool" where
  "may_carry_currency eval_code \<longleftrightarrow>
     eval_code \<in> {EVAL_RESERVE_TRANSFER, EVAL_RESERVE_OUTPUT, EVAL_RESERVE_DEPOSIT, EVAL_CROSSCHAIN_IMPORT,
       EVAL_IDENTITY_COMMITMENT}"

datatype output_kind =
    OutPubKeyHash bytes
  | OutPubKey bytes bytes
  | OutReserveOutput destination "(currency_id \<times> u64) list"
  | OutIdentityPayment bytes
  | OutIdentityPrimary identity
  | OutIdentityCommitment destination bytes "(currency_id \<times> u64) list"
  | OutReserveDeposit destination currency_id "(currency_id \<times> u64) list"
  | OutReserveTransfer destination reserve_transfer_payload
  | OutUnsupported u8 bool

definition pay_to_pubkey :: "bytes \<Rightarrow> bytes option" where
  "pay_to_pubkey script =
     (case script of
        [] \<Rightarrow> None
      | n # key \<Rightarrow>
          if n \<noteq> 33 \<and> n \<noteq> 65 then None
          else if length key \<noteq> unat n + 1 \<or> key ! unat n \<noteq> 0xac then None
          else Some (take (unat n) key))"

definition first_destination :: "destination list \<Rightarrow> str \<Rightarrow> tx_error + destination" where
  "first_destination ds shape =
     (case ds of [] \<Rightarrow> Inl (malformed (shape @ '' has no destination'')) | d # _ \<Rightarrow> Inr d)"

section \<open>CryptoCondition parameters\<close>

definition require :: "bool \<Rightarrow> tx_error \<Rightarrow> unit script_rd" where
  "require c e = (if c then rd_return () else rd_fail e)"

definition require_done :: "tx_error \<Rightarrow> unit script_rd" where
  "require_done e r = (if reader_done r then Inr ((), r) else Inl e)"

definition read_destination :: "destination script_rd" where
  "read_destination = rd_bind take_push (\<lambda>push. rd_lift (from_push push))"

text \<open>The two pushes of the script; the master parameters are skipped unread.\<close>

definition read_params_chunk :: "bytes script_rd" where
  "read_params_chunk =
     rd_bind take_push (\<lambda>_.
     rd_bind take_opcode (\<lambda>opcode.
     rd_bind (require (opcode = OP_CHECKCRYPTOCONDITION)
       (malformed ''expected OP_CHECKCRYPTOCONDITION after the master params'')) (\<lambda>_.
     rd_bind take_push (\<lambda>chunk.
     rd_bind take_opcode (\<lambda>opcode.
     rd_bind (require (opcode = OP_DROP) (malformed ''expected OP_DROP after the params'')) (\<lambda>_.
     rd_bind (require_done (malformed ''trailing bytes after OP_DROP'')) (\<lambda>_.
     rd_return chunk)))))))"

definition read_header :: "(u8 \<times> destination list) script_rd" where
  "read_header =
     rd_bind take_push (\<lambda>header.
     rd_bind (require (length header = 4) (malformed ''OptCCParams header is not 4 bytes'')) (\<lambda>_.
     rd_bind (require (header ! 0 = OPT_CC_PARAMS_VERSION)
       (malformed (''unsupported OptCCParams version '' @ dec_string (unat (header ! 0))))) (\<lambda>_.
     rd_bind (rd_times (unat (header ! 3)) read_destination) (\<lambda>destinations.
     rd_return (header ! 1, destinations)))))"

text \<open>\<open>while !params.done() { .. }\<close>, each round of which takes a push.\<close>

lemma take_push_advances:
  assumes "take_push r = Inr (xs, r')"
  shows "cur_bytes r' = cur_bytes r \<and> cur_at r < cur_at r'"
proof -
  have op: "cur_bytes r' = cur_bytes r \<and> cur_at r' = cur_at r + 1" if "take_opcode r = Inr (b, r')" for r b r'
    using that by (auto simp: take_opcode_def rbind_Inr_iff)
  have len: "cur_bytes r' = cur_bytes r \<and> cur_at r \<le> cur_at r'" if "push_length b r = Inr (n, r')" for b r n r'
    using that by (auto simp: push_length_def rd_simps dest!: op split: if_splits)
  from assms obtain b r1 n r2 where 1: "take_opcode r = Inr (b, r1)" and 2: "push_length b r1 = Inr (n, r2)"
    and 3: "take_slice n (malformed ''push runs past the end of the script'') r2 = Inr (xs, r')"
    by (auto simp: take_push_def rd_simps split: if_splits)
  from 3 have "cur_bytes r' = cur_bytes r2 \<and> cur_at r2 \<le> cur_at r'"
    by (auto simp: take_slice_def split: if_splits)
  with op [OF 1] len [OF 2] show ?thesis by auto
qed

function read_chunks :: "(bytes \<Rightarrow> tx_error + 'a) \<Rightarrow> 'a list script_rd" where
  "read_chunks f r =
     (if reader_done r then Inr ([], r)
      else case take_push r of
          Inl e \<Rightarrow> Inl e
        | Inr (push, r') \<Rightarrow>
            rbind (f push) (\<lambda>x. rbind (read_chunks f r') (\<lambda>(xs, r''). Inr (x # xs, r''))))"
  by pat_completeness auto

termination
  by (relation "measure (\<lambda>(_, r). length (cur_bytes r) - cur_at r)")
    (auto simp: reader_done_def dest!: take_push_advances)

declare read_chunks.simps [simp del]

section \<open>The kinds of condition\<close>

text \<open>The revoke and recover conditions that follow an identity: the eval code of a chunk.\<close>

definition auxiliary_code :: "bytes \<Rightarrow> tx_error + u8" where
  "auxiliary_code chunk =
     rbind (take_push (cursor_new chunk)) (\<lambda>(header, _).
     rbind (refuse_if (length header \<noteq> 4 \<or> header ! 0 \<noteq> OPT_CC_PARAMS_VERSION)
       (malformed ''an identity's trailing vdata is not a v3 OptCCParams chunk'')) (\<lambda>_.
     Inr (header ! 1)))"

definition bytes_debug :: "bytes \<Rightarrow> str" where
  "bytes_debug bs = ''['' @ join_comma (map (dec_string \<circ> unat) bs) @ '']''"

definition decode_identity_payment :: "destination list \<Rightarrow> output_kind script_rd" where
  "decode_identity_payment destinations r =
     (case destinations of
        DestIdentity identity # _ \<Rightarrow>
          if reader_done r then Inr (OutIdentityPayment identity, r)
          else Inl (malformed ''an EVAL_NONE condition that is not a plain identity payment'')
      | _ \<Rightarrow> Inl (malformed ''an EVAL_NONE condition that is not a plain identity payment''))"

definition decode_identity_primary :: "output_kind script_rd" where
  "decode_identity_primary =
     rd_bind take_push (\<lambda>payload.
     rd_bind (read_chunks auxiliary_code) (\<lambda>auxiliary.
     rd_bind (require (auxiliary = [EVAL_IDENTITY_REVOKE, EVAL_IDENTITY_RECOVER])
       (malformed (''expected revoke ('' @ dec_string (unat EVAL_IDENTITY_REVOKE) @
          '') and recover                  ('' @ dec_string (unat EVAL_IDENTITY_RECOVER) @
          '') conditions, found '' @ bytes_debug auxiliary))) (\<lambda>_.
     rd_bind (rd_lift (identity_from_bytes payload)) (\<lambda>identity.
     rd_return (OutIdentityPrimary identity)))))"

definition reserve_deposit_payload :: "hex_encode \<Rightarrow> bytes \<Rightarrow> tx_error + (currency_id \<times> u64) list \<times> currency_id" where
  "reserve_deposit_payload hx payload =
     rbind (rd_bind (parse_token_output_at hx) (\<lambda>tokens. rd_bind read_currency_at (\<lambda>controlling.
            rd_return (tokens, controlling))) (cursor_new payload)) (\<lambda>(x, r).
     rbind (refuse_if (cur_at r \<noteq> length payload)
       (malformed ''trailing bytes after a reserve deposit'')) (\<lambda>_. Inr x))"

definition decode_reserve_deposit :: "hex_encode \<Rightarrow> destination list \<Rightarrow> output_kind script_rd" where
  "decode_reserve_deposit hx destinations =
     rd_bind take_push (\<lambda>payload.
     rd_bind (require_done (malformed ''trailing vdata after a reserve deposit'')) (\<lambda>_.
     rd_bind (rd_lift (reserve_deposit_payload hx payload)) (\<lambda>(tokens, controlling).
     rd_bind (rd_lift (first_destination destinations ''reserve deposit'')) (\<lambda>d.
     rd_return (OutReserveDeposit d controlling tokens)))))"

definition decode_reserve_transfer :: "hex_encode \<Rightarrow> destination list \<Rightarrow> output_kind script_rd" where
  "decode_reserve_transfer hx destinations =
     rd_bind take_push (\<lambda>payload.
     rd_bind (require_done (malformed ''trailing vdata after a reserve transfer'')) (\<lambda>_.
     rd_bind (rd_lift (first_destination destinations ''reserve transfer'')) (\<lambda>d.
     rd_bind (rd_lift (from_payload hx payload)) (\<lambda>transfer.
     rd_return (OutReserveTransfer d transfer)))))"

definition commitment_tokens :: "hex_encode \<Rightarrow> bytes \<Rightarrow> tx_error + (currency_id \<times> u64) list" where
  "commitment_tokens hx payload =
     (if length payload < 32 then Inl (malformed ''a name commitment is shorter than its hash'')
      else if drop 32 payload = [] then Inr []
      else if take 20 payload = ADVANCED_COMMITMENT_KEY then parse_token_output hx (drop 32 payload)
      else Inl (malformed (''a name commitment carries data after its hash without the advanced ''
             @ ''commitment key that would say how to read it'')))"

definition decode_commitment :: "hex_encode \<Rightarrow> destination list \<Rightarrow> output_kind script_rd" where
  "decode_commitment hx destinations =
     rd_bind take_push (\<lambda>payload.
     rd_bind (require_done (malformed ''trailing vdata after a name commitment'')) (\<lambda>_.
     rd_bind (rd_lift (commitment_tokens hx payload)) (\<lambda>tokens.
     rd_bind (rd_lift (first_destination destinations ''name commitment'')) (\<lambda>d.
     rd_return (OutIdentityCommitment d (take 32 payload) tokens)))))"

definition decode_reserve_output :: "hex_encode \<Rightarrow> destination list \<Rightarrow> output_kind script_rd" where
  "decode_reserve_output hx destinations =
     rd_bind (read_chunks (parse_token_output hx)) (\<lambda>tokens.
     rd_bind (rd_lift (first_destination destinations ''reserve output'')) (\<lambda>d.
     rd_return (OutReserveOutput d (concat tokens))))"

definition decode_kind :: "hex_encode \<Rightarrow> u8 \<Rightarrow> destination list \<Rightarrow> output_kind script_rd" where
  "decode_kind hx eval_code destinations =
     (if eval_code = EVAL_NONE then decode_identity_payment destinations
     else if eval_code = EVAL_IDENTITY_PRIMARY then decode_identity_primary
     else if eval_code = EVAL_RESERVE_DEPOSIT then decode_reserve_deposit hx destinations
     else if eval_code = EVAL_RESERVE_TRANSFER then decode_reserve_transfer hx destinations
     else if eval_code = EVAL_IDENTITY_COMMITMENT then decode_commitment hx destinations
     else if eval_code \<noteq> EVAL_RESERVE_OUTPUT
       then rd_return (OutUnsupported eval_code (may_carry_currency eval_code))
     else decode_reserve_output hx destinations)"

definition decode_condition :: "hex_encode \<Rightarrow> output_kind script_rd" where
  "decode_condition hx =
     rd_bind read_header (\<lambda>(eval_code, destinations). decode_kind hx eval_code destinations)"

definition decode_output_script :: "hash_lib \<Rightarrow> hex_encode \<Rightarrow> bytes \<Rightarrow> tx_error + output_kind" where
  "decode_output_script H hx script =
     (if length script = 25 \<and> take 3 script = [0x76, 0xa9, 0x14] \<and> take 2 (drop 23 script) = [0x88, 0xac]
      then Inr (OutPubKeyHash (take 20 (drop 3 script)))
      else case pay_to_pubkey script of
          Some pubkey \<Rightarrow> Inr (OutPubKey pubkey (hash160 H pubkey))
        | None \<Rightarrow>
            if OP_CHECKCRYPTOCONDITION \<notin> set script then Inl (UnsupportedScript (hx script))
            else rbind (read_params_chunk (cursor_new script)) (\<lambda>(chunk, _).
                 rbind (decode_condition hx (cursor_new chunk)) (\<lambda>(kind, _). Inr kind)))"

section \<open>Reading to the end\<close>

text \<open>\<open>finishes m bs x\<close>: when \<open>bs\<close> is all that is left, \<open>m\<close> reads it as \<open>x\<close> and nothing remains.\<close>

definition finishes :: "('e, 'a) rd \<Rightarrow> bytes \<Rightarrow> 'a \<Rightarrow> bool" where
  "finishes m bs x \<longleftrightarrow> (\<forall>r. wf_cursor r \<longrightarrow> rest r = bs \<longrightarrow>
     (\<exists>r'. m r = Inr (x, r') \<and> wf_cursor r' \<and> rest r' = []))"

lemma finishesE:
  assumes "finishes m bs x" "wf_cursor r" "rest r = bs"
  obtains r' where "m r = Inr (x, r')" "wf_cursor r'" "rest r' = []"
  using assms unfolding finishes_def by blast

lemma decodes_finishes: "decodes m bs x \<Longrightarrow> finishes m bs x"
  unfolding finishes_def
proof (intro allI impI)
  fix r
  assume d: "decodes m bs x" and r: "wf_cursor r" "rest r = bs"
  from decodesD [OF d r(1), of "[]"] r(2) have "m r = Inr (x, advance r (length bs))" by simp
  moreover have "wf_cursor (advance r (length bs))" using r by (intro wf_advance) auto
  moreover have "rest (advance r (length bs)) = []" using r by simp
  ultimately show "\<exists>r'. m r = Inr (x, r') \<and> wf_cursor r' \<and> rest r' = []" by blast
qed

lemma finishes_after:
  assumes "decodes m xs a" "finishes (f a) ys b"
  shows "finishes (rd_bind m f) (xs @ ys) b"
  unfolding finishes_def
proof (intro allI impI)
  fix r
  assume r: "wf_cursor r" "rest r = xs @ ys"
  let ?r1 = "advance r (length xs)"
  have 1: "m r = Inr (a, ?r1)" by (rule decodesD [OF assms(1) r])
  have "wf_cursor ?r1" "rest ?r1 = ys" using r by (auto intro!: wf_advance)
  then obtain r' where "f a ?r1 = Inr (b, r')" "wf_cursor r'" "rest r' = []"
    by (rule finishesE [OF assms(2)])
  with 1 show "\<exists>r'. rd_bind m f r = Inr (b, r') \<and> wf_cursor r' \<and> rest r' = []"
    by (auto simp: rd_bind_def)
qed

lemma finishes_then:
  assumes "finishes m xs a" "finishes (f a) [] b"
  shows "finishes (rd_bind m f) xs b"
  unfolding finishes_def
proof (intro allI impI)
  fix r
  assume "wf_cursor r" "rest r = xs"
  then obtain r1 where 1: "m r = Inr (a, r1)" "wf_cursor r1" "rest r1 = []"
    by (rule finishesE [OF assms(1)])
  from assms(2) this(2,3) obtain r' where "f a r1 = Inr (b, r')" "wf_cursor r'" "rest r' = []"
    by (rule finishesE)
  with 1 show "\<exists>r'. rd_bind m f r = Inr (b, r') \<and> wf_cursor r' \<and> rest r' = []"
    by (auto simp: rd_bind_def)
qed

lemma finishes_Nil: "decodes m [] a \<Longrightarrow> finishes (f a) ys b \<Longrightarrow> finishes (rd_bind m f) ys b"
  using finishes_after [of m "[]" a f ys b] by simp

lemma finishes_return: "finishes (rd_return x) [] x"
  by (rule decodes_finishes [OF decodes_return])

lemma finishes_done: "finishes (require_done e) [] ()"
  by (auto simp: finishes_def require_done_def reader_done_iff)

lemma decodes_require: "c \<Longrightarrow> decodes (require c e) [] ()"
  by (simp add: require_def decodes_return)

lemma decodes_push: "bs \<noteq> [] \<Longrightarrow> length bs \<le> 65535 \<Longrightarrow> decodes take_push (push_bytes bs) bs"
  unfolding decodes_def using take_push_run by blast

lemma decodes_opcode: "decodes take_opcode [b] b"
  by (rule opcode.decodes_dec) simp

lemma finishes_chunks:
  "list_all2 (\<lambda>c x. f c = Inr x \<and> c \<noteq> [] \<and> length c \<le> 65535) cs xs \<Longrightarrow>
     finishes (read_chunks f) (concat (map push_bytes cs)) xs"
proof (induction cs arbitrary: xs)
  case Nil
  then show ?case
    by (auto simp: finishes_def read_chunks.simps [of f] reader_done_iff)
next
  case (Cons c cs)
  then obtain x ys where xs: "xs = x # ys" and c: "f c = Inr x" "c \<noteq> []" "length c \<le> 65535"
    and l: "list_all2 (\<lambda>c x. f c = Inr x \<and> c \<noteq> [] \<and> length c \<le> 65535) cs ys"
    by (auto simp: list_all2_Cons1)
  show ?case
    unfolding finishes_def
  proof (intro allI impI)
    fix r
    assume r: "wf_cursor r" "rest r = concat (map push_bytes (c # cs))"
    let ?r1 = "advance r (length (push_bytes c))"
    have 1: "take_push r = Inr (c, ?r1)"
      using decodesD [OF decodes_push [OF c(2,3)] r(1)] r(2) by simp
    have "wf_cursor ?r1" "rest ?r1 = concat (map push_bytes cs)" using r by (auto intro!: wf_advance)
    then obtain r' where r': "read_chunks f ?r1 = Inr (ys, r')" "wf_cursor r'" "rest r' = []"
      by (rule finishesE [OF Cons.IH [OF l]])
    have "push_bytes c \<noteq> []" by (simp add: push_bytes_def)
    then have "\<not> reader_done r" using r by (simp add: reader_done_iff)
    then show "\<exists>r'. read_chunks f r = Inr (xs, r') \<and> wf_cursor r' \<and> rest r' = []"
      using 1 c(1) r' xs by (simp add: read_chunks.simps [of f r])
  qed
qed

section \<open>Scripts of this library's own encoder\<close>

lemma cc_script_length:
  assumes "cc_script master params = Inr s"
  shows "length s < usize_bound"
proof -
  from assms obtain mc pc where c: "length mc \<le> 65535" "length pc \<le> 65535"
    and s: "s = push_bytes mc @ [OP_CHECKCRYPTOCONDITION] @ push_bytes pc @ [OP_DROP]"
    by (auto simp: cc_script_Inr)
  have "length (push_bytes xs) \<le> length xs + 3" for xs by (simp add: push_bytes_def)
  from this [of mc] this [of pc] c show ?thesis by (simp add: s)
qed

lemma params_of_script:
  assumes "cc_script master params = Inr s"
  obtains chunk m where "to_chunk params = Inr chunk" "read_params_chunk (cursor_new s) = Inr (chunk, m)"
    "length chunk \<le> 65535"
proof -
  from assms(1) obtain mc pc where c: "to_chunk master = Inr mc" "to_chunk params = Inr pc"
    "length mc \<le> 65535" "length pc \<le> 65535"
    and s: "s = push_bytes mc @ [OP_CHECKCRYPTOCONDITION] @ push_bytes pc @ [OP_DROP]"
    by (auto simp: cc_script_Inr)
  have ne: "xs \<noteq> []" if "to_chunk p = Inr xs" for p xs
    using that by (auto simp: to_chunk_Inr push_bytes_def)
  have drop: "finishes (rd_bind take_opcode (\<lambda>opcode. rd_bind (require (opcode = OP_DROP) e) (\<lambda>_.
      rd_bind (require_done e') (\<lambda>_. rd_return pc)))) [OP_DROP] pc" for e e'
    by (rule finishes_then [OF decodes_finishes [OF decodes_opcode]],
        rule finishes_Nil [OF decodes_require], simp, rule finishes_then [OF finishes_done finishes_return])
  have "finishes read_params_chunk s pc"
    unfolding read_params_chunk_def s
    by (rule finishes_after [OF decodes_push [OF ne [OF c(1)] c(3)]], rule finishes_after [OF decodes_opcode],
        rule finishes_Nil [OF decodes_require], simp,
        rule finishes_after [OF decodes_push [OF ne [OF c(2)] c(4)]], rule drop)
  moreover have "wf_cursor (cursor_new s)" "rest (cursor_new s) = s"
    using cc_script_length [OF assms] by simp_all
  ultimately obtain r' where "read_params_chunk (cursor_new s) = Inr (pc, r')"
    by (rule finishesE)
  with c that show thesis by blast
qed

lemma decodes_read_destination:
  assumes "wf_destination d"
  shows "decodes read_destination (push_bytes (to_push d)) d"
  unfolding read_destination_def
proof (rule decodes_bind_last [OF decodes_push])
  show "to_push d \<noteq> []" "length (to_push d) \<le> 65535"
    using length_to_push [OF assms] by auto
  show "decodes (rd_lift (from_push (to_push d))) [] d"
    using assms by (intro decodes_lift) (simp add: from_push_iff)
qed

lemma decodes_header:
  assumes "cc_version p = OPT_CC_PARAMS_VERSION" "list_all wf_destination (cc_destinations p)"
    and "unat (cc_n p) = length (cc_destinations p)"
  shows "decodes read_header (push_bytes [cc_version p, cc_eval_code p, cc_m p, cc_n p] @
      concat (map (push_bytes \<circ> to_push) (cc_destinations p))) (cc_eval_code p, cc_destinations p)"
proof -
  let ?h = "[cc_version p, cc_eval_code p, cc_m p, cc_n p]"
  have ds: "decodes (rd_times (unat (?h ! 3)) read_destination)
      (concat (map (push_bytes \<circ> to_push) (cc_destinations p))) (cc_destinations p)"
    using assms(2,3)
    by (simp add: decodes_times decodes_read_destination list_all_iff)
  have hp: "decodes take_push (push_bytes ?h) ?h" by (rule decodes_push) simp_all
  have r: "decodes (rd_return (?h ! 1, cc_destinations p)) [] (cc_eval_code p, cc_destinations p)"
    by (simp add: decodes_return)
  show ?thesis
    unfolding read_header_def
    by (rule decodes_bind [OF hp], rule decodes_bind_Nil [OF decodes_require], simp,
        rule decodes_bind_Nil [OF decodes_require], simp add: assms(1),
        rule decodes_bind_last [OF ds], rule r)
qed

text \<open>
  What a condition written by \<open>cc_script\<close> decodes to is decided by its vdata alone: its last
  byte keeps it from being mistaken for a P2PKH or P2PK script.
\<close>

lemma dropped_shapes:
  "length (s @ [OP_DROP]) = 25 \<Longrightarrow> take 2 (drop 23 (s @ [OP_DROP])) \<noteq> [0x88, 0xac]"
  "pay_to_pubkey (s @ [OP_DROP]) = None"
proof -
  show "take 2 (drop 23 (s @ [OP_DROP])) \<noteq> [0x88, 0xac]" if "length (s @ [OP_DROP]) = 25"
  proof
    assume a: "take 2 (drop 23 (s @ [OP_DROP])) = [0x88, 0xac]"
    have "last (drop 23 (s @ [OP_DROP])) = OP_DROP" using that by simp
    with a that show False by (simp add: op_codes)
  qed
  show "pay_to_pubkey (s @ [OP_DROP]) = None"
    by (cases s) (auto simp: pay_to_pubkey_def op_codes nth_append)
qed

lemma decode_of_script:
  assumes "cc_script master p = Inr s"
    and "cc_version p = OPT_CC_PARAMS_VERSION" "list_all wf_destination (cc_destinations p)"
    and "unat (cc_n p) = length (cc_destinations p)"
    and fin: "finishes (decode_kind hx (cc_eval_code p) (cc_destinations p))
      (concat (map push_bytes (cc_vdata p))) kind"
  shows "decode_output_script H hx s = Inr kind"
proof -
  obtain chunk m where chunk: "to_chunk p = Inr chunk" "read_params_chunk (cursor_new s) = Inr (chunk, m)"
    "length chunk \<le> 65535"
    using params_of_script [OF assms(1)] by blast
  have bytes: "chunk = (push_bytes [cc_version p, cc_eval_code p, cc_m p, cc_n p] @
      concat (map (push_bytes \<circ> to_push) (cc_destinations p))) @ concat (map push_bytes (cc_vdata p))"
    using chunk(1) by (simp add: to_chunk_Inr)
  have "finishes (decode_condition hx) chunk kind"
    unfolding decode_condition_def bytes
    by (rule finishes_after [OF decodes_header [OF assms(2,3,4)]]) (use fin in simp)
  moreover have "wf_cursor (cursor_new chunk)" "rest (cursor_new chunk) = chunk" using chunk(3) by simp_all
  ultimately obtain r' where "decode_condition hx (cursor_new chunk) = Inr (kind, r')"
    by (rule finishesE)
  moreover have "OP_CHECKCRYPTOCONDITION \<in> set s" using assms(1) by (auto simp: cc_script_Inr)
  moreover obtain t where "s = t @ [OP_DROP]"
    using assms(1) by (auto simp: cc_script_Inr simp flip: append_assoc append_Cons)
  then have "pay_to_pubkey s = None" "length s = 25 \<Longrightarrow> take 2 (drop 23 s) \<noteq> [0x88, 0xac]"
    using dropped_shapes [of t] by simp_all
  ultimately show ?thesis
    using chunk(2) by (auto simp: decode_output_script_def)
qed


text \<open>The kinds of condition this library's encoders write.\<close>

lemma finishes_lift: "m = Inr x \<Longrightarrow> finishes (f x) bs k \<Longrightarrow> finishes (rd_bind (rd_lift m) f) bs k"
  by (rule finishes_Nil [OF decodes_lift])

lemma vdata_fits: "to_chunk p = Inr s \<Longrightarrow> d \<in> set (cc_vdata p) \<Longrightarrow> length d \<le> 65535"
  by (simp add: to_chunk_Inr)

lemma script_vdata_fits: "cc_script m p = Inr s \<Longrightarrow> d \<in> set (cc_vdata p) \<Longrightarrow> length d \<le> 65535"
  by (auto simp: cc_script_Inr dest: vdata_fits)

lemma eval_kinds:
  "decode_kind hx EVAL_NONE ds = decode_identity_payment ds"
  "decode_kind hx EVAL_IDENTITY_PRIMARY ds = decode_identity_primary"
  "decode_kind hx EVAL_RESERVE_TRANSFER ds = decode_reserve_transfer hx ds"
  "decode_kind hx EVAL_RESERVE_OUTPUT ds = decode_reserve_output hx ds"
  by (simp_all add: decode_kind_def eval_codes)

lemma decode_identity_payment_script:
  assumes "length h = 20" "identity_payment_script h = Inr s"
  shows "decode_output_script H hx s = Inr (OutIdentityPayment h)"
  using assms(2) unfolding identity_payment_script_def
  by (rule decode_of_script)
    (use assms(1) in \<open>auto simp: one_of_one_def eval_kinds finishes_def decode_identity_payment_def reader_done_iff\<close>)

lemma reserve_output_script_total:
  assumes "wf_destination d" "wf_currency c"
  obtains s where "reserve_output_script_to d c a = Inr s"
proof -
  have "length (to_push d) \<le> 65" using length_to_push [OF assms(1)] by simp
  moreover have "length (token_output c a) \<le> 40"
    using assms(2) length_var_int [of a] length_var_int [of TOKEN_OUTPUT_VERSION_SINGLE]
    by (simp add: token_output_def wf_currency_def)
  moreover have "length (push_bytes xs) \<le> length xs + 3" for xs by (simp add: push_bytes_def)
  from this [of "to_push d"] this [of "token_output c a"] this [of "[b, e, m, n]" for b e m n]
  have "length (push_bytes (to_push d)) \<le> length (to_push d) + 3"
    "length (push_bytes (token_output c a)) \<le> length (token_output c a) + 3"
    "\<And>b e m n. length (push_bytes [b, e, m, n]) \<le> 7" by simp_all
  ultimately have "\<exists>s. reserve_output_script_to d c a = Inr s"
    by (fastforce simp: reserve_output_script_to_def cc_script_Inr to_chunk_Inr one_of_one_def push_bytes_def)
  with that show thesis by blast
qed

lemma token_vdata:
  assumes "wf_currency c"
  shows "parse_token_output hx (token_output c a) = Inr [(c, a)]" "token_output c a \<noteq> []"
proof -
  have "length (token_output c a) \<le> 40"
    using assms length_var_int [of a] length_var_int [of TOKEN_OUTPUT_VERSION_SINGLE]
    by (simp add: token_output_def wf_currency_def)
  then show "parse_token_output hx (token_output c a) = Inr [(c, a)]"
    using decodesD [OF decodes_token_output [OF assms, of hx a], of "cursor_new (token_output c a)" "[]"]
    by (simp add: parse_token_output_def refuse_if_def)
qed (simp add: token_output_def)

lemma decode_reserve_output_script:
  assumes "wf_destination d" "wf_currency c" "reserve_output_script_to d c a = Inr s"
  shows "decode_output_script H hx s = Inr (OutReserveOutput d [(c, a)])"
proof (rule decode_of_script [OF assms(3) [unfolded reserve_output_script_to_def]])
  let ?p = "(one_of_one EVAL_RESERVE_OUTPUT d)\<lparr>cc_vdata := [token_output c a]\<rparr>"
  have "length (token_output c a) \<le> 65535"
    by (rule script_vdata_fits [OF assms(3) [unfolded reserve_output_script_to_def]]) simp
  then have "finishes (read_chunks (parse_token_output hx)) (concat (map push_bytes [token_output c a])) [[(c, a)]]"
    by (intro finishes_chunks) (simp add: token_vdata [OF assms(2)])
  then show "finishes (decode_kind hx (cc_eval_code ?p) (cc_destinations ?p))
      (concat (map push_bytes (cc_vdata ?p))) (OutReserveOutput d [(c, a)])"
    unfolding one_of_one_def
    by (simp add: eval_kinds decode_reserve_output_def)
      (auto intro!: finishes_then finishes_lift finishes_return simp: first_destination_def)
qed (use assms(1) in \<open>simp_all add: one_of_one_def\<close>)

lemma decode_transfer_script:
  assumes "wf_transfer t" "to_script t = Inr s"
  shows "decode_output_script H hx s =
    Inr (OutReserveTransfer (DestPubKeyHash RESERVE_TRANSFER_ADDRESS) (payload_of t))"
proof -
  let ?d = "DestPubKeyHash RESERVE_TRANSFER_ADDRESS"
  from assms(2) obtain bs where bs: "to_payload t = Inr bs"
    and s: "cc_script (one_of_one EVAL_NONE ?d) ((one_of_one EVAL_RESERVE_TRANSFER ?d)\<lparr>cc_vdata := [bs]\<rparr>) = Inr s"
    by (auto simp: to_script_def rbind_Inr_iff Let_def)
  have len: "length bs \<le> 65535" by (rule script_vdata_fits [OF s]) simp
  have read: "from_payload hx bs = Inr (payload_of t)"
    using decodesD [OF decodes_payload [OF assms(1) bs, of hx], of "cursor_new bs" "[]"] len
    by (simp add: from_payload_def refuse_if_def)
  have ne: "bs \<noteq> []"
    using bs by (auto simp: to_payload_def rbind_Inr_iff token_output_def)
  have "finishes (decode_reserve_transfer hx [?d]) (push_bytes bs) (OutReserveTransfer ?d (payload_of t))"
    unfolding decode_reserve_transfer_def
    by (rule finishes_then [OF decodes_finishes [OF decodes_push [OF ne len]]],
        rule finishes_then [OF finishes_done], rule finishes_lift, simp add: first_destination_def,
        rule finishes_lift [OF read], rule finishes_return)
  then show ?thesis
    by (intro decode_of_script [OF s])
      (simp_all add: one_of_one_def eval_kinds RESERVE_TRANSFER_ADDRESS_def)
qed

lemma decode_identity_script:
  assumes "wf_identity i" "identity_to_bytes i = Inr bs" "length holder = 20" "length revo = 20" "length recov = 20"
    and s: "identity_primary_script holder bs revo recov tokenized = Inr s"
  shows "decode_output_script H hx s = Inr (OutIdentityPrimary i)"
proof -
  let ?recover = "(one_of_one EVAL_IDENTITY_RECOVER (DestIdentity recov))"
  from s obtain master rv rc recover
    where rv: "to_chunk (one_of_one EVAL_IDENTITY_REVOKE (DestIdentity revo)) = Inr rv"
      and rc: "to_chunk recover = Inr rc" "cc_version recover = OPT_CC_PARAMS_VERSION"
        "cc_eval_code recover = EVAL_IDENTITY_RECOVER"
      and cc: "cc_script master ((one_of_one EVAL_IDENTITY_PRIMARY (DestIdentity holder))
        \<lparr>cc_vdata := [bs, rv, rc]\<rparr>) = Inr s"
    by (auto simp: identity_primary_script_def rbind_Inr_iff Let_def one_of_one_def split: if_splits)
  have fits: "length bs \<le> 65535" "length rv \<le> 65535" "length rc \<le> 65535"
    by (rule script_vdata_fits [OF cc], simp)+
  have aux: "auxiliary_code xs = Inr (cc_eval_code p) \<and> xs \<noteq> []"
    if "to_chunk p = Inr xs" "cc_version p = OPT_CC_PARAMS_VERSION" "length xs \<le> 65535" for p xs
  proof -
    let ?h = "[cc_version p, cc_eval_code p, cc_m p, cc_n p]"
    note chunk = that(1)
    obtain ys where xs: "xs = push_bytes ?h @ ys" using chunk by (auto simp: to_chunk_Inr)
    from that(3) have "wf_cursor (cursor_new xs)" by simp
    from decodesD [OF decodes_push [of ?h] this, of ys] that(2) show ?thesis
      by (simp add: auxiliary_code_def refuse_if_def xs) (simp add: push_bytes_def)
  qed
  have "finishes (read_chunks auxiliary_code) (concat (map push_bytes [rv, rc]))
      [EVAL_IDENTITY_REVOKE, EVAL_IDENTITY_RECOVER]"
    using aux [OF rv _ fits(2)] aux [OF rc(1,2) fits(3)] rc(3) fits(2,3)
    by (intro finishes_chunks) (simp add: one_of_one_def)
  then have chunks: "finishes (read_chunks auxiliary_code) (push_bytes rv @ push_bytes rc)
      [EVAL_IDENTITY_REVOKE, EVAL_IDENTITY_RECOVER]" by simp
  have read: "identity_from_bytes bs = Inr i"
    using identity_reader_run [OF assms(1,2), of "[]"] fits(1) by (simp add: id_expect_end_def refuse_if_def)
  have ne: "bs \<noteq> []" using assms(2) by (auto simp: identity_to_bytes_Inr)
  have "finishes decode_identity_primary (push_bytes bs @ push_bytes rv @ push_bytes rc) (OutIdentityPrimary i)"
    unfolding decode_identity_primary_def
    by (rule finishes_after [OF decodes_push [OF ne fits(1)]], rule finishes_then [OF chunks],
        rule finishes_Nil [OF decodes_require [OF refl]], rule finishes_lift [OF read], rule finishes_return)
  then show ?thesis
    by (intro decode_of_script [OF cc]) (simp_all add: one_of_one_def eval_kinds assms(3))
qed

section \<open>Properties\<close>

lemma decode_p2pkh:
  "decode_output_script H hx s = Inr (OutPubKeyHash h) \<longleftrightarrow>
     length h = 20 \<and> s = [0x76, 0xa9, 0x14] @ h @ [0x88, 0xac]"
proof -
  have kind: "decode_kind hx e ds r \<noteq> Inr (OutPubKeyHash h, r')" for e ds r r'
    by (auto simp: decode_kind_def decode_identity_payment_def decode_identity_primary_def decode_reserve_deposit_def
        decode_reserve_transfer_def decode_commitment_def decode_reserve_output_def rd_simps rbind_Inr_iff
        split: if_splits list.splits destination.splits)
  have cc: "decode_condition hx r \<noteq> Inr (OutPubKeyHash h, r')" for r r'
    using kind by (fastforce simp: decode_condition_def rd_bind_def split: sum.splits)
  have shape: "s = take 3 s @ take 20 (drop 3 s) @ take 2 (drop 23 s)" if "length s = 25"
    using that append_take_drop_id [of 3 s] append_take_drop_id [of 20 "drop 3 s"] by simp
  have "decode_output_script H hx s = Inr (OutPubKeyHash h) \<longleftrightarrow>
      length s = 25 \<and> take 3 s = [0x76, 0xa9, 0x14] \<and> take 2 (drop 23 s) = [0x88, 0xac] \<and> h = take 20 (drop 3 s)"
    using cc by (auto simp: decode_output_script_def rbind_Inr_iff split: option.splits)
  also have "\<dots> \<longleftrightarrow> length h = 20 \<and> s = [0x76, 0xa9, 0x14] @ h @ [0x88, 0xac]"
    using shape by (auto simp: numeral_eq_Suc)
  finally show ?thesis .
qed

lemma decode_p2pk:
  "decode_output_script H hx s = Inr (OutPubKey key h) \<longleftrightarrow>
     (length key = 33 \<or> length key = 65) \<and> s = of_nat (length key) # key @ [0xac] \<and> h = hash160 H key"
proof -
  have kind: "decode_kind hx e ds r \<noteq> Inr (OutPubKey key h, r')" for e ds r r'
    by (auto simp: decode_kind_def decode_identity_payment_def decode_identity_primary_def decode_reserve_deposit_def
        decode_reserve_transfer_def decode_commitment_def decode_reserve_output_def rd_simps rbind_Inr_iff
        split: if_splits list.splits destination.splits)
  have cc: "decode_condition hx r \<noteq> Inr (OutPubKey key h, r')" for r r'
    using kind by (fastforce simp: decode_condition_def rd_bind_def split: sum.splits)
  have split: "k = take n k @ [x]" if "length k = Suc n" "k ! n = x" for k :: bytes and n x
    using take_Suc_conv_app_nth [of n k] that by simp
  have pk: "pay_to_pubkey s = Some key \<longleftrightarrow>
      (length key = 33 \<or> length key = 65) \<and> s = of_nat (length key) # key @ [0xac]"
    by (cases s) (auto simp: pay_to_pubkey_def nth_append intro!: split)
  have "decode_output_script H hx s = Inr (OutPubKey key h) \<longleftrightarrow> pay_to_pubkey s = Some key \<and> h = hash160 H key"
    using cc pk by (auto simp: decode_output_script_def rbind_Inr_iff split: option.splits)
  with pk show ?thesis by blast
qed

lemma decode_unsupported:
  assumes "decode_output_script H hx s = Inr (OutUnsupported e b)"
  shows "b = may_carry_currency e \<and> e \<notin> {EVAL_NONE, EVAL_IDENTITY_PRIMARY, EVAL_RESERVE_DEPOSIT,
    EVAL_RESERVE_TRANSFER, EVAL_IDENTITY_COMMITMENT, EVAL_RESERVE_OUTPUT}"
proof -
  have kind: "b = may_carry_currency e \<and> e \<notin> {EVAL_NONE, EVAL_IDENTITY_PRIMARY, EVAL_RESERVE_DEPOSIT,
      EVAL_RESERVE_TRANSFER, EVAL_IDENTITY_COMMITMENT, EVAL_RESERVE_OUTPUT}"
    if "decode_kind hx c ds r = Inr (OutUnsupported e b, r')" for c ds r r'
    using that
    by (auto simp: decode_kind_def decode_identity_payment_def decode_identity_primary_def decode_reserve_deposit_def
        decode_reserve_transfer_def decode_commitment_def decode_reserve_output_def rd_simps rbind_Inr_iff
        split: if_splits list.splits destination.splits)
  from assms obtain chunk r' where "decode_condition hx (cursor_new chunk) = Inr (OutUnsupported e b, r')"
    by (auto simp: decode_output_script_def rbind_Inr_iff split: if_splits option.splits)
  then show ?thesis
    using kind by (fastforce simp: decode_condition_def rd_bind_def split: sum.splits)
qed

text \<open>
  C10: what the library builds, it reads back.  Every script its encoders write decodes to
  what it was built from: a P2PKH script, a payment to an identity, a token output to any
  destination, a reserve transfer with its whole payload, and an identity output with the
  identity it restates.  None of them is taken for another kind, or for native value only.
\<close>

theorem built_scripts_decode:
  "(length h = 20 \<longrightarrow> decode_output_script H hx ([0x76, 0xa9, 0x14] @ h @ [0x88, 0xac]) = Inr (OutPubKeyHash h)) \<and>
   (length h = 20 \<and> identity_payment_script h = Inr s \<longrightarrow>
      decode_output_script H hx s = Inr (OutIdentityPayment h)) \<and>
   (wf_destination d \<and> wf_currency c \<and> reserve_output_script_to d c a = Inr s \<longrightarrow>
      decode_output_script H hx s = Inr (OutReserveOutput d [(c, a)])) \<and>
   (wf_transfer t \<and> to_script t = Inr s \<longrightarrow> decode_output_script H hx s =
      Inr (OutReserveTransfer (DestPubKeyHash RESERVE_TRANSFER_ADDRESS) (payload_of t))) \<and>
   (wf_identity i \<and> identity_to_bytes i = Inr bs \<and> length at_id = 20 \<and> length revoker = 20 \<and> length recoverer = 20 \<and>
      identity_primary_script at_id bs revoker recoverer tokenized = Inr s \<longrightarrow>
      decode_output_script H hx s = Inr (OutIdentityPrimary i))"
  by (intro conjI impI; (elim conjE)?)
    (simp add: decode_p2pkh, (rule decode_identity_payment_script decode_reserve_output_script
      decode_transfer_script decode_identity_script; assumption)+)

lemma built_scripts_decode_witness:
  "\<exists>s. reserve_output_script_to (DestIdentity (replicate 20 3)) (sample_currency 1) 500 = Inr s \<and>
     decode_output_script toy_hash_lib hex_string s =
       Inr (OutReserveOutput (DestIdentity (replicate 20 3)) [(sample_currency 1, 500)])"
proof -
  obtain s where s: "reserve_output_script_to (DestIdentity (replicate 20 3)) (sample_currency 1) 500 = Inr s"
    by (rule reserve_output_script_total [of "DestIdentity (replicate 20 3)" "sample_currency 1"])
      (simp_all add: wf_currency_def sample_currency_def)
  then show ?thesis
    using built_scripts_decode [of "replicate 20 1" toy_hash_lib hex_string s
        "DestIdentity (replicate 20 3)" "sample_currency 1" 500]
    by (simp add: wf_currency_def sample_currency_def)
qed

text \<open>
  C11: the decoder never guesses.  An output is read as P2PKH or P2PK for exactly the byte
  shapes of those scripts, with the hash or key they hold; every other script is read as a
  condition or refused.  It reports a condition it does not decode only for eval codes outside
  those it reads, and says such an output cannot hold a currency exactly when it is not an
  import.
\<close>

theorem decoder_never_guesses:
  "(decode_output_script H hx s = Inr (OutPubKeyHash h) \<longleftrightarrow>
      length h = 20 \<and> s = [0x76, 0xa9, 0x14] @ h @ [0x88, 0xac]) \<and>
   (decode_output_script H hx s = Inr (OutPubKey key h) \<longleftrightarrow>
      (length key = 33 \<or> length key = 65) \<and> s = of_nat (length key) # key @ [0xac] \<and> h = hash160 H key) \<and>
   (decode_output_script H hx s = Inr (OutUnsupported e b) \<longrightarrow>
      e \<notin> {EVAL_NONE, EVAL_IDENTITY_PRIMARY, EVAL_RESERVE_DEPOSIT, EVAL_RESERVE_TRANSFER,
        EVAL_IDENTITY_COMMITMENT, EVAL_RESERVE_OUTPUT} \<and> (b \<longleftrightarrow> e = EVAL_CROSSCHAIN_IMPORT))"
  using decode_p2pkh [of H hx s h] decode_p2pk [of H hx s key h] decode_unsupported [of H hx s e b]
  by (auto simp: may_carry_currency_def)

lemma decoder_never_guesses_witness:
  "decode_output_script toy_hash_lib hex_string (33 # replicate 33 7 @ [0xac]) =
     Inr (OutPubKey (replicate 33 7) (hash160 toy_hash_lib (replicate 33 7)))"
  using decoder_never_guesses [of toy_hash_lib hex_string "33 # replicate 33 7 @ [0xac]"
      "hash160 toy_hash_lib (replicate 33 7)" "replicate 33 7"] by simp

end
