(* ===== verification/Output_Types.thy ===== *)
theory Output_Types
  imports Decode
begin

text \<open>
  What the output decoder returns is well formed: every hash, currency id, destination,
  identity and transfer has the lengths its type has in the code.
\<close>

section \<open>Types of the parts\<close>

definition wf_tokens :: "(currency_id \<times> u64) list \<Rightarrow> bool" where
  "wf_tokens ts \<longleftrightarrow> list_all (\<lambda>(c, _). wf_currency c) ts"

lemma wf_tokens_simps [simp]:
  "wf_tokens []" "wf_tokens ((c, a) # ts) \<longleftrightarrow> wf_currency c \<and> wf_tokens ts"
  "wf_tokens (ts @ us) \<longleftrightarrow> wf_tokens ts \<and> wf_tokens us"
  by (simp_all add: wf_tokens_def)

definition wf_payload :: "reserve_transfer_payload \<Rightarrow> bool" where
  "wf_payload p \<longleftrightarrow> wf_tokens (rp_tokens p) \<and> wf_currency (rp_fee_currency p) \<and>
     wf_transfer_destination (rp_destination p) \<and> wf_currency (rp_destination_currency p) \<and>
     pred_option wf_currency (rp_second_reserve p) \<and> pred_option wf_currency (rp_destination_system p) \<and>
     (rp_second_reserve p \<noteq> None \<longleftrightarrow> rp_flags p AND RT_RESERVE_TO_RESERVE \<noteq> 0) \<and>
     (rp_destination_system p \<noteq> None \<longleftrightarrow> rp_flags p AND RT_CROSS_SYSTEM \<noteq> 0)"

fun wf_kind :: "output_kind \<Rightarrow> bool" where
  "wf_kind (OutPubKeyHash h) \<longleftrightarrow> length h = 20"
| "wf_kind (OutPubKey key h) \<longleftrightarrow> length key = 33 \<or> length key = 65"
| "wf_kind (OutReserveOutput d ts) \<longleftrightarrow> wf_destination d \<and> wf_tokens ts"
| "wf_kind (OutIdentityPayment h) \<longleftrightarrow> length h = 20"
| "wf_kind (OutIdentityPrimary i) \<longleftrightarrow> wf_identity i"
| "wf_kind (OutIdentityCommitment d h ts) \<longleftrightarrow> wf_destination d \<and> length h = 32 \<and> wf_tokens ts"
| "wf_kind (OutReserveDeposit d c ts) \<longleftrightarrow> wf_destination d \<and> wf_currency c \<and> wf_tokens ts"
| "wf_kind (OutReserveTransfer d p) \<longleftrightarrow> wf_destination d \<and> wf_payload p"
| "wf_kind (OutUnsupported e b) \<longleftrightarrow> True"

lemma yields_currency_slice: "yields (take_slice 20 e) (\<lambda>xs. length xs = 20)"
  by (rule slice.yields_dec)

lemma wf_currency_bytes: "length xs = 20 \<Longrightarrow> wf_currency (currency_from_bytes xs)"
  by (simp add: wf_currency_def currency_from_bytes_def)

lemma yields_rt_currency: "yields rt_currency wf_currency"
  unfolding rt_currency_def
  by (rule yields_bind [OF yields_currency_slice], rule yields_return) (rule wf_currency_bytes)

lemma yields_currency_at: "yields read_currency_at wf_currency"
  unfolding read_currency_at_def
  by (rule yields_bind [OF yields_currency_slice], rule yields_return) (rule wf_currency_bytes)

text \<open>A counted loop whose count has been checked against the bytes that are left.\<close>

lemma count_fits:
  assumes "read_compact_size r = Inr (n, r')" "wf_cursor r"
    and "min (unat n * k) (2 ^ 64 - 1) \<le> length (cur_bytes r') - cur_at r'"
  shows "unat n * k \<le> length (rest r')" "wf_cursor r'"
proof -
  have r': "reads r (compact_bytes n) r'" "wf_cursor r'"
    using script_compact.dec_reads [OF assms(2,1)] script_compact.dec_wf [OF assms(2,1)] by blast+
  moreover have "compact_bytes n \<noteq> []"
    by (simp add: compact_bytes_nat)
  ultimately have "0 < cur_at r'" "wf_cursor r'"
    by (auto simp: reads_def advance_def)
  then have "length (rest r') < 2 ^ 64 - 1" by (auto simp: wf_cursor_def length_rest)
  with assms(3) show "unat n * k \<le> length (rest r')" by (auto simp: length_rest)
  show "wf_cursor r'" by fact
qed

lemma entries_wf:
  "rd_times n (currency_entry hx) r = Inr (ts, r') \<Longrightarrow> wf_cursor r \<Longrightarrow> n * 28 \<le> length (rest r) \<Longrightarrow>
     wf_tokens ts \<and> wf_cursor r'"
proof (induction n arbitrary: r ts)
  case 0
  then show ?case by simp
next
  case (Suc n)
  then obtain c a r1 us where e: "currency_entry hx r = Inr ((c, a), r1)"
    and us: "rd_times n (currency_entry hx) r1 = Inr (us, r')" and ts: "ts = (c, a) # us"
    by (auto simp: rd_simps)
  from e have c: "c = currency_from_bytes (take 20 (rest r))" and r1: "r1 = advance r 28"
    by (auto simp: currency_entry_def Let_def rest_def advance_def split: if_splits)
  have "wf_cursor r1" "n * 28 \<le> length (rest r1)"
    using Suc.prems(2,3) unfolding r1 by (auto intro!: wf_advance)
  from Suc.IH [OF us this] Suc.prems(3) show ?case by (simp add: ts c wf_currency_bytes)
qed

lemma yields_value_map: "yields (read_currency_value_map hx) wf_tokens"
  unfolding yields_def
proof (intro allI impI)
  fix r ts r'
  assume r: "wf_cursor r" and run: "read_currency_value_map hx r = Inr (ts, r')"
  from run obtain n r1 where n: "read_compact_size r = Inr (n, r1)"
    and fits: "min (unat n * 28) (2 ^ 64 - 1) \<le> length (cur_bytes r1) - cur_at r1"
    and items: "rd_times (unat n) (currency_entry hx) r1 = Inr (ts, r')"
    by (auto simp: read_currency_value_map_def rd_simps Let_def split: if_splits)
  from entries_wf [OF items] count_fits [OF n r fits] show "wf_tokens ts \<and> wf_cursor r'" by blast
qed

lemma yields_token_output: "yields (parse_token_output_at hx) wf_tokens"
  unfolding parse_token_output_at_def Let_def
  by (rule yields_bind [OF varint.yields_dec])
    (auto intro!: yields_fail yields_value_map yields_bind [OF yields_currency_slice]
      yields_bind [OF varint.yields_dec] yields_return wf_currency_bytes)

lemma parse_token_output_wf: "parse_token_output hx bs = Inr ts \<Longrightarrow> length bs < usize_bound \<Longrightarrow> wf_tokens ts"
  by (auto simp: parse_token_output_def rbind_Inr_iff dest: yieldsD [OF yields_token_output, rotated])

section \<open>Transfers\<close>

lemma yields_rt_var_slice: "yields rt_var_slice (\<lambda>_. True)"
  unfolding rt_var_slice_def
proof (rule yields_bind [OF script_compact.yields_dec])
  fix n
  show "yields (\<lambda>r. if usize_bound \<le> cur_at r + unat n
      then Inl (bad ''a length prefix runs past the end of the payload'')
      else take_slice (unat n) (bad ''a length prefix runs past the end of the payload'') r) (\<lambda>_. True)"
    unfolding yields_def using slice.dec_wf by (auto split: if_splits)
qed

lemma rt_var_slice_length: "rt_var_slice r = Inr (xs, r') \<Longrightarrow> wf_cursor r \<Longrightarrow> length xs < usize_bound"
  by (auto simp: rt_var_slice_def rd_simps take_slice_def wf_cursor_def split: if_splits
      dest!: script_compact.dec_wf)

lemma destination_from_wf: "destination_from kind body = Inr d \<Longrightarrow> wf_destination d"
  by (auto simp: destination_from_def split: if_splits)

lemma yields_take_byte: "yields (take_byte e) (\<lambda>_. True)"
  by (auto simp: yields_def take_byte_def peek_def rbind_Inr_iff ok_or_Inr_iff wf_cursor_def split: if_splits)

lemma read_inner_auxiliary_wf: "read_inner_auxiliary xs = Inr d \<Longrightarrow> wf_destination d"
  by (auto simp: read_inner_auxiliary_def rbind_Inr_iff dest: destination_from_wf)

lemma yields_auxiliary: "yields read_auxiliary wf_destination"
  unfolding read_auxiliary_def
  by (rule yields_bind [OF yields_rt_var_slice], rule yields_lift) (rule read_inner_auxiliary_wf)

lemma yields_auxiliaries:
  "yields read_auxiliaries (\<lambda>ds. list_all wf_destination ds \<and> length ds < usize_bound)"
  unfolding yields_def
proof (intro allI impI)
  fix r ds r'
  assume r: "wf_cursor r" and run: "read_auxiliaries r = Inr (ds, r')"
  from run obtain n r1 where n: "read_compact_size r = Inr (n, r1)"
    and items: "rd_times (unat n) read_auxiliary r1 = Inr (ds, r')"
    by (auto simp: read_auxiliaries_def rd_simps split: if_splits)
  from yieldsD [OF yields_times [OF yields_auxiliary] script_compact.dec_wf [OF r n] items] unat_u64 [of n]
  show "(list_all wf_destination ds \<and> length ds < usize_bound) \<and> wf_cursor r'" by auto
qed

lemma yields_gateway: "yields read_gateway wf_leg"
proof -
  have fee: "unat v < 2 ^ 63" if "\<not> sint v < 0" for v :: u64
  proof (rule ccontr)
    assume "\<not> unat v < 2 ^ 63"
    then have "unat v div 2 ^ 63 = 1" using unat_u64 [of v] by (simp add: div_nat_eqI)
    then have "bit (unat v) 63" by (simp add: bit_iff_odd)
    then have "bit v 63" by (simp add: bit_unsigned_iff)
    with that show False using bit_last_iff [of v] by simp
  qed
  show ?thesis
    unfolding read_gateway_def Let_def
    by (rule yields_bind [OF yields_rt_currency], rule yields_bind [OF yields_rt_currency],
        rule yields_bind [OF slice.yields_dec], rule yields_unless, rule yields_return)
      (use fee in \<open>simp add: wf_leg_def wf_currency_def\<close>)
qed

lemma yields_transfer_destination: "yields destination_deserialize wf_transfer_destination"
  unfolding destination_deserialize_def
proof (rule yields_bind [OF yields_take_byte], rule yields_bind [OF yields_rt_var_slice],
    rule yields_bind [OF yields_lift [of _ wf_destination]])
  fix b body d
  show "destination_from (b AND NOT FLAG_MASK) body = Inr d \<Longrightarrow> wf_destination d" by (rule destination_from_wf)
  assume d: "wf_destination d"
  have gateway: "yields (if b AND FLAG_DEST_GATEWAY = 0 then rd_return None
      else rd_bind read_gateway (\<lambda>leg. rd_return (Some leg))) (pred_option wf_leg)"
    by (auto intro!: yields_return yields_bind [OF yields_gateway])
  have auxiliary: "yields (if b AND FLAG_DEST_AUX \<noteq> 0 then read_auxiliaries else rd_return [])
      (\<lambda>ds. list_all wf_destination ds \<and> length ds < usize_bound)"
    using yields_auxiliaries by (simp add: yields_return)
  show "yields (rd_bind (if b AND FLAG_DEST_GATEWAY = 0 then rd_return None
      else rd_bind read_gateway (\<lambda>leg. rd_return (Some leg))) (\<lambda>gateway.
     rd_bind (if b AND FLAG_DEST_AUX \<noteq> 0 then read_auxiliaries else rd_return []) (\<lambda>auxiliary.
     rd_return \<lparr>td_recipient = d, td_auxiliary = auxiliary, td_gateway = gateway\<rparr>))) wf_transfer_destination"
    by (rule yields_bind [OF gateway], rule yields_bind [OF auxiliary], rule yields_return)
      (use d in \<open>simp add: wf_transfer_destination_def\<close>)
qed

lemma yields_optional: "yields (optional_currency b) (\<lambda>x. pred_option wf_currency x \<and> (x \<noteq> None \<longleftrightarrow> b))"
  by (auto simp: optional_currency_def intro!: yields_return yields_bind [OF yields_rt_currency])

lemma yields_payload: "yields (payload_reader hx) wf_payload"
  unfolding payload_reader_def
  by (rule yields_bind [OF yields_token_output], rule yields_bind [OF varint.yields_dec],
      rule yields_bind [OF yields_rt_currency], rule yields_bind [OF varint.yields_dec],
      rule yields_bind [OF yields_transfer_destination], rule yields_bind [OF yields_rt_currency],
      rule yields_bind [OF yields_optional], rule yields_bind [OF yields_optional], rule yields_return)
    (simp add: wf_payload_def)

lemma from_payload_wf: "from_payload hx bs = Inr p \<Longrightarrow> length bs < usize_bound \<Longrightarrow> wf_payload p"
  by (auto simp: from_payload_def rbind_Inr_iff dest: yieldsD [OF yields_payload, rotated])

section \<open>Outputs\<close>

lemma yields_opcode: "yields take_opcode (\<lambda>_. True)"
  by (rule opcode.yields_dec)

lemma yields_length: "yields (push_length b) (\<lambda>_. True)"
  unfolding push_length_def
  by (auto intro!: yields_return yields_fail yields_bind [OF yields_opcode])

lemma yields_push: "yields take_push (\<lambda>xs. length xs < usize_bound)"
  unfolding yields_def
proof (intro allI impI)
  fix r xs r'
  assume r: "wf_cursor r" and run: "take_push r = Inr (xs, r')"
  from run obtain b r1 n r2 where 1: "take_opcode r = Inr (b, r1)" and 2: "push_length b r1 = Inr (n, r2)"
    and 3: "take_slice n (malformed ''push runs past the end of the script'') r2 = Inr (xs, r')"
    by (auto simp: take_push_def rd_simps split: if_splits)
  from yieldsD [OF yields_opcode r 1] have "wf_cursor r1" by simp
  from yieldsD [OF yields_length this 2] have r2: "wf_cursor r2" by simp
  with 3 have "length xs < usize_bound" by (auto simp: take_slice_def wf_cursor_def split: if_splits)
  with slice.dec_wf [OF r2 3] show "length xs < usize_bound \<and> wf_cursor r'" by simp
qed

lemma yields_require: "yields (require c e) (\<lambda>_. c)"
  by (simp add: require_def yields_return yields_fail)

lemma yields_done: "yields (require_done e) (\<lambda>_. True)"
  by (simp add: yields_def require_done_def)

lemma yields_chunks:
  assumes "\<And>xs x. f xs = Inr x \<Longrightarrow> length xs < usize_bound \<Longrightarrow> P x"
  shows "yields (read_chunks f) (list_all P)"
proof -
  have "\<forall>xs x. f xs = Inr x \<longrightarrow> length xs < usize_bound \<longrightarrow> P x \<Longrightarrow> wf_cursor r \<Longrightarrow>
      read_chunks f r = Inr (ys, r') \<Longrightarrow> list_all P ys \<and> wf_cursor r'" for r ys r'
  proof (induction f r arbitrary: ys rule: read_chunks.induct)
    case (1 f r)
    show ?case
    proof (cases "reader_done r")
      case True
      with "1.prems" show ?thesis by (simp add: read_chunks.simps [of f r])
    next
      case False
      with "1.prems"(3) obtain xs r1 x zs where push: "take_push r = Inr (xs, r1)" and x: "f xs = Inr x"
        and zs: "read_chunks f r1 = Inr (zs, r')" and ys: "ys = x # zs"
        by (auto simp: read_chunks.simps [of f r] rbind_Inr_iff split: sum.splits)
      from yieldsD [OF yields_push "1.prems"(2) push] have r1: "length xs < usize_bound" "wf_cursor r1" by blast+
      from "1.IH" [OF False push refl "1.prems"(1) r1(2) zs] "1.prems"(1) x r1(1) show ?thesis
        by (simp add: ys)
    qed
  qed
  with assms show ?thesis unfolding yields_def by blast
qed

lemma yields_params_chunk: "yields read_params_chunk (\<lambda>xs. length xs < usize_bound)"
  unfolding read_params_chunk_def
  by (rule yields_bind [OF yields_push], rule yields_bind [OF yields_opcode], rule yields_bind [OF yields_require],
      rule yields_bind [OF yields_push], rule yields_bind [OF yields_opcode], rule yields_bind [OF yields_require],
      rule yields_bind [OF yields_done], rule yields_return) simp

lemma yields_header: "yields read_header (\<lambda>(_, ds). list_all wf_destination ds)"
proof -
  have d: "yields read_destination wf_destination"
    unfolding read_destination_def
    by (rule yields_bind [OF yields_push], rule yields_lift) (simp add: from_push_iff)
  show ?thesis
    unfolding read_header_def
    by (rule yields_bind [OF yields_push], rule yields_bind [OF yields_require], rule yields_bind [OF yields_require],
        rule yields_bind [OF yields_times [OF d]], rule yields_return) simp
qed

lemma first_destination_wf:
  "first_destination ds shape = Inr d \<Longrightarrow> list_all wf_destination ds \<Longrightarrow> wf_destination d"
  by (cases ds) (simp_all add: first_destination_def)

lemma yields_first: "list_all wf_destination ds \<Longrightarrow> yields (rd_lift (first_destination ds shape)) wf_destination"
  by (rule yields_lift) (rule first_destination_wf)

lemma deposit_payload_wf:
  assumes "reserve_deposit_payload hx bs = Inr x" "length bs < usize_bound"
  shows "wf_tokens (fst x) \<and> wf_currency (snd x)"
proof -
  have "yields (rd_bind (parse_token_output_at hx) (\<lambda>tokens. rd_bind read_currency_at (\<lambda>controlling.
            rd_return (tokens, controlling)))) (\<lambda>x. wf_tokens (fst x) \<and> wf_currency (snd x))"
    by (rule yields_bind [OF yields_token_output], rule yields_bind [OF yields_currency_at], rule yields_return) simp
  moreover from assms obtain r where "rd_bind (parse_token_output_at hx) (\<lambda>tokens. rd_bind read_currency_at
      (\<lambda>controlling. rd_return (tokens, controlling))) (cursor_new bs) = Inr (x, r)"
    unfolding reserve_deposit_payload_def by (auto simp: rbind_Inr_iff)
  moreover have "wf_cursor (cursor_new bs)" using assms(2) by simp
  ultimately show ?thesis by (blast dest: yieldsD)
qed

lemma commitment_tokens_wf:
  "commitment_tokens hx bs = Inr ts \<Longrightarrow> length bs < usize_bound \<Longrightarrow> 32 \<le> length bs \<and> wf_tokens ts"
  by (auto simp: commitment_tokens_def split: if_splits intro!: parse_token_output_wf)

lemma concat_wf: "list_all wf_tokens tss \<Longrightarrow> wf_tokens (concat tss)"
  by (induction tss) simp_all

lemma yields_kind:
  assumes ds: "list_all wf_destination ds"
  shows "yields (decode_kind hx e ds) wf_kind"
proof -
  have payment: "yields (decode_identity_payment ds) wf_kind"
    using ds by (auto simp: yields_def decode_identity_payment_def split: list.splits destination.splits if_splits)
  have identity: "yields decode_identity_primary wf_kind"
    unfolding decode_identity_primary_def
  proof (rule yields_bind [OF yields_push], rule yields_bind [OF yields_chunks [of _ "\<lambda>_. True"]],
      simp, rule yields_bind [OF yields_require], rule yields_bind [OF yields_lift [of _ wf_identity]])
    fix bs i
    assume "length bs < usize_bound" "identity_from_bytes bs = Inr i"
    then show "wf_identity i"
      by (auto simp: identity_from_bytes_def rbind_Inr_iff dest: yieldsD [OF yields_identity, rotated])
  qed (simp add: yields_return)
  have deposit: "yields (decode_reserve_deposit hx ds) wf_kind"
    unfolding decode_reserve_deposit_def
    by (rule yields_bind [OF yields_push], rule yields_bind [OF yields_done],
        rule yields_bind [OF yields_lift [of _ "\<lambda>x. wf_tokens (fst x) \<and> wf_currency (snd x)"]],
        rule deposit_payload_wf, assumption+)
      (simp only: case_prod_beta, rule yields_bind [OF yields_first [OF ds]], rule yields_return, simp)
  have transfer: "yields (decode_reserve_transfer hx ds) wf_kind"
    unfolding decode_reserve_transfer_def
    by (rule yields_bind [OF yields_push], rule yields_bind [OF yields_done],
        rule yields_bind [OF yields_first [OF ds]], rule yields_bind [OF yields_lift [of _ wf_payload]],
        rule from_payload_wf, assumption+, rule yields_return, simp)
  have commitment: "yields (decode_commitment hx ds) wf_kind"
    unfolding decode_commitment_def
  proof (rule yields_bind [OF yields_push], rule yields_bind [OF yields_done])
    fix bs :: bytes
    assume bs: "length bs < usize_bound"
    show "yields (rd_bind (rd_lift (commitment_tokens hx bs)) (\<lambda>tokens.
        rd_bind (rd_lift (first_destination ds ''name commitment'')) (\<lambda>d.
        rd_return (OutIdentityCommitment d (take 32 bs) tokens)))) wf_kind"
      by (rule yields_bind [OF yields_lift [of _ "\<lambda>ts. 32 \<le> length bs \<and> wf_tokens ts"]],
          rule commitment_tokens_wf [OF _ bs], assumption,
          rule yields_bind [OF yields_first [OF ds]], rule yields_return) simp
  qed
  have reserve: "yields (decode_reserve_output hx ds) wf_kind"
    unfolding decode_reserve_output_def
    by (rule yields_bind [OF yields_chunks [of _ wf_tokens]], rule parse_token_output_wf, assumption+,
        rule yields_bind [OF yields_first [OF ds]], rule yields_return) (simp add: concat_wf)
  show ?thesis
    using payment identity deposit transfer commitment reserve by (simp add: decode_kind_def yields_return)
qed

lemma decoded_wf:
  assumes "decode_output_script H hx s = Inr k" "length s < usize_bound"
  shows "wf_kind k"
proof -
  have condition: "yields (decode_condition hx) wf_kind"
    unfolding decode_condition_def
    by (rule yields_bind [OF yields_header]) (auto intro: yields_kind)
  have inner: "wf_kind k" if "read_params_chunk (cursor_new s) = Inr (chunk, r)"
    "decode_condition hx (cursor_new chunk) = Inr (k, r')" for chunk r r'
    using yieldsD [OF yields_params_chunk _ that(1)] yieldsD [OF condition _ that(2)] assms(2) by simp
  show ?thesis
  proof (cases k)
    case (OutPubKeyHash h)
    with assms(1) show ?thesis by (simp add: decode_p2pkh)
  next
    case (OutPubKey key h)
    with assms(1) show ?thesis by (auto simp: decode_p2pk)
  qed (use assms(1) inner in \<open>auto simp: decode_output_script_def rbind_Inr_iff split: if_splits option.splits\<close>)
qed

text \<open>
  C12: what is decoded is well typed.  Every output the decoder returns, whatever bytes it was
  given, holds 20-byte hashes and currency ids, destinations and public keys of the lengths
  the code's types fix, identities that can be written again, and transfers whose optional
  fields are present exactly when their flags say so.
\<close>

theorem decoded_output_typed:
  assumes "decode_output_script H hx s = Inr k" "length s < usize_bound"
  shows "wf_kind k"
  using assms by (rule decoded_wf)

lemma decoded_output_typed_witness:
  "\<exists>s. reserve_output_script_to (DestIdentity (replicate 20 3)) (sample_currency 1) 500 = Inr s \<and>
     decode_output_script toy_hash_lib hex_string s =
       Inr (OutReserveOutput (DestIdentity (replicate 20 3)) [(sample_currency 1, 500)]) \<and>
     (length s < usize_bound \<longrightarrow> wf_kind (OutReserveOutput (DestIdentity (replicate 20 3)) [(sample_currency 1, 500)]))"
proof -
  obtain s where s: "reserve_output_script_to (DestIdentity (replicate 20 3)) (sample_currency 1) 500 = Inr s"
    by (rule reserve_output_script_total [of "DestIdentity (replicate 20 3)" "sample_currency 1"])
      (simp_all add: wf_currency_def sample_currency_def)
  have d: "decode_output_script toy_hash_lib hex_string s =
      Inr (OutReserveOutput (DestIdentity (replicate 20 3)) [(sample_currency 1, 500)])"
    by (rule decode_reserve_output_script [OF _ _ s]) (simp_all add: wf_currency_def sample_currency_def)
  show ?thesis using s d decoded_output_typed [OF d] by blast
qed

end
