(* ===== verification/Balances.thy ===== *)
theory Balances
  imports Decode
begin

text \<open>
  What a set of outputs holds, currency by currency (\<open>verus-tx-protocol/src/balances.rs\<close>).
  The text of an error (\<open>error.to_string()\<close>, generated by the \<open>thiserror\<close> macro) is a
  parameter.
\<close>

section \<open>Counting\<close>

type_synonym show_error = "tx_error \<Rightarrow> str"

definition NEEDS_NATIVE :: str where
  "NEEDS_NATIVE =
     ''it is a reserve deposit or transfer, which names the chain's own currency in its payload '' @
     ''as well as carrying it as satoshis; pass the chain's currency id as `native` so that part '' @
     ''can be left out instead of counted twice''"

definition uncountable :: "utxo \<Rightarrow> str \<Rightarrow> tx_error" where
  "uncountable u reason = UncountableOutput (to_display_hex (utxo_txid u)) (utxo_vout u) reason"

text \<open>The tokens of one output; a \<open>continue\<close> of the loop is an empty list.\<close>

definition held_tokens ::
  "show_error \<Rightarrow> currency_id option \<Rightarrow> utxo \<Rightarrow> output_kind \<Rightarrow> tx_error + (currency_id \<times> u64) list" where
  "held_tokens sh native u decoded = (case decoded of
       OutReserveOutput d tokens \<Rightarrow> Inr tokens
     | OutIdentityCommitment d commitment tokens \<Rightarrow> Inr tokens
     | OutReserveDeposit d controlling tokens \<Rightarrow>
         (case native of
            None \<Rightarrow> Inl (uncountable u NEEDS_NATIVE)
          | Some n \<Rightarrow> Inr (filter (\<lambda>(currency, _). currency \<noteq> n) tokens))
     | OutReserveTransfer d transfer \<Rightarrow>
         (case native of
            None \<Rightarrow> Inl (uncountable u NEEDS_NATIVE)
          | Some n \<Rightarrow> map_err (\<lambda>e. uncountable u (sh e)) (reserve_value n transfer))
     | OutPubKeyHash _ \<Rightarrow> Inr []
     | OutPubKey _ _ \<Rightarrow> Inr []
     | OutIdentityPayment _ \<Rightarrow> Inr []
     | OutIdentityPrimary _ \<Rightarrow> Inr []
     | OutUnsupported eval_code may_carry \<Rightarrow>
         if \<not> may_carry then Inr []
         else Inl (uncountable u (''it is a CryptoCondition with eval code '' @ dec_string (unat eval_code) @
           '', which can carry currency and which this crate cannot decode'')))"

definition output_tokens ::
  "hash_lib \<Rightarrow> hex_encode \<Rightarrow> show_error \<Rightarrow> currency_id option \<Rightarrow> utxo \<Rightarrow> tx_error + (currency_id \<times> u64) list" where
  "output_tokens H hx sh native u =
     rbind (map_err (\<lambda>e. uncountable u (sh e)) (decode_output_script H hx (utxo_script_pubkey u)))
       (held_tokens sh native u)"

type_synonym token_balances_map = "(currency_id, amount) btree"

fun add_tokens :: "token_balances_map \<Rightarrow> (currency_id \<times> u64) list \<Rightarrow> tx_error + token_balances_map" where
  "add_tokens held [] = Inr held"
| "add_tokens held ((currency, amount) # tokens) =
     (if amount = 0 then add_tokens held tokens
      else rbind (ok_or (amount_checked_add (bt_entry amount_zero currency held) (from_sat amount)) ValueOverflow)
        (\<lambda>entry. add_tokens (bt_put currency entry held) tokens))"

fun count_outputs ::
  "hash_lib \<Rightarrow> hex_encode \<Rightarrow> show_error \<Rightarrow> currency_id option \<Rightarrow> token_balances_map \<Rightarrow> utxo list
    \<Rightarrow> tx_error + token_balances_map" where
  "count_outputs H hx sh native held [] = Inr held"
| "count_outputs H hx sh native held (u # us) =
     rbind (output_tokens H hx sh native u) (\<lambda>tokens.
     rbind (add_tokens held tokens) (\<lambda>held.
     count_outputs H hx sh native held us))"

definition token_balances ::
  "hash_lib \<Rightarrow> hex_encode \<Rightarrow> show_error \<Rightarrow> utxo list \<Rightarrow> currency_id option \<Rightarrow> tx_error + token_balances_map" where
  "token_balances H hx sh utxos native = count_outputs H hx sh native [] utxos"

section \<open>Totals\<close>

definition balance_of :: "token_balances_map \<Rightarrow> currency_id \<Rightarrow> nat" where
  "balance_of m c = sats (bt_entry amount_zero c m)"

text \<open>A table of balances in rising order that lists no zero.\<close>

definition proper :: "token_balances_map \<Rightarrow> bool" where
  "proper m \<longleftrightarrow> bt_sorted m \<and> (\<forall>c. map_of m c \<noteq> Some amount_zero)"

lemma sats_amount_zero: "sats a = 0 \<longleftrightarrow> a = amount_zero"
  by (cases a) (simp add: amount_zero_def from_sat_def unat_eq_zero)

lemma balance_of_put: "balance_of (bt_put c a m) d = (if d = c then sats a else balance_of m d)"
  by (simp add: balance_of_def bt_entry_put)

lemma balance_of_Nil [simp]: "balance_of [] c = 0"
  by (simp add: balance_of_def bt_entry_def amount_zero_def from_sat_def)

lemma proper_put: "proper m \<Longrightarrow> a \<noteq> amount_zero \<Longrightarrow> proper (bt_put c a m)"
  by (auto simp: proper_def bt_sorted_put)

lemma add_step:
  assumes "amount \<noteq> 0"
  shows "ok_or (amount_checked_add (bt_entry amount_zero c m) (from_sat amount)) ValueOverflow =
    (if balance_of m c + unat amount < 2 ^ 64 then Inr (Amount (of_nat (balance_of m c + unat amount)))
     else Inl ValueOverflow)"
  by (simp add: amount_checked_add_def checked_add_def balance_of_def from_sat_def)

lemma fits_after_token:
  assumes "balance_of m c + unat a < 2 ^ 64"
  shows "balance_of (bt_put c (Amount (of_nat (balance_of m c + unat a))) m) d + token_total d ts =
    balance_of m d + token_total d ((c, a) # ts)"
  using assms by (simp add: balance_of_put unat_of_nat_u64 del: of_nat_add)

lemma balance_of_bound: "balance_of m c < 2 ^ 64"
  by (simp add: balance_of_def unat_u64)

lemma add_tokens_Inr_iff:
  "(\<exists>m'. add_tokens m ts = Inr m') \<longleftrightarrow> (\<forall>c. balance_of m c + token_total c ts < 2 ^ 64)"
proof (induction m ts rule: add_tokens.induct)
  case (1 m)
  then show ?case using balance_of_bound by simp
next
  case (2 m c a ts)
  show ?case
  proof (cases "a = 0")
    case True
    then show ?thesis using "2.IH"(1) by (simp cong: if_cong)
  next
    case a: False
    show ?thesis
    proof (cases "balance_of m c + unat a < 2 ^ 64")
      case True
      show ?thesis
        using "2.IH"(2) [OF a, of "Amount (of_nat (balance_of m c + unat a))"] a True
        unfolding fits_after_token [OF True, symmetric]
        by (simp add: add_step rbind_Inr_iff del: of_nat_add)
    next
      case False
      then have "\<not> balance_of m c + token_total c ((c, a) # ts) < 2 ^ 64" by simp
      with a False show ?thesis by (auto simp: add_step simp del: token_total_simps)
    qed
  qed
qed

lemma add_tokens_Inr:
  "add_tokens m ts = Inr m' \<Longrightarrow>
     balance_of m' c = balance_of m c + token_total c ts \<and> (proper m \<longrightarrow> proper m')"
proof (induction m ts rule: add_tokens.induct)
  case (2 m d a ts)
  show ?case
  proof (cases "a = 0")
    case True
    then show ?thesis using 2 by (simp cong: if_cong)
  next
    case False
    let ?e = "Amount (of_nat (balance_of m d + unat a))"
    from False "2.prems" have fits: "balance_of m d + unat a < 2 ^ 64"
      and run: "add_tokens (bt_put d ?e m) ts = Inr m'"
      by (auto simp: add_step simp del: of_nat_add split: if_splits)
    have "unat (of_nat (balance_of m d + unat a) :: u64) \<noteq> 0"
      using False fits by (simp add: unat_of_nat_u64 unat_eq_zero del: of_nat_add)
    then have "?e \<noteq> amount_zero" by (auto simp: amount_zero_def from_sat_def simp del: of_nat_add)
    then show ?thesis
      using "2.IH"(2) [OF False run] fits_after_token [OF fits, of c ts] proper_put [of m ?e d] by simp
  qed
qed simp

section \<open>Properties\<close>

text \<open>What one output contributes.\<close>

definition tokens_in ::
  "hash_lib \<Rightarrow> hex_encode \<Rightarrow> show_error \<Rightarrow> currency_id option \<Rightarrow> utxo \<Rightarrow> (currency_id \<times> u64) list" where
  "tokens_in H hx sh native u = (case output_tokens H hx sh native u of Inr ts \<Rightarrow> ts | Inl _ \<Rightarrow> [])"

definition held_total ::
  "hash_lib \<Rightarrow> hex_encode \<Rightarrow> show_error \<Rightarrow> currency_id option \<Rightarrow> utxo list \<Rightarrow> currency_id \<Rightarrow> nat" where
  "held_total H hx sh native us c = (\<Sum>u \<leftarrow> us. token_total c (tokens_in H hx sh native u))"

lemma held_total_simps [simp]:
  "held_total H hx sh native [] c = 0"
  "held_total H hx sh native (u # us) c =
     token_total c (tokens_in H hx sh native u) + held_total H hx sh native us c"
  by (simp_all add: held_total_def)

lemma count_outputs_Inr_iff:
  "(\<exists>m'. count_outputs H hx sh native m us = Inr m') \<longleftrightarrow>
     (\<forall>u \<in> set us. \<exists>ts. output_tokens H hx sh native u = Inr ts) \<and>
     (\<forall>c. balance_of m c + held_total H hx sh native us c < 2 ^ 64)"
proof (induction us arbitrary: m)
  case Nil
  then show ?case using balance_of_bound by simp
next
  case (Cons u us)
  show ?case
  proof (cases "output_tokens H hx sh native u")
    case (Inr ts)
    then have tok: "tokens_in H hx sh native u = ts" by (simp add: tokens_in_def)
    show ?thesis
    proof (cases "add_tokens m ts")
      case (Inl e)
      then have "\<not> (\<forall>c. balance_of m c + token_total c ts < 2 ^ 64)"
        using add_tokens_Inr_iff [of m ts] by simp
      then obtain c where "\<not> balance_of m c + token_total c ts < 2 ^ 64" by blast
      then have "\<not> balance_of m c + held_total H hx sh native (u # us) c < 2 ^ 64" by (simp add: tok)
      then have "\<not> (\<forall>c. balance_of m c + held_total H hx sh native (u # us) c < 2 ^ 64)" by blast
      then show ?thesis using Inr Inl by simp
    next
      case fits: (Inr m1)
      then show ?thesis
        using Cons.IH [of m1] Inr tok add_tokens_Inr [OF fits] by (simp add: add.assoc)
    qed
  qed simp
qed

lemma count_outputs_Inr:
  "count_outputs H hx sh native m us = Inr m' \<Longrightarrow>
     balance_of m' c = balance_of m c + held_total H hx sh native us c \<and> (proper m \<longrightarrow> proper m')"
proof (induction us arbitrary: m)
  case (Cons u us)
  then obtain ts m1 where "output_tokens H hx sh native u = Inr ts" and m1: "add_tokens m ts = Inr m1"
    and "count_outputs H hx sh native m1 us = Inr m'" by (auto simp: rbind_Inr_iff)
  with Cons.IH [of m1] add_tokens_Inr [OF m1] show ?case by (simp add: tokens_in_def)
qed simp

lemma add_tokens_Inl: "add_tokens m ts = Inl e \<Longrightarrow> e = ValueOverflow"
  by (induction m ts rule: add_tokens.induct) (auto simp: rbind_Inl_iff ok_or_def split: option.splits if_splits)

lemma held_tokens_Inl: "held_tokens sh native u k = Inl e \<Longrightarrow> \<exists>reason. e = uncountable u reason"
  by (cases k) (auto simp: held_tokens_def map_err_def split: option.splits if_splits sum.splits)

lemma output_tokens_Inl: "output_tokens H hx sh native u = Inl e \<Longrightarrow> \<exists>reason. e = uncountable u reason"
  by (auto simp: output_tokens_def rbind_Inl_iff map_err_def split: sum.splits dest: held_tokens_Inl)

lemma count_outputs_Inl:
  "count_outputs H hx sh native m us = Inl e \<Longrightarrow>
     e = ValueOverflow \<or> (\<exists>u \<in> set us. \<exists>reason. e = uncountable u reason)"
  by (induction us arbitrary: m) (auto simp: rbind_Inl_iff dest: add_tokens_Inl output_tokens_Inl)

text \<open>
  C13: a balance is the sum of what the outputs hold.  The count answers exactly when every
  output can be read and every currency's total fits 64 bits; it then lists, in rising order
  and without zero entries, each currency with the exact sum over the outputs.  Otherwise it
  is an overflow, or an error that names one of the outputs.
\<close>

theorem balances_exact:
  "(token_balances H hx sh us native = Inr m \<longrightarrow>
      bt_sorted m \<and> (\<forall>(c, a) \<in> set m. a \<noteq> amount_zero) \<and>
      (\<forall>c. balance_of m c = held_total H hx sh native us c)) \<and>
   ((\<exists>m. token_balances H hx sh us native = Inr m) \<longleftrightarrow>
      (\<forall>u \<in> set us. \<exists>ts. output_tokens H hx sh native u = Inr ts) \<and>
      (\<forall>c. held_total H hx sh native us c < 2 ^ 64)) \<and>
   (token_balances H hx sh us native = Inl e \<longrightarrow>
      e = ValueOverflow \<or> (\<exists>u \<in> set us. \<exists>reason. e = uncountable u reason))"
proof (intro conjI impI)
  assume run: "token_balances H hx sh us native = Inr m"
  note facts = count_outputs_Inr [OF run [unfolded token_balances_def]]
  have m: "proper m" using facts by (simp add: proper_def)
  then show "bt_sorted m" by (simp add: proper_def)
  with m show "\<forall>(c, a) \<in> set m. a \<noteq> amount_zero" by (auto simp: proper_def bt_in_set)
  show "\<forall>c. balance_of m c = held_total H hx sh native us c" using facts by simp
next
  show "(\<exists>m. token_balances H hx sh us native = Inr m) \<longleftrightarrow>
      (\<forall>u \<in> set us. \<exists>ts. output_tokens H hx sh native u = Inr ts) \<and>
      (\<forall>c. held_total H hx sh native us c < 2 ^ 64)"
    by (simp add: token_balances_def count_outputs_Inr_iff)
next
  assume "token_balances H hx sh us native = Inl e"
  then show "e = ValueOverflow \<or> (\<exists>u \<in> set us. \<exists>reason. e = uncountable u reason)"
    unfolding token_balances_def by (rule count_outputs_Inl)
qed

definition sample_p2pkh :: utxo where
  "sample_p2pkh = \<lparr>utxo_txid = Txid (replicate 32 0), utxo_vout = 0, utxo_satoshis = from_sat 7,
     utxo_script_pubkey = [0x76, 0xa9, 0x14] @ replicate 20 3 @ [0x88, 0xac]\<rparr>"

lemma sample_p2pkh_tokens: "output_tokens H hx sh native sample_p2pkh = Inr []"
proof -
  have "decode_output_script H hx (utxo_script_pubkey sample_p2pkh) = Inr (OutPubKeyHash (replicate 20 3))"
    by (simp add: decode_p2pkh sample_p2pkh_def)
  then show ?thesis by (simp add: output_tokens_def held_tokens_def)
qed

lemma balances_exact_witness:
  "token_balances toy_hash_lib hex_string (\<lambda>e. []) [sample_p2pkh] None = Inr []"
proof -
  have "held_total toy_hash_lib hex_string (\<lambda>e. []) None [sample_p2pkh] c = 0" for c
    by (simp add: tokens_in_def sample_p2pkh_tokens)
  moreover from this obtain m where
    m: "token_balances toy_hash_lib hex_string (\<lambda>e. []) [sample_p2pkh] None = Inr m"
    using balances_exact [of toy_hash_lib hex_string "\<lambda>e. []" "[sample_p2pkh]" None, THEN conjunct2, THEN conjunct1]
    by (auto simp: sample_p2pkh_tokens)
  ultimately have "bt_sorted m" "\<forall>(c, a) \<in> set m. a \<noteq> amount_zero" "\<forall>c. balance_of m c = 0"
    using balances_exact [of toy_hash_lib hex_string "\<lambda>e. []" "[sample_p2pkh]" None m] by auto
  then have "m = []"
    by (cases m) (auto simp: balance_of_def bt_entry_def sats_amount_zero split: if_splits)
  with m show ?thesis by simp
qed

text \<open>
  What the library's encoders put into an output is what the balance counts.  A token
  output counts its one currency and amount whoever it pays, a P2PKH or identity payment
  nothing, and a reserve transfer, once the native currency is known, exactly what the transfer
  holds of every other currency; without it a transfer is refused by name, and with it
  native value is never counted.
\<close>

theorem balances_count_built_scripts:
  "(wf_destination d \<and> wf_currency c \<and> reserve_output_script_to d c a = Inr (utxo_script_pubkey u) \<longrightarrow>
      output_tokens H hx sh native u = Inr [(c, a)]) \<and>
   (length h = 20 \<and> identity_payment_script h = Inr (utxo_script_pubkey u) \<longrightarrow>
      output_tokens H hx sh native u = Inr []) \<and>
   (wf_transfer t \<and> to_script t = Inr (utxo_script_pubkey u) \<longrightarrow>
      output_tokens H hx sh None u = Inl (uncountable u NEEDS_NATIVE) \<and>
      (output_tokens H hx sh (Some n) u = Inr ts \<longrightarrow>
         token_total n ts = 0 \<and> (\<forall>e. e \<noteq> n \<longrightarrow> token_total e ts = holding n (payload_of t) e)))"
proof (intro conjI impI; (elim conjE)?)
  assume "wf_destination d" "wf_currency c" "reserve_output_script_to d c a = Inr (utxo_script_pubkey u)"
  then show "output_tokens H hx sh native u = Inr [(c, a)]"
    by (simp add: output_tokens_def decode_reserve_output_script held_tokens_def)
next
  assume "length h = 20" "identity_payment_script h = Inr (utxo_script_pubkey u)"
  then show "output_tokens H hx sh native u = Inr []"
    by (simp add: output_tokens_def decode_identity_payment_script held_tokens_def)
next
  assume "wf_transfer t" "to_script t = Inr (utxo_script_pubkey u)"
  note d = decode_transfer_script [OF this]
  show "output_tokens H hx sh None u = Inl (uncountable u NEEDS_NATIVE)"
    by (simp add: output_tokens_def d held_tokens_def)
  assume "output_tokens H hx sh (Some n) u = Inr ts"
  then have v: "reserve_value n (payload_of t) = Inr ts"
    by (auto simp: output_tokens_def d held_tokens_def map_err_def split: sum.splits)
  have "token_total e ts = unat (bt_entry 0 e ts)" for e
    by (rule token_total_map_of [OF bt_sorted_distinct [OF reserve_value_Inr(1) [OF v]]])
  then show "token_total n ts = 0" "\<forall>e. e \<noteq> n \<longrightarrow> token_total e ts = holding n (payload_of t) e"
    using reserve_value_Inr(2,3) [OF v] by (simp_all add: bt_entry_def)
qed

lemma balances_count_built_scripts_witness:
  "\<exists>s. reserve_output_script_to (DestIdentity (replicate 20 3)) (sample_currency 1) 500 = Inr s \<and>
     output_tokens toy_hash_lib hex_string (\<lambda>e. []) None (sample_p2pkh\<lparr>utxo_script_pubkey := s\<rparr>) =
       Inr [(sample_currency 1, 500)]"
proof -
  obtain s where s: "reserve_output_script_to (DestIdentity (replicate 20 3)) (sample_currency 1) 500 = Inr s"
    by (rule reserve_output_script_total [of "DestIdentity (replicate 20 3)" "sample_currency 1"])
      (simp_all add: wf_currency_def sample_currency_def)
  then show ?thesis
    using balances_count_built_scripts [of "DestIdentity (replicate 20 3)" "sample_currency 1" 500
        "sample_p2pkh\<lparr>utxo_script_pubkey := s\<rparr>" toy_hash_lib hex_string "\<lambda>e. []" None]
    by (simp add: wf_currency_def sample_currency_def)
qed

end
