(* ===== verification/Token.thy ===== *)
theory Token
  imports Balances Output_Types Transparent "HOL-Library.Product_Lexorder"
begin

text \<open>
  Token transfers (\<open>verus-tx-protocol/src/token.rs\<close>): the running balance per currency, the
  two phases of coin selection, and the transaction built from them.  \<open>i128\<close> balances are
  integers: each is a sum of at most as many \<open>u64\<close> amounts as there are outputs and
  recipients in memory, far from the bounds of the type.
\<close>

section \<open>Balances\<close>

definition reject_unspendable_reserve :: "hex_encode \<Rightarrow> utxo \<Rightarrow> destination \<Rightarrow> tx_error + unit" where
  "reject_unspendable_reserve hx u d = (case d of
       DestPubKeyHash _ \<Rightarrow> Inr ()
     | DestIdentity identity \<Rightarrow>
         Inl (IdentityHeldFunding (to_display_hex (utxo_txid u)) (utxo_vout u) (hx identity))
     | DestPubKey _ \<Rightarrow> Inl (UnsupportedFundingScript (to_display_hex (utxo_txid u)) (utxo_vout u))
     | DestScriptHash _ \<Rightarrow> Inl (UnsupportedFundingScript (to_display_hex (utxo_txid u)) (utxo_vout u)))"

record token_recipient =
  tr_address :: address
  tr_currency :: currency_id
  tr_amount :: amount

record token_send_params =
  ts_utxos :: "utxo list"
  ts_recipients :: "token_recipient list"
  ts_change_address :: address
  ts_expiry :: expiry
  ts_fee_per_kb :: u64

definition token_send_params_new ::
  "utxo list \<Rightarrow> token_recipient list \<Rightarrow> address \<Rightarrow> expiry \<Rightarrow> token_send_params" where
  "token_send_params_new utxos recipients change_address expiry =
     \<lparr>ts_utxos = utxos, ts_recipients = recipients, ts_change_address = change_address,
      ts_expiry = expiry, ts_fee_per_kb = DEFAULT_FEE_PER_KB\<rparr>"

record decoded_utxo =
  du_utxo :: utxo
  du_tokens :: "(currency_id \<times> u64) list"
  du_is_cryptocondition :: bool

definition carries_tokens :: "decoded_utxo \<Rightarrow> bool" where
  "carries_tokens d \<longleftrightarrow> list_ex (\<lambda>(_, amount). 0 < amount) (du_tokens d)"

type_synonym balances = "(currency_id \<times> int) list"

fun bal_add :: "currency_id \<Rightarrow> int \<Rightarrow> balances \<Rightarrow> balances" where
  "bal_add currency delta [] = [(currency, delta)]"
| "bal_add currency delta ((c, b) # bs) =
     (if c = currency then (c, b + delta) # bs else (c, b) # bal_add currency delta bs)"

definition bal_sub :: "balances \<Rightarrow> currency_id \<Rightarrow> u64 \<Rightarrow> balances" where
  "bal_sub bs currency amount = bal_add currency (- uint amount) bs"

definition add_required :: "balances \<Rightarrow> currency_id \<Rightarrow> u64 \<Rightarrow> balances" where
  "add_required bs currency amount = bal_add currency (uint amount) bs"

definition still_needed :: "balances \<Rightarrow> currency_id \<Rightarrow> bool" where
  "still_needed bs currency \<longleftrightarrow> list_ex (\<lambda>(c, balance). c = currency \<and> 0 < balance) bs"

definition shortfalls :: "balances \<Rightarrow> (currency_id \<times> int) list" where
  "shortfalls bs = filter (\<lambda>(_, balance). 0 < balance) bs"

definition bal_change :: "balances \<Rightarrow> tx_error + (currency_id \<times> u64) list" where
  "bal_change bs =
     rmap (\<lambda>(c, balance). if - balance < 2 ^ 64 then Inr (c, of_int (- balance))
        else Inl (Panic ''a surplus fits u64: it came from u64 inputs''))
       (filter (\<lambda>(_, balance). balance < 0) bs)"

section \<open>Selection\<close>

definition unsupported_eval :: "utxo \<Rightarrow> u8 \<Rightarrow> tx_error" where
  "unsupported_eval u eval_code = UnsupportedFundingEval (to_display_hex (utxo_txid u)) (utxo_vout u) eval_code"

definition decode_funding :: "hash_lib \<Rightarrow> hex_encode \<Rightarrow> utxo \<Rightarrow> tx_error + decoded_utxo" where
  "decode_funding H hx u =
     rbind (decode_output_script H hx (utxo_script_pubkey u)) (\<lambda>kind.
     rbind (case kind of
         OutPubKeyHash _ \<Rightarrow> Inr ([], False)
       | OutReserveOutput d tokens \<Rightarrow> rbind (reject_unspendable_reserve hx u d) (\<lambda>_. Inr (tokens, True))
       | OutPubKey _ _ \<Rightarrow> Inl (UnsupportedFundingScript (to_display_hex (utxo_txid u)) (utxo_vout u))
       | OutIdentityPayment identity \<Rightarrow>
           Inl (IdentityHeldFunding (to_display_hex (utxo_txid u)) (utxo_vout u) (hx identity))
       | OutIdentityPrimary _ \<Rightarrow> Inl (unsupported_eval u EVAL_IDENTITY_PRIMARY)
       | OutIdentityCommitment _ _ _ \<Rightarrow> Inl (unsupported_eval u EVAL_IDENTITY_COMMITMENT)
       | OutReserveDeposit _ _ _ \<Rightarrow> Inl (unsupported_eval u EVAL_RESERVE_DEPOSIT)
       | OutReserveTransfer _ _ \<Rightarrow> Inl (unsupported_eval u EVAL_RESERVE_TRANSFER)
       | OutUnsupported eval_code _ \<Rightarrow> Inl (unsupported_eval u eval_code)) (\<lambda>(tokens, cc).
     Inr \<lparr>du_utxo = u, du_tokens = tokens, du_is_cryptocondition = cc\<rparr>))"

text \<open>The demands of the recipients; the index of a zero amount is always reported as 0.\<close>

fun require_tokens :: "balances \<Rightarrow> token_recipient list \<Rightarrow> tx_error + balances" where
  "require_tokens bs [] = Inr bs"
| "require_tokens bs (r # rs) =
     rbind (destination_for (tr_address r)) (\<lambda>_.
     rbind (refuse_if (amount_is_zero (tr_amount r)) (ZeroValueOutput 0)) (\<lambda>_.
     require_tokens (add_required bs (tr_currency r) (to_sat (tr_amount r))) rs))"

definition bal_supply :: "balances \<Rightarrow> decoded_utxo \<Rightarrow> balances" where
  "bal_supply bs d = foldl (\<lambda>bs (c, amount). bal_sub bs c amount) bs (du_tokens d)"

definition useful :: "balances \<Rightarrow> decoded_utxo \<Rightarrow> bool" where
  "useful bs d \<longleftrightarrow> list_ex (\<lambda>(c, amount). 0 < amount \<and> still_needed bs c) (du_tokens d)"

definition sats_of :: "decoded_utxo \<Rightarrow> u64" where
  "sats_of d = to_sat (utxo_satoshis (du_utxo d))"

text \<open>
  Phase 1: the balances, the native value still owed, the outputs taken, and those left over
  (the ones no pointer of \<open>selected\<close> equals).
\<close>

fun take_useful ::
  "balances \<Rightarrow> int \<Rightarrow> decoded_utxo list \<Rightarrow> balances \<times> int \<times> decoded_utxo list \<times> decoded_utxo list" where
  "take_useful bs remaining [] = (bs, remaining, [], [])"
| "take_useful bs remaining (d # ds) =
     (if useful bs d then
        (case take_useful (bal_supply bs d) (remaining - uint (sats_of d)) ds of
           (bs, remaining, taken, left) \<Rightarrow> (bs, remaining, d # taken, left))
      else
        (case take_useful bs remaining ds of (bs, remaining, taken, left) \<Rightarrow> (bs, remaining, taken, d # left)))"

definition by_native_value :: "decoded_utxo list \<Rightarrow> decoded_utxo list" where
  "by_native_value = sort_key (\<lambda>d. (carries_tokens d, - uint (sats_of d)))"

definition total_outputs :: "u64 \<Rightarrow> balances \<Rightarrow> tx_error + u64" where
  "total_outputs declared bs =
     (case checked_add declared 1 of
        None \<Rightarrow> Inl ValueOverflow
      | Some n \<Rightarrow> rbind (bal_change bs) (\<lambda>change. ok_or (checked_add n (of_nat (length change))) ValueOverflow))"

text \<open>Phase 2: native outputs until the fee is covered.\<close>

fun cover_fee ::
  "u64 \<Rightarrow> u64 \<Rightarrow> u64 \<Rightarrow> decoded_utxo list \<Rightarrow> decoded_utxo list \<Rightarrow> balances \<Rightarrow> int \<Rightarrow> u64
    \<Rightarrow> tx_error + decoded_utxo list \<times> balances \<times> u64" where
  "cover_fee declared fee_per_kb available candidates selected bs remaining fee =
     (if remaining + uint fee \<le> 0 then Inr (selected, bs, fee)
      else case candidates of
          [] \<Rightarrow> Inl (InsufficientFunds fee available)
        | d # ds \<Rightarrow>
            let selected = selected @ [d]; bs = bal_supply bs d; remaining = remaining - uint (sats_of d) in
            rbind (total_outputs declared bs) (\<lambda>n.
            rbind (estimate_fee (of_nat (length selected)) n fee_per_kb True) (\<lambda>fee.
            cover_fee declared fee_per_kb available ds selected bs remaining fee)))"

declare cover_fee.simps [simp del]

section \<open>The transaction\<close>

definition recipient_token_output :: "token_recipient \<Rightarrow> tx_error + tx_out" where
  "recipient_token_output r =
     rbind (destination_for (tr_address r)) (\<lambda>d.
     rbind (reserve_output_script_to d (tr_currency r) (to_sat (tr_amount r))) (\<lambda>script.
     Inr \<lparr>out_value = 0, out_script_pubkey = script\<rparr>))"

definition token_change_output :: "bytes \<Rightarrow> currency_id \<times> u64 \<Rightarrow> tx_error + tx_out" where
  "token_change_output change_hash ca =
     rbind (reserve_output_script change_hash (fst ca) (snd ca)) (\<lambda>script.
     Inr \<lparr>out_value = 0, out_script_pubkey = script\<rparr>)"

definition native_change_output :: "address \<Rightarrow> u64 \<Rightarrow> tx_error + tx_out list" where
  "native_change_output change_address native_change =
     (if 0 < native_change
      then rbind (map_err Key (p2pkh_script_pubkey change_address)) (\<lambda>script.
        Inr [\<lparr>out_value = native_change, out_script_pubkey = script\<rparr>])
      else Inr [])"

record token_plan =
  tp_selected :: "decoded_utxo list"
  tp_outputs :: "tx_out list"
  tp_fee :: u64
  tp_change :: u64

definition select_token_inputs ::
  "token_send_params \<Rightarrow> decoded_utxo list \<Rightarrow> tx_error + decoded_utxo list \<times> balances \<times> u64" where
  "select_token_inputs p decoded =
     rbind (require_tokens [] (ts_recipients p)) (\<lambda>bs.
     case take_useful bs 0 decoded of (bs, remaining, selected, left) \<Rightarrow>
     case shortfalls bs of
       (currency, missing) # _ \<Rightarrow>
         Inl (InsufficientTokens (currency_to_string currency)
           (if missing < 2 ^ 64 then of_int missing else 2 ^ 64 - 1))
     | [] \<Rightarrow>
         rbind (total_outputs (of_nat (length (ts_recipients p))) bs) (\<lambda>n.
         rbind (estimate_fee (of_nat (length selected) + 1) n (ts_fee_per_kb p) True) (\<lambda>fee.
         cover_fee (of_nat (length (ts_recipients p))) (ts_fee_per_kb p)
           (case amount_checked_sum (map utxo_satoshis (ts_utxos p)) of Some a \<Rightarrow> to_sat a | None \<Rightarrow> 2 ^ 64 - 1)
           (by_native_value left) selected bs remaining fee)))"

definition token_outputs ::
  "token_send_params \<Rightarrow> balances \<Rightarrow> u64 \<Rightarrow> tx_error + tx_out list" where
  "token_outputs p bs native_change =
     rbind (rmap recipient_token_output (ts_recipients p)) (\<lambda>paid.
     rbind (bal_change bs) (\<lambda>change.
     rbind (rmap (token_change_output (addr_hash (ts_change_address p))) change) (\<lambda>returned.
     rbind (native_change_output (ts_change_address p) native_change) (\<lambda>native.
     Inr (paid @ returned @ native)))))"

definition plan_token_send :: "hash_lib \<Rightarrow> hex_encode \<Rightarrow> token_send_params \<Rightarrow> tx_error + token_plan" where
  "plan_token_send H hx p =
     rbind (refuse_if (ts_recipients p = []) NoOutputs) (\<lambda>_.
     rbind (expiry_check (ts_expiry p)) (\<lambda>_.
     rbind (refuse_if (addr_kind (ts_change_address p) \<noteq> PubKeyHash) UnsupportedRecipient) (\<lambda>_.
     rbind (rmap (decode_funding H hx) (ts_utxos p)) (\<lambda>decoded.
     rbind (select_token_inputs p decoded) (\<lambda>(selected, bs, fee).
     rbind (ok_or (amount_checked_sum (map (utxo_satoshis \<circ> du_utxo) selected)) ValueOverflow) (\<lambda>total_in.
     rbind (ok_or (checked_sub (to_sat total_in) fee) ValueOverflow) (\<lambda>actual_change.
     rbind (if DUST_THRESHOLD < actual_change then Inr (actual_change, fee)
            else rbind (ok_or (checked_add fee actual_change) ValueOverflow) (\<lambda>fee. Inr (0, fee)))
       (\<lambda>(native_change, fee).
     rbind (token_outputs p bs native_change) (\<lambda>outputs.
     rbind (ok_or (amount_checked_sum (map (from_sat \<circ> out_value) outputs)) ValueOverflow) (\<lambda>outputs_total.
     rbind (check_conserved (to_sat total_in) (to_sat outputs_total) fee) (\<lambda>_.
     Inr \<lparr>tp_selected = selected, tp_outputs = outputs, tp_fee = fee, tp_change = native_change\<rparr>)))))))))))"

definition token_script_sig ::
  "('sk, 'vk, 'sg) env \<Rightarrow> 'sk private_key \<Rightarrow> tx_v4 \<Rightarrow> nat \<times> decoded_utxo \<Rightarrow> tx_error + bytes" where
  "token_script_sig E key t entry =
     (let pubkey = public_to_bytes (env_ec E) (private_public_key (env_ec E) key); d = snd entry in
      rbind (sighash_of E t (fst entry) (du_utxo d)) (\<lambda>sighash.
      if du_is_cryptocondition d
      then rbind (map_err Key (sign_prehash_compact (env_ec E) key sighash)) (\<lambda>compact.
        fulfillment_script_sig [(pubkey, compact)] 1)
      else p2pkh_script_sig E key sighash pubkey))"

text \<open>\<open>for (input, script_sig) in tx.inputs.iter_mut().zip(script_sigs)\<close>\<close>

definition with_script_sigs :: "tx_v4 \<Rightarrow> bytes list \<Rightarrow> tx_v4" where
  "with_script_sigs t sigs =
     t\<lparr>tx_inputs := map2 (\<lambda>i s. i\<lparr>in_script_sig := s\<rparr>) (tx_inputs t) sigs @ drop (length sigs) (tx_inputs t)\<rparr>"

definition build_token_send ::
  "('sk, 'vk, 'sg) env \<Rightarrow> 'sk private_key \<Rightarrow> token_send_params \<Rightarrow> tx_error + signed_transaction" where
  "build_token_send E key p =
     rbind (plan_token_send (env_hash E) (env_hex E) p) (\<lambda>plan.
     let t = unsigned_tx (map du_utxo (tp_selected plan)) (tp_outputs plan) 0 (to_height (ts_expiry p)) in
     rbind (rmap (token_script_sig E key t) (enumerate 0 (tp_selected plan))) (\<lambda>sigs.
     signed_transaction_of E (with_script_sigs t sigs) (from_sat (tp_fee plan)) (from_sat (tp_change plan))
       (map du_utxo (tp_selected plan))))"

section \<open>What the balances count\<close>

definition bal_of :: "balances \<Rightarrow> currency_id \<Rightarrow> int" where
  "bal_of bs c = (case map_of bs c of Some b \<Rightarrow> b | None \<Rightarrow> 0)"

definition bal_keys :: "balances \<Rightarrow> currency_id list" where
  "bal_keys bs = map fst bs"

lemma bal_of_add: "bal_of (bal_add c x bs) d = bal_of bs d + (if d = c then x else 0)"
  by (induction c x bs rule: bal_add.induct) (auto simp: bal_of_def)

lemma keys_add: "set (bal_keys (bal_add c x bs)) = insert c (set (bal_keys bs))"
  by (induction c x bs rule: bal_add.induct) (auto simp: bal_keys_def)

lemma distinct_add: "distinct (bal_keys bs) \<Longrightarrow> distinct (bal_keys (bal_add c x bs))"
proof (induction c x bs rule: bal_add.induct)
  case (2 c x d b bs)
  then show ?case using keys_add [of c x bs] by (auto simp: bal_keys_def)
qed (simp add: bal_keys_def)

definition supplied :: "decoded_utxo list \<Rightarrow> currency_id \<Rightarrow> nat" where
  "supplied ds c = (\<Sum>d \<leftarrow> ds. token_total c (du_tokens d))"

definition demanded :: "token_recipient list \<Rightarrow> currency_id \<Rightarrow> nat" where
  "demanded rs c = (\<Sum>r \<leftarrow> rs. if tr_currency r = c then sats (tr_amount r) else 0)"

lemma supplied_simps [simp]:
  "supplied [] c = 0" "supplied (d # ds) c = token_total c (du_tokens d) + supplied ds c"
  "supplied (ds @ es) c = supplied ds c + supplied es c"
  by (simp_all add: supplied_def)

lemma demanded_simps [simp]:
  "demanded [] c = 0"
  "demanded (r # rs) c = (if tr_currency r = c then sats (tr_amount r) else 0) + demanded rs c"
  by (simp_all add: demanded_def)

lemma bal_of_sub: "bal_of (bal_sub bs c a) d = bal_of bs d - int (if d = c then unat a else 0)"
  by (simp add: bal_sub_def bal_of_add)

lemma bal_of_required: "bal_of (add_required bs c a) d = bal_of bs d + int (if d = c then unat a else 0)"
  by (simp add: add_required_def bal_of_add)

lemma keys_sub: "set (bal_keys (bal_sub bs c a)) = insert c (set (bal_keys bs))"
  "distinct (bal_keys bs) \<Longrightarrow> distinct (bal_keys (bal_sub bs c a))"
  by (simp_all add: bal_sub_def keys_add distinct_add)

lemma keys_required: "set (bal_keys (add_required bs c a)) = insert c (set (bal_keys bs))"
  "distinct (bal_keys bs) \<Longrightarrow> distinct (bal_keys (add_required bs c a))"
  by (simp_all add: add_required_def keys_add distinct_add)

lemma bal_supply_facts:
  "bal_of (bal_supply bs d) c = bal_of bs c - int (token_total c (du_tokens d))"
  "set (bal_keys (bal_supply bs d)) = set (bal_keys bs) \<union> fst ` set (du_tokens d)"
  "distinct (bal_keys bs) \<Longrightarrow> distinct (bal_keys (bal_supply bs d))"
proof -
  have run: "bal_of (foldl (\<lambda>bs (c, amount). bal_sub bs c amount) bs ts) c = bal_of bs c - int (token_total c ts) \<and>
      set (bal_keys (foldl (\<lambda>bs (c, amount). bal_sub bs c amount) bs ts)) = set (bal_keys bs) \<union> fst ` set ts \<and>
      (distinct (bal_keys bs) \<longrightarrow> distinct (bal_keys (foldl (\<lambda>bs (c, amount). bal_sub bs c amount) bs ts)))" for ts
  proof (induction ts arbitrary: bs)
    case (Cons t ts)
    obtain e a where t: "t = (e, a)" by force
    show ?case
      using Cons [of "bal_sub bs e a"] by (auto simp: t bal_of_sub keys_sub)
  qed simp
  from run show "bal_of (bal_supply bs d) c = bal_of bs c - int (token_total c (du_tokens d))"
    "set (bal_keys (bal_supply bs d)) = set (bal_keys bs) \<union> fst ` set (du_tokens d)"
    "distinct (bal_keys bs) \<Longrightarrow> distinct (bal_keys (bal_supply bs d))"
    by (auto simp: bal_supply_def)
qed

lemma require_tokens_Inr:
  "require_tokens bs rs = Inr bs' \<Longrightarrow>
     bal_of bs' c = bal_of bs c + int (demanded rs c) \<and>
     set (bal_keys bs') = set (bal_keys bs) \<union> tr_currency ` set rs \<and>
     (distinct (bal_keys bs) \<longrightarrow> distinct (bal_keys bs')) \<and>
     list_all (\<lambda>r. (\<exists>d. destination_for (tr_address r) = Inr d) \<and> tr_amount r \<noteq> amount_zero) rs"
proof (induction rs arbitrary: bs)
  case (Cons r rs)
  then have run: "require_tokens (add_required bs (tr_currency r) (to_sat (tr_amount r))) rs = Inr bs'"
    and r: "\<exists>d. destination_for (tr_address r) = Inr d" "tr_amount r \<noteq> amount_zero"
    by (auto simp: rbind_Inr_iff refuse_if_Inr_iff amount_is_zero_def amount_zero_def from_sat_def)
  from Cons.IH [OF run] r show ?case
    by (auto simp: bal_of_required keys_required)
qed simp

lemma bal_in_set: "distinct (bal_keys bs) \<Longrightarrow> (c, b) \<in> set bs \<longleftrightarrow> map_of bs c = Some b"
  unfolding bal_keys_def by (auto dest: map_of_SomeD)

lemma still_needed_iff: "distinct (bal_keys bs) \<Longrightarrow> still_needed bs c \<longleftrightarrow> 0 < bal_of bs c"
  by (auto simp: still_needed_def list_ex_iff bal_in_set bal_of_def split: option.splits)

lemma shortfalls_Nil: "distinct (bal_keys bs) \<Longrightarrow> shortfalls bs = [] \<longleftrightarrow> (\<forall>c. bal_of bs c \<le> 0)"
proof -
  assume d: "distinct (bal_keys bs)"
  have "shortfalls bs = [] \<longleftrightarrow> (\<forall>c b. map_of bs c = Some b \<longrightarrow> b \<le> 0)"
    by (fastforce simp: shortfalls_def filter_empty_conv simp flip: bal_in_set [OF d])
  also have "\<dots> \<longleftrightarrow> (\<forall>c. bal_of bs c \<le> 0)"
    by (auto simp: bal_of_def split: option.splits)
  finally show ?thesis .
qed

lemma unat_of_int_small: "0 \<le> k \<Longrightarrow> k < 2 ^ 64 \<Longrightarrow> int (unat (of_int k :: u64)) = k"
  by (simp add: unsigned_of_int take_bit_int_eq_self)

lemma bal_change_Inr:
  assumes "bal_change bs = Inr ch" "distinct (bal_keys bs)"
  shows "int (token_total c ch) = max 0 (- bal_of bs c)" "distinct (map fst ch)"
    "\<forall>(c, a) \<in> set ch. a \<noteq> 0" "fst ` set ch \<subseteq> set (bal_keys bs)"
proof -
  have run: "int (token_total c ch) = max 0 (- bal_of bs c) \<and> distinct (map fst ch) \<and>
      (\<forall>(c, a) \<in> set ch. a \<noteq> 0) \<and> fst ` set ch \<subseteq> set (bal_keys bs)"
    using assms
  proof (induction bs arbitrary: ch)
    case Nil
    then show ?case by (simp add: bal_change_def bal_of_def)
  next
    case (Cons x bs)
    obtain d b where x: "x = (d, b)" by force
    show ?case
    proof (cases "b < 0")
      case False
      with Cons.prems have "bal_change bs = Inr ch" "distinct (bal_keys bs)" "d \<notin> set (bal_keys bs)"
        by (simp_all add: bal_change_def x bal_keys_def)
      moreover from this have "map_of bs d = None" by (simp add: bal_keys_def map_of_eq_None_iff)
      ultimately show ?thesis
        using Cons.IH [of ch] False by (auto simp: x bal_of_def bal_keys_def)
    next
      case True
      with Cons.prems obtain ch' where ch: "ch = (d, of_int (- b)) # ch'" "- b < 2 ^ 64" "bal_change bs = Inr ch'"
        and d: "distinct (bal_keys bs)" "d \<notin> set (bal_keys bs)"
        by (auto simp: bal_change_def x bal_keys_def rbind_Inr_iff split: if_splits)
      from d have none: "map_of bs d = None" by (simp add: bal_keys_def map_of_eq_None_iff)
      have v: "int (unat (of_int (- b) :: u64)) = - b"
        using True ch(2) by (intro unat_of_int_small) simp_all
      note IH = Cons.IH [OF ch(3) d(1)]
      have "(of_int (- b) :: u64) \<noteq> 0" using v True by auto
      then show ?thesis
        using IH d(2) none v True by (auto simp: ch(1) x bal_of_def bal_keys_def)
    qed
  qed
  then show "int (token_total c ch) = max 0 (- bal_of bs c)" "distinct (map fst ch)"
    "\<forall>(c, a) \<in> set ch. a \<noteq> 0" "fst ` set ch \<subseteq> set (bal_keys bs)" by blast+
qed

section \<open>What the selection does\<close>

definition native_total :: "decoded_utxo list \<Rightarrow> nat" where
  "native_total ds = (\<Sum>d \<leftarrow> ds. unat (sats_of d))"

lemma native_total_simps [simp]:
  "native_total [] = 0" "native_total (d # ds) = unat (sats_of d) + native_total ds"
  "native_total (ds @ es) = native_total ds + native_total es"
  by (simp_all add: native_total_def)

definition currencies :: "decoded_utxo list \<Rightarrow> currency_id set" where
  "currencies ds = (\<Union>d \<in> set ds. fst ` set (du_tokens d))"

lemma currencies_simps [simp]:
  "currencies [] = {}" "currencies (d # ds) = fst ` set (du_tokens d) \<union> currencies ds"
  "currencies (ds @ es) = currencies ds \<union> currencies es"
  by (auto simp: currencies_def)

text \<open>\<open>bs'\<close> is \<open>bs\<close> after the inputs \<open>ds\<close> have supplied their tokens.\<close>

definition supplies :: "balances \<Rightarrow> decoded_utxo list \<Rightarrow> balances \<Rightarrow> bool" where
  "supplies bs ds bs' \<longleftrightarrow> (\<forall>c. bal_of bs' c = bal_of bs c - int (supplied ds c)) \<and>
     set (bal_keys bs') = set (bal_keys bs) \<union> currencies ds \<and>
     (distinct (bal_keys bs) \<longrightarrow> distinct (bal_keys bs'))"

lemma supplies_Nil: "supplies bs [] bs"
  by (simp add: supplies_def)

lemma supplies_Cons: "supplies (bal_supply bs d) ds bs' \<Longrightarrow> supplies bs (d # ds) bs'"
  by (auto simp: supplies_def bal_supply_facts)

lemma supplies_append: "supplies bs ds bs1 \<Longrightarrow> supplies bs1 es bs2 \<Longrightarrow> supplies bs (ds @ es) bs2"
  by (auto simp: supplies_def)

lemma take_useful_facts:
  "take_useful bs remaining ds = (bs', remaining', taken, left) \<Longrightarrow>
     mset taken + mset left = mset ds \<and> supplies bs taken bs' \<and>
     remaining' = remaining - int (native_total taken)"
proof (induction bs remaining ds arbitrary: taken left rule: take_useful.induct)
  case (1 bs remaining)
  then show ?case by (auto simp: supplies_Nil)
next
  case (2 bs remaining d ds)
  show ?case
  proof (cases "useful bs d")
    case True
    with "2.prems" obtain ts where run: "take_useful (bal_supply bs d) (remaining - uint (sats_of d)) ds =
        (bs', remaining', ts, left)" and t: "taken = d # ts"
      by (auto split: prod.splits)
    from "2.IH"(1) [OF True run] show ?thesis by (auto simp: t intro: supplies_Cons)
  next
    case False
    with "2.prems" obtain ls where run: "take_useful bs remaining ds = (bs', remaining', taken, ls)"
      and l: "left = d # ls"
      by (auto split: prod.splits)
    from "2.IH"(2) [OF False run] show ?thesis by (simp add: l)
  qed
qed

lemma cover_fee_facts:
  "cover_fee declared rate available ds selected bs remaining fee = Inr (selected', bs', fee') \<Longrightarrow>
     \<exists>extra rest. selected' = selected @ extra \<and> ds = extra @ rest \<and> supplies bs extra bs' \<and>
       remaining - int (native_total extra) + int (unat fee') \<le> 0"
proof (induction ds arbitrary: selected bs remaining fee)
  case Nil
  then show ?case by (auto simp: cover_fee.simps supplies_Nil split: if_splits)
next
  case (Cons d ds)
  show ?case
  proof (cases "remaining + uint fee \<le> 0")
    case True
    with Cons.prems show ?thesis by (auto simp: cover_fee.simps supplies_Nil intro!: exI [of _ "[]"])
  next
    case False
    with Cons.prems obtain fee1 where
      "cover_fee declared rate available ds (selected @ [d]) (bal_supply bs d) (remaining - uint (sats_of d)) fee1
        = Inr (selected', bs', fee')"
      by (auto simp: cover_fee.simps [of _ _ _ "d # ds"] Let_def rbind_Inr_iff)
    from Cons.IH [OF this] obtain extra rest where e: "selected' = selected @ [d] @ extra" "ds = extra @ rest"
      "supplies (bal_supply bs d) extra bs'"
      "remaining - uint (sats_of d) - int (native_total extra) + int (unat fee') \<le> 0" by auto
    then show ?thesis
      by (intro exI [of _ "d # extra"] exI [of _ rest]) (auto intro: supplies_Cons)
  qed
qed

lemma mset_by_native_value: "mset (by_native_value ds) = mset ds"
  by (simp add: by_native_value_def)

lemma select_token_inputs_Inr:
  assumes "select_token_inputs p decoded = Inr (selected, bs, fee)"
  shows "mset selected \<subseteq># mset decoded" "unat fee \<le> native_total selected" "distinct (bal_keys bs)"
    "bal_of bs c = int (demanded (ts_recipients p) c) - int (supplied selected c)" "bal_of bs c \<le> 0"
    "set (bal_keys bs) \<subseteq> tr_currency ` set (ts_recipients p) \<union> currencies selected"
    "list_all (\<lambda>r. (\<exists>d. destination_for (tr_address r) = Inr d) \<and> tr_amount r \<noteq> amount_zero) (ts_recipients p)"
proof -
  from assms obtain bs0 where req: "require_tokens [] (ts_recipients p) = Inr bs0"
    by (auto simp: select_token_inputs_def rbind_Inr_iff)
  obtain bs1 remaining taken left where use: "take_useful bs0 0 decoded = (bs1, remaining, taken, left)"
    by (metis prod_cases4)
  from assms obtain fee0 where short: "shortfalls bs1 = []"
    and cov: "cover_fee (of_nat (length (ts_recipients p))) (ts_fee_per_kb p)
        (case amount_checked_sum (map utxo_satoshis (ts_utxos p)) of Some a \<Rightarrow> to_sat a | None \<Rightarrow> 2 ^ 64 - 1)
        (by_native_value left) taken bs1 remaining fee0 = Inr (selected, bs, fee)"
    unfolding select_token_inputs_def
    by (auto simp: req use rbind_Inr_iff split: list.splits)
  note r = require_tokens_Inr [OF req]
  note u = take_useful_facts [OF use]
  from cover_fee_facts [OF cov] obtain extra rest where e: "selected = taken @ extra"
    "by_native_value left = extra @ rest" "supplies bs1 extra bs"
    "remaining - int (native_total extra) + int (unat fee) \<le> 0" by blast
  have "mset left = mset extra + mset rest"
    using mset_by_native_value [of left] by (simp add: e(2))
  then have "mset decoded = mset selected + mset rest" using u by (simp add: e(1) ac_simps)
  then show "mset selected \<subseteq># mset decoded" by simp
  have "int (unat fee) \<le> int (native_total taken) + int (native_total extra)" using u e(4) by linarith
  then show "unat fee \<le> native_total selected"
    by (simp only: e(1) native_total_simps of_nat_add [symmetric] of_nat_le_iff)
  have sup: "supplies bs0 selected bs" using u e(1,3) supplies_append by blast
  have d0: "distinct (bal_keys bs0)" using r by (simp add: bal_keys_def)
  then show "distinct (bal_keys bs)" using sup by (simp add: supplies_def)
  show "bal_of bs c = int (demanded (ts_recipients p) c) - int (supplied selected c)"
    using sup require_tokens_Inr [OF req, of c] by (simp add: supplies_def bal_of_def)
  have "bal_of bs1 c \<le> 0" using shortfalls_Nil [of bs1] short u d0 by (simp add: supplies_def)
  then show "bal_of bs c \<le> 0" using e(3) by (simp add: supplies_def)
  show "set (bal_keys bs) \<subseteq> tr_currency ` set (ts_recipients p) \<union> currencies selected"
    using sup r by (auto simp: supplies_def bal_keys_def)
  show "list_all (\<lambda>r. (\<exists>d. destination_for (tr_address r) = Inr d) \<and> tr_amount r \<noteq> amount_zero) (ts_recipients p)"
    using r by simp
qed

section \<open>The plan\<close>

definition pays_token :: "token_recipient \<Rightarrow> tx_out \<Rightarrow> bool" where
  "pays_token r out \<longleftrightarrow> out_value out = 0 \<and> tr_amount r \<noteq> amount_zero \<and>
     (\<exists>d. destination_for (tr_address r) = Inr d \<and>
        reserve_output_script_to d (tr_currency r) (to_sat (tr_amount r)) = Inr (out_script_pubkey out))"

definition returns_token :: "address \<Rightarrow> currency_id \<times> u64 \<Rightarrow> tx_out \<Rightarrow> bool" where
  "returns_token a ca out \<longleftrightarrow> out_value out = 0 \<and> snd ca \<noteq> 0 \<and>
     reserve_output_script_to (DestPubKeyHash (addr_hash a)) (fst ca) (snd ca) = Inr (out_script_pubkey out)"

lemma recipient_outputs_pay_tokens:
  "rmap recipient_token_output rs = Inr outs \<Longrightarrow>
     list_all (\<lambda>r. (\<exists>d. destination_for (tr_address r) = Inr d) \<and> tr_amount r \<noteq> amount_zero) rs \<Longrightarrow>
     list_all2 pays_token rs outs"
  by (induction rs arbitrary: outs) (auto simp: rbind_Inr_iff recipient_token_output_def pays_token_def)

lemma change_outputs_return:
  "rmap (token_change_output (addr_hash a)) ch = Inr outs \<Longrightarrow> \<forall>(c, n) \<in> set ch. n \<noteq> 0 \<Longrightarrow>
     list_all2 (returns_token a) ch outs"
  by (induction ch arbitrary: outs)
    (auto simp: rbind_Inr_iff token_change_output_def returns_token_def reserve_output_script_def)

lemma decode_funding_utxo: "decode_funding H hx u = Inr d \<Longrightarrow> du_utxo d = u"
  by (auto simp: decode_funding_def rbind_Inr_iff)

lemma decode_fundings:
  "rmap (decode_funding H hx) us = Inr ds \<Longrightarrow>
     map du_utxo ds = us \<and> list_all (\<lambda>d. decode_funding H hx (du_utxo d) = Inr d) ds"
proof (induction us arbitrary: ds)
  case (Cons u us)
  then obtain d es where "decode_funding H hx u = Inr d" "rmap (decode_funding H hx) us = Inr es" "ds = d # es"
    by (auto simp: rbind_Inr_iff)
  with Cons.IH [of es] decode_funding_utxo [of H hx u d] show ?case by simp
qed simp

lemma total_value_zero: "list_all (\<lambda>out. out_value out = 0) outs \<Longrightarrow> total_value outs = 0"
  by (induction outs) simp_all

lemma valueless_tokens:
  "list_all2 pays_token rs outs \<Longrightarrow> total_value outs = 0"
  "list_all2 (returns_token a) ch outs \<Longrightarrow> total_value outs = 0"
  by (induction rule: list_all2_induct; simp add: pays_token_def returns_token_def)+

lemma sats_native_total: "total_sats (map (utxo_satoshis \<circ> du_utxo) ds) = native_total ds"
  by (simp add: total_sats_def native_total_def sats_of_def comp_def)

lemma plan_token_send_Inr:
  assumes "plan_token_send H hx p = Inr pl"
  obtains decoded bs fee paid change returned native where
    "rmap (decode_funding H hx) (ts_utxos p) = Inr decoded"
    "select_token_inputs p decoded = Inr (tp_selected pl, bs, fee)"
    "expiry_check (ts_expiry p) = Inr ()" "addr_kind (ts_change_address p) = PubKeyHash"
    "unat (tp_change pl) + unat (tp_fee pl) = native_total (tp_selected pl)"
    "tp_change pl = 0 \<or> DUST_THRESHOLD < tp_change pl"
    "rmap recipient_token_output (ts_recipients p) = Inr paid" "bal_change bs = Inr change"
    "rmap (token_change_output (addr_hash (ts_change_address p))) change = Inr returned"
    "native_change_output (ts_change_address p) (tp_change pl) = Inr native"
    "tp_outputs pl = paid @ returned @ native"
proof -
  from assms obtain decoded bs fee0 total actual fee change outputs outs_total where
    a: "rmap (decode_funding H hx) (ts_utxos p) = Inr decoded"
    "select_token_inputs p decoded = Inr (tp_selected pl, bs, fee0)"
    "expiry_check (ts_expiry p) = Inr ()" "addr_kind (ts_change_address p) = PubKeyHash"
    and tot: "amount_checked_sum (map (utxo_satoshis \<circ> du_utxo) (tp_selected pl)) = Some total"
    and act: "checked_sub (to_sat total) fee0 = Some actual"
    and ch: "(if DUST_THRESHOLD < actual then Inr (actual, fee0)
            else rbind (ok_or (checked_add fee0 actual) ValueOverflow) (\<lambda>fee. Inr (0, fee))) = Inr (change, fee)"
    and outs: "token_outputs p bs change = Inr outputs" and pl: "tp_outputs pl = outputs" "tp_fee pl = fee"
      "tp_change pl = change"
    by (auto simp: plan_token_send_def rbind_Inr_iff refuse_if_Inr_iff ok_or_Inr_iff)
  have t: "sats total = native_total (tp_selected pl)"
    using tot by (simp add: checked_simps sats_native_total)
  have "unat actual + unat fee0 = sats total" using act by (simp only: checked_simps) simp
  moreover have "change = actual \<and> fee = fee0 \<and> DUST_THRESHOLD < change \<or>
      change = 0 \<and> unat fee = unat fee0 + unat actual"
    using ch by (auto simp: rbind_Inr_iff ok_or_Inr_iff checked_simps split: if_splits)
  ultimately have "unat (tp_change pl) + unat (tp_fee pl) = native_total (tp_selected pl)"
    "tp_change pl = 0 \<or> DUST_THRESHOLD < tp_change pl" unfolding pl t by auto
  with a outs that show thesis
    by (auto simp: token_outputs_def rbind_Inr_iff pl)
qed

lemma funding_kinds:
  assumes "decode_funding H hx u = Inr d"
  shows "\<exists>h ts. decode_output_script H hx (utxo_script_pubkey u) \<in>
    {Inr (OutPubKeyHash h), Inr (OutReserveOutput (DestPubKeyHash h) ts)}"
proof -
  from assms obtain k where k: "decode_output_script H hx (utxo_script_pubkey u) = Inr k"
    by (auto simp: decode_funding_def rbind_Inr_iff)
  with assms show ?thesis
    by (cases k) (auto simp: decode_funding_def rbind_Inr_iff reject_unspendable_reserve_def
        split: destination.splits)
qed

text \<open>
  C14: a token transfer conserves every currency.  Its inputs are among the outputs it was
  given, each entry used at most once, and each is a pay-to-key-hash output or a reserve output
  to a key hash that the decoder takes for funding; an output held by an identity, or of any
  other kind, is never one.  The plan knows no key, so whether the one that signs unlocks them
  is not part of it.  Its outputs are one per recipient, in order, of the exact currency and
  amount to the exact destination, then the token change, then at most one native change output.
  Every currency the inputs hold is either paid or returned to the change address, none twice,
  and the satoshis of the inputs are the native change plus the declared fee.
\<close>

theorem token_plan_conserves:
  assumes "plan_token_send H hx p = Inr pl"
  shows "\<exists>paid change returned native. tp_outputs pl = paid @ returned @ native \<and>
     list_all2 pays_token (ts_recipients p) paid \<and>
     list_all2 (returns_token (ts_change_address p)) change returned \<and> distinct (map fst change) \<and>
     (\<forall>c. supplied (tp_selected pl) c = demanded (ts_recipients p) c + token_total c change) \<and>
     native_total (tp_selected pl) = unat (tp_change pl) + unat (tp_fee pl) \<and>
     (if tp_change pl = 0 then native = []
      else 546 < unat (tp_change pl) \<and> native = [\<lparr>out_value = tp_change pl, out_script_pubkey =
        [0x76, 0xa9, 0x14] @ addr_hash (ts_change_address p) @ [0x88, 0xac]\<rparr>]) \<and>
     mset (map du_utxo (tp_selected pl)) \<subseteq># mset (ts_utxos p) \<and>
     list_all (\<lambda>d. decode_funding H hx (du_utxo d) = Inr d \<and>
       (\<exists>h ts. decode_output_script H hx (utxo_script_pubkey (du_utxo d)) \<in>
          {Inr (OutPubKeyHash h), Inr (OutReserveOutput (DestPubKeyHash h) ts)})) (tp_selected pl)"
proof -
  from assms obtain decoded bs fee paid change returned native where
    dec: "rmap (decode_funding H hx) (ts_utxos p) = Inr decoded"
    and sel: "select_token_inputs p decoded = Inr (tp_selected pl, bs, fee)"
    and kind: "addr_kind (ts_change_address p) = PubKeyHash"
    and nat: "unat (tp_change pl) + unat (tp_fee pl) = native_total (tp_selected pl)"
      "tp_change pl = 0 \<or> DUST_THRESHOLD < tp_change pl"
    and paid: "rmap recipient_token_output (ts_recipients p) = Inr paid" and ch: "bal_change bs = Inr change"
    and ret: "rmap (token_change_output (addr_hash (ts_change_address p))) change = Inr returned"
    and native: "native_change_output (ts_change_address p) (tp_change pl) = Inr native"
    and outs: "tp_outputs pl = paid @ returned @ native"
    by (rule plan_token_send_Inr)
  note s = select_token_inputs_Inr [OF sel]
  note c = bal_change_Inr [OF ch s(3)]
  note d = decode_fundings [OF dec]
  have "mset (map du_utxo (tp_selected pl)) \<subseteq># mset (map du_utxo decoded)"
    using s(1) by (simp add: image_mset_subseteq_mono)
  moreover have "list_all (\<lambda>d. decode_funding H hx (du_utxo d) = Inr d \<and>
       (\<exists>h ts. decode_output_script H hx (utxo_script_pubkey (du_utxo d)) \<in>
          {Inr (OutPubKeyHash h), Inr (OutReserveOutput (DestPubKeyHash h) ts)})) (tp_selected pl)"
    unfolding list_all_iff
  proof (intro ballI conjI)
    fix d
    assume "d \<in> set (tp_selected pl)"
    then show "decode_funding H hx (du_utxo d) = Inr d" using d set_mset_mono [OF s(1)] by (auto simp: list_all_iff)
    then show "\<exists>h ts. decode_output_script H hx (utxo_script_pubkey (du_utxo d)) \<in>
        {Inr (OutPubKeyHash h), Inr (OutReserveOutput (DestPubKeyHash h) ts)}" by (rule funding_kinds)
  qed
  moreover have "supplied (tp_selected pl) e = demanded (ts_recipients p) e + token_total e change" for e
    using s(4,5) [of e] c(1) [of e] by linarith
  moreover have "if tp_change pl = 0 then native = []
      else 546 < unat (tp_change pl) \<and> native = [\<lparr>out_value = tp_change pl, out_script_pubkey =
        [0x76, 0xa9, 0x14] @ addr_hash (ts_change_address p) @ [0x88, 0xac]\<rparr>]"
    using native nat(2) kind
    by (auto simp: native_change_output_def rbind_Inr_iff map_err_Inr_iff p2pkh_script_pubkey_def
        DUST_THRESHOLD_def word_less_nat_alt word_gt_0)
  ultimately show ?thesis
    using outs nat(1) d c(2) recipient_outputs_pay_tokens [OF paid s(7)] change_outputs_return [OF ret c(3)]
    by (intro exI [of _ paid] exI [of _ change] exI [of _ returned] exI [of _ native]) simp
qed

section \<open>Read off the chain\<close>

text \<open>
  Every token the decoder reads off a script, whatever its kind: those of a reserve output, of an
  identity commitment and of a reserve deposit, and of a reserve transfer what it moves (a mint moves
  nothing) and the fees it holds.
\<close>

fun kind_tokens :: "output_kind \<Rightarrow> (currency_id \<times> u64) list" where
  "kind_tokens (OutReserveOutput _ ts) = ts"
| "kind_tokens (OutIdentityCommitment _ _ ts) = ts"
| "kind_tokens (OutReserveDeposit _ _ ts) = ts"
| "kind_tokens (OutReserveTransfer _ p) = (if is_mint p then [] else rp_tokens p) @
     [(rp_fee_currency p, rp_fees p), (rp_fee_currency p, gateway_fees p)]"
| "kind_tokens _ = []"

definition chain_tokens :: "hash_lib \<Rightarrow> hex_encode \<Rightarrow> bytes \<Rightarrow> (currency_id \<times> u64) list" where
  "chain_tokens H hx s = (case decode_output_script H hx s of Inr kind \<Rightarrow> kind_tokens kind | Inl _ \<Rightarrow> [])"

definition chain_total :: "hash_lib \<Rightarrow> hex_encode \<Rightarrow> bytes list \<Rightarrow> currency_id \<Rightarrow> nat" where
  "chain_total H hx ss c = (\<Sum>s \<leftarrow> ss. token_total c (chain_tokens H hx s))"

lemma kind_tokens_wf: "wf_kind k \<Longrightarrow> wf_tokens (kind_tokens k)"
  by (cases k) (auto simp: wf_payload_def wf_tokens_def)

lemma chain_total_simps [simp]:
  "chain_total H hx [] c = 0"
  "chain_total H hx (s # ss) c = token_total c (chain_tokens H hx s) + chain_total H hx ss c"
  "chain_total H hx (ss @ ts) c = chain_total H hx ss c + chain_total H hx ts c"
  by (simp_all add: chain_total_def)

lemma chain_total_zero:
  "(\<And>s. s \<in> set ss \<Longrightarrow> chain_tokens H hx s = []) \<Longrightarrow> chain_total H hx ss c = 0"
  by (induction ss) simp_all

lemma funding_tokens:
  assumes "decode_funding H hx u = Inr d"
  shows "du_tokens d = chain_tokens H hx (utxo_script_pubkey u)"
proof -
  from assms obtain k where k: "decode_output_script H hx (utxo_script_pubkey u) = Inr k"
    by (auto simp: decode_funding_def rbind_Inr_iff)
  with assms show ?thesis
    by (cases k) (auto simp: decode_funding_def chain_tokens_def rbind_Inr_iff)
qed

lemma p2pkh_tokens: "length h = 20 \<Longrightarrow> chain_tokens H hx ([0x76, 0xa9, 0x14] @ h @ [0x88, 0xac]) = []"
  using decode_p2pkh [of H hx "[0x76, 0xa9, 0x14] @ h @ [0x88, 0xac]" h] by (simp add: chain_tokens_def)

lemma funding_tokens_wf:
  assumes "decode_funding H hx u = Inr d" "length (utxo_script_pubkey u) < usize_bound"
  shows "wf_tokens (du_tokens d)"
proof -
  from assms(1) obtain k where k: "decode_output_script H hx (utxo_script_pubkey u) = Inr k"
    by (auto simp: decode_funding_def rbind_Inr_iff)
  have "wf_kind k"
    using decoded_wf [OF k assms(2)] .
  then show ?thesis
    unfolding funding_tokens [OF assms(1)] by (simp add: chain_tokens_def k kind_tokens_wf)
qed

lemma selected_supply:
  "list_all (\<lambda>d. decode_funding H hx (du_utxo d) = Inr d) ds \<Longrightarrow>
     chain_total H hx (map (utxo_script_pubkey \<circ> du_utxo) ds) c = supplied ds c"
  by (induction ds) (auto dest: funding_tokens)

definition wf_token_params :: "token_send_params \<Rightarrow> bool" where
  "wf_token_params p \<longleftrightarrow> wf_address (ts_change_address p) \<and>
     list_all (\<lambda>r. wf_address (tr_address r) \<and> wf_currency (tr_currency r)) (ts_recipients p) \<and>
     list_all (\<lambda>u. length (utxo_script_pubkey u) < usize_bound) (ts_utxos p)"

lemma destination_for_wf: "destination_for a = Inr d \<Longrightarrow> wf_address a \<Longrightarrow> wf_destination d"
  by (auto simp: destination_for_def wf_address_def split: address_kind.splits)

lemma paid_tokens:
  "list_all2 pays_token rs outs \<Longrightarrow>
     list_all (\<lambda>r. wf_address (tr_address r) \<and> wf_currency (tr_currency r)) rs \<Longrightarrow>
     chain_total H hx (map out_script_pubkey outs) c = demanded rs c"
proof (induction rule: list_all2_induct)
  case (Cons r rs out outs)
  then obtain d where "reserve_output_script_to d (tr_currency r) (to_sat (tr_amount r)) = Inr (out_script_pubkey out)"
    "wf_destination d" "wf_currency (tr_currency r)"
    by (auto simp: pays_token_def dest: destination_for_wf)
  then have "chain_tokens H hx (out_script_pubkey out) = [(tr_currency r, to_sat (tr_amount r))]"
    by (simp add: chain_tokens_def decode_reserve_output_script)
  with Cons show ?case by simp
qed simp

lemma returned_tokens:
  "list_all2 (returns_token a) ch outs \<Longrightarrow> wf_address a \<Longrightarrow> wf_tokens ch \<Longrightarrow>
     chain_total H hx (map out_script_pubkey outs) c = token_total c ch"
proof (induction rule: list_all2_induct)
  case (Cons x ch out outs)
  obtain e n where x: "x = (e, n)" by force
  with Cons have "decode_output_script H hx (out_script_pubkey out) =
      Inr (OutReserveOutput (DestPubKeyHash (addr_hash a)) [(e, n)])"
    by (intro decode_reserve_output_script) (simp_all add: returns_token_def wf_address_def)
  then have "chain_tokens H hx (out_script_pubkey out) = [(e, n)]" by (simp add: chain_tokens_def)
  with Cons x show ?case by simp
qed simp

lemma wf_tokens_keys: "wf_tokens ts \<longleftrightarrow> (\<forall>c \<in> fst ` set ts. wf_currency c)"
  by (auto simp: wf_tokens_def list_all_iff)

lemma token_change_wf:
  assumes "wf_token_params p" "rmap (decode_funding H hx) (ts_utxos p) = Inr decoded"
    and "select_token_inputs p decoded = Inr (selected, bs, fee)" "bal_change bs = Inr change"
  shows "wf_tokens change"
proof -
  note s = select_token_inputs_Inr [OF assms(3)]
  note d = decode_fundings [OF assms(2)]
  have "wf_tokens (du_tokens x)" if "x \<in> set selected" for x
  proof -
    have x: "x \<in> set decoded" using that set_mset_mono [OF s(1)] by auto
    then have "decode_funding H hx (du_utxo x) = Inr x" using d by (auto simp: list_all_iff)
    moreover have "du_utxo x \<in> set (ts_utxos p)" using x d by (metis imageI list.set_map)
    ultimately show ?thesis
      using assms(1) by (auto simp: wf_token_params_def list_all_iff intro: funding_tokens_wf)
  qed
  then have "\<forall>c \<in> currencies selected. wf_currency c" by (auto simp: currencies_def wf_tokens_keys)
  moreover have "\<forall>c \<in> tr_currency ` set (ts_recipients p). wf_currency c"
    using assms(1) by (auto simp: wf_token_params_def list_all_iff)
  ultimately show ?thesis
    using bal_change_Inr(4) [OF assms(4) s(3)] s(6) unfolding wf_tokens_keys by blast
qed

text \<open>
  C15: a token transfer burns nothing, as the chain reads it.  For every currency, decoding
  the scripts of the outputs gives in total exactly what decoding the scripts of the inputs
  gives.
\<close>

theorem token_send_burns_nothing:
  assumes "plan_token_send H hx p = Inr pl" "wf_token_params p"
  shows "chain_total H hx (map out_script_pubkey (tp_outputs pl)) c =
     chain_total H hx (map (utxo_script_pubkey \<circ> du_utxo) (tp_selected pl)) c"
proof -
  from assms obtain decoded bs fee paid change returned native where
    dec: "rmap (decode_funding H hx) (ts_utxos p) = Inr decoded"
    and sel: "select_token_inputs p decoded = Inr (tp_selected pl, bs, fee)"
    and paid: "rmap recipient_token_output (ts_recipients p) = Inr paid" and ch: "bal_change bs = Inr change"
    and ret: "rmap (token_change_output (addr_hash (ts_change_address p))) change = Inr returned"
    and native: "native_change_output (ts_change_address p) (tp_change pl) = Inr native"
    and outs: "tp_outputs pl = paid @ returned @ native" and kind: "addr_kind (ts_change_address p) = PubKeyHash"
    by - (rule plan_token_send_Inr)
  note s = select_token_inputs_Inr [OF sel]
  have "list_all (\<lambda>d. decode_funding H hx (du_utxo d) = Inr d) (tp_selected pl)"
    using decode_fundings [OF dec] set_mset_mono [OF s(1)] by (auto simp: list_all_iff)
  then have ins: "chain_total H hx (map (utxo_script_pubkey \<circ> du_utxo) (tp_selected pl)) c = supplied (tp_selected pl) c"
    by (rule selected_supply)
  have "list_all2 pays_token (ts_recipients p) paid" by (rule recipient_outputs_pay_tokens [OF paid s(7)])
  then have 1: "chain_total H hx (map out_script_pubkey paid) c = demanded (ts_recipients p) c"
    by (rule paid_tokens) (use assms(2) in \<open>simp add: wf_token_params_def\<close>)
  have "list_all2 (returns_token (ts_change_address p)) change returned"
    by (rule change_outputs_return [OF ret bal_change_Inr(3) [OF ch s(3)]])
  then have 2: "chain_total H hx (map out_script_pubkey returned) c = token_total c change"
    by (rule returned_tokens)
      (use assms(2) token_change_wf [OF assms(2) dec sel ch] in \<open>simp_all add: wf_token_params_def\<close>)
  have 3: "chain_total H hx (map out_script_pubkey native) c = 0"
    using native kind assms(2) p2pkh_tokens [of "addr_hash (ts_change_address p)" H hx]
    by (auto simp: native_change_output_def p2pkh_script_pubkey_def wf_token_params_def wf_address_def map_err_def
        split: if_splits)
  show ?thesis
    using s(4,5) [of c] bal_change_Inr(1) [OF ch s(3), of c] by (simp add: outs 1 2 3 ins)
qed

section \<open>The signed transaction\<close>

lemma with_script_sigs_facts:
  assumes "length sigs = length (tx_inputs t)"
  shows "strip_scripts (with_script_sigs t sigs) = strip_scripts t"
    "i < length sigs \<Longrightarrow> in_script_sig (tx_inputs (with_script_sigs t sigs) ! i) = sigs ! i"
proof -
  have "map (\<lambda>i. i\<lparr>in_script_sig := []\<rparr>) (map2 (\<lambda>i s. i\<lparr>in_script_sig := s\<rparr>) is sigs) =
      map (\<lambda>i. i\<lparr>in_script_sig := []\<rparr>) is" if "length sigs = length is" for "is" :: "tx_in list"
    using that by (intro nth_equalityI) simp_all
  with assms show "strip_scripts (with_script_sigs t sigs) = strip_scripts t"
    by (simp add: strip_scripts_def with_script_sigs_def)
  show "i < length sigs \<Longrightarrow> in_script_sig (tx_inputs (with_script_sigs t sigs) ! i) = sigs ! i"
    using assms by (simp add: with_script_sigs_def nth_append)
qed

lemma token_script_sig_unlocks:
  assumes "ec_lib_ok (env_ec E)" "token_script_sig E key t (i, d) = Inr s"
  shows "\<exists>h. sighash_of E t i (du_utxo d) = Inr h \<and> unlocks E key [key] (du_is_cryptocondition d) h s"
proof -
  from assms(2) obtain h where h: "sighash_of E t i (du_utxo d) = Inr h"
    by (auto simp: token_script_sig_def rbind_Inr_iff Let_def)
  have "unlocks E key [key] (du_is_cryptocondition d) h s"
  proof (cases "du_is_cryptocondition d")
    case True
    with assms(2) h obtain compact where c: "sign_prehash_compact (env_ec E) key h = Inr compact"
      "fulfillment_script_sig [(public_to_bytes (env_ec E) (private_public_key (env_ec E) key), compact)] 1 = Inr s"
      by (auto simp: token_script_sig_def rbind_Inr_iff map_err_Inr_iff)
    have "fulfillment_unlocks E [key] h s"
      by (rule fulfillment_unlocks_run [OF assms(1)])
        (use c in \<open>simp_all add: leading_signature_def SIGHASH_ALL_def\<close>)
    with True show ?thesis by (simp add: unlocks_def)
  next
    case False
    with assms(2) h show ?thesis
      using p2pkh_script_sig_unlocks [OF assms(1)] by (auto simp: token_script_sig_def unlocks_def)
  qed
  with h show ?thesis by blast
qed

text \<open>
  What a token send ships.  The hex is that of the planned transaction, the requested
  expiry and no lock time, in which every token input carries a fulfillment and every
  other input a P2PKH script, each with a signature of the key that verifies on the final
  transaction; the id is the hash of those bytes, fee, change and outpoints are the plan's, and
  the bytes parse back.
\<close>

theorem token_send_ships:
  fixes E :: "('sk, 'vk, 'sg) env"
  assumes "ec_lib_ok (env_ec E)" "build_token_send E key p = Inr st"
    and "list_all (wf_txid \<circ> utxo_txid) (ts_utxos p)"
  shows "\<exists>pl t raw. plan_token_send (env_hash E) (env_hex E) p = Inr pl \<and> serialize t = Inr raw \<and>
     strip_scripts t = unsigned_tx (map du_utxo (tp_selected pl)) (tp_outputs pl) 0 (to_height (ts_expiry p)) \<and>
     (\<forall>i < length (tp_selected pl). \<exists>h. sighash_of E t i (du_utxo (tp_selected pl ! i)) = Inr h \<and>
        unlocks E key [key] (du_is_cryptocondition (tp_selected pl ! i)) h (in_script_sig (tx_inputs t ! i))) \<and>
     st = \<lparr>st_hex = env_hex E raw, st_txid = txid_display (sha256d (hl_sha256 (env_hash E)) raw),
       st_fee = from_sat (tp_fee pl), st_change = from_sat (tp_change pl),
       st_inputs_used = map outpoint (map du_utxo (tp_selected pl))\<rparr> \<and>
     (length raw < usize_bound \<longrightarrow> deserialize raw = Inr t)"
proof -
  from assms(2) obtain pl sigs where pl: "plan_token_send (env_hash E) (env_hex E) p = Inr pl"
    and sigs: "rmap (token_script_sig E key (unsigned_tx (map du_utxo (tp_selected pl)) (tp_outputs pl) 0
        (to_height (ts_expiry p)))) (enumerate 0 (tp_selected pl)) = Inr sigs"
    and st: "signed_transaction_of E (with_script_sigs (unsigned_tx (map du_utxo (tp_selected pl)) (tp_outputs pl) 0
        (to_height (ts_expiry p))) sigs) (from_sat (tp_fee pl)) (from_sat (tp_change pl))
        (map du_utxo (tp_selected pl)) = Inr st"
    by (auto simp: build_token_send_def rbind_Inr_iff Let_def)
  let ?unsigned = "unsigned_tx (map du_utxo (tp_selected pl)) (tp_outputs pl) 0 (to_height (ts_expiry p))"
  let ?t = "with_script_sigs ?unsigned sigs"
  have all: "list_all2 (\<lambda>x s. token_script_sig E key ?unsigned x = Inr s) (enumerate 0 (tp_selected pl)) sigs"
    using sigs by (simp add: rmap_Inr_iff)
  then have len: "length sigs = length (tx_inputs ?unsigned)" by (simp add: list_all2_lengthD [symmetric])
  have strip: "strip_scripts ?t = ?unsigned" by (simp add: with_script_sigs_facts(1) [OF len])
  have scripts: "\<exists>h. sighash_of E ?t i (du_utxo (tp_selected pl ! i)) = Inr h \<and>
        unlocks E key [key] (du_is_cryptocondition (tp_selected pl ! i)) h (in_script_sig (tx_inputs ?t ! i))"
    if "i < length (tp_selected pl)" for i
  proof -
    have "token_script_sig E key ?unsigned (i, tp_selected pl ! i) = Inr (sigs ! i)"
      using list_all2_nthD [OF all, of i] that by (simp add: nth_enumerate_eq)
    from token_script_sig_unlocks [OF assms(1) this] obtain h where
      "sighash_of E ?unsigned i (du_utxo (tp_selected pl ! i)) = Inr h"
      "unlocks E key [key] (du_is_cryptocondition (tp_selected pl ! i)) h (sigs ! i)" by blast
    moreover have "sighash_of E ?t i (du_utxo (tp_selected pl ! i)) =
        sighash_of E ?unsigned i (du_utxo (tp_selected pl ! i))"
      by (rule sighash_of_strip) (simp add: strip)
    moreover have "i < length sigs" using len that by simp
    ultimately show ?thesis using with_script_sigs_facts(2) [OF len] by simp
  qed
  have "set (map du_utxo (tp_selected pl)) \<subseteq> set (ts_utxos p)"
  proof -
    obtain decoded bs fee where "rmap (decode_funding (env_hash E) (env_hex E)) (ts_utxos p) = Inr decoded"
      "select_token_inputs p decoded = Inr (tp_selected pl, bs, fee)"
      using pl by (rule plan_token_send_Inr)
    then have "map du_utxo decoded = ts_utxos p" "set (tp_selected pl) \<subseteq> set decoded"
      using decode_fundings set_mset_mono [OF select_token_inputs_Inr(1)] by force+
    then show ?thesis by (metis image_mono set_map)
  qed
  then have "list_all (wf_txid \<circ> utxo_txid) (map du_utxo (tp_selected pl))"
    using assms(3) by (auto simp: list_all_iff)
  with pl st scripts strip unsigned_tx_reads_back [OF strip] show ?thesis
    unfolding signed_transaction_of_Inr by blast
qed

section \<open>A sample\<close>

text \<open>Two token outputs of 500 units each and a native one, paying 800 units.\<close>

definition sample_token_script :: bytes where
  "sample_token_script =
     (case reserve_output_script_to (DestPubKeyHash (replicate 20 7)) (sample_currency 1) 500 of
        Inr s \<Rightarrow> s | Inl _ \<Rightarrow> [])"

definition sample_token_coin :: "u32 \<Rightarrow> utxo" where
  "sample_token_coin v = \<lparr>utxo_txid = Txid (replicate 32 0), utxo_vout = v, utxo_satoshis = Amount 0,
     utxo_script_pubkey = sample_token_script\<rparr>"

definition sample_token_params :: "u32 \<Rightarrow> u32 \<Rightarrow> token_send_params" where
  "sample_token_params v w = token_send_params_new [sample_token_coin v, sample_token_coin w, sample_coin]
     [\<lparr>tr_address = sample_address, tr_currency = sample_currency 1, tr_amount = Amount 800\<rparr>] sample_address Never"

definition decoded_token_coin :: "u32 \<Rightarrow> decoded_utxo" where
  "decoded_token_coin v = \<lparr>du_utxo = sample_token_coin v, du_tokens = [(sample_currency 1, 500)],
     du_is_cryptocondition = True\<rparr>"

definition decoded_coin :: decoded_utxo where
  "decoded_coin = \<lparr>du_utxo = sample_coin, du_tokens = [], du_is_cryptocondition = False\<rparr>"

lemma sample_token_decoded:
  "decode_funding H hx (sample_token_coin v) = Inr (decoded_token_coin v)"
  "decode_funding H hx sample_coin = Inr decoded_coin"
proof -
  obtain s where s: "reserve_output_script_to (DestPubKeyHash (replicate 20 7)) (sample_currency 1) 500 = Inr s"
    by (rule reserve_output_script_total [of "DestPubKeyHash (replicate 20 7)" "sample_currency 1"])
      (simp_all add: wf_currency_def sample_currency_def)
  have "decode_output_script H hx sample_token_script =
      Inr (OutReserveOutput (DestPubKeyHash (replicate 20 7)) [(sample_currency 1, 500)])"
    unfolding sample_token_script_def s sum.case
    by (rule decode_reserve_output_script [OF _ _ s]) (simp_all add: wf_currency_def sample_currency_def)
  then show "decode_funding H hx (sample_token_coin v) = Inr (decoded_token_coin v)"
    by (simp add: decode_funding_def decoded_token_coin_def sample_token_coin_def reject_unspendable_reserve_def)
  have "decode_output_script H hx (utxo_script_pubkey sample_coin) = Inr (OutPubKeyHash (replicate 20 7))"
    unfolding decode_p2pkh by (simp add: sample_coin_def)
  then show "decode_funding H hx sample_coin = Inr decoded_coin"
    by (simp add: decode_funding_def decoded_coin_def)
qed

lemma sample_token_selected:
  "select_token_inputs (sample_token_params v w) [decoded_token_coin v, decoded_token_coin w, decoded_coin] =
     Inr ([decoded_token_coin v, decoded_token_coin w, decoded_coin], [(sample_currency 1, -200)], 12000)"
  by (simp add: select_token_inputs_def sample_token_params_def token_send_params_new_def destination_for_def
      sample_address_def refuse_if_def amount_is_zero_def amount_zero_def from_sat_def add_required_def useful_def
      still_needed_def decoded_token_coin_def bal_supply_def bal_sub_def sats_of_def sample_token_coin_def
      decoded_coin_def shortfalls_def total_outputs_def checked_add_def bal_change_def estimate_fee_value
      fee_estimate_def size_estimate_def DEFAULT_FEE_PER_KB_def by_native_value_def cover_fee.simps
      sample_coin_def)

lemma sample_token_planned:
  "\<exists>pl. plan_token_send H hx (sample_token_params v w) = Inr pl \<and>
     tp_selected pl = [decoded_token_coin v, decoded_token_coin w, decoded_coin]"
proof -
  have fund: "rmap (decode_funding H hx) (ts_utxos (sample_token_params v w)) =
      Inr [decoded_token_coin v, decoded_token_coin w, decoded_coin]"
    by (simp add: sample_token_params_def token_send_params_new_def sample_token_decoded)
  have wf: "wf_destination (DestPubKeyHash (replicate 20 7))" "wf_currency (sample_currency 1)"
    by (simp_all add: wf_currency_def sample_currency_def)
  obtain s1 s2 where s: "reserve_output_script_to (DestPubKeyHash (replicate 20 7)) (sample_currency 1) 800 = Inr s1"
    "reserve_output_script_to (DestPubKeyHash (replicate 20 7)) (sample_currency 1) 200 = Inr s2"
    using reserve_output_script_total [OF wf] by metis
  have "token_outputs (sample_token_params v w) [(sample_currency 1, -200)] 488000 =
      Inr [\<lparr>out_value = 0, out_script_pubkey = s1\<rparr>, \<lparr>out_value = 0, out_script_pubkey = s2\<rparr>,
        \<lparr>out_value = 488000, out_script_pubkey = [0x76, 0xa9, 0x14] @ replicate 20 7 @ [0x88, 0xac]\<rparr>]"
    using s
    by (simp add: token_outputs_def sample_token_params_def token_send_params_new_def recipient_token_output_def
        destination_for_def sample_address_def bal_change_def token_change_output_def reserve_output_script_def
        native_change_output_def p2pkh_script_pubkey_def)
  then show ?thesis
    by (simp add: plan_token_send_def fund sample_token_selected)
      (simp add: sample_token_params_def token_send_params_new_def sample_address_def refuse_if_def
        amount_checked_sum_def amount_checked_add_def amount_zero_def from_sat_def checked_add_def checked_sub_def
        decoded_token_coin_def decoded_coin_def sample_token_coin_def sample_coin_def DUST_THRESHOLD_def
        check_conserved_def)
qed

lemma token_plan_conserves_witness:
  "\<exists>pl change. plan_token_send toy_hash_lib hex_string (sample_token_params 1 2) = Inr pl \<and>
     supplied (tp_selected pl) (sample_currency 1) = 1000 \<and> token_total (sample_currency 1) change = 200 \<and>
     sum_list (map (unat \<circ> out_value) (tp_outputs pl)) + unat (tp_fee pl) = 500000"
proof -
  obtain pl where pl: "plan_token_send toy_hash_lib hex_string (sample_token_params 1 2) = Inr pl"
    "tp_selected pl = [decoded_token_coin 1, decoded_token_coin 2, decoded_coin]"
    using sample_token_planned by blast
  have sup: "supplied (tp_selected pl) (sample_currency 1) = 1000" "native_total (tp_selected pl) = 500000"
    by (simp_all add: pl(2) decoded_token_coin_def decoded_coin_def sats_of_def sample_token_coin_def sample_coin_def)
  have dem: "demanded (ts_recipients (sample_token_params 1 2)) (sample_currency 1) = 800"
    by (simp add: sample_token_params_def token_send_params_new_def)
  from token_plan_conserves [OF pl(1)] obtain paid change returned native where
    outs: "tp_outputs pl = paid @ returned @ native"
    and paid: "list_all2 pays_token (ts_recipients (sample_token_params 1 2)) paid"
      "list_all2 (returns_token (ts_change_address (sample_token_params 1 2))) change returned"
    and tokens: "supplied (tp_selected pl) (sample_currency 1) =
      demanded (ts_recipients (sample_token_params 1 2)) (sample_currency 1) + token_total (sample_currency 1) change"
    and sats: "native_total (tp_selected pl) = unat (tp_change pl) + unat (tp_fee pl)"
    and native: "native = (if tp_change pl = 0 then [] else [\<lparr>out_value = tp_change pl, out_script_pubkey =
        [0x76, 0xa9, 0x14] @ addr_hash (ts_change_address (sample_token_params 1 2)) @ [0x88, 0xac]\<rparr>])"
    by (auto split: if_splits)
  have "total_value (tp_outputs pl) = unat (tp_change pl)"
    using valueless_tokens(1) [OF paid(1)] valueless_tokens(2) [OF paid(2)] by (simp add: outs native)
  then have "sum_list (map (unat \<circ> out_value) (tp_outputs pl)) + unat (tp_fee pl) = 500000"
    using sats sup(2) by (simp add: total_value_def comp_def)
  moreover have "token_total (sample_currency 1) change = 200" using tokens sup(1) dem by simp
  ultimately show ?thesis using pl(1) sup(1) by blast
qed

lemma sample_token_params_wf: "wf_token_params (sample_token_params v w)"
proof -
  obtain s where s: "reserve_output_script_to (DestPubKeyHash (replicate 20 7)) (sample_currency 1) 500 = Inr s"
    by (rule reserve_output_script_total [of "DestPubKeyHash (replicate 20 7)" "sample_currency 1"])
      (simp_all add: wf_currency_def sample_currency_def)
  then have "length s < usize_bound"
    unfolding reserve_output_script_to_def by (rule cc_script_length)
  with s show ?thesis
    by (simp add: wf_token_params_def sample_token_params_def token_send_params_new_def wf_address_def
        sample_address_def wf_currency_def sample_currency_def sample_token_coin_def sample_token_script_def
        sample_coin_def)
qed

lemma token_send_burns_nothing_witness:
  "\<exists>pl. plan_token_send toy_hash_lib hex_string (sample_token_params 1 2) = Inr pl \<and>
     chain_total toy_hash_lib hex_string (map out_script_pubkey (tp_outputs pl)) (sample_currency 1) = 1000"
proof -
  obtain pl where pl: "plan_token_send toy_hash_lib hex_string (sample_token_params 1 2) = Inr pl"
    "tp_selected pl = [decoded_token_coin 1, decoded_token_coin 2, decoded_coin]"
    using sample_token_planned by blast
  have "list_all (\<lambda>d. decode_funding toy_hash_lib hex_string (du_utxo d) = Inr d) (tp_selected pl)"
    by (simp add: pl(2) decoded_token_coin_def decoded_coin_def sample_token_decoded [unfolded decoded_token_coin_def decoded_coin_def])
  from selected_supply [OF this, of "sample_currency 1"]
  show ?thesis
    using token_send_burns_nothing [OF pl(1) sample_token_params_wf, of "sample_currency 1"] pl(1)
    by (auto simp: pl(2) decoded_token_coin_def decoded_coin_def)
qed

lemma sample_token_signed: "\<exists>st. build_token_send sample_env sample_key (sample_token_params v w) = Inr st"
proof -
  obtain pl where pl: "plan_token_send (env_hash sample_env) (env_hex sample_env) (sample_token_params v w) = Inr pl"
    using sample_token_planned by blast
  let ?t = "unsigned_tx (map du_utxo (tp_selected pl)) (tp_outputs pl) 0 (to_height (ts_expiry (sample_token_params v w)))"
  have key: "length (Rep_key32 k) = 32" "length (Rep_sig64 g) = 64" for k g
    using Rep_key32 [of k] Rep_sig64 [of g] by simp_all
  have "\<exists>s. token_script_sig sample_env sample_key ?t x = Inr s" if "x \<in> set (enumerate 0 (tp_selected pl))" for x
  proof -
    have "fst x < length (tx_inputs ?t)" using that by (auto simp: in_set_enumerate_eq)
    then obtain h where h: "sighash_of sample_env ?t (fst x) (du_utxo (snd x)) = Inr h"
      using sighash_of_total by blast
    have "\<exists>s. sign_prehash_compact (env_ec sample_env) sample_key h = Inr s \<and> length s = 64"
      by (simp add: sign_prehash_compact_def sign_prehash_def sample_env_def toy_ec_lib_def key)
    then obtain c where c: "sign_prehash_compact (env_ec sample_env) sample_key h = Inr c" "length c = 64" by blast
    then have "\<exists>s. fulfillment_script_sig [(public_to_bytes (env_ec sample_env)
        (private_public_key (env_ec sample_env) sample_key), c)] 1 = Inr s"
      by (simp add: fulfillment_Inr)
        (simp add: sample_env_def toy_ec_lib_def public_to_bytes_def private_public_key_def signature_entry_def key)
    then show ?thesis
      using p2pkh_script_sig_total [OF sample_signs_all, of sample_key h] c(1)
      by (auto simp: token_script_sig_def h Let_def)
  qed
  then obtain sigs where sigs: "rmap (token_script_sig sample_env sample_key ?t) (enumerate 0 (tp_selected pl)) = Inr sigs"
    using rmap_total by blast
  have "length sigs = length (tx_inputs ?t)"
    using sigs by (auto simp: rmap_Inr_iff dest: list_all2_lengthD)
  then have "transparent_only (with_script_sigs ?t sigs)"
    using transparent_only_strip [OF with_script_sigs_facts(1)] by simp
  from signed_transaction_of_total [OF this] sigs pl show ?thesis
    by (auto simp: build_token_send_def Let_def)
qed

lemma token_send_ships_witness:
  "\<exists>st pl t h. build_token_send sample_env sample_key (sample_token_params 1 2) = Inr st \<and>
     plan_token_send (env_hash sample_env) (env_hex sample_env) (sample_token_params 1 2) = Inr pl \<and>
     sighash_of sample_env t 0 (sample_token_coin 1) = Inr h \<and>
     fulfillment_unlocks sample_env [sample_key] h (in_script_sig (tx_inputs t ! 0))"
proof -
  obtain st where st: "build_token_send sample_env sample_key (sample_token_params 1 2) = Inr st"
    using sample_token_signed by blast
  have ids: "list_all (wf_txid \<circ> utxo_txid) (ts_utxos (sample_token_params 1 2))"
    by (simp add: sample_token_params_def token_send_params_new_def sample_token_coin_def sample_coin_def wf_txid_def)
  from token_send_ships [OF sample_env_ok st ids] obtain pl t where
    pl: "plan_token_send (env_hash sample_env) (env_hex sample_env) (sample_token_params 1 2) = Inr pl"
    and un: "\<forall>i < length (tp_selected pl). \<exists>h. sighash_of sample_env t i (du_utxo (tp_selected pl ! i)) = Inr h \<and>
        unlocks sample_env sample_key [sample_key] (du_is_cryptocondition (tp_selected pl ! i)) h
          (in_script_sig (tx_inputs t ! i))"
    by blast
  from sample_token_planned [of "env_hash sample_env" "env_hex sample_env" 1 2] pl
  have sel: "tp_selected pl = [decoded_token_coin 1, decoded_token_coin 2, decoded_coin]" by auto
  from un have "\<exists>h. sighash_of sample_env t 0 (du_utxo (tp_selected pl ! 0)) = Inr h \<and>
        unlocks sample_env sample_key [sample_key] (du_is_cryptocondition (tp_selected pl ! 0)) h
          (in_script_sig (tx_inputs t ! 0))"
    by (rule allE [of _ 0]) (simp add: sel)
  then show ?thesis using st pl by (auto simp: sel decoded_token_coin_def unlocks_def)
qed

text \<open>The same outpoint offered twice is spent twice, in a transaction no node accepts.\<close>

lemma repeated_outpoint_planned:
  "\<exists>pl. plan_token_send H hx (sample_token_params 1 1) = Inr pl \<and>
     map (outpoint \<circ> du_utxo) (tp_selected pl) = [outpoint (sample_token_coin 1), outpoint (sample_token_coin 1), outpoint sample_coin]"
  using sample_token_planned [of H hx 1 1] by (auto simp: decoded_token_coin_def decoded_coin_def)

end
