(* ===== verification/Conversion.thy ===== *)
theory Conversion
  imports Token
begin

text \<open>
  The conversion transaction (\<open>ConversionParams\<close> and \<open>build_conversion_transaction\<close> of
  \<open>verus-tx-protocol/src/convert.rs\<close>): the transfer output, the token change, the identity
  a mint or a conversion is funded from, and the plan handed to \<open>assemble\<close>.
\<close>

section \<open>Parameters\<close>

record conversion_params =
  cp_transfer :: reserve_transfer
  cp_utxos :: "utxo list"
  cp_token_funding :: "utxo list"
  cp_identity_funding :: "utxo list"
  cp_chain_currency :: currency_id
  cp_change_address :: address
  cp_expiry :: expiry
  cp_fee_per_kb :: u64

definition conversion_params_new ::
  "reserve_transfer \<Rightarrow> utxo list \<Rightarrow> currency_id \<Rightarrow> address \<Rightarrow> expiry \<Rightarrow> conversion_params" where
  "conversion_params_new transfer utxos chain_currency change_address expiry =
     \<lparr>cp_transfer = transfer, cp_utxos = utxos, cp_token_funding = [], cp_identity_funding = [],
      cp_chain_currency = chain_currency, cp_change_address = change_address, cp_expiry = expiry,
      cp_fee_per_kb = DEFAULT_FEE_PER_KB\<rparr>"

definition source_is_native :: "conversion_params \<Rightarrow> bool" where
  "source_is_native p \<longleftrightarrow> rt_source (cp_transfer p) = cp_chain_currency p"

definition is_mint_params :: "conversion_params \<Rightarrow> bool" where
  "is_mint_params p \<longleftrightarrow> is_mint_kind (rt_kind (cp_transfer p))"

section \<open>Funding out of an identity\<close>

definition check_mint_shape :: "conversion_params \<Rightarrow> tx_error + unit" where
  "check_mint_shape p =
     rbind (refuse_if (is_mint_params p \<and> \<not> source_is_native p)
       (InvalidConversion ''a mint's transfer names the chain's own currency as its source'')) (\<lambda>_.
     rbind (refuse_if (is_mint_params p \<and> cp_identity_funding p = [])
       (InvalidConversion (''a mint must spend an output held by the currency's controlling identity; '' @
          ''fund it with identity_funding, not plain coins''))) (\<lambda>_.
     refuse_if (is_mint_params p \<and> cp_utxos p \<noteq> [])
       (InvalidConversion ''a mint is funded by the identity alone; do not supply P2PKH utxos'')))"

definition funding_name :: "utxo \<Rightarrow> str" where
  "funding_name u =
     ''identity funding '' @ to_display_hex (utxo_txid u) @ '':'' @ dec_string (unat (utxo_vout u))"

definition check_mint_funding :: "bytes \<Rightarrow> utxo \<Rightarrow> tx_error + unit" where
  "check_mint_funding identity_script u =
     refuse_if (utxo_script_pubkey u \<noteq> identity_script)
       (InvalidConversion (funding_name u @
          '' does not pay the controlling identity of the currency being minted''))"

definition identity_input :: "hash_lib \<Rightarrow> hex_encode \<Rightarrow> utxo \<Rightarrow> tx_error + bytes" where
  "identity_input H hx u =
     rbind (decode_output_script H hx (utxo_script_pubkey u)) (\<lambda>kind.
     case kind of
       OutReserveOutput destination _ \<Rightarrow>
         (case destination of
            DestIdentity holder \<Rightarrow> Inr holder
          | _ \<Rightarrow> Inl (InvalidConversion (funding_name u @ '' does not pay an identity'')))
     | _ \<Rightarrow> Inl (InvalidConversion (funding_name u @ '' is not a reserve output'')))"

fun same_holder :: "hash_lib \<Rightarrow> hex_encode \<Rightarrow> bytes option \<Rightarrow> utxo list \<Rightarrow> tx_error + bytes option" where
  "same_holder H hx holder [] = Inr holder"
| "same_holder H hx holder (u # us) =
     rbind (identity_input H hx u) (\<lambda>here.
     case holder of
       None \<Rightarrow> same_holder H hx (Some here) us
     | Some first \<Rightarrow>
         if first = here then same_holder H hx holder us
         else Inl (InvalidConversion ''every identity_funding input must belong to the same identity''))"

definition token_source_identity :: "hash_lib \<Rightarrow> hex_encode \<Rightarrow> conversion_params \<Rightarrow> tx_error + bytes option" where
  "token_source_identity H hx p =
     (if cp_identity_funding p = [] then Inr None
      else case rt_kind (cp_transfer p) of
          Mint currency \<Rightarrow>
            rbind (identity_payment_script (currency_to_bytes currency)) (\<lambda>script.
            rbind (rmap (check_mint_funding script) (cp_identity_funding p)) (\<lambda>_. Inr None))
        | _ \<Rightarrow>
            if source_is_native p then
              Inl (InvalidConversion (''a native conversion is funded from plain coins; identity_funding '' @
                ''carries the token a conversion spends''))
            else if cp_token_funding p \<noteq> [] then
              Inl (InvalidConversion (''a conversion funded from an identity puts its token inputs in '' @
                ''identity_funding; do not also supply token_funding''))
            else same_holder H hx None (cp_identity_funding p))"

section \<open>Token inputs and change\<close>

definition token_input ::
  "hash_lib \<Rightarrow> hex_encode \<Rightarrow> currency_id \<Rightarrow> bool \<Rightarrow> utxo \<Rightarrow> tx_error + u64" where
  "token_input H hx source from_identity u =
     rbind (decode_output_script H hx (utxo_script_pubkey u)) (\<lambda>kind.
     case kind of
       OutReserveOutput destination tokens \<Rightarrow>
         rbind (if from_identity then Inr () else reject_unspendable_reserve hx u destination) (\<lambda>_.
         case tokens of
           [(currency, amount)] \<Rightarrow>
             if currency \<noteq> source
             then Inl (InvalidConversion ''a token input does not carry exactly the currency being converted'')
             else Inr amount
         | _ \<Rightarrow> Inl (InvalidConversion ''a token input does not carry exactly the currency being converted''))
     | _ \<Rightarrow> Inl (InvalidConversion ''a token input is not a reserve output''))"

fun held_by ::
  "hash_lib \<Rightarrow> hex_encode \<Rightarrow> currency_id \<Rightarrow> bool \<Rightarrow> u64 \<Rightarrow> utxo list \<Rightarrow> tx_error + u64" where
  "held_by H hx source from_identity held [] = Inr held"
| "held_by H hx source from_identity held (u # us) =
     rbind (token_input H hx source from_identity u) (\<lambda>amount.
     rbind (ok_or (checked_add held amount) ValueOverflow) (\<lambda>held.
     held_by H hx source from_identity held us))"

definition token_inputs :: "conversion_params \<Rightarrow> bytes option \<Rightarrow> utxo list" where
  "token_inputs p holder = (if holder \<noteq> None then cp_identity_funding p else cp_token_funding p)"

definition saturating_sub :: "u64 \<Rightarrow> u64 \<Rightarrow> u64" where
  "saturating_sub a b = (if b \<le> a then a - b else 0)"

definition conversion_change ::
  "hash_lib \<Rightarrow> hex_encode \<Rightarrow> conversion_params \<Rightarrow> bytes option \<Rightarrow> tx_error + tx_out list" where
  "conversion_change H hx p holder =
     (let transfer = cp_transfer p; source = rt_source transfer; needed = to_sat (rt_amount transfer) in
      if source_is_native p then
        rbind (refuse_if (cp_token_funding p \<noteq> [])
          (InvalidConversion ''a native conversion needs no token inputs'')) (\<lambda>_. Inr [])
      else
        rbind (held_by H hx source (holder \<noteq> None) 0 (token_inputs p holder)) (\<lambda>held.
        rbind (ok_or (checked_sub held needed)
          (InsufficientTokens (hx (currency_to_bytes source)) (saturating_sub needed held))) (\<lambda>change.
        if 0 < change then
          rbind (reserve_output_script_to
              (case holder of Some h \<Rightarrow> DestIdentity h
               | None \<Rightarrow> DestPubKeyHash (addr_hash (cp_change_address p))) source change) (\<lambda>script.
          Inr [\<lparr>out_value = 0, out_script_pubkey = script\<rparr>])
        else Inr [])))"

section \<open>The plan\<close>

definition leading_inputs :: "conversion_params \<Rightarrow> bytes option \<Rightarrow> tx_error + utxo list \<times> bytes option" where
  "leading_inputs p holder = (case rt_kind (cp_transfer p) of
       Mint currency \<Rightarrow>
         rbind (identity_payment_script (currency_to_bytes currency)) (\<lambda>script.
         Inr (cp_identity_funding p, Some script))
     | _ \<Rightarrow> Inr (token_inputs p holder, None))"

definition conversion_assembly :: "hash_lib \<Rightarrow> hex_encode \<Rightarrow> conversion_params \<Rightarrow> tx_error + assembly" where
  "conversion_assembly H hx p =
     rbind (expiry_check (cp_expiry p)) (\<lambda>_.
     rbind (native_value (cp_transfer p) (cp_chain_currency p)) (\<lambda>native.
     rbind (to_script (cp_transfer p)) (\<lambda>script.
     rbind (check_mint_shape p) (\<lambda>_.
     rbind (token_source_identity H hx p) (\<lambda>holder.
     rbind (conversion_change H hx p holder) (\<lambda>change.
     let outputs = \<lparr>out_value = to_sat native, out_script_pubkey = script\<rparr> # change in
     rbind (leading_inputs p holder) (\<lambda>(leading, change_script).
     Inr \<lparr>as_leading = leading, as_funding = cp_utxos p, as_outputs = outputs, as_burn = amount_zero,
          as_fee_output_count = of_nat (length outputs) + 1, as_change_address = cp_change_address p,
          as_change_script = change_script, as_value_bearing_leading = is_mint_params p,
          as_expiry = cp_expiry p, as_fee_per_kb = cp_fee_per_kb p\<rparr>)))))))"

definition build_conversion_transaction ::
  "('sk, 'vk, 'sg) env \<Rightarrow> 'sk private_key \<Rightarrow> conversion_params \<Rightarrow> tx_error + signed_transaction" where
  "build_conversion_transaction E key p =
     rbind (conversion_assembly (env_hash E) (env_hex E) p) (assemble E key [key])"

section \<open>Token conservation\<close>

lemma token_input_Inr:
  assumes "token_input H hx source b u = Inr a"
  shows "chain_tokens H hx (utxo_script_pubkey u) = [(source, a)]"
proof -
  from assms obtain k where k: "decode_output_script H hx (utxo_script_pubkey u) = Inr k"
    by (auto simp: token_input_def rbind_Inr_iff)
  with assms show ?thesis
    by (cases k)
      (auto simp: token_input_def chain_tokens_def rbind_Inr_iff split: list.splits if_splits)
qed

lemma held_by_Inr:
  "held_by H hx source b held us = Inr held' \<Longrightarrow>
     unat held' = unat held + chain_total H hx (map utxo_script_pubkey us) source \<and>
     (\<forall>c. c \<noteq> source \<longrightarrow> chain_total H hx (map utxo_script_pubkey us) c = 0)"
proof (induction us arbitrary: held)
  case (Cons u us)
  then obtain a h where a: "token_input H hx source b u = Inr a" and h: "checked_add held a = Some h"
    and run: "held_by H hx source b h us = Inr held'"
    by (auto simp: rbind_Inr_iff ok_or_Inr_iff)
  from h have "unat h = unat held + unat a" by (simp only: checked_simps)
  with Cons.IH [OF run] token_input_Inr [OF a] show ?case by simp
qed simp

lemma identity_input_Inr:
  assumes "identity_input H hx u = Inr h"
  obtains ts where "decode_output_script H hx (utxo_script_pubkey u) = Inr (OutReserveOutput (DestIdentity h) ts)"
proof -
  from assms obtain k where "decode_output_script H hx (utxo_script_pubkey u) = Inr k"
    by (auto simp: identity_input_def rbind_Inr_iff)
  with assms that show thesis
    by (cases k) (auto simp: identity_input_def split: destination.splits)
qed

lemma same_holder_Inr:
  "same_holder H hx holder us = Inr holder' \<Longrightarrow>
     (\<forall>u \<in> set us. \<exists>ts h. decode_output_script H hx (utxo_script_pubkey u) = Inr (OutReserveOutput (DestIdentity h) ts) \<and>
        holder' = Some h) \<and> (holder \<noteq> None \<longrightarrow> holder' = holder)"
proof (induction us arbitrary: holder)
  case (Cons u us)
  from Cons.prems obtain h where h: "identity_input H hx u = Inr h" by (auto simp: rbind_Inr_iff)
  with Cons.prems have c: "holder = None \<or> holder = Some h" and run: "same_holder H hx (Some h) us = Inr holder'"
    by (auto split: option.splits if_splits)
  from h obtain ts where "decode_output_script H hx (utxo_script_pubkey u) = Inr (OutReserveOutput (DestIdentity h) ts)"
    by (rule identity_input_Inr)
  with Cons.IH [OF run] c show ?case by auto
qed simp

lemma same_holder_Some: "same_holder H hx None us = Inr holder \<Longrightarrow> us \<noteq> [] \<Longrightarrow> holder \<noteq> None"
  by (cases us) (auto simp: rbind_Inr_iff dest: same_holder_Inr)

lemma token_source_identity_Inr:
  assumes "token_source_identity H hx p = Inr holder"
  shows "holder \<noteq> None \<longleftrightarrow> cp_identity_funding p \<noteq> [] \<and> \<not> is_mint_params p"
    "holder \<noteq> None \<Longrightarrow> \<not> source_is_native p \<and> cp_token_funding p = [] \<and>
       same_holder H hx None (cp_identity_funding p) = Inr holder"
    "rt_kind (cp_transfer p) = Mint c \<Longrightarrow> u \<in> set (cp_identity_funding p) \<Longrightarrow>
       identity_payment_script (currency_to_bytes c) = Inr (utxo_script_pubkey u)"
  using assms
  by (auto simp: token_source_identity_def is_mint_params_def is_mint_kind_def rbind_Inr_iff check_mint_funding_def
      rmap_Inr_iff refuse_if_Inr_iff list_all2_conv_all_nth in_set_conv_nth
      split: conversion_kind.splits if_splits dest: same_holder_Some)

lemma conversion_change_Inr:
  assumes "conversion_change H hx p holder = Inr change" "\<not> source_is_native p"
  obtains held n where "held_by H hx (rt_source (cp_transfer p)) (holder \<noteq> None) 0 (token_inputs p holder) = Inr held"
    "unat held = sats (rt_amount (cp_transfer p)) + unat n"
    "if n = 0 then change = []
     else \<exists>script. reserve_output_script_to
            (case holder of Some h \<Rightarrow> DestIdentity h | None \<Rightarrow> DestPubKeyHash (addr_hash (cp_change_address p)))
            (rt_source (cp_transfer p)) n = Inr script \<and> change = [\<lparr>out_value = 0, out_script_pubkey = script\<rparr>]"
proof -
  let ?needed = "to_sat (rt_amount (cp_transfer p))"
  from assms obtain held n where
    held: "held_by H hx (rt_source (cp_transfer p)) (holder \<noteq> None) 0 (token_inputs p holder) = Inr held"
    and n: "checked_sub held ?needed = Some n"
    and change: "(if 0 < n then
          rbind (reserve_output_script_to
              (case holder of Some h \<Rightarrow> DestIdentity h
               | None \<Rightarrow> DestPubKeyHash (addr_hash (cp_change_address p))) (rt_source (cp_transfer p)) n) (\<lambda>script.
          Inr [\<lparr>out_value = 0, out_script_pubkey = script\<rparr>])
        else Inr []) = Inr change"
    by (auto simp: conversion_change_def Let_def rbind_Inr_iff ok_or_Inr_iff)
  have "unat held = sats (rt_amount (cp_transfer p)) + unat n" using n by (auto simp: checked_simps)
  moreover have "if n = 0 then change = []
     else \<exists>script. reserve_output_script_to
            (case holder of Some h \<Rightarrow> DestIdentity h | None \<Rightarrow> DestPubKeyHash (addr_hash (cp_change_address p)))
            (rt_source (cp_transfer p)) n = Inr script \<and> change = [\<lparr>out_value = 0, out_script_pubkey = script\<rparr>]"
    using change by (auto simp: rbind_Inr_iff word_gt_0 split: if_splits)
  ultimately show thesis using held that by blast
qed

definition wf_conversion :: "conversion_params \<Rightarrow> bool" where
  "wf_conversion p \<longleftrightarrow> wf_transfer (cp_transfer p) \<and> wf_address (cp_change_address p) \<and>
     list_all (\<lambda>u. length (utxo_script_pubkey u) < usize_bound)
       (cp_token_funding p @ cp_identity_funding p)"

text \<open>
  The native value of a request that names its fee in the chain's currency is what its payload holds of the chain's currency, short of
  the fee of a bridge leg.
\<close>

lemma native_value_and_leg:
  assumes "rt_fee_currency t = native" "native_value t native = Inr v"
  shows "sats v + unat (gateway_fees (payload_of t)) = holding native (payload_of t) native"
proof -
  have "holding native (payload_of t) native = sats (rt_fee t) + unat (gateway_fees (payload_of t)) +
      (if is_mint_kind (rt_kind t) then 0 else if rt_source t = native then sats (rt_amount t) else 0)"
    using assms(1) kind_flag_bits(3) [of "rt_kind t"]
    by (simp add: holding_def payload_of_def fee_currency_of_def is_mint_def)
  moreover have "sats v = sats (rt_fee t) +
      (if is_mint_kind (rt_kind t) then 0 else if rt_source t = native then sats (rt_amount t) else 0)"
    using assms by (auto simp: native_value_def ok_or_Inr_iff checked_simps split: if_splits)
  ultimately show ?thesis by simp
qed

lemma holder_wf:
  assumes "token_source_identity H hx p = Inr (Some h)" "wf_conversion p"
  shows "length h = 20"
proof -
  from token_source_identity_Inr(1,2) [OF assms(1)] obtain u us where
    us: "cp_identity_funding p = u # us" "same_holder H hx None (u # us) = Inr (Some h)"
    by (cases "cp_identity_funding p") auto
  from same_holder_Inr [OF us(2)] obtain ts where
    d: "decode_output_script H hx (utxo_script_pubkey u) = Inr (OutReserveOutput (DestIdentity h) ts)" by auto
  have "length (utxo_script_pubkey u) < usize_bound"
    using assms(2) by (simp add: wf_conversion_def us(1))
  from decoded_wf [OF d this] show ?thesis by simp
qed

lemma conversion_assembly_Inr:
  assumes "conversion_assembly H hx p = Inr plan"
  obtains native script holder change leading change_script where
    "native_value (cp_transfer p) (cp_chain_currency p) = Inr native" "to_script (cp_transfer p) = Inr script"
    "check_mint_shape p = Inr ()" "token_source_identity H hx p = Inr holder"
    "conversion_change H hx p holder = Inr change" "leading_inputs p holder = Inr (leading, change_script)"
    "as_outputs plan = \<lparr>out_value = to_sat native, out_script_pubkey = script\<rparr> # change"
    "as_leading plan = leading" "as_change_script plan = change_script" "as_funding plan = cp_utxos p"
    "as_value_bearing_leading plan = is_mint_params p" "as_burn plan = amount_zero"
    "as_change_address plan = cp_change_address p"
  using assms by (auto simp: conversion_assembly_def rbind_Inr_iff Let_def)

lemma mint_shape_Inr:
  "check_mint_shape p = Inr () \<longleftrightarrow>
     (is_mint_params p \<longrightarrow> source_is_native p \<and> cp_identity_funding p \<noteq> [] \<and> cp_utxos p = [])"
  by (auto simp: check_mint_shape_def rbind_Inr_iff refuse_if_Inr_iff)

lemma payment_tokens:
  "identity_payment_script h = Inr s \<Longrightarrow> length h = 20 \<Longrightarrow> chain_tokens H hx s = []"
  by (simp add: chain_tokens_def decode_identity_payment_script)

lemma holding_native_fee:
  assumes "rt_fee_currency (cp_transfer p) = cp_chain_currency p" "c \<noteq> cp_chain_currency p"
  shows "holding (cp_chain_currency p) (payload_of (cp_transfer p)) c =
    (if is_mint_params p \<or> c \<noteq> rt_source (cp_transfer p) then 0 else sats (rt_amount (cp_transfer p)))"
proof -
  have "fee_currency_of (cp_chain_currency p) (payload_of (cp_transfer p)) = cp_chain_currency p"
    using assms(1) by (simp add: fee_currency_of_def payload_of_def)
  then show ?thesis
    using assms(2) kind_flag_bits(3) [of "rt_kind (cp_transfer p)"]
    by (simp add: holding_def payload_of_def is_mint_def is_mint_params_def)
qed

text \<open>What the inputs before the funding hold: what is converted, and the change.\<close>

lemma conversion_tokens:
  assumes change: "conversion_change H hx p holder = Inr change"
    and lead: "leading_inputs p holder = Inr (leading, change_script)"
    and holder: "token_source_identity H hx p = Inr holder" and shape: "check_mint_shape p = Inr ()"
    and wfp: "wf_conversion p"
  shows "length change \<le> 1" "total_value change = 0"
    "chain_total H hx (map utxo_script_pubkey leading) c =
      (if is_mint_params p \<or> source_is_native p \<or> c \<noteq> rt_source (cp_transfer p) then 0
       else sats (rt_amount (cp_transfer p))) + chain_total H hx (map out_script_pubkey change) c"
proof -
  let ?t = "cp_transfer p"
  note h = token_source_identity_Inr [OF holder]
  have "length change \<le> 1 \<and> total_value change = 0 \<and>
      chain_total H hx (map utxo_script_pubkey leading) c =
      (if is_mint_params p \<or> source_is_native p \<or> c \<noteq> rt_source ?t then 0 else sats (rt_amount ?t)) +
      chain_total H hx (map out_script_pubkey change) c"
  proof (cases "source_is_native p")
    case True
    then have c: "change = []" "cp_token_funding p = []"
      using change by (auto simp: conversion_change_def rbind_Inr_iff refuse_if_Inr_iff Let_def)
    have "chain_total H hx (map utxo_script_pubkey leading) c = 0"
    proof (cases "is_mint_params p")
      case True
      then obtain k where k: "rt_kind ?t = Mint k"
        by (auto simp: is_mint_params_def is_mint_kind_def split: conversion_kind.splits)
      then have l: "leading = cp_identity_funding p" using lead by (auto simp: leading_inputs_def rbind_Inr_iff)
      have "length (currency_to_bytes k) = 20"
        using wfp k by (simp add: wf_conversion_def wf_transfer_def wf_currency_def)
      then show ?thesis
        using h(3) [OF k] by (intro chain_total_zero) (auto simp: l intro: payment_tokens)
    next
      case mint: False
      then have "leading = token_inputs p holder"
        using lead by (auto simp: leading_inputs_def is_mint_params_def is_mint_kind_def split: conversion_kind.splits)
      then show ?thesis using h(2) c(2) True by (auto simp: token_inputs_def)
    qed
    with c(1) True show ?thesis by simp
  next
    case False
    then have mint: "\<not> is_mint_params p" using shape by (auto simp: mint_shape_Inr)
    then have l: "leading = token_inputs p holder"
      using lead by (auto simp: leading_inputs_def is_mint_params_def is_mint_kind_def split: conversion_kind.splits)
    from conversion_change_Inr [OF change False] obtain held n where
      held: "held_by H hx (rt_source ?t) (holder \<noteq> None) 0 leading = Inr held"
        "unat held = sats (rt_amount ?t) + unat n"
      and c: "if n = 0 then change = []
       else \<exists>script. reserve_output_script_to
            (case holder of Some h \<Rightarrow> DestIdentity h | None \<Rightarrow> DestPubKeyHash (addr_hash (cp_change_address p)))
            (rt_source ?t) n = Inr script \<and> change = [\<lparr>out_value = 0, out_script_pubkey = script\<rparr>]"
      unfolding l by blast
    have wf: "wf_destination (case holder of Some h \<Rightarrow> DestIdentity h | None \<Rightarrow> DestPubKeyHash (addr_hash (cp_change_address p)))"
      "wf_currency (rt_source ?t)"
      using holder_wf [of H hx p] holder wfp
      by (auto simp: wf_conversion_def wf_transfer_def wf_address_def split: option.splits)
    have out: "chain_total H hx (map out_script_pubkey change) c = (if c = rt_source ?t then unat n else 0)"
      "length change \<le> 1 \<and> total_value change = 0"
      using c decode_reserve_output_script [OF wf, of n _ H hx]
      by (auto simp: chain_tokens_def split: if_splits)
    show ?thesis
      using held_by_Inr [OF held(1)] held(2) out mint False by auto
  qed
  then show "length change \<le> 1" "total_value change = 0"
    "chain_total H hx (map utxo_script_pubkey leading) c =
      (if is_mint_params p \<or> source_is_native p \<or> c \<noteq> rt_source ?t then 0 else sats (rt_amount ?t)) +
      chain_total H hx (map out_script_pubkey change) c" by blast+
qed

text \<open>
  C16: a conversion conserves what it moves.  When the fee is named in the chain's currency, the
  satoshis of the transfer output are exactly what its payload holds of that currency, except
  for the fee of a bridge leg: a destination with a leg to a named gateway holds that leg's fee
  too, and the output is short of it by exactly that much; without one (every destination the
  library makes) nothing is missing.  For every other currency the inputs placed before the
  funding hold, as the decoder reads them, exactly what the transfer holds plus the one change
  output, which carries no satoshis.  The funding itself is passed on as given, and no token it
  may hold is looked at.
\<close>

theorem conversion_conserves:
  assumes "conversion_assembly H hx p = Inr plan" "wf_conversion p"
    and "rt_fee_currency (cp_transfer p) = cp_chain_currency p"
  shows "\<exists>native script change. as_outputs plan = \<lparr>out_value = native, out_script_pubkey = script\<rparr> # change \<and>
     to_script (cp_transfer p) = Inr script \<and> total_value change = 0 \<and> length change \<le> 1 \<and>
     as_funding plan = cp_utxos p \<and>
     unat native + unat (gateway_fees (payload_of (cp_transfer p))) =
       holding (cp_chain_currency p) (payload_of (cp_transfer p)) (cp_chain_currency p) \<and>
     (td_gateway (rt_destination (cp_transfer p)) = None \<longrightarrow>
       unat native = holding (cp_chain_currency p) (payload_of (cp_transfer p)) (cp_chain_currency p)) \<and>
     (\<forall>c. c \<noteq> cp_chain_currency p \<longrightarrow>
        chain_total H hx (map utxo_script_pubkey (as_leading plan)) c =
        holding (cp_chain_currency p) (payload_of (cp_transfer p)) c +
        chain_total H hx (map out_script_pubkey change) c)"
proof -
  let ?t = "cp_transfer p" and ?n = "cp_chain_currency p"
  from assms(1) obtain native script holder change leading change_script where
    nv: "native_value ?t ?n = Inr native" and script: "to_script ?t = Inr script"
    and shape: "check_mint_shape p = Inr ()" and holder: "token_source_identity H hx p = Inr holder"
    and change: "conversion_change H hx p holder = Inr change"
    and lead: "leading_inputs p holder = Inr (leading, change_script)"
    and outs: "as_outputs plan = \<lparr>out_value = to_sat native, out_script_pubkey = script\<rparr> # change"
    and leading: "as_leading plan = leading" "as_funding plan = cp_utxos p"
    by (rule conversion_assembly_Inr)
  have nat: "sats native + unat (gateway_fees (payload_of ?t)) = holding ?n (payload_of ?t) ?n"
    by (rule native_value_and_leg [OF assms(3) nv])
  have no_leg: "gateway_fees (payload_of ?t) = 0" if "td_gateway (rt_destination ?t) = None"
    using that by (simp add: gateway_fees_def payload_of_def)
  note tok = conversion_tokens [OF change lead holder shape assms(2)]
  have "chain_total H hx (map utxo_script_pubkey leading) c =
      holding ?n (payload_of ?t) c + chain_total H hx (map out_script_pubkey change) c" if "c \<noteq> ?n" for c
    using tok(3) [of c] holding_native_fee [OF assms(3) that] that by (auto simp: source_is_native_def)
  then show ?thesis
    using outs script nat no_leg leading tok(1,2)
    by (intro exI [of _ "to_sat native"] exI [of _ script] exI [of _ change]) auto
qed

text \<open>A leg with a fee: the payload promises five satoshis the output does not carry.\<close>

lemma bridge_fee_not_carried:
  fixes t :: reserve_transfer
  defines "t \<equiv> sample_transfer\<lparr>rt_destination := rt_destination sample_transfer\<lparr>td_gateway :=
     Some \<lparr>gw_gateway = sample_currency 1, gw_code = sample_currency 1, gw_fees = 5\<rparr>\<rparr>\<rparr>"
  shows "native_value t (sample_currency 1) = Inr (Amount 720) \<and> holding (sample_currency 1) (payload_of t) (sample_currency 1) = 725"
  unfolding t_def
  by (simp add: native_value_def sample_transfer_def sample_currency_def is_mint_kind_def
      amount_checked_add_def checked_add_def holding_def payload_of_def fee_currency_of_def null_currency_def
      currency_from_bytes_def gateway_fees_def converting_with_refund_def is_mint_def rt_flags)

text \<open>
  Money under an identity's authority stays there.  When a conversion or mint is funded
  from an identity, every such input belongs to one identity: for a mint the one of the minted
  currency, which alone funds it and whose script takes the change; otherwise the one that
  holds the tokens, to which the token change is paid back.  No such input is dropped.
\<close>

theorem identity_funds_stay:
  assumes "conversion_assembly H hx p = Inr plan" "cp_identity_funding p \<noteq> []"
  shows "as_leading plan = cp_identity_funding p \<and>
     (if is_mint_params p
      then \<exists>c script. rt_kind (cp_transfer p) = Mint c \<and>
        identity_payment_script (currency_to_bytes c) = Inr script \<and>
        (\<forall>u \<in> set (as_leading plan). utxo_script_pubkey u = script) \<and>
        as_change_script plan = Some script \<and> as_funding plan = [] \<and> length (as_outputs plan) = 1
      else \<exists>h. (\<forall>u \<in> set (as_leading plan). \<exists>ts.
          decode_output_script H hx (utxo_script_pubkey u) = Inr (OutReserveOutput (DestIdentity h) ts)) \<and>
        (\<forall>out \<in> set (drop 1 (as_outputs plan)). \<exists>n. out_value out = 0 \<and>
          reserve_output_script_to (DestIdentity h) (rt_source (cp_transfer p)) n = Inr (out_script_pubkey out)))"
proof -
  from assms(1) obtain native script holder change leading change_script where
    shape: "check_mint_shape p = Inr ()" and holder: "token_source_identity H hx p = Inr holder"
    and change: "conversion_change H hx p holder = Inr change"
    and lead: "leading_inputs p holder = Inr (leading, change_script)"
    and outs: "as_outputs plan = \<lparr>out_value = to_sat native, out_script_pubkey = script\<rparr> # change"
    and plan: "as_leading plan = leading" "as_change_script plan = change_script" "as_funding plan = cp_utxos p"
    by (rule conversion_assembly_Inr)
  note h = token_source_identity_Inr [OF holder]
  show ?thesis
  proof (cases "is_mint_params p")
    case True
    then obtain c where c: "rt_kind (cp_transfer p) = Mint c"
      by (auto simp: is_mint_params_def is_mint_kind_def split: conversion_kind.splits)
    with lead obtain s where s: "identity_payment_script (currency_to_bytes c) = Inr s"
      "leading = cp_identity_funding p" "change_script = Some s"
      by (auto simp: leading_inputs_def rbind_Inr_iff)
    have "change = []"
      using change shape True by (auto simp: mint_shape_Inr conversion_change_def rbind_Inr_iff Let_def)
    then show ?thesis
      using True c s h(3) [OF c] shape outs by (auto simp: plan mint_shape_Inr)
  next
    case False
    then obtain a where a: "holder = Some a" using h(1) assms(2) by auto
    with h(2) have native: "\<not> source_is_native p"
      and same: "same_holder H hx None (cp_identity_funding p) = Inr (Some a)" by auto
    have l: "leading = cp_identity_funding p"
      using lead False a
      by (auto simp: leading_inputs_def is_mint_params_def is_mint_kind_def token_inputs_def
          split: conversion_kind.splits)
    obtain n where "if n = 0 then change = [] else \<exists>script. reserve_output_script_to (DestIdentity a)
        (rt_source (cp_transfer p)) n = Inr script \<and> change = [\<lparr>out_value = 0, out_script_pubkey = script\<rparr>]"
      using conversion_change_Inr [OF change native] by (metis a option.simps(5))
    then have "\<forall>out \<in> set change. \<exists>n. out_value out = 0 \<and>
        reserve_output_script_to (DestIdentity a) (rt_source (cp_transfer p)) n = Inr (out_script_pubkey out)"
      by (auto split: if_splits)
    then show ?thesis
      using False same_holder_Inr [OF same] outs by (auto simp: plan l intro!: exI [of _ a])
  qed
qed

text \<open>
  A fee in the source token is promised by the payload but funded by nothing: the transfer
  holds more of the token than the inputs leave for it.
\<close>

lemma token_fee_unbacked:
  assumes "conversion_assembly H hx p = Inr plan" "wf_conversion p"
    and "rt_fee_currency (cp_transfer p) = rt_source (cp_transfer p)" "rt_source (cp_transfer p) \<noteq> null_currency"
    and "\<not> source_is_native p" "td_gateway (rt_destination (cp_transfer p)) = None"
  shows "chain_total H hx (map utxo_script_pubkey (as_leading plan)) (rt_source (cp_transfer p)) +
      sats (rt_fee (cp_transfer p)) =
    holding (cp_chain_currency p) (payload_of (cp_transfer p)) (rt_source (cp_transfer p)) +
      chain_total H hx (map out_script_pubkey (drop 1 (as_outputs plan))) (rt_source (cp_transfer p))"
proof -
  let ?t = "cp_transfer p"
  from assms(1) obtain native script holder change leading change_script where
    shape: "check_mint_shape p = Inr ()" and holder: "token_source_identity H hx p = Inr holder"
    and change: "conversion_change H hx p holder = Inr change"
    and lead: "leading_inputs p holder = Inr (leading, change_script)"
    and outs: "as_outputs plan = \<lparr>out_value = to_sat native, out_script_pubkey = script\<rparr> # change"
    and plan: "as_leading plan = leading"
    by (rule conversion_assembly_Inr)
  have "\<not> is_mint_params p" using shape assms(5) by (auto simp: mint_shape_Inr)
  moreover have "holding (cp_chain_currency p) (payload_of ?t) (rt_source ?t) = sats (rt_amount ?t) + sats (rt_fee ?t)"
    using assms(3-6) kind_flag_bits(3) [of "rt_kind ?t"] \<open>\<not> is_mint_params p\<close>
    by (simp add: holding_def payload_of_def fee_currency_of_def is_mint_def is_mint_params_def gateway_fees_def)
  ultimately show ?thesis
    using conversion_tokens(3) [OF change lead holder shape assms(2), of "rt_source ?t"] assms(5) outs plan
    by simp
qed


text \<open>Nothing compares the outpoints of the token inputs: one listed twice counts twice.\<close>

lemma repeated_token_input_counted:
  assumes "token_input H hx source b u = Inr a" "checked_add held a = Some h" "checked_add h a = Some h'"
  shows "held_by H hx source b held [u, u] = Inr h'"
  using assms by simp

section \<open>A request that runs\<close>

definition identity_coin :: utxo where
  "identity_coin = \<lparr>utxo_txid = Txid (replicate 32 4), utxo_vout = 1, utxo_satoshis = Amount 0,
     utxo_script_pubkey =
       (case reserve_output_script_to (DestIdentity (replicate 20 3)) (sample_currency 1) 900 of
          Inl _ \<Rightarrow> [] | Inr script \<Rightarrow> script)\<rparr>"

definition sample_conversion :: conversion_params where
  "sample_conversion =
     (conversion_params_new (sample_transfer\<lparr>rt_fee_currency := sample_currency 9\<rparr>) [sample_coin]
       (sample_currency 9) sample_address Never)\<lparr>cp_identity_funding := [identity_coin]\<rparr>"

lemma identity_coin_decodes:
  "decode_output_script H hx (utxo_script_pubkey identity_coin) =
     Inr (OutReserveOutput (DestIdentity (replicate 20 3)) [(sample_currency 1, 900)])"
proof -
  obtain s where s: "reserve_output_script_to (DestIdentity (replicate 20 3)) (sample_currency 1) 900 = Inr s"
    by (rule reserve_output_script_total [of "DestIdentity (replicate 20 3)" "sample_currency 1"])
      (simp_all add: wf_currency_def sample_currency_def)
  show ?thesis
    unfolding identity_coin_def s utxo.simps sum.case
    by (rule decode_reserve_output_script [OF _ _ s]) (simp_all add: wf_currency_def sample_currency_def)
qed

lemma sample_conversion_planned: "\<exists>plan. conversion_assembly toy_hash_lib hex_string sample_conversion = Inr plan"
proof -
  have "\<not> isl (to_script (cp_transfer sample_conversion))" by code_simp
  then obtain script where script: "to_script (cp_transfer sample_conversion) = Inr script"
    by (cases "to_script (cp_transfer sample_conversion)") auto
  have shape: "check_mint_shape sample_conversion = Inr ()" "expiry_check (cp_expiry sample_conversion) = Inr ()"
    "rt_kind (cp_transfer sample_conversion) = ReserveToReserve (sample_currency 2) (sample_currency 3)"
    "\<not> source_is_native sample_conversion" "cp_token_funding sample_conversion = []"
    "cp_identity_funding sample_conversion = [identity_coin]" "rt_source (cp_transfer sample_conversion) = sample_currency 1"
    "rt_amount (cp_transfer sample_conversion) = Amount 700"
    by (simp_all add: sample_conversion_def conversion_params_new_def sample_transfer_def sample_currency_def
        check_mint_shape_def is_mint_params_def is_mint_kind_def source_is_native_def refuse_if_def)
  have native: "\<not> isl (native_value (cp_transfer sample_conversion) (cp_chain_currency sample_conversion))" by code_simp
  then obtain native where native: "native_value (cp_transfer sample_conversion) (cp_chain_currency sample_conversion) = Inr native"
    by (cases "native_value (cp_transfer sample_conversion) (cp_chain_currency sample_conversion)") auto
  obtain s where s: "reserve_output_script_to (DestIdentity (replicate 20 3)) (sample_currency 1) 200 = Inr s"
    by (rule reserve_output_script_total [of "DestIdentity (replicate 20 3)" "sample_currency 1"])
      (simp_all add: wf_currency_def sample_currency_def)
  have holder: "token_source_identity toy_hash_lib hex_string sample_conversion = Inr (Some (replicate 20 3))"
    using shape by (simp add: token_source_identity_def identity_input_def identity_coin_decodes)
  have "checked_add (0::64 word) 900 = Some 900" "checked_sub (900::64 word) 700 = Some 200"
    by (simp_all add: checked_add_def checked_sub_def)
  then have "conversion_change toy_hash_lib hex_string sample_conversion (Some (replicate 20 3)) =
      Inr [\<lparr>out_value = 0, out_script_pubkey = s\<rparr>]"
    using shape s
    by (simp add: conversion_change_def Let_def token_inputs_def token_input_def identity_coin_decodes word_gt_0)
  then show ?thesis
    using shape script native holder by (simp add: conversion_assembly_def leading_inputs_def Let_def)
qed

lemma identity_coin_short: "length (utxo_script_pubkey identity_coin) < usize_bound"
  by (auto simp: identity_coin_def reserve_output_script_to_def split: sum.split dest: cc_script_length)

lemma sample_conversion_wf: "wf_conversion sample_conversion" "rt_fee_currency (cp_transfer sample_conversion) = cp_chain_currency sample_conversion"
  "cp_identity_funding sample_conversion \<noteq> []"
proof -
  have "wf_transfer (cp_transfer sample_conversion)"
    "wf_address (cp_change_address sample_conversion)"
    "cp_identity_funding sample_conversion = [identity_coin]" "cp_token_funding sample_conversion = []"
    using sample_transfer_wf
    by (simp_all add: sample_conversion_def conversion_params_new_def wf_address_def sample_address_def
        wf_transfer_def sample_transfer_def wf_currency_def sample_currency_def)
  then show "wf_conversion sample_conversion" "cp_identity_funding sample_conversion \<noteq> []"
    using identity_coin_short by (simp_all add: wf_conversion_def)
  show "rt_fee_currency (cp_transfer sample_conversion) = cp_chain_currency sample_conversion" by code_simp
qed

lemma conversion_conserves_witness:
  "\<exists>plan native script change. conversion_assembly toy_hash_lib hex_string sample_conversion = Inr plan \<and>
     as_outputs plan = \<lparr>out_value = native, out_script_pubkey = script\<rparr> # change \<and>
     chain_total toy_hash_lib hex_string (map utxo_script_pubkey (as_leading plan)) (sample_currency 1) =
       700 + chain_total toy_hash_lib hex_string (map out_script_pubkey change) (sample_currency 1)"
proof -
  from sample_conversion_planned obtain plan where
    plan: "conversion_assembly toy_hash_lib hex_string sample_conversion = Inr plan" ..
  have "sample_currency 1 \<noteq> cp_chain_currency sample_conversion"
    "holding (cp_chain_currency sample_conversion) (payload_of (cp_transfer sample_conversion)) (sample_currency 1) = 700"
    by code_simp+
  with conversion_conserves [OF plan sample_conversion_wf(1,2)] plan show ?thesis by metis
qed

lemma identity_funds_stay_witness:
  "\<exists>plan h. conversion_assembly toy_hash_lib hex_string sample_conversion = Inr plan \<and>
     as_leading plan = [identity_coin] \<and>
     (\<forall>out \<in> set (drop 1 (as_outputs plan)). \<exists>n.
        reserve_output_script_to (DestIdentity h) (sample_currency 1) n = Inr (out_script_pubkey out))"
proof -
  from sample_conversion_planned obtain plan where
    plan: "conversion_assembly toy_hash_lib hex_string sample_conversion = Inr plan" ..
  have "\<not> is_mint_params sample_conversion" "cp_identity_funding sample_conversion = [identity_coin]"
    "rt_source (cp_transfer sample_conversion) = sample_currency 1"
    by code_simp+
  with identity_funds_stay [OF plan sample_conversion_wf(3)] plan show ?thesis by auto
qed

end
