(* ===== verification/Rpc.thy ===== *)
theory Rpc
  imports Btree "HOL-Library.Char_ord"
begin

text \<open>
  The request side of \<open>verus-rpc\<close> (\<open>method.rs\<close>, \<open>envelope.rs\<close>, \<open>transport.rs\<close>,
  \<open>cassette.rs\<close>, \<open>error.rs\<close>), and the two pieces of \<open>verus-flows\<close> that classify its errors
  (\<open>error.rs\<close>, \<open>broadcast.rs\<close>).  JSON text is produced and parsed by \<open>serde_json\<close>, a
  parameter here; what the code does with a parsed reply is modelled.
\<close>

section \<open>Methods\<close>

datatype rpc_method =
    GetInfo | GetBlockCount | GetBestBlockHash | GetBlockHash | GetBlock
  | GetAddressUtxos | GetAddressBalance | GetAddressDeltas | GetAddressMempool
  | GetCurrency | GetCurrencyState | ListCurrencies | GetCurrencyConverters | EstimateConversion
  | EstimateFee | GetIdentity | GetIdentitiesWithAddress | GetIdentityHistory | GetIdentityContent
  | GetVdxfId | GetOffers | VerifyMessage | GetRawMempool
  | GetRawTransaction | DecodeRawTransaction | SendRawTransaction

fun method_name :: "rpc_method \<Rightarrow> str" where
  "method_name GetInfo = ''getinfo''"
| "method_name GetBlockCount = ''getblockcount''"
| "method_name GetBestBlockHash = ''getbestblockhash''"
| "method_name GetBlockHash = ''getblockhash''"
| "method_name GetBlock = ''getblock''"
| "method_name GetAddressUtxos = ''getaddressutxos''"
| "method_name GetAddressBalance = ''getaddressbalance''"
| "method_name GetAddressDeltas = ''getaddressdeltas''"
| "method_name GetAddressMempool = ''getaddressmempool''"
| "method_name GetCurrency = ''getcurrency''"
| "method_name GetCurrencyState = ''getcurrencystate''"
| "method_name ListCurrencies = ''listcurrencies''"
| "method_name GetCurrencyConverters = ''getcurrencyconverters''"
| "method_name EstimateConversion = ''estimateconversion''"
| "method_name EstimateFee = ''estimatefee''"
| "method_name GetIdentity = ''getidentity''"
| "method_name GetIdentitiesWithAddress = ''getidentitieswithaddress''"
| "method_name GetIdentityHistory = ''getidentityhistory''"
| "method_name GetIdentityContent = ''getidentitycontent''"
| "method_name GetVdxfId = ''getvdxfid''"
| "method_name GetOffers = ''getoffers''"
| "method_name VerifyMessage = ''verifymessage''"
| "method_name GetRawMempool = ''getrawmempool''"
| "method_name GetRawTransaction = ''getrawtransaction''"
| "method_name DecodeRawTransaction = ''decoderawtransaction''"
| "method_name SendRawTransaction = ''sendrawtransaction''"

fun is_write :: "rpc_method \<Rightarrow> bool" where
  "is_write SendRawTransaction = True"
| "is_write _ = False"

section \<open>Errors\<close>

datatype rpc_error =
    Transport str
  | Node i64 str
  | Malformed str
  | Unexpected str
  | MethodUnavailable str
  | LossyNumber str str
  | InsecureUrl str
  | ResponseTooLarge nat
  | OutOfRange str
  | AnswerNeeded
  | WriteThroughCassette
  | SourcesDisagree str str str

datatype flow_error =
    FlowRpc rpc_error
  | FlowTx tx_error
  | FlowKey key_error
  | Stalled str
  | Offer str
  | Content str
  | Shielded str
  | FlowInsufficientFunds amount amount str nat
  | BroadcastUncertain str str str
  | Reorged str
  | NoSuchIdentity str
  | NameTaken str
  | NotReady str
  | AnswersSpent
  | CommitmentExpired str u32 u32
  | ImplausibleNodeFee str amount amount
  | FlowImplausibleReferralLevels u32 u32
  | CurrencyPaysNoReferrals str

text \<open>Only an answer from the node that there is no such identity counts as absence.\<close>

definition absent_is_none :: "rpc_error + 'r \<Rightarrow> flow_error + 'r option" where
  "absent_is_none outcome = (case outcome of
       Inr record \<Rightarrow> Inr (Some record)
     | Inl (Node code message) \<Rightarrow> if code = -5 then Inr None else Inl (FlowRpc (Node code message))
     | Inl other \<Rightarrow> Inl (FlowRpc other))"

section \<open>Requests and replies\<close>

record request_body =
  as_str :: str
  writes :: bool

text \<open>\<open>serde_json\<close> on the envelope: id, method name and parameters to text, or its error.\<close>

record 'p request_envelope =
  env_jsonrpc :: str
  env_id :: str
  env_method :: str
  env_params :: 'p

type_synonym 'p json_writer = "'p request_envelope \<Rightarrow> str + str"

definition request :: "'p json_writer \<Rightarrow> rpc_method \<Rightarrow> 'p \<Rightarrow> rpc_error + request_body" where
  "request to_json method params =
     (case to_json \<lparr>env_jsonrpc = ''1.0'', env_id = ''verus-rust-sdk'',
          env_method = method_name method, env_params = params\<rparr> of
        Inr text \<Rightarrow> Inr \<lparr>as_str = text, writes = is_write method\<rparr>
      | Inl e \<Rightarrow> Inl (Malformed (''could not build request: '' @ e)))"

text \<open>
  A parsed reply: \<open>result\<close> is absent, present and null, or a raw value.  The parser itself is
  the parameter \<open>from_json\<close>.
\<close>

record reply_envelope =
  reply_result :: "str option option"
  reply_error :: "(i64 \<times> str) option"

type_synonym json_reader = "str \<Rightarrow> str + reply_envelope"

definition METHOD_NOT_FOUND :: i64 where "METHOD_NOT_FOUND = -32601"

text \<open>\<open>s.chars().take(n)\<close>: a character starts at every byte that is not a continuation byte.\<close>

fun take_chars :: "nat \<Rightarrow> str \<Rightarrow> str" where
  "take_chars n [] = []"
| "take_chars n (c # s) =
     (if 128 \<le> (of_char c :: nat) \<and> (of_char c :: nat) < 192 then c # take_chars n s
      else if n = 0 then [] else c # take_chars (n - 1) s)"

definition result_of :: "json_reader \<Rightarrow> str \<Rightarrow> rpc_method \<Rightarrow> rpc_error + str" where
  "result_of from_json body method = (case from_json body of
       Inl e \<Rightarrow> Inl (Malformed (''reply was not JSON-RPC ('' @ e @ ''): '' @ take_chars 80 body))
     | Inr envelope \<Rightarrow> (case reply_error envelope of
         Some (code, message) \<Rightarrow>
           Inl (if code = METHOD_NOT_FOUND then MethodUnavailable (method_name method)
                else Node code message)
       | None \<Rightarrow> (case reply_result envelope of
           Some (Some result) \<Rightarrow> Inr result
         | Some None \<Rightarrow> Inl (Unexpected (method_name method @ '' answered with a null result''))
         | None \<Rightarrow> Inl (Malformed ''reply carried neither a result nor an error''))))"

section \<open>The cassette\<close>

record cassette =
  answers :: "(str, str) btree"
  missing :: "str list"

definition cassette_new :: cassette where
  "cassette_new = \<lparr>answers = [], missing = []\<rparr>"

definition answer :: "str \<Rightarrow> str \<Rightarrow> cassette \<Rightarrow> cassette" where
  "answer body reply c = c\<lparr>answers := bt_put body reply (answers c)\<rparr>"

definition outstanding :: "cassette \<Rightarrow> str list" where "outstanding c = missing c"

definition missed :: "cassette \<Rightarrow> bool" where "missed c \<longleftrightarrow> missing c \<noteq> []"

definition forget_misses :: "cassette \<Rightarrow> cassette" where "forget_misses c = c\<lparr>missing := []\<rparr>"

definition known :: "cassette \<Rightarrow> nat" where "known c = length (answers c)"

definition cassette_post :: "request_body \<Rightarrow> cassette \<Rightarrow> (rpc_error + str) \<times> cassette" where
  "cassette_post body c =
     (if writes body then (Inl WriteThroughCassette, c)
      else case map_of (answers c) (as_str body) of
          Some reply \<Rightarrow> (Inr reply, c)
        | None \<Rightarrow>
            (Inl AnswerNeeded,
             if as_str body \<in> set (missing c) then c
             else c\<lparr>missing := missing c @ [as_str body]\<rparr>))"

section \<open>Broadcasting\<close>

record 'a unsent =
  us_hex :: str
  us_txid :: str
  us_outcome :: 'a

text \<open>The node's answer to \<open>sendrawtransaction\<close>, and \<open>Display\<close> of an error, are arguments.\<close>

definition broadcast ::
  "(rpc_error \<Rightarrow> str) \<Rightarrow> (str \<Rightarrow> rpc_error + str) \<Rightarrow> str \<Rightarrow> str \<Rightarrow> flow_error + str" where
  "broadcast show_rpc send hx local_txid = (case send hx of
       Inr reported \<Rightarrow>
         if reported \<noteq> local_txid
         then Inl (NotReady (''node reported txid '' @ reported @ '' for a transaction we computed as '' @ local_txid))
         else Inr reported
     | Inl (Node code message) \<Rightarrow>
         if code = -27 then Inr local_txid
         else if code = -25 then Inl (BroadcastUncertain local_txid hx (show_rpc (Node code message)))
         else Inl (FlowRpc (Node code message))
     | Inl WriteThroughCassette \<Rightarrow> Inl (FlowRpc WriteThroughCassette)
     | Inl AnswerNeeded \<Rightarrow> Inl (FlowRpc AnswerNeeded)
     | Inl (MethodUnavailable method) \<Rightarrow> Inl (FlowRpc (MethodUnavailable method))
     | Inl e \<Rightarrow> Inl (BroadcastUncertain local_txid hx (show_rpc e)))"

definition unsent_broadcast ::
  "(rpc_error \<Rightarrow> str) \<Rightarrow> (str \<Rightarrow> rpc_error + str) \<Rightarrow> 'a unsent \<Rightarrow> flow_error + 'a" where
  "unsent_broadcast show_rpc send u =
     rbind (broadcast show_rpc send (us_hex u) (us_txid u)) (\<lambda>_. Inr (us_outcome u))"

section \<open>What a driver may rely on\<close>

text \<open>
  The contract of a store of answers behind a \<open>Transport\<close>: a write is refused and changes
  nothing, a known body is answered, an unknown one is recorded once, in order.
\<close>

locale answer_store =
  fixes post :: "request_body \<Rightarrow> 's \<Rightarrow> (rpc_error + str) \<times> 's"
    and reply_to :: "'s \<Rightarrow> str \<Rightarrow> str option"
    and wanted :: "'s \<Rightarrow> str list"
  assumes post_write: "writes b \<Longrightarrow> post b s = (Inl WriteThroughCassette, s)"
    and post_hit: "\<not> writes b \<Longrightarrow> reply_to s (as_str b) = Some r \<Longrightarrow> post b s = (Inr r, s)"
    and post_miss: "\<not> writes b \<Longrightarrow> reply_to s (as_str b) = None \<Longrightarrow> fst (post b s) = Inl AnswerNeeded"
    and post_reply: "reply_to (snd (post b s)) = reply_to s"
    and post_wanted: "\<not> writes b \<Longrightarrow> reply_to s (as_str b) = None \<Longrightarrow>
      wanted (snd (post b s)) = (if as_str b \<in> set (wanted s) then wanted s else wanted s @ [as_str b])"

interpretation tape: answer_store cassette_post "\<lambda>c. map_of (answers c)" outstanding
  by unfold_locales (auto simp: cassette_post_def outstanding_def split: option.splits)

end
