(* ===== verification/Drive.thy ===== *)
theory Drive
  imports Rpc
begin

text \<open>
  Running an operation that does no I/O of its own (\<open>verus-flows/src/drive.rs\<close>): an operation
  is run from the start, round after round, against a cassette of answers that grows, until it
  finishes.  The theorems compare that with one blocking run against the same replies.
\<close>

section \<open>Operations\<close>

text \<open>
  The closure handed to \<open>advance\<close>, as the questions it asks: it returns, fails, or posts a
  request and goes on with what the transport gave back.
\<close>

datatype 'a operation =
    Return 'a
  | Throw flow_error
  | Post request_body "rpc_error + str \<Rightarrow> 'a operation"

primrec run_operation ::
  "(request_body \<Rightarrow> 's \<Rightarrow> (rpc_error + str) \<times> 's) \<Rightarrow> 'a operation \<Rightarrow> 's \<Rightarrow> (flow_error + 'a) \<times> 's" where
  "run_operation post (Return v) s = (Inr v, s)"
| "run_operation post (Throw e) s = (Inl e, s)"
| "run_operation post (Post b k) s = run_operation post (k (fst (post b s))) (snd (post b s))"

section \<open>Answers and rounds\<close>

definition MAX_ROUNDS :: nat where "MAX_ROUNDS = 16"
definition MAX_REPLY_BYTES :: nat where "MAX_REPLY_BYTES = 8 * 1024 * 1024"

datatype 'a driver_step = Ask "str list" | Ready 'a

record answers_handle =
  ah_cassette :: cassette
  ah_rounds :: nat
  ah_finished :: bool

definition answers_new :: answers_handle where
  "answers_new = \<lparr>ah_cassette = cassette_new, ah_rounds = 0, ah_finished = False\<rparr>"

definition record_reply :: "str \<Rightarrow> str \<Rightarrow> answers_handle \<Rightarrow> flow_error + answers_handle" where
  "record_reply body reply a =
     (if MAX_REPLY_BYTES < length reply
      then Inl (NotReady (''a reply of '' @ dec_string (length reply) @ '' bytes exceeds the '' @
        dec_string MAX_REPLY_BYTES @ ''-byte ceiling''))
      else Inr (a\<lparr>ah_cassette := answer body reply (ah_cassette a)\<rparr>))"

definition advance_operation ::
  "'a operation \<Rightarrow> answers_handle \<Rightarrow> (flow_error + 'a driver_step) \<times> answers_handle" where
  "advance_operation operation a =
     (if ah_finished a then (Inl AnswersSpent, a)
      else if MAX_ROUNDS \<le> ah_rounds a then
        (Inl (Stalled (''still asking for more after '' @ dec_string MAX_ROUNDS @ '' rounds'')), a)
      else
        let a = a\<lparr>ah_rounds := ah_rounds a + 1\<rparr>;
            (outcome, c) = run_operation cassette_post operation (forget_misses (ah_cassette a));
            a = a\<lparr>ah_cassette := c\<rparr>
        in case outcome of
            Inr v \<Rightarrow> (Inr (Ready v), a\<lparr>ah_finished := True\<rparr>)
          | Inl e \<Rightarrow>
              if e = FlowRpc AnswerNeeded then
                if outstanding c = []
                then (Inl (Stalled
                  ''an operation stopped for want of an answer without recording what it wanted''), a)
                else (Inr (Ask (outstanding c)), a)
              else (Inl e, a))"

section \<open>The loop of the module documentation\<close>

text \<open>
  The driver of the documentation: run a round, fetch what it asks for, in whatever order the
  replies arrive, record them, go on.  The network is the reply to each body.
\<close>

datatype 'a driver =
    Planning answers_handle
  | Fetching answers_handle "str list"
  | Finished answers_handle 'a
  | Failed answers_handle flow_error

inductive drive_step :: "(str \<Rightarrow> str) \<Rightarrow> 'a operation \<Rightarrow> 'a driver \<Rightarrow> 'a driver \<Rightarrow> bool"
  for net operation where
  ready: "advance_operation operation a = (Inr (Ready v), a') \<Longrightarrow>
     drive_step net operation (Planning a) (Finished a' v)"
| ask: "advance_operation operation a = (Inr (Ask bodies), a') \<Longrightarrow>
     drive_step net operation (Planning a) (Fetching a' bodies)"
| fail: "advance_operation operation a = (Inl e, a') \<Longrightarrow>
     drive_step net operation (Planning a) (Failed a' e)"
| reply: "body \<in> set bodies \<Longrightarrow> record_reply body (net body) a = Inr a' \<Longrightarrow>
     drive_step net operation (Fetching a bodies) (Fetching a' (remove1 body bodies))"
| refused: "body \<in> set bodies \<Longrightarrow> record_reply body (net body) a = Inl e \<Longrightarrow>
     drive_step net operation (Fetching a bodies) (Failed a e)"
| again: "drive_step net operation (Fetching a []) (Planning a)"

inductive_cases drive_step_PlanningE: "drive_step net operation (Planning a) s"
inductive_cases drive_step_FetchingE: "drive_step net operation (Fetching a bodies) s"
inductive_simps drive_step_ended:
  "drive_step net operation (Finished a v) s" "drive_step net operation (Failed a e) s"

abbreviation driven :: "(str \<Rightarrow> str) \<Rightarrow> 'a operation \<Rightarrow> 'a driver \<Rightarrow> bool" where
  "driven net operation \<equiv> (drive_step net operation)\<^sup>*\<^sup>* (Planning answers_new)"

section \<open>The blocking run\<close>

text \<open>An operation handed a transport that answers at once; \<open>questions\<close> are what it asks.\<close>

primrec blocking :: "(str \<Rightarrow> str) \<Rightarrow> 'a operation \<Rightarrow> flow_error + 'a" where
  "blocking net (Return v) = Inr v"
| "blocking net (Throw e) = Inl e"
| "blocking net (Post b k) = blocking net (k (Inr (net (as_str b))))"

primrec questions :: "(str \<Rightarrow> str) \<Rightarrow> 'a operation \<Rightarrow> str list" where
  "questions net (Return v) = []"
| "questions net (Throw e) = []"
| "questions net (Post b k) = as_str b # questions net (k (Inr (net (as_str b))))"

text \<open>
  An operation that may be driven: it only reads, and after a miss it gives up, without a
  result, with \<open>AnswerNeeded\<close> or with the failure it would have had anyway.
\<close>

primrec gives_up :: "(str \<Rightarrow> str) \<Rightarrow> flow_error + 'a \<Rightarrow> 'a operation \<Rightarrow> bool" where
  "gives_up net outcome (Return v) \<longleftrightarrow> False"
| "gives_up net outcome (Throw e) \<longleftrightarrow> e = FlowRpc AnswerNeeded \<or> outcome = Inl e"
| "gives_up net outcome (Post b k) \<longleftrightarrow> \<not> writes b \<and>
     gives_up net outcome (k (Inr (net (as_str b)))) \<and> gives_up net outcome (k (Inl AnswerNeeded))"

primrec drivable :: "(str \<Rightarrow> str) \<Rightarrow> 'a operation \<Rightarrow> bool" where
  "drivable net (Return v) \<longleftrightarrow> True"
| "drivable net (Throw e) \<longleftrightarrow> e \<noteq> FlowRpc AnswerNeeded"
| "drivable net (Post b k) \<longleftrightarrow> \<not> writes b \<and> drivable net (k (Inr (net (as_str b)))) \<and>
     gives_up net (blocking net (k (Inr (net (as_str b))))) (k (Inl AnswerNeeded))"

text \<open>
  What a round asks for when the replies to \<open>known\<close> are known, and what is known after each
  round in turn.
\<close>

primrec wants :: "(str \<Rightarrow> str) \<Rightarrow> str set \<Rightarrow> 'a operation \<Rightarrow> str list" where
  "wants net K (Return v) = []"
| "wants net K (Throw e) = []"
| "wants net K (Post b k) =
     (if writes b then wants net K (k (Inl WriteThroughCassette))
      else if as_str b \<in> K then wants net K (k (Inr (net (as_str b))))
      else as_str b # wants net K (k (Inl AnswerNeeded)))"

primrec known_after :: "(str \<Rightarrow> str) \<Rightarrow> 'a operation \<Rightarrow> nat \<Rightarrow> str set" where
  "known_after net op 0 = {}"
| "known_after net op (Suc n) = known_after net op n \<union> set (wants net (known_after net op n) op)"

text \<open>The requests an operation can make, whatever it is told.\<close>

inductive may_post :: "'a operation \<Rightarrow> request_body \<Rightarrow> bool" where
  here: "may_post (Post b k) b"
| later: "may_post (k r) b \<Longrightarrow> may_post (Post b' k) b"

inductive_simps may_post_simps [simp]:
  "may_post (Return v) b" "may_post (Throw e) b" "may_post (Post b' k) b"

section \<open>One round\<close>

lemma drivable_blocking: "drivable net op \<Longrightarrow> blocking net op \<noteq> Inl (FlowRpc AnswerNeeded)"
  by (induction op) auto

context answer_store begin

definition faithful :: "(str \<Rightarrow> str) \<Rightarrow> 's \<Rightarrow> bool" where
  "faithful net s \<longleftrightarrow> (\<forall>b r. reply_to s b = Some r \<longrightarrow> r = net b)"

lemma run_keeps_replies: "reply_to (snd (run_operation post op s)) = reply_to s"
  by (induction op arbitrary: s) (simp_all add: post_reply)

lemma wanted_step:
  "set (wanted s) \<subseteq> set (wanted (snd (post b s)))"
  "distinct (wanted s) \<Longrightarrow> distinct (wanted (snd (post b s)))"
  "x \<in> set (wanted (snd (post b s))) \<Longrightarrow> x \<in> set (wanted s) \<or> (x = as_str b \<and> \<not> writes b \<and> reply_to s x = None)"
  by (cases "writes b"; cases "reply_to s (as_str b)";
      auto simp: post_write post_hit post_wanted split: if_splits)+

lemma run_wanted_grows: "set (wanted s) \<subseteq> set (wanted (snd (run_operation post op s)))"
  by (induction op arbitrary: s) (use wanted_step(1) in fastforce)+

lemma run_wanted_distinct: "distinct (wanted s) \<Longrightarrow> distinct (wanted (snd (run_operation post op s)))"
  by (induction op arbitrary: s) (simp_all add: wanted_step(2))

lemma run_wants_reads:
  "x \<in> set (wanted (snd (run_operation post op s))) \<Longrightarrow>
     x \<in> set (wanted s) \<or> reply_to s x = None \<and> (\<exists>b. may_post op b \<and> \<not> writes b \<and> as_str b = x)"
proof (induction op arbitrary: s)
  case (Post b k)
  let ?k = "k (fst (post b s))"
  have "x \<in> set (wanted (snd (run_operation post ?k (snd (post b s)))))" using Post.prems by simp
  from Post.IH [OF _ this] consider
    (here) "x \<in> set (wanted (snd (post b s)))"
    | (later) "reply_to s x = None" "\<exists>b. may_post ?k b \<and> \<not> writes b \<and> as_str b = x"
    by (auto simp: post_reply)
  then show ?case
  proof cases
    case here
    then show ?thesis using wanted_step(3) [of x b s] may_post.here [of b k] by blast
  next
    case later
    then show ?thesis using may_post.later [of k] by blast
  qed
qed simp_all

lemma gives_up_round:
  "faithful net s \<Longrightarrow> gives_up net outcome op \<Longrightarrow>
   \<exists>e. fst (run_operation post op s) = Inl e \<and> (e = FlowRpc AnswerNeeded \<or> outcome = Inl e)"
proof (induction op arbitrary: s)
  case (Post b k)
  have s: "faithful net (snd (post b s))" using Post.prems(1) by (simp add: faithful_def post_reply)
  show ?case
  proof (cases "reply_to s (as_str b)")
    case None
    then have m: "fst (post b s) = Inl AnswerNeeded" using Post.prems(2) by (simp add: post_miss)
    have "gives_up net outcome (k (Inl AnswerNeeded))" using Post.prems(2) by simp
    from Post.IH [OF _ s this] show ?thesis by (simp add: m)
  next
    case (Some r)
    then have m: "fst (post b s) = Inr (net (as_str b))"
      using Post.prems by (auto simp: post_hit faithful_def)
    have "gives_up net outcome (k (Inr (net (as_str b))))" using Post.prems(2) by simp
    from Post.IH [OF _ s this] show ?thesis by (simp add: m)
  qed
qed simp_all

text \<open>A round asks for exactly what the operation wants with the known replies.\<close>

lemma run_wants:
  "faithful net s \<Longrightarrow> set (wanted (snd (run_operation post op s))) =
     set (wanted s) \<union> set (wants net (dom (reply_to s)) op)"
proof (induction op arbitrary: s)
  case (Post b k)
  have s: "faithful net (snd (post b s))" using Post.prems by (simp add: faithful_def post_reply)
  note IH = Post.IH [OF rangeI s]
  show ?case
  proof (cases "writes b")
    case True
    then show ?thesis using IH [of "Inl WriteThroughCassette"] by (simp add: post_write)
  next
    case read: False
    show ?thesis
    proof (cases "reply_to s (as_str b)")
      case None
      then show ?thesis
        using IH [of "Inl AnswerNeeded"] read by (auto simp: post_miss post_wanted post_reply dom_def)
    next
      case (Some r)
      then have "post b s = (Inr (net (as_str b)), s)" using read Post.prems by (auto simp: post_hit faithful_def)
      then show ?thesis using IH [of "Inr (net (as_str b))"] Some read by auto
    qed
  qed
qed simp_all

text \<open>A round gives the blocking outcome, or stops and wants something.\<close>

lemma drivable_round:
  "faithful net s \<Longrightarrow> drivable net op \<Longrightarrow>
     fst (run_operation post op s) = blocking net op \<or>
     fst (run_operation post op s) = Inl (FlowRpc AnswerNeeded) \<and> wants net (dom (reply_to s)) op \<noteq> []"
proof (induction op arbitrary: s)
  case (Post b k)
  have s: "faithful net (snd (post b s))" using Post.prems(1) by (simp add: faithful_def post_reply)
  let ?hit = "k (Inr (net (as_str b)))" and ?miss = "k (Inl AnswerNeeded)"
  have read: "\<not> writes b" using Post.prems(2) by simp
  show ?case
  proof (cases "reply_to s (as_str b)")
    case None
    then have m: "fst (post b s) = Inl AnswerNeeded" using read by (simp add: post_miss)
    have "gives_up net (blocking net ?hit) ?miss" using Post.prems(2) by simp
    from gives_up_round [OF s this] obtain e where
      "fst (run_operation post ?miss (snd (post b s))) = Inl e"
      "e = FlowRpc AnswerNeeded \<or> blocking net ?hit = Inl e" by blast
    then show ?thesis using m None read by auto
  next
    case (Some r)
    then have m: "fst (post b s) = Inr (net (as_str b))" "snd (post b s) = s"
      using Post.prems by (auto simp: post_hit faithful_def)
    have "drivable net ?hit" using Post.prems(2) by simp
    from Post.IH [OF _ Post.prems(1) this] show ?thesis using Some read by (auto simp: m)
  qed
qed simp_all

end

text \<open>
  Asking fewer than \<open>n\<close> different questions, an operation is settled within \<open>n\<close> rounds: each
  round but the last answers a question of the blocking run that was open.
\<close>

lemma wants_question:
  "drivable net op \<Longrightarrow> wants net K op \<noteq> [] \<Longrightarrow> \<exists>x \<in> set (questions net op) - K. x \<in> set (wants net K op)"
proof (induction op)
  case (Post b k)
  then show ?case
  proof (cases "as_str b \<in> K")
    case True
    have "drivable net (k (Inr (net (as_str b))))" "wants net K (k (Inr (net (as_str b)))) \<noteq> []"
      using Post.prems True by simp_all
    from Post.IH [OF rangeI this] show ?thesis using Post.prems(1) True by auto
  qed auto
qed simp_all

lemma settles_within_questions:
  assumes "drivable net op" "card (set (questions net op)) < m"
  shows "\<exists>n < m. wants net (known_after net op n) op = []"
proof (rule ccontr)
  assume n: "\<not> ?thesis"
  have "n \<le> card (set (questions net op) \<inter> known_after net op n)" if "n \<le> m" for n
    using that
  proof (induction n)
    case (Suc n)
    let ?K = "known_after net op n" and ?K' = "known_after net op (Suc n)"
    have "wants net ?K op \<noteq> []" using n Suc.prems by auto
    from wants_question [OF assms(1) this] obtain x where
      x: "x \<in> set (questions net op)" "x \<notin> ?K" "x \<in> ?K'" by auto
    have "set (questions net op) \<inter> ?K \<subseteq> set (questions net op) \<inter> ?K'" by auto
    moreover have "x \<in> set (questions net op) \<inter> ?K'" "x \<notin> set (questions net op) \<inter> ?K" using x by blast+
    ultimately have "card (set (questions net op) \<inter> ?K) < card (set (questions net op) \<inter> ?K')"
      by (intro psubset_card_mono) auto
    then show ?case using Suc by linarith
  qed simp
  from this [of m] have "m \<le> card (set (questions net op))"
    using card_mono [of "set (questions net op)" "set (questions net op) \<inter> known_after net op m"] by fastforce
  with assms(2) show False by simp
qed

section \<open>The invariant of the driver\<close>

abbreviation reply_known :: "answers_handle \<Rightarrow> str \<Rightarrow> str option" where
  "reply_known a \<equiv> map_of (answers (ah_cassette a))"

text \<open>No earlier round had everything it wanted.\<close>

definition unsettled :: "(str \<Rightarrow> str) \<Rightarrow> 'a operation \<Rightarrow> nat \<Rightarrow> bool" where
  "unsettled net op n \<longleftrightarrow> (\<forall>m < n. wants net (known_after net op m) op \<noteq> [])"

fun driver_ok :: "(str \<Rightarrow> str) \<Rightarrow> 'a operation \<Rightarrow> 'a driver \<Rightarrow> bool" where
  "driver_ok net op (Planning a) \<longleftrightarrow> tape.faithful net (ah_cassette a) \<and> \<not> ah_finished a \<and>
     dom (reply_known a) = known_after net op (ah_rounds a) \<and> unsettled net op (ah_rounds a)"
| "driver_ok net op (Fetching a bodies) \<longleftrightarrow> tape.faithful net (ah_cassette a) \<and> \<not> ah_finished a \<and>
     distinct bodies \<and>
     (\<forall>x \<in> set bodies. reply_known a x = None \<and> (\<exists>b. may_post op b \<and> \<not> writes b \<and> as_str b = x)) \<and>
     dom (reply_known a) \<union> set bodies = known_after net op (ah_rounds a) \<and> unsettled net op (ah_rounds a)"
| "driver_ok net op (Finished a v) \<longleftrightarrow> tape.faithful net (ah_cassette a) \<and> ah_finished a \<and>
     (\<exists>m. ah_rounds a = Suc m \<and> unsettled net op m) \<and> (drivable net op \<longrightarrow> blocking net op = Inr v)"
| "driver_ok net op (Failed a e) \<longleftrightarrow> tape.faithful net (ah_cassette a) \<and> \<not> ah_finished a \<and>
     (drivable net op \<longrightarrow> blocking net op = Inl e \<or>
        (\<exists>why. e = Stalled why) \<and> unsettled net op MAX_ROUNDS \<or>
        (\<exists>why b. e = NotReady why \<and> may_post op b \<and> \<not> writes b \<and> MAX_REPLY_BYTES < length (net (as_str b))))"

lemma forget_misses_simps [simp]:
  "answers (forget_misses c) = answers c" "outstanding (forget_misses c) = []"
  by (simp_all add: forget_misses_def outstanding_def)

lemma faithful_forget [simp]: "tape.faithful net (forget_misses c) = tape.faithful net c"
  by (simp add: tape.faithful_def)

text \<open>What a round of a live handle does, for any operation.\<close>

lemma advance_ends:
  assumes "ah_finished a \<or> MAX_ROUNDS \<le> ah_rounds a"
  shows "snd (advance_operation op a) = a"
    "fst (advance_operation op a) = Inl (if ah_finished a then AnswersSpent
       else Stalled (''still asking for more after '' @ dec_string MAX_ROUNDS @ '' rounds''))"
  using assms by (cases "ah_finished a"; simp add: advance_operation_def)+

lemma advance_round:
  assumes "advance_operation op a = (outcome, a')" "\<not> ah_finished a" "ah_rounds a < MAX_ROUNDS"
  shows "ah_rounds a' = Suc (ah_rounds a)" "reply_known a' = reply_known a"
    "ah_finished a' \<longleftrightarrow> (\<exists>v. outcome = Inr (Ready v))"
    "ah_cassette a' = snd (run_operation cassette_post op (forget_misses (ah_cassette a)))"
    "outcome = (case fst (run_operation cassette_post op (forget_misses (ah_cassette a))) of
        Inr v \<Rightarrow> Inr (Ready v)
      | Inl e \<Rightarrow> if e \<noteq> FlowRpc AnswerNeeded then Inl e
          else if outstanding (ah_cassette a') = []
          then Inl (Stalled ''an operation stopped for want of an answer without recording what it wanted'')
          else Inr (Ask (outstanding (ah_cassette a'))))"
  using assms tape.run_keeps_replies [of op "forget_misses (ah_cassette a)"]
  by (auto simp: advance_operation_def Let_def split: prod.splits sum.splits if_splits)

lemma advance_faithful:
  assumes "advance_operation op a = (outcome, a')"
  shows "tape.faithful net (ah_cassette a') = tape.faithful net (ah_cassette a)"
proof (cases "ah_finished a \<or> MAX_ROUNDS \<le> ah_rounds a")
  case True
  with assms show ?thesis using advance_ends(1) [OF True, of op] by simp
next
  case False
  with advance_round(2) [OF assms] show ?thesis by (simp add: tape.faithful_def)
qed

lemma advance_asks:
  assumes "advance_operation op a = (Inr (Ask bodies), a')"
  shows "\<not> ah_finished a" "ah_rounds a < MAX_ROUNDS" "bodies = outstanding (ah_cassette a')"
    "distinct bodies" "x \<in> set bodies \<Longrightarrow> reply_known a' x = None \<and> (\<exists>b. may_post op b \<and> \<not> writes b \<and> as_str b = x)"
proof -
  let ?c = "forget_misses (ah_cassette a)"
  show live: "\<not> ah_finished a" "ah_rounds a < MAX_ROUNDS"
    using assms advance_ends(2) [of a op] by (cases "ah_finished a"; cases "MAX_ROUNDS \<le> ah_rounds a"; simp)+
  note r = advance_round [OF assms live]
  show b: "bodies = outstanding (ah_cassette a')"
    using r(5) by (auto split: sum.splits if_splits)
  show "distinct bodies" unfolding b r(4) by (rule tape.run_wanted_distinct) simp
  show "reply_known a' x = None \<and> (\<exists>b. may_post op b \<and> \<not> writes b \<and> as_str b = x)" if "x \<in> set bodies"
    using tape.run_wants_reads [of x op ?c] that r(2) unfolding b r(4) by simp
qed

lemma asked_wants:
  assumes "advance_operation op a = (Inr (Ask bodies), a')" "tape.faithful net (ah_cassette a)"
  shows "set bodies = set (wants net (dom (reply_known a)) op)" "bodies \<noteq> []"
proof -
  let ?c = "forget_misses (ah_cassette a)"
  note live = advance_asks(1,2) [OF assms(1)]
  note r = advance_round [OF assms(1) live]
  show "set bodies = set (wants net (dom (reply_known a)) op)"
    using tape.run_wants [of net ?c op] assms(2) by (simp add: advance_asks(3) [OF assms(1)] r(4))
  show "bodies \<noteq> []"
    using r(5) advance_asks(3) [OF assms(1)] by (auto split: sum.splits if_splits)
qed

lemma failed_round:
  assumes "advance_operation op a = (Inl e, a')" "tape.faithful net (ah_cassette a)" "drivable net op"
    and "\<not> ah_finished a" "ah_rounds a < MAX_ROUNDS"
  shows "blocking net op = Inl e"
proof -
  let ?c = "forget_misses (ah_cassette a)"
  note r = advance_round [OF assms(1,4,5)]
  have "set (outstanding (ah_cassette a')) = set (wants net (dom (reply_known a)) op)"
    using tape.run_wants [of net ?c op] assms(2) by (simp add: r(4))
  then have w: "outstanding (ah_cassette a') = [] \<longleftrightarrow> wants net (dom (reply_known a)) op = []"
    by (metis set_empty)
  from tape.drivable_round [of net ?c op] assms(2,3) consider
    "fst (run_operation cassette_post op ?c) = blocking net op"
    | "fst (run_operation cassette_post op ?c) = Inl (FlowRpc AnswerNeeded)" "outstanding (ah_cassette a') \<noteq> []"
    using w by auto
  then show ?thesis
    using r(5) drivable_blocking [OF assms(3)] by cases (auto split: sum.splits if_splits)
qed

lemma ready_round:
  assumes "advance_operation op a = (Inr (Ready v), a')" "tape.faithful net (ah_cassette a)" "drivable net op"
    and "\<not> ah_finished a" "ah_rounds a < MAX_ROUNDS"
  shows "blocking net op = Inr v"
  using advance_round(5) [OF assms(1,4,5)] tape.drivable_round [of net "forget_misses (ah_cassette a)" op] assms(2,3)
  by (auto split: sum.splits if_splits)

lemma record_reply_cases:
  "record_reply x r a = Inr a' \<Longrightarrow> ah_rounds a' = ah_rounds a \<and> ah_finished a' = ah_finished a \<and>
     reply_known a' = (reply_known a)(x \<mapsto> r)"
  "record_reply x r a = Inl e \<Longrightarrow> (\<exists>why. e = NotReady why) \<and> MAX_REPLY_BYTES < length r"
  by (auto simp: record_reply_def answer_def split: if_splits)

lemma drive_step_ok:
  assumes "drive_step net op s s'" "driver_ok net op s"
  shows "driver_ok net op s'"
  using assms
proof (induction rule: drive_step.induct)
  case (ready a v a')
  have live: "\<not> ah_finished a" "ah_rounds a < MAX_ROUNDS"
    using ready advance_ends(2) [of a op] by (cases "MAX_ROUNDS \<le> ah_rounds a"; simp)+
  show ?case
    using ready ready_round [OF ready(1) _ _ live] advance_faithful [OF ready(1)]
      advance_round(1,3) [OF ready(1) live] by simp
next
  case (ask a bodies a')
  note live = advance_asks(1,2) [OF ask(1)]
  note r = advance_round [OF ask(1) live]
  note w = asked_wants [OF ask(1), of net]
  have "unsettled net op (Suc (ah_rounds a))"
    using ask(2) w by (auto simp: unsettled_def less_Suc_eq)
  then show ?case
    using ask(2) advance_faithful [OF ask(1)] r(1,2,3) advance_asks(4,5) [OF ask(1)] w(1) by auto
next
  case (fail a e a')
  then have f: "tape.faithful net (ah_cassette a')" using advance_faithful [OF fail(1)] by simp
  show ?case
  proof (cases "MAX_ROUNDS \<le> ah_rounds a")
    case True
    then have "a' = a" "\<exists>why. e = Stalled why"
      using fail advance_ends [of a op] by simp_all
    moreover have "unsettled net op MAX_ROUNDS" using True fail(2) by (auto simp: unsettled_def)
    ultimately show ?thesis using fail(2) by simp
  next
    case False
    then show ?thesis
      using fail(2) failed_round [OF fail(1), of net] advance_round(3) [OF fail(1)] f by auto
  qed
next
  case (reply x bodies a a')
  note r = record_reply_cases(1) [OF reply(2)]
  have "tape.faithful net (ah_cassette a')" using reply(3) r by (simp add: tape.faithful_def)
  moreover have "dom (reply_known a') \<union> set (remove1 x bodies) = dom (reply_known a) \<union> set bodies"
    using reply(1,3) r by auto
  ultimately show ?case using reply(3) r by auto
next
  case (refused x bodies a e)
  then show ?case using record_reply_cases(2) [OF refused(2)] by auto
next
  case (again a)
  then show ?case by simp
qed

lemma driven_ok: "driven net op s \<Longrightarrow> driver_ok net op s"
proof (induction rule: rtranclp_induct)
  case base
  show ?case by (simp add: answers_new_def cassette_new_def tape.faithful_def unsettled_def)
qed (rule drive_step_ok)

section \<open>What driving promises\<close>

text \<open>
  C17: driving any operation ends.  Whatever the operation asks and however the replies
  arrive, there is no infinite run of the loop: every round spends one of \<open>MAX_ROUNDS\<close> and
  every fetch shortens the list of that round.
\<close>

theorem driving_terminates: "wf {(s', s). drive_step net operation s s'}"
proof (rule wf_subset)
  let ?f = "\<lambda>s. case s of
      Planning a \<Rightarrow> (Suc (MAX_ROUNDS - ah_rounds a), 0)
    | Fetching a bodies \<Rightarrow> (Suc (MAX_ROUNDS - ah_rounds a), Suc (length bodies))
    | _ \<Rightarrow> (0::nat, 0::nat)"
  show "wf (inv_image (less_than <*lex*> less_than) ?f)" by auto
  have "(?f s', ?f s) \<in> less_than <*lex*> less_than" if "drive_step net operation s s'" for s s'
    using that
  proof (induction rule: drive_step.induct)
    case (ask a bodies a')
    then show ?case using advance_asks(1,2) [OF ask] advance_round(1) [OF ask] by simp
  next
    case (reply x bodies a a')
    then show ?case using record_reply_cases(1) [OF reply(2)] length_pos_if_in_set [OF reply(1)] by (simp add: length_remove1)
  qed auto
  then show "{(s', s). drive_step net operation s s'} \<subseteq> inv_image (less_than <*lex*> less_than) ?f"
    by auto
qed

lemma driven_outcome:
  assumes "drivable net operation" "driven net operation s" "\<And>s'. \<not> drive_step net operation s s'"
    and "n < MAX_ROUNDS" "wants net (known_after net operation n) operation = []"
    and "\<And>b. may_post operation b \<Longrightarrow> length (net (as_str b)) \<le> MAX_REPLY_BYTES"
  shows "case blocking net operation of
      Inr v \<Rightarrow> \<exists>a. s = Finished a v \<and> ah_rounds a \<le> Suc n
    | Inl e \<Rightarrow> \<exists>a. s = Failed a e"
proof (cases s)
  case (Planning a)
  obtain outcome a' where "advance_operation operation a = (outcome, a')" by (cases "advance_operation operation a")
  then have "\<exists>s'. drive_step net operation s s'"
    unfolding Planning by (cases outcome; cases "projr outcome") (auto intro: drive_step.intros)
  with assms(3) show ?thesis by blast
next
  case (Fetching a bodies)
  have "\<exists>s'. drive_step net operation s s'"
  proof (cases bodies)
    case (Cons x xs)
    then have x: "x \<in> set bodies" by simp
    show ?thesis
      unfolding Fetching using drive_step.reply [OF x] drive_step.refused [OF x]
      by (cases "record_reply x (net x) a") blast+
  qed (auto simp: Fetching intro: drive_step.again)
  with assms(3) show ?thesis by blast
next
  case (Finished a v)
  from driven_ok [OF assms(2)] obtain m where "ah_rounds a = Suc m" "unsettled net operation m"
    unfolding Finished by auto
  then have "ah_rounds a \<le> Suc n" using assms(5) by (auto simp: unsettled_def not_le [symmetric])
  with Finished driven_ok [OF assms(2)] assms(1) show ?thesis by simp
next
  case (Failed a e)
  have "\<not> unsettled net operation MAX_ROUNDS" using assms(4,5) by (auto simp: unsettled_def)
  with Failed driven_ok [OF assms(2)] assms(1,6) show ?thesis by (auto simp: not_le [symmetric])
qed

definition drives_as_blocking :: "(str \<Rightarrow> str) \<Rightarrow> 'a operation \<Rightarrow> nat \<Rightarrow> bool" where
  "drives_as_blocking net op n \<longleftrightarrow>
     (\<forall>s. driven net op s \<longrightarrow> (\<forall>s'. \<not> drive_step net op s s') \<longrightarrow>
        (\<forall>b. may_post op b \<longrightarrow> length (net (as_str b)) \<le> MAX_REPLY_BYTES) \<longrightarrow>
        (case blocking net op of
            Inr v \<Rightarrow> \<exists>a. s = Finished a v \<and> ah_rounds a \<le> Suc n
          | Inl e \<Rightarrow> \<exists>a. s = Failed a e))"

lemma drives_as_blockingI:
  assumes "drivable net op" "wants net (known_after net op n) op = []" "n < MAX_ROUNDS"
  shows "drives_as_blocking net op n"
  using driven_outcome [OF assms(1) _ _ assms(3,2)] unfolding drives_as_blocking_def by blast

text \<open>
  C18: driving is blocking, spread out.  For an operation that only reads and gives up when an
  answer is missing, a driven run that cannot go on has finished with the result of the
  blocking run, in at most \<open>n + 1\<close> rounds, or failed with its failure, provided every reply is at most
  \<open>MAX_REPLY_BYTES\<close> and the operation is settled after some \<open>n\<close> rounds, \<open>n\<close> below
  \<open>MAX_ROUNDS\<close>: it wants nothing more once it knows what those rounds asked for.
\<close>

theorem driving_refines_blocking:
  assumes "drivable net operation" "driven net operation s" "\<And>s'. \<not> drive_step net operation s s'"
    and "n < MAX_ROUNDS" "wants net (known_after net operation n) operation = []"
    and "\<And>b. may_post operation b \<Longrightarrow> length (net (as_str b)) \<le> MAX_REPLY_BYTES"
  shows "case blocking net operation of
      Inr v \<Rightarrow> \<exists>a. s = Finished a v \<and> ah_rounds a \<le> Suc n
    | Inl e \<Rightarrow> \<exists>a. s = Failed a e"
  using assms by (rule driven_outcome)

text \<open>
  Driving only reads, and a handle serves one operation.  Whatever the operation, every
  body the driver is asked to fetch is that of a request the operation made as a read, once
  and not yet answered; every reply held is the network's; and once a run has finished, the
  handle refuses every further operation and stays as it is.
\<close>

theorem driving_only_reads:
  assumes "driven net operation s"
  shows "(case s of
      Fetching a bodies \<Rightarrow> distinct bodies \<and> (\<forall>x \<in> set bodies. reply_known a x = None \<and>
        (\<exists>b. may_post operation b \<and> \<not> writes b \<and> as_str b = x))
    | Finished a v \<Rightarrow> \<forall>other. advance_operation other a = (Inl AnswersSpent :: flow_error + 'b driver_step, a)
    | _ \<Rightarrow> True) \<and>
   (\<forall>a x r. a = (case s of Planning a \<Rightarrow> a | Fetching a _ \<Rightarrow> a | Finished a _ \<Rightarrow> a | Failed a _ \<Rightarrow> a) \<and>
      reply_known a x = Some r \<longrightarrow> r = net x)"
  using driven_ok [OF assms] by (cases s) (auto simp: tape.faithful_def advance_operation_def)

section \<open>An operation that is driven\<close>

definition tip_body :: request_body where "tip_body = \<lparr>as_str = ''tip'', writes = False\<rparr>"

definition ask_tip :: "str operation" where
  "ask_tip = Post tip_body (\<lambda>r. case r of Inl e \<Rightarrow> Throw (FlowRpc e) | Inr t \<Rightarrow> Return t)"

definition tip_net :: "str \<Rightarrow> str" where "tip_net x = x @ ''!''"

definition asked_once :: answers_handle where
  "asked_once = answers_new\<lparr>ah_rounds := 1, ah_cassette := \<lparr>answers = [], missing = [''tip'']\<rparr>\<rparr>"

definition told :: answers_handle where
  "told = asked_once\<lparr>ah_cassette := \<lparr>answers = [(''tip'', ''tip!'')], missing = [''tip'']\<rparr>\<rparr>"

definition tip_finished :: answers_handle where
  "tip_finished = \<lparr>ah_cassette = \<lparr>answers = [(''tip'', ''tip!'')], missing = []\<rparr>, ah_rounds = 2, ah_finished = True\<rparr>"

lemmas tip_run_defs = answers_new_def cassette_new_def ask_tip_def tip_body_def asked_once_def told_def
  tip_finished_def tip_net_def advance_operation_def record_reply_def answer_def cassette_post_def
  forget_misses_def outstanding_def MAX_ROUNDS_def MAX_REPLY_BYTES_def

lemma tip_asked: "driven tip_net ask_tip (Fetching asked_once [''tip''])"
  by (rule r_into_rtranclp, rule drive_step.ask) (simp add: tip_run_defs)

lemma driven_step: "driven net op s \<Longrightarrow> drive_step net op s s' \<Longrightarrow> driven net op s'"
  by (rule rtranclp.rtrancl_into_rtrancl)

lemma tip_driven: "driven tip_net ask_tip (Finished tip_finished ''tip!'')"
proof -
  have "drive_step tip_net ask_tip (Fetching asked_once [''tip'']) (Fetching told (remove1 ''tip'' [''tip'']))"
    by (rule drive_step.reply) (simp_all add: tip_run_defs)
  from driven_step [OF tip_asked this] have "driven tip_net ask_tip (Fetching told [])" by simp
  then have "driven tip_net ask_tip (Planning told)" by (rule driven_step) (rule drive_step.again)
  then show ?thesis
  proof (rule driven_step)
    show "drive_step tip_net ask_tip (Planning told) (Finished tip_finished ''tip!'')"
      by (rule drive_step.ready) (simp add: tip_run_defs)
  qed
qed

lemma tip_may_post: "may_post ask_tip b \<Longrightarrow> b = tip_body"
proof -
  have "\<not> may_post (case r of Inl e \<Rightarrow> Throw (FlowRpc e) | Inr t \<Rightarrow> (Return t :: str operation)) b" for r
    by (cases r) simp_all
  then show "may_post ask_tip b \<Longrightarrow> b = tip_body" by (simp add: ask_tip_def)
qed

lemma driving_refines_blocking_witness:
  "drivable tip_net ask_tip \<and> wants tip_net (known_after tip_net ask_tip 1) ask_tip = [] \<and>
   (\<exists>a. Finished tip_finished ''tip!'' = Finished a (projr (blocking tip_net ask_tip)) \<and> ah_rounds a \<le> 2)"
proof -
  have d: "drivable tip_net ask_tip" "wants tip_net (known_after tip_net ask_tip 1) ask_tip = []"
    "blocking tip_net ask_tip = Inr ''tip!''"
    by (simp_all add: ask_tip_def tip_body_def tip_net_def)
  have "\<not> drive_step tip_net ask_tip (Finished tip_finished ''tip!'') s'" for s' by (simp add: drive_step_ended)
  moreover have "length (tip_net (as_str b)) \<le> MAX_REPLY_BYTES" if "may_post ask_tip b" for b
    using tip_may_post [OF that] by (simp add: tip_body_def tip_net_def MAX_REPLY_BYTES_def)
  ultimately show ?thesis
    using driving_refines_blocking [OF d(1) tip_driven _ _ d(2)] d by (simp add: MAX_ROUNDS_def)
qed

lemma driving_only_reads_witness:
  "\<exists>b. may_post ask_tip b \<and> \<not> writes b \<and> as_str b = ''tip''"
  using driving_only_reads [OF tip_asked] by simp

end
