(* ===== verification/Money.thy ===== *)
theory Money
  imports Rpc
begin

text \<open>
  Reading money out of JSON (\<open>verus-rpc/src/json.rs\<close>) and signed amounts
  (\<open>SignedAmount\<close> of \<open>verus-rpc/src/types.rs\<close>).  A field arrives as the text of its JSON
  token; the theorems say that no reader ever rounds it, and which tokens are accepted.
\<close>

section \<open>Signed amounts\<close>

datatype signed_amount = SignedAmount (signed_to_sat: i64)

definition signed_is_negative :: "signed_amount \<Rightarrow> bool" where
  "signed_is_negative a \<longleftrightarrow> signed_to_sat a <s 0"

definition signed_is_positive :: "signed_amount \<Rightarrow> bool" where
  "signed_is_positive a \<longleftrightarrow> 0 <s signed_to_sat a"

text \<open>\<open>i64::unsigned_abs\<close>: the magnitude as a \<open>u64\<close>, with \<open>2 ^ 63\<close> for the minimum.\<close>

definition magnitude :: "signed_amount \<Rightarrow> amount" where
  "magnitude a = Amount (if signed_is_negative a then - signed_to_sat a else signed_to_sat a)"

definition signed_checked_add :: "signed_amount \<Rightarrow> signed_amount \<Rightarrow> signed_amount option" where
  "signed_checked_add a b =
     (let sum = sint (signed_to_sat a) + sint (signed_to_sat b) in
      if - (2 ^ 63) \<le> sum \<and> sum < 2 ^ 63
      then Some (SignedAmount (signed_to_sat a + signed_to_sat b)) else None)"

definition signed_coins_string :: "signed_amount \<Rightarrow> str" where
  "signed_coins_string a =
     (let magnitude = to_coins_string (magnitude a) in
      if signed_is_negative a then ''-'' @ magnitude else magnitude)"

section \<open>Numbers in text\<close>

text \<open>\<open>i32::from_str\<close> and \<open>i64::from_str\<close>: an optional sign, digits, and the range.\<close>

definition parse_int :: "nat \<Rightarrow> str \<Rightarrow> int option" where
  "parse_int bits s =
     (let (negative, digits) = (case s of
          [] \<Rightarrow> (False, [])
        | c # t \<Rightarrow> if c = CHR ''-'' then (True, t) else if c = CHR ''+'' then (False, t) else (False, s));
          n = (if negative then - int (dec_value digits) else int (dec_value digits))
      in if digits \<noteq> [] \<and> all_digits digits \<and> - (2 ^ (bits - 1)) \<le> n \<and> n < 2 ^ (bits - 1)
         then Some n else None)"

definition is_exponent_mark :: "char \<Rightarrow> bool" where
  "is_exponent_mark c \<longleftrightarrow> c = CHR ''e'' \<or> c = CHR ''E''"

definition has_exponent :: "str \<Rightarrow> bool" where
  "has_exponent s \<longleftrightarrow> list_ex is_exponent_mark s"

text \<open>\<open>split_once\<close> at the first of the two characters.\<close>

definition split_exponent :: "str \<Rightarrow> (str \<times> str) option" where
  "split_exponent s =
     (if has_exponent s
      then Some (takeWhile (\<lambda>c. \<not> is_exponent_mark c) s, tl (dropWhile (\<lambda>c. \<not> is_exponent_mark c) s))
      else None)"

definition strip_prefix_char :: "char \<Rightarrow> str \<Rightarrow> str option" where
  "strip_prefix_char c s = (case s of d # t \<Rightarrow> if d = c then Some t else None | [] \<Rightarrow> None)"

definition unquote :: "str \<Rightarrow> str" where
  "unquote s =
     (let text = trim s;
          text = (case strip_prefix_char (CHR ''\"'') text of Some t \<Rightarrow> t | None \<Rightarrow> text)
      in case strip_prefix_char (CHR ''\"'') (rev text) of Some t \<Rightarrow> rev t | None \<Rightarrow> text)"

section \<open>Amounts\<close>

definition MAX_EXPONENT :: int where "MAX_EXPONENT = 100"
definition MAX_NATIVE_SATS :: u64 where "MAX_NATIVE_SATS = 1000000000 * SATS_PER_COIN"
definition MAX_CURRENCY_SATS :: u64 where "MAX_CURRENCY_SATS = 0x7fffffffffffffff"

text \<open>
  \<open>RawValue::from_string\<close> of \<open>serde_json\<close>: the text itself when it is JSON.  A parameter.
\<close>

type_synonym raw_value = "str \<Rightarrow> str option"

definition above_ceiling :: "str \<Rightarrow> str \<Rightarrow> u64 \<Rightarrow> rpc_error" where
  "above_ceiling field shown ceiling =
     OutOfRange (field @ '': '' @ shown @ '' coins exceeds the '' @
       dec_string (unat (ceiling div SATS_PER_COIN)) @ ''-coin ceiling this crate will believe'')"

definition bounded :: "amount \<Rightarrow> str \<Rightarrow> u64 \<Rightarrow> rpc_error + amount" where
  "bounded a field ceiling =
     (if ceiling < to_sat a then Inl (above_ceiling field (to_coins_string a) ceiling) else Inr a)"

definition coins_bounded :: "str \<Rightarrow> str \<Rightarrow> u64 \<Rightarrow> rpc_error + amount" where
  "coins_bounded raw field ceiling =
     (let text = unquote raw in
      rbind (refuse_if (has_exponent text) (LossyNumber field text)) (\<lambda>_.
      rbind (map_err (\<lambda>_. LossyNumber field text) (from_coins_str text)) (\<lambda>a.
      bounded a field ceiling)))"

definition shift_point :: "str \<Rightarrow> int \<Rightarrow> str" where
  "shift_point digits point =
     (if point \<le> 0 then ''0.'' @ replicate (nat (- point)) (CHR ''0'') @ digits
      else if length digits \<le> nat point then digits @ replicate (nat point - length digits) (CHR ''0'')
      else take (nat point) digits @ ''.'' @ drop (nat point) digits)"

definition checked_point :: "nat \<Rightarrow> int \<Rightarrow> int option" where
  "checked_point whole exponent =
     (if int whole < 2 ^ 31 \<and> int whole + exponent < 2 ^ 31 \<and> - (2 ^ 31) \<le> int whole + exponent
      then Some (int whole + exponent) else None)"

definition expand_exponent :: "str \<Rightarrow> str option" where
  "expand_exponent text =
     Option.bind (split_exponent text) (\<lambda>(mantissa, exponent).
     Option.bind (parse_int 32 exponent) (\<lambda>exponent.
     if MAX_EXPONENT < \<bar>exponent\<bar> then None
     else
       let (negative, mantissa) = (case strip_prefix_char (CHR ''-'') mantissa of
               Some t \<Rightarrow> (True, t) | None \<Rightarrow> (False, mantissa));
           (whole, fraction) = (case split_once (CHR ''.'') mantissa of
               Some p \<Rightarrow> p | None \<Rightarrow> (mantissa, []))
       in if whole = [] \<and> fraction = [] then None
          else if \<not> all_digits (whole @ fraction) then None
          else Option.bind (checked_point (length whole) exponent) (\<lambda>point.
            let shifted = shift_point (whole @ fraction) point in
            Some (if negative then ''-'' @ shifted else shifted))))"

definition lenient_coins :: "raw_value \<Rightarrow> str \<Rightarrow> str \<Rightarrow> u64 \<Rightarrow> rpc_error + amount" where
  "lenient_coins from_string raw field ceiling =
     (let text = unquote raw in
      case expand_exponent text of
        Some plain \<Rightarrow>
          rbind (ok_or (from_string plain) (LossyNumber field text)) (\<lambda>expanded.
          coins_bounded expanded field ceiling)
      | None \<Rightarrow> coins_bounded raw field ceiling)"

definition currency_coins :: "raw_value \<Rightarrow> str \<Rightarrow> str \<Rightarrow> rpc_error + amount" where
  "currency_coins from_string raw field = lenient_coins from_string raw field MAX_CURRENCY_SATS"

definition native_coins_lenient :: "raw_value \<Rightarrow> str \<Rightarrow> str \<Rightarrow> rpc_error + amount" where
  "native_coins_lenient from_string raw field = lenient_coins from_string raw field MAX_NATIVE_SATS"

definition satoshis :: "str \<Rightarrow> str \<Rightarrow> rpc_error + amount" where
  "satoshis raw field =
     (let text = unquote raw in
      rbind (ok_or (map_option Amount (parse_u64 text)) (LossyNumber field text)) (\<lambda>a.
      bounded a field MAX_NATIVE_SATS))"

definition bounded_signed :: "signed_amount \<Rightarrow> str \<Rightarrow> u64 \<Rightarrow> rpc_error + signed_amount" where
  "bounded_signed a field ceiling =
     (if ceiling < to_sat (magnitude a) then Inl (above_ceiling field (signed_coins_string a) ceiling)
      else Inr a)"

definition signed_satoshis :: "str \<Rightarrow> str \<Rightarrow> rpc_error + signed_amount" where
  "signed_satoshis raw field =
     (let text = unquote raw in
      rbind (ok_or (parse_int 64 text) (LossyNumber field text)) (\<lambda>n.
      bounded_signed (SignedAmount (word_of_int n)) field MAX_NATIVE_SATS))"

definition signed_currency_coins :: "raw_value \<Rightarrow> str \<Rightarrow> str \<Rightarrow> rpc_error + signed_amount" where
  "signed_currency_coins from_string raw field =
     (let text = unquote raw;
          (negative, magnitude) = (case strip_prefix_char (CHR ''-'') text of
              Some t \<Rightarrow> (True, t) | None \<Rightarrow> (False, text))
      in rbind (ok_or (from_string magnitude) (LossyNumber field text)) (\<lambda>magnitude.
         rbind (currency_coins from_string magnitude field) (\<lambda>a.
         rbind (refuse_if (2 ^ 63 \<le> unat (to_sat a))
           (OutOfRange (field @ '': '' @ to_coins_string a @ '' coins does not fit''))) (\<lambda>_.
         Inr (SignedAmount (if negative then - to_sat a else to_sat a))))))"

section \<open>Tokens\<close>

text \<open>The digits of a number without a sign: a whole part, and a fraction after a point.\<close>

definition plain_number :: "str \<Rightarrow> str \<Rightarrow> str" where
  "plain_number w f = w @ (if f = [] then [] else CHR ''.'' # f)"

text \<open>The whole part of a JSON number: no leading zero.\<close>

definition json_int :: "str \<Rightarrow> bool" where
  "json_int w \<longleftrightarrow> w = ''0'' \<or> w \<noteq> [] \<and> all_digits w \<and> hd w \<noteq> CHR ''0''"

text \<open>A JSON number that is not negative, read as whole part, fraction and exponent.\<close>

definition money_token :: "str \<Rightarrow> str \<Rightarrow> str \<Rightarrow> int \<Rightarrow> bool" where
  "money_token text w f x \<longleftrightarrow> json_int w \<and> all_digits f \<and>
     (text = plain_number w f \<and> x = 0 \<or>
      (\<exists>c s. is_exponent_mark c \<and> text = plain_number w f @ c # s \<and> parse_int 32 s = Some x))"

text \<open>
  What is used of \<open>RawValue::from_string\<close>: it keeps the text, takes a JSON number, and takes a
  plain decimal number only when it is one.
\<close>

definition json_texts :: "raw_value \<Rightarrow> bool" where
  "json_texts from_string \<longleftrightarrow>
     (\<forall>s t. from_string s = Some t \<longrightarrow> t = s) \<and>
     (\<forall>w f. all_digits w \<longrightarrow> all_digits f \<longrightarrow> w \<noteq> [] \<longrightarrow>
        from_string (plain_number w f) = (if json_int w then Some (plain_number w f) else None)) \<and>
     (\<forall>text w f x. money_token text w f x \<longrightarrow> from_string text = Some text)"

lemma json_int_digits: "json_int w \<Longrightarrow> all_digits w \<and> w \<noteq> []"
  by (auto simp: json_int_def is_ascii_digit_def)

definition token_char :: "char \<Rightarrow> bool" where
  "token_char c \<longleftrightarrow> plain_char c \<and> c \<noteq> CHR ''\"''"

lemma token_char_digit: "is_ascii_digit c \<Longrightarrow> token_char c \<and> \<not> is_exponent_mark c"
  by (auto simp: token_char_def digit_plain is_ascii_digit_def is_exponent_mark_def)

lemma unquote_plain:
  assumes "\<forall>c \<in> set s. token_char c"
  shows "unquote s = s"
proof -
  have t: "trim s = s" using assms by (intro trim_plain) (auto simp: token_char_def)
  have "strip_prefix_char (CHR ''\"'') s = None" "strip_prefix_char (CHR ''\"'') (rev s) = None"
    using assms by (auto simp: strip_prefix_char_def token_char_def split: list.splits)
  with t show ?thesis by (simp add: unquote_def)
qed

lemma plain_number_chars:
  assumes "all_digits w" "all_digits f"
  shows "\<forall>c \<in> set (plain_number w f). token_char c \<and> \<not> is_exponent_mark c"
proof -
  have "token_char (CHR ''.'')" "\<not> is_exponent_mark (CHR ''.'')"
    by (simp_all add: token_char_def plain_char_def is_exponent_mark_def)
  then show ?thesis
    using assms token_char_digit by (auto simp: plain_number_def all_digits_def list_all_iff)
qed

lemma parse_int_chars: "parse_int bits s = Some x \<Longrightarrow> \<forall>c \<in> set s. token_char c"
  using token_char_digit
  by (auto simp: parse_int_def token_char_def plain_char_def all_digits_def list_all_iff Let_def
      split: list.splits if_splits)

section \<open>Plain decimals\<close>

lemma from_coins_plain:
  assumes "all_digits w" "all_digits f" "w \<noteq> []"
  shows "from_coins_str (plain_number w f) = Inr a \<longleftrightarrow>
    length f \<le> 8 \<and> sats a = dec_value (w @ f) * 10 ^ (8 - length f)"
proof -
  let ?s = "plain_number w f"
  have t: "trim ?s = ?s"
    using plain_number_chars [OF assms(1,2)] by (intro trim_plain) (auto simp: token_char_def)
  have split: "(case split_once (CHR ''.'') ?s of Some p \<Rightarrow> p | None \<Rightarrow> (?s, [])) = (w, f)"
    using all_digits_no_point [OF assms(1)] split_once_None [of "CHR ''.''" w] split_once_Some [of "CHR ''.''" ?s w f]
    by (auto simp: plain_number_def)
  have "coins_numeral ?s w' f' \<longleftrightarrow> w' = w \<and> f' = f \<and> length f \<le> 8" for w' f'
  proof
    assume n: "coins_numeral ?s w' f'"
    with coins_numeral_parts(4) [OF n] split show "w' = w \<and> f' = f \<and> length f \<le> 8"
      by (auto simp: coins_numeral_def)
  next
    assume "w' = w \<and> f' = f \<and> length f \<le> 8"
    then show "coins_numeral ?s w' f'" using assms by (auto simp: coins_numeral_def plain_number_def)
  qed
  moreover have "coins_value w f = dec_value (w @ f) * 10 ^ (8 - length f)" if "length f \<le> 8"
  proof -
    have "(10::nat) ^ length f * 10 ^ (8 - length f) = 100000000"
      using that by (simp add: power_add [symmetric])
    then show ?thesis by (simp add: coins_value_def algebra_simps flip: mult.assoc)
  qed
  ultimately show ?thesis
    unfolding from_coins_str_Inr t using sats_bound [of a] by auto
qed

lemma coins_bounded_plain:
  assumes "all_digits w" "all_digits f" "w \<noteq> []"
  shows "coins_bounded (plain_number w f) field ceiling = Inr a \<longleftrightarrow>
    length f \<le> 8 \<and> sats a = dec_value (w @ f) * 10 ^ (8 - length f) \<and> sats a \<le> unat ceiling"
proof -
  have u: "unquote (plain_number w f) = plain_number w f" "\<not> has_exponent (plain_number w f)"
    using plain_number_chars [OF assms(1,2)] by (auto intro!: unquote_plain simp: has_exponent_def list_ex_iff)
  have "coins_bounded (plain_number w f) field ceiling = Inr a \<longleftrightarrow>
      from_coins_str (plain_number w f) = Inr a \<and> sats a \<le> unat ceiling"
    by (cases "from_coins_str (plain_number w f)")
      (auto simp: coins_bounded_def u Let_def refuse_if_def map_err_def bounded_def word_less_nat_alt)
  then show ?thesis using from_coins_plain [OF assms] by blast
qed

section \<open>Exponents\<close>

lemma hd_take_digits: "0 < n \<Longrightarrow> ds \<noteq> [] \<Longrightarrow> hd (take n ds) = hd ds"
  by (cases ds; cases n) auto

lemma json_int_take:
  assumes "json_int w" "all_digits f" "0 < n" "n < length (w @ f)" "int n = int (length w) + x"
  shows "json_int (take n (w @ f)) \<longleftrightarrow> (w = ''0'' \<longrightarrow> x \<le> 0)"
proof (cases "w = ''0''")
  case True
  then show ?thesis using assms(3-5) by (cases n) (auto simp: json_int_def)
next
  case False
  then have w: "w \<noteq> []" "all_digits w" "hd w \<noteq> CHR ''0''" using assms(1) by (auto simp: json_int_def)
  have "all_digits (take n (w @ f))"
    using w(2) assms(2) by (auto simp: all_digits_def list_all_iff dest: in_set_takeD)
  moreover have "hd (take n (w @ f)) \<noteq> CHR ''0''" using w(1,3) assms(3) by (simp add: hd_take_digits)
  ultimately show ?thesis using False w(1) assms(3) by (auto simp: json_int_def)
qed

lemma shift_point_plain:
  assumes "json_int w" "all_digits f"
  shows "\<exists>w' f'. shift_point (w @ f) (int (length w) + x) = plain_number w' f' \<and>
    all_digits w' \<and> all_digits f' \<and> w' \<noteq> [] \<and> (json_int w' \<longleftrightarrow> (w = ''0'' \<longrightarrow> x \<le> 0)) \<and>
    (length f' \<le> 8 \<longleftrightarrow> int (length f) \<le> 8 + x) \<and>
    (length f' \<le> 8 \<longrightarrow> dec_value (w' @ f') * 10 ^ (8 - length f') =
       dec_value (w @ f) * 10 ^ nat (8 + x - int (length f)))"
proof -
  let ?d = "w @ f" and ?p = "int (length w) + x"
  note w = json_int_digits [OF assms(1)]
  consider (small) "?p \<le> 0" | (large) "0 < ?p" "length ?d \<le> nat ?p"
    | (mid) "0 < ?p" "nat ?p < length ?d" by linarith
  then show ?thesis
  proof cases
    case small
    let ?f = "replicate (nat (- ?p)) (CHR ''0'') @ ?d"
    have len: "int (length ?f) = int (length f) - x" using small by simp
    have l: "length ?f \<le> 8 \<longleftrightarrow> int (length f) \<le> 8 + x" "8 - length ?f = nat (8 + x - int (length f))"
      using len by linarith+
    have "shift_point ?d ?p = plain_number ''0'' ?f" using small w by (simp add: shift_point_def plain_number_def)
    moreover have "all_digits ''0''" "all_digits ?f" using w assms(2) by (simp_all add: is_ascii_digit_def)
    moreover have "json_int ''0'' \<longleftrightarrow> (w = ''0'' \<longrightarrow> x \<le> 0)" using small w by (auto simp: json_int_def)
    moreover have "dec_value (''0'' @ ?f) = dec_value ?d" by (simp add: digit_value_def)
    ultimately show ?thesis by (intro exI [of _ "''0''"] exI [of _ ?f] conjI) (simp_all only: l list.simps simp_thms)
  next
    case large
    let ?w = "?d @ replicate (nat ?p - length ?d) (CHR ''0'')"
    have n: "nat ?p - length ?d = nat (x - int (length f))" "int (length f) \<le> x" using large by auto
    have e: "nat (8 + x - int (length f)) = 8 + (nat ?p - length ?d)" using n by linarith
    have "json_int ?w \<longleftrightarrow> (w = ''0'' \<longrightarrow> x \<le> 0)"
    proof (cases "w = ''0''")
      case True
      then show ?thesis using n by (cases f) (auto simp: json_int_def)
    next
      case False
      then show ?thesis using assms w by (auto simp: json_int_def)
    qed
    moreover have "shift_point ?d ?p = plain_number ?w []" using large by (simp add: shift_point_def plain_number_def)
    moreover have "dec_value (?w @ []) * 10 ^ (8 - length ([] :: str)) = dec_value ?d * 10 ^ nat (8 + x - int (length f))"
      unfolding e by (simp add: power_add algebra_simps)
    moreover have "all_digits ?w" "?w \<noteq> []" "length ([] :: str) \<le> 8 \<longleftrightarrow> int (length f) \<le> 8 + x"
      using w assms(2) n by simp_all
    ultimately show ?thesis using all_digits_simps(1) by blast
  next
    case mid
    let ?w = "take (nat ?p) ?d" and ?f = "drop (nat ?p) ?d"
    have len: "int (length ?f) = int (length f) - x" using mid by auto
    have l: "length ?f \<le> 8 \<longleftrightarrow> int (length f) \<le> 8 + x" "8 - length ?f = nat (8 + x - int (length f))"
      using len by linarith+
    have "?f \<noteq> []" using mid by (simp del: drop_append)
    then have "shift_point ?d ?p = plain_number ?w ?f"
      using mid by (simp add: shift_point_def plain_number_def del: take_append drop_append)
    moreover have "json_int ?w \<longleftrightarrow> (w = ''0'' \<longrightarrow> x \<le> 0)"
      by (rule json_int_take [OF assms]) (use mid in linarith)+
    moreover have "all_digits ?w" "all_digits ?f" "?w \<noteq> []"
      using w assms(2) mid by (auto simp: all_digits_def list_all_iff dest: in_set_takeD in_set_dropD)
    ultimately show ?thesis
      by (intro exI [of _ ?w] exI [of _ ?f] conjI) (simp_all only: l append_take_drop_id simp_thms)
  qed
qed

lemma strip_minus_digits: "all_digits w \<Longrightarrow> strip_prefix_char (CHR ''-'') (plain_number w f) = None"
  using digit_not_punctuation by (cases w) (auto simp: strip_prefix_char_def plain_number_def)

lemma split_plain_number:
  assumes "all_digits w"
  shows "(case split_once (CHR ''.'') (plain_number w f) of Some p \<Rightarrow> p | None \<Rightarrow> (plain_number w f, [])) = (w, f)"
  using all_digits_no_point [OF assms] split_once_None [of "CHR ''.''" w]
    split_once_Some [of "CHR ''.''" "plain_number w f" w f]
  by (auto simp: plain_number_def)

lemma expand_token:
  assumes "json_int w" "all_digits f" "is_exponent_mark c" "parse_int 32 s = Some x" "length w < 2 ^ 30"
  shows "expand_exponent (plain_number w f @ c # s) =
    (if 100 < \<bar>x\<bar> then None else Some (shift_point (w @ f) (int (length w) + x)))"
proof -
  note w = json_int_digits [OF assms(1)]
  have m: "\<forall>c \<in> set (plain_number w f). \<not> is_exponent_mark c"
    using plain_number_chars [of w f] w assms(2) by blast
  have "split_exponent (plain_number w f @ c # s) = Some (plain_number w f, s)"
    using m assms(3) by (auto simp: split_exponent_def has_exponent_def takeWhile_append2 dropWhile_append2)
  moreover have "checked_point (length w) x = Some (int (length w) + x)" if "\<bar>x\<bar> \<le> 100"
  proof -
    have "int (length w) < 1073741824" using assms(5) by simp
    then show ?thesis using that by (simp add: checked_point_def abs_le_iff)
  qed
  ultimately show ?thesis
    using w assms(2,4) strip_minus_digits [of w f] split_plain_number [of w f]
    by (simp add: expand_exponent_def MAX_EXPONENT_def Let_def)
qed

section \<open>Reading is exact\<close>

lemma lenient_coins_exact:
  assumes "json_texts from_string" "money_token text w f x" "length w < 2 ^ 30"
  shows "lenient_coins from_string text field ceiling = Inr a \<longleftrightarrow>
    \<bar>x\<bar> \<le> 100 \<and> (w = ''0'' \<longrightarrow> x \<le> 0) \<and> int (length f) \<le> 8 + x \<and>
    sats a = dec_value (w @ f) * 10 ^ nat (8 + x - int (length f)) \<and> sats a \<le> unat ceiling"
proof -
  have j: "json_int w" "all_digits f" using assms(2) by (simp_all add: money_token_def)
  note w = json_int_digits [OF j(1)]
  from assms(2) consider (plain) "text = plain_number w f" "x = 0"
    | (exponent) c s where "is_exponent_mark c" "text = plain_number w f @ c # s" "parse_int 32 s = Some x"
    by (auto simp: money_token_def)
  then show ?thesis
  proof cases
    case plain
    have "\<not> has_exponent text" "unquote text = text"
      using plain_number_chars [of w f] w j(2)
      by (auto simp: plain has_exponent_def list_ex_iff intro!: unquote_plain)
    then have "lenient_coins from_string text field ceiling = coins_bounded text field ceiling"
      by (simp add: lenient_coins_def Let_def expand_exponent_def split_exponent_def)
    moreover have "8 - length f = nat (8 + x - int (length f))" using plain by linarith
    ultimately show ?thesis
      using coins_bounded_plain [of w f field ceiling a] w j(2) plain by auto
  next
    case exponent
    have "token_char c" using exponent(1) by (auto simp: is_exponent_mark_def token_char_def plain_char_def)
    then have "\<forall>ch \<in> set text. token_char ch"
      unfolding exponent(2) using plain_number_chars [of w f] w j(2) parse_int_chars [OF exponent(3)] by auto
    then have u: "unquote text = text" by (rule unquote_plain)
    have e: "has_exponent text" using exponent(1) by (simp add: exponent(2) has_exponent_def)
    note x = expand_token [OF j exponent(1,3) assms(3)]
    show ?thesis
    proof (cases "100 < \<bar>x\<bar>")
      case True
      then show ?thesis using x u e by (simp add: lenient_coins_def coins_bounded_def refuse_if_def exponent(2) Let_def)
    next
      case False
      from shift_point_plain [OF j, of x] obtain w' f' where
        s: "shift_point (w @ f) (int (length w) + x) = plain_number w' f'" "all_digits w'" "all_digits f'" "w' \<noteq> []"
        and v: "json_int w' \<longleftrightarrow> (w = ''0'' \<longrightarrow> x \<le> 0)" "length f' \<le> 8 \<longleftrightarrow> int (length f) \<le> 8 + x"
          "length f' \<le> 8 \<longrightarrow> dec_value (w' @ f') * 10 ^ (8 - length f') =
             dec_value (w @ f) * 10 ^ nat (8 + x - int (length f))" by blast
      have "from_string (plain_number w' f') = (if json_int w' then Some (plain_number w' f') else None)"
        using assms(1) s(2-4) by (simp add: json_texts_def)
      then have "lenient_coins from_string text field ceiling = Inr a \<longleftrightarrow>
          json_int w' \<and> coins_bounded (plain_number w' f') field ceiling = Inr a"
        using x False u by (simp add: lenient_coins_def Let_def exponent(2) s(1) ok_or_def)
      then show ?thesis
        using coins_bounded_plain [OF s(2-4), of field ceiling a] v False by (metis linorder_not_less)
    qed
  qed
qed

text \<open>
  Money is read exactly.  For a JSON number that is not negative, with whole part
  \<open>w\<close>, fraction \<open>f\<close> and exponent \<open>x\<close>, the reader of coins answers exactly when the value
  needs no ninth decimal place as it is spelled, is at most the ceiling, and the exponent is
  at most 100 in size and does not shift a leading zero into the whole part; the answer is
  that value in satoshis, with nothing rounded.  So the two spellings of one value agree.
\<close>

theorem coins_read_exactly:
  assumes "json_texts from_string" "money_token text w f x" "length w < 2 ^ 30"
  shows "lenient_coins from_string text field ceiling = Inr a \<longleftrightarrow>
    \<bar>x\<bar> \<le> 100 \<and> (w = ''0'' \<longrightarrow> x \<le> 0) \<and> int (length f) \<le> 8 + x \<and>
    sats a = dec_value (w @ f) * 10 ^ nat (8 + x - int (length f)) \<and> sats a \<le> unat ceiling"
  using assms by (rule lenient_coins_exact)

lemma sint_signed:
  assumes "unat (w :: u64) < 2 ^ 63"
  shows "sint w = int (unat w)" "sint (- w) = - int (unat w)"
proof -
  have "int (unat w) < int (2 ^ 63)" using assms by (simp only: of_nat_less_iff)
  then have b: "uint w < 2 ^ 63" by simp
  have l: "- (2 ^ 63) \<le> uint w" by (rule order_trans [OF _ uint_ge_0]) simp
  have "sint w = uint w" using b l by (simp add: sint_uint signed_take_bit_int_eq_self)
  then show w: "sint w = int (unat w)" by simp
  have "- uint w < 2 ^ 63" by (rule le_less_trans [of _ 0]) simp_all
  then have m: "signed_take_bit 63 (- uint w) = - uint w" using b by (intro signed_take_bit_int_eq_self) simp_all
  have "sint (- w) = sint (word_of_int (- uint w) :: u64)" by simp
  also have "\<dots> = - uint w" by (subst sint_sbintrunc') (simp add: m)
  finally show "sint (- w) = - int (unat w)" by simp
qed

lemma signed_amount_eq: "a = SignedAmount v \<longleftrightarrow> sint (signed_to_sat a) = sint v"
  using signed_word_eqI [of "signed_to_sat a" v] by (cases a) auto

lemma token_chars:
  assumes "money_token text w f x"
  shows "\<forall>c \<in> set text. token_char c" "text \<noteq> []" "is_ascii_digit (hd text)"
proof -
  have d: "all_digits w" "w \<noteq> []" "all_digits f"
    using assms json_int_digits by (auto simp: money_token_def)
  note p = plain_number_chars [OF d(1,3)]
  have "token_char c" if "is_exponent_mark c" for c
    using that by (auto simp: is_exponent_mark_def token_char_def plain_char_def)
  then show "\<forall>c \<in> set text. token_char c"
    using assms p parse_int_chars [of 32] by (auto simp: money_token_def)
  show "text \<noteq> []" "is_ascii_digit (hd text)"
    using assms d by (cases w; auto simp: money_token_def plain_number_def)+
qed

text \<open>
  A movement keeps its sign.  A signed field with an optional minus is read exactly when
  its magnitude is, up to \<open>i64::MAX\<close>, and is that many satoshis with that sign; no magnitude
  the reader accepts overflows the signed type.
\<close>

theorem signed_coins_exact:
  assumes "json_texts from_string" "money_token text w f x" "length w < 2 ^ 30"
  shows "signed_currency_coins from_string ((if negative then ''-'' else []) @ text) field = Inr a \<longleftrightarrow>
    \<bar>x\<bar> \<le> 100 \<and> (w = ''0'' \<longrightarrow> x \<le> 0) \<and> int (length f) \<le> 8 + x \<and>
    (let n = dec_value (w @ f) * 10 ^ nat (8 + x - int (length f)) in
     n < 2 ^ 63 \<and> sint (signed_to_sat a) = (if negative then - int n else int n))"
proof -
  let ?t = "(if negative then ''-'' else []) @ text"
  note c = token_chars [OF assms(2)]
  have "token_char (CHR ''-'')" by (simp add: token_char_def plain_char_def)
  then have u: "unquote ?t = ?t" using c(1) by (intro unquote_plain) auto
  have s: "(case strip_prefix_char (CHR ''-'') ?t of Some t \<Rightarrow> (True, t) | None \<Rightarrow> (False, ?t)) = (negative, text)"
    using c(2,3) digit_not_punctuation by (cases "text") (auto simp: strip_prefix_char_def)
  have j: "from_string text = Some text" using assms(1,2) unfolding json_texts_def by blast
  have "signed_currency_coins from_string ?t field = Inr a \<longleftrightarrow>
      (\<exists>b. currency_coins from_string text field = Inr b \<and> sats b < 2 ^ 63 \<and>
        a = SignedAmount (if negative then - to_sat b else to_sat b))"
    by (auto simp: signed_currency_coins_def Let_def u s j rbind_Inr_iff refuse_if_Inr_iff ok_or_def)
  also have "\<dots> \<longleftrightarrow> (\<exists>b. lenient_coins from_string text field MAX_CURRENCY_SATS = Inr b \<and>
      sint (signed_to_sat a) = (if negative then - int (sats b) else int (sats b)))"
  proof -
    have "a = SignedAmount (if negative then - to_sat b else to_sat b) \<longleftrightarrow>
        sint (signed_to_sat a) = (if negative then - int (sats b) else int (sats b))"
      "sats b < 2 ^ 63" if "currency_coins from_string text field = Inr b" for b
    proof -
      have "sats b \<le> unat MAX_CURRENCY_SATS"
        using that lenient_coins_exact [OF assms, of field MAX_CURRENCY_SATS b] by (simp add: currency_coins_def)
      then show b: "sats b < 2 ^ 63" by (simp add: MAX_CURRENCY_SATS_def)
      show "a = SignedAmount (if negative then - to_sat b else to_sat b) \<longleftrightarrow>
          sint (signed_to_sat a) = (if negative then - int (sats b) else int (sats b))"
        using sint_signed [OF b] signed_amount_eq [of a] by simp
    qed
    then show ?thesis unfolding currency_coins_def by blast
  qed
  also have "\<dots> \<longleftrightarrow> \<bar>x\<bar> \<le> 100 \<and> (w = ''0'' \<longrightarrow> x \<le> 0) \<and> int (length f) \<le> 8 + x \<and>
    (let n = dec_value (w @ f) * 10 ^ nat (8 + x - int (length f)) in
     n < 2 ^ 63 \<and> sint (signed_to_sat a) = (if negative then - int n else int n))"
  proof -
    let ?n = "dec_value (w @ f) * 10 ^ nat (8 + x - int (length f))"
    have "\<exists>b. sats b = ?n" if "?n < 2 ^ 63"
      using that amount_of_sats [of ?n] by (intro exI [of _ "Amount (of_nat ?n)"]) simp
    moreover have "unat MAX_CURRENCY_SATS = 2 ^ 63 - 1" by (simp add: MAX_CURRENCY_SATS_def)
    ultimately show ?thesis
      unfolding lenient_coins_exact [OF assms, of field MAX_CURRENCY_SATS] Let_def by fastforce
  qed
  finally show ?thesis .
qed

section \<open>Values that are read\<close>

text \<open>A \<open>from_string\<close> that looks at the whole part only.\<close>

definition toy_raw :: raw_value where
  "toy_raw s = (if json_int (takeWhile is_ascii_digit s) then Some s else None)"

lemma whole_part:
  assumes "all_digits w"
  shows "takeWhile is_ascii_digit (plain_number w f) = w"
    "is_exponent_mark c \<Longrightarrow> takeWhile is_ascii_digit (plain_number w f @ c # s) = w"
proof -
  have w: "\<forall>c \<in> set w. is_ascii_digit c" using assms by (simp add: all_digits_def list_all_iff)
  have n: "\<not> is_ascii_digit (CHR ''.'')" by (simp add: is_ascii_digit_def)
  show "takeWhile is_ascii_digit (plain_number w f) = w"
    using w n by (auto simp: plain_number_def takeWhile_append2)
  have "\<not> is_ascii_digit c" if "is_exponent_mark c" for c
    using that by (auto simp: is_exponent_mark_def is_ascii_digit_def)
  then show "is_exponent_mark c \<Longrightarrow> takeWhile is_ascii_digit (plain_number w f @ c # s) = w"
    using w n by (auto simp: plain_number_def takeWhile_append2)
qed

lemma toy_raw_ok: "json_texts toy_raw"
  using whole_part json_int_digits unfolding json_texts_def money_token_def toy_raw_def
  by (auto split: if_splits)

lemma small_token: "money_token ''2.5e-6'' ''2'' ''5'' (- 6)"
proof -
  have "is_exponent_mark (CHR ''e'')" "''2.5e-6'' = plain_number ''2'' ''5'' @ CHR ''e'' # ''-6''"
    "parse_int 32 ''-6'' = Some (- 6)" "json_int ''2''" "all_digits ''5''"
    by (simp_all add: is_exponent_mark_def plain_number_def parse_int_def is_ascii_digit_def digit_value_def json_int_def)
  then show ?thesis unfolding money_token_def by blast
qed

lemma coins_read_exactly_witness:
  "lenient_coins toy_raw ''2.5e-6'' ''fee'' MAX_NATIVE_SATS = Inr (Amount 250) \<and>
   money_token ''2.5e-6'' ''2'' ''5'' (- 6)"
  using coins_read_exactly [OF toy_raw_ok small_token, of "''fee''" MAX_NATIVE_SATS "Amount 250"] small_token
  by (simp add: digit_value_def MAX_NATIVE_SATS_def SATS_PER_COIN_def)

lemma signed_coins_exact_witness:
  "signed_currency_coins toy_raw ''-2.5e-6'' ''fee'' = Inr (SignedAmount (- 250))"
  using signed_coins_exact [OF toy_raw_ok small_token, of True "''fee''" "SignedAmount (- 250)"]
  by (simp add: digit_value_def)

text \<open>A legal spelling that is refused: the point is shifted past a leading zero.\<close>

lemma leading_zero_refused:
  assumes "json_texts from_string"
  shows "lenient_coins from_string ''0.5e1'' field ceiling \<noteq> Inr a"
proof -
  have "is_exponent_mark (CHR ''e'')" "''0.5e1'' = plain_number ''0'' ''5'' @ CHR ''e'' # ''1''"
    "parse_int 32 ''1'' = Some 1" "json_int ''0''" "all_digits ''5''"
    by (simp_all add: is_exponent_mark_def plain_number_def parse_int_def is_ascii_digit_def digit_value_def json_int_def)
  then have "money_token ''0.5e1'' ''0'' ''5'' 1" unfolding money_token_def by blast
  from lenient_coins_exact [OF assms this] show ?thesis by simp
qed

end
