(* ===== verification/Funding.thy ===== *)
theory Funding
  imports Drive Decode Keys Money "HOL-Library.Multiset"
begin

text \<open>
  Finding coins that can be spent (\<open>verus-flows/src/funding.rs\<close>, and \<open>spendable_at\<close> of
  \<open>verus-rpc/src/types.rs\<close>).  The three lookups are operations of the driver: the questions
  they put to the node and what they make of the answers.
\<close>

section \<open>A reader over the driver's transport\<close>

text \<open>
  A method of \<open>ChainReader\<close> on \<open>RpcClient\<close>: one request, and what its reply is read as.  The
  parsing of replies is a parameter.  \<open>issue\<close> asks without unwrapping, \<open>unwrap\<close> and \<open>lift_flow\<close>
  are the question-mark operator with its conversion into \<open>FlowError\<close>.
\<close>

type_synonym 'r question = "request_body \<times> (str \<Rightarrow> rpc_error + 'r)"

definition issue :: "'r question \<Rightarrow> (rpc_error + 'r \<Rightarrow> 'a operation) \<Rightarrow> 'a operation" where
  "issue q k = Post (fst q) (\<lambda>reply. k (rbind reply (snd q)))"

definition unwrap :: "rpc_error + 'r \<Rightarrow> ('r \<Rightarrow> 'a operation) \<Rightarrow> 'a operation" where
  "unwrap r k = (case r of Inl e \<Rightarrow> Throw (FlowRpc e) | Inr v \<Rightarrow> k v)"

definition lift_flow :: "flow_error + 'r \<Rightarrow> ('r \<Rightarrow> 'a operation) \<Rightarrow> 'a operation" where
  "lift_flow r k = (case r of Inl e \<Rightarrow> Throw e | Inr v \<Rightarrow> k v)"

text \<open>\<open>serde_json::Value\<close>, its \<open>[key]\<close> and \<open>get\<close>.\<close>

datatype json =
    JNull | JBool bool | JNumber str | JString str | JArray "json list" | JObject "(str \<times> json) list"

definition json_get :: "str \<Rightarrow> json \<Rightarrow> json option" where
  "json_get key v = (case v of JObject entries \<Rightarrow> map_of entries key | _ \<Rightarrow> None)"

definition json_index :: "str \<Rightarrow> json \<Rightarrow> json" where
  "json_index key v = (case json_get key v of Some w \<Rightarrow> w | None \<Rightarrow> JNull)"

section \<open>Outputs as a node reports them\<close>

definition COINBASE_MATURITY :: u32 where "COINBASE_MATURITY = 100"

record address_utxo =
  au_utxo :: utxo
  au_address :: str
  au_height :: u32
  au_is_spendable :: bool

record mempool_delta =
  md_address :: str
  md_txid :: txid
  md_index :: u32
  md_satoshis :: signed_amount
  md_currency_values :: "(str, signed_amount) btree"
  md_spending :: bool
  md_spends :: "(txid \<times> u32) option"
  md_timestamp :: i64

definition confirmations :: "address_utxo \<Rightarrow> u32 \<Rightarrow> u32" where
  "confirmations u tip =
     (let depth = (if au_height u \<le> tip then tip - au_height u else 0)
      in if depth = 0xffffffff then depth else depth + 1)"

definition spendable_utxos :: "address_utxo list \<Rightarrow> u32 \<Rightarrow> u32 list \<Rightarrow> utxo list" where
  "spendable_utxos utxos tip coinbase_heights =
     map au_utxo
       (filter (\<lambda>found. au_height found \<notin> set coinbase_heights \<or> COINBASE_MATURITY \<le> confirmations found tip)
         (filter au_is_spendable utxos))"

record funding_reader =
  ask_block_count :: "u32 question"
  ask_address_utxos :: "str \<Rightarrow> address_utxo list question"
  ask_address_mempool :: "str \<Rightarrow> mempool_delta list question"
  ask_raw_transaction :: "str \<Rightarrow> json question"

section \<open>What is already spent, and what is still young\<close>

definition already_spent :: "mempool_delta list \<Rightarrow> (txid \<times> u32) list" where
  "already_spent pending = List.map_filter md_spends (filter md_spending pending)"

definition best_effort_spent :: "rpc_error + mempool_delta list \<Rightarrow> flow_error + (txid \<times> u32) list" where
  "best_effort_spent pending = (case pending of
       Inr rows \<Rightarrow> Inr (already_spent rows)
     | Inl AnswerNeeded \<Rightarrow> Inl (FlowRpc AnswerNeeded)
     | Inl _ \<Rightarrow> Inr [])"

definition is_p2pkh :: "bytes \<Rightarrow> bool" where
  "is_p2pkh script \<longleftrightarrow> length script = 25 \<and> script ! 0 = 0x76 \<and> script ! 1 = 0xa9 \<and> script ! 2 = 0x14 \<and>
     script ! 23 = 0x88 \<and> script ! 24 = 0xac"

definition is_coinbase :: "json \<Rightarrow> bool" where
  "is_coinbase tx = (case json_index ''vin'' tx of
       JArray (input # _) \<Rightarrow> json_get ''coinbase'' input \<noteq> None
     | _ \<Rightarrow> False)"

fun probe_all ::
  "funding_reader \<Rightarrow> address_utxo list \<Rightarrow> ((u32 \<times> (flow_error + bool)) list \<Rightarrow> 'a operation) \<Rightarrow> 'a operation" where
  "probe_all R [] k = k []"
| "probe_all R (u # us) k =
     issue (ask_raw_transaction R (to_display_hex (utxo_txid (au_utxo u)))) (\<lambda>tx.
     probe_all R us (\<lambda>probes.
     k ((au_height u, map_err FlowRpc (rbind tx (\<lambda>tx. Inr (is_coinbase tx)))) # probes)))"

fun coinbase_heights_of :: "(u32 \<times> (flow_error + bool)) list \<Rightarrow> flow_error + u32 list" where
  "coinbase_heights_of [] = Inr []"
| "coinbase_heights_of ((height, probe) # probes) =
     rbind probe (\<lambda>coinbase.
     rbind (coinbase_heights_of probes) (\<lambda>heights.
     Inr (if coinbase then height # heights else heights)))"

definition young :: "u32 \<Rightarrow> address_utxo list \<Rightarrow> address_utxo list" where
  "young tip found = filter (\<lambda>u. confirmations u tip < COINBASE_MATURITY) found"

definition probe_coinbase_heights ::
  "funding_reader \<Rightarrow> address_utxo list \<Rightarrow> u32 \<Rightarrow> (u32 list \<Rightarrow> 'a operation) \<Rightarrow> 'a operation" where
  "probe_coinbase_heights R found tip k =
     probe_all R (young tip found) (\<lambda>probes. lift_flow (coinbase_heights_of probes) k)"

section \<open>Spendable coins\<close>

record funding =
  fd_utxos :: "utxo list"
  fd_tip :: u32
  fd_total :: amount
  fd_immature :: "address_utxo list"
  fd_other :: "address_utxo list"
  fd_spent_unconfirmed :: "address_utxo list"

definition immature_total :: "funding \<Rightarrow> amount" where
  "immature_total f =
     (case amount_checked_sum (map (utxo_satoshis \<circ> au_utxo) (fd_immature f)) of
        Some a \<Rightarrow> a | None \<Rightarrow> amount_zero)"

definition spent_unconfirmed_total :: "funding \<Rightarrow> amount" where
  "spent_unconfirmed_total f =
     (case amount_checked_sum (map (utxo_satoshis \<circ> au_utxo) (fd_spent_unconfirmed f)) of
        Some a \<Rightarrow> a | None \<Rightarrow> amount_zero)"

definition utxo_outpoint :: "utxo \<Rightarrow> txid \<times> u32" where
  "utxo_outpoint u = (utxo_txid u, utxo_vout u)"

text \<open>The loop that sorts every reported output into the list it belongs to.\<close>

fun sort_out ::
  "(txid \<times> u32) list \<Rightarrow> (txid \<times> u32) list \<Rightarrow> (txid \<times> u32) list \<Rightarrow> address_utxo list \<Rightarrow>
     address_utxo list \<times> address_utxo list \<times> address_utxo list" where
  "sort_out spent other mature [] = ([], [], [])"
| "sort_out spent other mature (u # us) =
     (let (immature, non_native, spent_unconfirmed) = sort_out spent other mature us; here = utxo_outpoint (au_utxo u) in
      if here \<in> set spent then (immature, non_native, u # spent_unconfirmed)
      else if here \<in> set other then (immature, u # non_native, spent_unconfirmed)
      else if here \<notin> set mature then (u # immature, non_native, spent_unconfirmed)
      else (immature, non_native, spent_unconfirmed))"

definition funding_of ::
  "address_utxo list \<Rightarrow> u32 \<Rightarrow> u32 list \<Rightarrow> (txid \<times> u32) list \<Rightarrow> flow_error + funding" where
  "funding_of found tip coinbase_heights spent =
     (let mature = filter (\<lambda>u. utxo_outpoint u \<notin> set spent) (spendable_utxos found tip coinbase_heights);
          (utxos, other) = partition (\<lambda>u. is_p2pkh (utxo_script_pubkey u)) mature;
          (immature, non_native, spent_unconfirmed) =
            sort_out spent (map utxo_outpoint other) (map utxo_outpoint mature) found
      in rbind (ok_or (amount_checked_sum (map utxo_satoshis utxos))
           (NotReady ''the address holds more than can be represented'')) (\<lambda>total.
         Inr \<lparr>fd_utxos = utxos, fd_tip = tip, fd_total = total, fd_immature = immature,
           fd_other = non_native, fd_spent_unconfirmed = spent_unconfirmed\<rparr>))"

definition spendable :: "funding_reader \<Rightarrow> str \<Rightarrow> funding operation" where
  "spendable R address =
     issue (ask_block_count R) (\<lambda>tip.
     issue (ask_address_utxos R address) (\<lambda>found.
     issue (ask_address_mempool R address) (\<lambda>pending.
     unwrap tip (\<lambda>tip.
     unwrap found (\<lambda>found.
     lift_flow (best_effort_spent pending) (\<lambda>spent.
     probe_coinbase_heights R found tip (\<lambda>heights.
     lift_flow (funding_of found tip heights spent) Return)))))))"

definition require_funding :: "funding \<Rightarrow> amount \<Rightarrow> str \<Rightarrow> flow_error + unit" where
  "require_funding f needed address =
     (if to_sat needed \<le> to_sat (fd_total f) then Inr ()
      else Inl (FlowInsufficientFunds needed (fd_total f) address (length (fd_utxos f))))"

section \<open>What an identity holds\<close>

text \<open>\<open>Display\<close> of a \<open>KeyError\<close> is a parameter.\<close>

definition parse_identity ::
  "hash_lib \<Rightarrow> (key_error \<Rightarrow> str) \<Rightarrow> str \<Rightarrow> flow_error + address" where
  "parse_identity H show_key identity =
     map_err (\<lambda>e. NoSuchIdentity (identity @ '': '' @ show_key e)) (address_from_str H identity)"

text \<open>The reads and the maturity rules shared by the two lookups; \<open>keep\<close> is their last filter.\<close>

definition held_outputs ::
  "funding_reader \<Rightarrow> str \<Rightarrow> (utxo \<Rightarrow> bool) \<Rightarrow> utxo list operation" where
  "held_outputs R identity keep =
     issue (ask_block_count R) (\<lambda>tip.
     issue (ask_address_utxos R identity) (\<lambda>found.
     issue (ask_address_mempool R identity) (\<lambda>pending.
     unwrap tip (\<lambda>tip.
     unwrap found (\<lambda>found.
     probe_coinbase_heights R found tip (\<lambda>heights.
     lift_flow (best_effort_spent pending) (\<lambda>spent.
     Return (filter keep (filter (\<lambda>u. utxo_outpoint u \<notin> set spent) (spendable_utxos found tip heights)))))))))) "

definition holds_only :: "hash_lib \<Rightarrow> hex_encode \<Rightarrow> bytes \<Rightarrow> currency_id \<Rightarrow> utxo \<Rightarrow> bool" where
  "holds_only H hx identity currency u = (case decode_output_script H hx (utxo_script_pubkey u) of
       Inr (OutReserveOutput destination tokens) \<Rightarrow>
         destination = DestIdentity identity \<and> length tokens = 1 \<and> fst (tokens ! 0) = currency
     | _ \<Rightarrow> False)"

definition identity_held_tokens ::
  "hash_lib \<Rightarrow> hex_encode \<Rightarrow> (key_error \<Rightarrow> str) \<Rightarrow> funding_reader \<Rightarrow> str \<Rightarrow> currency_id \<Rightarrow> utxo list operation" where
  "identity_held_tokens H hx show_key R identity currency =
     lift_flow (parse_identity H show_key identity) (\<lambda>address.
     held_outputs R identity (holds_only H hx (addr_hash address) currency))"

definition identity_held ::
  "hash_lib \<Rightarrow> (key_error \<Rightarrow> str) \<Rightarrow> funding_reader \<Rightarrow> str \<Rightarrow> utxo list operation" where
  "identity_held H show_key R identity =
     lift_flow (parse_identity H show_key identity) (\<lambda>address.
     lift_flow (map_err FlowTx (identity_payment_script (addr_hash address))) (\<lambda>expected.
     held_outputs R identity (\<lambda>u. utxo_script_pubkey u = expected)))"

section \<open>Every output is accounted for\<close>

lemma sort_out_eq:
  "sort_out spent other mature us =
    (filter (\<lambda>u. utxo_outpoint (au_utxo u) \<notin> set spent \<and> utxo_outpoint (au_utxo u) \<notin> set other \<and>
       utxo_outpoint (au_utxo u) \<notin> set mature) us,
     filter (\<lambda>u. utxo_outpoint (au_utxo u) \<notin> set spent \<and> utxo_outpoint (au_utxo u) \<in> set other) us,
     filter (\<lambda>u. utxo_outpoint (au_utxo u) \<in> set spent) us)"
  by (induction us) (simp_all add: Let_def)

lemma already_spent_set:
  "set (already_spent rows) = {p. \<exists>row \<in> set rows. md_spending row \<and> md_spends row = Some p}"
  by (force simp: already_spent_def List.map_filter_def image_iff)

lemma spendable_in:
  "u \<in> set (spendable_utxos found tip heights) \<longleftrightarrow>
     (\<exists>f \<in> set found. u = au_utxo f \<and> au_is_spendable f \<and>
        (au_height f \<notin> set heights \<or> COINBASE_MATURITY \<le> confirmations f tip))"
  by (auto simp: spendable_utxos_def)


text \<open>With the outpoints all different, an utxo_outpoint is mature exactly when its output is.\<close>

definition ready :: "(txid \<times> u32) list \<Rightarrow> u32 \<Rightarrow> u32 list \<Rightarrow> address_utxo \<Rightarrow> bool" where
  "ready spent tip heights f \<longleftrightarrow> au_is_spendable f \<and> utxo_outpoint (au_utxo f) \<notin> set spent \<and>
     (au_height f \<notin> set heights \<or> COINBASE_MATURITY \<le> confirmations f tip)"

lemma mature_is:
  "filter (\<lambda>u. utxo_outpoint u \<notin> set spent) (spendable_utxos found tip heights) =
     map au_utxo (filter (ready spent tip heights) found)"
  by (auto simp: spendable_utxos_def filter_map comp_def ready_def intro!: arg_cong [where f = "map au_utxo"] filter_cong)

lemma funding_of_Inr:
  assumes "funding_of found tip heights spent = Inr fd" "distinct (map (utxo_outpoint \<circ> au_utxo) found)"
  defines "coin \<equiv> \<lambda>f. is_p2pkh (utxo_script_pubkey (au_utxo f))"
  shows "fd_utxos fd = map au_utxo (filter (\<lambda>f. ready spent tip heights f \<and> coin f) found)"
    "fd_other fd = filter (\<lambda>f. ready spent tip heights f \<and> \<not> coin f) found"
    "fd_spent_unconfirmed fd = filter (\<lambda>f. utxo_outpoint (au_utxo f) \<in> set spent) found"
    "fd_immature fd = filter (\<lambda>f. utxo_outpoint (au_utxo f) \<notin> set spent \<and> \<not> ready spent tip heights f) found"
    "sats (fd_total fd) = total_sats (map utxo_satoshis (fd_utxos fd))" "fd_tip fd = tip"
proof -
  let ?mature = "map au_utxo (filter (ready spent tip heights) found)"
  let ?other = "filter (\<lambda>u. \<not> is_p2pkh (utxo_script_pubkey u)) ?mature"
  have inj: "f = g" if "f \<in> set found" "g \<in> set found" "utxo_outpoint (au_utxo f) = utxo_outpoint (au_utxo g)" for f g
    using assms(2) that by (auto simp: distinct_map inj_on_def)
  have mem: "utxo_outpoint (au_utxo f) \<in> utxo_outpoint ` set ?mature \<longleftrightarrow> ready spent tip heights f"
    "utxo_outpoint (au_utxo f) \<in> utxo_outpoint ` set ?other \<longleftrightarrow> ready spent tip heights f \<and> \<not> coin f"
    if "f \<in> set found" for f
    using inj [OF that] that by (auto simp: coin_def)
  have fd: "fd_utxos fd = filter (\<lambda>u. is_p2pkh (utxo_script_pubkey u)) ?mature"
    "sort_out spent (map utxo_outpoint ?other) (map utxo_outpoint ?mature) found =
       (fd_immature fd, fd_other fd, fd_spent_unconfirmed fd)"
    "amount_checked_sum (map utxo_satoshis (fd_utxos fd)) = Some (fd_total fd)" "fd_tip fd = tip"
    using assms(1) by (auto simp: funding_of_def Let_def mature_is partition_filter_conv rbind_Inr_iff ok_or_Inr_iff comp_def
        split: prod.splits)
  show "fd_utxos fd = map au_utxo (filter (\<lambda>f. ready spent tip heights f \<and> coin f) found)"
    by (simp add: fd(1) filter_map comp_def coin_def conj_ac)
  show "sats (fd_total fd) = total_sats (map utxo_satoshis (fd_utxos fd))" "fd_tip fd = tip"
    using fd(3,4) by (simp_all only: amount_checked_sum_Some)
  note parts = fd(2) [unfolded sort_out_eq prod.inject]
  show "fd_spent_unconfirmed fd = filter (\<lambda>f. utxo_outpoint (au_utxo f) \<in> set spent) found"
    using parts by simp
  have "fd_other fd = filter (\<lambda>u. utxo_outpoint (au_utxo u) \<notin> set spent \<and>
      utxo_outpoint (au_utxo u) \<in> set (map utxo_outpoint ?other)) found" using parts by simp
  then show "fd_other fd = filter (\<lambda>f. ready spent tip heights f \<and> \<not> coin f) found"
    using mem by (auto simp: ready_def intro!: filter_cong)
  have "fd_immature fd = filter (\<lambda>u. utxo_outpoint (au_utxo u) \<notin> set spent \<and>
      utxo_outpoint (au_utxo u) \<notin> set (map utxo_outpoint ?other) \<and> utxo_outpoint (au_utxo u) \<notin> set (map utxo_outpoint ?mature)) found"
    using parts by simp
  then show "fd_immature fd = filter (\<lambda>f. utxo_outpoint (au_utxo f) \<notin> set spent \<and> \<not> ready spent tip heights f) found"
    using mem by (auto intro!: filter_cong)
qed

section \<open>The lookups may be driven\<close>

text \<open>What is used of the client's methods: they read, and do not invent the sentinel.\<close>

definition question_ok :: "'r question \<Rightarrow> bool" where
  "question_ok q \<longleftrightarrow> \<not> writes (fst q) \<and> (\<forall>reply. snd q reply \<noteq> Inl AnswerNeeded)"

definition reader_ok :: "funding_reader \<Rightarrow> bool" where
  "reader_ok R \<longleftrightarrow> question_ok (ask_block_count R) \<and> (\<forall>a. question_ok (ask_address_utxos R a)) \<and>
     (\<forall>a. question_ok (ask_address_mempool R a)) \<and> (\<forall>t. question_ok (ask_raw_transaction R t))"

definition told_reply :: "(str \<Rightarrow> str) \<Rightarrow> 'r question \<Rightarrow> rpc_error + 'r" where
  "told_reply net q = snd q (net (as_str (fst q)))"

lemma issue_simps [simp]:
  "blocking net (issue q k) = blocking net (k (told_reply net q))"
  "questions net (issue q k) = as_str (fst q) # questions net (k (told_reply net q))"
  "gives_up net outcome (issue q k) \<longleftrightarrow> \<not> writes (fst q) \<and> gives_up net outcome (k (told_reply net q)) \<and>
     gives_up net outcome (k (Inl AnswerNeeded))"
  "drivable net (issue q k) \<longleftrightarrow> \<not> writes (fst q) \<and> drivable net (k (told_reply net q)) \<and>
     gives_up net (blocking net (k (told_reply net q))) (k (Inl AnswerNeeded))"
  "wants net K (issue q k) = (if writes (fst q) then wants net K (k (Inl WriteThroughCassette))
     else if as_str (fst q) \<in> K then wants net K (k (told_reply net q))
     else as_str (fst q) # wants net K (k (Inl AnswerNeeded)))"
  by (simp_all add: issue_def told_reply_def)

lemma told_ok: "question_ok q \<Longrightarrow> told_reply net q \<noteq> Inl AnswerNeeded"
  by (simp add: question_ok_def told_reply_def)

text \<open>The probes as they come out when everything, or not everything, is known.\<close>

definition probe_of :: "funding_reader \<Rightarrow> address_utxo \<Rightarrow> (rpc_error + json) \<Rightarrow> u32 \<times> (flow_error + bool)" where
  "probe_of R u tx = (au_height u, map_err FlowRpc (rbind tx (\<lambda>tx. Inr (is_coinbase tx))))"

abbreviation ask_probe :: "funding_reader \<Rightarrow> address_utxo \<Rightarrow> json question" where
  "ask_probe R u \<equiv> ask_raw_transaction R (to_display_hex (utxo_txid (au_utxo u)))"

definition true_probes :: "(str \<Rightarrow> str) \<Rightarrow> funding_reader \<Rightarrow> address_utxo list \<Rightarrow> (u32 \<times> (flow_error + bool)) list" where
  "true_probes net R us = map (\<lambda>u. probe_of R u (told_reply net (ask_probe R u))) us"

definition some_probes ::
  "(str \<Rightarrow> str) \<Rightarrow> funding_reader \<Rightarrow> address_utxo list \<Rightarrow> (u32 \<times> (flow_error + bool)) list \<Rightarrow> bool" where
  "some_probes net R us ps \<longleftrightarrow>
     list_all2 (\<lambda>u p. p = probe_of R u (told_reply net (ask_probe R u)) \<or> p = probe_of R u (Inl AnswerNeeded)) us ps"

lemma probe_all_step:
  "probe_all R (u # us) k = issue (ask_probe R u) (\<lambda>tx. probe_all R us (\<lambda>ps. k (probe_of R u tx # ps)))"
  by (simp add: probe_of_def)

lemma blocking_probe_all [simp]: "blocking net (probe_all R us k) = blocking net (k (true_probes net R us))"
  by (induction us arbitrary: k) (simp_all add: probe_all_step true_probes_def del: probe_all.simps(2))

lemma questions_probe_all [simp]:
  "questions net (probe_all R us k) =
     map (\<lambda>u. as_str (fst (ask_probe R u))) us @ questions net (k (true_probes net R us))"
  by (induction us arbitrary: k) (simp_all add: probe_all_step true_probes_def del: probe_all.simps(2))

lemma gives_up_probe_all:
  assumes "reader_ok R" "\<And>ps. some_probes net R us ps \<Longrightarrow> gives_up net outcome (k ps)"
  shows "gives_up net outcome (probe_all R us k)"
  using assms(2)
proof (induction us arbitrary: k)
  case (Cons u us)
  have "\<not> writes (fst (ask_probe R u))" using assms(1) by (simp add: reader_ok_def question_ok_def)
  moreover have "gives_up net outcome (probe_all R us (\<lambda>ps. k (probe_of R u tx # ps)))"
    if "tx = told_reply net (ask_probe R u) \<or> tx = Inl AnswerNeeded" for tx
    using that by (intro Cons.IH Cons.prems) (auto simp: some_probes_def)
  ultimately show ?case by (simp add: probe_all_step del: probe_all.simps(2))
qed (simp add: some_probes_def)

lemma drivable_probe_all:
  assumes "reader_ok R" "drivable net (k (true_probes net R us))"
    "\<And>ps. some_probes net R us ps \<Longrightarrow> ps \<noteq> true_probes net R us \<Longrightarrow>
       gives_up net (blocking net (k (true_probes net R us))) (k ps)"
  shows "drivable net (probe_all R us k)"
  using assms(2,3)
proof (induction us arbitrary: k)
  case (Cons u us)
  let ?q = "ask_probe R u" and ?rest = "\<lambda>tx. probe_all R us (\<lambda>ps. k (probe_of R u tx # ps))"
  have q: "question_ok ?q" using assms(1) by (simp add: reader_ok_def)
  have ne: "probe_of R u (Inl AnswerNeeded) \<noteq> probe_of R u (told_reply net ?q)"
    using told_ok [OF q, of net] by (cases "told_reply net ?q") (auto simp: probe_of_def map_err_def)
  have "drivable net (?rest (told_reply net ?q))"
    by (rule Cons.IH) (use Cons.prems in \<open>auto simp: true_probes_def some_probes_def\<close>)
  moreover have "gives_up net (blocking net (?rest (told_reply net ?q))) (?rest (Inl AnswerNeeded))"
    using ne Cons.prems(2)
    by (intro gives_up_probe_all [OF assms(1)]) (auto simp: true_probes_def some_probes_def)
  ultimately show ?case using q by (simp add: probe_all_step question_ok_def del: probe_all.simps(2))
qed (simp add: some_probes_def true_probes_def)

text \<open>Incomplete probes give up, or fail as the complete ones do.\<close>

lemma some_probes_fail:
  assumes "some_probes net R us ps" "ps \<noteq> true_probes net R us"
  shows "\<exists>e. coinbase_heights_of ps = Inl e \<and>
    (e = FlowRpc AnswerNeeded \<or> coinbase_heights_of (true_probes net R us) = Inl e)"
  using assms
proof (induction us arbitrary: ps)
  case (Cons u us)
  then obtain p ps' where ps: "ps = p # ps'" "some_probes net R us ps'"
    and p: "p = probe_of R u (told_reply net (ask_probe R u)) \<or> p = probe_of R u (Inl AnswerNeeded)"
    by (auto simp: some_probes_def list_all2_Cons1)
  show ?case
  proof (cases "p = probe_of R u (told_reply net (ask_probe R u))")
    case True
    then have "ps' \<noteq> true_probes net R us" using Cons.prems(2) ps by (simp add: true_probes_def)
    with Cons.IH [OF ps(2)] True ps(1) show ?thesis
      by (cases "told_reply net (ask_probe R u)") (auto simp: true_probes_def probe_of_def map_err_def)
  next
    case False
    then show ?thesis using p ps(1) by (simp add: probe_of_def map_err_def)
  qed
qed (simp add: some_probes_def true_probes_def)

lemma unwrap_simps [simp]:
  "unwrap (Inl e) k = Throw (FlowRpc e)" "unwrap (Inr v) k = k v"
  "lift_flow (Inl e') k = Throw e'" "lift_flow (Inr v) k = k v"
  by (simp_all add: unwrap_def lift_flow_def)

lemma drivable_probe:
  assumes "reader_ok R" "\<And>h. coinbase_heights_of (true_probes net R (young tip found)) = Inr h \<Longrightarrow> drivable net (k h)"
  shows "drivable net (probe_coinbase_heights R found tip k)"
  unfolding probe_coinbase_heights_def
proof (rule drivable_probe_all [OF assms(1)])
  let ?ps = "true_probes net R (young tip found)"
  have "coinbase_heights_of (true_probes net R us) \<noteq> Inl (FlowRpc AnswerNeeded)" for us
  proof (induction us)
    case (Cons u us)
    have "told_reply net (ask_probe R u) \<noteq> Inl AnswerNeeded"
      using assms(1) by (simp add: reader_ok_def told_ok)
    with Cons show ?case
      by (cases "told_reply net (ask_probe R u)"; cases "coinbase_heights_of (true_probes net R us)")
        (auto simp: true_probes_def probe_of_def map_err_def)
  qed (simp add: true_probes_def)
  then show "drivable net (lift_flow (coinbase_heights_of ?ps) k)"
    using assms(2) by (cases "coinbase_heights_of ?ps") auto
  show "gives_up net (blocking net (lift_flow (coinbase_heights_of ?ps) k)) (lift_flow (coinbase_heights_of ps) k)"
    if "some_probes net R (young tip found) ps" "ps \<noteq> ?ps" for ps
    using some_probes_fail [OF that] by auto
qed

text \<open>After a miss, the probes may still fail as in the blocking run; then the sentinel does the rest.\<close>

lemma gives_up_probe:
  assumes "reader_ok R"
    "\<And>h. gives_up net outcome (k h)"
    "\<And>e. coinbase_heights_of (true_probes net R (young tip found)) = Inl e \<Longrightarrow> outcome = Inl e"
  shows "gives_up net outcome (probe_coinbase_heights R found tip k)"
  unfolding probe_coinbase_heights_def
proof (rule gives_up_probe_all [OF assms(1)])
  fix ps
  assume "some_probes net R (young tip found) ps"
  from some_probes_fail [OF this] assms(3)
  show "gives_up net outcome (lift_flow (coinbase_heights_of ps) k)"
    using assms(2) by (cases "coinbase_heights_of ps"; cases "ps = true_probes net R (young tip found)") auto
qed

section \<open>The three first reads\<close>

definition first_reads ::
  "funding_reader \<Rightarrow> str \<Rightarrow>
     (rpc_error + u32 \<Rightarrow> rpc_error + address_utxo list \<Rightarrow> rpc_error + mempool_delta list \<Rightarrow> 'a operation) \<Rightarrow>
     'a operation" where
  "first_reads R a body =
     issue (ask_block_count R) (\<lambda>tip. issue (ask_address_utxos R a) (\<lambda>found.
     issue (ask_address_mempool R a) (\<lambda>pending. body tip found pending)))"

definition spend_body where
  "spend_body R tip found pending =
     unwrap tip (\<lambda>tip. unwrap found (\<lambda>found. lift_flow (best_effort_spent pending) (\<lambda>spent.
     probe_coinbase_heights R found tip (\<lambda>heights. lift_flow (funding_of found tip heights spent) Return))))"

definition held_body where
  "held_body R keep tip found pending =
     unwrap tip (\<lambda>tip. unwrap found (\<lambda>found.
     probe_coinbase_heights R found tip (\<lambda>heights. lift_flow (best_effort_spent pending) (\<lambda>spent.
     Return (filter keep (filter (\<lambda>u. utxo_outpoint u \<notin> set spent) (spendable_utxos found tip heights)))))))"

lemma first_reads_eq:
  "spendable R a = first_reads R a (spend_body R)" "held_outputs R a keep = first_reads R a (held_body R keep)"
  by (simp_all add: spendable_def held_outputs_def first_reads_def spend_body_def held_body_def)

lemma best_effort_simps:
  "best_effort_spent (Inl AnswerNeeded) = Inl (FlowRpc AnswerNeeded)"
  "pending \<noteq> Inl AnswerNeeded \<Longrightarrow> \<exists>spent. best_effort_spent pending = Inr spent"
  by (auto simp: best_effort_spent_def split: sum.splits rpc_error.splits)

abbreviation missable :: "rpc_error + 'r \<Rightarrow> rpc_error + 'r \<Rightarrow> bool" where
  "missable r t \<equiv> t = r \<or> t = Inl AnswerNeeded"

lemma first_reads_drivable:
  assumes "reader_ok R"
    and "\<And>T F P. T \<noteq> Inl AnswerNeeded \<Longrightarrow> F \<noteq> Inl AnswerNeeded \<Longrightarrow> P \<noteq> Inl AnswerNeeded \<Longrightarrow> drivable net (body T F P)"
    and "\<And>T F P t f p. T \<noteq> Inl AnswerNeeded \<Longrightarrow> F \<noteq> Inl AnswerNeeded \<Longrightarrow> P \<noteq> Inl AnswerNeeded \<Longrightarrow>
      missable T t \<Longrightarrow> missable F f \<Longrightarrow> missable P p \<Longrightarrow>
      t = Inl AnswerNeeded \<or> f = Inl AnswerNeeded \<or> p = Inl AnswerNeeded \<Longrightarrow>
      gives_up net (blocking net (body T F P)) (body t f p)"
  shows "drivable net (first_reads R a body)"
proof -
  have q: "question_ok (ask_block_count R)" "question_ok (ask_address_utxos R a)" "question_ok (ask_address_mempool R a)"
    using assms(1) by (simp_all add: reader_ok_def)
  note t = told_ok [OF q(1), of net] told_ok [OF q(2), of net] told_ok [OF q(3), of net]
  show ?thesis
    using q assms(2) [OF t] assms(3) [OF t] by (simp add: first_reads_def question_ok_def)
qed

lemma spend_body_drivable:
  assumes "reader_ok R"
  shows "drivable net (first_reads R a (spend_body R))"
proof (rule first_reads_drivable [OF assms])
  fix T :: "rpc_error + u32" and F :: "rpc_error + address_utxo list" and P :: "rpc_error + mempool_delta list"
  assume T: "T \<noteq> Inl AnswerNeeded" and F: "F \<noteq> Inl AnswerNeeded" and P: "P \<noteq> Inl AnswerNeeded"
  obtain spent where spent: "best_effort_spent P = Inr spent" using best_effort_simps(2) [OF P] by blast
  have final: "drivable net (lift_flow (funding_of found tip h spent) Return)" for found tip h
    by (cases "funding_of found tip h spent") (auto simp: funding_of_def Let_def rbind_Inl_iff ok_or_def split: prod.splits option.splits)
  show "drivable net (spend_body R T F P)"
    using T F final by (cases T; cases F) (auto simp: spend_body_def spent intro!: drivable_probe [OF assms])
  show "gives_up net (blocking net (spend_body R T F P)) (spend_body R t f p)"
    if "missable T t" "missable F f" "missable P p"
      "t = Inl AnswerNeeded \<or> f = Inl AnswerNeeded \<or> p = Inl AnswerNeeded" for t f p
    using that by (cases T; cases F) (auto simp: spend_body_def best_effort_simps(1))
qed

lemma held_body_drivable:
  assumes "reader_ok R"
  shows "drivable net (first_reads R a (held_body R keep))"
proof (rule first_reads_drivable [OF assms])
  fix T :: "rpc_error + u32" and F :: "rpc_error + address_utxo list" and P :: "rpc_error + mempool_delta list"
  assume T: "T \<noteq> Inl AnswerNeeded" and F: "F \<noteq> Inl AnswerNeeded" and P: "P \<noteq> Inl AnswerNeeded"
  obtain spent where spent: "best_effort_spent P = Inr spent" using best_effort_simps(2) [OF P] by blast
  show "drivable net (held_body R keep T F P)"
    using T F by (cases T; cases F) (auto simp: held_body_def spent intro!: drivable_probe [OF assms])
  show "gives_up net (blocking net (held_body R keep T F P)) (held_body R keep t f p)"
    if "missable T t" "missable F f" "missable P p"
      "t = Inl AnswerNeeded \<or> f = Inl AnswerNeeded \<or> p = Inl AnswerNeeded" for t f p
    using that
    by (cases T; cases F)
      (auto simp: held_body_def best_effort_simps(1) probe_coinbase_heights_def intro!: gives_up_probe [OF assms, unfolded probe_coinbase_heights_def])
qed

section \<open>Two rounds, whatever the number of outputs\<close>

lemma wants_probe_all:
  assumes "reader_ok R"
  shows "(\<lambda>u. as_str (fst (ask_probe R u))) ` set us \<subseteq> K \<union> set (wants net K (probe_all R us k))"
proof (induction us arbitrary: k)
  case (Cons u us)
  have "\<not> writes (fst (ask_probe R u))" using assms by (simp add: reader_ok_def question_ok_def)
  with Cons show ?case by (auto simp: probe_all_step simp del: probe_all.simps(2))
qed simp

lemma wants_nothing: "drivable net op \<Longrightarrow> set (questions net op) \<subseteq> K \<Longrightarrow> wants net K op = []"
  by (induction op) auto

text \<open>A body whose only questions are the probes of the outputs found.\<close>

definition probes_only ::
  "(str \<Rightarrow> str) \<Rightarrow> funding_reader \<Rightarrow>
     (rpc_error + u32 \<Rightarrow> rpc_error + address_utxo list \<Rightarrow> rpc_error + mempool_delta list \<Rightarrow> 'a operation) \<Rightarrow> bool" where
  "probes_only net R body \<longleftrightarrow> (\<forall>T F P K. P \<noteq> Inl AnswerNeeded \<longrightarrow>
     set (questions net (body T F P)) \<subseteq> K \<union> set (wants net K (body T F P)))"

lemma settled_after_two:
  assumes "reader_ok R" "probes_only net R body" "drivable net (first_reads R a body)"
  shows "wants net (known_after net (first_reads R a body) 2) (first_reads R a body) = []"
proof (rule wants_nothing [OF assms(3)])
  let ?op = "first_reads R a body"
  let ?first = "{as_str (fst (ask_block_count R)), as_str (fst (ask_address_utxos R a)), as_str (fst (ask_address_mempool R a))}"
  let ?body = "body (told_reply net (ask_block_count R)) (told_reply net (ask_address_utxos R a)) (told_reply net (ask_address_mempool R a))"
  have q: "question_ok (ask_block_count R)" "question_ok (ask_address_utxos R a)" "question_ok (ask_address_mempool R a)"
    using assms(1) by (simp_all add: reader_ok_def)
  then have r: "\<not> writes (fst (ask_block_count R))" "\<not> writes (fst (ask_address_utxos R a))"
    "\<not> writes (fst (ask_address_mempool R a))"
    by (simp_all add: question_ok_def)
  let ?K = "known_after net ?op 1"
  have one: "?first \<subseteq> ?K" using r by (auto simp: first_reads_def)
  then have "wants net ?K ?op = wants net ?K ?body" using r by (simp add: first_reads_def)
  moreover have "set (questions net ?body) \<subseteq> ?K \<union> set (wants net ?K ?body)"
    using assms(2) told_ok [OF q(3)] by (simp add: probes_only_def)
  moreover have "known_after net ?op 2 = ?K \<union> set (wants net ?K ?op)"
    by (simp only: numeral_2_eq_2 One_nat_def known_after.simps)
  ultimately show "set (questions net ?op) \<subseteq> known_after net ?op 2"
    using one by (auto simp: first_reads_def)
qed

lemma probe_wants:
  assumes "reader_ok R" "\<And>h. questions net (k h) = []"
  shows "set (questions net (probe_coinbase_heights R found tip k)) \<subseteq>
    K \<union> set (wants net K (probe_coinbase_heights R found tip k))"
proof -
  have "questions net (lift_flow r k) = []" for r by (cases r) (simp_all add: assms(2))
  then show ?thesis
    using wants_probe_all [OF assms(1), of "young tip found" K net] by (simp add: probe_coinbase_heights_def)
qed

lemma spend_probes_only: "reader_ok R \<Longrightarrow> probes_only net R (spend_body R)"
  unfolding probes_only_def
proof (intro allI impI)
  fix T :: "rpc_error + u32" and F :: "rpc_error + address_utxo list" and P :: "rpc_error + mempool_delta list" and K
  assume R: "reader_ok R" and "P \<noteq> Inl AnswerNeeded"
  then obtain spent where spent: "best_effort_spent P = Inr spent" using best_effort_simps(2) by blast
  have q: "questions net (lift_flow (funding_of found tip h spent) Return) = []" for found tip h
    by (cases "funding_of found tip h spent") simp_all
  show "set (questions net (spend_body R T F P)) \<subseteq> K \<union> set (wants net K (spend_body R T F P))"
    using probe_wants [OF R q] by (cases T; cases F) (simp_all add: spend_body_def spent)
qed

lemma held_probes_only: "reader_ok R \<Longrightarrow> probes_only net R (held_body R keep)"
  unfolding probes_only_def
proof (intro allI impI)
  fix T :: "rpc_error + u32" and F :: "rpc_error + address_utxo list" and P :: "rpc_error + mempool_delta list" and K
  assume R: "reader_ok R" and "P \<noteq> Inl AnswerNeeded"
  then obtain spent where spent: "best_effort_spent P = Inr spent" using best_effort_simps(2) by blast
  show "set (questions net (held_body R keep T F P)) \<subseteq> K \<union> set (wants net K (held_body R keep T F P))"
    using probe_wants [OF R, of net "\<lambda>h. Return (filter keep (filter (\<lambda>u. utxo_outpoint u \<notin> set spent) (spendable_utxos _ _ h)))"]
    by (cases T; cases F) (simp_all add: held_body_def spent)
qed

lemma drives_lift:
  assumes "\<And>v. drivable net (k v) \<and> wants net (known_after net (k v) 2) (k v) = []"
    and "r \<noteq> Inl (FlowRpc AnswerNeeded)"
  shows "drivable net (lift_flow r k) \<and> wants net (known_after net (lift_flow r k) 2) (lift_flow r k) = []"
  using assms by (cases r) simp_all

text \<open>
  Funding may be driven.  The three lookups a payment, a mint or an identity spend is
  funded from can be run without a blocking network: driven to the end they give what one
  blocking run gives, in at most three rounds, however many outputs have to be probed.
\<close>

theorem funding_drives:
  assumes "reader_ok R"
  shows "drives_as_blocking net (spendable R address) 2 \<and>
    drives_as_blocking net (identity_held H show_key R identity) 2 \<and>
    drives_as_blocking net (identity_held_tokens H hx show_key R identity currency) 2"
proof -
  have drives: "drives_as_blocking net op 2"
    if "drivable net op \<and> wants net (known_after net op 2) op = []" for op :: "'x operation"
    using that by (intro drives_as_blockingI) (simp_all add: MAX_ROUNDS_def)
  have h: "drivable net (held_outputs R identity keep) \<and>
    wants net (known_after net (held_outputs R identity keep) 2) (held_outputs R identity keep) = []" for keep
    unfolding first_reads_eq
    using held_body_drivable [OF assms] settled_after_two [OF assms held_probes_only [OF assms]] by blast
  have p: "parse_identity H show_key identity \<noteq> Inl (FlowRpc AnswerNeeded)"
    "map_err FlowTx r \<noteq> Inl (FlowRpc AnswerNeeded)" for r :: "tx_error + bytes"
    by (auto simp: parse_identity_def map_err_def split: sum.splits)
  have "drivable net (spendable R address) \<and>
    wants net (known_after net (spendable R address) 2) (spendable R address) = []"
    unfolding first_reads_eq
    using spend_body_drivable [OF assms] settled_after_two [OF assms spend_probes_only [OF assms]] by blast
  moreover have "drivable net (identity_held H show_key R identity) \<and>
    wants net (known_after net (identity_held H show_key R identity) 2) (identity_held H show_key R identity) = []"
    unfolding identity_held_def by (intro drives_lift h p)
  moreover have "drivable net (identity_held_tokens H hx show_key R identity currency) \<and>
    wants net (known_after net (identity_held_tokens H hx show_key R identity currency) 2)
      (identity_held_tokens H hx show_key R identity currency) = []"
    unfolding identity_held_tokens_def by (intro drives_lift h p)
  ultimately show ?thesis by (simp add: drives)
qed


section \<open>A wallet that is looked up\<close>

definition toy_output :: "u32 \<Rightarrow> u32 \<Rightarrow> address_utxo" where
  "toy_output vout height =
     \<lparr>au_utxo = \<lparr>utxo_txid = Txid (replicate 32 0), utxo_vout = vout, utxo_satoshis = Amount 500,
        utxo_script_pubkey = [0x76, 0xa9, 0x14] @ replicate 20 7 @ [0x88, 0xac]\<rparr>,
      au_address = ''R1'', au_height = height, au_is_spendable = True\<rparr>"

definition toy_reader :: funding_reader where
  "toy_reader =
     \<lparr>ask_block_count = (\<lparr>as_str = ''tip'', writes = False\<rparr>, \<lambda>_. Inr 1000),
      ask_address_utxos = (\<lambda>a. (\<lparr>as_str = ''utxos'' @ a, writes = False\<rparr>, \<lambda>_. Inr [toy_output 0 10, toy_output 1 950])),
      ask_address_mempool = (\<lambda>a. (\<lparr>as_str = ''mempool'' @ a, writes = False\<rparr>, \<lambda>_. Inr [])),
      ask_raw_transaction = (\<lambda>t. (\<lparr>as_str = ''tx'' @ t, writes = False\<rparr>,
        \<lambda>_. Inr (JObject [(''vin'', JArray [JObject [(''coinbase'', JNull)]])])))\<rparr>"

lemma toy_reader_ok: "reader_ok toy_reader"
  by (simp add: reader_ok_def question_ok_def toy_reader_def)

lemma funding_drives_witness:
  "reader_ok toy_reader \<and> drives_as_blocking tip_net (spendable toy_reader ''R1'') 2"
  using funding_drives [OF toy_reader_ok] toy_reader_ok by blast

definition toy_funding :: funding where
  "toy_funding = \<lparr>fd_utxos = [au_utxo (toy_output 0 10)], fd_tip = 1000, fd_total = Amount 500,
     fd_immature = [toy_output 1 950], fd_other = [], fd_spent_unconfirmed = []\<rparr>"

lemma toy_script: "is_p2pkh (0x76 # 0xa9 # 0x14 # replicate 20 7 @ [0x88, 0xac])"
  by (simp add: is_p2pkh_def nth_append)

lemma toy_funded: "funding_of [toy_output 0 10, toy_output 1 950] 1000 [950] [] = Inr toy_funding"
  by (auto simp: funding_of_def spendable_utxos_def confirmations_def COINBASE_MATURITY_def toy_output_def
      toy_script utxo_outpoint_def toy_funding_def amount_checked_sum_def amount_checked_add_def
      checked_add_def amount_zero_def Let_def)


end
