(* ===== verification/Identity_Ops.thy ===== *)
theory Identity_Ops
  imports Output_Types Transparent
begin

text \<open>
  What the authorities of a VerusID and its own keys do to it (\<open>verus-tx-identity/src/revoke.rs\<close>
  and \<open>update.rs\<close>): revoke, recover and update.  Each spends the output that holds the
  identity and publishes the whole object again.
\<close>

section \<open>Revoking and recovering (revoke.rs)\<close>

record revocation_params =
  rv_identity_output :: utxo
  rv_utxos :: "utxo list"
  rv_change_address :: address
  rv_expiry :: expiry
  rv_fee_per_kb :: u64

definition revocation_params_new :: "utxo \<Rightarrow> utxo list \<Rightarrow> address \<Rightarrow> expiry \<Rightarrow> revocation_params" where
  "revocation_params_new identity_output utxos change_address expiry =
     \<lparr>rv_identity_output = identity_output, rv_utxos = utxos, rv_change_address = change_address,
      rv_expiry = expiry, rv_fee_per_kb = DEFAULT_FEE_PER_KB\<rparr>"

record recovery_params =
  rc_identity_output :: utxo
  rc_identity :: identity
  rc_utxos :: "utxo list"
  rc_change_address :: address
  rc_expiry :: expiry
  rc_fee_per_kb :: u64

definition recovery_params_new :: "utxo \<Rightarrow> identity \<Rightarrow> utxo list \<Rightarrow> address \<Rightarrow> expiry \<Rightarrow> recovery_params" where
  "recovery_params_new identity_output identity utxos change_address expiry =
     \<lparr>rc_identity_output = identity_output, rc_identity = identity, rc_utxos = utxos,
      rc_change_address = change_address, rc_expiry = expiry, rc_fee_per_kb = DEFAULT_FEE_PER_KB\<rparr>"

text \<open>The identity the output being spent actually holds.\<close>

definition current_identity :: "hash_lib \<Rightarrow> hex_encode \<Rightarrow> utxo \<Rightarrow> tx_error + identity" where
  "current_identity H hx output =
     rbind (decode_output_script H hx (utxo_script_pubkey output)) (\<lambda>kind.
     case kind of OutIdentityPrimary identity \<Rightarrow> Inr identity | _ \<Rightarrow> Inl IdentityOutputMismatch)"

record common_params =
  cm_identity_output :: utxo
  cm_utxos :: "utxo list"
  cm_change_address :: address
  cm_expiry :: expiry
  cm_fee_per_kb :: u64

text \<open>The script that publishes an identity under its id.\<close>

definition publish_script :: "identity \<Rightarrow> bytes \<Rightarrow> tx_error + bytes" where
  "publish_script identity id_hash =
     rbind (identity_to_bytes identity) (\<lambda>bs.
     identity_primary_script id_hash bs (id_revocation_authority identity) (id_recovery_authority identity)
       (has_tokenized_control identity))"

definition republish ::
  "('sk, 'vk, 'sg) env \<Rightarrow> 'sk private_key \<Rightarrow> 'sk private_key list \<Rightarrow> identity \<Rightarrow> bytes \<Rightarrow> common_params
    \<Rightarrow> tx_error + signed_transaction" where
  "republish E funding_key authority_keys identity id_hash common =
     rbind (publish_script identity id_hash) (\<lambda>script_pubkey.
     assemble E funding_key authority_keys
       \<lparr>as_leading = [cm_identity_output common], as_funding = cm_utxos common,
        as_outputs = [\<lparr>out_value = 0, out_script_pubkey = script_pubkey\<rparr>], as_burn = amount_zero,
        as_fee_output_count = 2, as_change_address = cm_change_address common, as_change_script = None,
        as_value_bearing_leading = False, as_expiry = cm_expiry common, as_fee_per_kb = cm_fee_per_kb common\<rparr>)"

definition build_identity_revocation ::
  "('sk, 'vk, 'sg) env \<Rightarrow> 'sk private_key \<Rightarrow> 'sk private_key list \<Rightarrow> revocation_params
    \<Rightarrow> tx_error + signed_transaction" where
  "build_identity_revocation E funding_key authority_keys p =
     rbind (check_expiry (rv_expiry p)) (\<lambda>_.
     rbind (check_p2pkh_funding (rv_utxos p)) (\<lambda>_.
     rbind (current_identity (env_hash E) (env_hex E) (rv_identity_output p)) (\<lambda>identity.
     rbind (refuse_if (is_revoked identity) AlreadyRevoked) (\<lambda>_.
     let id_hash = identity_id (env_hash E) (id_name identity) (Some (id_parent identity)) in
     rbind (refuse_if (id_recovery_authority identity = id_hash) RevocationWouldStrand) (\<lambda>_.
     republish E funding_key authority_keys (identity\<lparr>id_flags := id_flags identity OR FLAG_REVOKED\<rparr>) id_hash
       \<lparr>cm_identity_output = rv_identity_output p, cm_utxos = rv_utxos p,
        cm_change_address = rv_change_address p, cm_expiry = rv_expiry p, cm_fee_per_kb = rv_fee_per_kb p\<rparr>)))))"

definition build_identity_recovery ::
  "('sk, 'vk, 'sg) env \<Rightarrow> 'sk private_key \<Rightarrow> 'sk private_key list \<Rightarrow> recovery_params
    \<Rightarrow> tx_error + signed_transaction" where
  "build_identity_recovery E funding_key authority_keys p =
     rbind (check_expiry (rc_expiry p)) (\<lambda>_.
     rbind (check_p2pkh_funding (rc_utxos p)) (\<lambda>_.
     rbind (current_identity (env_hash E) (env_hex E) (rc_identity_output p)) (\<lambda>current.
     rbind (refuse_if (\<not> is_revoked current) NotRevoked) (\<lambda>_.
     let id_hash = identity_id (env_hash E) (id_name current) (Some (id_parent current)) in
     rbind (refuse_if (identity_id (env_hash E) (id_name (rc_identity p)) (Some (id_parent (rc_identity p))) \<noteq> id_hash)
       IdentityOutputMismatch) (\<lambda>_.
     rbind (refuse_if (is_revoked (rc_identity p)) StillRevoked) (\<lambda>_.
     republish E funding_key authority_keys (rc_identity p) id_hash
       \<lparr>cm_identity_output = rc_identity_output p, cm_utxos = rc_utxos p,
        cm_change_address = rc_change_address p, cm_expiry = rc_expiry p, cm_fee_per_kb = rc_fee_per_kb p\<rparr>))))))"

section \<open>Updating (update.rs)\<close>

record update_params =
  up_identity_output :: utxo
  up_identity :: identity
  up_utxos :: "utxo list"
  up_change_address :: address
  up_expiry :: expiry
  up_fee_per_kb :: u64
  up_allow_authority_change :: bool
  up_tip :: "u32 option"
  up_additional_outputs :: "tx_out list"

definition update_params_new :: "utxo \<Rightarrow> identity \<Rightarrow> utxo list \<Rightarrow> address \<Rightarrow> expiry \<Rightarrow> update_params" where
  "update_params_new identity_output identity utxos change_address expiry =
     \<lparr>up_identity_output = identity_output, up_identity = identity, up_utxos = utxos,
      up_change_address = change_address, up_expiry = expiry, up_fee_per_kb = DEFAULT_FEE_PER_KB,
      up_allow_authority_change = False, up_tip = None, up_additional_outputs = []\<rparr>"

definition at_tip :: "update_params \<Rightarrow> u32 \<Rightarrow> update_params" where
  "at_tip p tip = p\<lparr>up_tip := Some tip\<rparr>"

definition allowing_authority_change :: "update_params \<Rightarrow> update_params" where
  "allowing_authority_change p = p\<lparr>up_allow_authority_change := True\<rparr>"

definition with_additional_outputs :: "update_params \<Rightarrow> tx_out list \<Rightarrow> update_params" where
  "with_additional_outputs p outputs = p\<lparr>up_additional_outputs := outputs\<rparr>"

definition check_authority_unchanged :: "identity \<Rightarrow> identity \<Rightarrow> tx_error + unit" where
  "check_authority_unchanged current proposed =
     rbind (refuse_if (id_primary_addresses current \<noteq> id_primary_addresses proposed)
       (AuthorityChangeRefused ''primary_addresses'')) (\<lambda>_.
     rbind (refuse_if (id_min_sigs current \<noteq> id_min_sigs proposed) (AuthorityChangeRefused ''min_sigs'')) (\<lambda>_.
     rbind (refuse_if (id_revocation_authority current \<noteq> id_revocation_authority proposed)
       (AuthorityChangeRefused ''revocation_authority'')) (\<lambda>_.
     refuse_if (id_recovery_authority current \<noteq> id_recovery_authority proposed)
       (AuthorityChangeRefused ''recovery_authority''))))"

text \<open>The two senses of locked: the flag, and an unlock height the tip has not passed.\<close>

definition flagged :: "identity \<Rightarrow> bool" where
  "flagged i \<longleftrightarrow> id_flags i AND FLAG_LOCKED \<noteq> 0"

definition locked_now :: "u32 option \<Rightarrow> identity \<Rightarrow> bool" where
  "locked_now tip i =
     (if is_revoked i then False
      else case tip of Some height \<Rightarrow> flagged i \<or> height \<le> id_unlock_after i | None \<Rightarrow> flagged i)"

abbreviation dec32 :: "u32 \<Rightarrow> str" where "dec32 n \<equiv> dec_string (unat n)"

definition check_timelock :: "identity \<Rightarrow> identity \<Rightarrow> u32 \<Rightarrow> u32 option \<Rightarrow> tx_error + unit" where
  "check_timelock current proposed expiry_height tip =
     (let was = id_unlock_after current; becomes = id_unlock_after proposed in
      if locked_now tip current \<and> \<not> is_revoked proposed then
        if \<not> locked_now tip proposed then
          Inl (TimelockRefused (''the identity is locked and this update would leave it unlocked; only a '' @
            ''revocation may do that in one step (unlock_after '' @ dec32 was @ '' -> '' @ dec32 becomes @ '')''))
        else if flagged current then
          if flagged proposed then
            refuse_if (becomes < was)
              (TimelockRefused (''a locked identity's delay may only grow: '' @ dec32 was @ '' -> '' @ dec32 becomes))
          else
            let floor = saturating_add was expiry_height;
                escape = MAX_UNLOCK_DELAY < was \<and> becomes = saturating_add MAX_UNLOCK_DELAY expiry_height in
            refuse_if (becomes < floor \<and> \<not> escape)
              (TimelockRefused (''starting the countdown needs an unlock height of at least '' @ dec32 floor @
                '' (delay '' @ dec32 was @ '' + this transaction's expiry '' @ dec32 expiry_height @ ''), not '' @
                dec32 becomes))
        else if flagged proposed then
          refuse_if (saturating_add expiry_height becomes < was)
            (TimelockRefused (''re-locking may not bring the unlock forward: '' @ dec32 expiry_height @ '' + delay '' @
              dec32 becomes @ '' is before the current unlock height '' @ dec32 was))
        else
          refuse_if (becomes < was)
            (TimelockRefused (''an unlock height may only move later: '' @ dec32 was @ '' -> '' @ dec32 becomes))
      else if locked_now tip proposed \<or> (\<not> flagged proposed \<and> becomes \<noteq> 0 \<and> becomes \<noteq> was) then
        if flagged proposed then
          refuse_if (MAX_UNLOCK_DELAY < becomes)
            (TimelockRefused (''a lock delay of '' @ dec32 becomes @ '' exceeds the maximum of '' @ dec32 MAX_UNLOCK_DELAY))
        else
          refuse_if (becomes \<le> expiry_height)
            (TimelockRefused (''an unlock height of '' @ dec32 becomes @ '' is not past this transaction's expiry '' @
              dec32 expiry_height @ '', so the identity would be unlocked before it could be mined''))
      else Inr ())"

definition check_signer ::
  "('sk, 'vk, 'sg) env \<Rightarrow> identity \<Rightarrow> 'sk private_key \<Rightarrow> tx_error + unit" where
  "check_signer E current key =
     (let address = private_address (env_hash E) (env_ec E) key in
      refuse_if (DestPubKeyHash (addr_hash address) \<notin> set (id_primary_addresses current))
        (NotAPrimaryAddress (address_to_string (env_hash E) address)))"

text \<open>The bytes of an extra output past the size the estimator assumes, in outputs.\<close>

definition output_pad :: "tx_out \<Rightarrow> u64" where
  "output_pad out =
     (let len = of_nat (length (out_script_pubkey out)) in
      div_ceil (if SMART_OUTPUT_SIZE \<le> len then len - SMART_OUTPUT_SIZE else 0) SMART_OUTPUT_SIZE)"

fun padded_count :: "u64 \<Rightarrow> tx_out list \<Rightarrow> tx_error + u64" where
  "padded_count n [] = Inr n"
| "padded_count n (out # outs) =
     rbind (ok_or (checked_add n (output_pad out)) ValueOverflow) (\<lambda>n. padded_count n outs)"

definition build_identity_update ::
  "('sk, 'vk, 'sg) env \<Rightarrow> 'sk private_key \<Rightarrow> 'sk private_key list \<Rightarrow> update_params
    \<Rightarrow> tx_error + signed_transaction" where
  "build_identity_update E funding_key identity_keys p =
     rbind (check_expiry (up_expiry p)) (\<lambda>_.
     rbind (check_p2pkh_funding (up_utxos p)) (\<lambda>_.
     let identity = up_identity p;
         id_hash = identity_id (env_hash E) (id_name identity) (Some (id_parent identity)) in
     rbind (current_identity (env_hash E) (env_hex E) (up_identity_output p)) (\<lambda>current.
     rbind (refuse_if (identity_id (env_hash E) (id_name current) (Some (id_parent current)) \<noteq> id_hash)
       IdentityOutputMismatch) (\<lambda>_.
     rbind (if up_allow_authority_change p then Inr () else check_authority_unchanged current identity) (\<lambda>_.
     rbind (check_timelock current identity (to_height (up_expiry p)) (up_tip p)) (\<lambda>_.
     rbind (refuse_if (length identity_keys < unat (id_min_sigs current))
       (NotEnoughSigners (length identity_keys) (id_min_sigs current))) (\<lambda>_.
     rbind (rmap (check_signer E current) identity_keys) (\<lambda>_.
     rbind (publish_script identity id_hash) (\<lambda>script_pubkey.
     let outputs = up_additional_outputs p @ [\<lparr>out_value = 0, out_script_pubkey = script_pubkey\<rparr>] in
     rbind (padded_count (of_nat (length outputs) + 1) (up_additional_outputs p)) (\<lambda>fee_output_count.
     assemble E funding_key identity_keys
       \<lparr>as_leading = [up_identity_output p], as_funding = up_utxos p, as_outputs = outputs,
        as_burn = amount_zero, as_fee_output_count = fee_output_count,
        as_change_address = up_change_address p, as_change_script = None,
        as_value_bearing_leading = False, as_expiry = up_expiry p, as_fee_per_kb = up_fee_per_kb p\<rparr>))))))))))"

section \<open>What an assembled transaction is\<close>

lemma choose_funding_subset:
  assumes "choose_funding plan required held = Inr (selected, fee, change)"
  shows "set selected \<subseteq> set (as_funding plan)"
  using assms selected_subset by (fastforce simp: choose_funding_def rbind_Inr_iff Let_def split: if_splits)

lemma assemble_built:
  fixes E :: "('sk, 'vk, 'sg) env"
  assumes "ec_lib_ok (env_ec E)" "assemble E fk lks plan = Inr st"
  obtains t raw selected extra change where
    "strip_scripts t = unsigned_tx (as_leading plan @ selected) (as_outputs plan @ extra) 0 (to_height (as_expiry plan))"
    "tx_outputs t = as_outputs plan @ extra" "length (tx_inputs t) = length (as_leading plan) + length selected"
    "set selected \<subseteq> set (as_funding plan)" "change_output plan change = Inr extra" "length extra \<le> 1"
    "utxo_total (as_leading plan @ selected) = total_value (tx_outputs t) + sats (st_fee st)"
    "\<forall>i < length (as_leading plan). \<exists>h. sighash_of E t i (as_leading plan ! i) = Inr h \<and>
       fulfillment_unlocks E lks h (in_script_sig (tx_inputs t ! i))"
    "serialize t = Inr raw" "st_hex st = env_hex E raw"
    "st_inputs_used st = map outpoint (as_leading plan @ selected)"
proof -
  from assms(2) obtain t0 t inputs expected change where
    un: "assemble_unsigned plan = Inr (t0, inputs, expected, change)"
    and sign: "sign_inputs E t0 fk lks inputs (length (as_leading plan)) = Inr t"
    and st: "signed_transaction_of E t (from_sat expected) (from_sat change) inputs = Inr st"
    by (auto simp: assemble_def rbind_Inr_iff)
  from un obtain required leading_total selected fee extra where
    run: "assembly_run plan required leading_total selected fee change extra"
    and t0: "t0 = unsigned_tx inputs (as_outputs plan @ extra) 0 (to_height (as_expiry plan))"
    and inputs: "inputs = as_leading plan @ selected" "expected = fee + to_sat (as_burn plan)"
    by (auto simp: assemble_unsigned_Inr)
  note signed = sign_inputs_Inr [OF assms(1) sign]
  have strip: "strip_scripts t = unsigned_tx (as_leading plan @ selected) (as_outputs plan @ extra) 0
      (to_height (as_expiry plan))"
    using signed(1) by (simp add: t0 inputs)
  have outs: "tx_outputs t = as_outputs plan @ extra"
    using arg_cong [OF strip, of tx_outputs] by (simp add: strip_scripts_def unsigned_tx_def)
  have ins: "length (tx_inputs t) = length (as_leading plan) + length selected"
    using strip_scripts_inputs [OF signed(1)] by (simp add: t0 inputs unsigned_tx_def)
  have sub: "set selected \<subseteq> set (as_funding plan)"
    using run choose_funding_subset [of plan required leading_total selected fee change] by (simp add: assembly_run_def)
  have extra: "change_output plan change = Inr extra" using run by (simp add: assembly_run_def)
  moreover from extra have "length extra \<le> 1" by (auto simp: change_output_Inr split: if_splits)
  moreover obtain raw where raw: "serialize t = Inr raw" "st_hex st = env_hex E raw" "st_fee st = from_sat expected"
    "st_inputs_used st = map outpoint (as_leading plan @ selected)"
    using st by (auto simp: signed_transaction_of_Inr inputs)
  moreover have "utxo_total (as_leading plan @ selected) = total_value (tx_outputs t) + sats (st_fee st)"
    using assembly_conserved(1) [OF run] by (simp add: outs raw(3) inputs(2) from_sat_def)
  moreover have "\<exists>h. sighash_of E t i (as_leading plan ! i) = Inr h \<and>
       fulfillment_unlocks E lks h (in_script_sig (tx_inputs t ! i))" if "i < length (as_leading plan)" for i
    using signed(3) [of i] that by (auto simp: inputs unlocks_def nth_append)
  ultimately show thesis using that strip outs ins sub by blast
qed

section \<open>What a published identity is\<close>

lemma length_identity_id: "hash_lib_ok H \<Longrightarrow> length (identity_id H name parent) = 20"
  by (simp add: identity_id_def hash160_def hash_lib_ok_def Let_def)

lemma current_identity_Inr:
  "current_identity H hx u = Inr i \<longleftrightarrow> decode_output_script H hx (utxo_script_pubkey u) = Inr (OutIdentityPrimary i)"
proof -
  have "(case k of OutIdentityPrimary j \<Rightarrow> Inr j | _ \<Rightarrow> Inl IdentityOutputMismatch) = Inr i \<longleftrightarrow> k = OutIdentityPrimary i"
    for k by (cases k) auto
  then show ?thesis unfolding current_identity_def rbind_Inr_iff by auto
qed

lemma current_identity_wf:
  "current_identity H hx u = Inr i \<Longrightarrow> length (utxo_script_pubkey u) < usize_bound \<Longrightarrow> wf_identity i"
  using decoded_wf [of H hx "utxo_script_pubkey u" "OutIdentityPrimary i"] by (simp add: current_identity_Inr)

text \<open>
  What the bytes of an identity hold: before the vault version neither a system id nor an
  unlock height is written, and a reader takes the parent and zero for them.
\<close>

definition as_written :: "identity \<Rightarrow> identity" where
  "as_written i = (if unat (id_version i) < 2 then i\<lparr>id_system_id := id_parent i, id_unlock_after := 0\<rparr> else i)"

lemma as_written_wf [simp]: "wf_identity i \<Longrightarrow> as_written i = i"
  by (auto simp: as_written_def wf_identity_def)

lemma publish_as_written: "publish_script (as_written i) h = publish_script i h"
proof (cases "2 \<le> unat (id_version i)")
  case False
  then have "\<not> IDENTITY_VERSION_VAULT \<le> id_version i" "\<not> IDENTITY_VERSION_PBAAS \<le> id_version i"
    by (simp_all add: version_tests)
  then show ?thesis
    using False by (simp add: as_written_def publish_script_def identity_to_bytes_def multimap_bytes_def
        has_tokenized_control_def if_not_P del: not_le)
qed (simp add: as_written_def)

lemma published_as_written:
  assumes "publish_script i h = Inr s" "wf_identity (as_written i)" "length h = 20"
  shows "decode_output_script H hx s = Inr (OutIdentityPrimary (as_written i))"
proof -
  let ?i = "as_written i"
  from assms(1) have "publish_script ?i h = Inr s" by (simp add: publish_as_written)
  then obtain bs where bs: "identity_to_bytes ?i = Inr bs"
    and s: "identity_primary_script h bs (id_revocation_authority ?i) (id_recovery_authority ?i) (has_tokenized_control ?i) = Inr s"
    by (auto simp: publish_script_def rbind_Inr_iff)
  from decode_identity_script [OF assms(2) bs assms(3) _ _ s] assms(2) show ?thesis by (simp add: wf_identity_def)
qed

lemma published_reads_back:
  assumes "publish_script i h = Inr s" "wf_identity i" "length h = 20"
  shows "decode_output_script H hx s = Inr (OutIdentityPrimary i)"
  using published_as_written [OF assms(1) _ assms(3)] assms(2) by simp

lemma wf_identity_flags [simp]: "wf_identity (i\<lparr>id_flags := f\<rparr>) = wf_identity i"
  by (simp add: wf_identity_def)

text \<open>
  The transaction, whose bytes are the hex given, spends the output \<open>u\<close> first, signed by every
  one of \<open>keys\<close>, then only coins among \<open>coins\<close>; it creates the outputs \<open>before\<close>, then one of no
  value that holds \<open>i\<close> as written, then at most a change output, and expires at the height given.
\<close>

definition publishes ::
  "('sk, 'vk, 'sg) env \<Rightarrow> 'sk private_key list \<Rightarrow> utxo \<Rightarrow> utxo list \<Rightarrow> tx_out list \<Rightarrow> identity \<Rightarrow> u32
    \<Rightarrow> signed_transaction \<Rightarrow> bool" where
  "publishes E keys u coins before i expiry_height st \<longleftrightarrow>
     (\<exists>t raw h out change selected. serialize t = Inr raw \<and> st_hex st = env_hex E raw \<and>
        strip_scripts t = unsigned_tx (u # selected) (before @ out # change) 0 expiry_height \<and>
        set selected \<subseteq> set coins \<and> st_inputs_used st = map outpoint (u # selected) \<and>
        length change \<le> 1 \<and> out_value out = 0 \<and>
        decode_output_script (env_hash E) (env_hex E) (out_script_pubkey out) =
          Inr (OutIdentityPrimary (as_written i)) \<and>
        sighash_of E t 0 u = Inr h \<and> fulfillment_unlocks E keys h (in_script_sig (tx_inputs t ! 0)))"

lemma assembled_publishes:
  assumes "ec_lib_ok (env_ec E)" "assemble E fk keys plan = Inr st"
    and "as_leading plan = [u]" "as_funding plan = coins"
    and "as_outputs plan = before @ [\<lparr>out_value = 0, out_script_pubkey = s\<rparr>]"
    and "to_height (as_expiry plan) = e"
    and "publish_script i h = Inr s" "wf_identity (as_written i)" "length h = 20"
  shows "publishes E keys u coins before i e st"
proof -
  from assms(1,2) obtain t raw selected extra where
    strip: "strip_scripts t = unsigned_tx (as_leading plan @ selected) (as_outputs plan @ extra) 0 (to_height (as_expiry plan))"
    and outs: "set selected \<subseteq> set (as_funding plan)" "length extra \<le> 1"
    and sig: "\<forall>i < length (as_leading plan). \<exists>h. sighash_of E t i (as_leading plan ! i) = Inr h \<and>
       fulfillment_unlocks E keys h (in_script_sig (tx_inputs t ! i))"
    and raw: "serialize t = Inr raw" "st_hex st = env_hex E raw"
      "st_inputs_used st = map outpoint (as_leading plan @ selected)"
    by (rule assemble_built) (rule that)
  from sig obtain h where "sighash_of E t 0 u = Inr h"
    "fulfillment_unlocks E keys h (in_script_sig (tx_inputs t ! 0))" by (auto simp: assms(3))
  with raw strip outs published_as_written [OF assms(7-9), of "env_hash E" "env_hex E"] show ?thesis
    unfolding publishes_def
    by (intro exI [of _ t] exI [of _ raw] exI [of _ h] exI [of _ "\<lparr>out_value = 0, out_script_pubkey = s\<rparr>"]
        exI [of _ extra] exI [of _ selected]) (simp add: assms(3-6))
qed

lemma republish_publishes:
  assumes "ec_lib_ok (env_ec E)" "republish E fk keys i h common = Inr st" "wf_identity (as_written i)" "length h = 20"
  shows "publishes E keys (cm_identity_output common) (cm_utxos common) [] i (to_height (cm_expiry common)) st"
proof -
  from assms(2) obtain s where s: "publish_script i h = Inr s"
    and st: "assemble E fk keys
       \<lparr>as_leading = [cm_identity_output common], as_funding = cm_utxos common,
        as_outputs = [\<lparr>out_value = 0, out_script_pubkey = s\<rparr>], as_burn = amount_zero,
        as_fee_output_count = 2, as_change_address = cm_change_address common, as_change_script = None,
        as_value_bearing_leading = False, as_expiry = cm_expiry common, as_fee_per_kb = cm_fee_per_kb common\<rparr> = Inr st"
    by (auto simp: republish_def rbind_Inr_iff)
  show ?thesis by (rule assembled_publishes [OF assms(1) st _ _ _ _ s assms(3,4)]) simp_all
qed

text \<open>
  A revocation revokes and changes nothing else.  Whatever is built spends the output the
  identity is in, with a signature of every authority key given, and publishes the identity
  that output held with the revoked flag added, every other flag and field as it was; the
  identity was not revoked, and its recovery authority is not itself.
\<close>

theorem revocation_only_revokes:
  fixes E :: "('sk, 'vk, 'sg) env"
  assumes "ec_lib_ok (env_ec E)" "hash_lib_ok (env_hash E)"
    and "build_identity_revocation E funding_key keys p = Inr st"
    and "length (utxo_script_pubkey (rv_identity_output p)) < usize_bound"
  shows "\<exists>i. decode_output_script (env_hash E) (env_hex E) (utxo_script_pubkey (rv_identity_output p)) =
        Inr (OutIdentityPrimary i) \<and> \<not> is_revoked i \<and>
      id_recovery_authority i \<noteq> identity_id (env_hash E) (id_name i) (Some (id_parent i)) \<and>
      publishes E keys (rv_identity_output p) (rv_utxos p) [] (i\<lparr>id_flags := id_flags i OR FLAG_REVOKED\<rparr>)
        (to_height (rv_expiry p)) st \<and>
      is_revoked (i\<lparr>id_flags := id_flags i OR FLAG_REVOKED\<rparr>)"
proof -
  let ?h = "\<lambda>i. identity_id (env_hash E) (id_name i) (Some (id_parent i))"
  from assms(3) obtain i where cur: "current_identity (env_hash E) (env_hex E) (rv_identity_output p) = Inr i"
    and ok: "\<not> is_revoked i" "id_recovery_authority i \<noteq> ?h i"
    and st: "republish E funding_key keys (i\<lparr>id_flags := id_flags i OR FLAG_REVOKED\<rparr>) (?h i)
       \<lparr>cm_identity_output = rv_identity_output p, cm_utxos = rv_utxos p,
        cm_change_address = rv_change_address p, cm_expiry = rv_expiry p, cm_fee_per_kb = rv_fee_per_kb p\<rparr> = Inr st"
    by (auto simp: build_identity_revocation_def rbind_Inr_iff refuse_if_Inr_iff Let_def)
  from republish_publishes [OF assms(1) st] current_identity_wf [OF cur assms(4)] length_identity_id [OF assms(2)]
  have "publishes E keys (rv_identity_output p) (rv_utxos p) [] (i\<lparr>id_flags := id_flags i OR FLAG_REVOKED\<rparr>)
      (to_height (rv_expiry p)) st" by simp
  moreover have "is_revoked (i\<lparr>id_flags := id_flags i OR FLAG_REVOKED\<rparr>)"
  proof -
    have "(id_flags i OR FLAG_REVOKED) AND FLAG_REVOKED = FLAG_REVOKED" by (simp add: bit_eq_iff bit_simps)
    then show ?thesis by (simp add: is_revoked_def FLAG_REVOKED_def)
  qed
  ultimately show ?thesis using ok cur by (auto simp: current_identity_Inr)
qed

text \<open>
  A recovery gives the identity as asked and clears the flag.  It spends a revoked
  identity, signed by every authority key given, and publishes exactly the identity the
  caller states, which is not revoked and has the same id.
\<close>

theorem recovery_restores:
  fixes E :: "('sk, 'vk, 'sg) env"
  assumes "ec_lib_ok (env_ec E)" "hash_lib_ok (env_hash E)"
    and "build_identity_recovery E funding_key keys p = Inr st"
    and "\<And>bs. identity_to_bytes (rc_identity p) = Inr bs \<Longrightarrow> wf_identity (as_written (rc_identity p))"
  shows "\<exists>i. decode_output_script (env_hash E) (env_hex E) (utxo_script_pubkey (rc_identity_output p)) =
        Inr (OutIdentityPrimary i) \<and> is_revoked i \<and>
      identity_id (env_hash E) (id_name i) (Some (id_parent i)) =
        identity_id (env_hash E) (id_name (rc_identity p)) (Some (id_parent (rc_identity p))) \<and>
      publishes E keys (rc_identity_output p) (rc_utxos p) [] (rc_identity p) (to_height (rc_expiry p)) st \<and>
      \<not> is_revoked (rc_identity p)"
proof -
  let ?h = "\<lambda>i. identity_id (env_hash E) (id_name i) (Some (id_parent i))"
  from assms(3) obtain i where cur: "current_identity (env_hash E) (env_hex E) (rc_identity_output p) = Inr i"
    and ok: "is_revoked i" "?h (rc_identity p) = ?h i" "\<not> is_revoked (rc_identity p)"
    and st: "republish E funding_key keys (rc_identity p) (?h i)
       \<lparr>cm_identity_output = rc_identity_output p, cm_utxos = rc_utxos p,
        cm_change_address = rc_change_address p, cm_expiry = rc_expiry p, cm_fee_per_kb = rc_fee_per_kb p\<rparr> = Inr st"
    by (auto simp: build_identity_recovery_def rbind_Inr_iff refuse_if_Inr_iff Let_def)
  from st obtain bs where "identity_to_bytes (rc_identity p) = Inr bs"
    by (auto simp: republish_def publish_script_def rbind_Inr_iff)
  from republish_publishes [OF assms(1) st assms(4) [OF this]] length_identity_id [OF assms(2)] ok cur
  show ?thesis by (auto simp: current_identity_Inr)
qed

section \<open>Updates\<close>

lemma check_signer_Inr:
  "check_signer E i key = Inr u \<longleftrightarrow>
     DestPubKeyHash (addr_hash (private_address (env_hash E) (env_ec E) key)) \<in> set (id_primary_addresses i)"
  by (simp add: check_signer_def Let_def refuse_if_Inr_iff)

lemma check_authority_Inr:
  "check_authority_unchanged i j = Inr u \<longleftrightarrow>
     id_primary_addresses i = id_primary_addresses j \<and> id_min_sigs i = id_min_sigs j \<and>
     id_revocation_authority i = id_revocation_authority j \<and> id_recovery_authority i = id_recovery_authority j"
  by (auto simp: check_authority_unchanged_def rbind_Inr_iff refuse_if_Inr_iff)

lemma build_identity_update_Inr:
  assumes "build_identity_update E funding_key keys p = Inr st"
  obtains i s count where
    "current_identity (env_hash E) (env_hex E) (up_identity_output p) = Inr i"
    "identity_id (env_hash E) (id_name i) (Some (id_parent i)) =
       identity_id (env_hash E) (id_name (up_identity p)) (Some (id_parent (up_identity p)))"
    "up_allow_authority_change p \<or> check_authority_unchanged i (up_identity p) = Inr ()"
    "check_timelock i (up_identity p) (to_height (up_expiry p)) (up_tip p) = Inr ()"
    "unat (id_min_sigs i) \<le> length keys" "\<forall>key \<in> set keys. check_signer E i key = Inr ()"
    "publish_script (up_identity p) (identity_id (env_hash E) (id_name (up_identity p))
       (Some (id_parent (up_identity p)))) = Inr s"
    "assemble E funding_key keys
       \<lparr>as_leading = [up_identity_output p], as_funding = up_utxos p,
        as_outputs = up_additional_outputs p @ [\<lparr>out_value = 0, out_script_pubkey = s\<rparr>],
        as_burn = amount_zero, as_fee_output_count = count,
        as_change_address = up_change_address p, as_change_script = None,
        as_value_bearing_leading = False, as_expiry = up_expiry p, as_fee_per_kb = up_fee_per_kb p\<rparr> = Inr st"
proof -
  from assms obtain i s count us where
    cur: "current_identity (env_hash E) (env_hex E) (up_identity_output p) = Inr i"
    and "identity_id (env_hash E) (id_name i) (Some (id_parent i)) =
       identity_id (env_hash E) (id_name (up_identity p)) (Some (id_parent (up_identity p)))"
    and "up_allow_authority_change p \<or> check_authority_unchanged i (up_identity p) = Inr ()"
    and "check_timelock i (up_identity p) (to_height (up_expiry p)) (up_tip p) = Inr ()"
    and "unat (id_min_sigs i) \<le> length keys" and signers: "rmap (check_signer E i) keys = Inr us"
    and "publish_script (up_identity p) (identity_id (env_hash E) (id_name (up_identity p))
       (Some (id_parent (up_identity p)))) = Inr s"
    and "assemble E funding_key keys
       \<lparr>as_leading = [up_identity_output p], as_funding = up_utxos p,
        as_outputs = up_additional_outputs p @ [\<lparr>out_value = 0, out_script_pubkey = s\<rparr>],
        as_burn = amount_zero, as_fee_output_count = count,
        as_change_address = up_change_address p, as_change_script = None,
        as_value_bearing_leading = False, as_expiry = up_expiry p, as_fee_per_kb = up_fee_per_kb p\<rparr> = Inr st"
    unfolding build_identity_update_def Let_def
    by (auto simp: rbind_Inr_iff refuse_if_Inr_iff not_less split: if_splits)
  moreover have "\<forall>key \<in> set keys. check_signer E i key = Inr ()"
    using signers by (auto simp: rmap_Inr_iff list_all2_conv_all_nth in_set_conv_nth)
  ultimately show thesis using that by blast
qed

text \<open>
  An update publishes the identity as stated, by leave of the one on chain.  The output of
  the identity is spent with the signatures of all the keys given, at least as many as the
  threshold of the identity in that output, each the key of one of its primary addresses; the
  outputs are the caller's extra outputs in order, then the stated identity under the same id,
  then at most the change.  Unless asked for, none of the four fields that say who controls
  the identity differ from those on chain.
\<close>

theorem update_by_leave:
  fixes E :: "('sk, 'vk, 'sg) env"
  assumes "ec_lib_ok (env_ec E)" "hash_lib_ok (env_hash E)"
    and "build_identity_update E funding_key keys p = Inr st"
    and "\<And>bs. identity_to_bytes (up_identity p) = Inr bs \<Longrightarrow> wf_identity (as_written (up_identity p))"
  shows "\<exists>i. decode_output_script (env_hash E) (env_hex E) (utxo_script_pubkey (up_identity_output p)) =
        Inr (OutIdentityPrimary i) \<and>
      identity_id (env_hash E) (id_name i) (Some (id_parent i)) =
        identity_id (env_hash E) (id_name (up_identity p)) (Some (id_parent (up_identity p))) \<and>
      publishes E keys (up_identity_output p) (up_utxos p) (up_additional_outputs p) (up_identity p)
        (to_height (up_expiry p)) st \<and>
      unat (id_min_sigs i) \<le> length keys \<and>
      (\<forall>key \<in> set keys. DestPubKeyHash (addr_hash (private_address (env_hash E) (env_ec E) key))
         \<in> set (id_primary_addresses i)) \<and>
      (\<not> up_allow_authority_change p \<longrightarrow>
         id_primary_addresses i = id_primary_addresses (up_identity p) \<and> id_min_sigs i = id_min_sigs (up_identity p) \<and>
         id_revocation_authority i = id_revocation_authority (up_identity p) \<and>
         id_recovery_authority i = id_recovery_authority (up_identity p))"
proof -
  from assms(3) obtain i s count where cur: "current_identity (env_hash E) (env_hex E) (up_identity_output p) = Inr i"
    and ok: "identity_id (env_hash E) (id_name i) (Some (id_parent i)) =
       identity_id (env_hash E) (id_name (up_identity p)) (Some (id_parent (up_identity p)))"
      "up_allow_authority_change p \<or> check_authority_unchanged i (up_identity p) = Inr ()"
      "unat (id_min_sigs i) \<le> length keys" "\<forall>key \<in> set keys. check_signer E i key = Inr ()"
    and s: "publish_script (up_identity p) (identity_id (env_hash E) (id_name (up_identity p))
       (Some (id_parent (up_identity p)))) = Inr s"
    and st: "assemble E funding_key keys
       \<lparr>as_leading = [up_identity_output p], as_funding = up_utxos p,
        as_outputs = up_additional_outputs p @ [\<lparr>out_value = 0, out_script_pubkey = s\<rparr>],
        as_burn = amount_zero, as_fee_output_count = count,
        as_change_address = up_change_address p, as_change_script = None,
        as_value_bearing_leading = False, as_expiry = up_expiry p, as_fee_per_kb = up_fee_per_kb p\<rparr> = Inr st"
    by (rule build_identity_update_Inr)
  from s obtain bs where "identity_to_bytes (up_identity p) = Inr bs" by (auto simp: publish_script_def rbind_Inr_iff)
  then have "publishes E keys (up_identity_output p) (up_utxos p) (up_additional_outputs p) (up_identity p)
      (to_height (up_expiry p)) st"
    by (intro assembled_publishes [OF assms(1) st _ _ _ _ s assms(4) length_identity_id [OF assms(2)]]) simp_all
  with ok cur show ?thesis by (auto simp: current_identity_Inr check_signer_Inr check_authority_Inr)
qed

text \<open>
  The height before which funds under an identity cannot move, as far as a transaction of a
  given expiry can tell: the unlock height itself, or for a delay that is not counting down
  the height it would give when the countdown starts there, cut at the last height there is.
\<close>

definition earliest_unlock :: "u32 \<Rightarrow> identity \<Rightarrow> nat" where
  "earliest_unlock expiry_height i =
     (if flagged i then min (unat (id_unlock_after i) + unat expiry_height) (2 ^ 32 - 1)
      else unat (id_unlock_after i))"

text \<open>
  C20: a timelock never loosens.  An identity that is locked at the tip, by its flag or by an
  unlock height not yet passed, stays locked in every update that does not revoke it, and the
  earliest height it can be spent from does not move forward; the one exception is starting
  the countdown of a delay above the cap, which runs for the capped delay from the expiry.
  An identity that is not locked is not given a delay above the cap, nor an unlock height the
  transaction could outlive.
\<close>

theorem timelock_never_loosens:
  assumes "check_timelock i j expiry_height (Some tip) = Inr ()"
  shows "if locked_now (Some tip) i \<and> \<not> is_revoked j
    then locked_now (Some tip) j \<and>
      (earliest_unlock expiry_height i \<le> earliest_unlock expiry_height j \<or>
       flagged i \<and> \<not> flagged j \<and> MAX_UNLOCK_DELAY < id_unlock_after i \<and>
       unat (id_unlock_after j) = min (unat MAX_UNLOCK_DELAY + unat expiry_height) (2 ^ 32 - 1))
    else locked_now (Some tip) j \<longrightarrow>
      (if flagged j then id_unlock_after j \<le> MAX_UNLOCK_DELAY else expiry_height < id_unlock_after j)"
proof (cases "locked_now (Some tip) i \<and> \<not> is_revoked j")
  case True
  then show ?thesis
    using assms
    by (auto simp: check_timelock_def Let_def refuse_if_Inr_iff earliest_unlock_def unat_saturating_add
        word_less_nat_alt not_less split: if_splits)
next
  case False
  then show ?thesis
    using assms by (auto simp: check_timelock_def Let_def refuse_if_Inr_iff not_less not_le split: if_splits)
qed

section \<open>A request that runs\<close>

definition held_identity :: identity where
  "held_identity = sample_identity\<lparr>id_primary_addresses := [DestPubKeyHash (2 # replicate 19 5)]\<rparr>"

definition identity_coin_of :: "identity \<Rightarrow> utxo" where
  "identity_coin_of i = \<lparr>utxo_txid = Txid (replicate 32 4), utxo_vout = 1, utxo_satoshis = Amount 0,
     utxo_script_pubkey = (case publish_script i (identity_id toy_hash_lib (id_name i) (Some (id_parent i))) of
        Inl _ \<Rightarrow> [] | Inr script \<Rightarrow> script)\<rparr>"

lemma sample_key_address: "addr_hash (private_address toy_hash_lib toy_ec_lib sample_key) = 2 # replicate 19 5"
  by (simp add: private_address_def sample_key_def toy_ec_lib_def toy_hash_lib_def private_public_key_def
      public_to_bytes_def Abs_key32_inverse hash160_def public_address_def address_new_def public_hash160_def)

lemma publish_script_total:
  assumes "identity_to_bytes i = Inr bs" "length bs \<le> 60000" "length h = 20"
    and "length (id_revocation_authority i) = 20" "length (id_recovery_authority i) = 20"
  shows "\<exists>s. publish_script i h = Inr s"
proof -
  have push: "length (push_bytes xs) \<le> length xs + 3" for xs by (simp add: push_bytes_def)
  have 1: "\<exists>c. to_chunk \<lparr>cc_version = v, cc_eval_code = e, cc_m = m, cc_n = n, cc_destinations = ds, cc_vdata = vs\<rparr> = Inr c \<and>
      length c \<le> 100 + sum_list (map (\<lambda>v. length v + 3) vs)"
    if "length ds \<le> 3" "\<forall>d \<in> set ds. length (to_push d) \<le> 21" "\<forall>v \<in> set vs. length v \<le> 65535" for v e m n ds vs
  proof -
    have "length (concat (map (push_bytes \<circ> to_push) ds)) \<le> 24 * length ds"
      using that(2) by (intro length_concat_bound) (auto intro: order_trans [OF push])
    moreover have "length (concat (map push_bytes vs)) \<le> sum_list (map (\<lambda>v. length v + 3) vs)"
      by (induction vs) (simp_all add: add_mono push)
    moreover have "length (push_bytes [v, e, m, n]) \<le> 7" using push [of "[v, e, m, n]"] by simp
    ultimately have "length (push_bytes [v, e, m, n] @ concat (map (push_bytes \<circ> to_push) ds) @ concat (map push_bytes vs))
        \<le> 100 + sum_list (map (\<lambda>v. length v + 3) vs)"
      using that(1) by (simp only: length_append)
    then show ?thesis using that(2,3) by (fastforce simp: to_chunk_Inr)
  qed
  have d: "length (to_push (DestIdentity x)) \<le> 21" if "length x = 20" for x using that by (simp add: tagged_def)
  have k: "length (to_push (DestPubKeyHash IDENTITY_RECOVER_KEYHASH)) \<le> 21" by (simp add: IDENTITY_RECOVER_KEYHASH_def tagged_def)
  obtain rv where rv: "to_chunk (one_of_one EVAL_IDENTITY_REVOKE (DestIdentity (id_revocation_authority i))) = Inr rv"
    "length rv \<le> 100"
    using 1 [of "[DestIdentity (id_revocation_authority i)]" "[]" OPT_CC_PARAMS_VERSION EVAL_IDENTITY_REVOKE 1 1] d [OF assms(4)] by (auto simp: one_of_one_def)
  let ?recover = "one_of_one EVAL_IDENTITY_RECOVER (DestIdentity (id_recovery_authority i))"
  let ?recover2 = "if has_tokenized_control i
            then ?recover\<lparr>cc_destinations := cc_destinations ?recover @ [DestPubKeyHash IDENTITY_RECOVER_KEYHASH], cc_n := 2\<rparr>
            else ?recover"
  obtain rc where rc: "to_chunk ?recover2 = Inr rc" "length rc \<le> 100"
    using 1 [of "[DestIdentity (id_recovery_authority i)]" "[]" OPT_CC_PARAMS_VERSION EVAL_IDENTITY_RECOVER 1 1]
      1 [of "[DestIdentity (id_recovery_authority i), DestPubKeyHash IDENTITY_RECOVER_KEYHASH]" "[]"
        OPT_CC_PARAMS_VERSION EVAL_IDENTITY_RECOVER 1 2] d [OF assms(5)] k
    by (cases "has_tokenized_control i") (auto simp: one_of_one_def)
  obtain m where m: "to_chunk \<lparr>cc_version = OPT_CC_PARAMS_VERSION, cc_eval_code = EVAL_NONE, cc_m = 1, cc_n = 3,
      cc_destinations = [DestIdentity h, DestIdentity (id_revocation_authority i), DestIdentity (id_recovery_authority i)],
      cc_vdata = []\<rparr> = Inr m" "length m \<le> 100"
    using 1 [of "[DestIdentity h, DestIdentity (id_revocation_authority i), DestIdentity (id_recovery_authority i)]" "[]"
      OPT_CC_PARAMS_VERSION EVAL_NONE 1 3] d [OF assms(3)] d [OF assms(4)] d [OF assms(5)] by auto
  obtain p where p: "to_chunk ((one_of_one EVAL_IDENTITY_PRIMARY (DestIdentity h))\<lparr>cc_vdata := [bs, rv, rc]\<rparr>) = Inr p"
    "length p \<le> 100 + (length bs + length rv + length rc + 9)"
    using 1 [of "[DestIdentity h]" "[bs, rv, rc]" OPT_CC_PARAMS_VERSION EVAL_IDENTITY_PRIMARY 1 1] d [OF assms(3)] assms(2) rv(2) rc(2) by (auto simp: one_of_one_def)
  show ?thesis
    using m p rv rc assms(1,2) by (auto simp: publish_script_def identity_primary_script_def Let_def cc_script_Inr)
qed

lemma sample_coin_pays_fee:
  "select_utxos [sample_coin] 0 2 DEFAULT_FEE_PER_KB True =
     Inr \<lparr>sel_selected = [sample_coin], sel_change = 490000, sel_fee = 10000\<rparr>"
  by (simp add: select_utxos_def checked_add_def estimate_fee_value descending_def DEFAULT_FEE_PER_KB_def
      size_estimate_def fee_estimate_def select_loop.simps sample_coin_def amount_checked_sum_def
      amount_checked_add_def amount_zero_def Let_def DUST_THRESHOLD_def check_fee_ceiling_def
      MAX_MINER_FEE_def)

text \<open>With the sample key, whatever is assembled around one leading input is signed.\<close>

lemma sample_run_total:
  assumes run: "assembly_run plan required leading_total selected fee change extra" and one: "length (as_leading plan) = 1"
  shows "\<exists>st. assemble sample_env sample_key [sample_key] plan = Inr st"
proof -
  let ?inputs = "as_leading plan @ selected"
  let ?t = "unsigned_tx ?inputs (as_outputs plan @ extra) 0 (to_height (as_expiry plan))"
  have un: "assemble_unsigned plan = Inr (?t, ?inputs, fee + to_sat (as_burn plan), change)"
    unfolding assemble_unsigned_Inr by (intro exI conjI) (rule run, rule refl, rule refl, rule refl)
  obtain t where "sign_inputs_from sample_env sample_key [sample_key]
      (public_to_bytes (env_ec sample_env) (private_public_key (env_ec sample_env) sample_key)) 1 0 ?t ?inputs = Inr t"
    using sample_sign_total [of 0 ?inputs ?t] by (auto simp: unsigned_tx_def)
  then have sign: "sign_inputs sample_env ?t sample_key [sample_key] ?inputs 1 = Inr t"
    by (simp add: sign_inputs_def)
  have "transparent_only t"
    using transparent_only_strip [OF sign_inputs_Inr(1) [OF sample_env_ok sign]] by simp
  from signed_transaction_of_total [OF this] obtain st where
    "signed_transaction_of sample_env t (from_sat (fee + to_sat (as_burn plan))) (from_sat change) ?inputs = Inr st"
    by blast
  then show ?thesis using sign one by (auto simp: assemble_def un)
qed

lemma sample_valueless_total:
  assumes "as_leading plan = [u]" "utxo_satoshis u = Amount 0" "as_funding plan = [sample_coin]"
    and "total_value (as_outputs plan) = 0" "as_burn plan = amount_zero" "\<not> as_value_bearing_leading plan"
    and "select_utxos [sample_coin] 0 (as_fee_output_count plan) (as_fee_per_kb plan) True =
      Inr \<lparr>sel_selected = [sample_coin], sel_change = change, sel_fee = fee\<rparr>"
    and "as_change_address plan = sample_address" "as_change_script plan = None"
  shows "\<exists>st. assemble sample_env sample_key [sample_key] plan = Inr st"
proof (rule sample_run_total)
  let ?out = "\<lparr>out_value = change, out_script_pubkey = [0x76, 0xa9, 0x14] @ replicate 20 7 @ [0x88, 0xac]\<rparr>"
  show "assembly_run plan 0 0 [sample_coin] fee change (if 0 < change then [?out] else [])"
    using assms
    by (auto simp: assembly_run_def choose_funding_def change_output_def sample_address_def p2pkh_script_pubkey_def
        amount_is_zero_def amount_zero_def)
qed (simp add: assms(1))

lemma held_coin_decodes:
  "decode_output_script toy_hash_lib hx (utxo_script_pubkey (identity_coin_of (held_identity\<lparr>id_flags := f\<rparr>))) =
     Inr (OutIdentityPrimary (held_identity\<lparr>id_flags := f\<rparr>))"
  "length (utxo_script_pubkey (identity_coin_of (held_identity\<lparr>id_flags := f\<rparr>))) < usize_bound"
  "\<exists>s. publish_script (held_identity\<lparr>id_flags := f\<rparr>)
     (identity_id toy_hash_lib (id_name held_identity) (Some (id_parent held_identity))) = Inr s"
proof -
  let ?i = "held_identity\<lparr>id_flags := f\<rparr>"
  let ?h = "identity_id toy_hash_lib (id_name ?i) (Some (id_parent ?i))"
  have wf: "wf_identity ?i"
    using sample_identity_wf by (simp add: held_identity_def wf_identity_def sample_identity_def)
  obtain bs where bs: "identity_to_bytes ?i = Inr bs" using wf_identity_writes [OF wf] by blast
  then have "length bs \<le> 60000"
    by (simp add: identity_to_bytes_Inr held_identity_def sample_identity_def id_compact_size_def id_var_slice_def
        multimap_part_def vault_bytes_def multimap_entry_def length_uN_le)
  then obtain s where s: "publish_script ?i ?h = Inr s"
    using publish_script_total [OF bs, of ?h] length_identity_id [OF toy_hash_lib_ok] wf
    by (auto simp: wf_identity_def)
  then show "\<exists>s. publish_script ?i (identity_id toy_hash_lib (id_name held_identity) (Some (id_parent held_identity))) = Inr s"
    by simp
  have coin: "utxo_script_pubkey (identity_coin_of ?i) = s"
    unfolding identity_coin_of_def s by simp
  show "decode_output_script toy_hash_lib hx (utxo_script_pubkey (identity_coin_of ?i)) = Inr (OutIdentityPrimary ?i)"
    unfolding coin by (rule published_reads_back [OF s wf length_identity_id [OF toy_hash_lib_ok]])
  show "length (utxo_script_pubkey (identity_coin_of ?i)) < usize_bound"
    unfolding coin using s by (auto simp: publish_script_def identity_primary_script_def rbind_Inr_iff Let_def dest!: cc_script_length)
qed

lemma held_facts:
  "wf_identity (held_identity\<lparr>id_flags := f\<rparr>)" "check_p2pkh_funding [sample_coin] = Inr ()"
  "check_expiry Never = Inr ()" "utxo_satoshis (identity_coin_of i) = Amount 0"
  "id_recovery_authority held_identity \<noteq> identity_id toy_hash_lib (id_name held_identity) (Some (id_parent held_identity))"
proof -
  show "wf_identity (held_identity\<lparr>id_flags := f\<rparr>)"
    using sample_identity_wf by (simp add: held_identity_def wf_identity_def sample_identity_def)
  show "check_p2pkh_funding [sample_coin] = Inr ()" "check_expiry Never = Inr ()"
    using sample_coin_p2pkh by (auto simp: check_p2pkh_funding_def all_p2pkh_def check_p2pkh_def check_expiry_def refuse_if_def)
  show "utxo_satoshis (identity_coin_of i) = Amount 0" by (simp add: identity_coin_of_def)
  have "hd (identity_id toy_hash_lib (id_name held_identity) (Some (id_parent held_identity))) = 1" by code_simp
  moreover have "hd (id_recovery_authority held_identity) = 4" by code_simp
  ultimately show "id_recovery_authority held_identity \<noteq> identity_id toy_hash_lib (id_name held_identity) (Some (id_parent held_identity))"
    by auto
qed

definition sample_revocation :: revocation_params where
  "sample_revocation = revocation_params_new (identity_coin_of held_identity) [sample_coin] sample_address Never"

definition sample_recovery :: recovery_params where
  "sample_recovery = recovery_params_new (identity_coin_of (held_identity\<lparr>id_flags := FLAG_REVOKED\<rparr>))
     held_identity [sample_coin] sample_address Never"

definition sample_update :: update_params where
  "sample_update = at_tip (update_params_new (identity_coin_of held_identity)
     (held_identity\<lparr>id_content_map := [(replicate 20 8, replicate 32 9)]\<rparr>) [sample_coin] sample_address Never) 20"

lemma held_plain: "held_identity\<lparr>id_flags := 0\<rparr> = held_identity"
  by (simp add: held_identity_def sample_identity_def)

lemma held_flags: "\<not> is_revoked held_identity" "\<not> flagged held_identity"
  "is_revoked (held_identity\<lparr>id_flags := FLAG_REVOKED\<rparr>)"
  by code_simp+

lemma held_current:
  "current_identity (env_hash sample_env) hx (identity_coin_of (held_identity\<lparr>id_flags := f\<rparr>)) = Inr (held_identity\<lparr>id_flags := f\<rparr>)"
  "current_identity (env_hash sample_env) hx (identity_coin_of held_identity) = Inr held_identity"
  using held_coin_decodes(1) [of hx f] held_coin_decodes(1) [of hx 0]
  by (simp_all add: current_identity_Inr sample_env_def held_plain)

lemma sample_republishes:
  "\<exists>st. republish sample_env sample_key [sample_key] (held_identity\<lparr>id_flags := f\<rparr>)
     (identity_id toy_hash_lib (id_name held_identity) (Some (id_parent held_identity)))
     \<lparr>cm_identity_output = identity_coin_of i, cm_utxos = [sample_coin], cm_change_address = sample_address,
      cm_expiry = Never, cm_fee_per_kb = DEFAULT_FEE_PER_KB\<rparr> = Inr st"
  using held_coin_decodes(3) [of f] sample_coin_pays_fee
  by (auto simp: republish_def held_facts intro!: sample_valueless_total)

lemma timelock_never_loosens_witness:
  "locked_now (Some 20) (sample_identity\<lparr>id_flags := FLAG_LOCKED, id_unlock_after := 100\<rparr>) \<and>
   check_timelock (sample_identity\<lparr>id_flags := FLAG_LOCKED, id_unlock_after := 100\<rparr>)
     (sample_identity\<lparr>id_unlock_after := 150\<rparr>) 50 (Some 20) = Inr () \<and>
   earliest_unlock 50 (sample_identity\<lparr>id_flags := FLAG_LOCKED, id_unlock_after := 100\<rparr>) \<le>
     earliest_unlock 50 (sample_identity\<lparr>id_unlock_after := 150\<rparr>)"
proof -
  let ?i = "sample_identity\<lparr>id_flags := FLAG_LOCKED, id_unlock_after := 100\<rparr>" and ?j = "sample_identity\<lparr>id_unlock_after := 150\<rparr>"
  have locked: "locked_now (Some 20) ?i" "\<not> is_revoked ?j" "flagged ?i" "\<not> flagged ?j" "locked_now (Some 20) ?j"
    "\<not> MAX_UNLOCK_DELAY < id_unlock_after ?i" by code_simp+
  then have ok: "check_timelock ?i ?j 50 (Some 20) = Inr ()"
    by (simp add: check_timelock_def saturating_add_def)
  with timelock_never_loosens [OF ok] locked show ?thesis by simp
qed

text \<open>The cap on a delay is not checked when the delay of an identity locked already is raised.\<close>

lemma locked_delay_past_cap:
  assumes "\<not> is_revoked i" "\<not> is_revoked j" "flagged i" "flagged j" "id_unlock_after i \<le> id_unlock_after j"
  shows "check_timelock i j expiry_height tip = Inr ()"
  using assms by (auto simp: check_timelock_def locked_now_def Let_def refuse_if_def split: option.splits)

end
