(* ===== verification/Identity_Spend.thy ===== *)
theory Identity_Spend
  imports Identity_Ops Conversion
begin

text \<open>
  Spending what a VerusID holds (\<open>verus-tx-identity/src/identity_spend.rs\<close>): its coins, out of
  pay-to-identity outputs, and its tokens, out of reserve outputs that pay it.
\<close>

section \<open>Coins\<close>

record identity_spend_params =
  is_identity :: bytes
  is_utxos :: "utxo list"
  is_recipients :: "recipient list"
  is_expiry :: expiry
  is_fee_per_kb :: u64

definition identity_spend_params_new ::
  "bytes \<Rightarrow> utxo list \<Rightarrow> recipient list \<Rightarrow> expiry \<Rightarrow> identity_spend_params" where
  "identity_spend_params_new identity utxos recipients expiry =
     \<lparr>is_identity = identity, is_utxos = utxos, is_recipients = recipients, is_expiry = expiry,
      is_fee_per_kb = DEFAULT_FEE_PER_KB\<rparr>"

definition spend_output :: "nat \<Rightarrow> recipient \<Rightarrow> tx_error + tx_out" where
  "spend_output index r =
     rbind (refuse_if (rcp_satoshis r = amount_zero) (ZeroValueOutput index)) (\<lambda>_.
     rbind (case addr_kind (rcp_address r) of
         PubKeyHash \<Rightarrow> map_err Key (p2pkh_script_pubkey (rcp_address r))
       | Identity \<Rightarrow> identity_payment_script (addr_hash (rcp_address r))
       | ScriptHash \<Rightarrow> Inl UnsupportedRecipient) (\<lambda>script.
     Inr \<lparr>out_value = to_sat (rcp_satoshis r), out_script_pubkey = script\<rparr>))"

definition spend_outputs :: "recipient list \<Rightarrow> tx_error + tx_out list" where
  "spend_outputs rs = rmap (\<lambda>(index, r). spend_output index r) (enumerate 0 rs)"

definition check_own_script :: "bytes \<Rightarrow> utxo \<Rightarrow> tx_error + unit" where
  "check_own_script script u = refuse_if (utxo_script_pubkey u \<noteq> script) IdentityOutputMismatch"

definition requested :: "recipient list \<Rightarrow> u64" where
  "requested rs = (case amount_checked_sum (map rcp_satoshis rs) of Some a \<Rightarrow> to_sat a | None \<Rightarrow> - 1)"

definition build_identity_spend ::
  "('sk, 'vk, 'sg) env \<Rightarrow> 'sk private_key list \<Rightarrow> identity_spend_params \<Rightarrow> tx_error + signed_transaction" where
  "build_identity_spend E keys p =
     rbind (expiry_check (is_expiry p)) (\<lambda>_.
     rbind (refuse_if (keys = []) NoSignatures) (\<lambda>_.
     rbind (refuse_if (is_recipients p = []) NoOutputs) (\<lambda>_.
     rbind (refuse_if (is_utxos p = []) (InsufficientFunds (requested (is_recipients p)) 0)) (\<lambda>_.
     rbind (identity_payment_script (is_identity p)) (\<lambda>identity_script.
     rbind (rmap (check_own_script identity_script) (is_utxos p)) (\<lambda>_.
     rbind (spend_outputs (is_recipients p)) (\<lambda>outputs.
     assemble E (keys ! 0) keys
       \<lparr>as_leading = is_utxos p, as_funding = [], as_outputs = outputs, as_burn = amount_zero,
        as_fee_output_count = of_nat (length outputs) + 1,
        as_change_address = private_address (env_hash E) (env_ec E) (keys ! 0),
        as_change_script = Some identity_script, as_value_bearing_leading = True,
        as_expiry = is_expiry p, as_fee_per_kb = is_fee_per_kb p\<rparr>)))))))"

section \<open>Tokens\<close>

record identity_token_params =
  it_identity :: bytes
  it_currency :: currency_id
  it_utxos :: "utxo list"
  it_fee_funding :: "utxo list"
  it_recipient :: address
  it_amount :: amount
  it_change_address :: address
  it_expiry :: expiry
  it_fee_per_kb :: u64

definition identity_token_params_new ::
  "bytes \<Rightarrow> currency_id \<Rightarrow> utxo list \<Rightarrow> utxo list \<Rightarrow> address \<Rightarrow> amount \<Rightarrow> address \<Rightarrow> expiry
    \<Rightarrow> identity_token_params" where
  "identity_token_params_new identity currency utxos fee_funding recipient amount change_address expiry =
     \<lparr>it_identity = identity, it_currency = currency, it_utxos = utxos, it_fee_funding = fee_funding,
      it_recipient = recipient, it_amount = amount, it_change_address = change_address,
      it_expiry = expiry, it_fee_per_kb = DEFAULT_FEE_PER_KB\<rparr>"

definition identity_token_input ::
  "hash_lib \<Rightarrow> hex_encode \<Rightarrow> identity_token_params \<Rightarrow> utxo \<Rightarrow> tx_error + u64" where
  "identity_token_input H hx p u =
     rbind (decode_output_script H hx (utxo_script_pubkey u)) (\<lambda>kind.
     case kind of
       OutReserveOutput destination tokens \<Rightarrow>
         if destination \<noteq> DestIdentity (it_identity p) then Inl IdentityOutputMismatch
         else if length tokens \<noteq> 1 \<or> fst (tokens ! 0) \<noteq> it_currency p then
           Inl (InvalidConversion ''a token input does not carry exactly the currency being sent'')
         else Inr (snd (tokens ! 0))
     | _ \<Rightarrow> Inl IdentityOutputMismatch)"

fun identity_tokens_held :: "hash_lib \<Rightarrow> hex_encode \<Rightarrow> identity_token_params \<Rightarrow> u64 \<Rightarrow> utxo list \<Rightarrow> tx_error + u64" where
  "identity_tokens_held H hx p held [] = Inr held"
| "identity_tokens_held H hx p held (u # us) =
     rbind (identity_token_input H hx p u) (\<lambda>amount.
     rbind (ok_or (checked_add held amount) ValueOverflow) (\<lambda>held.
     identity_tokens_held H hx p held us))"

definition token_destination :: "address \<Rightarrow> tx_error + destination" where
  "token_destination a = (case addr_kind a of
       PubKeyHash \<Rightarrow> Inr (DestPubKeyHash (addr_hash a))
     | Identity \<Rightarrow> Inr (DestIdentity (addr_hash a))
     | ScriptHash \<Rightarrow> Inl UnsupportedRecipient)"

definition build_identity_token_spend ::
  "('sk, 'vk, 'sg) env \<Rightarrow> 'sk private_key list \<Rightarrow> 'sk private_key \<Rightarrow> identity_token_params
    \<Rightarrow> tx_error + signed_transaction" where
  "build_identity_token_spend E keys fee_key p =
     (let currency = it_currency p; amount = to_sat (it_amount p);
          short = (\<lambda>missing. InsufficientTokens (env_hex E (currency_to_bytes currency)) missing) in
      rbind (expiry_check (it_expiry p)) (\<lambda>_.
      rbind (refuse_if (keys = []) NoSignatures) (\<lambda>_.
      rbind (refuse_if (it_amount p = amount_zero) (ZeroValueOutput 0)) (\<lambda>_.
      rbind (refuse_if (it_utxos p = []) (short amount)) (\<lambda>_.
      rbind (identity_tokens_held (env_hash E) (env_hex E) p 0 (it_utxos p)) (\<lambda>held.
      rbind (ok_or (checked_sub held amount) (short (if held \<le> amount then amount - held else 0))) (\<lambda>change.
      rbind (token_destination (it_recipient p)) (\<lambda>to.
      rbind (reserve_output_script_to to currency amount) (\<lambda>script.
      rbind (if 0 < change then
          rbind (reserve_output_script_to (DestIdentity (it_identity p)) currency change) (\<lambda>kept.
          Inr [\<lparr>out_value = 0, out_script_pubkey = kept\<rparr>])
        else Inr []) (\<lambda>kept.
      let outputs = \<lparr>out_value = 0, out_script_pubkey = script\<rparr> # kept in
      assemble E fee_key keys
        \<lparr>as_leading = it_utxos p, as_funding = it_fee_funding p, as_outputs = outputs,
         as_burn = amount_zero, as_fee_output_count = of_nat (length outputs) + 1,
         as_change_address = it_change_address p, as_change_script = None,
         as_value_bearing_leading = False, as_expiry = it_expiry p, as_fee_per_kb = it_fee_per_kb p\<rparr>))))))))))"

section \<open>Coins spent\<close>

lemma spend_output_pays: "spend_output i r = Inr out \<Longrightarrow> pays r out"
  by (cases "addr_kind (rcp_address r)")
    (auto simp: spend_output_def rbind_Inr_iff map_err_Inr_iff p2pkh_script_pubkey_def pays_def)

lemma spend_outputs_pay: "spend_outputs rs = Inr outs \<Longrightarrow> list_all2 pays rs outs"
  by (auto simp: spend_outputs_def rmap_Inr_iff list_all2_conv_all_nth nth_enumerate_eq
      intro: spend_output_pays)

text \<open>
  An identity's coins go to the recipients, the fee, and back to the identity.  Every
  output spent is the identity's own payment script, each once, and each is signed by all
  the keys; the outputs are one per recipient, in order, of the exact amount, then at most
  one change output with the identity's script; together with the fee they are worth what
  was spent.
\<close>

theorem identity_spend_returns_change:
  fixes E :: "('sk, 'vk, 'sg) env"
  assumes "ec_lib_ok (env_ec E)" "build_identity_spend E keys p = Inr st"
  shows "\<exists>t raw script outs kept. identity_payment_script (is_identity p) = Inr script \<and>
     serialize t = Inr raw \<and> st_hex st = env_hex E raw \<and> st_inputs_used st = map outpoint (is_utxos p) \<and>
     distinct (st_inputs_used st) \<and> is_utxos p \<noteq> [] \<and>
     (\<forall>i < length (is_utxos p). utxo_script_pubkey (is_utxos p ! i) = script \<and>
        (\<exists>h. sighash_of E t i (is_utxos p ! i) = Inr h \<and>
           fulfillment_unlocks E keys h (in_script_sig (tx_inputs t ! i)))) \<and>
     tx_outputs t = outs @ kept \<and> list_all2 pays (is_recipients p) outs \<and> length kept \<le> 1 \<and>
     (\<forall>out \<in> set kept. out_script_pubkey out = script) \<and>
     utxo_total (is_utxos p) = recipients_total (is_recipients p) + total_value kept + sats (st_fee st)"
proof -
  from assms(2) obtain script outs us where
    script: "identity_payment_script (is_identity p) = Inr script" and some: "is_utxos p \<noteq> []"
    and own: "rmap (check_own_script script) (is_utxos p) = Inr us"
    and outs: "spend_outputs (is_recipients p) = Inr outs"
    and built: "assemble E (keys ! 0) keys
       \<lparr>as_leading = is_utxos p, as_funding = [], as_outputs = outs, as_burn = amount_zero,
        as_fee_output_count = of_nat (length outs) + 1,
        as_change_address = private_address (env_hash E) (env_ec E) (keys ! 0),
        as_change_script = Some script, as_value_bearing_leading = True,
        as_expiry = is_expiry p, as_fee_per_kb = is_fee_per_kb p\<rparr> = Inr st" (is "assemble E _ keys ?plan = _")
    unfolding build_identity_spend_def rbind_Inr_iff refuse_if_Inr_iff by blast
  define plan where "plan = ?plan"
  have st: "assemble E (keys ! 0) keys plan = Inr st" using built by (simp only: plan_def)
  have plan: "as_leading plan = is_utxos p" "as_funding plan = []" "as_outputs plan = outs"
    "as_change_script plan = Some script" "as_value_bearing_leading plan" by (simp_all add: plan_def)
  from assms(1) st obtain t raw selected extra change where
    t: "tx_outputs t = outs @ extra" "selected = []" "length extra \<le> 1"
    and extra: "change_output plan change = Inr extra"
    and tot: "utxo_total (is_utxos p) = total_value (tx_outputs t) + sats (st_fee st)"
    and sig: "\<forall>i < length (is_utxos p). \<exists>h. sighash_of E t i (is_utxos p ! i) = Inr h \<and>
       fulfillment_unlocks E keys h (in_script_sig (tx_inputs t ! i))"
    and raw: "serialize t = Inr raw" "st_hex st = env_hex E raw" "st_inputs_used st = map outpoint (is_utxos p)"
    by (rule assemble_built) (auto simp: plan)
  from st have "check_value_bearing plan = Inr ()"
    by (auto simp: assemble_def rbind_Inr_iff assemble_unsigned_Inr assembly_run_def plan(5))
  then have d: "distinct (map outpoint (is_utxos p))" by (simp add: check_value_bearing_Inr plan)
  have "utxo_script_pubkey (is_utxos p ! i) = script" if "i < length (is_utxos p)" for i
    using own that by (auto simp: rmap_Inr_iff list_all2_conv_all_nth check_own_script_def refuse_if_Inr_iff)
  moreover have "\<forall>out \<in> set extra. out_script_pubkey out = script"
    using extra by (auto simp: change_output_Inr plan split: if_splits)
  moreover have pays: "list_all2 pays (is_recipients p) outs" using outs by (rule spend_outputs_pay)
  moreover have "total_value outs = recipients_total (is_recipients p)"
    using pays by (induction rule: list_all2_induct) (auto simp: pays_def)
  ultimately show ?thesis
    using script some t sig raw d tot by (intro exI [of _ t] exI [of _ raw] exI [of _ script] exI [of _ outs] exI [of _ extra]) auto
qed

section \<open>Tokens spent\<close>

lemma identity_token_input_Inr:
  "identity_token_input H hx p u = Inr a \<longleftrightarrow>
     decode_output_script H hx (utxo_script_pubkey u) = Inr (OutReserveOutput (DestIdentity (it_identity p)) [(it_currency p, a)])"
proof -
  have "(case k of OutReserveOutput destination tokens \<Rightarrow>
         if destination \<noteq> DestIdentity (it_identity p) then Inl IdentityOutputMismatch
         else if length tokens \<noteq> 1 \<or> fst (tokens ! 0) \<noteq> it_currency p then
           Inl (InvalidConversion ''a token input does not carry exactly the currency being sent'')
         else Inr (snd (tokens ! 0))
     | _ \<Rightarrow> Inl IdentityOutputMismatch) = Inr a \<longleftrightarrow>
     k = OutReserveOutput (DestIdentity (it_identity p)) [(it_currency p, a)]" for k
    by (cases k) (auto simp: length_Suc_conv)
  then show ?thesis unfolding identity_token_input_def rbind_Inr_iff by auto
qed

lemma identity_tokens_held_Inr:
  "identity_tokens_held H hx p held us = Inr held' \<Longrightarrow>
     unat held' = unat held + chain_total H hx (map utxo_script_pubkey us) (it_currency p) \<and>
     (\<forall>c. c \<noteq> it_currency p \<longrightarrow> chain_total H hx (map utxo_script_pubkey us) c = 0) \<and>
     (\<forall>u \<in> set us. \<exists>a. decode_output_script H hx (utxo_script_pubkey u) =
        Inr (OutReserveOutput (DestIdentity (it_identity p)) [(it_currency p, a)]))"
proof (induction us arbitrary: held)
  case (Cons u us)
  then obtain a h where a: "identity_token_input H hx p u = Inr a" and h: "checked_add held a = Some h"
    and run: "identity_tokens_held H hx p h us = Inr held'"
    by (auto simp: rbind_Inr_iff ok_or_Inr_iff)
  from h have "unat h = unat held + unat a" by (simp only: checked_simps)
  moreover from a have "decode_output_script H hx (utxo_script_pubkey u) =
      Inr (OutReserveOutput (DestIdentity (it_identity p)) [(it_currency p, a)])" by (simp add: identity_token_input_Inr)
  moreover from this have "chain_tokens H hx (utxo_script_pubkey u) = [(it_currency p, a)]"
    by (simp add: chain_tokens_def)
  ultimately show ?case using Cons.IH [OF run] by simp
qed simp

definition wf_token_spend :: "identity_token_params \<Rightarrow> bool" where
  "wf_token_spend p \<longleftrightarrow> length (it_identity p) = 20 \<and> wf_currency (it_currency p) \<and>
     wf_address (it_recipient p) \<and> wf_address (it_change_address p)"

definition pays_tokens :: "hash_lib \<Rightarrow> hex_encode \<Rightarrow> destination \<Rightarrow> currency_id \<Rightarrow> u64 \<Rightarrow> tx_out \<Rightarrow> bool" where
  "pays_tokens H hx to currency n out \<longleftrightarrow> out_value out = 0 \<and>
     decode_output_script H hx (out_script_pubkey out) = Inr (OutReserveOutput to [(currency, n)])"

text \<open>Coins that pass the check for plain funding hold no token.\<close>

lemma plain_funding_tokens:
  assumes "check_p2pkh_funding us = Inr ()" "u \<in> set us"
  shows "chain_tokens H hx (utxo_script_pubkey u) = []"
proof -
  have "from_p2pkh_script_pubkey (utxo_script_pubkey u) \<noteq> None"
    using assms by (auto simp: check_p2pkh_funding_def check_p2pkh_def rbind_Inr_iff rmap_Inr_iff refuse_if_Inr_iff
        list_all2_conv_all_nth in_set_conv_nth)
  then obtain a where "from_p2pkh_script_pubkey (utxo_script_pubkey u) = Some a" by blast
  then obtain h where "length h = 20" "utxo_script_pubkey u = [0x76, 0xa9, 0x14] @ h @ [0x88, 0xac]"
    by (auto simp: from_p2pkh_iff p2pkh_script_pubkey_def wf_address_def split: if_splits)
  then show ?thesis by (simp only: p2pkh_tokens)
qed

text \<open>
  C21: an identity's tokens are conserved and stay its own.  The inputs are the outputs given
  for tokens, each a reserve output of the identity that holds only the currency asked for and
  each signed by all the keys, then coins out of the fee funding.  The first output pays the
  recipient exactly the amount, the next, if anything is left, pays the identity all the rest,
  and native change to the change address is the only other output.  The satoshis of all the
  inputs are the native change plus the fee.  The outputs hold, as the decoder reads them, of
  every currency what the inputs given for tokens hold.  The fee funding is not checked, unlike
  that of the other identity builders: a token one of its coins holds is in no output, and when
  the coins pass that check there is none.
\<close>

theorem identity_tokens_stay:
  fixes E :: "('sk, 'vk, 'sg) env"
  assumes "ec_lib_ok (env_ec E)" "build_identity_token_spend E keys fee_key p = Inr st" "wf_token_spend p"
  shows "\<exists>t raw selected to out kept change. serialize t = Inr raw \<and> st_hex st = env_hex E raw \<and>
     strip_scripts t = unsigned_tx (it_utxos p @ selected) (out # kept @ change) 0 (to_height (it_expiry p)) \<and>
     set selected \<subseteq> set (it_fee_funding p) \<and> token_destination (it_recipient p) = Inr to \<and>
     pays_tokens (env_hash E) (env_hex E) to (it_currency p) (to_sat (it_amount p)) out \<and>
     (kept = [] \<or> (\<exists>o' n. kept = [o'] \<and>
        pays_tokens (env_hash E) (env_hex E) (DestIdentity (it_identity p)) (it_currency p) n o')) \<and>
     length change \<le> 1 \<and>
     (\<forall>out \<in> set change. out_script_pubkey out = [0x76, 0xa9, 0x14] @ addr_hash (it_change_address p) @ [0x88, 0xac]) \<and>
     (\<forall>u \<in> set (it_utxos p). \<exists>a. decode_output_script (env_hash E) (env_hex E) (utxo_script_pubkey u) =
        Inr (OutReserveOutput (DestIdentity (it_identity p)) [(it_currency p, a)])) \<and>
     (\<forall>i < length (it_utxos p). \<exists>h. sighash_of E t i (it_utxos p ! i) = Inr h \<and>
        fulfillment_unlocks E keys h (in_script_sig (tx_inputs t ! i))) \<and>
     utxo_total (it_utxos p @ selected) = total_value change + sats (st_fee st) \<and>
     (\<forall>c. chain_total (env_hash E) (env_hex E) (map utxo_script_pubkey (it_utxos p @ selected)) c =
        chain_total (env_hash E) (env_hex E) (map out_script_pubkey (out # kept @ change)) c +
        chain_total (env_hash E) (env_hex E) (map utxo_script_pubkey selected) c) \<and>
     (check_p2pkh_funding (it_fee_funding p) = Inr () \<longrightarrow>
        (\<forall>c. chain_total (env_hash E) (env_hex E) (map utxo_script_pubkey (it_utxos p @ selected)) c =
           chain_total (env_hash E) (env_hex E) (map out_script_pubkey (out # kept @ change)) c))"
proof -
  let ?H = "env_hash E" and ?hx = "env_hex E" and ?c = "it_currency p" and ?n = "to_sat (it_amount p)"
  from assms(2) obtain held change to script kept where
    held: "identity_tokens_held ?H ?hx p 0 (it_utxos p) = Inr held" and change: "checked_sub held ?n = Some change"
    and to: "token_destination (it_recipient p) = Inr to"
    and script: "reserve_output_script_to to ?c ?n = Inr script"
    and kept: "(if 0 < change then
          rbind (reserve_output_script_to (DestIdentity (it_identity p)) ?c change) (\<lambda>kept.
          Inr [\<lparr>out_value = 0, out_script_pubkey = kept\<rparr>])
        else Inr []) = Inr kept"
    and built: "assemble E fee_key keys
        \<lparr>as_leading = it_utxos p, as_funding = it_fee_funding p,
         as_outputs = \<lparr>out_value = 0, out_script_pubkey = script\<rparr> # kept,
         as_burn = amount_zero, as_fee_output_count = of_nat (length (\<lparr>out_value = 0, out_script_pubkey = script\<rparr> # kept)) + 1,
         as_change_address = it_change_address p, as_change_script = None,
         as_value_bearing_leading = False, as_expiry = it_expiry p, as_fee_per_kb = it_fee_per_kb p\<rparr> = Inr st"
      (is "assemble E _ _ ?plan = _")
    unfolding build_identity_token_spend_def rbind_Inr_iff refuse_if_Inr_iff ok_or_Inr_iff Let_def by blast
  define plan where "plan = ?plan"
  define out where "out = \<lparr>out_value = (0 :: u64), out_script_pubkey = script\<rparr>"
  have st: "assemble E fee_key keys plan = Inr st" using built by (simp only: plan_def)
  have plan: "as_leading plan = it_utxos p" "as_outputs plan = out # kept" "as_change_script plan = None"
    "as_change_address plan = it_change_address p" "as_funding plan = it_fee_funding p" "as_expiry plan = it_expiry p"
    by (simp_all add: plan_def out_def)
  from assms(1) st obtain t raw and extra :: "tx_out list" and native selected where
    t: "tx_outputs t = out # kept @ extra" "length extra \<le> 1"
      "strip_scripts t = unsigned_tx (it_utxos p @ selected) (out # kept @ extra) 0 (to_height (it_expiry p))"
      "set selected \<subseteq> set (it_fee_funding p)"
      "utxo_total (it_utxos p @ selected) = total_value (tx_outputs t) + sats (st_fee st)"
    and extra: "change_output plan native = Inr extra"
    and sig: "\<forall>i < length (it_utxos p). \<exists>h. sighash_of E t i (it_utxos p ! i) = Inr h \<and>
       fulfillment_unlocks E keys h (in_script_sig (tx_inputs t ! i))"
    and raw: "serialize t = Inr raw" "st_hex st = env_hex E raw"
    by (rule assemble_built) (auto simp: plan)
  have wf: "wf_destination to" "wf_currency ?c" "wf_destination (DestIdentity (it_identity p))"
    using assms(3) to by (auto simp: wf_token_spend_def token_destination_def wf_address_def split: address_kind.splits)
  have out: "pays_tokens ?H ?hx to ?c ?n out"
    using decode_reserve_output_script [OF wf(1,2) script] by (simp add: pays_tokens_def out_def)
  have kept: "if change = 0 then kept = []
      else \<exists>o'. kept = [o'] \<and> pays_tokens ?H ?hx (DestIdentity (it_identity p)) ?c change o'"
    using kept decode_reserve_output_script [OF wf(3,2)]
    by (auto simp: rbind_Inr_iff pays_tokens_def word_gt_0 split: if_splits)
  have home: "out_script_pubkey o' = [0x76, 0xa9, 0x14] @ addr_hash (it_change_address p) @ [0x88, 0xac]"
    if "o' \<in> set extra" for o' :: tx_out
    using extra that by (auto simp: change_output_Inr plan p2pkh_script_pubkey_def split: if_splits)
  have no_tokens: "chain_tokens ?H ?hx (out_script_pubkey o') = []" if "o' \<in> set extra" for o' :: tx_out
    unfolding home [OF that] using assms(3) by (intro p2pkh_tokens) (simp add: wf_token_spend_def wf_address_def)
  have extra0: "chain_total ?H ?hx (map out_script_pubkey extra) c = 0" for c
  proof (rule chain_total_zero)
    fix s
    assume "s \<in> set (map out_script_pubkey extra)"
    then obtain o' :: tx_out where o': "o' \<in> set extra" "s = out_script_pubkey o'" by auto
    show "chain_tokens ?H ?hx s = []" unfolding o'(2) by (rule no_tokens [OF o'(1)])
  qed
  have sum: "unat held = unat ?n + unat change" using change by (auto simp: checked_simps)
  have given: "chain_total ?H ?hx (map utxo_script_pubkey (it_utxos p)) c =
      chain_total ?H ?hx (map out_script_pubkey (out # kept @ extra)) c" for c
    using identity_tokens_held_Inr [OF held] sum out kept extra0 [of c]
    by (auto simp: pays_tokens_def chain_tokens_def split: if_splits)
  have plain: "chain_total ?H ?hx (map utxo_script_pubkey selected) c = 0"
    if "check_p2pkh_funding (it_fee_funding p) = Inr ()" for c
    using plain_funding_tokens [OF that] t(4) by (intro chain_total_zero) auto
  have worth: "utxo_total (it_utxos p @ selected) = total_value extra + sats (st_fee st)"
    using t(1,5) out kept by (auto simp: pays_tokens_def split: if_splits)
  have "kept = [] \<or> (\<exists>o' n. kept = [o'] \<and> pays_tokens ?H ?hx (DestIdentity (it_identity p)) ?c n o')"
    using kept by (auto split: if_splits)
  then show ?thesis
    using raw to t(2-4) out sig identity_tokens_held_Inr [OF held] home given plain worth
    by (intro exI [of _ t] exI [of _ raw] exI [of _ selected] exI [of _ to] exI [of _ out] exI [of _ kept] exI [of _ extra])
      simp
qed

text \<open>Nothing compares the outpoints: a reserve output listed twice counts twice.\<close>

lemma repeated_identity_token_counted:
  assumes "identity_token_input H hx p u = Inr a" "checked_add held a = Some h" "checked_add h a = Some h'"
  shows "identity_tokens_held H hx p held [u, u] = Inr h'"
  using assms by simp

section \<open>Requests that run\<close>

lemma payment_script_total: "length h = 20 \<Longrightarrow> \<exists>s. identity_payment_script h = Inr s"
  by (auto simp: identity_payment_script_def cc_script_Inr to_chunk_Inr one_of_one_def tagged_def push_bytes_def)

definition identity_cash :: utxo where
  "identity_cash = sample_coin\<lparr>utxo_script_pubkey :=
     (case identity_payment_script (replicate 20 3) of Inl _ \<Rightarrow> [] | Inr script \<Rightarrow> script)\<rparr>"

definition sample_identity_spend :: identity_spend_params where
  "sample_identity_spend = identity_spend_params_new (replicate 20 3) [identity_cash]
     [\<lparr>rcp_address = sample_address, rcp_satoshis = Amount 90000\<rparr>] Never"

lemma identity_spend_returns_change_witness:
  "\<exists>st (t :: tx_v4) out kept. build_identity_spend sample_env [sample_key] sample_identity_spend = Inr st \<and>
     tx_outputs t = out # kept \<and> out_value out = 90000 \<and>
     500000 = 90000 + total_value kept + sats (st_fee st)"
proof -
  obtain s where s: "identity_payment_script (replicate 20 3) = Inr s" using payment_script_total [of "replicate 20 3"] by auto
  let ?out = "\<lparr>out_value = 90000 :: u64, out_script_pubkey = [0x76, 0xa9, 0x14] @ replicate 20 7 @ [0x88, 0xac]\<rparr>"
  let ?plan = "\<lparr>as_leading = [identity_cash], as_funding = [], as_outputs = [?out], as_burn = amount_zero,
        as_fee_output_count = 2, as_change_address = private_address (env_hash sample_env) (env_ec sample_env) sample_key,
        as_change_script = Some s, as_value_bearing_leading = True, as_expiry = Never, as_fee_per_kb = DEFAULT_FEE_PER_KB\<rparr>"
  have "choose_funding ?plan 90000 500000 = Inr ([], 10000, 400000)"
    by (simp add: choose_funding_def estimate_fee_value DEFAULT_FEE_PER_KB_def size_estimate_def fee_estimate_def
        check_fee_ceiling_def MAX_MINER_FEE_def DUST_THRESHOLD_def Let_def)
  then have run: "assembly_run ?plan 90000 500000 [] 10000 400000 [\<lparr>out_value = 400000, out_script_pubkey = s\<rparr>]"
    by (simp add: assembly_run_def check_value_bearing_Inr amount_zero_def change_output_def)
      (simp add: identity_cash_def sample_coin_def)
  obtain st where "assemble sample_env sample_key [sample_key] ?plan = Inr st"
    using sample_run_total [OF run] by auto
  moreover have "spend_outputs [\<lparr>rcp_address = sample_address, rcp_satoshis = Amount 90000\<rparr>] = Inr [?out]"
    by (simp add: spend_outputs_def spend_output_def amount_zero_def sample_address_def p2pkh_script_pubkey_def)
  ultimately have st: "build_identity_spend sample_env [sample_key] sample_identity_spend = Inr st"
    by (simp add: build_identity_spend_def sample_identity_spend_def identity_spend_params_new_def s
        check_own_script_def) (simp add: identity_cash_def s)
  have p: "is_recipients sample_identity_spend = [\<lparr>rcp_address = sample_address, rcp_satoshis = Amount 90000\<rparr>]"
    "utxo_total (is_utxos sample_identity_spend) = 500000"
    by (simp_all add: sample_identity_spend_def identity_spend_params_new_def identity_cash_def sample_coin_def)
  from identity_spend_returns_change [OF sample_env_ok st] obtain t :: tx_v4 and outs kept where
    "tx_outputs t = outs @ kept" "list_all2 pays (is_recipients sample_identity_spend) outs"
    "utxo_total (is_utxos sample_identity_spend) =
      recipients_total (is_recipients sample_identity_spend) + total_value kept + sats (st_fee st)"
    by (elim exE conjE) (rule that)
  moreover from this(2) obtain out where "outs = [out]" "out_value out = 90000"
    by (auto simp: p list_all2_Cons1 pays_def)
  ultimately show ?thesis using st by (auto simp: p)
qed

definition sample_identity_tokens :: identity_token_params where
  "sample_identity_tokens = identity_token_params_new (replicate 20 3) (sample_currency 1) [identity_coin] [sample_coin]
     sample_address (Amount 900) sample_address Never"

lemma identity_tokens_stay_witness:
  "\<exists>st (t :: tx_v4) selected out kept change.
     build_identity_token_spend sample_env [sample_key] sample_key sample_identity_tokens = Inr st \<and>
     strip_scripts t = unsigned_tx ([identity_coin] @ selected) (out # kept @ change) 0 (to_height Never) \<and>
     pays_tokens (env_hash sample_env) (env_hex sample_env) (DestPubKeyHash (replicate 20 7)) (sample_currency 1) 900 out \<and>
     (\<forall>c. chain_total (env_hash sample_env) (env_hex sample_env) (map utxo_script_pubkey ([identity_coin] @ selected)) c =
        chain_total (env_hash sample_env) (env_hex sample_env) (map out_script_pubkey (out # kept @ change)) c)"
proof -
  have p: "it_utxos sample_identity_tokens = [identity_coin]" "it_fee_funding sample_identity_tokens = [sample_coin]"
    "it_currency sample_identity_tokens = sample_currency 1" "it_amount sample_identity_tokens = Amount 900"
    "it_expiry sample_identity_tokens = Never" "it_identity sample_identity_tokens = replicate 20 3"
    "it_recipient sample_identity_tokens = sample_address" "it_change_address sample_identity_tokens = sample_address"
    "it_fee_per_kb sample_identity_tokens = DEFAULT_FEE_PER_KB"
    by (simp_all add: sample_identity_tokens_def identity_token_params_new_def)
  have held: "identity_tokens_held H hx sample_identity_tokens 0 [identity_coin] = Inr 900" for H hx
  proof -
    have "identity_token_input H hx sample_identity_tokens identity_coin = Inr 900"
      using identity_coin_decodes [of H hx] by (simp add: identity_token_input_Inr p)
    then show ?thesis by (simp add: checked_add_def)
  qed
  have to: "token_destination sample_address = Inr (DestPubKeyHash (replicate 20 7))"
    by (simp add: token_destination_def sample_address_def)
  obtain s where s: "reserve_output_script_to (DestPubKeyHash (replicate 20 7)) (sample_currency 1) 900 = Inr s"
    by (rule reserve_output_script_total [of "DestPubKeyHash (replicate 20 7)" "sample_currency 1"])
      (simp_all add: wf_currency_def sample_currency_def)
  obtain st where "assemble sample_env sample_key [sample_key]
       \<lparr>as_leading = [identity_coin], as_funding = [sample_coin], as_outputs = [\<lparr>out_value = 0, out_script_pubkey = s\<rparr>],
        as_burn = amount_zero, as_fee_output_count = 2, as_change_address = sample_address, as_change_script = None,
        as_value_bearing_leading = False, as_expiry = Never, as_fee_per_kb = DEFAULT_FEE_PER_KB\<rparr> = Inr st"
    using sample_valueless_total sample_coin_pays_fee by (fastforce simp: identity_coin_def)
  then have st: "build_identity_token_spend sample_env [sample_key] sample_key sample_identity_tokens = Inr st"
    using held to s by (simp add: build_identity_token_spend_def p Let_def amount_zero_def checked_sub_def)
  have "wf_token_spend sample_identity_tokens"
    by (simp add: wf_token_spend_def p wf_currency_def sample_currency_def wf_address_def sample_address_def)
  from identity_tokens_stay [OF sample_env_ok st this] obtain t :: tx_v4 and selected to' out kept change where
    t: "strip_scripts t = unsigned_tx ([identity_coin] @ selected) (out # kept @ change) 0 (to_height Never)"
      "set selected \<subseteq> {sample_coin}" "token_destination sample_address = Inr to'"
      "pays_tokens (env_hash sample_env) (env_hex sample_env) to' (sample_currency 1) 900 out"
      "check_p2pkh_funding [sample_coin] = Inr () \<longrightarrow>
        (\<forall>c. chain_total (env_hash sample_env) (env_hex sample_env) (map utxo_script_pubkey ([identity_coin] @ selected)) c =
           chain_total (env_hash sample_env) (env_hex sample_env) (map out_script_pubkey (out # kept @ change)) c)"
    unfolding p amount.sel by (elim exE conjE) (rule that; assumption | simp)
  have "check_p2pkh_funding [sample_coin] = Inr ()" by code_simp
  with t(5) have "\<forall>c. chain_total (env_hash sample_env) (env_hex sample_env) (map utxo_script_pubkey ([identity_coin] @ selected)) c =
      chain_total (env_hash sample_env) (env_hex sample_env) (map out_script_pubkey (out # kept @ change)) c" by (rule mp)
  moreover have "to' = DestPubKeyHash (replicate 20 7)" using t(3) to by simp
  ultimately show ?thesis
    using st t(1,4) by - (rule exI [of _ st], rule exI [of _ t], rule exI [of _ selected], rule exI [of _ out],
      rule exI [of _ kept], rule exI [of _ change], simp only: simp_thms)
qed

end
