(* ===== verification/Registration.thy ===== *)
theory Registration
  imports Identity_Spend
begin

text \<open>
  Registering a VerusID (\<open>verus-tx-identity/src/register.rs\<close>): the commitment that hides a
  name, what a registration costs, and the transaction that reveals the name and publishes
  the identity.
\<close>

section \<open>The reservation\<close>

definition CENTRALIZED_PROOF_PROTOCOL :: u32 where "CENTRALIZED_PROOF_PROTOCOL = 2"
definition NAME_RESERVATION_VERSION :: u32 where "NAME_RESERVATION_VERSION = 1"
definition MAX_REFERRAL_LEVELS :: u32 where "MAX_REFERRAL_LEVELS = 32"

text \<open>Every char accepted is one byte, and no byte of another char is accepted.\<close>

definition acceptable :: "char \<Rightarrow> bool" where
  "acceptable c \<longleftrightarrow> (let n = of_char c :: nat in
     97 \<le> n \<and> n \<le> 122 \<or> 48 \<le> n \<and> n \<le> 57 \<or> c = CHR ''_'' \<or> c = CHR ''-'')"

definition validate_name :: "str \<Rightarrow> tx_error + unit" where
  "validate_name name =
     refuse_if (name = [] \<or> 64 < length name \<or> \<not> list_all acceptable name) (InvalidIdentityName name)"

record name_reservation =
  nr_name :: str
  nr_parent :: bytes
  nr_referral :: "bytes option"
  nr_salt :: bytes

definition name_reservation_new :: "str \<Rightarrow> bytes \<Rightarrow> bytes option \<Rightarrow> bytes \<Rightarrow> tx_error + name_reservation" where
  "name_reservation_new name parent referral salt =
     rbind (validate_name name) (\<lambda>_.
     Inr \<lparr>nr_name = name, nr_parent = parent, nr_referral = referral, nr_salt = salt\<rparr>)"

definition salt_display :: "name_reservation \<Rightarrow> bytes" where
  "salt_display r = rev (nr_salt r)"

text \<open>\<open>write_compact_size\<close> of this file.\<close>

definition rg_compact_size :: "nat \<Rightarrow> tx_error + bytes" where
  "rg_compact_size value =
     (if value \<le> 252 then Inr [of_nat value]
      else if value \<le> 0xffff then Inr (0xfd # u16_le (of_nat value))
      else if value < 2 ^ 32 then Inr (0xfe # u32_le (of_nat value))
      else Inl (Panic ''every caller passes a length bounded by validated input, far below u32::MAX''))"

definition reservation_to_bytes :: "name_reservation \<Rightarrow> tx_error + bytes" where
  "reservation_to_bytes r =
     rbind (rg_compact_size (length (nr_name r))) (\<lambda>len.
     Inr (u32_le NAME_RESERVATION_VERSION @ len @ ascii (nr_name r) @ nr_parent r @
       (case nr_referral r of None \<Rightarrow> replicate 20 0 | Some referral \<Rightarrow> referral) @ nr_salt r))"

definition commitment_hash :: "hash_lib \<Rightarrow> name_reservation \<Rightarrow> tx_error + bytes" where
  "commitment_hash H r = rbind (reservation_to_bytes r) (\<lambda>bs. Inr (sha256d (hl_sha256 H) bs))"

definition commitment_script :: "bytes \<Rightarrow> bytes \<Rightarrow> tx_error + bytes" where
  "commitment_script hash control =
     cc_script (one_of_one EVAL_NONE (DestPubKeyHash control))
       ((one_of_one EVAL_IDENTITY_COMMITMENT (DestPubKeyHash control))\<lparr>cc_vdata := [hash]\<rparr>)"

definition reservation_script :: "bytes \<Rightarrow> name_reservation \<Rightarrow> tx_error + bytes" where
  "reservation_script id_hash r =
     rbind (reservation_to_bytes r) (\<lambda>bs.
     cc_script (one_of_one EVAL_NONE (DestIdentity id_hash))
       ((one_of_one EVAL_IDENTITY_ADVANCEDRESERVATION (DestIdentity id_hash))\<lparr>cc_vdata := [bs]\<rparr>))"

section \<open>Step 1\<close>

record commitment_params =
  nc_utxos :: "utxo list"
  nc_reservation :: name_reservation
  nc_change_address :: address
  nc_expiry :: expiry
  nc_fee_per_kb :: u64

definition commitment_params_new :: "utxo list \<Rightarrow> name_reservation \<Rightarrow> address \<Rightarrow> expiry \<Rightarrow> commitment_params" where
  "commitment_params_new utxos reservation change_address expiry =
     \<lparr>nc_utxos = utxos, nc_reservation = reservation, nc_change_address = change_address,
      nc_expiry = expiry, nc_fee_per_kb = DEFAULT_FEE_PER_KB\<rparr>"

definition build_name_commitment ::
  "('sk, 'vk, 'sg) env \<Rightarrow> 'sk private_key \<Rightarrow> commitment_params \<Rightarrow> tx_error + signed_transaction" where
  "build_name_commitment E key p =
     rbind (check_expiry (nc_expiry p)) (\<lambda>_.
     rbind (check_p2pkh_funding (nc_utxos p)) (\<lambda>_.
     rbind (commitment_hash (env_hash E) (nc_reservation p)) (\<lambda>hash.
     rbind (commitment_script hash (addr_hash (private_address (env_hash E) (env_ec E) key))) (\<lambda>script.
     assemble E key []
       \<lparr>as_leading = [], as_funding = nc_utxos p,
        as_outputs = [\<lparr>out_value = 0, out_script_pubkey = script\<rparr>], as_burn = amount_zero,
        as_fee_output_count = 1, as_change_address = nc_change_address p, as_change_script = None,
        as_value_bearing_leading = False, as_expiry = nc_expiry p, as_fee_per_kb = nc_fee_per_kb p\<rparr>))))"

section \<open>What a registration costs\<close>

record registration_fees =
  rf_referral_amount :: amount
  rf_outlay :: amount

definition checked_registration_fees :: "amount \<Rightarrow> u32 \<Rightarrow> bool \<Rightarrow> tx_error + registration_fees" where
  "checked_registration_fees fee levels referred =
     (if \<not> referred then Inr \<lparr>rf_referral_amount = amount_zero, rf_outlay = fee\<rparr>
      else if MAX_REFERRAL_LEVELS < levels then Inl (ImplausibleReferralLevels levels MAX_REFERRAL_LEVELS)
      else
        let levels = ucast levels :: u64; fee = to_sat fee; divisor = levels + 2 in
        rbind (ok_or (checked_mul fee (levels + 1)) ValueOverflow) (\<lambda>numerator.
        Inr \<lparr>rf_referral_amount = from_sat (fee div divisor), rf_outlay = from_sat (numerator div divisor)\<rparr>))"

definition fees_or_whole :: "amount \<Rightarrow> u32 \<Rightarrow> bool \<Rightarrow> registration_fees" where
  "fees_or_whole fee levels referred =
     (case checked_registration_fees fee levels referred of
        Inr fees \<Rightarrow> fees
      | Inl _ \<Rightarrow> \<lparr>rf_referral_amount = amount_zero, rf_outlay = fee\<rparr>)"

section \<open>Step 2\<close>

record parent_currency_fee =
  pc_fee :: amount
  pc_native_import_fee :: amount
  pc_token_funding :: "utxo list"
  pc_proof_protocol :: u32
  pc_transfer_fee :: amount

record registration_params =
  rg_commitment :: utxo
  rg_reservation :: name_reservation
  rg_utxos :: "utxo list"
  rg_primary_addresses :: "address list"
  rg_min_sigs :: u32
  rg_system_id :: bytes
  rg_revocation_authority :: "bytes option"
  rg_recovery_authority :: "bytes option"
  rg_registration_fee :: amount
  rg_referral_levels :: u32
  rg_parent_currency :: "parent_currency_fee option"
  rg_referral_chain :: "bytes list"
  rg_change_address :: address
  rg_expiry :: expiry
  rg_fee_per_kb :: u64

definition registration_params_new ::
  "utxo \<Rightarrow> name_reservation \<Rightarrow> utxo list \<Rightarrow> address list \<Rightarrow> bytes \<Rightarrow> amount \<Rightarrow> address \<Rightarrow> expiry
    \<Rightarrow> registration_params" where
  "registration_params_new commitment reservation utxos primary_addresses system_id registration_fee
       change_address expiry =
     \<lparr>rg_commitment = commitment, rg_reservation = reservation, rg_utxos = utxos,
      rg_primary_addresses = primary_addresses, rg_min_sigs = 1, rg_system_id = system_id,
      rg_revocation_authority = None, rg_recovery_authority = None,
      rg_registration_fee = registration_fee, rg_referral_levels = 0, rg_parent_currency = None,
      rg_referral_chain = [], rg_change_address = change_address, rg_expiry = expiry,
      rg_fee_per_kb = DEFAULT_FEE_PER_KB\<rparr>"

definition with_min_sigs :: "registration_params \<Rightarrow> u32 \<Rightarrow> registration_params" where
  "with_min_sigs p min_sigs = p\<lparr>rg_min_sigs := min_sigs\<rparr>"

definition with_authorities :: "registration_params \<Rightarrow> bytes option \<Rightarrow> bytes option \<Rightarrow> registration_params" where
  "with_authorities p revocation recovery =
     p\<lparr>rg_revocation_authority := revocation, rg_recovery_authority := recovery\<rparr>"

definition with_referrals :: "registration_params \<Rightarrow> u32 \<Rightarrow> bytes list \<Rightarrow> registration_params" where
  "with_referrals p levels chain = p\<lparr>rg_referral_levels := levels, rg_referral_chain := chain\<rparr>"

definition with_parent_currency :: "registration_params \<Rightarrow> parent_currency_fee \<Rightarrow> registration_params" where
  "with_parent_currency p parent = p\<lparr>rg_parent_currency := Some parent\<rparr>"

record signed_registration =
  sr_transaction :: signed_transaction
  sr_identity_id :: bytes
  sr_identity_address :: address
  sr_identity :: identity

definition primary_destination :: "address \<Rightarrow> tx_error + destination" where
  "primary_destination a =
     (if addr_kind a \<noteq> PubKeyHash then Inl UnsupportedRecipient else Inr (DestPubKeyHash (addr_hash a)))"

definition registration_id :: "hash_lib \<Rightarrow> registration_params \<Rightarrow> bytes" where
  "registration_id H p = identity_id H (nr_name (rg_reservation p)) (Some (nr_parent (rg_reservation p)))"

definition registered_identity :: "hash_lib \<Rightarrow> registration_params \<Rightarrow> destination list \<Rightarrow> identity" where
  "registered_identity H p primaries =
     (let id_hash = registration_id H p in
      \<lparr>id_version = IDENTITY_VERSION_PBAAS, id_flags = 0, id_primary_addresses = primaries,
       id_min_sigs = rg_min_sigs p, id_parent = nr_parent (rg_reservation p),
       id_name = nr_name (rg_reservation p), id_content_multimap = [], id_content_map = [],
       id_revocation_authority = (case rg_revocation_authority p of None \<Rightarrow> id_hash | Some a \<Rightarrow> a),
       id_recovery_authority = (case rg_recovery_authority p of None \<Rightarrow> id_hash | Some a \<Rightarrow> a),
       id_private_addresses = [], id_system_id = rg_system_id p, id_unlock_after = 0\<rparr>)"

definition referrers_of :: "registration_params \<Rightarrow> tx_error + bytes list" where
  "referrers_of p =
     (if rg_parent_currency p \<noteq> None then Inr []
      else case (nr_referral (rg_reservation p), rg_referral_chain p) of
          (None, []) \<Rightarrow> Inr []
        | (None, _) \<Rightarrow> Inl ReferralNotCommitted
        | (Some referrer, []) \<Rightarrow> Inr [referrer]
        | (Some _, chain) \<Rightarrow> Inr chain)"

text \<open>The fee of a parent currency: a reserve output, or a burn of the currency.\<close>

definition parent_fee_output :: "registration_params \<Rightarrow> parent_currency_fee \<Rightarrow> tx_error + tx_out" where
  "parent_fee_output p sub =
     (let parent = nr_parent (rg_reservation p); currency = of_identity parent;
          centralized = (pc_proof_protocol sub = CENTRALIZED_PROOF_PROTOCOL) in
      rbind (if centralized
          then reserve_output_script_to (DestIdentity parent) currency (to_sat (pc_fee sub))
          else rbind (build_conversion currency (pc_fee sub) Burn (rg_change_address p) (rg_change_address p)
                 (currency_from_bytes (rg_system_id p)) (pc_transfer_fee sub)) to_script) (\<lambda>script.
      Inr \<lparr>out_value = (if centralized then 0 else to_sat (pc_transfer_fee sub)), out_script_pubkey = script\<rparr>))"

definition parent_fee_outputs :: "registration_params \<Rightarrow> tx_error + tx_out list" where
  "parent_fee_outputs p = (case rg_parent_currency p of
       None \<Rightarrow> Inr []
     | Some sub \<Rightarrow> rbind (parent_fee_output p sub) (\<lambda>out. Inr [out]))"

definition referrer_output :: "registration_fees \<Rightarrow> bytes \<Rightarrow> tx_error + tx_out" where
  "referrer_output fees referrer =
     rbind (identity_payment_script referrer) (\<lambda>script.
     Inr \<lparr>out_value = to_sat (rf_referral_amount fees), out_script_pubkey = script\<rparr>)"

fun held_amounts :: "currency_id \<Rightarrow> utxo \<Rightarrow> u64 \<Rightarrow> (currency_id \<times> u64) list \<Rightarrow> tx_error + u64" where
  "held_amounts parent u held [] = Inr held"
| "held_amounts parent u held ((currency, amount) # tokens) =
     (if currency \<noteq> parent then Inl (unsupported_eval u EVAL_RESERVE_OUTPUT)
      else rbind (ok_or (checked_add held amount) ValueOverflow) (\<lambda>held. held_amounts parent u held tokens))"

fun held_funding ::
  "hash_lib \<Rightarrow> hex_encode \<Rightarrow> currency_id \<Rightarrow> u64 \<Rightarrow> utxo list \<Rightarrow> tx_error + u64" where
  "held_funding H hx parent held [] = Inr held"
| "held_funding H hx parent held (u # us) =
     rbind (decode_output_script H hx (utxo_script_pubkey u)) (\<lambda>kind.
     rbind (case kind of
         OutReserveOutput destination tokens \<Rightarrow>
           rbind (reject_unspendable_reserve hx u destination) (\<lambda>_. held_amounts parent u held tokens)
       | _ \<Rightarrow> Inl (UnsupportedFundingScript (to_display_hex (utxo_txid u)) (utxo_vout u))) (\<lambda>held.
     held_funding H hx parent held us))"

definition parent_change_outputs ::
  "hash_lib \<Rightarrow> hex_encode \<Rightarrow> registration_params \<Rightarrow> tx_error + tx_out list" where
  "parent_change_outputs H hx p = (case rg_parent_currency p of
       None \<Rightarrow> Inr []
     | Some sub \<Rightarrow>
         let currency = of_identity (nr_parent (rg_reservation p)) in
         rbind (held_funding H hx currency 0 (pc_token_funding sub)) (\<lambda>held.
         rbind (ok_or (amount_checked_sub (from_sat held) (pc_fee sub))
             (InsufficientTokens (currency_to_string currency)
                (to_sat (pc_fee sub) - min held (to_sat (pc_fee sub))))) (\<lambda>change.
         if amount_is_zero change then Inr []
         else rbind (reserve_output_script_to (DestPubKeyHash (addr_hash (rg_change_address p))) currency
                (to_sat change)) (\<lambda>script.
              Inr [\<lparr>out_value = 0, out_script_pubkey = script\<rparr>]))))"

definition token_leading :: "registration_params \<Rightarrow> utxo list" where
  "token_leading p = (case rg_parent_currency p of None \<Rightarrow> [] | Some sub \<Rightarrow> pc_token_funding sub)"

definition registration_burn :: "registration_params \<Rightarrow> registration_fees \<Rightarrow> nat \<Rightarrow> tx_error + amount" where
  "registration_burn p fees referrers =
     rbind (ok_or (amount_checked_mul (rf_referral_amount fees) (of_nat referrers)) ValueOverflow) (\<lambda>paid_out.
     case rg_parent_currency p of
       Some sub \<Rightarrow> Inr (pc_native_import_fee sub)
     | None \<Rightarrow> ok_or (amount_checked_sub (rf_outlay fees) paid_out)
                (ReferralChainTooLong referrers (rg_referral_levels p)))"

text \<open>The checks made before anything is built; the identity they leave to be published.\<close>

definition registration_subject ::
  "('sk, 'vk, 'sg) env \<Rightarrow> 'sk private_key \<Rightarrow> registration_params \<Rightarrow> tx_error + identity" where
  "registration_subject E key p =
     rbind (check_expiry (rg_expiry p)) (\<lambda>_.
     rbind (check_p2pkh_funding (rg_utxos p)) (\<lambda>_.
     rbind (refuse_if (rg_primary_addresses p = []) NoOutputs) (\<lambda>_.
     rbind (refuse_if (rg_min_sigs p = 0 \<or> length (rg_primary_addresses p) < unat (rg_min_sigs p))
       (InvalidMinSigs (rg_min_sigs p) (length (rg_primary_addresses p)))) (\<lambda>_.
     rbind (commitment_hash (env_hash E) (rg_reservation p)) (\<lambda>hash.
     rbind (commitment_script hash (addr_hash (private_address (env_hash E) (env_ec E) key))) (\<lambda>expected.
     rbind (refuse_if (utxo_script_pubkey (rg_commitment p) \<noteq> expected) CommitmentMismatch) (\<lambda>_.
     rbind (rmap primary_destination (rg_primary_addresses p)) (\<lambda>primaries.
     Inr (registered_identity (env_hash E) p primaries)))))))))"

definition build_identity_registration ::
  "('sk, 'vk, 'sg) env \<Rightarrow> 'sk private_key \<Rightarrow> registration_params \<Rightarrow> tx_error + signed_registration" where
  "build_identity_registration E key p =
     rbind (registration_subject E key p) (\<lambda>identity.
     let id_hash = registration_id (env_hash E) p in
     rbind (checked_registration_fees (rg_registration_fee p) (rg_referral_levels p)
       (rg_parent_currency p = None \<and> nr_referral (rg_reservation p) \<noteq> None)) (\<lambda>fees.
     rbind (referrers_of p) (\<lambda>referrers.
     rbind (refuse_if (unat (rg_referral_levels p) < length referrers)
       (ReferralChainTooLong (length referrers) (rg_referral_levels p))) (\<lambda>_.
     rbind (publish_script identity id_hash) (\<lambda>primary.
     rbind (parent_fee_outputs p) (\<lambda>parent_fee.
     rbind (rmap (referrer_output fees) referrers) (\<lambda>payouts.
     rbind (reservation_script id_hash (rg_reservation p)) (\<lambda>reveal.
     rbind (parent_change_outputs (env_hash E) (env_hex E) p) (\<lambda>token_change.
     rbind (registration_burn p fees (length referrers)) (\<lambda>burn.
     rbind (assemble E key [key]
       \<lparr>as_leading = rg_commitment p # token_leading p, as_funding = rg_utxos p,
        as_outputs = \<lparr>out_value = 0, out_script_pubkey = primary\<rparr> # parent_fee @ payouts @
          \<lparr>out_value = 0, out_script_pubkey = reveal\<rparr> # token_change,
        as_burn = burn, as_fee_output_count = 3 + of_nat (length referrers),
        as_change_address = rg_change_address p, as_change_script = None,
        as_value_bearing_leading = False, as_expiry = rg_expiry p, as_fee_per_kb = rg_fee_per_kb p\<rparr>) (\<lambda>st.
     Inr \<lparr>sr_transaction = st, sr_identity_id = id_hash,
          sr_identity_address = address_new Identity id_hash, sr_identity = identity\<rparr>)))))))))))"


section \<open>The fee is split, never exceeded\<close>

lemma checked_fees_Inr:
  "checked_registration_fees fee levels referred = Inr f \<longleftrightarrow>
     (if \<not> referred then f = \<lparr>rf_referral_amount = amount_zero, rf_outlay = fee\<rparr>
      else unat levels \<le> 32 \<and> sats fee * (unat levels + 1) < 2 ^ 64 \<and>
        sats (rf_referral_amount f) = sats fee div (unat levels + 2) \<and>
        sats (rf_outlay f) = sats fee * (unat levels + 1) div (unat levels + 2))"
proof (cases "referred \<and> unat levels \<le> 32")
  case True
  then have small: "unat levels \<le> 32" "\<not> MAX_REFERRAL_LEVELS < levels"
    by (auto simp: MAX_REFERRAL_LEVELS_def word_less_nat_alt)
  have l: "unat (ucast levels + 1 :: u64) = unat levels + 1" "unat (ucast levels + 2 :: u64) = unat levels + 2"
    using small(1) by (simp_all add: unat_word_ariths unsigned_ucast_eq take_bit_nat_eq_self)
  have f: "f = g \<longleftrightarrow> sats (rf_referral_amount f) = sats (rf_referral_amount g) \<and> sats (rf_outlay f) = sats (rf_outlay g)"
    for g :: registration_fees by (cases f, cases g) (simp add: sats_inject)
  have mul: "checked_mul (to_sat fee) (ucast levels + 1) = Some n \<longleftrightarrow>
      sats fee * (unat levels + 1) < 2 ^ 64 \<and> unat n = sats fee * (unat levels + 1)" for n
    by (simp add: checked_simps l)
  let ?n = "of_nat (sats fee * (unat levels + 1)) :: u64"
  have "checked_registration_fees fee levels referred = Inr f \<longleftrightarrow>
      (\<exists>n. checked_mul (to_sat fee) (ucast levels + 1) = Some n \<and>
         f = \<lparr>rf_referral_amount = from_sat (to_sat fee div (ucast levels + 2)), rf_outlay = from_sat (n div (ucast levels + 2))\<rparr>)"
    using True small(2) by (auto simp: checked_registration_fees_def Let_def rbind_Inr_iff ok_or_Inr_iff)
  also have "\<dots> \<longleftrightarrow> (\<exists>n :: u64. sats fee * (unat levels + 1) < 2 ^ 64 \<and> unat n = sats fee * (unat levels + 1) \<and>
      sats (rf_referral_amount f) = sats fee div (unat levels + 2) \<and> sats (rf_outlay f) = unat n div (unat levels + 2))"
    unfolding mul f by (simp add: from_sat_def unat_div l conj_assoc)
  also have "\<dots> \<longleftrightarrow> sats fee * (unat levels + 1) < 2 ^ 64 \<and>
      sats (rf_referral_amount f) = sats fee div (unat levels + 2) \<and>
      sats (rf_outlay f) = sats fee * (unat levels + 1) div (unat levels + 2)"
    using unat_of_nat_u64 [of "sats fee * (unat levels + 1)"] by (metis (no_types, lifting))
  finally show ?thesis using True by simp
next
  case False
  then show ?thesis by (auto simp: checked_registration_fees_def MAX_REFERRAL_LEVELS_def word_less_nat_alt)
qed

text \<open>
  The payouts always fit in what the registrant parts with.  Whenever the split is given, any
  number of referrers the policy allows, each paid the same share, is paid out of an outlay
  that is at most the fee; referred, a share is the fee over \<open>levels + 2\<close>, the outlay its
  \<open>levels + 1\<close> parts, rounded down, and the burn of a root registration is what is left.
\<close>

theorem payouts_fit_outlay:
  assumes "checked_registration_fees fee levels referred = Inr f" "n \<le> unat levels"
    and "rg_parent_currency p = None"
  shows "n * sats (rf_referral_amount f) \<le> sats (rf_outlay f) \<and> sats (rf_outlay f) \<le> sats fee \<and>
    (referred \<longrightarrow> sats (rf_referral_amount f) = sats fee div (unat levels + 2) \<and>
       sats (rf_outlay f) = sats fee * (unat levels + 1) div (unat levels + 2)) \<and>
    (\<exists>burn. registration_burn p f n = Inr burn \<and> n * sats (rf_referral_amount f) + sats burn = sats (rf_outlay f))"
proof -
  have n: "unat (of_nat n :: u64) = n"
    using assms(2) unsigned_less [of levels, where 'a = nat] by (intro unat_of_nat_u64) (simp add: order.strict_trans1)
  have fits: "n * sats (rf_referral_amount f) \<le> sats (rf_outlay f) \<and> sats (rf_outlay f) \<le> sats fee"
  proof (cases referred)
    case True
    let ?d = "unat levels + 2" and ?F = "sats fee"
    have f: "sats (rf_referral_amount f) = ?F div ?d" "sats (rf_outlay f) = ?F * (unat levels + 1) div ?d"
      using assms(1) True by (simp_all add: checked_fees_Inr)
    have "n * (?F div ?d) * ?d \<le> (unat levels + 1) * (?F div ?d * ?d)"
      using assms(2) by (simp only: mult.assoc) (rule mult_right_mono, simp_all)
    also have "\<dots> \<le> (unat levels + 1) * ?F" by (intro mult_left_mono) (simp_all only: div_times_less_eq_dividend zero_le)
    finally have "n * (?F div ?d) \<le> (unat levels + 1) * ?F div ?d" by (subst less_eq_div_iff_mult_less_eq) simp_all
    moreover have "(unat levels + 1) * ?F div ?d \<le> ?d * ?F div ?d" by (intro div_le_mono mult_right_mono) simp_all
    then have "(unat levels + 1) * ?F div ?d \<le> ?F" by (simp only: nonzero_mult_div_cancel_left)
    ultimately show ?thesis unfolding f by (simp only: mult.commute [of ?F])
  qed (use assms(1) in \<open>simp add: checked_fees_Inr\<close>)
  let ?burn = "Amount (of_nat (sats (rf_outlay f) - n * sats (rf_referral_amount f)))"
  have b: "sats ?burn = sats (rf_outlay f) - n * sats (rf_referral_amount f)"
    using sats_bound [of "rf_outlay f"] by (intro amount_of_sats) simp
  let ?paid = "Amount (of_nat (n * sats (rf_referral_amount f)))"
  have p: "sats ?paid = n * sats (rf_referral_amount f)"
    using fits sats_bound [of "rf_outlay f"] by (intro amount_of_sats) linarith
  have "amount_checked_mul (rf_referral_amount f) (of_nat n) = Some ?paid"
    using p fits sats_bound [of "rf_outlay f"] by (simp add: checked_simps n mult.commute)
  moreover have "amount_checked_sub (rf_outlay f) ?paid = Some ?burn"
    using fits b p by (simp add: checked_simps)
  ultimately have "registration_burn p f n = Inr ?burn" by (simp add: registration_burn_def assms(3))
  with fits b assms(1) show ?thesis by (auto simp: checked_fees_Inr)
qed


section \<open>A commitment is opened by what it hides\<close>

definition wf_reservation :: "name_reservation \<Rightarrow> bool" where
  "wf_reservation r \<longleftrightarrow> length (nr_parent r) = 20 \<and> length (nr_salt r) = 32 \<and>
     (case nr_referral r of None \<Rightarrow> True | Some a \<Rightarrow> length a = 20)"

text \<open>The referral as it is committed to: none is twenty zeros.\<close>

definition committed_referral :: "name_reservation \<Rightarrow> bytes" where
  "committed_referral r = (case nr_referral r of None \<Rightarrow> replicate 20 0 | Some a \<Rightarrow> a)"

lemma length_committed_referral: "wf_reservation r \<Longrightarrow> length (committed_referral r) = 20"
  by (simp add: wf_reservation_def committed_referral_def split: option.splits)

lemma rg_compact_size_eq: "rg_compact_size n = Inr l \<longleftrightarrow> n < 2 ^ 32 \<and> l = id_compact_size n"
  by (auto simp: rg_compact_size_def id_compact_size_def)

lemma reservation_bytes_Inr:
  "reservation_to_bytes r = Inr bs \<longleftrightarrow> length (nr_name r) < 2 ^ 32 \<and>
     bs = u32_le NAME_RESERVATION_VERSION @ id_var_slice (ascii (nr_name r)) @ nr_parent r @
       committed_referral r @ nr_salt r"
  by (auto simp: reservation_to_bytes_def rbind_Inr_iff rg_compact_size_eq id_var_slice_def committed_referral_def)

lemma reservation_bytes_inj:
  assumes "reservation_to_bytes r = Inr bs" "reservation_to_bytes r' = Inr bs" "wf_reservation r" "wf_reservation r'"
  shows "nr_name r = nr_name r'" "nr_parent r = nr_parent r'" "nr_salt r = nr_salt r'"
    "committed_referral r = committed_referral r'"
proof -
  let ?body = "\<lambda>r. id_var_slice (ascii (nr_name r)) @ nr_parent r @ committed_referral r @ nr_salt r"
  have eq: "?body r = ?body r'" using assms(1,2) by (simp add: reservation_bytes_Inr)
  have small: "length (nr_name r) < 2 ^ 32" "length (nr_name r') < 2 ^ 32"
    using assms(1,2) by (simp_all add: reservation_bytes_Inr)
  have len: "length (id_compact_size n) \<le> 9" for n by (simp add: id_compact_size_def length_uN_le)
  have bound: "length (?body r) < usize_bound" if "length (nr_name r) < 2 ^ 32" "wf_reservation r" for r
    using that len [of "length (nr_name r)"] length_committed_referral [OF that(2)]
    by (simp add: id_var_slice_def wf_reservation_def)
  have read: "id_slice (cursor_new (?body r)) =
      Inr (ascii (nr_name r), advance (cursor_new (?body r)) (length (id_var_slice (ascii (nr_name r)))))"
    if "length (nr_name r) < 2 ^ 32" "wf_reservation r" for r
    by (rule decodesD [OF decodes_slice]) (use bound [OF that] in simp_all)
  from read [OF small(1) assms(3)] read [OF small(2) assms(4)] have names: "ascii (nr_name r) = ascii (nr_name r')"
    unfolding eq by simp
  then show "nr_name r = nr_name r'" by (metis str_bytes(2))
  from names eq have "nr_parent r @ committed_referral r @ nr_salt r = nr_parent r' @ committed_referral r' @ nr_salt r'"
    by simp
  then show "nr_parent r = nr_parent r'" "nr_salt r = nr_salt r'" "committed_referral r = committed_referral r'"
    using assms(3,4) length_committed_referral by (auto simp: wf_reservation_def)
qed

lemma decode_commitment_script:
  assumes "commitment_script h c = Inr s" "length h = 32" "length c = 20"
  shows "decode_output_script H hx s = Inr (OutIdentityCommitment (DestPubKeyHash c) h [])"
proof (rule decode_of_script [OF assms(1) [unfolded commitment_script_def]])
  let ?p = "(one_of_one EVAL_IDENTITY_COMMITMENT (DestPubKeyHash c))\<lparr>cc_vdata := [h]\<rparr>"
  have kind: "decode_kind hx EVAL_IDENTITY_COMMITMENT ds = decode_commitment hx ds" for ds
    by (simp add: decode_kind_def eval_codes)
  have h: "h \<noteq> []" "length h \<le> 65535" using assms(2) by auto
  have "finishes (decode_commitment hx [DestPubKeyHash c]) (push_bytes h) (OutIdentityCommitment (DestPubKeyHash c) h [])"
    unfolding decode_commitment_def
    by (rule finishes_then [OF decodes_finishes [OF decodes_push [OF h]]], rule finishes_then [OF finishes_done],
        rule finishes_lift [where x = "[]"], simp add: commitment_tokens_def assms(2),
        rule finishes_lift [where x = "DestPubKeyHash c"], simp add: first_destination_def)
      (use assms(2) in \<open>simp add: finishes_return\<close>)
  then show "finishes (decode_kind hx (cc_eval_code ?p) (cc_destinations ?p))
      (concat (map push_bytes (cc_vdata ?p))) (OutIdentityCommitment (DestPubKeyHash c) h [])"
    by (simp add: one_of_one_def kind)
qed (use assms(3) in \<open>simp_all add: one_of_one_def\<close>)

lemma commitment_hash_length: "hash_lib_ok H \<Longrightarrow> commitment_hash H r = Inr h \<Longrightarrow> length h = 32"
  by (auto simp: commitment_hash_def rbind_Inr_iff sha256d_def hash_lib_ok_def)

lemma commitment_script_inj:
  assumes "commitment_script h c = Inr s" "commitment_script h' c' = Inr s"
    "length h = 32" "length h' = 32" "length c = 20" "length c' = 20"
  shows "h = h' \<and> c = c'"
  using decode_commitment_script [OF assms(1,3,5)] decode_commitment_script [OF assms(2,4,6)] by simp

lemma length_private_address: "hash_lib_ok H \<Longrightarrow> length (addr_hash (private_address H X k)) = 20"
  by (simp add: private_address_def public_address_def address_new_def public_hash160_def hash160_def hash_lib_ok_def)

lemma registration_subject_Inr:
  "registration_subject E key p = Inr i \<longleftrightarrow>
     check_expiry (rg_expiry p) = Inr () \<and> check_p2pkh_funding (rg_utxos p) = Inr () \<and>
     rg_primary_addresses p \<noteq> [] \<and> rg_min_sigs p \<noteq> 0 \<and> unat (rg_min_sigs p) \<le> length (rg_primary_addresses p) \<and>
     (\<exists>h. commitment_hash (env_hash E) (rg_reservation p) = Inr h \<and>
        commitment_script h (addr_hash (private_address (env_hash E) (env_ec E) key)) =
          Inr (utxo_script_pubkey (rg_commitment p))) \<and>
     (\<forall>a \<in> set (rg_primary_addresses p). addr_kind a = PubKeyHash) \<and>
     i = registered_identity (env_hash E) p (map (DestPubKeyHash \<circ> addr_hash) (rg_primary_addresses p))"
proof -
  have prim: "rmap primary_destination as = Inr ds \<longleftrightarrow>
      (\<forall>a \<in> set as. addr_kind a = PubKeyHash) \<and> ds = map (DestPubKeyHash \<circ> addr_hash) as" for as ds
    by (induction as arbitrary: ds) (auto simp: rbind_Inr_iff primary_destination_def)
  show ?thesis
    unfolding registration_subject_def rbind_Inr_iff refuse_if_Inr_iff prim
    by (auto simp: not_less)
qed

text \<open>
  C25: a registration only reveals what was committed.  If the commitment spent is the output
  step 1 writes for a reservation and a control hash, and those two reservations are no
  collision of the hash, then the key signing is the control key and the name, the parent,
  the salt and the referral revealed are the ones committed to; so are the name and the
  parent published.
\<close>

theorem reveal_opens_commitment:
  fixes E :: "('sk, 'vk, 'sg) env"
  assumes "hash_lib_ok (env_hash E)" "wf_reservation r" "wf_reservation (rg_reservation p)" "length control = 20"
    and "reservation_to_bytes r = Inr bs"
    and "commitment_script (sha256d (hl_sha256 (env_hash E)) bs) control = Inr (utxo_script_pubkey (rg_commitment p))"
    and "registration_subject E key p = Inr i"
    and "\<And>bs'. reservation_to_bytes (rg_reservation p) = Inr bs' \<Longrightarrow>
      sha256d (hl_sha256 (env_hash E)) bs' = sha256d (hl_sha256 (env_hash E)) bs \<Longrightarrow> bs' = bs"
  shows "addr_hash (private_address (env_hash E) (env_ec E) key) = control \<and>
    nr_name (rg_reservation p) = nr_name r \<and> nr_parent (rg_reservation p) = nr_parent r \<and>
    nr_salt (rg_reservation p) = nr_salt r \<and> committed_referral (rg_reservation p) = committed_referral r \<and>
    id_name i = nr_name r \<and> id_parent i = nr_parent r \<and>
    registration_id (env_hash E) p = identity_id (env_hash E) (nr_name r) (Some (nr_parent r))"
proof -
  let ?H = "env_hash E" and ?q = "rg_reservation p"
  from assms(7) obtain h where h: "commitment_hash ?H ?q = Inr h"
    and s: "commitment_script h (addr_hash (private_address ?H (env_ec E) key)) = Inr (utxo_script_pubkey (rg_commitment p))"
    and i: "i = registered_identity ?H p (map (DestPubKeyHash \<circ> addr_hash) (rg_primary_addresses p))"
    by (auto simp: registration_subject_Inr)
  from h obtain bs' where bs': "reservation_to_bytes ?q = Inr bs'" "h = sha256d (hl_sha256 ?H) bs'"
    by (auto simp: commitment_hash_def rbind_Inr_iff)
  have len: "length (sha256d (hl_sha256 ?H) x) = 32" for x using assms(1) by (simp add: sha256d_def hash_lib_ok_def)
  from commitment_script_inj [OF s assms(6) _ _ length_private_address [OF assms(1)] assms(4)] len bs'(2)
  have c: "addr_hash (private_address ?H (env_ec E) key) = control" "h = sha256d (hl_sha256 ?H) bs" by simp_all
  have "bs' = bs" using assms(8) [OF bs'(1)] c(2) bs'(2) by simp
  then have "reservation_to_bytes ?q = Inr bs" using bs'(1) by simp
  from reservation_bytes_inj [OF this assms(5,3,2)] c(1) i show ?thesis
    by (simp add: registered_identity_def registration_id_def Let_def)
qed


section \<open>What a registration publishes and pays\<close>

definition wf_registration :: "registration_params \<Rightarrow> bool" where
  "wf_registration p \<longleftrightarrow> wf_reservation (rg_reservation p) \<and> valid_utf8 (ascii (nr_name (rg_reservation p))) \<and>
     length (rg_system_id p) = 20 \<and> list_all wf_address (rg_primary_addresses p) \<and>
     wf_address (rg_change_address p) \<and>
     (case rg_revocation_authority p of None \<Rightarrow> True | Some a \<Rightarrow> length a = 20) \<and>
     (case rg_recovery_authority p of None \<Rightarrow> True | Some a \<Rightarrow> length a = 20)"

lemma registered_wf:
  assumes "hash_lib_ok H" "wf_registration p"
  shows "wf_identity (registered_identity H p (map (DestPubKeyHash \<circ> addr_hash) (rg_primary_addresses p)))"
  using assms length_identity_id [OF assms(1)]
  by (auto simp: wf_identity_def registered_identity_def wf_registration_def wf_reservation_def registration_id_def
      IDENTITY_VERSION_PBAAS_def wf_address_def list_all_iff Let_def split: option.splits)

definition pays_share :: "registration_fees \<Rightarrow> bytes \<Rightarrow> tx_out \<Rightarrow> bool" where
  "pays_share fees referrer out \<longleftrightarrow> out_value out = to_sat (rf_referral_amount fees) \<and>
     identity_payment_script referrer = Inr (out_script_pubkey out)"

text \<open>The fee reported is the miner's, at most a coin, and the burn.\<close>

lemma assembled_fee:
  assumes "assemble E fk lks plan = Inr st" "\<not> as_value_bearing_leading plan"
  shows "\<exists>miner. sats (st_fee st) = miner + sats (as_burn plan) \<and> miner \<le> 100000000 \<and> utxo_total (as_leading plan) = 0"
proof -
  from assms(1) obtain t0 t inputs expected change where
    un: "assemble_unsigned plan = Inr (t0, inputs, expected, change)"
    and st: "signed_transaction_of E t (from_sat expected) (from_sat change) inputs = Inr st"
    by (auto simp: assemble_def rbind_Inr_iff)
  from un obtain required leading_total selected fee extra where
    run: "assembly_run plan required leading_total selected fee change extra" and e: "expected = fee + to_sat (as_burn plan)"
    by (auto simp: assemble_unsigned_Inr)
  have choose: "choose_funding plan required leading_total = Inr (selected, fee, change)"
    and lead: "unat leading_total = utxo_total (as_leading plan)"
    using run by (simp_all add: assembly_run_def)
  have "unat fee \<le> 100000000" using choose_funding_Inr(1) [OF choose impI [OF lead]] assms(2) by (auto split: if_splits)
  moreover have "utxo_total (as_leading plan) = 0" using run assms(2) by (simp add: assembly_run_def valueless_total)
  moreover have "sats (st_fee st) = unat fee + sats (as_burn plan)"
    using st assembly_conserved(2) [OF run] by (auto simp: signed_transaction_of_Inr e from_sat_def)
  ultimately show ?thesis by blast
qed

lemma paid_shares:
  "list_all2 (pays_share fees) rs outs \<Longrightarrow> total_value outs = length rs * sats (rf_referral_amount fees)"
  by (induction rule: list_all2_induct) (simp_all add: pays_share_def)

lemma held_amounts_Inr:
  "held_amounts c u held ts = Inr held' \<Longrightarrow> unat held' = unat held + token_total c ts \<and> (\<forall>d. d \<noteq> c \<longrightarrow> token_total d ts = 0)"
proof (induction c u held ts rule: held_amounts.induct)
  case (2 c u held currency amount ts)
  then show ?case by (auto simp: rbind_Inr_iff ok_or_Inr_iff checked_simps split: if_splits)
qed simp

lemma held_funding_Inr:
  "held_funding H hx c held us = Inr held' \<Longrightarrow>
     unat held' = unat held + chain_total H hx (map utxo_script_pubkey us) c \<and>
     (\<forall>d. d \<noteq> c \<longrightarrow> chain_total H hx (map utxo_script_pubkey us) d = 0)"
proof (induction us arbitrary: held)
  case (Cons u us)
  from Cons.prems obtain k h where k: "decode_output_script H hx (utxo_script_pubkey u) = Inr k"
    and one: "(case k of
         OutReserveOutput destination tokens \<Rightarrow>
           rbind (reject_unspendable_reserve hx u destination) (\<lambda>_. held_amounts c u held tokens)
       | _ \<Rightarrow> Inl (UnsupportedFundingScript (to_display_hex (utxo_txid u)) (utxo_vout u))) = Inr h"
    and more: "held_funding H hx c h us = Inr held'"
    unfolding held_funding.simps rbind_Inr_iff by blast
  from one obtain d ts where "k = OutReserveOutput d ts" "held_amounts c u held ts = Inr h"
    by (cases k) (auto simp: rbind_Inr_iff)
  with held_amounts_Inr [OF this(2)] Cons.IH [OF more] k show ?case by (simp add: chain_tokens_def)
qed simp

text \<open>The output that pays the parent currency's fee: to the parent's id, or burned.\<close>

definition pays_parent :: "hash_lib \<Rightarrow> hex_encode \<Rightarrow> registration_params \<Rightarrow> parent_currency_fee \<Rightarrow> tx_out \<Rightarrow> bool" where
  "pays_parent H hx p sub out \<longleftrightarrow>
     (let parent = nr_parent (rg_reservation p) in
      if pc_proof_protocol sub = 2
      then pays_tokens H hx (DestIdentity parent) (of_identity parent) (to_sat (pc_fee sub)) out
      else out_value out = to_sat (pc_transfer_fee sub) \<and>
        (\<exists>t. to_script t = Inr (out_script_pubkey out) \<and> rt_source t = of_identity parent \<and>
           rt_amount t = pc_fee sub \<and> pc_fee sub \<noteq> amount_zero \<and> rt_kind t = Burn \<and> rt_fee t = pc_transfer_fee sub \<and>
           rt_fee_currency t = currency_from_bytes (rg_system_id p)))"

lemma parent_fee_output_pays:
  assumes "parent_fee_output p sub = Inr out" "wf_registration p"
  shows "pays_parent H hx p sub out"
  using assms
  by (auto simp: parent_fee_output_def pays_parent_def Let_def rbind_Inr_iff CENTRALIZED_PROOF_PROTOCOL_def
      build_conversion_def refuse_if_Inr_iff pays_tokens_def wf_registration_def wf_reservation_def wf_currency_def
      of_identity_def intro!: decode_reserve_output_script split: if_splits)


lemma parent_change_Inr:
  assumes "parent_change_outputs H hx p = Inr outs" "rg_parent_currency p = Some sub" "wf_registration p"
  shows "total_value outs = 0 \<and> length outs \<le> 1 \<and>
     chain_total H hx (map utxo_script_pubkey (pc_token_funding sub)) c =
       (if c = of_identity (nr_parent (rg_reservation p)) then sats (pc_fee sub) else 0) +
       chain_total H hx (map out_script_pubkey outs) c"
proof -
  let ?c = "of_identity (nr_parent (rg_reservation p))" and ?to = "DestPubKeyHash (addr_hash (rg_change_address p))"
  from assms(1,2) obtain held change where
    held: "held_funding H hx ?c 0 (pc_token_funding sub) = Inr held"
    and change: "amount_checked_sub (from_sat held) (pc_fee sub) = Some change"
    and outs: "(if amount_is_zero change then Inr []
         else rbind (reserve_output_script_to ?to ?c (to_sat change)) (\<lambda>script.
              Inr [\<lparr>out_value = 0, out_script_pubkey = script\<rparr>])) = Inr outs"
    by (auto simp: parent_change_outputs_def rbind_Inr_iff ok_or_Inr_iff Let_def)
  from change have sum: "unat held = sats (pc_fee sub) + sats change"
    by (auto simp: checked_simps from_sat_def)
  have wf: "wf_destination ?to" "wf_currency ?c"
    using assms(3) by (simp_all add: wf_registration_def wf_reservation_def wf_address_def wf_currency_def of_identity_def)
  have "total_value outs = 0 \<and> length outs \<le> 1 \<and>
      chain_total H hx (map out_script_pubkey outs) c = (if c = ?c then sats change else 0)"
    using outs decode_reserve_output_script [OF wf, of "to_sat change" _ H hx]
    by (auto simp: rbind_Inr_iff amount_is_zero_def chain_tokens_def split: if_splits)
  with held_funding_Inr [OF held] sum show ?thesis by auto
qed

lemma build_registration_Inr:
  assumes "build_identity_registration E key p = Inr r"
  obtains identity fees referrers primary parent_fee payouts reveal token_change burn plan where
    "registration_subject E key p = Inr identity"
    "checked_registration_fees (rg_registration_fee p) (rg_referral_levels p)
       (rg_parent_currency p = None \<and> nr_referral (rg_reservation p) \<noteq> None) = Inr fees"
    "referrers_of p = Inr referrers" "length referrers \<le> unat (rg_referral_levels p)"
    "publish_script identity (registration_id (env_hash E) p) = Inr primary"
    "parent_fee_outputs p = Inr parent_fee" "rmap (referrer_output fees) referrers = Inr payouts"
    "reservation_script (registration_id (env_hash E) p) (rg_reservation p) = Inr reveal"
    "parent_change_outputs (env_hash E) (env_hex E) p = Inr token_change"
    "registration_burn p fees (length referrers) = Inr burn"
    "as_leading plan = rg_commitment p # token_leading p" "as_funding plan = rg_utxos p"
    "as_outputs plan = \<lparr>out_value = 0, out_script_pubkey = primary\<rparr> # parent_fee @ payouts @
       \<lparr>out_value = 0, out_script_pubkey = reveal\<rparr> # token_change"
    "as_burn plan = burn" "\<not> as_value_bearing_leading plan"
    "assemble E key [key] plan = Inr (sr_transaction r)" "sr_identity r = identity"
    "sr_identity_id r = registration_id (env_hash E) p"
proof -
  from assms obtain identity fees referrers primary parent_fee payouts reveal token_change burn st where
    parts: "registration_subject E key p = Inr identity"
    "checked_registration_fees (rg_registration_fee p) (rg_referral_levels p)
       (rg_parent_currency p = None \<and> nr_referral (rg_reservation p) \<noteq> None) = Inr fees"
    "referrers_of p = Inr referrers" "\<not> unat (rg_referral_levels p) < length referrers"
    "publish_script identity (registration_id (env_hash E) p) = Inr primary"
    "parent_fee_outputs p = Inr parent_fee" "rmap (referrer_output fees) referrers = Inr payouts"
    "reservation_script (registration_id (env_hash E) p) (rg_reservation p) = Inr reveal"
    "parent_change_outputs (env_hash E) (env_hex E) p = Inr token_change"
    "registration_burn p fees (length referrers) = Inr burn"
    and st: "assemble E key [key]
       \<lparr>as_leading = rg_commitment p # token_leading p, as_funding = rg_utxos p,
        as_outputs = \<lparr>out_value = 0, out_script_pubkey = primary\<rparr> # parent_fee @ payouts @
          \<lparr>out_value = 0, out_script_pubkey = reveal\<rparr> # token_change,
        as_burn = burn, as_fee_output_count = 3 + of_nat (length referrers),
        as_change_address = rg_change_address p, as_change_script = None,
        as_value_bearing_leading = False, as_expiry = rg_expiry p, as_fee_per_kb = rg_fee_per_kb p\<rparr> = Inr st"
    and r: "r = \<lparr>sr_transaction = st, sr_identity_id = registration_id (env_hash E) p,
       sr_identity_address = address_new Identity (registration_id (env_hash E) p), sr_identity = identity\<rparr>"
    unfolding build_identity_registration_def Let_def rbind_Inr_iff refuse_if_Inr_iff sum.inject by blast
  show thesis
    by (rule that [OF parts(1-3) _ parts(5-10) _ _ _ _ _ st [folded arg_cong [OF r, of sr_transaction, simplified]]])
      (use parts(4) r in simp_all)
qed

text \<open>
  A registration publishes the identity asked for, under the id its name derives.  The
  commitment is the first input, then the tokens, each signed by the key; the first output
  reads back as the identity returned: version 3, no flags, the given keys, threshold and
  system, the reservation's name and parent, and itself as each authority not given; one
  output reveals the reservation, paid to the id; the others are payments and change.
\<close>

theorem registration_publishes:
  fixes E :: "('sk, 'vk, 'sg) env"
  assumes "ec_lib_ok (env_ec E)" "hash_lib_ok (env_hash E)"
    and "build_identity_registration E key p = Inr r" "wf_registration p"
  shows "\<exists>t raw published parent_fee payouts reveal change.
     serialize t = Inr raw \<and> st_hex (sr_transaction r) = env_hex E raw \<and>
     tx_outputs t = published # parent_fee @ payouts @ reveal # change \<and>
     decode_output_script (env_hash E) (env_hex E) (out_script_pubkey published) = Inr (OutIdentityPrimary (sr_identity r)) \<and>
     sr_identity r = registered_identity (env_hash E) p (map (DestPubKeyHash \<circ> addr_hash) (rg_primary_addresses p)) \<and>
     sr_identity_id r = identity_id (env_hash E) (id_name (sr_identity r)) (Some (id_parent (sr_identity r))) \<and>
     reservation_script (sr_identity_id r) (rg_reservation p) = Inr (out_script_pubkey reveal) \<and>
     out_value published = 0 \<and> out_value reveal = 0 \<and>
     length parent_fee \<le> 1 \<and> length payouts \<le> unat (rg_referral_levels p) \<and> length change \<le> 2 \<and>
     hd (st_inputs_used (sr_transaction r)) = outpoint (rg_commitment p) \<and>
     (\<forall>i < Suc (length (token_leading p)). \<exists>h.
        sighash_of E t i ((rg_commitment p # token_leading p) ! i) = Inr h \<and>
        fulfillment_unlocks E [key] h (in_script_sig (tx_inputs t ! i)))"
proof -
  let ?H = "env_hash E"
  from assms(3) obtain identity fees referrers primary parent_fee payouts reveal token_change burn plan where
    subject: "registration_subject E key p = Inr identity"
    and few: "length referrers \<le> unat (rg_referral_levels p)"
    and primary: "publish_script identity (registration_id ?H p) = Inr primary"
    and fee: "parent_fee_outputs p = Inr parent_fee" and pay: "rmap (referrer_output fees) referrers = Inr payouts"
    and reveal: "reservation_script (registration_id ?H p) (rg_reservation p) = Inr reveal"
    and returned: "parent_change_outputs ?H (env_hex E) p = Inr token_change"
    and plan: "as_leading plan = rg_commitment p # token_leading p"
      "as_outputs plan = \<lparr>out_value = 0, out_script_pubkey = primary\<rparr> # parent_fee @ payouts @
       \<lparr>out_value = 0, out_script_pubkey = reveal\<rparr> # token_change"
    and st: "assemble E key [key] plan = Inr (sr_transaction r)"
    and r: "sr_identity r = identity" "sr_identity_id r = registration_id ?H p"
    by (rule build_registration_Inr)
  from assms(1) st obtain t raw selected extra where
    t: "tx_outputs t = as_outputs plan @ extra" "length extra \<le> 1"
    and sig: "\<forall>i < length (as_leading plan). \<exists>h. sighash_of E t i (as_leading plan ! i) = Inr h \<and>
       fulfillment_unlocks E [key] h (in_script_sig (tx_inputs t ! i))"
    and raw: "serialize t = Inr raw" "st_hex (sr_transaction r) = env_hex E raw"
      "st_inputs_used (sr_transaction r) = map outpoint (as_leading plan @ selected)"
    by (rule assemble_built) (rule that)
  from subject have identity: "identity = registered_identity ?H p (map (DestPubKeyHash \<circ> addr_hash) (rg_primary_addresses p))"
    by (simp add: registration_subject_Inr)
  have read: "decode_output_script ?H (env_hex E) primary = Inr (OutIdentityPrimary identity)"
    using registered_wf [OF assms(2,4)] length_identity_id [OF assms(2)]
    by (intro published_reads_back [OF primary]) (simp_all add: identity registration_id_def)
  have "length payouts = length referrers" using pay by (auto simp: rmap_Inr_iff dest: list_all2_lengthD)
  moreover have "length parent_fee \<le> 1" using fee by (auto simp: parent_fee_outputs_def rbind_Inr_iff split: option.splits)
  moreover have "length token_change \<le> 1"
    using returned parent_change_Inr [OF returned _ assms(4)]
    by (cases "rg_parent_currency p") (auto simp: parent_change_outputs_def)
  moreover have "registration_id ?H p = identity_id ?H (id_name identity) (Some (id_parent identity))"
    by (simp add: identity registration_id_def registered_identity_def Let_def)
  ultimately show ?thesis
    using t raw sig few reveal read identity
    by (intro exI [of _ t] exI [of _ raw] exI [of _ "\<lparr>out_value = 0, out_script_pubkey = primary\<rparr>"]
        exI [of _ parent_fee] exI [of _ payouts] exI [of _ "\<lparr>out_value = 0, out_script_pubkey = reveal\<rparr>"]
        exI [of _ "token_change @ extra"]) (simp add: plan r)
qed




section \<open>A registration that runs\<close>

definition sample_reservation :: name_reservation where
  "sample_reservation = \<lparr>nr_name = ''alice'', nr_parent = replicate 20 1, nr_referral = Some (replicate 20 6),
     nr_salt = replicate 32 9\<rparr>"

definition sample_commitment :: utxo where
  "sample_commitment = \<lparr>utxo_txid = Txid (replicate 32 4), utxo_vout = 0, utxo_satoshis = Amount 0,
     utxo_script_pubkey = (case rbind (commitment_hash toy_hash_lib sample_reservation)
         (\<lambda>h. commitment_script h (2 # replicate 19 5)) of Inl _ \<Rightarrow> [] | Inr script \<Rightarrow> script)\<rparr>"

definition sample_registration :: registration_params where
  "sample_registration = with_referrals
     (registration_params_new sample_commitment sample_reservation [sample_coin] [sample_address] (replicate 20 1)
       (Amount 250000) sample_address Never) 3 []"

lemma sample_registration_fields:
  "rg_reservation sample_registration = sample_reservation" "rg_commitment sample_registration = sample_commitment"
  "rg_utxos sample_registration = [sample_coin]" "rg_primary_addresses sample_registration = [sample_address]"
  "rg_expiry sample_registration = Never" "rg_min_sigs sample_registration = 1" "rg_parent_currency sample_registration = None"
  "rg_referral_levels sample_registration = 3" "rg_registration_fee sample_registration = Amount 250000"
  "rg_change_address sample_registration = sample_address" "rg_fee_per_kb sample_registration = DEFAULT_FEE_PER_KB"
  "rg_referral_chain sample_registration = []" "token_leading sample_registration = []"
  "env_hash sample_env = toy_hash_lib" "env_ec sample_env = toy_ec_lib"
  by (simp_all add: sample_registration_def with_referrals_def registration_params_new_def token_leading_def sample_env_def)

lemma sample_registration_wf: "wf_registration sample_registration" "wf_reservation sample_reservation"
proof -
  have "valid_utf8 (ascii ''alice'')" by (rule valid_utf8_ascii) (simp add: ascii_def)
  then show "wf_registration sample_registration" "wf_reservation sample_reservation"
    by (simp_all add: wf_registration_def sample_registration_fields wf_reservation_def wf_address_def sample_address_def)
      (simp_all add: sample_registration_def with_referrals_def registration_params_new_def sample_reservation_def)
qed

lemma one_vdata_script:
  assumes "wf_destination d" "length v \<le> 60000"
  shows "\<exists>s. cc_script (one_of_one EVAL_NONE d) ((one_of_one e d)\<lparr>cc_vdata := [v]\<rparr>) = Inr s"
proof -
  have "length (to_push d) \<le> 65" using length_to_push [OF assms(1)] by simp
  then show ?thesis using assms(2)
    by (auto simp: cc_script_Inr to_chunk_Inr one_of_one_def push_bytes_def)
qed

lemma sample_commitment_script:
  "\<exists>bs. reservation_to_bytes sample_reservation = Inr bs \<and>
     commitment_script (sha256d (hl_sha256 toy_hash_lib) bs) (2 # replicate 19 5) = Inr (utxo_script_pubkey sample_commitment)"
proof -
  obtain bs where bs: "reservation_to_bytes sample_reservation = Inr bs"
    by (auto simp: reservation_bytes_Inr sample_reservation_def)
  then have h: "commitment_hash toy_hash_lib sample_reservation = Inr (sha256d (hl_sha256 toy_hash_lib) bs)"
    by (simp add: commitment_hash_def)
  have "length (sha256d (hl_sha256 toy_hash_lib) bs) = 32" using commitment_hash_length [OF toy_hash_lib_ok h] .
  then obtain s where "commitment_script (sha256d (hl_sha256 toy_hash_lib) bs) (2 # replicate 19 5) = Inr s"
    unfolding commitment_script_def
    using one_vdata_script [of "DestPubKeyHash (2 # replicate 19 5)" "sha256d (hl_sha256 toy_hash_lib) bs" EVAL_IDENTITY_COMMITMENT]
    by auto
  then show ?thesis using bs by (auto simp: sample_commitment_def h)
qed

lemma sample_subject:
  "registration_subject sample_env sample_key sample_registration =
     Inr (registered_identity toy_hash_lib sample_registration [DestPubKeyHash (replicate 20 7)])"
  using sample_commitment_script held_facts(2,3) sample_key_address
  by (auto simp: registration_subject_Inr sample_registration_fields commitment_hash_def rbind_Inr_iff sample_address_def)

lemma reveal_opens_commitment_witness:
  "\<exists>i. registration_subject sample_env sample_key sample_registration = Inr i \<and> id_name i = ''alice'' \<and>
     addr_hash (private_address toy_hash_lib toy_ec_lib sample_key) = 2 # replicate 19 5"
proof -
  obtain bs where bs: "reservation_to_bytes sample_reservation = Inr bs"
    "commitment_script (sha256d (hl_sha256 toy_hash_lib) bs) (2 # replicate 19 5) = Inr (utxo_script_pubkey sample_commitment)"
    using sample_commitment_script by blast
  have "hash_lib_ok (env_hash sample_env)" "wf_reservation (rg_reservation sample_registration)" "length (2 # replicate 19 (5 :: byte)) = 20"
    "commitment_script (sha256d (hl_sha256 (env_hash sample_env)) bs) (2 # replicate 19 5) = Inr (utxo_script_pubkey (rg_commitment sample_registration))"
    using sample_registration_wf(2) bs(2) by (simp_all add: toy_hash_lib_ok sample_registration_fields)
  from reveal_opens_commitment [OF this(1) sample_registration_wf(2) this(2,3) bs(1) this(4) sample_subject] bs(1)
  show ?thesis using sample_subject by (auto simp: sample_registration_fields sample_reservation_def)
qed

lemma payouts_fit_outlay_witness:
  "\<exists>f burn. checked_registration_fees (Amount 10000000000) 3 True = Inr f \<and> sats (rf_outlay f) = 8000000000 \<and>
     registration_burn sample_registration f 2 = Inr burn \<and> 2 * sats (rf_referral_amount f) + sats burn = 8000000000"
proof -
  let ?f = "\<lparr>rf_referral_amount = Amount 2000000000, rf_outlay = Amount 8000000000\<rparr>"
  have f: "checked_registration_fees (Amount 10000000000) 3 True = Inr ?f" by (simp add: checked_fees_Inr)
  from payouts_fit_outlay [OF f, of 2 sample_registration] f show ?thesis by (auto simp: sample_registration_fields)
qed


lemma sample_coin_pays_registration:
  "select_utxos [sample_coin] 200000 4 DEFAULT_FEE_PER_KB True =
     Inr \<lparr>sel_selected = [sample_coin], sel_change = 287600, sel_fee = 12400\<rparr>"
  by (simp add: select_utxos_def checked_add_def estimate_fee_value descending_def DEFAULT_FEE_PER_KB_def
      size_estimate_def fee_estimate_def select_loop.simps sample_coin_def amount_checked_sum_def
      amount_checked_add_def amount_zero_def Let_def DUST_THRESHOLD_def check_fee_ceiling_def
      MAX_MINER_FEE_def)

lemma sample_registration_built: "\<exists>r. build_identity_registration sample_env sample_key sample_registration = Inr r"
proof -
  let ?i = "registered_identity toy_hash_lib sample_registration [DestPubKeyHash (replicate 20 7)]"
  let ?h = "registration_id toy_hash_lib sample_registration"
  let ?f = "\<lparr>rf_referral_amount = Amount 50000, rf_outlay = Amount 200000\<rparr>"
  have h: "length ?h = 20" by (simp add: registration_id_def length_identity_id toy_hash_lib_ok)
  have wf: "wf_identity ?i"
    using registered_wf [OF toy_hash_lib_ok sample_registration_wf(1)] by (simp add: sample_registration_fields sample_address_def)
  then obtain bs where bs: "identity_to_bytes ?i = Inr bs" using wf_identity_writes by blast
  then have "length bs \<le> 60000" using h
    by (simp add: identity_to_bytes_Inr registered_identity_def sample_registration_def with_referrals_def
        registration_params_new_def sample_reservation_def id_compact_size_def id_var_slice_def
        multimap_part_def vault_bytes_def length_uN_le Let_def)
  then obtain primary where primary: "publish_script ?i ?h = Inr primary"
    using publish_script_total [OF bs _ h] wf by (auto simp: wf_identity_def)
  obtain rb where rb: "reservation_to_bytes sample_reservation = Inr rb" "length rb \<le> 60000"
    by (auto simp: reservation_bytes_Inr sample_reservation_def committed_referral_def id_compact_size_def id_var_slice_def length_uN_le)
  then obtain reveal where reveal: "reservation_script ?h sample_reservation = Inr reveal"
    using one_vdata_script [of "DestIdentity ?h" rb EVAL_IDENTITY_ADVANCEDRESERVATION] h by (auto simp: reservation_script_def)
  obtain pay where pay: "identity_payment_script (replicate 20 6) = Inr pay"
    using payment_script_total [of "replicate 20 6"] by auto
  have fees: "checked_registration_fees (Amount 250000) 3 True = Inr ?f" by (simp add: checked_fees_Inr)
  have burn: "registration_burn sample_registration ?f (Suc 0) = Inr (Amount 150000)"
    by (simp add: registration_burn_def sample_registration_fields amount_checked_mul_def amount_checked_sub_def
        checked_mul_def checked_sub_def)
  let ?plan = "\<lparr>as_leading = [sample_commitment], as_funding = [sample_coin],
      as_outputs = [\<lparr>out_value = 0, out_script_pubkey = primary\<rparr>, \<lparr>out_value = 50000, out_script_pubkey = pay\<rparr>,
        \<lparr>out_value = 0, out_script_pubkey = reveal\<rparr>],
      as_burn = Amount 150000, as_fee_output_count = 4, as_change_address = sample_address, as_change_script = None,
      as_value_bearing_leading = False, as_expiry = Never, as_fee_per_kb = DEFAULT_FEE_PER_KB\<rparr>"
  have "assembly_run ?plan 200000 0 [sample_coin] 12400 287600
      [\<lparr>out_value = 287600, out_script_pubkey = [0x76, 0xa9, 0x14] @ replicate 20 7 @ [0x88, 0xac]\<rparr>]"
    by (simp add: assembly_run_def choose_funding_def sample_coin_pays_registration change_output_def sample_address_def
        p2pkh_script_pubkey_def amount_is_zero_def sample_commitment_def)
  from sample_run_total [OF this] obtain st where
    st: "assemble sample_env sample_key [sample_key] ?plan = Inr st" by auto
  have refs: "referrers_of sample_registration = Inr [replicate 20 6]"
    by (simp add: referrers_of_def sample_registration_fields) (simp add: sample_reservation_def)
  have none: "parent_fee_outputs sample_registration = Inr []" "parent_change_outputs H hx sample_registration = Inr []" for H hx
    by (simp_all add: parent_fee_outputs_def parent_change_outputs_def sample_registration_fields)
  have referred: "nr_referral sample_reservation \<noteq> None" by (simp add: sample_reservation_def)
  show ?thesis
    using primary reveal st
    by (simp add: build_identity_registration_def sample_subject fees refs none burn sample_registration_fields referred
        referrer_output_def pay Let_def)
qed

lemma registration_publishes_witness:
  "\<exists>r (t :: tx_v4) published others. build_identity_registration sample_env sample_key sample_registration = Inr r \<and>
     tx_outputs t = published # others \<and> id_name (sr_identity r) = ''alice'' \<and>
     decode_output_script toy_hash_lib (env_hex sample_env) (out_script_pubkey published) = Inr (OutIdentityPrimary (sr_identity r))"
proof -
  obtain r where r: "build_identity_registration sample_env sample_key sample_registration = Inr r"
    using sample_registration_built by blast
  have "hash_lib_ok (env_hash sample_env)" by (simp add: toy_hash_lib_ok sample_registration_fields)
  from registration_publishes [OF sample_env_ok this r sample_registration_wf(1)] obtain t :: tx_v4 and published parent_fee payouts reveal change where
    "tx_outputs t = published # parent_fee @ payouts @ reveal # change"
    "decode_output_script (env_hash sample_env) (env_hex sample_env) (out_script_pubkey published) = Inr (OutIdentityPrimary (sr_identity r))"
    "sr_identity r = registered_identity (env_hash sample_env) sample_registration (map (DestPubKeyHash \<circ> addr_hash) (rg_primary_addresses sample_registration))"
    by (elim exE conjE) (rule that)
  with r show ?thesis
    by (auto simp: sample_registration_fields registered_identity_def sample_reservation_def Let_def)
qed


text \<open>
  Nothing ties the referral chain given to the referrer committed to: the chain is paid
  whatever its first entry is.
\<close>

lemma chain_replaces_referrer:
  assumes "rg_parent_currency p = None" "nr_referral (rg_reservation p) = Some a" "rg_referral_chain p = b # chain"
  shows "referrers_of p = Inr (b # chain)"
  using assms by (simp add: referrers_of_def)

end
