(* ===== verification/Flow.thy ===== *)
theory Flow
  imports Funding
begin

text \<open>
  Composing the operations of \<open>verus-flows\<close>: running one and keeping its result, two issued
  together and unwrapped after, and how the rounds a driver needs for the parts add up.  A part
  is settled in \<open>n\<close> rounds whatever else the rounds have learned, so the counts compose.
\<close>

section \<open>Running an operation and keeping its result\<close>

text \<open>\<open>let a = operation;\<close> without the question mark: its result, failures included.\<close>

primrec attempt :: "'a operation \<Rightarrow> (flow_error + 'a \<Rightarrow> 'b operation) \<Rightarrow> 'b operation" where
  "attempt (Return v) k = k (Inr v)"
| "attempt (Throw e) k = k (Inl e)"
| "attempt (Post b f) k = Post b (\<lambda>reply. attempt (f reply) k)"

text \<open>\<open>operation?\<close>, and \<open>let (a, b) = (first, second); (a?, b?)\<close>.\<close>

definition bind_op :: "'a operation \<Rightarrow> ('a \<Rightarrow> 'b operation) \<Rightarrow> 'b operation" where
  "bind_op op k = attempt op (\<lambda>r. lift_flow r k)"

definition both :: "'a operation \<Rightarrow> 'b operation \<Rightarrow> ('a \<Rightarrow> 'b \<Rightarrow> 'c operation) \<Rightarrow> 'c operation" where
  "both op1 op2 k = attempt op1 (\<lambda>a. attempt op2 (\<lambda>b. lift_flow a (\<lambda>a. lift_flow b (\<lambda>b. k a b))))"

text \<open>\<open>reader.method()?\<close>\<close>

definition ask :: "'r question \<Rightarrow> ('r \<Rightarrow> 'a operation) \<Rightarrow> 'a operation" where
  "ask q k = issue q (\<lambda>r. unwrap r k)"

definition ensure :: "bool \<Rightarrow> flow_error \<Rightarrow> 'a operation \<Rightarrow> 'a operation" where
  "ensure ok e op = (if ok then op else Throw e)"

section \<open>The blocking run of a composition\<close>

lemma blocking_attempt [simp]: "blocking net (attempt op k) = blocking net (k (blocking net op))"
  by (induction op) simp_all

lemma questions_attempt [simp]:
  "questions net (attempt op k) = questions net op @ questions net (k (blocking net op))"
  by (induction op) simp_all

lemma blocking_lift: "blocking net (lift_flow r k) = rbind r (\<lambda>v. blocking net (k v))"
  by (cases r) simp_all

lemma blocking_bind [simp]: "blocking net (bind_op op k) = rbind (blocking net op) (\<lambda>v. blocking net (k v))"
  by (simp add: bind_op_def blocking_lift)

lemma blocking_both [simp]:
  "blocking net (both op1 op2 k) =
     rbind (blocking net op1) (\<lambda>a. rbind (blocking net op2) (\<lambda>b. blocking net (k a b)))"
  by (simp add: both_def blocking_lift)

lemma blocking_ask [simp]:
  "blocking net (ask q k) = rbind (map_err FlowRpc (told_reply net q)) (\<lambda>v. blocking net (k v))"
  by (cases "told_reply net q") (simp_all add: ask_def map_err_def)

lemma blocking_ensure [simp]:
  "blocking net (ensure ok e op) = rbind (refuse_if (\<not> ok) e) (\<lambda>_. blocking net op)"
  by (simp add: ensure_def refuse_if_def)

section \<open>Compositions may be driven\<close>

text \<open>After a miss inside it, an operation that may be driven leaves nothing but a failure.\<close>

lemma gives_up_attempt:
  assumes "gives_up net outcome op" "\<And>e. e = FlowRpc AnswerNeeded \<or> outcome = Inl e \<Longrightarrow> gives_up net outcome' (k (Inl e))"
  shows "gives_up net outcome' (attempt op k)"
  using assms(1) by (induction op) (auto intro: assms(2))

lemma gives_up_attempt_drivable:
  assumes "drivable net op" "\<And>e. e = FlowRpc AnswerNeeded \<or> blocking net op = Inl e \<Longrightarrow> gives_up net outcome (k (Inl e))"
    and "\<And>v. blocking net op = Inr v \<Longrightarrow> gives_up net outcome (k (Inr v))"
  shows "gives_up net outcome (attempt op k)"
  using assms
proof (induction op)
  case (Post b f)
  then show ?case
    by (auto intro!: gives_up_attempt [where outcome = "blocking net (f (Inr (net (as_str b))))"])
qed auto

lemma drivable_attempt:
  assumes "drivable net op" "drivable net (k (blocking net op))"
    and "\<And>e. e = FlowRpc AnswerNeeded \<or> blocking net op = Inl e \<Longrightarrow>
      gives_up net (blocking net (k (blocking net op))) (k (Inl e))"
  shows "drivable net (attempt op k)"
  using assms
proof (induction op)
  case (Post b f)
  then show ?case
    by (auto intro!: gives_up_attempt [where outcome = "blocking net (f (Inr (net (as_str b))))"])
qed auto

lemma drivable_bind:
  assumes "drivable net op" "\<And>v. blocking net op = Inr v \<Longrightarrow> drivable net (k v)"
  shows "drivable net (bind_op op k)"
  unfolding bind_op_def
  using assms drivable_blocking [OF assms(1)]
  by (intro drivable_attempt) (cases "blocking net op"; auto)+

lemma drivable_both:
  assumes "drivable net op1" "drivable net op2"
    and "\<And>a b. blocking net op1 = Inr a \<Longrightarrow> blocking net op2 = Inr b \<Longrightarrow> drivable net (k a b)"
  shows "drivable net (both op1 op2 k)"
proof -
  note ne = drivable_blocking [OF assms(1)] drivable_blocking [OF assms(2)]
  let ?k = "\<lambda>a b. lift_flow a (\<lambda>a. lift_flow b (\<lambda>b. k a b))"
  have "drivable net (attempt op2 (?k (blocking net op1)))"
    using assms(3) ne
    by (intro drivable_attempt [OF assms(2)]) (cases "blocking net op1"; cases "blocking net op2"; auto)+
  moreover have "gives_up net (blocking net (attempt op2 (?k (blocking net op1)))) (attempt op2 (?k (Inl e)))"
    if "e = FlowRpc AnswerNeeded \<or> blocking net op1 = Inl e" for e
    using that by (intro gives_up_attempt_drivable [OF assms(2)]) auto
  ultimately show ?thesis unfolding both_def by (intro drivable_attempt [OF assms(1)])
qed

lemma drivable_ask:
  assumes "question_ok q" "\<And>v. told_reply net q = Inr v \<Longrightarrow> drivable net (k v)"
  shows "drivable net (ask q k)"
  using assms told_ok [OF assms(1), of net]
  by (cases "told_reply net q") (auto simp: ask_def question_ok_def)

lemma drivable_ensure: "e \<noteq> FlowRpc AnswerNeeded \<Longrightarrow> (ok \<Longrightarrow> drivable net op) \<Longrightarrow> drivable net (ensure ok e op)"
  by (simp add: ensure_def)

lemma drivable_lift:
  "r \<noteq> Inl (FlowRpc AnswerNeeded) \<Longrightarrow> (\<And>v. r = Inr v \<Longrightarrow> drivable net (k v)) \<Longrightarrow> drivable net (lift_flow r k)"
  by (cases r) auto

section \<open>Counting rounds\<close>

text \<open>
  A chain of what is known, each round learning at least what the operation wanted; the
  operation is settled in \<open>n\<close> rounds if every such chain then knows all it asks.
\<close>

definition settles :: "(str \<Rightarrow> str) \<Rightarrow> nat \<Rightarrow> 'a operation \<Rightarrow> bool" where
  "settles net n op \<longleftrightarrow>
     (\<forall>K. (\<forall>i < n. K i \<union> set (wants net (K i) op) \<subseteq> K (Suc i)) \<longrightarrow> set (questions net op) \<subseteq> K n)"

primrec so_far :: "(str \<Rightarrow> str) \<Rightarrow> str set \<Rightarrow> 'a operation \<Rightarrow> flow_error + 'a" where
  "so_far net K (Return v) = Inr v"
| "so_far net K (Throw e) = Inl e"
| "so_far net K (Post b f) =
     so_far net K (f (if writes b then Inl WriteThroughCassette
        else if as_str b \<in> K then Inr (net (as_str b)) else Inl AnswerNeeded))"

lemma wants_attempt: "wants net K (attempt op k) = wants net K op @ wants net K (k (so_far net K op))"
  by (induction op) simp_all

lemma so_far_known: "drivable net op \<Longrightarrow> set (questions net op) \<subseteq> K \<Longrightarrow> so_far net K op = blocking net op"
  by (induction op) auto

lemma chain_mono:
  assumes "\<forall>i < n. K i \<union> W i \<subseteq> K (Suc i)" "i \<le> j" "j \<le> n"
  shows "K i \<subseteq> (K j :: 'a set)"
  using assms(2,3)
proof (induction j)
  case (Suc j)
  then show ?case using assms(1) by (cases "i = Suc j") (force simp: Suc_le_eq)+
qed simp

lemma settlesD:
  "settles net n op \<Longrightarrow> (\<And>i. i < n \<Longrightarrow> K i \<union> set (wants net (K i) op) \<subseteq> K (Suc i)) \<Longrightarrow> set (questions net op) \<subseteq> K n"
  unfolding settles_def by blast

lemma settles_mono:
  assumes "settles net n op" "n \<le> m"
  shows "settles net m op"
  unfolding settles_def
proof (intro allI impI)
  fix K
  assume K: "\<forall>i < m. K i \<union> set (wants net (K i) op) \<subseteq> K (Suc i)"
  then have "set (questions net op) \<subseteq> K n" using assms(2) by (intro settlesD [OF assms(1)]) auto
  then show "set (questions net op) \<subseteq> K m" using chain_mono [OF K assms(2)] by blast
qed

lemma settles_none [simp]: "settles net n (Return v)" "settles net n (Throw e)"
  by (simp_all add: settles_def)

text \<open>What follows an operation starts when that is settled, in its last round at the latest.\<close>

lemma settles_after:
  assumes first: "\<And>K. (\<forall>i < n. K i \<union> set (wants net (K i) op) \<subseteq> K (Suc i)) \<Longrightarrow> Q \<subseteq> K n"
    and same: "\<And>K. Q \<subseteq> K \<Longrightarrow> wants net K op' = wants net K op"
    and "settles net m op'" "set (questions net op) \<subseteq> Q \<union> set (questions net op')"
  shows "settles net (n + m) op"
  unfolding settles_def
proof (intro allI impI)
  fix K
  assume K: "\<forall>i < n + m. K i \<union> set (wants net (K i) op) \<subseteq> K (Suc i)"
  have n: "Q \<subseteq> K n" using K by (intro first) auto
  have up: "Q \<subseteq> K (n + i)" if "i \<le> m" for i
    using n chain_mono [OF K, of n "n + i"] that by auto
  have "set (questions net op') \<subseteq> K (n + m)"
  proof (rule settlesD [OF assms(3), of "\<lambda>i. K (n + i)", simplified])
    fix i
    assume "i < m"
    then show "K (n + i) \<subseteq> K (Suc (n + i)) \<and> set (wants net (K (n + i)) op') \<subseteq> K (Suc (n + i))"
      using K same [OF up [of i]] by auto
  qed
  then show "set (questions net op) \<subseteq> K (n + m)" using assms(4) up [of m] by auto
qed

lemma settles_lift: "(\<And>v. r = Inr v \<Longrightarrow> settles net n (k v)) \<Longrightarrow> settles net n (lift_flow r k)"
  by (cases r) simp_all

lemma settles_bind:
  assumes "drivable net op" "settles net n op" "\<And>v. blocking net op = Inr v \<Longrightarrow> settles net m (k v)"
  shows "settles net (n + m) (bind_op op k)"
  unfolding bind_op_def
proof (rule settles_after [where Q = "set (questions net op)" and op' = "lift_flow (blocking net op) k"])
  show "set (questions net op) \<subseteq> K n"
    if "\<forall>i < n. K i \<union> set (wants net (K i) (attempt op (\<lambda>r. lift_flow r k))) \<subseteq> K (Suc i)" for K
    using that by (intro settlesD [OF assms(2)]) (auto simp: wants_attempt)
  show "wants net K (lift_flow (blocking net op) k) = wants net K (attempt op (\<lambda>r. lift_flow r k))"
    if "set (questions net op) \<subseteq> K" for K
    using that by (simp add: wants_attempt wants_nothing [OF assms(1)] so_far_known [OF assms(1)])
qed (use assms(3) in \<open>auto intro: settles_lift\<close>)

lemma settles_both:
  assumes "drivable net op1" "drivable net op2" "settles net n op1" "settles net n op2"
    and "\<And>a b. blocking net op1 = Inr a \<Longrightarrow> blocking net op2 = Inr b \<Longrightarrow> settles net m (k a b)"
  shows "settles net (n + m) (both op1 op2 k)"
proof -
  let ?then = "\<lambda>a b. lift_flow a (\<lambda>a. lift_flow b (\<lambda>b. k a b))"
  let ?op' = "?then (blocking net op1) (blocking net op2)"
  have wants: "wants net K (both op1 op2 k) = wants net K op1 @ wants net K op2 @ wants net K (?then (so_far net K op1) (so_far net K op2))" for K
    by (simp add: both_def wants_attempt)
  show ?thesis
  proof (rule settles_after [where Q = "set (questions net op1) \<union> set (questions net op2)" and op' = ?op'])
    show "set (questions net op1) \<union> set (questions net op2) \<subseteq> K n"
      if K: "\<forall>i < n. K i \<union> set (wants net (K i) (both op1 op2 k)) \<subseteq> K (Suc i)" for K
    proof -
      have "set (questions net op1) \<subseteq> K n" using K by (intro settlesD [OF assms(3)]) (auto simp: wants)
      moreover have "set (questions net op2) \<subseteq> K n" using K by (intro settlesD [OF assms(4)]) (auto simp: wants)
      ultimately show ?thesis by blast
    qed
    show "wants net K ?op' = wants net K (both op1 op2 k)"
      if "set (questions net op1) \<union> set (questions net op2) \<subseteq> K" for K
      using that by (simp add: wants wants_nothing assms(1,2) so_far_known)
    show "settles net m ?op'" using assms(5) by (intro settles_lift)
    show "set (questions net (both op1 op2 k)) \<subseteq> set (questions net op1) \<union> set (questions net op2) \<union> set (questions net ?op')"
      by (auto simp: both_def)
  qed
qed

lemma settles_issue:
  assumes "question_ok q" "settles net n (k (told_reply net q))"
  shows "settles net (Suc n) (issue q k)"
proof -
  have "settles net (1 + n) (issue q k)"
  proof (rule settles_after [where Q = "{as_str (fst q)}" and op' = "k (told_reply net q)"])
    show "{as_str (fst q)} \<subseteq> K 1" if "\<forall>i < 1. K i \<union> set (wants net (K i) (issue q k)) \<subseteq> K (Suc i)" for K
      using that assms(1) by (auto simp: question_ok_def split: if_splits)
  qed (use assms in \<open>auto simp: question_ok_def\<close>)
  then show ?thesis by simp
qed

lemma settles_ask:
  assumes "question_ok q" "\<And>v. told_reply net q = Inr v \<Longrightarrow> settles net n (k v)"
  shows "settles net (Suc n) (ask q k)"
  unfolding ask_def using assms(2) by (intro settles_issue [OF assms(1)]) (cases "told_reply net q"; simp)

lemma settles_ensure: "(ok \<Longrightarrow> settles net n op) \<Longrightarrow> settles net n (ensure ok e op)"
  by (simp add: ensure_def)

lemma settles_drives:
  assumes "drivable net op" "settles net n op" "n < MAX_ROUNDS"
  shows "drives_as_blocking net op n"
proof (rule drives_as_blockingI [OF assms(1) _ assms(3)])
  have "set (questions net op) \<subseteq> known_after net op n" by (rule settlesD [OF assms(2)]) simp
  then show "wants net (known_after net op n) op = []" by (rule wants_nothing [OF assms(1)])
qed

lemmas drivable_intros = drivable_bind drivable_both drivable_ask drivable_ensure drivable_lift
lemmas settles_intros = settles_bind settles_both settles_ask settles_ensure settles_lift

section \<open>The lookups as parts\<close>

lemma spendable_drivable: "reader_ok R \<Longrightarrow> drivable net (spendable R a)"
  unfolding first_reads_eq by (rule spend_body_drivable)

lemma first_reads_settle:
  assumes "reader_ok R" "probes_only net R body"
  shows "settles net 2 (first_reads R a body)"
  unfolding settles_def
proof (intro allI impI)
  fix K
  assume K: "\<forall>i < (2 :: nat). K i \<union> set (wants net (K i) (first_reads R a body)) \<subseteq> K (Suc i)"
  let ?first = "{as_str (fst (ask_block_count R)), as_str (fst (ask_address_utxos R a)), as_str (fst (ask_address_mempool R a))}"
  let ?body = "body (told_reply net (ask_block_count R)) (told_reply net (ask_address_utxos R a)) (told_reply net (ask_address_mempool R a))"
  have q: "question_ok (ask_block_count R)" "question_ok (ask_address_utxos R a)" "question_ok (ask_address_mempool R a)"
    using assms(1) by (simp_all add: reader_ok_def)
  then have r: "\<not> writes (fst (ask_block_count R))" "\<not> writes (fst (ask_address_utxos R a))"
    "\<not> writes (fst (ask_address_mempool R a))"
    by (simp_all add: question_ok_def)
  have K01: "K 0 \<union> set (wants net (K 0) (first_reads R a body)) \<subseteq> K 1"
    "K 1 \<union> set (wants net (K 1) (first_reads R a body)) \<subseteq> K 2"
    using K by (auto simp: numeral_2_eq_2)
  have one: "?first \<subseteq> K 1"
  proof -
    have "?first \<subseteq> K 0 \<union> set (wants net (K 0) (first_reads R a body))" using r by (auto simp: first_reads_def)
    with K01(1) show ?thesis by blast
  qed
  then have "wants net (K 1) (first_reads R a body) = wants net (K 1) ?body" using r by (simp add: first_reads_def)
  then have "K 1 \<union> set (wants net (K 1) ?body) \<subseteq> K 2" using K01(2) by simp
  moreover have "set (questions net ?body) \<subseteq> K 1 \<union> set (wants net (K 1) ?body)"
    using assms(2) told_ok [OF q(3)] by (simp add: probes_only_def)
  ultimately show "set (questions net (first_reads R a body)) \<subseteq> K 2"
    using one by (auto simp: first_reads_def)
qed

lemma spendable_settles: "reader_ok R \<Longrightarrow> settles net 2 (spendable R a)"
  unfolding first_reads_eq by (rule first_reads_settle) (simp_all add: spend_probes_only)

lemma held_drivable: "reader_ok R \<Longrightarrow> drivable net (held_outputs R a keep)"
  unfolding first_reads_eq by (rule held_body_drivable)

lemma held_settles: "reader_ok R \<Longrightarrow> settles net 2 (held_outputs R a keep)"
  unfolding first_reads_eq by (rule first_reads_settle) (simp_all add: held_probes_only)


section \<open>Results that are not the sentinel\<close>

definition no_sentinel :: "flow_error + 'a \<Rightarrow> bool" where
  "no_sentinel r \<longleftrightarrow> r \<noteq> Inl (FlowRpc AnswerNeeded)"

named_theorems sentinel_intros \<open>pure parts never answer with the sentinel\<close>

lemma no_sentinel_intros [sentinel_intros]:
  "no_sentinel (Inr v)"
  "(\<And>e'. e \<noteq> FlowRpc e') \<Longrightarrow> no_sentinel (Inl e)"
  "no_sentinel r \<Longrightarrow> (\<And>v. r = Inr v \<Longrightarrow> no_sentinel (f v)) \<Longrightarrow> no_sentinel (rbind r f)"
  "(\<And>e'. e \<noteq> FlowRpc e') \<Longrightarrow> no_sentinel (ok_or x e)"
  "(\<And>e'. e \<noteq> FlowRpc e') \<Longrightarrow> no_sentinel (refuse_if c e)"
  "no_sentinel (map_err FlowTx r1)" "no_sentinel (map_err FlowKey r2)"
  "(\<And>e e'. g e \<noteq> FlowRpc e') \<Longrightarrow> no_sentinel (map_err g r3)"
  by (cases r; cases x; cases r1; cases r2; cases r3; simp add: no_sentinel_def map_err_def ok_or_def refuse_if_def)+

lemma drivable_pure: "no_sentinel r \<Longrightarrow> (\<And>v. r = Inr v \<Longrightarrow> drivable net (k v)) \<Longrightarrow> drivable net (lift_flow r k)"
  by (rule drivable_lift) (simp_all add: no_sentinel_def)

section \<open>Drivable and settled at once\<close>

definition answered_in :: "(str \<Rightarrow> str) \<Rightarrow> nat \<Rightarrow> 'a operation \<Rightarrow> bool" where
  "answered_in net n op \<longleftrightarrow> drivable net op \<and> settles net n op"

lemma answered_drives: "answered_in net n op \<Longrightarrow> n < MAX_ROUNDS \<Longrightarrow> drives_as_blocking net op n"
  unfolding answered_in_def by (blast intro: settles_drives)

lemma answered_mono: "answered_in net n op \<Longrightarrow> n \<le> m \<Longrightarrow> answered_in net m op"
  unfolding answered_in_def by (blast intro: settles_mono)

lemma answered_return [intro, simp]: "answered_in net n (Return v)"
  by (simp add: answered_in_def)

lemma answered_throw: "e \<noteq> FlowRpc AnswerNeeded \<Longrightarrow> answered_in net n (Throw e)"
  by (simp add: answered_in_def)

lemma answered_pure:
  "no_sentinel r \<Longrightarrow> (\<And>v. r = Inr v \<Longrightarrow> answered_in net n (k v)) \<Longrightarrow> answered_in net n (lift_flow r k)"
  unfolding answered_in_def by (blast intro: drivable_pure settles_lift)

lemma answered_ensure:
  "e \<noteq> FlowRpc AnswerNeeded \<Longrightarrow> (ok \<Longrightarrow> answered_in net n op) \<Longrightarrow> answered_in net n (ensure ok e op)"
  unfolding answered_in_def by (blast intro: drivable_ensure settles_ensure)

lemma answered_ask:
  assumes "question_ok q" "\<And>v. told_reply net q = Inr v \<Longrightarrow> answered_in net n (k v)"
  shows "answered_in net (Suc n) (ask q k)"
  using assms unfolding answered_in_def by (blast intro: drivable_ask settles_ask)

lemma answered_bind:
  assumes "answered_in net n op" "\<And>v. blocking net op = Inr v \<Longrightarrow> answered_in net m (k v)"
  shows "answered_in net (n + m) (bind_op op k)"
  using assms unfolding answered_in_def by (blast intro: drivable_bind settles_bind)

lemma answered_both:
  assumes "answered_in net n op1" "answered_in net n op2"
    and "\<And>a b. blocking net op1 = Inr a \<Longrightarrow> blocking net op2 = Inr b \<Longrightarrow> answered_in net m (k a b)"
  shows "answered_in net (n + m) (both op1 op2 k)"
  using assms unfolding answered_in_def by (blast intro: drivable_both settles_both)

lemma answered_spendable: "reader_ok R \<Longrightarrow> answered_in net 2 (spendable R a)"
  by (simp add: answered_in_def spendable_drivable spendable_settles)

lemma answered_held: "reader_ok R \<Longrightarrow> answered_in net 2 (held_outputs R a keep)"
  by (simp add: answered_in_def held_drivable held_settles)

end
