(* ===== verification/Lifecycle.thy ===== *)
theory Lifecycle
  imports Flow Identity_Ops
begin

text \<open>
  The flows that change a VerusID that exists (\<open>verus-flows/src/lifecycle.rs\<close>): the identity is
  read from the output that holds it, a described change is applied to it, and the builders
  of \<open>Identity_Ops\<close> are called.  A node's replies are whatever the network gives.
\<close>

section \<open>Reading JSON\<close>

definition as_array :: "json \<Rightarrow> json list option" where
  "as_array v = (case v of JArray items \<Rightarrow> Some items | _ \<Rightarrow> None)"

definition as_text :: "json \<Rightarrow> str option" where
  "as_text v = (case v of JString s \<Rightarrow> Some s | _ \<Rightarrow> None)"

text \<open>The text of a JSON number has no plus sign, so it is a \<open>u64\<close> exactly when it parses as one.\<close>

definition as_u64 :: "json \<Rightarrow> u64 option" where
  "as_u64 v = (case v of JNumber s \<Rightarrow> parse_u64 s | _ \<Rightarrow> None)"

definition get_nth :: "nat \<Rightarrow> 'a list \<Rightarrow> 'a option" where
  "get_nth i xs = (if i < length xs then Some (xs ! i) else None)"

section \<open>The reader\<close>

record identity_record =
  ir_fully_qualified_name :: str
  ir_identity_address :: str
  ir_status :: str
  ir_outpoint :: "txid \<times> u32"
  ir_block_height :: u32
  ir_identity :: json

definition record_is_revoked :: "identity_record \<Rightarrow> bool" where
  "record_is_revoked r \<longleftrightarrow> ir_status r = ''revoked''"

record chain_reader =
  cr_funding :: funding_reader
  ask_identity :: "str \<Rightarrow> identity_record question"

text \<open>\<open>Display\<close> of a \<open>KeyError\<close>, \<open>Debug\<close> of an output kind and of a string, and \<open>hex::decode\<close>.\<close>

record flow_text =
  show_key :: "key_error \<Rightarrow> str"
  show_kind :: "output_kind \<Rightarrow> str"
  show_str :: "str \<Rightarrow> str"
  read_hex :: hex_decode

definition em_dash :: str where "em_dash = [CHR 0xE2, CHR 0x80, CHR 0x94]"

section \<open>A described change\<close>

record identity_change =
  ic_primary_addresses :: "destination list option"
  ic_min_sigs :: "u32 option"
  ic_content_map :: "(bytes \<times> bytes) list option"
  ic_content_multimap :: "(bytes \<times> bytes list) list option"
  ic_private_addresses :: "bytes list option"
  ic_revocation_authority :: "bytes option"
  ic_recovery_authority :: "bytes option"
  ic_timelock :: "timelock option"
  ic_allow_authority_change :: bool

definition change_nothing :: identity_change where
  "change_nothing = \<lparr>ic_primary_addresses = None, ic_min_sigs = None, ic_content_map = None,
     ic_content_multimap = None, ic_private_addresses = None, ic_revocation_authority = None,
     ic_recovery_authority = None, ic_timelock = None, ic_allow_authority_change = False\<rparr>"

definition with_primary_addresses :: "identity_change \<Rightarrow> destination list \<Rightarrow> identity_change" where
  "with_primary_addresses c addresses = c\<lparr>ic_primary_addresses := Some addresses\<rparr>"

definition change_min_sigs :: "identity_change \<Rightarrow> u32 \<Rightarrow> identity_change" where
  "change_min_sigs c min_sigs = c\<lparr>ic_min_sigs := Some min_sigs\<rparr>"

definition with_content_map :: "identity_change \<Rightarrow> (bytes \<times> bytes) list \<Rightarrow> identity_change" where
  "with_content_map c entries = c\<lparr>ic_content_map := Some entries\<rparr>"

definition with_content_multimap :: "identity_change \<Rightarrow> (bytes \<times> bytes list) list \<Rightarrow> identity_change" where
  "with_content_multimap c entries = c\<lparr>ic_content_multimap := Some entries\<rparr>"

definition with_private_addresses :: "identity_change \<Rightarrow> bytes list \<Rightarrow> identity_change" where
  "with_private_addresses c addresses = c\<lparr>ic_private_addresses := Some addresses\<rparr>"

definition with_revocation_authority :: "identity_change \<Rightarrow> bytes \<Rightarrow> identity_change" where
  "with_revocation_authority c authority = c\<lparr>ic_revocation_authority := Some authority\<rparr>"

definition with_recovery_authority :: "identity_change \<Rightarrow> bytes \<Rightarrow> identity_change" where
  "with_recovery_authority c authority = c\<lparr>ic_recovery_authority := Some authority\<rparr>"

definition with_timelock :: "identity_change \<Rightarrow> timelock \<Rightarrow> identity_change" where
  "with_timelock c timelock = c\<lparr>ic_timelock := Some timelock\<rparr>"

definition change_allowing :: "identity_change \<Rightarrow> identity_change" where
  "change_allowing c = c\<lparr>ic_allow_authority_change := True\<rparr>"

definition change_is_empty :: "identity_change \<Rightarrow> bool" where
  "change_is_empty c \<longleftrightarrow> c = change_nothing \<or> c = change_allowing change_nothing"

definition unless_named :: "'a option \<Rightarrow> 'a \<Rightarrow> 'a" where
  "unless_named named current = (case named of Some v \<Rightarrow> v | None \<Rightarrow> current)"

definition apply_change :: "identity_change \<Rightarrow> identity \<Rightarrow> identity" where
  "apply_change c i =
     (let i = i\<lparr>id_primary_addresses := unless_named (ic_primary_addresses c) (id_primary_addresses i),
            id_min_sigs := unless_named (ic_min_sigs c) (id_min_sigs i),
            id_content_map := unless_named (ic_content_map c) (id_content_map i),
            id_content_multimap := unless_named (ic_content_multimap c) (id_content_multimap i),
            id_private_addresses := unless_named (ic_private_addresses c) (id_private_addresses i),
            id_revocation_authority := unless_named (ic_revocation_authority c) (id_revocation_authority i),
            id_recovery_authority := unless_named (ic_recovery_authority c) (id_recovery_authority i)\<rparr>
      in case ic_timelock c of Some timelock \<Rightarrow> apply_to timelock i | None \<Rightarrow> i)"

section \<open>The identity as the chain holds it\<close>

record held_on_chain =
  hc_identity :: identity
  hc_output :: utxo
  hc_record :: identity_record

definition i_address :: "hash_lib \<Rightarrow> bytes \<Rightarrow> str" where
  "i_address H h = address_to_string H (address_new Identity h)"

definition tx_output :: "json \<Rightarrow> u32 \<Rightarrow> json option" where
  "tx_output raw vout = Option.bind (as_array (json_index ''vout'' raw)) (get_nth (unat vout))"

definition identity_output_script :: "flow_text \<Rightarrow> json \<Rightarrow> u32 \<Rightarrow> flow_error + bytes" where
  "identity_output_script T raw vout =
     rbind (ok_or (Option.bind (tx_output raw vout)
              (\<lambda>out. as_text (json_index ''hex'' (json_index ''scriptPubKey'' out))))
        (Content (''the transaction holding the identity has no output '' @ dec_string (unat vout)))) (\<lambda>text.
     map_err (\<lambda>e. Content (''the identity output script is not hex: '' @ e)) (read_hex T text))"

definition not_named :: "hash_lib \<Rightarrow> str \<Rightarrow> identity \<Rightarrow> bytes \<Rightarrow> str \<Rightarrow> flow_error" where
  "not_named H identity object decoded_id expected =
     Content (''asked for '' @ identity @ '' but the output the node pointed at holds '' @ id_name object @
       '', whose id is '' @ i_address H decoded_id @ expected @ '' '' @ em_dash @
       '' refusing to work on an identity that was not named'')"

text \<open>What is made of the record and of the transaction it points at.\<close>

definition held_of ::
  "hash_lib \<Rightarrow> hex_encode \<Rightarrow> flow_text \<Rightarrow> str \<Rightarrow> identity_record \<Rightarrow> json \<Rightarrow> flow_error + held_on_chain" where
  "held_of H hx T identity record raw =
     (let (txid, vout) = ir_outpoint record in
      rbind (identity_output_script T raw vout) (\<lambda>script.
      rbind (map_err FlowTx (decode_output_script H hx script)) (\<lambda>kind.
      rbind (case kind of
          OutIdentityPrimary i \<Rightarrow> Inr i
        | other \<Rightarrow> Inl (Content (''the output holding '' @ identity @ '' is not an identity: '' @ show_kind T other)))
        (\<lambda>object.
      rbind (map_err (\<lambda>e. Content (identity @ '' reported the identity address '' @
          show_str T (ir_identity_address record) @ '', which does not parse: '' @ show_key T e))
          (address_from_str H (ir_identity_address record))) (\<lambda>expected.
      let decoded_id = identity_id H (id_name object) (Some (id_parent object)) in
      rbind (case address_from_str H identity of
          Inr named \<Rightarrow> refuse_if (addr_kind named = Identity \<and> addr_hash named \<noteq> decoded_id)
            (not_named H identity object decoded_id [])
        | Inl _ \<Rightarrow> Inr ()) (\<lambda>_.
      rbind (refuse_if (addr_hash expected \<noteq> decoded_id)
        (not_named H identity object decoded_id ('' rather than '' @ ir_identity_address record))) (\<lambda>_.
      rbind (ok_or (Option.bind (tx_output raw vout) (\<lambda>out. as_u64 (json_index ''valueSat'' out)))
        (Content (''the node's copy of the output holding '' @ identity @ '' reports no valueSat, so there '' @
           ''is nothing to check the zero-value rule against''))) (\<lambda>held.
      rbind (refuse_if (held \<noteq> 0)
        (Content (''the output holding '' @ identity @ '' carries '' @ dec_string (unat held) @
           '' satoshis; identity outputs hold none, so this is not the output it claims to be''))) (\<lambda>_.
      Inr \<lparr>hc_identity = object,
           hc_output = \<lparr>utxo_txid = txid, utxo_vout = vout, utxo_satoshis = amount_zero, utxo_script_pubkey = script\<rparr>,
           hc_record = record\<rparr>)))))))))"

definition current_held ::
  "hash_lib \<Rightarrow> hex_encode \<Rightarrow> flow_text \<Rightarrow> 'r chain_reader_scheme \<Rightarrow> str \<Rightarrow> held_on_chain operation" where
  "current_held H hx T R identity =
     ask (ask_identity R identity) (\<lambda>record.
     ask (ask_raw_transaction (cr_funding R) (to_display_hex (fst (ir_outpoint record)))) (\<lambda>raw.
     lift_flow (held_of H hx T identity record raw) Return))"


section \<open>The authority's keys\<close>

definition key_addresses :: "('sk, 'vk, 'sg) env \<Rightarrow> 'sk private_key \<Rightarrow> str" where
  "key_addresses E key = address_to_string (env_hash E) (private_address (env_hash E) (env_ec E) key)"

definition primary_texts :: "hash_lib \<Rightarrow> destination list \<Rightarrow> str list" where
  "primary_texts H ds =
     List.map_filter (\<lambda>d. case d of DestPubKeyHash h \<Rightarrow> Some (address_to_string H (address_new PubKeyHash h)) | _ \<Rightarrow> None) ds"

definition reported_primaries :: "json \<Rightarrow> str list" where
  "reported_primaries identity = (case as_array (json_index ''primaryaddresses'' identity) of
       Some found \<Rightarrow> List.map_filter as_text found | None \<Rightarrow> [])"

definition reported_min_sigs :: "json \<Rightarrow> u64" where
  "reported_min_sigs identity =
     (case as_u64 (json_index ''minimumsignatures'' identity) of Some n \<Rightarrow> n | None \<Rightarrow> 1)"

definition check_keys ::
  "('sk, 'vk, 'sg) env \<Rightarrow> str \<Rightarrow> str \<Rightarrow> 'sk private_key list \<Rightarrow> str list \<Rightarrow> u64 \<Rightarrow> flow_error + unit" where
  "check_keys E what address keys primaries min_sigs =
     rbind (refuse_if (primaries = [])
       (Content (''the '' @ what @ '' authority '' @ address @ '' reports no primary addresses, so there is nothing to '' @
          ''check the keys against''))) (\<lambda>_.
     let holding = length (filter (\<lambda>key. key_addresses E key \<in> set primaries) keys) in
     refuse_if (holding < unat min_sigs)
       (Content (''the '' @ what @ '' authority is '' @ address @ '', which needs '' @ dec_string (unat min_sigs) @ '' of '' @
          dec_string (length primaries) @ '' primary address(es); '' @ dec_string holding @ '' of the '' @
          dec_string (length keys) @ '' key(s) supplied qualify. A '' @ what @ '' signed by the '' @
          ''identity's own keys is rejected by consensus without naming why.'')))"

definition check_authority ::
  "('sk, 'vk, 'sg) env \<Rightarrow> 'r chain_reader_scheme \<Rightarrow> held_on_chain \<Rightarrow> bytes \<Rightarrow> 'sk private_key list \<Rightarrow> str
    \<Rightarrow> 'a operation \<Rightarrow> 'a operation" where
  "check_authority E R held authority keys what k =
     ensure (keys \<noteq> []) (Content (''a '' @ what @ '' needs at least one key from the '' @ what @ '' authority''))
     (let address = i_address (env_hash E) authority; i = hc_identity held in
      if authority = identity_id (env_hash E) (id_name i) (Some (id_parent i))
      then lift_flow (check_keys E what address keys (primary_texts (env_hash E) (id_primary_addresses i))
             (ucast (id_min_sigs i))) (\<lambda>_. k)
      else ask (ask_identity R address) (\<lambda>record.
             lift_flow (check_keys E what address keys (reported_primaries (ir_identity record))
               (reported_min_sigs (ir_identity record))) (\<lambda>_. k)))"

section \<open>The flows\<close>

record updated =
  ud_txid :: str
  ud_identity :: str
  ud_changes_authority :: bool
  ud_fee :: amount
  ud_change :: amount

record revoked =
  rk_txid :: str
  rk_identity :: str
  rk_authority :: str
  rk_fee :: amount
  rk_change :: amount

record recovered =
  rd_txid :: str
  rd_identity :: str
  rd_authority :: str
  rd_replaces_primary_addresses :: bool
  rd_fee :: amount
  rd_change :: amount

text \<open>The funding and the identity are read together, unwrapped after.\<close>

definition with_funds_and_identity ::
  "('sk, 'vk, 'sg) env \<Rightarrow> flow_text \<Rightarrow> 'r chain_reader_scheme \<Rightarrow> 'sk private_key \<Rightarrow> str
    \<Rightarrow> (funding \<Rightarrow> held_on_chain \<Rightarrow> 'a operation) \<Rightarrow> 'a operation" where
  "with_funds_and_identity E T R funding_key identity k =
     both (spendable (cr_funding R) (key_addresses E funding_key))
       (current_held (env_hash E) (env_hex E) T R identity) k"

definition parsed_change_address :: "('sk, 'vk, 'sg) env \<Rightarrow> 'sk private_key \<Rightarrow> flow_error + address" where
  "parsed_change_address E key = map_err FlowKey (address_from_str (env_hash E) (key_addresses E key))"

definition flow_expiry :: "funding \<Rightarrow> expiry" where
  "flow_expiry f = expiry_within (fd_tip f) DEFAULT_EXPIRY_BLOCKS"

definition updated_of :: "str \<Rightarrow> bool \<Rightarrow> signed_transaction \<Rightarrow> updated unsent" where
  "updated_of identity changes_authority st =
     \<lparr>us_hex = st_hex st, us_txid = st_txid st,
      us_outcome = \<lparr>ud_txid = st_txid st, ud_identity = identity, ud_changes_authority = changes_authority,
        ud_fee = st_fee st, ud_change = st_change st\<rparr>\<rparr>"

definition moves_authority :: "identity \<Rightarrow> identity \<Rightarrow> bool" where
  "moves_authority object current \<longleftrightarrow>
     id_primary_addresses object \<noteq> id_primary_addresses current \<or> id_min_sigs object \<noteq> id_min_sigs current \<or>
     id_revocation_authority object \<noteq> id_revocation_authority current \<or>
     id_recovery_authority object \<noteq> id_recovery_authority current"

definition update_request :: "utxo \<Rightarrow> identity \<Rightarrow> funding \<Rightarrow> address \<Rightarrow> bool \<Rightarrow> update_params" where
  "update_request held_output object funding change_address allow =
     (let params = at_tip (update_params_new held_output object (fd_utxos funding) change_address
            (flow_expiry funding)) (fd_tip funding) in
      if allow then allowing_authority_change params else params)"

definition prepare_identity_update ::
  "('sk, 'vk, 'sg) env \<Rightarrow> flow_text \<Rightarrow> 'r chain_reader_scheme \<Rightarrow> 'sk private_key \<Rightarrow> 'sk private_key list \<Rightarrow> str
    \<Rightarrow> identity_change \<Rightarrow> updated unsent operation" where
  "prepare_identity_update E T R funding_key identity_keys identity change =
     ensure (\<not> change_is_empty change)
       (Content (''the change to '' @ identity @ '' names no field, so the update would spend a fee to '' @
          ''republish the identity unchanged''))
     (ensure (identity_keys \<noteq> []) (Content ''an identity update needs at least one signing key'')
     (with_funds_and_identity E T R funding_key identity (\<lambda>funding held.
      ensure (\<not> is_revoked (hc_identity held))
        (Content (identity @ '' is revoked; recover it before updating it''))
      (let object = apply_change change (hc_identity held) in
       lift_flow (parsed_change_address E funding_key) (\<lambda>change_address.
       lift_flow (map_err FlowTx (build_identity_update E funding_key identity_keys
         (update_request (hc_output held) object funding change_address (ic_allow_authority_change change)))) (\<lambda>st.
       Return (updated_of identity (moves_authority object (hc_identity held)) st)))))))"

definition prepare_identity_revocation ::
  "('sk, 'vk, 'sg) env \<Rightarrow> flow_text \<Rightarrow> 'r chain_reader_scheme \<Rightarrow> 'sk private_key \<Rightarrow> 'sk private_key list \<Rightarrow> str
    \<Rightarrow> revoked unsent operation" where
  "prepare_identity_revocation E T R funding_key authority_keys identity =
     with_funds_and_identity E T R funding_key identity (\<lambda>funding held.
     ensure (\<not> is_revoked (hc_identity held)) (Content (identity @ '' is already revoked''))
     (let authority = id_revocation_authority (hc_identity held) in
      check_authority E R held authority authority_keys ''revocation''
      (lift_flow (parsed_change_address E funding_key) (\<lambda>change_address.
       lift_flow (map_err FlowTx (build_identity_revocation E funding_key authority_keys
         (revocation_params_new (hc_output held) (fd_utxos funding) change_address (flow_expiry funding)))) (\<lambda>st.
       Return \<lparr>us_hex = st_hex st, us_txid = st_txid st,
         us_outcome = \<lparr>rk_txid = st_txid st, rk_identity = identity,
           rk_authority = i_address (env_hash E) authority, rk_fee = st_fee st, rk_change = st_change st\<rparr>\<rparr>)))))"

definition prepare_identity_recovery ::
  "('sk, 'vk, 'sg) env \<Rightarrow> flow_text \<Rightarrow> 'r chain_reader_scheme \<Rightarrow> 'sk private_key \<Rightarrow> 'sk private_key list \<Rightarrow> str
    \<Rightarrow> identity_change \<Rightarrow> recovered unsent operation" where
  "prepare_identity_recovery E T R funding_key authority_keys identity restore =
     with_funds_and_identity E T R funding_key identity (\<lambda>funding held.
     ensure (is_revoked (hc_identity held))
       (Content (identity @ '' is not revoked, so there is nothing to recover''))
     (let authority = id_recovery_authority (hc_identity held) in
      check_authority E R held authority authority_keys ''recovery''
      (let current = hc_identity held;
           object = apply_change restore (current\<lparr>id_flags := id_flags current AND NOT FLAG_REVOKED\<rparr>) in
       lift_flow (parsed_change_address E funding_key) (\<lambda>change_address.
       lift_flow (map_err FlowTx (build_identity_recovery E funding_key authority_keys
         (recovery_params_new (hc_output held) object (fd_utxos funding) change_address (flow_expiry funding)))) (\<lambda>st.
       Return \<lparr>us_hex = st_hex st, us_txid = st_txid st,
         us_outcome = \<lparr>rd_txid = st_txid st, rd_identity = identity,
           rd_authority = i_address (env_hash E) authority,
           rd_replaces_primary_addresses = (id_primary_addresses object \<noteq> id_primary_addresses current),
           rd_fee = st_fee st, rd_change = st_change st\<rparr>\<rparr>)))))"

text \<open>The delay whose countdown an unlock starts.\<close>

definition delay_to_start :: "str \<Rightarrow> u32 \<Rightarrow> identity \<Rightarrow> flow_error + u32" where
  "delay_to_start identity tip i = (case timelock_of i of
       DelayAfterUnlock delay \<Rightarrow> Inr delay
     | UntilBlock height \<Rightarrow>
         Inl (Content (if tip < height
           then identity @ '' is already counting down to block '' @ dec_string (unat height) @ ''; there is nothing to start''
           else identity @ '' is not locked''))
     | NoTimelock \<Rightarrow> Inl (Content (identity @ '' is not locked'')))"

definition prepare_identity_unlock ::
  "('sk, 'vk, 'sg) env \<Rightarrow> flow_text \<Rightarrow> 'r chain_reader_scheme \<Rightarrow> 'sk private_key \<Rightarrow> 'sk private_key list \<Rightarrow> str
    \<Rightarrow> u32 \<Rightarrow> updated unsent operation" where
  "prepare_identity_unlock E T R funding_key identity_keys identity extra_blocks =
     ensure (identity_keys \<noteq> []) (Content ''starting an unlock needs at least one signing key'')
     (with_funds_and_identity E T R funding_key identity (\<lambda>funding held.
      ensure (\<not> is_revoked (hc_identity held))
        (Content (identity @ '' is revoked; recover it before unlocking it''))
      (lift_flow (delay_to_start identity (fd_tip funding) (hc_identity held)) (\<lambda>delay.
       let expiry = flow_expiry funding;
           unlock_at = saturating_add (saturating_add delay (to_height expiry)) extra_blocks;
           object = apply_to (UntilBlock unlock_at) (hc_identity held) in
       lift_flow (parsed_change_address E funding_key) (\<lambda>change_address.
       lift_flow (map_err FlowTx (build_identity_update E funding_key identity_keys
         (at_tip (update_params_new (hc_output held) object (fd_utxos funding) change_address expiry)
           (fd_tip funding)))) (\<lambda>st.
       Return (updated_of identity False st)))))))"

section \<open>The identity is the one named\<close>

text \<open>
  An identity read from the chain, whatever the node said: it is decoded from the script the
  output is st over, which is taken to hold no value, and its id is the one named, when the
  name is an i-address.
\<close>

definition held_soundly :: "hash_lib \<Rightarrow> hex_encode \<Rightarrow> str \<Rightarrow> held_on_chain \<Rightarrow> bool" where
  "held_soundly H hx identity held \<longleftrightarrow>
     decode_output_script H hx (utxo_script_pubkey (hc_output held)) = Inr (OutIdentityPrimary (hc_identity held)) \<and>
     utxo_satoshis (hc_output held) = amount_zero \<and>
     (utxo_txid (hc_output held), utxo_vout (hc_output held)) = ir_outpoint (hc_record held) \<and>
     (\<forall>named. address_from_str H identity = Inr named \<longrightarrow> addr_kind named = Identity \<longrightarrow>
        identity_id H (id_name (hc_identity held)) (Some (id_parent (hc_identity held))) = addr_hash named)"

lemma held_of_sound:
  assumes "held_of H hx T identity record raw = Inr held"
  shows "held_soundly H hx identity held"
proof -
  from assms obtain script kind i where
    d: "decode_output_script H hx script = Inr kind"
    and i: "(case kind of OutIdentityPrimary i \<Rightarrow> Inr i
        | other \<Rightarrow> Inl (Content (''the output holding '' @ identity @ '' is not an identity: '' @ show_kind T other))) = Inr i"
    and n: "(case address_from_str H identity of
          Inr named \<Rightarrow> refuse_if (addr_kind named = Identity \<and> addr_hash named \<noteq> identity_id H (id_name i) (Some (id_parent i)))
            (not_named H identity i (identity_id H (id_name i) (Some (id_parent i))) [])
        | Inl _ \<Rightarrow> Inr ()) = Inr ()"
    and h: "\<lparr>hc_identity = i, hc_output = \<lparr>utxo_txid = fst (ir_outpoint record), utxo_vout = snd (ir_outpoint record),
        utxo_satoshis = amount_zero, utxo_script_pubkey = script\<rparr>, hc_record = record\<rparr> = held"
    unfolding held_of_def Let_def case_prod_beta rbind_Inr_iff map_err_Inr_iff
    by (elim exE conjE) (rule that; (assumption | simp))
  have k: "kind = OutIdentityPrimary i" using i by (cases kind) auto
  from n have "identity_id H (id_name i) (Some (id_parent i)) = addr_hash named"
    if "address_from_str H identity = Inr named" "addr_kind named = Identity" for named
    using that by (auto simp: refuse_if_Inr_iff)
  with d k h [symmetric] show ?thesis by (simp add: held_soundly_def)
qed

lemma current_held_sound:
  "blocking net (current_held H hx T R identity) = Inr held \<Longrightarrow> held_soundly H hx identity held"
  by (auto simp: current_held_def rbind_Inr_iff blocking_lift intro: held_of_sound)


definition text_ok :: "flow_text \<Rightarrow> bool" where
  "text_ok T \<longleftrightarrow> (\<forall>s bs. read_hex T s = Inr bs \<longrightarrow> length bs < usize_bound)"

lemma held_of_wf: "held_of H hx T identity record raw = Inr held \<Longrightarrow> text_ok T \<Longrightarrow>
    length (utxo_script_pubkey (hc_output held)) < usize_bound"
  unfolding held_of_def Let_def case_prod_beta rbind_Inr_iff map_err_Inr_iff identity_output_script_def text_ok_def
  by (elim exE conjE) fastforce

lemma current_held_wf:
  assumes "blocking net (current_held H hx T R identity) = Inr held" "text_ok T"
  shows "wf_identity (hc_identity held)"
proof -
  have sound: "held_soundly H hx identity held" using assms(1) by (rule current_held_sound)
  have "length (utxo_script_pubkey (hc_output held)) < usize_bound"
    using assms by (auto simp: current_held_def rbind_Inr_iff blocking_lift dest!: held_of_wf)
  with sound show ?thesis
    using decoded_wf [of H hx "utxo_script_pubkey (hc_output held)" "OutIdentityPrimary (hc_identity held)"]
    by (simp add: held_soundly_def)
qed

text \<open>What a change may name, by the types of its fields.\<close>

definition wf_change :: "identity_change \<Rightarrow> bool" where
  "wf_change c \<longleftrightarrow>
     (\<forall>ds. ic_primary_addresses c = Some ds \<longrightarrow> list_all wf_destination ds) \<and>
     (\<forall>es. ic_content_map c = Some es \<longrightarrow> list_all (\<lambda>e. length (fst e) = 20 \<and> length (snd e) = 32) es) \<and>
     (\<forall>es. ic_content_multimap c = Some es \<longrightarrow> list_all (\<lambda>e. length (fst e) = 20) es) \<and>
     (\<forall>as. ic_private_addresses c = Some as \<longrightarrow> list_all (\<lambda>a. length a = 43) as) \<and>
     (\<forall>a. ic_revocation_authority c = Some a \<longrightarrow> length a = 20) \<and>
     (\<forall>a. ic_recovery_authority c = Some a \<longrightarrow> length a = 20)"

lemma apply_to_fields [simp]:
  "id_version (apply_to t i) = id_version i" "id_primary_addresses (apply_to t i) = id_primary_addresses i"
  "id_min_sigs (apply_to t i) = id_min_sigs i" "id_parent (apply_to t i) = id_parent i" "id_name (apply_to t i) = id_name i"
  "id_content_multimap (apply_to t i) = id_content_multimap i" "id_content_map (apply_to t i) = id_content_map i"
  "id_revocation_authority (apply_to t i) = id_revocation_authority i"
  "id_recovery_authority (apply_to t i) = id_recovery_authority i"
  "id_private_addresses (apply_to t i) = id_private_addresses i" "id_system_id (apply_to t i) = id_system_id i"
  by (cases t; simp)+

lemma change_fields:
  "id_version (apply_change c i) = id_version i" "id_parent (apply_change c i) = id_parent i"
  "id_name (apply_change c i) = id_name i" "id_system_id (apply_change c i) = id_system_id i"
  "id_primary_addresses (apply_change c i) = unless_named (ic_primary_addresses c) (id_primary_addresses i)"
  "id_min_sigs (apply_change c i) = unless_named (ic_min_sigs c) (id_min_sigs i)"
  "id_content_map (apply_change c i) = unless_named (ic_content_map c) (id_content_map i)"
  "id_content_multimap (apply_change c i) = unless_named (ic_content_multimap c) (id_content_multimap i)"
  "id_private_addresses (apply_change c i) = unless_named (ic_private_addresses c) (id_private_addresses i)"
  "id_revocation_authority (apply_change c i) = unless_named (ic_revocation_authority c) (id_revocation_authority i)"
  "id_recovery_authority (apply_change c i) = unless_named (ic_recovery_authority c) (id_recovery_authority i)"
  by (cases "ic_timelock c"; simp add: apply_change_def Let_def)+

lemma apply_to_revoked: "is_revoked (apply_to t i) = is_revoked i"
proof -
  have "(f AND NOT FLAG_LOCKED) AND FLAG_REVOKED = f AND FLAG_REVOKED" "(f OR FLAG_LOCKED) AND FLAG_REVOKED = f AND FLAG_REVOKED" for f
    by (rule bit_word_eqI, auto simp: bit_simps FLAG_LOCKED_def FLAG_REVOKED_def)+
  then show ?thesis by (cases t) (simp_all add: is_revoked_def)
qed

lemma change_revoked: "is_revoked (apply_change c i) = is_revoked i"
  by (cases "ic_timelock c"; simp add: apply_change_def Let_def apply_to_revoked; simp add: is_revoked_def)

lemma list_all_unless_named:
  "\<forall>w. x = Some w \<longrightarrow> list_all P w \<Longrightarrow> list_all P v \<Longrightarrow> list_all P (unless_named x v)"
  by (cases x) (simp_all add: unless_named_def)

lemma apply_change_wf:
  assumes "wf_identity i" "wf_change c" "identity_to_bytes (apply_change c i) = Inr bs"
  shows "wf_identity (as_written (apply_change c i))"
proof -
  let ?list = "\<lambda>P x v. list_all P (unless_named x v)"
  have "?list wf_destination (ic_primary_addresses c) (id_primary_addresses i)"
    "?list (\<lambda>e. length (fst e) = 20 \<and> length (snd e) = 32) (ic_content_map c) (id_content_map i)"
    "?list (\<lambda>e. length (fst e) = 20) (ic_content_multimap c) (id_content_multimap i)"
    "?list (\<lambda>a. length a = 43) (ic_private_addresses c) (id_private_addresses i)"
    using assms(1,2) by - (rule list_all_unless_named; simp add: wf_identity_def wf_change_def)+
  moreover have "length (unless_named (ic_revocation_authority c) (id_revocation_authority i)) = 20"
    "length (unless_named (ic_recovery_authority c) (id_recovery_authority i)) = 20"
    using assms(1,2) by (simp_all add: unless_named_def wf_identity_def wf_change_def split: option.splits)
  moreover have "unat (id_version i) < 3 \<longrightarrow> unless_named (ic_content_multimap c) (id_content_multimap i) = []"
    using assms(3) by (simp add: identity_to_bytes_Inr change_fields)
  ultimately show ?thesis using assms(1) by (simp add: wf_identity_def as_written_def change_fields)
qed

lemma delayed_wf:
  assumes "wf_identity i"
  shows "wf_identity (as_written (apply_to t i))"
  using assms by (auto simp: wf_identity_def as_written_def)

section \<open>Updates\<close>

text \<open>Every field a change does not name is the one on chain; the name, the parent and the system always are.\<close>

definition carries_over :: "identity_change \<Rightarrow> identity \<Rightarrow> identity \<Rightarrow> bool" where
  "carries_over c before after \<longleftrightarrow>
     id_version after = id_version before \<and> id_name after = id_name before \<and> id_parent after = id_parent before \<and>
     id_system_id after = id_system_id before \<and> is_revoked after = is_revoked before \<and>
     (ic_primary_addresses c = None \<longrightarrow> id_primary_addresses after = id_primary_addresses before) \<and>
     (ic_min_sigs c = None \<longrightarrow> id_min_sigs after = id_min_sigs before) \<and>
     (ic_content_map c = None \<longrightarrow> id_content_map after = id_content_map before) \<and>
     (ic_content_multimap c = None \<longrightarrow> id_content_multimap after = id_content_multimap before) \<and>
     (ic_private_addresses c = None \<longrightarrow> id_private_addresses after = id_private_addresses before) \<and>
     (ic_revocation_authority c = None \<longrightarrow> id_revocation_authority after = id_revocation_authority before) \<and>
     (ic_recovery_authority c = None \<longrightarrow> id_recovery_authority after = id_recovery_authority before) \<and>
     (case ic_timelock c of
        None \<Rightarrow> id_flags after = id_flags before \<and> id_unlock_after after = id_unlock_after before
      | Some t \<Rightarrow> timelock_of after = (if t = UntilBlock 0 then NoTimelock else t))"

lemma apply_to_timelock: "timelock_of (apply_to t i) = (if t = UntilBlock 0 then NoTimelock else t)"
proof -
  have a: "(f AND NOT FLAG_LOCKED) AND FLAG_LOCKED = 0" "(f OR FLAG_LOCKED) AND FLAG_LOCKED = FLAG_LOCKED" for f
    by (rule bit_word_eqI, auto simp: bit_simps)+
  have b: "FLAG_LOCKED \<noteq> 0" by (simp add: FLAG_LOCKED_def)
  show ?thesis by (cases t) (simp_all add: timelock_of_def a b)
qed

lemma apply_change_carries: "carries_over c i (apply_change c i)"
proof -
  have "case ic_timelock c of
        None \<Rightarrow> id_flags (apply_change c i) = id_flags i \<and> id_unlock_after (apply_change c i) = id_unlock_after i
      | Some t \<Rightarrow> timelock_of (apply_change c i) = (if t = UntilBlock 0 then NoTimelock else t)"
    by (cases "ic_timelock c") (simp_all add: apply_change_def Let_def apply_to_timelock)
  then show ?thesis by (simp add: carries_over_def change_fields change_revoked unless_named_def)
qed

lemma update_request_fields [simp]:
  "up_identity_output (update_request out i f a allow) = out" "up_identity (update_request out i f a allow) = i"
  "up_additional_outputs (update_request out i f a allow) = []" "up_utxos (update_request out i f a allow) = fd_utxos f"
  "up_expiry (update_request out i f a allow) = flow_expiry f"
  "up_allow_authority_change (update_request out i f a allow) = allow"
  by (simp_all add: update_request_def at_tip_def update_params_new_def allowing_authority_change_def Let_def)

lemma flow_expiry_height: "to_height (flow_expiry f) = saturating_add (fd_tip f) DEFAULT_EXPIRY_BLOCKS"
  by (simp add: flow_expiry_def expiry_within_def)

lemma funds_and_identity_blocking:
  "blocking net (with_funds_and_identity E T R key identity k) =
     rbind (blocking net (spendable (cr_funding R) (key_addresses E key))) (\<lambda>funding.
     rbind (blocking net (current_held (env_hash E) (env_hex E) T R identity)) (\<lambda>held. blocking net (k funding held)))"
  by (simp add: with_funds_and_identity_def)



section \<open>Revocation and recovery\<close>

text \<open>
  The keys the flow checks: against the identity's own object when it is its own authority,
  otherwise against what the node reports of the authority.
\<close>

definition authority_keys_ok ::
  "('sk, 'vk, 'sg) env \<Rightarrow> (str \<Rightarrow> str) \<Rightarrow> 'r chain_reader_scheme \<Rightarrow> identity \<Rightarrow> bytes \<Rightarrow> 'sk private_key list \<Rightarrow> bool" where
  "authority_keys_ok E net R i authority keys \<longleftrightarrow> keys \<noteq> [] \<and>
     (\<exists>primaries min_sigs. primaries \<noteq> [] \<and>
        unat min_sigs \<le> length (filter (\<lambda>key. key_addresses E key \<in> set primaries) keys) \<and>
        (if authority = identity_id (env_hash E) (id_name i) (Some (id_parent i))
         then primaries = primary_texts (env_hash E) (id_primary_addresses i) \<and> min_sigs = ucast (id_min_sigs i)
         else \<exists>record. told_reply net (ask_identity R (i_address (env_hash E) authority)) = Inr record \<and>
           primaries = reported_primaries (ir_identity record) \<and> min_sigs = reported_min_sigs (ir_identity record)))"

lemma check_keys_Inr:
  "check_keys E what address keys primaries min_sigs = Inr () \<longleftrightarrow>
     primaries \<noteq> [] \<and> unat min_sigs \<le> length (filter (\<lambda>key. key_addresses E key \<in> set primaries) keys)"
  by (auto simp: check_keys_def rbind_Inr_iff refuse_if_Inr_iff Let_def)

lemma check_authority_blocking:
  "blocking net (check_authority E R held authority keys what k) = Inr v \<longleftrightarrow>
     authority_keys_ok E net R (hc_identity held) authority keys \<and> blocking net k = Inr v"
  by (auto simp: check_authority_def authority_keys_ok_def rbind_Inr_iff refuse_if_Inr_iff blocking_lift
      map_err_Inr_iff check_keys_Inr Let_def)

lemma revoked_flag_cleared: "\<not> is_revoked (i\<lparr>id_flags := id_flags i AND NOT FLAG_REVOKED\<rparr>)"
proof -
  have "(id_flags i AND NOT FLAG_REVOKED) AND FLAG_REVOKED = 0" by (rule bit_word_eqI) (auto simp: bit_simps)
  then show ?thesis by (simp add: is_revoked_def)
qed

text \<open>What the two flows establish, each on its own.\<close>

lemma revocation_as_asked:
  assumes "ec_lib_ok (env_ec E)" "hash_lib_ok (env_hash E)" "text_ok T"
    and "blocking net (prepare_identity_revocation E T R funding_key keys identity) = Inr u"
  shows "\<exists>held funding st.
         blocking net (current_held (env_hash E) (env_hex E) T R identity) = Inr held \<and>
         blocking net (spendable (cr_funding R) (key_addresses E funding_key)) = Inr funding \<and>
         held_soundly (env_hash E) (env_hex E) identity held \<and> \<not> is_revoked (hc_identity held) \<and>
         authority_keys_ok E net R (hc_identity held) (id_revocation_authority (hc_identity held)) keys \<and>
         us_hex u = st_hex st \<and> us_txid u = st_txid st \<and>
         (let after = hc_identity held\<lparr>id_flags := id_flags (hc_identity held) OR FLAG_REVOKED\<rparr> in
          is_revoked after \<and> as_written after = after \<and>
          publishes E keys (hc_output held) (fd_utxos funding) [] after
            (saturating_add (fd_tip funding) DEFAULT_EXPIRY_BLOCKS) st)"
proof -
  from assms(4) obtain funding held address st where
    funding: "blocking net (spendable (cr_funding R) (key_addresses E funding_key)) = Inr funding"
    and held: "blocking net (current_held (env_hash E) (env_hex E) T R identity) = Inr held" "\<not> is_revoked (hc_identity held)"
    and ok: "authority_keys_ok E net R (hc_identity held) (id_revocation_authority (hc_identity held)) keys"
    and u: "us_hex u = st_hex st" "us_txid u = st_txid st"
    and st: "build_identity_revocation E funding_key keys
      (revocation_params_new (hc_output held) (fd_utxos funding) address (flow_expiry funding)) = Inr st"
      (is "build_identity_revocation E _ _ ?p = _")
    by (auto simp: prepare_identity_revocation_def funds_and_identity_blocking rbind_Inr_iff refuse_if_Inr_iff
        map_err_Inr_iff blocking_lift check_authority_blocking Let_def)
  have sound: "held_soundly (env_hash E) (env_hex E) identity held" using held(1) by (rule current_held_sound)
  have p: "rv_identity_output ?p = hc_output held" "rv_utxos ?p = fd_utxos funding" "rv_expiry ?p = flow_expiry funding"
    by (simp_all add: revocation_params_new_def)
  have "length (utxo_script_pubkey (rv_identity_output ?p)) < usize_bound"
    using held(1) assms(3) by (auto simp: p current_held_def rbind_Inr_iff blocking_lift dest!: held_of_wf)
  from revocation_only_revokes [OF assms(1,2) st this] sound
  have "publishes E keys (hc_output held) (fd_utxos funding) []
      (hc_identity held\<lparr>id_flags := id_flags (hc_identity held) OR FLAG_REVOKED\<rparr>)
      (saturating_add (fd_tip funding) DEFAULT_EXPIRY_BLOCKS) st"
    "is_revoked (hc_identity held\<lparr>id_flags := id_flags (hc_identity held) OR FLAG_REVOKED\<rparr>)"
    by (auto simp: p held_soundly_def flow_expiry_height)
  with funding held sound ok u current_held_wf [OF held(1) assms(3)] show ?thesis
    by (intro exI [of _ held] exI [of _ funding] exI [of _ st]) simp
qed

lemma recovery_as_asked:
  assumes "ec_lib_ok (env_ec E)" "hash_lib_ok (env_hash E)" "text_ok T" "wf_change restore"
    and "blocking net (prepare_identity_recovery E T R funding_key keys identity restore) = Inr u"
  shows "\<exists>held funding st.
         blocking net (current_held (env_hash E) (env_hex E) T R identity) = Inr held \<and>
         blocking net (spendable (cr_funding R) (key_addresses E funding_key)) = Inr funding \<and>
         held_soundly (env_hash E) (env_hex E) identity held \<and> is_revoked (hc_identity held) \<and>
         authority_keys_ok E net R (hc_identity held) (id_recovery_authority (hc_identity held)) keys \<and>
         us_hex u = st_hex st \<and> us_txid u = st_txid st \<and>
         (let before = hc_identity held\<lparr>id_flags := id_flags (hc_identity held) AND NOT FLAG_REVOKED\<rparr>;
              after = apply_change restore before in
          \<not> is_revoked after \<and> carries_over restore before after \<and>
          publishes E keys (hc_output held) (fd_utxos funding) [] after
            (saturating_add (fd_tip funding) DEFAULT_EXPIRY_BLOCKS) st \<and>
          rd_replaces_primary_addresses (us_outcome u) =
            (id_primary_addresses after \<noteq> id_primary_addresses (hc_identity held)))"
proof -
  from assms(5) obtain funding held address st where
    funding: "blocking net (spendable (cr_funding R) (key_addresses E funding_key)) = Inr funding"
    and held: "blocking net (current_held (env_hash E) (env_hex E) T R identity) = Inr held" "is_revoked (hc_identity held)"
    and ok: "authority_keys_ok E net R (hc_identity held) (id_recovery_authority (hc_identity held)) keys"
    and u: "us_hex u = st_hex st" "us_txid u = st_txid st"
      "rd_replaces_primary_addresses (us_outcome u) =
        (id_primary_addresses (apply_change restore (hc_identity held\<lparr>id_flags := id_flags (hc_identity held) AND NOT FLAG_REVOKED\<rparr>))
          \<noteq> id_primary_addresses (hc_identity held))"
    and st: "build_identity_recovery E funding_key keys
      (recovery_params_new (hc_output held) (apply_change restore (hc_identity held\<lparr>id_flags := id_flags (hc_identity held) AND NOT FLAG_REVOKED\<rparr>))
         (fd_utxos funding) address (flow_expiry funding)) = Inr st"
      (is "build_identity_recovery E _ _ ?p = _")
    by (auto simp: prepare_identity_recovery_def funds_and_identity_blocking rbind_Inr_iff refuse_if_Inr_iff
        map_err_Inr_iff blocking_lift check_authority_blocking Let_def)
  let ?before = "hc_identity held\<lparr>id_flags := id_flags (hc_identity held) AND NOT FLAG_REVOKED\<rparr>"
  have p: "rc_identity_output ?p = hc_output held" "rc_identity ?p = apply_change restore ?before"
    "rc_utxos ?p = fd_utxos funding" "rc_expiry ?p = flow_expiry funding"
    by (simp_all add: recovery_params_new_def)
  have "wf_identity ?before" using current_held_wf [OF held(1) assms(3)] by simp
  then have "wf_identity (as_written (rc_identity ?p))" if "identity_to_bytes (rc_identity ?p) = Inr bs" for bs
    using apply_change_wf [OF _ assms(4)] that by (simp add: p)
  from recovery_restores [OF assms(1,2) st this]
  have "publishes E keys (hc_output held) (fd_utxos funding) [] (apply_change restore ?before)
      (saturating_add (fd_tip funding) DEFAULT_EXPIRY_BLOCKS) st" by (auto simp: p flow_expiry_height)
  with funding held current_held_sound [OF held(1)] ok u show ?thesis
    unfolding Let_def using apply_change_carries change_revoked revoked_flag_cleared by blast
qed


section \<open>Unlocking\<close>

lemma until_block_unflagged: "\<not> flagged (apply_to (UntilBlock h) i)"
proof -
  have "(id_flags i AND NOT FLAG_LOCKED) AND FLAG_LOCKED = 0" by (rule bit_word_eqI) (auto simp: bit_simps)
  then show ?thesis by (simp add: flagged_def)
qed

lemma delayed_flagged: "timelock_of i = DelayAfterUnlock delay \<longleftrightarrow> flagged i \<and> id_unlock_after i = delay"
  by (auto simp: timelock_of_def flagged_def)

text \<open>What the builder makes of an unlock height for a delayed identity.\<close>

lemma unlock_check:
  assumes "timelock_of i = DelayAfterUnlock delay" "\<not> is_revoked i"
  shows "check_timelock i (apply_to (UntilBlock h) i) expiry (Some tip) = Inr () \<longleftrightarrow>
    tip \<le> h \<and> (saturating_add delay expiry \<le> h \<or>
      MAX_UNLOCK_DELAY < delay \<and> h = saturating_add MAX_UNLOCK_DELAY expiry)"
proof -
  let ?j = "apply_to (UntilBlock h) i"
  have f: "\<not> flagged ?j" "id_unlock_after ?j = h" "\<not> is_revoked ?j" "flagged i" "id_unlock_after i = delay"
    using assms until_block_unflagged [of h i] apply_to_revoked [of "UntilBlock h" i] by (simp_all add: delayed_flagged)
  then have l: "locked_now (Some tip) i" "locked_now (Some tip) ?j = (tip \<le> h)"
    using assms(2) by (simp_all add: locked_now_def)
  show ?thesis
    unfolding check_timelock_def Let_def f(2,5) l using f(1,3,4) l(1)
    by (simp add: refuse_if_Inr_iff) (metis not_less)
qed

lemma saturating_le: "a \<le> saturating_add a b" "b \<le> saturating_add a b" for a b :: u32
  using unsigned_less [of a, where 'a = nat] unsigned_less [of b, where 'a = nat]
  by (simp_all add: word_le_nat_alt unat_saturating_add)

lemma saturating_zero: "saturating_add a 0 = a" for a :: u32
  using unsigned_less [of a, where 'a = nat] by (simp add: word_unat_eq_iff unat_saturating_add)

text \<open>
  C29: starting a countdown asks for the earliest height the lock allows.  The identity is the
  one read from the node, \<open>held\<close>, and the tip is that of the funding read; a
  prepared unlock is of an identity locked with a delay.  The transaction expires twenty blocks
  past the tip, spends the identity's output first, signed by all the keys given, then only
  coins of that funding, and publishes the identity with the flag cleared and an unlock height,
  the delay counted from that expiry plus the blocks asked for, cut at the last height there is,
  and nothing else changed.  The height read back is that one from version 2 on; version 1 has
  no place for it and publishes none.  The builder's timelock check passes it, and with no extra
  blocks passes no lower height, except the capped one for a delay above the cap.
\<close>

theorem unlock_starts_the_countdown:
  fixes E :: "('sk, 'vk, 'sg) env"
  assumes "ec_lib_ok (env_ec E)" "hash_lib_ok (env_hash E)" "text_ok T"
    and "blocking net (prepare_identity_unlock E T R funding_key keys identity extra) = Inr u"
  shows "\<exists>held funding st delay expiry h.
      blocking net (current_held (env_hash E) (env_hex E) T R identity) = Inr held \<and>
      blocking net (spendable (cr_funding R) (key_addresses E funding_key)) = Inr funding \<and>
      held_soundly (env_hash E) (env_hex E) identity held \<and>
      \<not> is_revoked (hc_identity held) \<and> timelock_of (hc_identity held) = DelayAfterUnlock delay \<and>
      expiry = saturating_add (fd_tip funding) DEFAULT_EXPIRY_BLOCKS \<and>
      unat h = min (unat delay + unat expiry + unat extra) (2 ^ 32 - 1) \<and>
      us_hex u = st_hex st \<and> us_txid u = st_txid st \<and> \<not> ud_changes_authority (us_outcome u) \<and>
      publishes E keys (hc_output held) (fd_utxos funding) []
        (hc_identity held\<lparr>id_flags := id_flags (hc_identity held) AND NOT FLAG_LOCKED, id_unlock_after := h\<rparr>) expiry st \<and>
      check_timelock (hc_identity held) (apply_to (UntilBlock h) (hc_identity held)) expiry (Some (fd_tip funding)) = Inr () \<and>
      (extra = 0 \<longrightarrow> (\<forall>h' < h.
         check_timelock (hc_identity held) (apply_to (UntilBlock h') (hc_identity held)) expiry (Some (fd_tip funding)) = Inr () \<longrightarrow>
         MAX_UNLOCK_DELAY < delay \<and> h' = saturating_add MAX_UNLOCK_DELAY expiry))"
proof -
  from assms(4) obtain funding held address st delay where
    funding: "blocking net (spendable (cr_funding R) (key_addresses E funding_key)) = Inr funding"
    and held: "blocking net (current_held (env_hash E) (env_hex E) T R identity) = Inr held" "\<not> is_revoked (hc_identity held)"
    and start: "delay_to_start identity (fd_tip funding) (hc_identity held) = Inr delay"
    and u: "u = updated_of identity False st"
    and st: "build_identity_update E funding_key keys (at_tip (update_params_new (hc_output held)
        (apply_to (UntilBlock (saturating_add (saturating_add delay (to_height (flow_expiry funding))) extra)) (hc_identity held))
        (fd_utxos funding) address (flow_expiry funding)) (fd_tip funding)) = Inr st"
      (is "build_identity_update E _ _ ?p = _")
    by (auto simp: prepare_identity_unlock_def funds_and_identity_blocking rbind_Inr_iff refuse_if_Inr_iff
        map_err_Inr_iff blocking_lift Let_def)
  let ?i = "hc_identity held" and ?e = "to_height (flow_expiry funding)"
  let ?h = "saturating_add (saturating_add delay ?e) extra"
  have delay: "timelock_of ?i = DelayAfterUnlock delay"
    using start by (auto simp: delay_to_start_def split: timelock.splits)
  have p: "up_identity_output ?p = hc_output held" "up_identity ?p = apply_to (UntilBlock ?h) ?i" "up_additional_outputs ?p = []"
    "up_utxos ?p = fd_utxos funding" "up_expiry ?p = flow_expiry funding"
    by (simp_all add: at_tip_def update_params_new_def)
  have "wf_identity (as_written (up_identity ?p))"
    unfolding p(2) by (rule delayed_wf [OF current_held_wf [OF held(1) assms(3)]])
  from update_by_leave [OF assms(1,2) st this]
  have "publishes E keys (hc_output held) (fd_utxos funding) [] (apply_to (UntilBlock ?h) ?i) ?e st" unfolding p by blast
  then have "publishes E keys (hc_output held) (fd_utxos funding) []
      (?i\<lparr>id_flags := id_flags ?i AND NOT FLAG_LOCKED, id_unlock_after := ?h\<rparr>) ?e st" by simp
  moreover have e: "?e = saturating_add (fd_tip funding) DEFAULT_EXPIRY_BLOCKS" by (rule flow_expiry_height)
  moreover have "fd_tip funding \<le> ?h"
    unfolding e by (rule order_trans [OF order_trans [OF saturating_le(1) saturating_le(2)] saturating_le(1)])
  then have "check_timelock ?i (apply_to (UntilBlock ?h) ?i) ?e (Some (fd_tip funding)) = Inr ()"
    using saturating_le(1) [of "saturating_add delay ?e" extra] by (simp only: unlock_check [OF delay held(2)] simp_thms)
  moreover have "\<forall>h' < ?h. check_timelock ?i (apply_to (UntilBlock h') ?i) ?e (Some (fd_tip funding)) = Inr () \<longrightarrow>
      MAX_UNLOCK_DELAY < delay \<and> h' = saturating_add MAX_UNLOCK_DELAY ?e" if "extra = 0"
    unfolding unlock_check [OF delay held(2)] using that by (auto simp: saturating_zero simp flip: not_less)
  moreover have "unat ?h = min (unat delay + unat ?e + unat extra) (2 ^ 32 - 1)"
    by (simp add: unat_saturating_add)
  ultimately show ?thesis
    using funding held current_held_sound [OF held(1)] delay
    by (intro exI [of _ held] exI [of _ funding] exI [of _ st] exI [of _ delay] exI [of _ ?e] exI [of _ ?h])
      (simp add: u updated_of_def)
qed

section \<open>The flows may be driven\<close>

definition chain_reader_ok :: "'r chain_reader_scheme \<Rightarrow> bool" where
  "chain_reader_ok R \<longleftrightarrow> reader_ok (cr_funding R) \<and> (\<forall>name. question_ok (ask_identity R name))"

lemma chain_reader_parts:
  assumes "chain_reader_ok R"
  shows "reader_ok (cr_funding R)" "question_ok (ask_identity R name)" "question_ok (ask_raw_transaction (cr_funding R) t)"
  using assms by (simp_all add: chain_reader_ok_def reader_ok_def)

lemma held_of_no_sentinel: "no_sentinel (held_of H hx T identity record raw)"
  unfolding held_of_def identity_output_script_def Let_def case_prod_beta
  by (intro sentinel_intros) (auto simp: not_named_def no_sentinel_def refuse_if_def split: output_kind.splits sum.splits)

lemma check_keys_no_sentinel: "no_sentinel (check_keys E what address keys primaries min_sigs)"
  unfolding check_keys_def Let_def by (intro sentinel_intros) simp_all

lemma delay_no_sentinel: "no_sentinel (delay_to_start identity tip i)"
  by (auto simp: delay_to_start_def no_sentinel_def split: timelock.splits)

lemma current_held_answered:
  assumes "chain_reader_ok R"
  shows "answered_in net 2 (current_held H hx T R identity)"
  unfolding current_held_def numeral_2_eq_2
  by (intro answered_ask answered_pure answered_return held_of_no_sentinel chain_reader_parts [OF assms])

lemma with_funds_answered:
  assumes "chain_reader_ok R" "\<And>f h. answered_in net n (k f h)"
  shows "answered_in net (2 + n) (with_funds_and_identity E T R key identity k)"
  unfolding with_funds_and_identity_def
  by (intro answered_both answered_spendable current_held_answered chain_reader_parts(1) assms)

lemma check_authority_answered:
  assumes "chain_reader_ok R" "answered_in net 0 k"
  shows "answered_in net 1 (check_authority E R held authority keys what k)"
proof -
  have "answered_in net (Suc 0) (ask (ask_identity R a) (\<lambda>record. lift_flow (check_keys E what a keys (f record) (g record)) (\<lambda>_. k)))"
    for a f g
    by (intro answered_ask answered_pure check_keys_no_sentinel chain_reader_parts(2) assms)
  moreover have "answered_in net 1 (lift_flow (check_keys E what a keys ps n) (\<lambda>_. k))" for a ps n
    by (intro answered_pure check_keys_no_sentinel answered_mono [OF assms(2)]) simp
  ultimately show ?thesis
    unfolding check_authority_def Let_def by (intro answered_ensure) simp_all
qed

lemma flow_body_answered:
  "answered_in net n (lift_flow (parsed_change_address E key) (\<lambda>a. lift_flow (map_err FlowTx (b a)) (\<lambda>st. Return (f st))))"
  unfolding parsed_change_address_def by (intro answered_pure answered_return sentinel_intros)

text \<open>
  C30: driving a lifecycle flow round by round gives what running it against the network gives.
  An update and an unlock are answered after two rounds of questions, a revocation and a
  recovery after a third, which asks for an authority that is another identity.
\<close>

theorem lifecycle_drives:
  assumes "chain_reader_ok R"
  shows "drives_as_blocking net (prepare_identity_update E T R funding_key keys identity change) 2 \<and>
    drives_as_blocking net (prepare_identity_revocation E T R funding_key keys identity) 3 \<and>
    drives_as_blocking net (prepare_identity_recovery E T R funding_key keys identity change) 3 \<and>
    drives_as_blocking net (prepare_identity_unlock E T R funding_key keys identity extra) 2"
proof -
  note funds = with_funds_answered [OF assms] and signers = check_authority_answered [OF assms, unfolded One_nat_def]
  note two = funds [where n = 0, unfolded add_0_right] and three = funds [where n = "Suc 0", simplified]
  have "answered_in net 2 (prepare_identity_update E T R funding_key keys identity change)"
    unfolding prepare_identity_update_def Let_def
    by (intro answered_ensure two flow_body_answered) simp_all
  moreover have "answered_in net 3 (prepare_identity_revocation E T R funding_key keys identity)"
    unfolding prepare_identity_revocation_def Let_def
    by (intro answered_ensure three signers flow_body_answered) simp_all
  moreover have "answered_in net 3 (prepare_identity_recovery E T R funding_key keys identity change)"
    unfolding prepare_identity_recovery_def Let_def
    by (intro answered_ensure three signers flow_body_answered) simp_all
  moreover have "answered_in net 2 (prepare_identity_unlock E T R funding_key keys identity extra)"
    unfolding prepare_identity_unlock_def Let_def
    by (intro answered_ensure two answered_pure delay_no_sentinel flow_body_answered) simp_all
  ultimately show ?thesis by (simp add: answered_drives MAX_ROUNDS_def)
qed

section \<open>The properties at concrete inputs\<close>

definition chain_raw :: json where
  "chain_raw = JObject [(''vout'', JArray [JNull,
     JObject [(''valueSat'', JNumber ''0''), (''scriptPubKey'', JObject [(''hex'', JString [])])]])]"

definition toy_coins :: funding_reader where
  "toy_coins =
     \<lparr>ask_block_count = (\<lparr>as_str = ''tip'', writes = False\<rparr>, \<lambda>_. Inr 1000),
      ask_address_utxos = (\<lambda>a. (\<lparr>as_str = ''utxos'' @ a, writes = False\<rparr>,
        \<lambda>_. Inr [\<lparr>au_utxo = sample_coin, au_address = a, au_height = 10, au_is_spendable = True\<rparr>])),
      ask_address_mempool = (\<lambda>a. (\<lparr>as_str = ''mempool'' @ a, writes = False\<rparr>, \<lambda>_. Inr [])),
      ask_raw_transaction = (\<lambda>t. (\<lparr>as_str = ''tx'' @ t, writes = False\<rparr>, \<lambda>_. Inr chain_raw))\<rparr>"

definition toy_name :: str where
  "toy_name = i_address toy_hash_lib (identity_id toy_hash_lib (id_name held_identity) (Some (id_parent held_identity)))"

definition toy_record :: identity_record where
  "toy_record = \<lparr>ir_fully_qualified_name = ''bob'', ir_identity_address = toy_name, ir_status = ''active'',
     ir_outpoint = (Txid (replicate 32 4), 1), ir_block_height = 20,
     ir_identity = JObject [(''primaryaddresses'', JArray [JString (key_addresses sample_env sample_key)])]\<rparr>"

definition toy_chain :: chain_reader where
  "toy_chain = \<lparr>cr_funding = toy_coins,
     ask_identity = (\<lambda>name. (\<lparr>as_str = ''identity'' @ name, writes = False\<rparr>, \<lambda>_. Inr toy_record))\<rparr>"

text \<open>On this chain the script of the output is that of the sample identity under given flags.\<close>

definition toy_text :: "u32 \<Rightarrow> flow_text" where
  "toy_text f = \<lparr>show_key = (\<lambda>_. []), show_kind = (\<lambda>_. []), show_str = (\<lambda>s. s),
     read_hex = (\<lambda>_. Inr (utxo_script_pubkey (identity_coin_of (held_identity\<lparr>id_flags := f\<rparr>))))\<rparr>"

abbreviation toy_held :: "u32 \<Rightarrow> held_on_chain" where
  "toy_held f \<equiv> \<lparr>hc_identity = held_identity\<lparr>id_flags := f\<rparr>,
     hc_output = identity_coin_of (held_identity\<lparr>id_flags := f\<rparr>), hc_record = toy_record\<rparr>"

abbreviation key_home :: address where
  "key_home \<equiv> private_address (env_hash sample_env) (env_ec sample_env) sample_key"

lemma toy_ok: "chain_reader_ok toy_chain" "text_ok (toy_text f)" "hash_lib_ok (env_hash sample_env)" "wf_change change_nothing"
  using held_coin_decodes(2) [of f]
  by (auto simp: chain_reader_ok_def reader_ok_def question_ok_def toy_chain_def toy_coins_def text_ok_def toy_text_def
      sample_env_def toy_hash_lib_ok wf_change_def change_nothing_def)

lemma key_home: "addr_kind key_home = PubKeyHash" "wf_address key_home"
  "parsed_change_address sample_env sample_key = Inr key_home"
proof -
  have "addr_hash key_home = 2 # replicate 19 5" using sample_key_address by (simp add: sample_env_def)
  then show k: "addr_kind key_home = PubKeyHash" "wf_address key_home"
    by (simp_all add: private_address_def public_address_def address_new_def wf_address_def)
  show "parsed_change_address sample_env sample_key = Inr key_home"
    using addr.parse_text [OF toy_ok(3) k(2)] by (simp add: parsed_change_address_def key_addresses_def)
qed

lemma toy_named: "address_from_str toy_hash_lib toy_name =
    Inr (address_new Identity (identity_id toy_hash_lib (id_name held_identity) (Some (id_parent held_identity))))"
  unfolding toy_name_def i_address_def
  by (rule addr.parse_text [OF toy_hash_lib_ok])
    (simp add: wf_address_def address_new_def length_identity_id [OF toy_hash_lib_ok])

lemma toy_current_held: "blocking net (current_held (env_hash sample_env) hx (toy_text f) toy_chain toy_name) = Inr (toy_held f)"
proof -
  have zero: "parse_u64 ''0'' = Some 0" by (simp add: parse_u64_def all_digits_def dec_value_def digit_value_def is_ascii_digit_def)
  have out: "tx_output chain_raw 1 = Some (JObject [(''valueSat'', JNumber ''0''), (''scriptPubKey'', JObject [(''hex'', JString [])])])"
    by (simp add: tx_output_def chain_raw_def as_array_def get_nth_def json_index_def json_get_def)
  then have script: "identity_output_script (toy_text f) chain_raw 1 = Inr (utxo_script_pubkey (identity_coin_of (held_identity\<lparr>id_flags := f\<rparr>)))"
    by (simp add: identity_output_script_def as_text_def json_index_def json_get_def toy_text_def)
  have sats: "Option.bind (tx_output chain_raw 1) (\<lambda>out. as_u64 (json_index ''valueSat'' out)) = Some 0"
    by (simp add: out json_index_def json_get_def as_u64_def zero)
  have coin: "\<lparr>utxo_txid = Txid (replicate 32 4), utxo_vout = 1, utxo_satoshis = amount_zero,
      utxo_script_pubkey = utxo_script_pubkey (identity_coin_of i)\<rparr> = identity_coin_of i" for i
    by (simp add: identity_coin_of_def amount_zero_def)
  have rec: "ir_outpoint toy_record = (Txid (replicate 32 4), 1)" "ir_identity_address toy_record = toy_name"
    by (simp_all add: toy_record_def)
  have "held_of toy_hash_lib hx (toy_text f) toy_name toy_record chain_raw = Inr (toy_held f)"
    unfolding held_of_def rec Let_def prod.case script rbind_simps
    by (simp add: held_coin_decodes(1) toy_named address_new_def refuse_if_def Let_def sats coin)
  then show ?thesis
    by (simp add: current_held_def told_reply_def toy_chain_def toy_coins_def blocking_lift sample_env_def rec)
qed

lemma toy_spendable: "\<exists>fd. blocking net (spendable (cr_funding toy_chain) a) = Inr fd \<and> fd_utxos fd = [sample_coin] \<and> fd_tip fd = 1000"
proof -
  let ?f = "[\<lparr>au_utxo = sample_coin, au_address = a, au_height = 10, au_is_spendable = True\<rparr>]"
  have young: "young 1000 ?f = []" by (simp add: young_def confirmations_def COINBASE_MATURITY_def)
  have p2pkh: "is_p2pkh (utxo_script_pubkey sample_coin)" using toy_script by (simp add: sample_coin_def)
  have "\<exists>fd. funding_of ?f 1000 [] [] = Inr fd \<and> fd_utxos fd = [sample_coin] \<and> fd_tip fd = 1000"
    using p2pkh by (simp add: funding_of_def spendable_utxos_def Let_def amount_checked_sum_def amount_checked_add_def
        checked_add_def amount_zero_def sample_coin_def split: prod.splits)
  moreover have "cr_funding toy_chain = toy_coins" by (simp add: toy_chain_def)
  ultimately show ?thesis
    by (auto simp: spendable_def told_reply_def toy_coins_def unwrap_def young probe_coinbase_heights_def best_effort_spent_def
        already_spent_def blocking_lift)
qed

text \<open>What the sample key signs and the sample coin pays for is built, whichever address the change goes to.\<close>

lemma sample_change_total:
  assumes "as_leading plan = [identity_coin_of i]" "as_funding plan = [sample_coin]"
    and "total_value (as_outputs plan) = 0" "as_burn plan = amount_zero" "\<not> as_value_bearing_leading plan"
    and "as_fee_output_count plan = 2" "as_fee_per_kb plan = DEFAULT_FEE_PER_KB"
    and "addr_kind (as_change_address plan) = PubKeyHash" "as_change_script plan = None"
  shows "\<exists>st. assemble sample_env sample_key [sample_key] plan = Inr st"
proof (rule sample_run_total)
  let ?s = "[0x76, 0xa9, 0x14] @ addr_hash (as_change_address plan) @ [0x88, 0xac]"
  show "assembly_run plan 0 0 [sample_coin] 10000 490000 [\<lparr>out_value = 490000, out_script_pubkey = ?s\<rparr>]"
    using assms sample_coin_pays_fee held_facts(4)
    by (auto simp: assembly_run_def choose_funding_def change_output_def p2pkh_script_pubkey_def
        amount_is_zero_def amount_zero_def)
qed (simp add: assms(1))

lemma sample_scripts:
  assumes "m = [] \<or> m = [(replicate 20 8, replicate 32 9)]"
  shows "\<exists>s. publish_script (held_identity\<lparr>id_flags := f, id_content_map := m, id_unlock_after := h\<rparr>)
    (identity_id toy_hash_lib (id_name held_identity) (Some (id_parent held_identity))) = Inr s"
proof -
  let ?i = "held_identity\<lparr>id_flags := f, id_content_map := m, id_unlock_after := h\<rparr>"
  have w: "wf_identity ?i" using assms held_facts(1) [of 0] by (auto simp: wf_identity_def held_identity_def sample_identity_def)
  obtain bs where bs: "identity_to_bytes ?i = Inr bs" using wf_identity_writes [OF w] by blast
  then have "length bs \<le> 60000"
    using assms by (auto simp: identity_to_bytes_Inr held_identity_def sample_identity_def id_compact_size_def id_var_slice_def
        multimap_part_def vault_bytes_def multimap_entry_def length_uN_le)
  from publish_script_total [OF bs this length_identity_id [OF toy_hash_lib_ok, of "id_name held_identity" "Some (id_parent held_identity)"]] w
  show ?thesis by (auto simp: wf_identity_def)
qed

lemma update_runs:
  assumes "m = [] \<or> m = [(replicate 20 8, replicate 32 9)]"
    and j: "j = held_identity\<lparr>id_flags := g, id_content_map := m, id_unlock_after := h\<rparr>"
    and "check_timelock (held_identity\<lparr>id_flags := f\<rparr>) j (to_height expiry) (Some tip) = Inr ()" "check_expiry expiry = Inr ()"
  shows "\<exists>st. build_identity_update sample_env sample_key [sample_key]
     (at_tip (update_params_new (identity_coin_of (held_identity\<lparr>id_flags := f\<rparr>)) j [sample_coin] key_home expiry) tip) = Inr st"
proof -
  let ?i = "held_identity\<lparr>id_flags := f\<rparr>"
  let ?p = "at_tip (update_params_new (identity_coin_of ?i) j [sample_coin] key_home expiry) tip"
  let ?h = "identity_id toy_hash_lib (id_name held_identity) (Some (id_parent held_identity))"
  have p: "up_identity_output ?p = identity_coin_of ?i" "up_utxos ?p = [sample_coin]"
    "up_expiry ?p = expiry" "up_fee_per_kb ?p = DEFAULT_FEE_PER_KB" "up_additional_outputs ?p = []"
    "up_change_address ?p = key_home" "up_identity ?p = j" "up_tip ?p = Some tip" "\<not> up_allow_authority_change ?p"
    "env_hash sample_env = toy_hash_lib"
    by (simp_all add: at_tip_def update_params_new_def sample_env_def)
  obtain s where s: "publish_script j ?h = Inr s" using sample_scripts [OF assms(1), where f = g and h = h] unfolding j by blast
  have n: "id_name j = id_name held_identity" "id_parent j = id_parent held_identity" by (simp_all add: j)
  have checks: "check_authority_unchanged ?i j = Inr ()" by (simp add: check_authority_Inr j)
  have signer: "check_signer sample_env ?i sample_key = Inr ()"
    by (simp add: check_signer_Inr sample_env_def sample_key_address held_identity_def)
  have one: "\<not> Suc 0 < unat (id_min_sigs held_identity)" by (simp add: held_identity_def sample_identity_def)
  obtain st where "assemble sample_env sample_key [sample_key]
       \<lparr>as_leading = [identity_coin_of ?i], as_funding = [sample_coin], as_outputs = [\<lparr>out_value = 0, out_script_pubkey = s\<rparr>],
        as_burn = amount_zero, as_fee_output_count = 2, as_change_address = key_home, as_change_script = None,
        as_value_bearing_leading = False, as_expiry = expiry, as_fee_per_kb = DEFAULT_FEE_PER_KB\<rparr> = Inr st"
    using sample_change_total [of _ ?i] key_home(1) by fastforce
  then show ?thesis
    unfolding build_identity_update_def p(1-9) Let_def assms(4) held_facts(2) held_current(1) rbind_simps n
    using assms(3) checks signer s one p(9)
    by (auto simp: refuse_if_def p(10))
qed

definition sample_change :: identity_change where
  "sample_change = change_nothing\<lparr>ic_content_map := Some [(replicate 20 8, replicate 32 9)]\<rparr>"

lemma toy_expiry: "fd_tip fd = 1000 \<Longrightarrow> check_expiry (flow_expiry fd) = Inr ()" "fd_tip fd = 1000 \<Longrightarrow> to_height (flow_expiry fd) = 1020"
proof -
  assume t: "fd_tip fd = 1000"
  have e: "flow_expiry fd = expiry_within 1000 DEFAULT_EXPIRY_BLOCKS" by (simp add: flow_expiry_def t)
  show "check_expiry (flow_expiry fd) = Inr ()" 
    by (simp add: e expiry_within_def saturating_add_def DEFAULT_EXPIRY_BLOCKS_def check_expiry_def
        EXPIRY_HEIGHT_THRESHOLD_def)
  show "to_height (flow_expiry fd) = 1020"
    by (simp add: e expiry_within_def saturating_add_def DEFAULT_EXPIRY_BLOCKS_def)
qed

lemma sample_update_runs:
  "\<exists>u. blocking net (prepare_identity_update sample_env (toy_text 0) toy_chain sample_key [sample_key] toy_name sample_change) = Inr u"
proof -
  obtain fd where fd: "blocking net (spendable (cr_funding toy_chain) (key_addresses sample_env sample_key)) = Inr fd"
    "fd_utxos fd = [sample_coin]" "fd_tip fd = 1000"
    using toy_spendable by blast
  let ?m = "[(replicate 20 8, replicate 32 9)] :: (bytes \<times> bytes) list"
  let ?j = "held_identity\<lparr>id_flags := 0, id_content_map := ?m, id_unlock_after := 9\<rparr>"
  have change: "apply_change sample_change (held_identity\<lparr>id_flags := 0\<rparr>) = ?j"
    by (simp add: apply_change_def sample_change_def change_nothing_def unless_named_def held_identity_def sample_identity_def)
  have "check_timelock (held_identity\<lparr>id_flags := 0\<rparr>) ?j 1020 (Some 1000) = Inr ()" by code_simp
  then obtain st where "build_identity_update sample_env sample_key [sample_key]
     (at_tip (update_params_new (identity_coin_of (held_identity\<lparr>id_flags := 0\<rparr>)) ?j [sample_coin] key_home (flow_expiry fd)) 1000) = Inr st"
    using update_runs [where j = ?j and m = ?m and g = 0 and h = 9 and f = 0 and expiry = "flow_expiry fd" and tip = 1000] toy_expiry [OF fd(3)] by auto
  moreover have "\<not> change_is_empty sample_change" "\<not> is_revoked (held_identity\<lparr>id_flags := 0\<rparr>)" "\<not> ic_allow_authority_change sample_change"
    using held_flags by (simp_all add: change_is_empty_def sample_change_def change_nothing_def change_allowing_def held_plain)
  ultimately show ?thesis
    by (simp add: prepare_identity_update_def funds_and_identity_blocking fd toy_current_held blocking_lift key_home(3)
        refuse_if_def Let_def update_request_def change)
qed

text \<open>On the toy chain what is read is known.\<close>

lemma toy_reads:
  assumes "blocking net (current_held (env_hash sample_env) hx (toy_text f) toy_chain toy_name) = Inr held"
    and "blocking net (spendable (cr_funding toy_chain) a) = Inr funding"
  shows "held = toy_held f" "fd_utxos funding = [sample_coin]" "saturating_add (fd_tip funding) DEFAULT_EXPIRY_BLOCKS = 1020"
proof -
  show "held = toy_held f" using assms(1) by (simp add: toy_current_held)
  have "fd_utxos funding = [sample_coin] \<and> fd_tip funding = 1000" using toy_spendable [of net a] assms(2) by auto
  then show "fd_utxos funding = [sample_coin]" "saturating_add (fd_tip funding) DEFAULT_EXPIRY_BLOCKS = 1020"
    using toy_expiry(2) [of funding] by (auto simp: flow_expiry_height)
qed


text \<open>An identity locked with a delay of nine blocks, under way from height 1020.\<close>

lemma sample_unlock_runs:
  "\<exists>u. blocking net (prepare_identity_unlock sample_env (toy_text FLAG_LOCKED) toy_chain sample_key [sample_key] toy_name 5) = Inr u"
proof -
  obtain fd where fd: "blocking net (spendable (cr_funding toy_chain) (key_addresses sample_env sample_key)) = Inr fd"
    "fd_utxos fd = [sample_coin]" "fd_tip fd = 1000"
    using toy_spendable by blast
  let ?i = "held_identity\<lparr>id_flags := FLAG_LOCKED\<rparr>"
  let ?j = "held_identity\<lparr>id_flags := 0, id_content_map := [], id_unlock_after := 1034\<rparr>"
  have j: "apply_to (UntilBlock 1034) ?i = ?j"
    by (simp add: held_identity_def sample_identity_def)
  have h: "saturating_add (saturating_add 9 1020) 5 = (1034 :: u32)" by (simp add: saturating_add_def)
  have "delay_to_start toy_name 1000 ?i = Inr 9"
    by (simp add: delay_to_start_def timelock_of_def held_identity_def sample_identity_def FLAG_LOCKED_def)
  moreover have "check_timelock ?i ?j 1020 (Some 1000) = Inr ()"
    unfolding j [symmetric]
    by (subst unlock_check [of _ 9]) (simp_all add: timelock_of_def held_identity_def sample_identity_def FLAG_LOCKED_def
        is_revoked_def FLAG_REVOKED_def saturating_add_def)
  then obtain st where "build_identity_update sample_env sample_key [sample_key]
     (at_tip (update_params_new (identity_coin_of ?i) ?j [sample_coin] key_home (flow_expiry fd)) 1000) = Inr st"
    using update_runs [where j = ?j and m = "[]" and g = 0 and h = 1034 and f = FLAG_LOCKED and expiry = "flow_expiry fd" and tip = 1000]
      toy_expiry [OF fd(3)] by auto
  moreover have "\<not> is_revoked ?i"
    by (simp add: is_revoked_def FLAG_LOCKED_def FLAG_REVOKED_def held_identity_def sample_identity_def)
  ultimately show ?thesis
    by (simp add: prepare_identity_unlock_def funds_and_identity_blocking fd toy_current_held blocking_lift key_home(3)
        refuse_if_def Let_def toy_expiry(2) [OF fd(3)] h j del: apply_to.simps)
qed

lemma unlock_starts_the_countdown_witness:
  "\<exists>u (st :: signed_transaction).
     blocking (\<lambda>_. []) (prepare_identity_unlock sample_env (toy_text FLAG_LOCKED) toy_chain sample_key [sample_key] toy_name 5) = Inr u \<and>
     us_hex u = st_hex st \<and> \<not> ud_changes_authority (us_outcome u) \<and>
     publishes sample_env [sample_key] (identity_coin_of (held_identity\<lparr>id_flags := FLAG_LOCKED\<rparr>)) [sample_coin] []
       (held_identity\<lparr>id_flags := 0, id_unlock_after := 1034\<rparr>) 1020 st"
proof -
  obtain u where u: "blocking (\<lambda>_. []) (prepare_identity_unlock sample_env (toy_text FLAG_LOCKED) toy_chain sample_key [sample_key] toy_name 5) = Inr u"
    using sample_unlock_runs by blast
  obtain held funding delay expiry h and st :: signed_transaction where
      reads: "blocking (\<lambda>_. []) (current_held (env_hash sample_env) (env_hex sample_env) (toy_text FLAG_LOCKED) toy_chain toy_name) = Inr held"
        "blocking (\<lambda>_. []) (spendable (cr_funding toy_chain) (key_addresses sample_env sample_key)) = Inr funding"
      and st: "us_hex u = st_hex st" "\<not> ud_changes_authority (us_outcome u)"
        "publishes sample_env [sample_key] (hc_output held) (fd_utxos funding) []
          (hc_identity held\<lparr>id_flags := id_flags (hc_identity held) AND NOT FLAG_LOCKED, id_unlock_after := h\<rparr>) expiry st"
      and h: "timelock_of (hc_identity held) = DelayAfterUnlock delay"
        "expiry = saturating_add (fd_tip funding) DEFAULT_EXPIRY_BLOCKS"
        "unat h = min (unat delay + unat expiry + unat (5 :: u32)) (2 ^ 32 - 1)"
    using unlock_starts_the_countdown [OF sample_env_ok toy_ok(3) toy_ok(2) u]
    by (elim exE conjE) (rule that; assumption)
  note known = toy_reads [OF reads]
  have "delay = 9" using h(1) by (simp add: known timelock_of_def held_identity_def sample_identity_def FLAG_LOCKED_def)
  then have "h = 1034" using h(2,3) by (simp add: known word_unat_eq_iff)
  with u st h(2) show ?thesis by (auto simp: known)
qed

lemma toy_authority:
  "authority_keys_ok sample_env net toy_chain (held_identity\<lparr>id_flags := f\<rparr>) (replicate 20 3) [sample_key]"
proof -
  let ?i = "held_identity\<lparr>id_flags := f\<rparr>"
  have "hd (identity_id toy_hash_lib (id_name held_identity) (Some (id_parent held_identity))) = 1" by code_simp
  then have "replicate 20 3 \<noteq> identity_id (env_hash sample_env) (id_name ?i) (Some (id_parent ?i))"
    by (intro notI) (drule arg_cong [where f = hd], simp add: sample_env_def)
  moreover have "told_reply net (ask_identity toy_chain a) = Inr toy_record" for a
    by (simp add: told_reply_def toy_chain_def)
  moreover have "reported_primaries (ir_identity toy_record) = [key_addresses sample_env sample_key]"
    "reported_min_sigs (ir_identity toy_record) = 1"
    by (simp_all add: toy_record_def reported_primaries_def reported_min_sigs_def json_index_def json_get_def as_array_def
        as_text_def as_u64_def List.map_filter_def)
  ultimately show ?thesis by (simp add: authority_keys_ok_def)
qed

lemma sample_revocation_runs:
  "\<exists>u. blocking net (prepare_identity_revocation sample_env (toy_text 0) toy_chain sample_key [sample_key] toy_name) = Inr u"
proof -
  obtain fd where fd: "blocking net (spendable (cr_funding toy_chain) (key_addresses sample_env sample_key)) = Inr fd"
    "fd_utxos fd = [sample_coin]" "fd_tip fd = 1000"
    using toy_spendable by blast
  let ?i = "held_identity\<lparr>id_flags := 0\<rparr>"
  let ?p = "revocation_params_new (identity_coin_of ?i) [sample_coin] key_home (flow_expiry fd)"
  have p: "rv_identity_output ?p = identity_coin_of ?i" "rv_utxos ?p = [sample_coin]" "rv_expiry ?p = flow_expiry fd"
    "rv_fee_per_kb ?p = DEFAULT_FEE_PER_KB" "rv_change_address ?p = key_home"
    by (simp_all add: revocation_params_new_def)
  have h: "env_hash sample_env = toy_hash_lib" by (simp add: sample_env_def)
  obtain s where s: "publish_script (?i\<lparr>id_flags := id_flags ?i OR FLAG_REVOKED\<rparr>)
      (identity_id toy_hash_lib (id_name held_identity) (Some (id_parent held_identity))) = Inr s"
    using held_coin_decodes(3) [of "FLAG_REVOKED"] by auto
  obtain st where "assemble sample_env sample_key [sample_key]
       \<lparr>as_leading = [identity_coin_of ?i], as_funding = [sample_coin], as_outputs = [\<lparr>out_value = 0, out_script_pubkey = s\<rparr>],
        as_burn = amount_zero, as_fee_output_count = 2, as_change_address = key_home, as_change_script = None,
        as_value_bearing_leading = False, as_expiry = flow_expiry fd, as_fee_per_kb = DEFAULT_FEE_PER_KB\<rparr> = Inr st"
    using sample_change_total [of _ ?i] key_home(1) by fastforce
  moreover have "\<not> is_revoked ?i" using held_flags(1) by (simp add: held_plain)
  moreover have "id_recovery_authority ?i \<noteq> identity_id (env_hash sample_env) (id_name ?i) (Some (id_parent ?i))"
    using held_facts(5) by (simp add: h)
  ultimately have "build_identity_revocation sample_env sample_key [sample_key] ?p = Inr st"
    unfolding build_identity_revocation_def p toy_expiry(1) [OF fd(3)] held_facts(2) held_current(1) rbind_simps Let_def
    using s by (simp add: refuse_if_def republish_def h)
  moreover have "authority_keys_ok sample_env net toy_chain ?i (id_revocation_authority ?i) [sample_key]"
    using toy_authority [of net 0] by (simp add: held_identity_def sample_identity_def)
  moreover note \<open>\<not> is_revoked ?i\<close>
  ultimately have "\<exists>u. blocking net (prepare_identity_revocation sample_env (toy_text 0) toy_chain sample_key [sample_key] toy_name) = Inr u"
    unfolding prepare_identity_revocation_def funds_and_identity_blocking fd(1) toy_current_held rbind_simps
    by (simp add: refuse_if_def check_authority_blocking blocking_lift key_home(3) fd(2) Let_def)
  then show ?thesis .
qed


lemma lifecycle_drives_witness:
  "drives_as_blocking (\<lambda>_. []) (prepare_identity_update sample_env (toy_text 0) toy_chain sample_key [sample_key] toy_name sample_change) 2"
  using lifecycle_drives [OF toy_ok(1)] by blast

end
