(* ===== verification/Base64.thy ===== *)
theory Base64
  imports Tx_Primitives
begin

text \<open>
  The base64 text of a message signature (\<open>base64_encode\<close> and \<open>base64_decode\<close> of
  \<open>verus-tx-identity/src/signature.rs\<close>).
\<close>

definition BASE64 :: bytes where
  "BASE64 = ascii ''ABCDEFGHIJKLMNOPQRSTUVWXYZabcdefghijklmnopqrstuvwxyz0123456789+/''"

text \<open>One character of the table.\<close>

definition sextet :: "u32 \<Rightarrow> nat \<Rightarrow> byte" where
  "sextet n shift = BASE64 ! unat (drop_bit shift n AND 63)"

definition encode_chunk :: "bytes \<Rightarrow> bytes" where
  "encode_chunk chunk =
     (let b0 = chunk ! 0;
          b1 = (if 1 < length chunk then chunk ! 1 else 0);
          b2 = (if 2 < length chunk then chunk ! 2 else 0);
          n = push_bit 16 (ucast b0) OR push_bit 8 (ucast b1) OR (ucast b2 :: u32) in
      [sextet n 18, sextet n 12, if 1 < length chunk then sextet n 6 else 0x3d,
       if 2 < length chunk then sextet n 0 else 0x3d])"

text \<open>\<open>bytes.chunks(3)\<close>\<close>

fun chunks3 :: "bytes \<Rightarrow> bytes list" where
  "chunks3 [] = []"
| "chunks3 [a] = [[a]]"
| "chunks3 [a, b] = [[a, b]]"
| "chunks3 (a # b # c # bs) = [a, b, c] # chunks3 bs"

definition base64_encode :: "bytes \<Rightarrow> bytes" where
  "base64_encode bs = concat (map encode_chunk (chunks3 bs))"

fun table_position :: "byte \<Rightarrow> bytes \<Rightarrow> nat option" where
  "table_position c [] = None"
| "table_position c (x # xs) = (if x = c then Some 0 else map_option Suc (table_position c xs))"

definition is_ascii_whitespace :: "byte \<Rightarrow> bool" where
  "is_ascii_whitespace c \<longleftrightarrow> c \<in> {0x20, 0x09, 0x0a, 0x0c, 0x0d}"

text \<open>A byte shown as the character of that code, in UTF-8.\<close>

definition char_text :: "byte \<Rightarrow> str" where
  "char_text c = map (\<lambda>b. char_of (unat b))
     (if c < 0x80 then [c] else [0xc0 OR drop_bit 6 c, 0x80 OR (c AND 0x3f)])"

fun decode_from :: "u32 \<Rightarrow> u32 \<Rightarrow> bytes \<Rightarrow> tx_error + bytes" where
  "decode_from accumulator bits [] = Inr []"
| "decode_from accumulator bits (c # cs) =
     (if c = 0x3d \<or> is_ascii_whitespace c then decode_from accumulator bits cs
      else rbind (ok_or (table_position c BASE64)
            (MessageSignature (''`'' @ char_text c @ ''` is not base64''))) (\<lambda>index.
        let accumulator = push_bit 6 accumulator OR of_nat index; bits = bits + 6 in
        if 8 \<le> bits then
          let bits = bits - 8 in
          rbind (decode_from accumulator bits cs) (\<lambda>out.
          Inr (ucast (drop_bit (unat bits) accumulator AND 0xff) # out))
        else decode_from accumulator bits cs))"

definition base64_decode :: "bytes \<Rightarrow> tx_error + bytes" where
  "base64_decode text_bytes = decode_from 0 0 text_bytes"

section \<open>The table\<close>

lemma table_facts: "length BASE64 = 64" "distinct BASE64"
  "\<forall>c \<in> set BASE64. c \<noteq> 0x3d \<and> \<not> is_ascii_whitespace c"
  by code_simp+

lemma table_position_nth: "distinct xs \<Longrightarrow> i < length xs \<Longrightarrow> table_position (xs ! i) xs = Some i"
proof (induction xs arbitrary: i)
  case (Cons x xs)
  then show ?case by (cases i) auto
qed simp

lemma sextet_bound: "unat (w AND 63) < 64" for w :: u32
proof -
  have "(63 :: u32) = mask 6" by (simp add: mask_eq_exp_minus_1)
  then have "w AND 63 = take_bit 6 w" by (simp only: take_bit_eq_mask)
  moreover have "unat (take_bit 6 w) < 64" using take_bit_nat_less_exp [of 6 "unat w"] by (simp only: unsigned_take_bit_eq) simp
  ultimately show ?thesis by simp
qed

lemma sextet_read:
  "sextet n s \<noteq> 0x3d" "\<not> is_ascii_whitespace (sextet n s)"
  "table_position (sextet n s) BASE64 = Some (unat (drop_bit s n AND 63))"
proof -
  have b: "unat (drop_bit s n AND 63) < length BASE64" using sextet_bound by (simp add: table_facts)
  then have "sextet n s \<in> set BASE64" by (simp add: sextet_def)
  with table_facts(3) show "sextet n s \<noteq> 0x3d" "\<not> is_ascii_whitespace (sextet n s)" by auto
  show "table_position (sextet n s) BASE64 = Some (unat (drop_bit s n AND 63))"
    unfolding sextet_def by (rule table_position_nth [OF table_facts(2) b])
qed

text \<open>Reading one character of the table.\<close>

lemma decode_sextet:
  "decode_from acc bits (sextet n s # cs) =
     (let acc' = push_bit 6 acc OR (drop_bit s n AND 63) in
      if 8 \<le> bits + 6 then rbind (decode_from acc' (bits + 6 - 8) cs)
         (\<lambda>out. Inr (ucast (drop_bit (unat (bits + 6 - 8)) acc' AND 0xff) # out))
      else decode_from acc' (bits + 6) cs)"
  by (simp add: sextet_read Let_def)

lemma decode_skip: "decode_from acc bits (0x3d # cs) = decode_from acc bits cs"
  by simp

lemma byte_bits: "(\<And>i. i < 8 \<Longrightarrow> bit (ucast w :: byte) i = bit a i) \<Longrightarrow> ucast w = a" for a :: byte and w :: u32
  by (rule bit_word_eqI) simp

lemma less_8: "i < 8 \<longleftrightarrow> i = 0 \<or> i = 1 \<or> i = 2 \<or> i = 3 \<or> i = 4 \<or> i = 5 \<or> i = 6 \<or> i = (7 :: nat)"
  by auto

lemma mask_bits: "bit (63 :: u32) i \<longleftrightarrow> i < 6" "bit (255 :: u32) i \<longleftrightarrow> i < 8"
proof -
  have a: "(63 :: u32) = mask 6" "(255 :: u32) = mask 8" by (simp_all add: mask_eq_exp_minus_1)
  show "bit (63 :: u32) i \<longleftrightarrow> i < 6" "bit (255 :: u32) i \<longleftrightarrow> i < 8"
    unfolding a by (auto simp: bit_mask_iff)
qed

lemma high_bits: "8 \<le> i \<Longrightarrow> bit b i = False" for b :: byte
  using bit_imp_le_length [of b i] by auto

text \<open>The accumulator after two, three and four characters of a chunk.\<close>

definition acc2 :: "u32 \<Rightarrow> u32 \<Rightarrow> u32" where
  "acc2 acc n = push_bit 6 (push_bit 6 acc OR (drop_bit 18 n AND 63)) OR (drop_bit 12 n AND 63)"

definition acc3 :: "u32 \<Rightarrow> u32 \<Rightarrow> u32" where
  "acc3 acc n = push_bit 6 (acc2 acc n) OR (drop_bit 6 n AND 63)"

definition acc4 :: "u32 \<Rightarrow> u32 \<Rightarrow> u32" where
  "acc4 acc n = push_bit 6 (acc3 acc n) OR (drop_bit 0 n AND 63)"

lemma decode_chunk:
  "decode_from acc 0 (sextet n 18 # sextet n 12 # cs) =
     rbind (decode_from (acc2 acc n) 4 cs) (\<lambda>out. Inr (ucast (drop_bit 4 (acc2 acc n) AND 0xff) # out))"
  "decode_from (acc2 acc n) 4 (sextet n 6 # cs) =
     rbind (decode_from (acc3 acc n) 2 cs) (\<lambda>out. Inr (ucast (drop_bit 2 (acc3 acc n) AND 0xff) # out))"
  "decode_from (acc3 acc n) 2 (sextet n 0 # cs) =
     rbind (decode_from (acc4 acc n) 0 cs) (\<lambda>out. Inr (ucast (drop_bit 0 (acc4 acc n) AND 0xff) # out))"
proof -
  have s: "\<not> 8 \<le> (0 + 6 :: u32)" "8 \<le> (0 + 6 + 6 :: u32)" "(0 + 6 + 6 - 8 :: u32) = 4" "8 \<le> (4 + 6 :: u32)"
    "(4 + 6 - 8 :: u32) = 2" "8 \<le> (2 + 6 :: u32)" "(2 + 6 - 8 :: u32) = 0" "unat (4 :: u32) = 4" "unat (2 :: u32) = 2"
    "unat (0 :: u32) = 0"
    by simp_all
  show "decode_from acc 0 (sextet n 18 # sextet n 12 # cs) =
     rbind (decode_from (acc2 acc n) 4 cs) (\<lambda>out. Inr (ucast (drop_bit 4 (acc2 acc n) AND 0xff) # out))"
    unfolding decode_sextet Let_def acc2_def by (simp only: s if_False if_True)
  show "decode_from (acc2 acc n) 4 (sextet n 6 # cs) =
     rbind (decode_from (acc3 acc n) 2 cs) (\<lambda>out. Inr (ucast (drop_bit 2 (acc3 acc n) AND 0xff) # out))"
    unfolding decode_sextet Let_def acc3_def by (simp only: s if_True)
  show "decode_from (acc3 acc n) 2 (sextet n 0 # cs) =
     rbind (decode_from (acc4 acc n) 0 cs) (\<lambda>out. Inr (ucast (drop_bit 0 (acc4 acc n) AND 0xff) # out))"
    unfolding decode_sextet Let_def acc4_def by (simp only: s if_True)
qed

lemma octets:
  fixes a b c :: byte
  defines "n \<equiv> push_bit 16 (ucast a) OR push_bit 8 (ucast b) OR (ucast c :: u32)"
  shows "ucast (drop_bit 4 (acc2 acc n) AND 0xff) = a" "ucast (drop_bit 2 (acc3 acc n) AND 0xff) = b"
    "ucast (drop_bit 0 (acc4 acc n) AND 0xff) = c"
proof -
  show "ucast (drop_bit 4 (acc2 acc n) AND 0xff) = a"
    unfolding acc2_def n_def
    by (rule byte_bits; unfold less_8; elim disjE; simp add: bit_simps mask_bits high_bits)
  show "ucast (drop_bit 2 (acc3 acc n) AND 0xff) = b"
    unfolding acc3_def acc2_def n_def
    by (rule byte_bits; unfold less_8; elim disjE; simp add: bit_simps mask_bits high_bits)
  show "ucast (drop_bit 0 (acc4 acc n) AND 0xff) = c"
    unfolding acc4_def acc3_def acc2_def n_def
    by (rule byte_bits; unfold less_8; elim disjE; simp add: bit_simps mask_bits high_bits)
qed

lemma decode_encode_from: "decode_from acc 0 (concat (map encode_chunk (chunks3 bs))) = Inr bs"
proof (induction bs arbitrary: acc rule: chunks3.induct)
  case (4 a b c bs)
  have "encode_chunk [a, b, c] = (let n = push_bit 16 (ucast a) OR push_bit 8 (ucast b) OR (ucast c :: u32) in
      [sextet n 18, sextet n 12, sextet n 6, sextet n 0])" by (simp add: encode_chunk_def)
  with 4 show ?case
    by (simp only: chunks3.simps list.map concat.simps Let_def append_Cons append_Nil decode_chunk octets rbind_simps)
next
  case 1
  then show ?case by simp
next
  case (2 v)
  have "encode_chunk [v] = (let n = push_bit 16 (ucast v) OR push_bit 8 (ucast (0 :: byte)) OR (ucast (0 :: byte) :: u32) in
      [sextet n 18, sextet n 12, 0x3d, 0x3d])" by (simp add: encode_chunk_def)
  then show ?case
    by (simp only: chunks3.simps list.map concat.simps Let_def append_Cons append_Nil append_Nil2 decode_chunk octets
        decode_skip decode_from.simps(1) rbind_simps)
next
  case (3 v w)
  have "encode_chunk [v, w] = (let n = push_bit 16 (ucast v) OR push_bit 8 (ucast w) OR (ucast (0 :: byte) :: u32) in
      [sextet n 18, sextet n 12, sextet n 6, 0x3d])" by (simp add: encode_chunk_def)
  then show ?case
    by (simp only: chunks3.simps list.map concat.simps Let_def append_Cons append_Nil append_Nil2 decode_chunk octets
        decode_skip decode_from.simps(1) rbind_simps)
qed

lemma base64_roundtrip: "base64_decode (base64_encode bs) = Inr bs"
  unfolding base64_decode_def base64_encode_def by (rule decode_encode_from)

text \<open>Padding and white space are skipped wherever they stand, so the text is not canonical.\<close>

definition counted_char :: "byte \<Rightarrow> bool" where
  "counted_char c \<longleftrightarrow> c \<noteq> 0x3d \<and> \<not> is_ascii_whitespace c"

lemma base64_skips: "base64_decode (filter counted_char cs) = base64_decode cs"
proof -
  have "decode_from acc bits (filter counted_char cs) = decode_from acc bits cs" for acc bits
  proof (induction cs arbitrary: acc bits)
    case (Cons c cs)
    have "counted_char c \<longleftrightarrow> \<not> (c = 0x3d \<or> is_ascii_whitespace c)" by (simp add: counted_char_def)
    with Cons show ?case by (cases "counted_char c"; cases "table_position c BASE64"; cases "8 \<le> bits + 6") (simp_all add: Let_def)
  qed simp
  then show ?thesis by (simp add: base64_decode_def)
qed

end
