(* ===== verification/Signature.thy ===== *)
theory Signature
  imports Base64 Transparent Identity
begin

text \<open>
  Messages signed as a VerusID (\<open>verus-tx-identity/src/signature.rs\<close>): the hash that is signed,
  the signature as it travels, collecting the parts of several signers, and verifying.
  The text of a \<open>KeyError\<close> is a parameter.
\<close>

section \<open>The signature as it travels\<close>

definition SIGNATURE_PREFIX :: str where
  "SIGNATURE_PREFIX = ''Verus signed data:'' @ [char_of (10 :: nat)]"

definition IDENTITY_SIGNATURE_VERSION :: u8 where "IDENTITY_SIGNATURE_VERSION = 1"

record identity_signature =
  isg_block_height :: u32
  isg_signatures :: "bytes list"

fun write_parts :: "bytes \<Rightarrow> bytes list \<Rightarrow> bytes" where
  "write_parts out [] = out"
| "write_parts out (signature # signatures) =
     write_parts (write_compact_size out (of_nat (length signature)) @ signature) signatures"

definition signature_to_bytes :: "identity_signature \<Rightarrow> bytes" where
  "signature_to_bytes s =
     (let out = [IDENTITY_SIGNATURE_VERSION] @ u32_le (isg_block_height s);
          out = write_compact_size out (of_nat (length (isg_signatures s))) in
      write_parts out (isg_signatures s))"

text \<open>Reading moves along the bytes that are left; \<open>at\<close> is their offset.\<close>

definition take_le :: "nat \<Rightarrow> bytes \<Rightarrow> tx_error + u64 \<times> bytes" where
  "take_le n bs =
     (if n \<le> length bs then Inr (u64_from_le (take n bs @ replicate (8 - n) 0), drop n bs)
      else Inl (MessageSignature ''truncated length''))"

definition signature_size :: "bytes \<Rightarrow> tx_error + u64 \<times> bytes" where
  "signature_size bs = (case bs of
       [] \<Rightarrow> Inl (MessageSignature ''truncated length'')
     | first # bs \<Rightarrow>
         if first = 0xfd then take_le 2 bs
         else if first = 0xfe then take_le 4 bs
         else if first = 0xff then take_le 8 bs
         else Inr (ucast first, bs))"

fun read_parts :: "nat \<Rightarrow> bytes \<Rightarrow> tx_error + bytes list \<times> bytes" where
  "read_parts 0 bs = Inr ([], bs)"
| "read_parts (Suc n) bs =
     rbind (signature_size bs) (\<lambda>(len, bs).
     rbind (refuse_if (len \<noteq> 65) (MessageSignature
       (''a recoverable signature is 65 bytes, got '' @ dec_string (unat len)))) (\<lambda>_.
     rbind (refuse_if (length bs < 65) (MessageSignature ''truncated signature'')) (\<lambda>_.
     rbind (read_parts n (drop 65 bs)) (\<lambda>(signatures, bs').
     Inr (take 65 bs # signatures, bs')))))"

definition signature_from_bytes :: "bytes \<Rightarrow> tx_error + identity_signature" where
  "signature_from_bytes bs = (case bs of
       [] \<Rightarrow> Inl (MessageSignature ''empty signature'')
     | version # bs \<Rightarrow>
         rbind (refuse_if (version \<noteq> IDENTITY_SIGNATURE_VERSION) (MessageSignature
           (''unsupported identity signature version '' @ dec_string (unat version)))) (\<lambda>_.
         rbind (refuse_if (length bs < 4) (MessageSignature ''truncated block height'')) (\<lambda>_.
         rbind (signature_size (drop 4 bs)) (\<lambda>(count, bs').
         rbind (refuse_if (32 < count) (MessageSignature
           (dec_string (unat count) @ '' signatures is more than any identity requires''))) (\<lambda>_.
         rbind (read_parts (unat count) bs') (\<lambda>(signatures, bs').
         rbind (refuse_if (bs' \<noteq> []) (MessageSignature
           (dec_string (length bs') @ '' trailing bytes after the signature''))) (\<lambda>_.
         Inr \<lparr>isg_block_height = u32_from_le (take 4 bs), isg_signatures = signatures\<rparr>)))))))"

definition to_base64 :: "identity_signature \<Rightarrow> bytes" where
  "to_base64 s = base64_encode (signature_to_bytes s)"

definition from_base64 :: "bytes \<Rightarrow> tx_error + identity_signature" where
  "from_base64 text_bytes = rbind (base64_decode text_bytes) signature_from_bytes"

section \<open>What is signed\<close>

definition message_preimage :: "bytes \<Rightarrow> bytes" where
  "message_preimage message = write_compact_size [] (of_nat (length message)) @ message"

definition message_hash :: "hash_lib \<Rightarrow> bytes \<Rightarrow> bytes" where
  "message_hash H message = hl_sha256 H (message_preimage message)"

definition identity_signature_preimage :: "bytes \<Rightarrow> u32 \<Rightarrow> bytes \<Rightarrow> bytes \<Rightarrow> bytes" where
  "identity_signature_preimage system_id block_height identity_hash hash =
     write_compact_size [] (of_nat (length (ascii SIGNATURE_PREFIX))) @ ascii SIGNATURE_PREFIX @ system_id @
     u32_le block_height @ identity_hash @ hash"

definition identity_signature_hash :: "hash_lib \<Rightarrow> bytes \<Rightarrow> u32 \<Rightarrow> bytes \<Rightarrow> bytes \<Rightarrow> bytes" where
  "identity_signature_hash H system_id block_height identity_hash hash =
     hl_sha256 H (identity_signature_preimage system_id block_height identity_hash hash)"

section \<open>Signing and verifying\<close>

type_synonym key_text = "key_error \<Rightarrow> str"

definition sign_message ::
  "hash_lib \<Rightarrow> ('sk, 'vk, 'sg) ec_lib \<Rightarrow> key_text \<Rightarrow> 'sk private_key \<Rightarrow> bytes \<Rightarrow> bytes \<Rightarrow> u32 \<Rightarrow> bytes
    \<Rightarrow> tx_error + identity_signature" where
  "sign_message H E kt key system_id identity_hash block_height message =
     (let hash = identity_signature_hash H system_id block_height identity_hash (message_hash H message) in
      rbind (map_err (\<lambda>e. MessageSignature (kt e)) (sign_prehash_recoverable E key hash)) (\<lambda>signature.
      Inr \<lparr>isg_block_height = block_height, isg_signatures = [signature]\<rparr>))"

definition add_signature ::
  "hash_lib \<Rightarrow> ('sk, 'vk, 'sg) ec_lib \<Rightarrow> key_text \<Rightarrow> identity_signature \<Rightarrow> 'sk private_key \<Rightarrow> bytes \<Rightarrow> bytes \<Rightarrow> bytes
    \<Rightarrow> tx_error + identity_signature" where
  "add_signature H E kt existing key system_id identity_hash message =
     (let hash = identity_signature_hash H system_id (isg_block_height existing) identity_hash
        (message_hash H message) in
      rbind (map_err (\<lambda>e. MessageSignature (kt e)) (sign_prehash_recoverable E key hash)) (\<lambda>signature.
      Inr (if signature \<in> set (isg_signatures existing) then existing
           else existing\<lparr>isg_signatures := isg_signatures existing @ [signature]\<rparr>)))"

fun recover_parts ::
  "hash_lib \<Rightarrow> ('sk, 'vk, 'sg) ec_lib \<Rightarrow> key_text \<Rightarrow> bytes \<Rightarrow> address list \<Rightarrow> bytes list \<Rightarrow> tx_error + address list" where
  "recover_parts H E kt hash signers [] = Inr signers"
| "recover_parts H E kt hash signers (part # parts) =
     rbind (map_err (\<lambda>e. MessageSignature (kt e)) (recover E hash part)) (\<lambda>public_key.
     let address = public_address H E public_key in
     recover_parts H E kt hash (if address \<in> set signers then signers else signers @ [address]) parts)"

definition recover_signers ::
  "hash_lib \<Rightarrow> ('sk, 'vk, 'sg) ec_lib \<Rightarrow> key_text \<Rightarrow> identity_signature \<Rightarrow> bytes \<Rightarrow> bytes \<Rightarrow> bytes
    \<Rightarrow> tx_error + address list" where
  "recover_signers H E kt s system_id identity_hash message =
     recover_parts H E kt
       (identity_signature_hash H system_id (isg_block_height s) identity_hash (message_hash H message))
       [] (isg_signatures s)"

definition verify_message ::
  "hash_lib \<Rightarrow> ('sk, 'vk, 'sg) ec_lib \<Rightarrow> key_text \<Rightarrow> identity_signature \<Rightarrow> bytes \<Rightarrow> bytes \<Rightarrow> bytes \<Rightarrow> address list \<Rightarrow> u32
    \<Rightarrow> tx_error + bool" where
  "verify_message H E kt s system_id identity_hash message primary_addresses minimum_signatures =
     rbind (refuse_if (minimum_signatures = 0)
       (MessageSignature ''an identity requiring zero signatures would accept anything'')) (\<lambda>_.
     rbind (recover_signers H E kt s system_id identity_hash message) (\<lambda>signers.
     Inr (unat minimum_signatures \<le> length (filter (\<lambda>signer. signer \<in> set primary_addresses) signers))))"

section \<open>The signature survives travelling\<close>

lemma take_le_run:
  assumes "length xs = k" "k \<le> 8" "nat_of_le xs = n"
  shows "take_le k (xs @ bs) = Inr (of_nat n, bs)"
  using assms by (simp add: take_le_def u64_from_le_def)

lemma read_written_size: "signature_size (compact_bytes n @ bs) = Inr (n, bs)"
proof -
  consider (one) "n < 0xfd" | (two) "\<not> n < 0xfd" "n \<le> 0xffff" | (four) "\<not> n < 0xfd" "\<not> n \<le> 0xffff" "n \<le> 0xffffffff"
    | (eight) "\<not> n < 0xfd" "\<not> n \<le> 0xffff" "\<not> n \<le> 0xffffffff" by blast
  then show ?thesis
  proof cases
    case one
    then have n: "unat n < 253" by (simp add: word_less_nat_alt)
    then have u: "unat (ucast n :: byte) = unat n" by (simp add: unat_ucast)
    have "(ucast n :: byte) \<noteq> 0xfd" "(ucast n :: byte) \<noteq> 0xfe" "(ucast n :: byte) \<noteq> 0xff"
      using n u by (auto simp: word_unat_eq_iff)
    moreover have "ucast (ucast n :: byte) = n" using u by (simp add: word_unat_eq_iff unat_ucast)
    ultimately show ?thesis using one by (simp add: write_compact_size_def signature_size_def)
  next
    case two
    then have "unat n < 65536" by (simp add: word_le_nat_alt)
    then have "nat_of_le (u16_le (ucast n)) = unat n" by (simp add: u16_le_def le_simps unat_ucast)
    from take_le_run [of "u16_le (ucast n)" 2, OF _ _ this] two show ?thesis
      by (simp add: write_compact_size_def signature_size_def length_uN_le)
  next
    case four
    then have "unat n < 4294967296" by (simp add: word_le_nat_alt)
    then have "nat_of_le (u32_le (ucast n)) = unat n" by (simp add: u32_le_def le_simps unat_ucast)
    from take_le_run [of "u32_le (ucast n)" 4, OF _ _ this] four show ?thesis
      by (simp add: write_compact_size_def signature_size_def length_uN_le)
  next
    case eight
    have "nat_of_le (u64_le n) = unat n" using unat_u64 [of n] by (simp add: u64_le_def le_simps)
    from take_le_run [of "u64_le n" 8, OF _ _ this] eight show ?thesis
      by (simp add: write_compact_size_def signature_size_def length_uN_le)
  qed
qed

lemma write_parts_eq:
  "write_parts out sigs = out @ concat (map (\<lambda>g. compact_bytes (of_nat (length g)) @ g) sigs)"
proof (induction out sigs rule: write_parts.induct)
  case (2 out g gs)
  have "write_compact_size out (of_nat (length g)) = out @ compact_bytes (of_nat (length g))"
    by (rule write_compact_size_append)
  with 2 show ?case by simp
qed simp

definition recoverable :: "bytes list \<Rightarrow> bool" where
  "recoverable sigs \<longleftrightarrow> list_all (\<lambda>g. length g = 65) sigs"

lemma read_written_parts:
  "recoverable sigs \<Longrightarrow>
     read_parts (length sigs) (concat (map (\<lambda>g. compact_bytes (of_nat (length g)) @ g) sigs) @ bs) = Inr (sigs, bs)"
  by (induction sigs) (simp_all add: recoverable_def read_written_size)

lemma read_parts_recoverable: "read_parts n bs = Inr (sigs, bs') \<Longrightarrow> recoverable sigs \<and> length sigs = n"
  by (induction n bs arbitrary: sigs bs' rule: read_parts.induct)
    (fastforce simp: recoverable_def rbind_Inr_iff refuse_if_Inr_iff not_less)+

lemma from_written:
  assumes "recoverable (isg_signatures s)" "length (isg_signatures s) < usize_bound"
  shows "signature_from_bytes (signature_to_bytes s) =
    (if length (isg_signatures s) \<le> 32 then Inr s
     else Inl (MessageSignature (dec_string (length (isg_signatures s)) @
       '' signatures is more than any identity requires'')))"
proof -
  let ?n = "length (isg_signatures s)"
  let ?parts = "concat (map (\<lambda>g. compact_bytes (of_nat (length g)) @ g) (isg_signatures s))"
  have bytes: "signature_to_bytes s = IDENTITY_SIGNATURE_VERSION # u32_le (isg_block_height s) @ compact_bytes (of_nat ?n) @ ?parts"
    unfolding signature_to_bytes_def Let_def write_parts_eq
    by (simp add: write_compact_size_append [of "_ # _"])
  have u: "unat (of_nat ?n :: u64) = ?n" using assms(2) by (simp add: unat_of_nat_u64)
  then have c: "(32 :: u64) < of_nat ?n \<longleftrightarrow> 32 < ?n" by (simp add: word_less_nat_alt)
  show ?thesis
    unfolding bytes
    using read_written_parts [OF assms(1), of "[]"] u c
    by (simp add: signature_from_bytes_def length_uN_le read_written_size uN_from_le_uN_le refuse_if_def)
qed

lemma from_bytes_recoverable:
  "signature_from_bytes bs = Inr s \<Longrightarrow> recoverable (isg_signatures s) \<and> length (isg_signatures s) \<le> 32"
  by (auto simp: signature_from_bytes_def rbind_Inr_iff refuse_if_Inr_iff word_le_nat_alt not_less
      dest!: read_parts_recoverable split: list.splits)

text \<open>
  C22: a message signature survives its text form.  A signature of up to 32 parts of 65 bytes
  reads back from its base64 unchanged, also with padding and white space taken out of or put
  into the text; more parts are written but refused when read, with their number.  Nothing
  else is ever read: what is read has at most 32 parts, each of 65 bytes.
\<close>

theorem signature_travels:
  assumes "length (isg_signatures s) < usize_bound"
  shows "(recoverable (isg_signatures s) \<longrightarrow> filter counted_char given = filter counted_char (to_base64 s) \<longrightarrow>
      from_base64 given = (if length (isg_signatures s) \<le> 32 then Inr s
        else Inl (MessageSignature (dec_string (length (isg_signatures s)) @
          '' signatures is more than any identity requires'')))) \<and>
    (from_base64 given = Inr s \<longrightarrow> recoverable (isg_signatures s) \<and> length (isg_signatures s) \<le> 32)"
proof (intro conjI impI)
  assume "recoverable (isg_signatures s)" "filter counted_char given = filter counted_char (to_base64 s)"
  moreover from this(2) have "base64_decode given = base64_decode (to_base64 s)"
    using base64_skips [of given] base64_skips [of "to_base64 s"] by simp
  ultimately show "from_base64 given = (if length (isg_signatures s) \<le> 32 then Inr s
        else Inl (MessageSignature (dec_string (length (isg_signatures s)) @
          '' signatures is more than any identity requires'')))"
    using from_written [of s] assms by (simp add: from_base64_def to_base64_def base64_roundtrip)
next
  assume "from_base64 given = Inr s"
  then show "recoverable (isg_signatures s)" "length (isg_signatures s) \<le> 32"
    using from_bytes_recoverable by (auto simp: from_base64_def rbind_Inr_iff)
qed

lemma signature_travels_witness:
  "from_base64 (0x20 # to_base64 \<lparr>isg_block_height = 7, isg_signatures = [replicate 65 1]\<rparr>) =
     Inr \<lparr>isg_block_height = 7, isg_signatures = [replicate 65 1]\<rparr>"
  using signature_travels [of "\<lparr>isg_block_height = 7, isg_signatures = [replicate 65 1]\<rparr>"
      "0x20 # to_base64 \<lparr>isg_block_height = 7, isg_signatures = [replicate 65 1]\<rparr>"]
  by (simp add: recoverable_def counted_char_def is_ascii_whitespace_def)

section \<open>What a signature is of\<close>

text \<open>
  A signed hash names one statement.  If the hashes of two statements agree, and SHA-256
  has no collision among the four texts that were hashed for them, then the chain, the height,
  the identity and the message are the same.
\<close>

theorem signed_hash_binds:
  assumes "identity_signature_hash H c h i (message_hash H m) = identity_signature_hash H c' h' i' (message_hash H m')"
    and "hash_lib_ok H"
    and "inj_on (hl_sha256 H) {message_preimage m, message_preimage m',
      identity_signature_preimage c h i (message_hash H m), identity_signature_preimage c' h' i' (message_hash H m')}"
    and "length c = 20" "length c' = 20" "length i = 20" "length i' = 20"
    and "length m < usize_bound" "length m' < usize_bound"
  shows "c = c' \<and> h = h' \<and> i = i' \<and> m = m'"
proof -
  have "identity_signature_preimage c h i (message_hash H m) = identity_signature_preimage c' h' i' (message_hash H m')"
    by (rule inj_onD [OF assms(3) assms(1) [unfolded identity_signature_hash_def]]) blast+
  then have "c @ u32_le h @ i @ message_hash H m = c' @ u32_le h' @ i' @ message_hash H m'"
    by (simp add: identity_signature_preimage_def)
  then have eq: "c = c'" "u32_le h = u32_le h'" "i = i'" "message_hash H m = message_hash H m'"
    using assms(4-7) by (auto simp: length_uN_le)
  have "h = h'" using arg_cong [OF eq(2), of u32_from_le] by (simp add: uN_from_le_uN_le)
  have "message_preimage m = message_preimage m'"
    by (rule inj_onD [OF assms(3) eq(4) [unfolded message_hash_def]]) blast+
  then have "signature_size (message_preimage m) = signature_size (message_preimage m')" by simp
  then have "m = m'" by (simp add: message_preimage_def read_written_size)
  with eq \<open>h = h'\<close> show ?thesis by simp
qed

section \<open>Verifying\<close>

definition signers_of :: "hash_lib \<Rightarrow> ('sk, 'vk, 'sg) ec_lib \<Rightarrow> bytes \<Rightarrow> bytes list \<Rightarrow> address set" where
  "signers_of H E hash parts = {a. \<exists>part \<in> set parts. \<exists>key. recover E hash part = Inr key \<and> a = public_address H E key}"

lemma signers_of_simps [simp]:
  "signers_of H E hash [] = {}"
  "recover E hash part = Inr key \<Longrightarrow> signers_of H E hash (part # parts) = insert (public_address H E key) (signers_of H E hash parts)"
  by (auto simp: signers_of_def)

lemma recover_parts_signers:
  "recover_parts H E kt hash signers parts = Inr out \<Longrightarrow> distinct signers \<Longrightarrow>
     distinct out \<and> set out = set signers \<union> signers_of H E hash parts \<and>
     (\<forall>part \<in> set parts. \<exists>key. recover E hash part = Inr key)"
proof (induction parts arbitrary: signers)
  case (Cons part parts)
  then obtain key where key: "recover E hash part = Inr key"
    and run: "recover_parts H E kt hash (if public_address H E key \<in> set signers then signers
       else signers @ [public_address H E key]) parts = Inr out"
    by (auto simp: rbind_Inr_iff map_err_Inr_iff Let_def)
  with Cons.IH [OF run] Cons.prems(2) show ?case by auto
qed simp

lemma recover_parts_total:
  "\<forall>part \<in> set parts. \<exists>key. recover E hash part = Inr key \<Longrightarrow> \<exists>out. recover_parts H E kt hash signers parts = Inr out"
  by (induction parts arbitrary: signers) (auto simp: Let_def)

lemma verify_message_Inr:
  fixes H E s c i m
  defines "hash \<equiv> identity_signature_hash H c (isg_block_height s) i (message_hash H m)"
  shows "verify_message H E kt s c i m primary minimum = Inr b \<longleftrightarrow>
    minimum \<noteq> 0 \<and> (\<forall>part \<in> set (isg_signatures s). \<exists>key. recover E hash part = Inr key) \<and>
    b = (unat minimum \<le> card (set primary \<inter> signers_of H E hash (isg_signatures s)))"
proof -
  have count: "length (filter (\<lambda>a. a \<in> set primary) out) = card (set primary \<inter> signers_of H E hash (isg_signatures s))"
    if "recover_parts H E kt hash [] (isg_signatures s) = Inr out" for out
  proof -
    note out = recover_parts_signers [OF that distinct.simps(1) [THEN iffD2, OF TrueI]]
    have "length (filter (\<lambda>a. a \<in> set primary) out) = card (set (filter (\<lambda>a. a \<in> set primary) out))"
      using out by (intro distinct_card [symmetric]) simp
    also have "set (filter (\<lambda>a. a \<in> set primary) out) = set primary \<inter> signers_of H E hash (isg_signatures s)"
      using out by auto
    finally show ?thesis .
  qed
  show ?thesis
    using count recover_parts_signers [of H E kt hash "[]" "isg_signatures s"]
      recover_parts_total [of "isg_signatures s" E hash H kt "[]"]
    by (auto simp: verify_message_def recover_signers_def rbind_Inr_iff refuse_if_Inr_iff hash_def [symmetric])
qed

text \<open>
  C23: what verifying means.  A threshold of zero is an error, and so is a part that is not a
  recoverable signature; otherwise the answer is whether the distinct primary addresses
  among those recovered from the parts, over the hash of this statement at the height the
  signature names, reach the threshold: a repeated part or a stranger's counts for nothing.
\<close>

theorem verify_counts_signers:
  "(minimum = 0 \<longrightarrow> (\<exists>e. verify_message H E kt s c i m primary minimum = Inl (MessageSignature e))) \<and>
   (verify_message H E kt s c i m primary minimum = Inr b \<longleftrightarrow>
      minimum \<noteq> 0 \<and>
      (\<forall>part \<in> set (isg_signatures s).
         \<exists>key. recover E (identity_signature_hash H c (isg_block_height s) i (message_hash H m)) part = Inr key) \<and>
      b = (unat minimum \<le> card (set primary \<inter>
        signers_of H E (identity_signature_hash H c (isg_block_height s) i (message_hash H m)) (isg_signatures s))))"
  using verify_message_Inr [of H E kt s c i m primary minimum b] by (simp add: verify_message_def)

lemma verify_counts_signers_witness:
  "verify_message toy_hash_lib toy_ec_lib (\<lambda>_. []) \<lparr>isg_block_height = 7, isg_signatures = []\<rparr> [] [] [] [] 1 = Inr False"
  using verify_counts_signers [of 1 toy_hash_lib toy_ec_lib "\<lambda>_. []" "\<lparr>isg_block_height = 7, isg_signatures = []\<rparr>"
      "[]" "[]" "[]" "[]" False]
  by simp

lemma recover_signed:
  assumes "ec_lib_ok E"
  obtains sig where "sign_prehash_recoverable E k hash = Inr sig" "length sig = 65"
    "recover E hash sig = Inr (private_public_key E k)"
proof -
  obtain g r where gr: "el_sign_recoverable E (sk_signing_key k) hash = (g, r)" by force
  with assms have r: "unat r < 4" "el_recover E hash g r = Some (el_verifying_key E (sk_signing_key k))"
    "el_sig_from_slice E (el_sig_to_bytes E g) = Some g" "length (el_sig_to_bytes E g) = 64"
    by (auto simp: ec_lib_ok_def)
  have "r < 4" using r(1) by (simp add: word_less_nat_alt)
  then have "recover E hash ((27 + r + (if sk_compressed k then 4 else 0)) # el_sig_to_bytes E g) = Inr (private_public_key E k)"
    using r recovery_header [OF r(1), of "sk_compressed k"]
    by (simp add: recover_def private_public_key_def Let_def del: diff_add_cancel add_diff_cancel_left')
  with r(4) gr that show thesis by (simp add: sign_prehash_recoverable_def)
qed

text \<open>Everyone in turn adds a part to what the first has signed.\<close>

fun add_all ::
  "hash_lib \<Rightarrow> ('sk, 'vk, 'sg) ec_lib \<Rightarrow> key_text \<Rightarrow> bytes \<Rightarrow> bytes \<Rightarrow> bytes \<Rightarrow> 'sk private_key list \<Rightarrow> identity_signature
    \<Rightarrow> tx_error + identity_signature" where
  "add_all H E kt c i m [] s = Inr s"
| "add_all H E kt c i m (k # ks) s = rbind (add_signature H E kt s k c i m) (add_all H E kt c i m ks)"

definition signed_by ::
  "hash_lib \<Rightarrow> ('sk, 'vk, 'sg) ec_lib \<Rightarrow> bytes \<Rightarrow> 'sk private_key set \<Rightarrow> identity_signature \<Rightarrow> bool" where
  "signed_by H E hash ks s \<longleftrightarrow> recoverable (isg_signatures s) \<and>
     (\<forall>part \<in> set (isg_signatures s). \<exists>key. recover E hash part = Inr key) \<and>
     signers_of H E hash (isg_signatures s) = private_address H E ` ks"

lemma add_all_signed:
  assumes "ec_lib_ok E"
  shows "signed_by H E (identity_signature_hash H c h i (message_hash H m)) ks0 s \<Longrightarrow> isg_block_height s = h \<Longrightarrow>
    \<exists>s'. add_all H E kt c i m ks s = Inr s' \<and> isg_block_height s' = h \<and>
      length (isg_signatures s') \<le> length (isg_signatures s) + length ks \<and>
      signed_by H E (identity_signature_hash H c h i (message_hash H m)) (ks0 \<union> set ks) s'"
proof (induction ks arbitrary: s ks0)
  case (Cons k ks)
  let ?hash = "identity_signature_hash H c h i (message_hash H m)"
  obtain sig where sig: "sign_prehash_recoverable E k ?hash = Inr sig" "length sig = 65"
    "recover E ?hash sig = Inr (private_public_key E k)"
    by (rule recover_signed [OF assms])
  let ?s = "if sig \<in> set (isg_signatures s) then s else s\<lparr>isg_signatures := isg_signatures s @ [sig]\<rparr>"
  have add: "add_signature H E kt s k c i m = Inr ?s"
    using sig(1) Cons.prems(2) by (simp add: add_signature_def)
  have addr: "private_address H E k = public_address H E (private_public_key E k)" by (simp add: private_address_def)
  have "private_address H E k \<in> signers_of H E ?hash (isg_signatures s)" if "sig \<in> set (isg_signatures s)"
    using that sig(3) unfolding signers_of_def addr by blast
  moreover have "signers_of H E ?hash (isg_signatures s @ [sig]) = insert (private_address H E k) (signers_of H E ?hash (isg_signatures s))"
    using sig(3) by (auto simp: signers_of_def addr)
  ultimately have "signed_by H E ?hash (insert k ks0) ?s"
    using Cons.prems(1) sig(2,3) by (auto simp: signed_by_def recoverable_def)
  moreover have "isg_block_height ?s = h" using Cons.prems(2) by simp
  ultimately obtain s' where s': "add_all H E kt c i m ks ?s = Inr s'" "isg_block_height s' = h"
    "length (isg_signatures s') \<le> length (isg_signatures ?s) + length ks"
    "signed_by H E ?hash (insert k ks0 \<union> set ks) s'"
    using Cons.IH by blast
  have "length (isg_signatures ?s) \<le> length (isg_signatures s) + 1" by simp
  then have "length (isg_signatures s') \<le> length (isg_signatures s) + length (k # ks)" using s'(3) by simp
  then show ?case using s'(1,2,4) add by auto
qed auto

text \<open>
  C24: co-signing reaches the threshold.  Whatever keys sign a statement one after the other,
  signing never fails, and the result verifies for that statement exactly when the distinct
  primary addresses among theirs reach the threshold, also after travelling as text when
  there are at most 32 keys.
\<close>

theorem cosigning_reaches_threshold:
  fixes E :: "('sk, 'vk, 'sg) ec_lib"
  assumes "ec_lib_ok E" "minimum \<noteq> 0"
  shows "\<exists>s. rbind (sign_message H E kt k c i h m) (add_all H E kt c i m ks) = Inr s \<and>
     (length ks < 32 \<longrightarrow> from_base64 (to_base64 s) = Inr s) \<and>
     verify_message H E kt s c i m primary minimum =
       Inr (unat minimum \<le> card (set primary \<inter> private_address H E ` set (k # ks)))"
proof -
  let ?hash = "identity_signature_hash H c h i (message_hash H m)"
  obtain sig where sig: "sign_prehash_recoverable E k ?hash = Inr sig" "length sig = 65"
    "recover E ?hash sig = Inr (private_public_key E k)"
    by (rule recover_signed [OF assms(1)])
  let ?s = "\<lparr>isg_block_height = h, isg_signatures = [sig]\<rparr>"
  have "sign_message H E kt k c i h m = Inr ?s" using sig(1) by (simp add: sign_message_def)
  moreover have "signed_by H E ?hash {k} ?s"
    using sig(2,3) by (simp add: signed_by_def recoverable_def private_address_def)
  then obtain s where s: "add_all H E kt c i m ks ?s = Inr s" "isg_block_height s = h"
    "length (isg_signatures s) \<le> 1 + length ks" "signed_by H E ?hash (set (k # ks)) s"
    using add_all_signed [OF assms(1), of H c h i m "{k}" ?s kt ks] by auto
  moreover have "verify_message H E kt s c i m primary minimum =
      Inr (unat minimum \<le> card (set primary \<inter> private_address H E ` set (k # ks)))"
    unfolding verify_message_Inr using s(2,4) assms(2) by (simp add: signed_by_def)
  moreover have "from_base64 (to_base64 s) = Inr s" if "length ks < 32"
    using from_written [of s] s(3,4) that by (simp add: from_base64_def to_base64_def base64_roundtrip signed_by_def)
  ultimately show ?thesis by auto
qed

lemma cosigning_reaches_threshold_witness:
  "\<exists>s. rbind (sign_message toy_hash_lib toy_ec_lib (\<lambda>_. []) sample_key [] [] 5 [1])
       (add_all toy_hash_lib toy_ec_lib (\<lambda>_. []) [] [] [1] [sample_key]) = Inr s \<and>
     verify_message toy_hash_lib toy_ec_lib (\<lambda>_. []) s [] [] [1] [private_address toy_hash_lib toy_ec_lib sample_key] 2 =
       Inr False"
proof -
  have "unat (2 :: u32) \<le> card ({private_address toy_hash_lib toy_ec_lib sample_key} \<inter>
      private_address toy_hash_lib toy_ec_lib ` {sample_key}) \<longleftrightarrow> False" by simp
  then show ?thesis
    using cosigning_reaches_threshold [OF toy_ec_lib_ok, of 2 toy_hash_lib "\<lambda>_. []" sample_key "[]" "[]" 5 "[1]" "[sample_key]"
        "[private_address toy_hash_lib toy_ec_lib sample_key]"] by auto
qed

text \<open>A hash that keeps the last 32 bytes tells the statements below apart.\<close>

definition tail_hash_lib :: hash_lib where
  "tail_hash_lib = toy_hash_lib\<lparr>hl_sha256 := (\<lambda>x. take 32 (rev x @ replicate 32 0))\<rparr>"

lemma signed_hash_binds_witness:
  "identity_signature_hash tail_hash_lib (replicate 20 1) 5 (replicate 20 2) (message_hash tail_hash_lib [3]) \<noteq>
     identity_signature_hash tail_hash_lib (replicate 20 1) 5 (replicate 20 2) (message_hash tail_hash_lib [4])"
proof
  assume eq: "identity_signature_hash tail_hash_lib (replicate 20 1) 5 (replicate 20 2) (message_hash tail_hash_lib [3]) =
     identity_signature_hash tail_hash_lib (replicate 20 1) 5 (replicate 20 2) (message_hash tail_hash_lib [4])"
  have ok: "hash_lib_ok tail_hash_lib" using toy_hash_lib_ok by (auto simp: hash_lib_ok_def tail_hash_lib_def min_def)
  let ?xs = "[message_preimage [3], message_preimage [4],
      identity_signature_preimage (replicate 20 1) 5 (replicate 20 2) (message_hash tail_hash_lib [3]),
      identity_signature_preimage (replicate 20 1) 5 (replicate 20 2) (message_hash tail_hash_lib [4])]"
  have "distinct (map (hl_sha256 tail_hash_lib) ?xs)" by code_simp
  then have inj: "inj_on (hl_sha256 tail_hash_lib) (set ?xs)" by (simp only: distinct_map)
  have "[3 :: byte] = [4]"
    using signed_hash_binds [OF eq ok] inj by simp
  then show False by simp
qed

end
