(* ===== verification/Partial.thy ===== *)
theory Partial
  imports Transparent
begin

text \<open>
  Signing a transaction in more than one place (\<open>verus-tx-market/src/partial.rs\<close>): a
  transaction with the signatures gathered so far, the bytes it is handed to a co-signer as, and
  the finished transaction.  A method that takes \<open>&mut self\<close> is a function to its result and
  the state it leaves, on the error path too.
\<close>

section \<open>The state\<close>

datatype input_kind = KeyHashInput | ConditionInput

record collected_signature =
  cs_pubkey :: bytes
  cs_bytes :: bytes

record partial_input =
  pi_outpoint :: "txid \<times> u32"
  pi_script_pubkey :: bytes
  pi_value :: amount
  pi_kind :: input_kind
  pi_hash_type :: u32
  pi_signatures :: "collected_signature list"

record partial_transaction =
  pt_outputs :: "tx_out list"
  pt_inputs :: "partial_input list"
  pt_expiry :: expiry
  pt_lock_time :: u32

record summary =
  sm_total_in :: amount
  sm_total_out :: amount
  sm_fee_and_burn :: amount
  sm_outputs :: "(amount \<times> address option) list"
  sm_signatures_per_input :: "nat list"
  sm_hash_types :: "u32 list"

definition commits_to_all_outputs :: "summary \<Rightarrow> bool" where
  "commits_to_all_outputs s \<longleftrightarrow> (\<forall>hash_type \<in> set (sm_hash_types s). hash_type = SIGHASH_ALL)"

definition fresh_input :: "utxo \<Rightarrow> input_kind \<Rightarrow> partial_input" where
  "fresh_input u kind =
     \<lparr>pi_outpoint = (utxo_txid u, utxo_vout u), pi_script_pubkey = utxo_script_pubkey u,
      pi_value = utxo_satoshis u, pi_kind = kind, pi_hash_type = SIGHASH_ALL, pi_signatures = []\<rparr>"

definition partial_start ::
  "utxo list \<Rightarrow> input_kind list \<Rightarrow> tx_out list \<Rightarrow> expiry \<Rightarrow> u32 \<Rightarrow> tx_error + partial_transaction" where
  "partial_start inputs kinds outputs expiry lock_time =
     rbind (refuse_if (length inputs \<noteq> length kinds) (PrevoutCountMismatch (length inputs) (length kinds))) (\<lambda>_.
     Inr \<lparr>pt_outputs = outputs, pt_inputs = map2 fresh_input inputs kinds, pt_expiry = expiry,
          pt_lock_time = lock_time\<rparr>)"

definition skeleton :: "partial_transaction \<Rightarrow> tx_v4" where
  "skeleton p = tx_default\<lparr>
     tx_inputs := map (\<lambda>i. tx_in_unsigned (to_internal (fst (pi_outpoint i))) (snd (pi_outpoint i)) 0xffffffff) (pt_inputs p),
     tx_outputs := pt_outputs p, tx_lock_time := pt_lock_time p, tx_expiry_height := to_height (pt_expiry p)\<rparr>"

section \<open>Signing\<close>

definition partial_sighash :: "('sk, 'vk, 'sg) env \<Rightarrow> partial_transaction \<Rightarrow> nat \<Rightarrow> tx_error + bytes" where
  "partial_sighash E p index =
     (if index < length (pt_inputs p) then
        let input = pt_inputs p ! index in
        map_err Wire (transparent_sighash (env_blake2b E) (skeleton p) VERUS_BRANCH_ID index
          (pi_script_pubkey input) (to_sat (pi_value input)) (pi_hash_type input))
      else Inl (PrevoutCountMismatch (length (pt_inputs p)) index))"

abbreviation set_input :: "partial_transaction \<Rightarrow> nat \<Rightarrow> partial_input \<Rightarrow> partial_transaction" where
  "set_input p index input \<equiv> p\<lparr>pt_inputs := (pt_inputs p)[index := input]\<rparr>"

definition with_hash_type ::
  "('sk, 'vk, 'sg) env \<Rightarrow> partial_transaction \<Rightarrow> nat \<Rightarrow> u32 \<Rightarrow> (tx_error + unit) \<times> partial_transaction" where
  "with_hash_type E p index hash_type =
     (if index < length (pt_inputs p) then
        let input = pt_inputs p ! index in
        if pi_signatures input \<noteq> [] then
          (Inl (MalformedPartialTransaction (''input '' @ dec_string index @ '' already carries '' @
             dec_string (length (pi_signatures input)) @ '' signature(s); changing its sighash type '' @
             ''would invalidate them'')), p)
        else
          let p' = set_input p index (input\<lparr>pi_hash_type := hash_type\<rparr>) in
          case partial_sighash E p' index of
            Inl e \<Rightarrow> (Inl e, set_input p' index ((pt_inputs p' ! index)\<lparr>pi_hash_type := pi_hash_type input\<rparr>))
          | Inr _ \<Rightarrow> (Inr (), p')
      else (Inl (PrevoutCountMismatch (length (pt_inputs p)) index), p))"

text \<open>\<open>{:#x}\<close>\<close>

fun hex_nat :: "nat \<Rightarrow> str" where
  "hex_nat n = (if n < 16 then [hex_digit n] else hex_nat (n div 16) @ [hex_digit (n mod 16)])"

declare hex_nat.simps [simp del]

definition hash_type_byte :: "u32 \<Rightarrow> tx_error + u8" where
  "hash_type_byte hash_type =
     (if unat hash_type < 256 then Inr (ucast hash_type)
      else Inl (MalformedPartialTransaction (''sighash type 0x'' @ hex_nat (unat hash_type) @
        '' does not fit in the byte a scriptSig carries'')))"

text \<open>The signature of a key over one input, if it makes one; the body of the loop of \<open>sign\<close>.\<close>

definition sign_input ::
  "('sk, 'vk, 'sg) env \<Rightarrow> 'sk private_key \<Rightarrow> partial_transaction \<Rightarrow> nat \<Rightarrow> tx_error + collected_signature option" where
  "sign_input E key p index =
     (let pubkey = public_to_bytes (env_ec E) (private_public_key (env_ec E) key);
          owner = addr_hash (private_address (env_hash E) (env_ec E) key);
          input = pt_inputs p ! index in
      rbind (partial_sighash E p index) (\<lambda>sighash.
      if \<exists>s \<in> set (pi_signatures input). cs_pubkey s = pubkey then Inr None
      else case pi_kind input of
        KeyHashInput \<Rightarrow>
          (case from_p2pkh_script_pubkey (pi_script_pubkey input) of
             Some address \<Rightarrow>
               if addr_hash address = owner
               then rbind (hash_type_byte (pi_hash_type input)) (\<lambda>b.
                 rbind (map_err Key (sign_prehash_der (env_ec E) key sighash b)) (\<lambda>signature.
                 Inr (Some \<lparr>cs_pubkey = pubkey, cs_bytes = signature\<rparr>)))
               else Inr None
           | None \<Rightarrow> Inr None)
      | ConditionInput \<Rightarrow>
          rbind (map_err Key (sign_prehash_compact (env_ec E) key sighash)) (\<lambda>signature.
          Inr (Some \<lparr>cs_pubkey = pubkey, cs_bytes = signature\<rparr>))))"

definition push_signature :: "partial_transaction \<Rightarrow> nat \<Rightarrow> collected_signature \<Rightarrow> partial_transaction" where
  "push_signature p index s =
     (let input = pt_inputs p ! index in
      set_input p index (input\<lparr>pi_signatures := pi_signatures input @ [s]\<rparr>))"

fun sign_each ::
  "('sk, 'vk, 'sg) env \<Rightarrow> 'sk private_key \<Rightarrow> nat list \<Rightarrow> nat \<Rightarrow> partial_transaction
    \<Rightarrow> (tx_error + nat) \<times> partial_transaction" where
  "sign_each E key [] signed_count p = (Inr signed_count, p)"
| "sign_each E key (index # indices) signed_count p =
     (case sign_input E key p index of
        Inl e \<Rightarrow> (Inl e, p)
      | Inr None \<Rightarrow> sign_each E key indices signed_count p
      | Inr (Some s) \<Rightarrow> sign_each E key indices (Suc signed_count) (push_signature p index s))"

definition partial_sign ::
  "('sk, 'vk, 'sg) env \<Rightarrow> partial_transaction \<Rightarrow> 'sk private_key \<Rightarrow> (tx_error + nat) \<times> partial_transaction" where
  "partial_sign E p key = sign_each E key [0..<length (pt_inputs p)] 0 p"

definition is_complete :: "partial_transaction \<Rightarrow> bool" where
  "is_complete p \<longleftrightarrow> (\<forall>input \<in> set (pt_inputs p). pi_signatures input \<noteq> [])"

section \<open>Looking and finishing\<close>

definition input_values :: "partial_transaction \<Rightarrow> amount list" where
  "input_values p = map pi_value (pt_inputs p)"

definition output_values :: "partial_transaction \<Rightarrow> amount list" where
  "output_values p = map (from_sat \<circ> out_value) (pt_outputs p)"

definition summarize :: "partial_transaction \<Rightarrow> tx_error + summary" where
  "summarize p =
     rbind (ok_or (amount_checked_sum (input_values p)) ValueOverflow) (\<lambda>total_in.
     rbind (ok_or (amount_checked_sum (output_values p)) ValueOverflow) (\<lambda>total_out.
     rbind (ok_or (amount_checked_sub total_in total_out)
       (ValueNotConserved (to_sat total_in) (to_sat total_out) (uint (to_sat total_in) - uint (to_sat total_out)) 0)) (\<lambda>fee.
     Inr \<lparr>sm_total_in = total_in, sm_total_out = total_out, sm_fee_and_burn = fee,
          sm_outputs = map (\<lambda>out. (from_sat (out_value out), from_p2pkh_script_pubkey (out_script_pubkey out))) (pt_outputs p),
          sm_signatures_per_input = map (length \<circ> pi_signatures) (pt_inputs p),
          sm_hash_types = map pi_hash_type (pt_inputs p)\<rparr>)))"

definition verify_collected ::
  "('sk, 'vk, 'sg) env \<Rightarrow> bytes \<Rightarrow> collected_signature \<Rightarrow> input_kind \<Rightarrow> nat \<Rightarrow> tx_error + unit" where
  "verify_collected E sighash s kind index =
     rbind (map_err (\<lambda>_. InvalidInputSignature index) (public_from_bytes (env_ec E) (cs_pubkey s))) (\<lambda>pubkey.
     refuse_if (\<not> (case kind of
         KeyHashInput \<Rightarrow> verify_der (env_ec E) pubkey sighash (butlast (cs_bytes s))
       | ConditionInput \<Rightarrow> verify_compact (env_ec E) pubkey sighash (cs_bytes s)))
       (InvalidInputSignature index))"

definition finished_script_sig :: "partial_input \<Rightarrow> nat \<Rightarrow> tx_error + bytes" where
  "finished_script_sig input index =
     (case pi_kind input of
        KeyHashInput \<Rightarrow>
          let s = pi_signatures input ! 0 in
          rbind (refuse_if (255 < length (cs_bytes s)) (MissingSignature index)) (\<lambda>_.
          rbind (refuse_if (255 < length (cs_pubkey s)) (MissingSignature index)) (\<lambda>_.
          Inr ([of_nat (length (cs_bytes s))] @ cs_bytes s @ [of_nat (length (cs_pubkey s))] @ cs_pubkey s)))
      | ConditionInput \<Rightarrow>
          rbind (rmap (\<lambda>s. rbind (refuse_if (length (cs_bytes s) \<noteq> 64) (MissingSignature index)) (\<lambda>_.
            Inr (cs_pubkey s, cs_bytes s))) (pi_signatures input)) (\<lambda>signatures.
          rbind (hash_type_byte (pi_hash_type input)) (\<lambda>b.
          fulfillment_script_sig signatures b)))"

definition finish_input :: "('sk, 'vk, 'sg) env \<Rightarrow> partial_transaction \<Rightarrow> nat \<Rightarrow> tx_error + bytes" where
  "finish_input E p index =
     (let input = pt_inputs p ! index in
      rbind (refuse_if (pi_signatures input = []) (MissingSignature index)) (\<lambda>_.
      rbind (partial_sighash E p index) (\<lambda>sighash.
      rbind (rmap (\<lambda>s. verify_collected E sighash s (pi_kind input) index) (pi_signatures input)) (\<lambda>_.
      finished_script_sig input index))))"

definition fill_script_sigs :: "tx_v4 \<Rightarrow> bytes list \<Rightarrow> tx_v4" where
  "fill_script_sigs t script_sigs =
     t\<lparr>tx_inputs := map2 (\<lambda>i s. i\<lparr>in_script_sig := s\<rparr>) (tx_inputs t) script_sigs\<rparr>"

definition partial_finalize ::
  "('sk, 'vk, 'sg) env \<Rightarrow> partial_transaction \<Rightarrow> tx_error + signed_transaction" where
  "partial_finalize E p =
     rbind (rmap (finish_input E p) [0..<length (pt_inputs p)]) (\<lambda>script_sigs.
     let t = fill_script_sigs (skeleton p) script_sigs in
     rbind (map_err Wire (serialize t)) (\<lambda>raw.
     rbind (ok_or (amount_checked_sum (input_values p)) ValueOverflow) (\<lambda>total_in.
     rbind (ok_or (amount_checked_sum (output_values p)) ValueOverflow) (\<lambda>total_out.
     rbind (map_err Wire (tx_txid (hl_sha256 (env_hash E)) t)) (\<lambda>txid.
     Inr \<lparr>st_hex = env_hex E raw, st_txid = txid_display txid,
          st_fee = (case amount_checked_sub total_in total_out of Some fee \<Rightarrow> fee | None \<Rightarrow> amount_zero),
          st_change = amount_zero, st_inputs_used = map pi_outpoint (pt_inputs p)\<rparr>)))))"

section \<open>The bytes a co-signer is handed\<close>

definition MAGIC :: bytes where "MAGIC = ascii ''VRSCPSIG''"
definition FORMAT_VERSION :: u8 where "FORMAT_VERSION = 2"
definition FORMAT_VERSION_V1 :: u8 where "FORMAT_VERSION_V1 = 1"

abbreviation pt_compact :: "nat \<Rightarrow> bytes" where
  "pt_compact n \<equiv> compact_bytes (of_nat n)"

fun kind_byte :: "input_kind \<Rightarrow> u8" where
  "kind_byte KeyHashInput = 0"
| "kind_byte ConditionInput = 1"

definition pt_output_bytes :: "tx_out \<Rightarrow> bytes" where
  "pt_output_bytes out = u64_le (out_value out) @ slice_bytes (out_script_pubkey out)"

definition collected_bytes :: "collected_signature \<Rightarrow> bytes" where
  "collected_bytes s = slice_bytes (cs_pubkey s) @ slice_bytes (cs_bytes s)"

definition partial_input_bytes :: "partial_input \<Rightarrow> bytes" where
  "partial_input_bytes i =
     to_internal (fst (pi_outpoint i)) @ u32_le (snd (pi_outpoint i)) @ slice_bytes (pi_script_pubkey i) @
     u64_le (to_sat (pi_value i)) @ [kind_byte (pi_kind i)] @ u32_le (pi_hash_type i) @
     pt_compact (length (pi_signatures i)) @ concat (map collected_bytes (pi_signatures i))"

definition partial_to_bytes :: "partial_transaction \<Rightarrow> bytes" where
  "partial_to_bytes p =
     MAGIC @ [FORMAT_VERSION] @ u32_le (to_height (pt_expiry p)) @ u32_le (pt_lock_time p) @
     pt_compact (length (pt_outputs p)) @ concat (map pt_output_bytes (pt_outputs p)) @
     pt_compact (length (pt_inputs p)) @ concat (map partial_input_bytes (pt_inputs p))"

type_synonym 'a pt_rd = "(tx_error, 'a) rd"

definition pt_take :: "nat \<Rightarrow> bytes pt_rd" where
  "pt_take n r =
     (if usize_bound \<le> cur_at r + n then Inl (MalformedPartialTransaction ''length overflows'')
      else if length (cur_bytes r) < cur_at r + n then
        Inl (MalformedPartialTransaction (''wanted '' @ dec_string n @ '' bytes at '' @ dec_string (cur_at r) @
          '' but only '' @ dec_string (length (cur_bytes r) - cur_at r) @ '' remain''))
      else Inr (take n (drop (cur_at r) (cur_bytes r)), r\<lparr>cur_at := cur_at r + n\<rparr>))"

definition pt_byte :: "u8 pt_rd" where
  "pt_byte = rd_bind (pt_take 1) (\<lambda>b. rd_return (b ! 0))"

definition pt_u32 :: "u32 pt_rd" where
  "pt_u32 = rd_bind (pt_take 4) (\<lambda>b. rd_return (u32_from_le b))"

definition pt_u64 :: "u64 pt_rd" where
  "pt_u64 = rd_bind (pt_take 8) (\<lambda>b. rd_return (u64_from_le b))"

text \<open>A \<open>usize\<close> has 64 bits, so every count fits.\<close>

definition pt_count :: "nat pt_rd" where
  "pt_count = rd_bind pt_byte (\<lambda>first.
     if first \<le> 0xfc then rd_return (unat first)
     else if first = 0xfd then rd_bind (pt_take 2) (\<lambda>b. rd_return (unat (u16_from_le b)))
     else if first = 0xfe then rd_bind pt_u32 (\<lambda>n. rd_return (unat n))
     else rd_bind pt_u64 (\<lambda>n. rd_return (unat n)))"

definition pt_slice :: "bytes pt_rd" where
  "pt_slice = rd_bind pt_count pt_take"

definition pt_output :: "tx_out pt_rd" where
  "pt_output =
     rd_bind pt_u64 (\<lambda>amount.
     rd_bind pt_slice (\<lambda>script_pubkey.
     rd_return \<lparr>out_value = amount, out_script_pubkey = script_pubkey\<rparr>))"

definition pt_kind :: "input_kind pt_rd" where
  "pt_kind = rd_bind pt_byte (\<lambda>b.
     if b = 0 then rd_return KeyHashInput
     else if b = 1 then rd_return ConditionInput
     else rd_fail (MalformedPartialTransaction (''input kind '' @ dec_string (unat b) @ '' is not one this crate knows'')))"

definition pt_signature :: "collected_signature pt_rd" where
  "pt_signature =
     rd_bind pt_slice (\<lambda>pubkey.
     rd_bind pt_slice (\<lambda>bytes.
     rd_return \<lparr>cs_pubkey = pubkey, cs_bytes = bytes\<rparr>))"

definition pt_input :: "u8 \<Rightarrow> partial_input pt_rd" where
  "pt_input version =
     rd_bind (pt_take 32) (\<lambda>txid.
     rd_bind pt_u32 (\<lambda>vout.
     rd_bind pt_slice (\<lambda>script_pubkey.
     rd_bind pt_u64 (\<lambda>amount.
     rd_bind pt_kind (\<lambda>kind.
     rd_bind (if version = FORMAT_VERSION_V1 then rd_return SIGHASH_ALL else pt_u32) (\<lambda>hash_type.
     rd_bind pt_count (\<lambda>signature_count.
     rd_bind (rd_times signature_count pt_signature) (\<lambda>signatures.
     rd_return \<lparr>pi_outpoint = (Txid txid, vout), pi_script_pubkey = script_pubkey,
       pi_value = from_sat amount, pi_kind = kind, pi_hash_type = hash_type, pi_signatures = signatures\<rparr>))))))))"

definition pt_reader :: "partial_transaction pt_rd" where
  "pt_reader =
     rd_bind (pt_take 8) (\<lambda>magic.
     if magic \<noteq> MAGIC then rd_fail (MalformedPartialTransaction ''not a partial transaction'') else
     rd_bind pt_byte (\<lambda>version.
     if version \<noteq> FORMAT_VERSION \<and> version \<noteq> FORMAT_VERSION_V1 then
       rd_fail (MalformedPartialTransaction (''format version '' @ dec_string (unat version) @
         '' is not one this crate reads''))
     else
     rd_bind pt_u32 (\<lambda>expiry.
     rd_bind pt_u32 (\<lambda>lock_time.
     rd_bind pt_count (\<lambda>output_count.
     rd_bind (rd_times output_count pt_output) (\<lambda>outputs.
     rd_bind pt_count (\<lambda>input_count.
     rd_bind (rd_times input_count (pt_input version)) (\<lambda>inputs.
     rd_return \<lparr>pt_outputs = outputs, pt_inputs = inputs, pt_expiry = from_height expiry,
       pt_lock_time = lock_time\<rparr>))))))))"

definition partial_from_bytes :: "bytes \<Rightarrow> tx_error + partial_transaction" where
  "partial_from_bytes bs =
     rbind (pt_reader (cursor_new bs)) (\<lambda>(p, r).
     rbind (refuse_if (cur_at r \<noteq> length (cur_bytes r))
       (MalformedPartialTransaction ''trailing bytes after the partial transaction'')) (\<lambda>_. Inr p))"

section \<open>The reader reads what the writer writes\<close>

lemma pt_take_iff:
  "wf_cursor r \<Longrightarrow> pt_take n r = Inr (xs, r') \<longleftrightarrow>
     n \<le> length (rest r) \<and> xs = take n (rest r) \<and> r' = advance r n"
  by (auto simp: pt_take_def wf_cursor_def length_rest rest_def advance_def)

interpretation pt_raw: codec "\<lambda>xs. xs" "pt_take n" "\<lambda>xs. length xs = n" for n
  by unfold_locales (auto simp: pt_take_iff)

lemmas pt_take_reads = pt_raw.decodes_dec

lemma pt_fixed_reads:
  "decodes pt_byte [b] b" "decodes pt_u32 (u32_le v) v" "decodes pt_u64 (u64_le w) w"
  unfolding pt_byte_def pt_u32_def pt_u64_def
  by (rule decodes_bind_last [OF pt_take_reads]; simp add: length_uN_le uN_from_le_uN_le decodes_return)+

lemma pt_count_reads:
  assumes "n < usize_bound"
  shows "decodes pt_count (pt_compact n) n"
proof -
  have u: "unat (of_nat n :: u64) = n" using assms by (simp add: unat_of_nat)
  have le: "(of_nat n :: u64) \<le> w \<longleftrightarrow> n \<le> unat w" "(of_nat n :: u64) < w \<longleftrightarrow> n < unat w" for w
    by (simp_all add: word_le_nat_alt word_less_nat_alt u)
  have small: "unat (ucast (of_nat n :: u64) :: 'a::len word) = n" if "n < 2 ^ LENGTH('a)"
    using that by (simp add: unsigned_ucast_eq take_bit_nat_eq_self u)
  consider (one) "n \<le> 0xfc" | (two) "0xfc < n" "n \<le> 0xffff" | (four) "0xffff < n" "n \<le> 0xffffffff"
    | (eight) "0xffffffff < n" by linarith
  then show ?thesis
  proof cases
    case one
    have "(ucast (of_nat n :: u64) :: byte) \<le> 0xfc" using one by (simp add: word_le_nat_alt small)
    then show ?thesis
      using one unfolding pt_count_def
      by (simp add: write_compact_size_def le small decodes_return decodes_bind_last [OF pt_fixed_reads(1)])
  next
    case two
    have "decodes pt_count ([0xfd] @ u16_le (ucast (of_nat n :: u64))) n"
      unfolding pt_count_def
      by (rule decodes_bind [OF pt_fixed_reads(1)], simp, rule decodes_bind_last [OF pt_take_reads])
        (use two in \<open>simp_all add: length_uN_le uN_from_le_uN_le small decodes_return\<close>)
    then show ?thesis using two by (simp add: write_compact_size_def le)
  next
    case four
    have "decodes pt_count ([0xfe] @ u32_le (ucast (of_nat n :: u64))) n"
      unfolding pt_count_def
      by (rule decodes_bind [OF pt_fixed_reads(1)], simp, rule decodes_bind_last [OF pt_fixed_reads(2)])
        (use four in \<open>simp_all add: small decodes_return\<close>)
    then show ?thesis using four by (simp add: write_compact_size_def le)
  next
    case eight
    have "decodes pt_count ([0xff] @ u64_le (of_nat n)) n"
      unfolding pt_count_def
      by (rule decodes_bind [OF pt_fixed_reads(1)], simp, rule decodes_bind_last [OF pt_fixed_reads(3)])
        (simp_all add: u decodes_return)
    then show ?thesis using eight by (simp add: write_compact_size_def le)
  qed
qed

lemma pt_slice_reads: "length bs < usize_bound \<Longrightarrow> decodes pt_slice (slice_bytes bs) bs"
  unfolding pt_slice_def write_var_slice_def
  by (rule decodes_bind [OF pt_count_reads pt_take_reads]) simp_all

lemma rebuilt_reads:
  "decodes (rd_return \<lparr>out_value = out_value out, out_script_pubkey = out_script_pubkey out\<rparr>) [] (out :: tx_out)"
  "decodes (rd_return \<lparr>cs_pubkey = cs_pubkey s, cs_bytes = cs_bytes s\<rparr>) [] (s :: collected_signature)"
  "decodes (rd_return \<lparr>pi_outpoint = pi_outpoint i, pi_script_pubkey = pi_script_pubkey i, pi_value = pi_value i,
     pi_kind = pi_kind i, pi_hash_type = pi_hash_type i, pi_signatures = pi_signatures i\<rparr>) [] (i :: partial_input)"
  "decodes (rd_return \<lparr>pt_outputs = pt_outputs p, pt_inputs = pt_inputs p, pt_expiry = pt_expiry p,
     pt_lock_time = pt_lock_time p\<rparr>) [] (p :: partial_transaction)"
  by (cases out; cases s; cases i; cases p; simp add: decodes_return)+

text \<open>The sizes of the Rust types; and an expiry that is not written as another.\<close>

definition sized_collected :: "collected_signature \<Rightarrow> bool" where
  "sized_collected s \<longleftrightarrow> length (cs_pubkey s) < usize_bound \<and> length (cs_bytes s) < usize_bound"

definition sized_input :: "partial_input \<Rightarrow> bool" where
  "sized_input i \<longleftrightarrow> wf_txid (fst (pi_outpoint i)) \<and> length (pi_script_pubkey i) < usize_bound \<and>
     length (pi_signatures i) < usize_bound \<and> list_all sized_collected (pi_signatures i)"

definition sized_partial :: "partial_transaction \<Rightarrow> bool" where
  "sized_partial p \<longleftrightarrow> length (pt_outputs p) < usize_bound \<and> length (pt_inputs p) < usize_bound \<and>
     list_all (\<lambda>out. length (out_script_pubkey out) < usize_bound) (pt_outputs p) \<and> list_all sized_input (pt_inputs p)"

lemma pt_output_reads: "length (out_script_pubkey out) < usize_bound \<Longrightarrow> decodes pt_output (pt_output_bytes out) out"
  unfolding pt_output_def pt_output_bytes_def
  by (intro decodes_bind [OF pt_fixed_reads(3)] decodes_bind_last [OF pt_slice_reads]) (simp_all add: rebuilt_reads)

lemma pt_signature_reads: "sized_collected s \<Longrightarrow> decodes pt_signature (collected_bytes s) s"
  unfolding pt_signature_def collected_bytes_def sized_collected_def
  by (intro decodes_bind [OF pt_slice_reads] decodes_bind_last [OF pt_slice_reads]) (simp_all add: rebuilt_reads)

lemma pt_kind_reads: "decodes pt_kind [kind_byte k] k"
  unfolding pt_kind_def
  by (rule decodes_bind_last [OF pt_fixed_reads(1)]) (cases k; simp add: decodes_return)

text \<open>The first version of the format had no hash type; the second writes it.\<close>

definition versioned_input_bytes :: "u8 \<Rightarrow> partial_input \<Rightarrow> bytes" where
  "versioned_input_bytes version i =
     to_internal (fst (pi_outpoint i)) @ u32_le (snd (pi_outpoint i)) @ slice_bytes (pi_script_pubkey i) @
     u64_le (to_sat (pi_value i)) @ [kind_byte (pi_kind i)] @
     (if version = FORMAT_VERSION_V1 then [] else u32_le (pi_hash_type i)) @
     pt_compact (length (pi_signatures i)) @ concat (map collected_bytes (pi_signatures i))"

definition versioned_bytes :: "u8 \<Rightarrow> partial_transaction \<Rightarrow> bytes" where
  "versioned_bytes version p =
     MAGIC @ [version] @ u32_le (to_height (pt_expiry p)) @ u32_le (pt_lock_time p) @
     pt_compact (length (pt_outputs p)) @ concat (map pt_output_bytes (pt_outputs p)) @
     pt_compact (length (pt_inputs p)) @ concat (map (versioned_input_bytes version) (pt_inputs p))"

lemma to_bytes_versioned: "partial_to_bytes p = versioned_bytes FORMAT_VERSION p"
proof -
  have "partial_input_bytes = versioned_input_bytes FORMAT_VERSION"
    by (rule ext) (simp add: partial_input_bytes_def versioned_input_bytes_def FORMAT_VERSION_def FORMAT_VERSION_V1_def)
  then show ?thesis by (simp add: partial_to_bytes_def versioned_bytes_def)
qed

lemma pt_input_reads:
  assumes "sized_input i" "version = FORMAT_VERSION_V1 \<longrightarrow> pi_hash_type i = SIGHASH_ALL"
  shows "decodes (pt_input version) (versioned_input_bytes version i) i"
proof -
  have hash: "decodes (if version = FORMAT_VERSION_V1 then rd_return SIGHASH_ALL else pt_u32)
      (if version = FORMAT_VERSION_V1 then [] else u32_le (pi_hash_type i)) (pi_hash_type i)"
    using assms(2) by (simp add: decodes_return pt_fixed_reads(2))
  have sigs: "decodes (rd_times (length (pi_signatures i)) pt_signature) (concat (map collected_bytes (pi_signatures i))) (pi_signatures i)"
    using assms(1) by (intro decodes_times pt_signature_reads) (simp add: sized_input_def list_all_iff)
  have id: "length (to_internal (fst (pi_outpoint i))) = 32" "length (pi_script_pubkey i) < usize_bound"
    "length (pi_signatures i) < usize_bound"
    using assms(1) by (simp_all add: sized_input_def wf_txid_def)
  show ?thesis
    unfolding pt_input_def versioned_input_bytes_def
    by (intro decodes_bind [OF pt_take_reads [OF id(1)]] decodes_bind [OF pt_fixed_reads(2)]
        decodes_bind [OF pt_slice_reads [OF id(2)]] decodes_bind [OF pt_fixed_reads(3)]
        decodes_bind [OF pt_kind_reads] decodes_bind [OF hash] decodes_bind [OF pt_count_reads [OF id(3)]]
        decodes_bind_last [OF sigs])
      (simp add: rebuilt_reads from_sat_def)
qed

lemma pt_reader_reads:
  assumes "sized_partial p" "pt_expiry p \<noteq> AtHeight 0"
    and "version = FORMAT_VERSION \<or> version = FORMAT_VERSION_V1 \<and> (\<forall>i \<in> set (pt_inputs p). pi_hash_type i = SIGHASH_ALL)"
  shows "decodes pt_reader (versioned_bytes version p) p"
proof -
  have outs: "decodes (rd_times (length (pt_outputs p)) pt_output) (concat (map pt_output_bytes (pt_outputs p))) (pt_outputs p)"
    using assms(1) by (intro decodes_times pt_output_reads) (simp add: sized_partial_def list_all_iff)
  have ins: "decodes (rd_times (length (pt_inputs p)) (pt_input version)) (concat (map (versioned_input_bytes version) (pt_inputs p))) (pt_inputs p)"
    using assms(1,3) by (intro decodes_times pt_input_reads)
      (auto simp: sized_partial_def list_all_iff FORMAT_VERSION_def FORMAT_VERSION_V1_def)
  have counts: "length (pt_outputs p) < usize_bound" "length (pt_inputs p) < usize_bound"
    using assms(1) by (simp_all add: sized_partial_def)
  have expiry: "from_height (to_height (pt_expiry p)) = pt_expiry p"
    using assms(2) by (cases "pt_expiry p") (auto simp: from_height_def)
  have magic: "length MAGIC = 8" by (simp add: MAGIC_def ascii_def)
  show ?thesis
    unfolding pt_reader_def versioned_bytes_def
    by (intro decodes_bind [OF pt_take_reads [OF magic]] decodes_unless decodes_bind [OF pt_fixed_reads(1)]
        decodes_bind [OF pt_fixed_reads(2)] decodes_bind [OF pt_count_reads [OF counts(1)]] decodes_bind [OF outs]
        decodes_bind [OF pt_count_reads [OF counts(2)]] decodes_bind_last [OF ins])
      (use assms(3) in \<open>auto simp: rebuilt_reads expiry\<close>)
qed

lemma from_bytes_decodes:
  "decodes pt_reader bs p \<Longrightarrow> length bs < usize_bound \<Longrightarrow> partial_from_bytes bs = Inr p"
  using decodesD [of pt_reader bs p "cursor_new bs" "[]"] by (simp add: partial_from_bytes_def refuse_if_def)

section \<open>What is read is well formed\<close>

lemma pt_yields [yields_intros]:
  "yields (pt_take n) (\<lambda>xs. length xs = n \<and> n < usize_bound)" "yields pt_byte (\<lambda>_. True)" "yields pt_u32 (\<lambda>_. True)" "yields pt_u64 (\<lambda>_. True)"
  "yields pt_count (\<lambda>n. n < usize_bound)" "yields pt_slice (\<lambda>xs. length xs < usize_bound)"
proof -
  show t: "yields (pt_take n) (\<lambda>xs. length xs = n \<and> n < usize_bound)" for n
    unfolding yields_def using pt_raw.dec_ok pt_raw.dec_wf wf_rest_bound by (fastforce simp: pt_take_iff)
  show b: "yields pt_byte (\<lambda>_. True)" and u: "yields pt_u32 (\<lambda>_. True)" and w: "yields pt_u64 (\<lambda>_. True)"
    unfolding pt_byte_def pt_u32_def pt_u64_def by (rule yields_bind [OF t], rule yields_return, simp)+
  have n: "unat (x :: u64) < 18446744073709551616" "unat (y :: u32) < 18446744073709551616"
      "unat (z :: u16) < 18446744073709551616" "unat (v :: byte) < 18446744073709551616" for x y z v
    using unsigned_less [of x, where 'a = nat] unsigned_less [of y, where 'a = nat] unsigned_less [of z, where 'a = nat]
      unsigned_less [of v, where 'a = nat] by simp_all
  show c: "yields pt_count (\<lambda>n. n < usize_bound)"
    unfolding pt_count_def
    by (rule yields_bind [OF b])
      (auto intro!: yields_return yields_bind [OF t] yields_bind [OF u] yields_bind [OF w] simp: n)
  show "yields pt_slice (\<lambda>xs. length xs < usize_bound)"
    unfolding pt_slice_def by (rule yields_bind [OF c], rule yields_mono [OF t]) simp
qed

lemma pt_reader_yields: "yields pt_reader (\<lambda>p. sized_partial p \<and> pt_expiry p \<noteq> AtHeight 0)"
proof -
  have out: "yields pt_output (\<lambda>out. length (out_script_pubkey out) < usize_bound)"
    unfolding pt_output_def
    by (rule yields_bind [OF pt_yields(4)], rule yields_bind [OF pt_yields(6)], rule yields_return) simp
  have sig: "yields pt_signature sized_collected"
    unfolding pt_signature_def
    by (rule yields_bind [OF pt_yields(6)], rule yields_bind [OF pt_yields(6)], rule yields_return) (simp add: sized_collected_def)
  have kind: "yields pt_kind (\<lambda>_. True)"
    unfolding pt_kind_def by (rule yields_bind [OF pt_yields(2)]) (auto intro: yields_return yields_fail)
  have hash: "yields (if v = FORMAT_VERSION_V1 then rd_return SIGHASH_ALL else pt_u32) (\<lambda>_. True)" for v
    by (simp add: yields_return pt_yields(3))
  have inp: "yields (pt_input v) sized_input" for v
    unfolding pt_input_def
    by (rule yields_bind [OF pt_yields(1)], rule yields_bind [OF pt_yields(3)], rule yields_bind [OF pt_yields(6)],
        rule yields_bind [OF pt_yields(4)], rule yields_bind [OF kind], rule yields_bind [OF hash],
        rule yields_bind [OF pt_yields(5)], rule yields_bind [OF yields_times [OF sig]], rule yields_return)
      (auto simp: sized_input_def wf_txid_def)
  show ?thesis
    unfolding pt_reader_def
    by (rule yields_bind [OF pt_yields(1)], rule yields_unless, rule yields_bind [OF pt_yields(2)], rule yields_unless,
        rule yields_bind [OF pt_yields(3)], rule yields_bind [OF pt_yields(3)], rule yields_bind [OF pt_yields(5)],
        rule yields_bind [OF yields_times [OF out]], rule yields_bind [OF pt_yields(5)],
        rule yields_bind [OF yields_times [OF inp]], rule yields_return)
      (auto simp: sized_partial_def from_height_def)
qed

text \<open>
  C34: handing a transaction over.  Any partial transaction whose expiry is not a height of zero reads
  back from its bytes as it was, and one signed under \<open>SIGHASH_ALL\<close> throughout from the
  bytes of the first version of the format too; whatever bytes are accepted, of either version and
  however its counts are spelled, the transaction read from them is handed on unchanged.
\<close>

theorem partial_travels:
  "(sized_partial p \<and> pt_expiry p \<noteq> AtHeight 0 \<and> length (partial_to_bytes p) < usize_bound \<longrightarrow>
      partial_from_bytes (partial_to_bytes p) = Inr p) \<and>
   (sized_partial p \<and> pt_expiry p \<noteq> AtHeight 0 \<and> (\<forall>i \<in> set (pt_inputs p). pi_hash_type i = SIGHASH_ALL) \<and>
      length (versioned_bytes FORMAT_VERSION_V1 p) < usize_bound \<longrightarrow>
      partial_from_bytes (versioned_bytes FORMAT_VERSION_V1 p) = Inr p) \<and>
   (length bs < usize_bound \<and> partial_from_bytes bs = Inr q \<and> length (partial_to_bytes q) < usize_bound \<longrightarrow>
      partial_from_bytes (partial_to_bytes q) = Inr q)"
proof -
  have read: "sized_partial q \<and> pt_expiry q \<noteq> AtHeight 0"
    if b: "length bs < usize_bound" "partial_from_bytes bs = Inr q" for bs q
  proof -
    obtain r where "pt_reader (cursor_new bs) = Inr (q, r)"
      using b(2) by (auto simp: partial_from_bytes_def rbind_Inr_iff)
    then show ?thesis using yieldsD [OF pt_reader_yields, of "cursor_new bs"] b(1) by simp
  qed
  have travel: "partial_from_bytes (partial_to_bytes q) = Inr q"
    if "sized_partial q" "pt_expiry q \<noteq> AtHeight 0" "length (partial_to_bytes q) < usize_bound" for q
    using that pt_reader_reads [of q FORMAT_VERSION] by (simp add: to_bytes_versioned from_bytes_decodes)
  show ?thesis
    using travel read pt_reader_reads [of p FORMAT_VERSION_V1] from_bytes_decodes by blast
qed

section \<open>What a signature covers\<close>

text \<open>Everything but the signatures gathered; a signature hash depends on nothing else.\<close>

definition unsigned_input :: "partial_input \<Rightarrow> partial_input" where
  "unsigned_input i = i\<lparr>pi_signatures := []\<rparr>"

definition unsigned_body :: "partial_transaction \<Rightarrow> partial_transaction" where
  "unsigned_body p = p\<lparr>pt_inputs := map unsigned_input (pt_inputs p)\<rparr>"

lemma unsigned_input_simps [simp]:
  "pi_outpoint (unsigned_input i) = pi_outpoint i" "pi_script_pubkey (unsigned_input i) = pi_script_pubkey i"
  "pi_value (unsigned_input i) = pi_value i" "pi_kind (unsigned_input i) = pi_kind i"
  "pi_hash_type (unsigned_input i) = pi_hash_type i"
  by (simp_all add: unsigned_input_def)

lemma skeleton_unsigned: "skeleton (unsigned_body p) = skeleton p"
  by (simp add: skeleton_def unsigned_body_def comp_def)

lemma sighash_unsigned: "partial_sighash E (unsigned_body p) i = partial_sighash E p i"
proof -
  have "length (pt_inputs (unsigned_body p)) = length (pt_inputs p)"
    "i < length (pt_inputs p) \<Longrightarrow> pt_inputs (unsigned_body p) ! i = unsigned_input (pt_inputs p ! i)"
    by (simp_all add: unsigned_body_def)
  then show ?thesis by (cases "i < length (pt_inputs p)") (simp_all add: partial_sighash_def skeleton_unsigned Let_def)
qed

lemma sighash_same_body: "unsigned_body p = unsigned_body q \<Longrightarrow> partial_sighash E p i = partial_sighash E q i"
  by (metis sighash_unsigned)

lemma same_body_inputs:
  assumes "unsigned_body p = unsigned_body q"
  shows "length (pt_inputs p) = length (pt_inputs q)" "pt_outputs p = pt_outputs q" "pt_expiry p = pt_expiry q"
    "pt_lock_time p = pt_lock_time q"
    "i < length (pt_inputs p) \<Longrightarrow> unsigned_input (pt_inputs p ! i) = unsigned_input (pt_inputs q ! i)"
proof -
  have "map unsigned_input (pt_inputs p) = map unsigned_input (pt_inputs q)"
    using arg_cong [OF assms, of pt_inputs] by (simp add: unsigned_body_def)
  then show "length (pt_inputs p) = length (pt_inputs q)"
    "i < length (pt_inputs p) \<Longrightarrow> unsigned_input (pt_inputs p ! i) = unsigned_input (pt_inputs q ! i)"
    by (auto dest: map_eq_imp_length_eq simp: map_equality_iff)
  show "pt_outputs p = pt_outputs q" using arg_cong [OF assms, of pt_outputs] by (simp add: unsigned_body_def)
  show "pt_expiry p = pt_expiry q" using arg_cong [OF assms, of pt_expiry] by (simp add: unsigned_body_def)
  show "pt_lock_time p = pt_lock_time q" using arg_cong [OF assms, of pt_lock_time] by (simp add: unsigned_body_def)
qed

lemma push_signature_body:
  assumes "i < length (pt_inputs p)"
  shows "unsigned_body (push_signature p i s) = unsigned_body p" "length (pt_inputs (push_signature p i s)) = length (pt_inputs p)"
    "pt_inputs (push_signature p i s) ! j = (if j = i then (pt_inputs p ! i)\<lparr>pi_signatures := pi_signatures (pt_inputs p ! i) @ [s]\<rparr>
       else pt_inputs p ! j)"
  using assms
  by (auto simp: push_signature_def unsigned_body_def Let_def map_update unsigned_input_def nth_list_update list_update_same_conv
      intro!: partial_transaction.equality nth_equalityI)

section \<open>What signing does\<close>

text \<open>The input after a key has had it: nothing is removed, and at most one signature is added.\<close>

definition own_signatures ::
  "('sk, 'vk, 'sg) env \<Rightarrow> 'sk private_key \<Rightarrow> partial_transaction \<Rightarrow> nat \<Rightarrow> collected_signature list" where
  "own_signatures E key p i = (case sign_input E key p i of Inr (Some s) \<Rightarrow> [s] | _ \<Rightarrow> [])"

abbreviation key_bytes :: "('sk, 'vk, 'sg) env \<Rightarrow> 'sk private_key \<Rightarrow> bytes" where
  "key_bytes E key \<equiv> public_to_bytes (env_ec E) (private_public_key (env_ec E) key)"

lemma sign_input_depends:
  assumes "unsigned_body p = unsigned_body q" "i < length (pt_inputs p)"
    and "key_bytes E key \<in> cs_pubkey ` set (pi_signatures (pt_inputs p ! i)) \<longleftrightarrow>
      key_bytes E key \<in> cs_pubkey ` set (pi_signatures (pt_inputs q ! i))"
  shows "sign_input E key p i = sign_input E key q i"
proof -
  have same: "unsigned_input (pt_inputs p ! i) = unsigned_input (pt_inputs q ! i)"
    using same_body_inputs(5) [OF assms(1,2)] .
  then have k: "pi_kind (pt_inputs p ! i) = pi_kind (pt_inputs q ! i)" "pi_script_pubkey (pt_inputs p ! i) = pi_script_pubkey (pt_inputs q ! i)"
    "pi_hash_type (pt_inputs p ! i) = pi_hash_type (pt_inputs q ! i)"
    by (metis unsigned_input_simps)+
  have "(\<exists>s \<in> set (pi_signatures (pt_inputs p ! i)). cs_pubkey s = key_bytes E key) \<longleftrightarrow>
      (\<exists>s \<in> set (pi_signatures (pt_inputs q ! i)). cs_pubkey s = key_bytes E key)"
    using assms(3) by (simp add: image_iff) metis
  then show ?thesis unfolding sign_input_def Let_def sighash_same_body [OF assms(1)] k by (simp only:)
qed

text \<open>Whatever every added signature keeps, signing keeps, failing half way included.\<close>

lemma sign_each_keeps:
  assumes "\<And>p i s. P p \<Longrightarrow> length (pt_inputs p) = n \<Longrightarrow> i \<in> set is \<Longrightarrow> sign_input E key p i = Inr (Some s) \<Longrightarrow> P (push_signature p i s)"
    and "set is \<subseteq> {..<n}" "P p" "length (pt_inputs p) = n"
  shows "P (snd (sign_each E key is c p))"
  using assms
proof (induction "is" arbitrary: c p)
  case (Cons i "is")
  have i: "i < length (pt_inputs p)" using Cons.prems by auto
  show ?case
  proof (cases "sign_input E key p i")
    case (Inr r)
    then show ?thesis
    proof (cases r)
      case (Some s)
      have "P (push_signature p i s)" using Cons.prems Inr Some by simp
      moreover have "length (pt_inputs (push_signature p i s)) = n" using push_signature_body(2) [OF i] Cons.prems(4) by simp
      ultimately show ?thesis using Cons Inr Some by simp
    qed (use Cons Inr in simp)
  qed (use Cons in simp)
qed simp

lemma partial_sign_keeps:
  assumes "\<And>p i s. P p \<Longrightarrow> i < length (pt_inputs p) \<Longrightarrow> sign_input E key p i = Inr (Some s) \<Longrightarrow> P (push_signature p i s)"
    and "P p" "partial_sign E p key = (res, q)"
  shows "P q"
  using sign_each_keeps [of P "length (pt_inputs p)" "[0..<length (pt_inputs p)]" E key p 0] assms
  by (fastforce simp: partial_sign_def)

lemma partial_sign_body: "partial_sign E p key = (res, q) \<Longrightarrow> unsigned_body q = unsigned_body p"
  by (rule partial_sign_keeps [where P = "\<lambda>q. unsigned_body q = unsigned_body p"]) (simp_all add: push_signature_body)

definition with_own :: "('sk, 'vk, 'sg) env \<Rightarrow> 'sk private_key \<Rightarrow> partial_transaction \<Rightarrow> nat \<Rightarrow> partial_input" where
  "with_own E key p i = (pt_inputs p ! i)\<lparr>pi_signatures := pi_signatures (pt_inputs p ! i) @ own_signatures E key p i\<rparr>"

lemma sign_each_Inr:
  assumes "distinct is" "set is \<subseteq> {..<length (pt_inputs p)}"
  shows "sign_each E key is c p = (Inr m, q) \<longleftrightarrow>
    (\<forall>j \<in> set is. \<exists>r. sign_input E key p j = Inr r) \<and> m = c + (\<Sum>j \<leftarrow> is. length (own_signatures E key p j)) \<and>
    q = p\<lparr>pt_inputs := map (\<lambda>j. if j \<in> set is then with_own E key p j else pt_inputs p ! j) [0..<length (pt_inputs p)]\<rparr>"
  using assms
proof (induction "is" arbitrary: c p)
  case Nil
  then show ?case by (auto simp: map_nth)
next
  case (Cons i "is")
  have i: "i < length (pt_inputs p)" "i \<notin> set is" using Cons.prems by auto
  show ?case
  proof (cases "sign_input E key p i")
    case (Inl e)
    then show ?thesis by auto
  next
    case (Inr r)
    show ?thesis
    proof (cases r)
      case None
      then have "own_signatures E key p i = []" using Inr by (simp add: own_signatures_def)
      moreover have "with_own E key p i = pt_inputs p ! i" using calculation by (simp add: with_own_def)
      moreover have "(\<lambda>j. if j \<in> set (i # is) then with_own E key p j else pt_inputs p ! j) =
          (\<lambda>j. if j \<in> set is then with_own E key p j else pt_inputs p ! j)" using calculation by auto
      ultimately show ?thesis using Inr None Cons.IH [of p c] Cons.prems by simp
    next
      case (Some s)
      let ?p = "push_signature p i s"
      note push = push_signature_body [OF i(1)]
      have own: "own_signatures E key p i = [s]" using Inr Some by (simp add: own_signatures_def)
      have other: "sign_input E key ?p j = sign_input E key p j" if "j \<in> set is" for j
        by (rule sign_input_depends) (use that push i Cons.prems in auto)
      have own_other: "own_signatures E key ?p j = own_signatures E key p j" if "j \<in> set is" for j
        using other [OF that] by (simp add: own_signatures_def)
      have sums: "(\<Sum>j \<leftarrow> is. length (own_signatures E key ?p j)) = (\<Sum>j \<leftarrow> is. length (own_signatures E key p j))"
        by (rule arg_cong [where f = sum_list]) (simp add: own_other)
      have at: "(if j \<in> set is then with_own E key ?p j else pt_inputs ?p ! j) =
          (if j \<in> set (i # is) then with_own E key p j else pt_inputs p ! j)" if "j < length (pt_inputs p)" for j
        using that i push own own_other by (auto simp: with_own_def)
      have "?p\<lparr>pt_inputs := map (\<lambda>j. if j \<in> set is then with_own E key ?p j else pt_inputs ?p ! j) [0..<length (pt_inputs ?p)]\<rparr> =
          p\<lparr>pt_inputs := map (\<lambda>j. if j \<in> set (i # is) then with_own E key p j else pt_inputs p ! j) [0..<length (pt_inputs p)]\<rparr>"
        using at push(2) by (simp add: push_signature_def Let_def)
      then show ?thesis
        using Inr Some Cons.IH [of ?p "Suc c"] Cons.prems push own other sums by auto
    qed
  qed
qed

lemma partial_sign_Inr:
  "partial_sign E p key = (Inr m, q) \<longleftrightarrow>
    (\<forall>j < length (pt_inputs p). \<exists>r. sign_input E key p j = Inr r) \<and>
    m = (\<Sum>j \<leftarrow> [0..<length (pt_inputs p)]. length (own_signatures E key p j)) \<and>
    q = p\<lparr>pt_inputs := map (with_own E key p) [0..<length (pt_inputs p)]\<rparr>"
proof -
  have sub: "set [0..<length (pt_inputs p)] \<subseteq> {..<length (pt_inputs p)}" by auto
  have "map (\<lambda>j. if j \<in> set [0..<length (pt_inputs p)] then with_own E key p j else pt_inputs p ! j) [0..<length (pt_inputs p)] =
      map (with_own E key p) [0..<length (pt_inputs p)]" by simp
  then show ?thesis
    unfolding partial_sign_def sign_each_Inr [OF distinct_upt sub] by (auto simp del: length_map)
qed

lemma sign_input_Some:
  assumes "sign_input E key p i = Inr (Some s)"
  obtains sighash where "partial_sighash E p i = Inr sighash" "cs_pubkey s = key_bytes E key"
    "\<forall>t \<in> set (pi_signatures (pt_inputs p ! i)). cs_pubkey t \<noteq> key_bytes E key"
    "pi_kind (pt_inputs p ! i) = KeyHashInput \<Longrightarrow> \<exists>a b. from_p2pkh_script_pubkey (pi_script_pubkey (pt_inputs p ! i)) = Some a \<and>
       addr_hash a = addr_hash (private_address (env_hash E) (env_ec E) key) \<and> hash_type_byte (pi_hash_type (pt_inputs p ! i)) = Inr b \<and>
       sign_prehash_der (env_ec E) key sighash b = Inr (cs_bytes s)"
    "pi_kind (pt_inputs p ! i) = ConditionInput \<Longrightarrow> sign_prehash_compact (env_ec E) key sighash = Inr (cs_bytes s)"
proof -
  obtain h where h: "partial_sighash E p i = Inr h"
    using assms by (cases "partial_sighash E p i") (simp_all add: sign_input_def Let_def)
  have fresh: "\<not> (\<exists>t \<in> set (pi_signatures (pt_inputs p ! i)). cs_pubkey t = key_bytes E key)"
  proof
    assume "\<exists>t \<in> set (pi_signatures (pt_inputs p ! i)). cs_pubkey t = key_bytes E key"
    then show False using assms h by (simp add: sign_input_def Let_def)
  qed
  note run = assms [unfolded sign_input_def Let_def h rbind_simps if_not_P [OF fresh]]
  show thesis
  proof (rule that [OF h])
    show "\<forall>t \<in> set (pi_signatures (pt_inputs p ! i)). cs_pubkey t \<noteq> key_bytes E key" using fresh by blast
  qed (use run in \<open>auto simp: rbind_Inr_iff map_err_Inr_iff split: input_kind.splits option.splits if_splits\<close>)
qed

lemma own_signatures_key:
  "s \<in> set (own_signatures E key p i) \<Longrightarrow> cs_pubkey s = key_bytes E key" "length (own_signatures E key p i) \<le> 1"
proof -
  show "cs_pubkey s = key_bytes E key" if "s \<in> set (own_signatures E key p i)"
  proof -
    have "sign_input E key p i = Inr (Some s)" using that by (auto simp: own_signatures_def split: sum.splits option.splits)
    then show ?thesis by (rule sign_input_Some)
  qed
  show "length (own_signatures E key p i) \<le> 1" by (simp add: own_signatures_def split: sum.splits option.splits)
qed

lemma sum_upto_cong: "(\<And>j. j < n \<Longrightarrow> f j = g j) \<Longrightarrow> (\<Sum>j \<leftarrow> [0..<n]. f j) = (\<Sum>j \<leftarrow> [0..<n]. g j)"
  by (rule arg_cong [where f = sum_list]) simp

lemma partial_sign_inputs:
  assumes "partial_sign E p key = (Inr m, q)"
  shows "length (pt_inputs q) = length (pt_inputs p)" "j < length (pt_inputs p) \<Longrightarrow> pt_inputs q ! j = with_own E key p j"
    "unsigned_body q = unsigned_body p" "j < length (pt_inputs p) \<Longrightarrow> \<exists>r. sign_input E key p j = Inr r"
  using assms partial_sign_body [OF assms] by (auto simp: partial_sign_Inr)

lemma with_own_pubkeys:
  "cs_pubkey ` set (pi_signatures (with_own E key p i)) \<subseteq> insert (key_bytes E key) (cs_pubkey ` set (pi_signatures (pt_inputs p ! i)))"
  "cs_pubkey ` set (pi_signatures (pt_inputs p ! i)) \<subseteq> cs_pubkey ` set (pi_signatures (with_own E key p i))"
  using own_signatures_key(1) by (force simp: with_own_def)+

lemma other_elem: "X \<subseteq> insert a Y \<Longrightarrow> Y \<subseteq> X \<Longrightarrow> a \<noteq> b \<Longrightarrow> b \<in> X \<longleftrightarrow> b \<in> Y"
  by auto

text \<open>Another key's turn changes nothing for a key.\<close>

lemma other_turn:
  assumes "partial_sign E p a = (Inr m, q)" "key_bytes E a \<noteq> key_bytes E b" "j < length (pt_inputs p)"
  shows "sign_input E b q j = sign_input E b p j" "own_signatures E b q j = own_signatures E b p j"
proof -
  show "sign_input E b q j = sign_input E b p j"
  proof (rule sign_input_depends)
    show "unsigned_body q = unsigned_body p" "j < length (pt_inputs q)"
      using partial_sign_inputs(1,3) [OF assms(1)] assms(3) by simp_all
    show "key_bytes E b \<in> cs_pubkey ` set (pi_signatures (pt_inputs q ! j)) \<longleftrightarrow>
        key_bytes E b \<in> cs_pubkey ` set (pi_signatures (pt_inputs p ! j))"
      unfolding partial_sign_inputs(2) [OF assms(1,3)]
      by (rule other_elem [OF with_own_pubkeys assms(2)])
  qed
  then show "own_signatures E b q j = own_signatures E b p j" by (simp add: own_signatures_def)
qed

lemma own_turn_again:
  assumes "partial_sign E p a = (Inr m, q)" "j < length (pt_inputs p)"
  shows "sign_input E a q j = Inr None"
proof (cases "key_bytes E a \<in> cs_pubkey ` set (pi_signatures (pt_inputs q ! j))")
  case True
  obtain h where "partial_sighash E p j = Inr h"
    using partial_sign_inputs(4) [OF assms] by (cases "partial_sighash E p j") (simp_all add: sign_input_def Let_def)
  then have "partial_sighash E q j = Inr h" by (simp add: sighash_same_body [OF partial_sign_inputs(3) [OF assms(1)]])
  moreover have "\<exists>s \<in> set (pi_signatures (pt_inputs q ! j)). cs_pubkey s = key_bytes E a" using True by force
  ultimately show ?thesis by (simp add: sign_input_def)
next
  case False
  have none: "own_signatures E a p j = []"
    using False own_signatures_key(1) [of _ E a p j]
    unfolding partial_sign_inputs(2) [OF assms] by (cases "own_signatures E a p j") (auto simp: with_own_def)
  then have same: "pt_inputs q ! j = pt_inputs p ! j" unfolding partial_sign_inputs(2) [OF assms] by (simp add: with_own_def)
  have "sign_input E a q j = sign_input E a p j"
    by (rule sign_input_depends) (use partial_sign_inputs(1,3) [OF assms(1)] assms(2) same in auto)
  then show ?thesis
    using none partial_sign_inputs(4) [OF assms] by (auto simp: own_signatures_def split: option.splits)
qed

text \<open>
  C33: co-signers may sign in any order.  Two keys with different public keys that both sign, one after
  the other, sign the same inputs with the same signatures the other way round, and leave the
  same transaction but for the order of the two signatures in an input; a key that signs again
  adds nothing.
\<close>

theorem signing_order_is_free:
  assumes "partial_sign E p a = (Inr m, pa)" "partial_sign E pa b = (Inr n, pab)" "key_bytes E a \<noteq> key_bytes E b"
  shows "\<exists>pb pba. partial_sign E p b = (Inr n, pb) \<and> partial_sign E pb a = (Inr m, pba) \<and>
      unsigned_body pab = unsigned_body p \<and> unsigned_body pba = unsigned_body p \<and>
      (\<forall>i < length (pt_inputs p). \<exists>xs ys. length xs \<le> 1 \<and> length ys \<le> 1 \<and>
         pi_signatures (pt_inputs pab ! i) = pi_signatures (pt_inputs p ! i) @ xs @ ys \<and>
         pi_signatures (pt_inputs pba ! i) = pi_signatures (pt_inputs p ! i) @ ys @ xs) \<and>
      (\<exists>again. partial_sign E pa a = (Inr 0, again) \<and> again = pa)"
proof -
  let ?n = "length (pt_inputs p)"
  note A = partial_sign_inputs [OF assms(1)] and B = partial_sign_inputs [OF assms(2)]
  obtain pb where pb: "partial_sign E p b = (Inr n, pb)"
  proof -
    have "\<forall>j < ?n. \<exists>r. sign_input E b p j = Inr r"
      using B(4) other_turn(1) [OF assms(1,3)] A(1) by metis
    moreover have "n = (\<Sum>j \<leftarrow> [0..<?n]. length (own_signatures E b pa j))"
      using assms(2) A(1) by (simp add: partial_sign_Inr)
    then have "n = (\<Sum>j \<leftarrow> [0..<?n]. length (own_signatures E b p j))"
      using sum_upto_cong [of ?n "\<lambda>j. length (own_signatures E b pa j)" "\<lambda>j. length (own_signatures E b p j)"] other_turn(2) [OF assms(1,3)] by simp
    ultimately show thesis using that by (simp add: partial_sign_Inr)
  qed
  note C = partial_sign_inputs [OF pb]
  obtain pba where pba: "partial_sign E pb a = (Inr m, pba)"
  proof -
    have ne: "key_bytes E b \<noteq> key_bytes E a" using assms(3) by simp
    have "\<forall>j < ?n. \<exists>r. sign_input E a pb j = Inr r"
      using A(4) other_turn(1) [OF pb ne] by metis
    moreover have "m = (\<Sum>j \<leftarrow> [0..<?n]. length (own_signatures E a p j))" using assms(1) by (simp add: partial_sign_Inr)
    then have "m = (\<Sum>j \<leftarrow> [0..<?n]. length (own_signatures E a pb j))"
      using sum_upto_cong [of ?n "\<lambda>j. length (own_signatures E a pb j)" "\<lambda>j. length (own_signatures E a p j)"] other_turn(2) [OF pb ne] by simp
    ultimately show thesis using that C(1) by (simp add: partial_sign_Inr)
  qed
  note D = partial_sign_inputs [OF pba]
  have "\<exists>xs ys. length xs \<le> 1 \<and> length ys \<le> 1 \<and>
         pi_signatures (pt_inputs pab ! i) = pi_signatures (pt_inputs p ! i) @ xs @ ys \<and>
         pi_signatures (pt_inputs pba ! i) = pi_signatures (pt_inputs p ! i) @ ys @ xs" if i: "i < ?n" for i
    using own_signatures_key(2) [of E a p i] own_signatures_key(2) [of E b p i]
      other_turn(2) [OF assms(1,3) i] other_turn(2) [OF pb assms(3) [symmetric] i]
      A(2) [OF i] C(2) [OF i] B(2) [of i] D(2) [of i] A(1) C(1) i
    by (intro exI [of _ "own_signatures E a p i"] exI [of _ "own_signatures E b p i"]) (simp add: with_own_def)
  moreover have "partial_sign E pa a = (Inr 0, pa)"
  proof -
    have none: "own_signatures E a pa j = []" if "j < ?n" for j
      using own_turn_again [OF assms(1) that] by (simp add: own_signatures_def)
    then have "map (with_own E a pa) [0..<?n] = pt_inputs pa"
      using A(1) by (auto simp: with_own_def intro!: nth_equalityI)
    moreover have "(\<Sum>j \<leftarrow> [0..<?n]. length (own_signatures E a pa j)) = 0"
      using sum_upto_cong [of ?n "\<lambda>j. length (own_signatures E a pa j)" "\<lambda>_. 0"] none by simp
    ultimately show ?thesis using own_turn_again [OF assms(1)] A(1) by (auto simp: partial_sign_Inr)
  qed
  ultimately show ?thesis using pb pba A(3) B(3) C(3) D(3) by auto
qed

section \<open>A co-signing session\<close>

text \<open>
  What the code relies on beyond the laws of \<open>ec_lib_ok\<close>: a public key reads back from its
  bytes, which are at most 65, and a DER signature has at most 72.
\<close>

definition sec1_ok :: "('sk, 'vk, 'sg) ec_lib \<Rightarrow> bool" where
  "sec1_ok X \<longleftrightarrow> (\<forall>v c. el_vk_from_sec1 X (el_vk_to_sec1 X v c) = Some v \<and> length (el_vk_to_sec1 X v c) \<le> 65) \<and>
     (\<forall>g. length (el_sig_to_der X g) \<le> 72)"

text \<open>
  The states a partial transaction passes through: any key signs, successfully or not, a hash type
  is set or refused, and the bytes are handed to the next co-signer.
\<close>

inductive cosigned :: "('sk, 'vk, 'sg) env \<Rightarrow> partial_transaction \<Rightarrow> partial_transaction \<Rightarrow> bool" for E p0 where
  started: "cosigned E p0 p0"
| signs: "cosigned E p0 p \<Longrightarrow> partial_sign E p key = (res, q) \<Longrightarrow> cosigned E p0 q"
| retyped: "cosigned E p0 p \<Longrightarrow> with_hash_type E p index hash_type = (res, q) \<Longrightarrow> cosigned E p0 q"
| handed: "cosigned E p0 p \<Longrightarrow> sized_partial p \<Longrightarrow> length (partial_to_bytes p) < usize_bound \<Longrightarrow>
    pt_expiry p \<noteq> AtHeight 0 \<Longrightarrow> partial_from_bytes (partial_to_bytes p) = Inr q \<Longrightarrow> cosigned E p0 q"

text \<open>Everything but the signatures and the hash types.\<close>

definition bare_input :: "partial_input \<Rightarrow> (txid \<times> u32) \<times> bytes \<times> amount \<times> input_kind" where
  "bare_input i = (pi_outpoint i, pi_script_pubkey i, pi_value i, pi_kind i)"

definition bare_body :: "partial_transaction \<Rightarrow> _" where
  "bare_body p = (pt_outputs p, pt_expiry p, pt_lock_time p, map bare_input (pt_inputs p))"

text \<open>A signature that counts: it verifies against the hash of its input as it is now, and fits a script.\<close>

definition owns_input :: "hash_lib \<Rightarrow> partial_input \<Rightarrow> bytes \<Rightarrow> bool" where
  "owns_input H i pubkey \<longleftrightarrow> (\<exists>a. from_p2pkh_script_pubkey (pi_script_pubkey i) = Some a \<and> addr_hash a = hash160 H pubkey)"

definition sound_signature :: "('sk, 'vk, 'sg) env \<Rightarrow> bytes \<Rightarrow> partial_input \<Rightarrow> nat \<Rightarrow> collected_signature \<Rightarrow> bool" where
  "sound_signature E sighash i index s \<longleftrightarrow>
     verify_collected E sighash s (pi_kind i) index = Inr () \<and> length (cs_pubkey s) \<le> 65 \<and>
     (case pi_kind i of
        KeyHashInput \<Rightarrow> length (cs_bytes s) \<le> 73 \<and> owns_input (env_hash E) i (cs_pubkey s) \<and>
          last (cs_bytes s) = ucast (pi_hash_type i)
      | ConditionInput \<Rightarrow> length (cs_bytes s) = 64)"

definition sound_input :: "('sk, 'vk, 'sg) env \<Rightarrow> partial_transaction \<Rightarrow> nat \<Rightarrow> bool" where
  "sound_input E p index \<longleftrightarrow> (let i = pt_inputs p ! index in
     distinct (map cs_pubkey (pi_signatures i)) \<and>
     (pi_signatures i \<noteq> [] \<longrightarrow> (\<exists>sighash. partial_sighash E p index = Inr sighash \<and>
        (\<forall>s \<in> set (pi_signatures i). sound_signature E sighash i index s))))"

definition sound_partial :: "('sk, 'vk, 'sg) env \<Rightarrow> partial_transaction \<Rightarrow> bool" where
  "sound_partial E p \<longleftrightarrow> (\<forall>index < length (pt_inputs p). sound_input E p index)"

lemma signed_verifies:
  assumes "ec_lib_ok (env_ec E)" "sec1_ok (env_ec E)" "sign_input E key p i = Inr (Some s)" "partial_sighash E p i = Inr sighash"
  shows "sound_signature E sighash (pt_inputs p ! i) i s"
proof -
  let ?X = "env_ec E" and ?in = "pt_inputs p ! i"
  from assms(3) obtain sighash' where "partial_sighash E p i = Inr sighash'" and key: "cs_pubkey s = key_bytes E key"
    and kh: "pi_kind ?in = KeyHashInput \<Longrightarrow> \<exists>a b. from_p2pkh_script_pubkey (pi_script_pubkey ?in) = Some a \<and>
       addr_hash a = addr_hash (private_address (env_hash E) ?X key) \<and> hash_type_byte (pi_hash_type ?in) = Inr b \<and>
       sign_prehash_der ?X key sighash' b = Inr (cs_bytes s)"
    and cc: "pi_kind ?in = ConditionInput \<Longrightarrow> sign_prehash_compact ?X key sighash' = Inr (cs_bytes s)"
    by (rule sign_input_Some) (rule that; simp)
  with assms(4) have h: "sighash' = sighash" by simp
  have pub: "public_from_bytes ?X (cs_pubkey s) =
      Inr \<lparr>pk_verifying_key = el_verifying_key ?X (sk_signing_key key), pk_compressed = (length (cs_pubkey s) = 33)\<rparr>"
    using assms(2) by (simp add: public_from_bytes_def key public_to_bytes_def private_public_key_def sec1_ok_def ok_or_def)
  have len: "length (cs_pubkey s) \<le> 65" using assms(2) by (simp add: key public_to_bytes_def sec1_ok_def)
  show ?thesis
  proof (cases "pi_kind ?in")
    case KeyHashInput
    from kh [OF this] obtain a b g where g: "from_p2pkh_script_pubkey (pi_script_pubkey ?in) = Some a"
        "addr_hash a = addr_hash (private_address (env_hash E) ?X key)" "hash_type_byte (pi_hash_type ?in) = Inr b"
        "el_sign_prehash ?X (sk_signing_key key) sighash = Some g" "cs_bytes s = el_sig_to_der ?X g @ [b]"
      by (auto simp: sign_prehash_der_def sign_prehash_def rbind_Inr_iff ok_or_Inr_iff h)
    have "verify_der ?X \<lparr>pk_verifying_key = el_verifying_key ?X (sk_signing_key key), pk_compressed = c\<rparr> sighash (el_sig_to_der ?X g)" for c
      using assms(1) g(4) by (simp add: verify_der_def ec_lib_ok_def)
    moreover have "owns_input (env_hash E) ?in (cs_pubkey s)"
      using g(1,2) by (simp add: owns_input_def key private_address_def public_address_def public_hash160_def address_new_def)
    moreover have "b = ucast (pi_hash_type ?in)" using g(3) by (simp add: hash_type_byte_def split: if_splits)
    moreover have "length (cs_bytes s) \<le> 73" using assms(2) g(5) by (simp add: sec1_ok_def)
    ultimately show ?thesis
      using g(5) len by (simp add: sound_signature_def verify_collected_def pub KeyHashInput refuse_if_def map_err_def)
  next
    case ConditionInput
    from cc [OF this] obtain g where g: "el_sign_prehash ?X (sk_signing_key key) sighash = Some g" "cs_bytes s = el_sig_to_bytes ?X g"
      by (auto simp: sign_prehash_compact_def sign_prehash_def rbind_Inr_iff ok_or_Inr_iff h)
    then show ?thesis
      using assms(1) len
      by (simp add: sound_signature_def verify_collected_def pub ConditionInput refuse_if_def map_err_def verify_compact_def ec_lib_ok_def)
  qed
qed

lemma push_keeps_sound:
  assumes "ec_lib_ok (env_ec E)" "sec1_ok (env_ec E)" "sound_partial E p" "i < length (pt_inputs p)"
    and "sign_input E key p i = Inr (Some s)"
  shows "sound_partial E (push_signature p i s)"
  unfolding sound_partial_def
proof (intro allI impI)
  fix j
  let ?q = "push_signature p i s"
  note push = push_signature_body [OF assms(4)]
  assume j: "j < length (pt_inputs ?q)"
  have sound: "sound_input E p j" using assms(3) j push(2) by (simp add: sound_partial_def)
  have hash: "partial_sighash E ?q k = partial_sighash E p k" for k by (rule sighash_same_body [OF push(1)])
  show "sound_input E ?q j"
  proof (cases "j = i")
    case False
    then show ?thesis using sound by (simp add: sound_input_def push(3) hash Let_def)
  next
    case True
    from assms(5) obtain h where h: "partial_sighash E p i = Inr h" "cs_pubkey s = key_bytes E key"
      "\<forall>t \<in> set (pi_signatures (pt_inputs p ! i)). cs_pubkey t \<noteq> key_bytes E key"
      by (rule sign_input_Some)
    have new: "sound_signature E h (pt_inputs p ! i) i s" by (rule signed_verifies [OF assms(1,2,5) h(1)])
    have same: "sound_signature E h ((pt_inputs p ! i)\<lparr>pi_signatures := x\<rparr>) i t = sound_signature E h (pt_inputs p ! i) i t" for x t
      by (cases "pi_kind (pt_inputs p ! i)") (simp_all add: sound_signature_def owns_input_def)
    show ?thesis
      using sound new h True
      by (auto simp: sound_input_def push(3) hash Let_def same)
  qed
qed

lemma with_hash_type_cases:
  assumes "with_hash_type E p index hash_type = (res, q)"
  shows "(\<exists>e. res = Inl e) \<and> q = p \<or>
    res = Inr () \<and> index < length (pt_inputs p) \<and> pi_signatures (pt_inputs p ! index) = [] \<and>
    q = set_input p index ((pt_inputs p ! index)\<lparr>pi_hash_type := hash_type\<rparr>) \<and> (\<exists>h. partial_sighash E q index = Inr h)"
proof (cases "index < length (pt_inputs p) \<and> pi_signatures (pt_inputs p ! index) = []")
  case True
  show ?thesis
    using assms True by (auto simp: with_hash_type_def Let_def split: sum.splits)
qed (use assms in \<open>auto simp: with_hash_type_def Let_def split: if_splits\<close>)

lemma bare_body_unsigned: "unsigned_body p = unsigned_body q \<Longrightarrow> bare_body p = bare_body q"
proof -
  assume same: "unsigned_body p = unsigned_body q"
  have "bare_input i = bare_input (unsigned_input i)" for i by (simp add: bare_input_def)
  then have "map bare_input (pt_inputs p) = map bare_input (map unsigned_input (pt_inputs p))"
    "map bare_input (pt_inputs q) = map bare_input (map unsigned_input (pt_inputs q))" by simp_all
  moreover have "map unsigned_input (pt_inputs p) = map unsigned_input (pt_inputs q)"
    using arg_cong [OF same, of pt_inputs] by (simp add: unsigned_body_def)
  ultimately show ?thesis using same_body_inputs(2-4) [OF same] by (simp add: bare_body_def)
qed

lemma retyped_keeps:
  assumes "with_hash_type E p index hash_type = (res, q)" "sound_partial E p"
  shows "bare_body q = bare_body p" "sound_partial E q"
proof -
  consider "q = p" | "index < length (pt_inputs p)" "pi_signatures (pt_inputs p ! index) = []"
      "q = set_input p index ((pt_inputs p ! index)\<lparr>pi_hash_type := hash_type\<rparr>)"
    using with_hash_type_cases [OF assms(1)] by blast
  then have "bare_body q = bare_body p \<and> sound_partial E q"
  proof cases
    case 1
    then show ?thesis using assms(2) by simp
  next
    case 2
    have len: "length (pt_inputs q) = length (pt_inputs p)" by (simp add: 2(3))
    have each: "pt_inputs q ! j = (if j = index then (pt_inputs p ! index)\<lparr>pi_hash_type := hash_type\<rparr> else pt_inputs p ! j)"
      if "j < length (pt_inputs p)" for j
      using that by (simp add: 2(3) nth_list_update)
    have "map bare_input (pt_inputs q) = map bare_input (pt_inputs p)"
      by (rule nth_equalityI) (simp_all add: len each bare_input_def)
    then have bare: "bare_body q = bare_body p" by (simp add: bare_body_def) (simp add: 2(3))
    have "map (\<lambda>i. tx_in_unsigned (to_internal (fst (pi_outpoint i))) (snd (pi_outpoint i)) 0xffffffff) (pt_inputs q) =
        map (\<lambda>i. tx_in_unsigned (to_internal (fst (pi_outpoint i))) (snd (pi_outpoint i)) 0xffffffff) (pt_inputs p)"
      by (rule nth_equalityI) (simp_all add: len each)
    then have skel: "skeleton q = skeleton p" by (simp add: skeleton_def) (simp add: 2(3))
    have "sound_input E q j" if "j < length (pt_inputs q)" for j
    proof (cases "j = index")
      case True
      then show ?thesis using each [of index] 2(1,2) by (simp add: sound_input_def)
    next
      case False
      have "partial_sighash E q j = partial_sighash E p j" using that False len each by (simp add: partial_sighash_def skel)
      then show ?thesis using assms(2) that False len each by (simp add: sound_partial_def sound_input_def)
    qed
    then show ?thesis using bare by (simp add: sound_partial_def)
  qed
  then show "bare_body q = bare_body p" "sound_partial E q" by simp_all
qed

abbreviation unsigned_yet :: "partial_transaction \<Rightarrow> bool" where
  "unsigned_yet p \<equiv> \<forall>i \<in> set (pt_inputs p). pi_signatures i = []"

lemma session_sound:
  assumes "ec_lib_ok (env_ec E)" "sec1_ok (env_ec E)" "unsigned_yet p0" "cosigned E p0 p"
  shows "bare_body p = bare_body p0 \<and> sound_partial E p"
  using assms(4)
proof (induction rule: cosigned.induct)
  case started
  have "sound_input E p0 i" if "i < length (pt_inputs p0)" for i
    using assms(3) that by (simp add: sound_input_def Let_def)
  then show ?case by (simp add: sound_partial_def)
next
  case (signs p key res q)
  have "sound_partial E q"
    by (rule partial_sign_keeps [OF _ _ signs.hyps(2)]) (use signs push_keeps_sound [OF assms(1,2)] in auto)
  moreover have "bare_body q = bare_body p" by (rule bare_body_unsigned [OF partial_sign_body [OF signs.hyps(2)]])
  ultimately show ?case using signs.IH by simp
next
  case (retyped p index hash_type res q)
  then show ?case using retyped_keeps [OF retyped.hyps(2)] by simp
next
  case (handed p q)
  have "partial_from_bytes (partial_to_bytes p) = Inr p"
    using handed.hyps pt_reader_reads [of p FORMAT_VERSION] by (simp add: to_bytes_versioned from_bytes_decodes)
  then show ?case using handed by simp
qed

text \<open>
  C32: a co-signing session.  From an unsigned transaction, whatever sequence of keys sign it, whatever
  hash types are set and however often its bytes are handed over: the outputs, the expiry, the
  lock time and the outputs spent stay those it was started with; every signature gathered
  verifies against the hash of its input as it is now; no key has signed an input twice; and a
  key-hash input is signed by its owner only.
\<close>

theorem session_stays_sound:
  assumes "ec_lib_ok (env_ec E)" "sec1_ok (env_ec E)" "unsigned_yet p0" "cosigned E p0 p"
  shows "bare_body p = bare_body p0 \<and> sound_partial E p"
  by (rule session_sound [OF assms])

section \<open>Finishing\<close>

lemma rmap_upto_Inr:
  "rmap f [0..<n] = Inr ys \<longleftrightarrow> length ys = n \<and> (\<forall>i < n. f i = Inr (ys ! i))"
  by (auto simp: rmap_Inr_iff list_all2_conv_all_nth)

lemma checked_sum_is: "amount_checked_sum as = Some a \<longleftrightarrow> total_sats as < 2 ^ 64 \<and> a = Amount (of_nat (total_sats as))"
  unfolding amount_checked_sum_Some using amount_of_sats [of "total_sats as"] by (cases a) (auto simp: word_unat_eq_iff)

lemma fill_script_sigs_simps:
  "length xs = length (tx_inputs t) \<Longrightarrow> strip_scripts (fill_script_sigs t xs) = strip_scripts t"
  "length xs = length (tx_inputs t) \<Longrightarrow> i < length xs \<Longrightarrow> in_script_sig (tx_inputs (fill_script_sigs t xs) ! i) = xs ! i"
  "length xs = length (tx_inputs t) \<Longrightarrow> length (tx_inputs (fill_script_sigs t xs)) = length (tx_inputs t)"
proof -
  assume l: "length xs = length (tx_inputs t)"
  have "map (\<lambda>i. i\<lparr>in_script_sig := []\<rparr>) (map2 (\<lambda>i s. i\<lparr>in_script_sig := s\<rparr>) (tx_inputs t) xs) = map (\<lambda>i. i\<lparr>in_script_sig := []\<rparr>) (tx_inputs t)"
    using l by (auto intro!: nth_equalityI)
  then show "strip_scripts (fill_script_sigs t xs) = strip_scripts t" unfolding strip_scripts_def fill_script_sigs_def by simp
qed (simp_all add: fill_script_sigs_def)

lemma skeleton_simps:
  "length (tx_inputs (skeleton p)) = length (pt_inputs p)" "strip_scripts (skeleton p) = skeleton p" "transparent_only (skeleton p)"
  by (simp_all add: skeleton_def strip_scripts_def tx_in_unsigned_def transparent_only_def is_shielded_def tx_default_def comp_def)

lemma finish_input_Inr:
  "finish_input E p i = Inr script \<longleftrightarrow> pi_signatures (pt_inputs p ! i) \<noteq> [] \<and>
     (\<exists>h. partial_sighash E p i = Inr h \<and>
        (\<forall>s \<in> set (pi_signatures (pt_inputs p ! i)). verify_collected E h s (pi_kind (pt_inputs p ! i)) i = Inr ())) \<and>
     finished_script_sig (pt_inputs p ! i) i = Inr script"
  by (auto simp: finish_input_def rbind_Inr_iff refuse_if_Inr_iff rmap_unit Let_def)

lemma partial_finalize_Inr:
  "partial_finalize E p = Inr st \<longleftrightarrow>
     (\<exists>xs raw. length xs = length (pt_inputs p) \<and> (\<forall>i < length (pt_inputs p). finish_input E p i = Inr (xs ! i)) \<and>
        serialize (fill_script_sigs (skeleton p) xs) = Inr raw \<and>
        total_sats (input_values p) < 2 ^ 64 \<and> total_sats (output_values p) < 2 ^ 64 \<and>
        st = \<lparr>st_hex = env_hex E raw, st_txid = txid_display (sha256d (hl_sha256 (env_hash E)) raw),
          st_fee = Amount (of_nat (total_sats (input_values p) - total_sats (output_values p))),
          st_change = amount_zero, st_inputs_used = map pi_outpoint (pt_inputs p)\<rparr>)"
proof -
  have fee: "(case amount_checked_sub a b of Some fee \<Rightarrow> fee | None \<Rightarrow> amount_zero) = Amount (of_nat (sats a - sats b))" for a b
  proof (cases "sats b \<le> sats a")
    case True
    have "sats a - sats b < 2 ^ 64" using unsigned_less [of "to_sat a", where 'a = nat] by simp
    then have "amount_checked_sub a b = Some (Amount (of_nat (sats a - sats b)))"
      using True by (simp only: amount_checked_sub_Some amount_of_sats simp_thms)
    then show ?thesis by simp
  next
    case False
    then have "amount_checked_sub a b = None" using amount_checked_sub_Some [of a b] by (cases "amount_checked_sub a b") auto
    then show ?thesis using False by (simp add: amount_zero_def)
  qed
  show ?thesis
    unfolding partial_finalize_def Let_def rbind_Inr_iff rmap_upto_Inr map_err_Inr_iff ok_or_Inr_iff fee tx_txid_def checked_sum_is
    by (auto simp: amount_of_sats simp del: amount.sel)
qed

text \<open>
  C35: what is finished was checked.  Whoever assembled a partial transaction and whatever was done to it,
  one that is finished has at least one signature on every input, every one of which
  verifies against the hash of that input under its own hash type; the transaction shipped has the outpoints,
  outputs, expiry and lock time of the partial one, and the fee reported is what its inputs exceed
  its outputs by, or zero when they do not.
\<close>

theorem finalize_checks:
  assumes "partial_finalize E p = Inr st"
  shows "(\<forall>i < length (pt_inputs p). pi_signatures (pt_inputs p ! i) \<noteq> [] \<and>
        (\<exists>h. partial_sighash E p i = Inr h \<and>
          (\<forall>s \<in> set (pi_signatures (pt_inputs p ! i)). verify_collected E h s (pi_kind (pt_inputs p ! i)) i = Inr ()))) \<and>
    (\<exists>t raw. serialize t = Inr raw \<and> st_hex st = env_hex E raw \<and> strip_scripts t = skeleton p \<and>
        (\<forall>i < length (pt_inputs p). finished_script_sig (pt_inputs p ! i) i = Inr (in_script_sig (tx_inputs t ! i)))) \<and>
    st_inputs_used st = map pi_outpoint (pt_inputs p) \<and>
    sats (st_fee st) = total_sats (input_values p) - total_sats (output_values p) \<and>
    total_sats (input_values p) < 2 ^ 64 \<and> total_sats (output_values p) < 2 ^ 64"
proof -
  from assms obtain xs raw where xs: "length xs = length (pt_inputs p)" "\<forall>i < length (pt_inputs p). finish_input E p i = Inr (xs ! i)"
    and raw: "serialize (fill_script_sigs (skeleton p) xs) = Inr raw"
    and sums: "total_sats (input_values p) < 2 ^ 64" "total_sats (output_values p) < 2 ^ 64"
    and st: "st_hex st = env_hex E raw" "st_inputs_used st = map pi_outpoint (pt_inputs p)"
      "st_fee st = Amount (of_nat (total_sats (input_values p) - total_sats (output_values p)))"
    unfolding partial_finalize_Inr by auto
  have fee: "sats (st_fee st) = total_sats (input_values p) - total_sats (output_values p)"
    unfolding st(3) by (rule amount_of_sats) (use sums in simp)
  have "strip_scripts (fill_script_sigs (skeleton p) xs) = skeleton p"
    using fill_script_sigs_simps(1) [of xs "skeleton p"] xs(1) by (simp add: skeleton_simps)
  moreover have "\<forall>i < length (pt_inputs p). finished_script_sig (pt_inputs p ! i) i =
      Inr (in_script_sig (tx_inputs (fill_script_sigs (skeleton p) xs) ! i))"
    using fill_script_sigs_simps(2) [of xs "skeleton p"] xs by (simp add: skeleton_simps finish_input_Inr)
  ultimately show ?thesis using xs(2) raw st(1,2) fee sums unfolding finish_input_Inr by blast
qed

lemma sighash_type_fits: "partial_sighash E p i = Inr h \<Longrightarrow> unat (pi_hash_type (pt_inputs p ! i)) < 256"
proof -
  assume "partial_sighash E p i = Inr h"
  then have "pi_hash_type (pt_inputs p ! i) AND NOT (SIGHASH_MASK OR SIGHASH_ANYONECANPAY) = 0"
    by (auto simp: partial_sighash_def transparent_sighash_def map_err_Inr_iff rbind_Inr_iff check_sighash_type_iff Let_def split: if_splits)
  then have "pi_hash_type (pt_inputs p ! i) = pi_hash_type (pt_inputs p ! i) AND (SIGHASH_MASK OR SIGHASH_ANYONECANPAY)"
    by (metis and.right_neutral bit.conj_disj_distrib bit.disj_cancel_right or.right_neutral)
  moreover have "(SIGHASH_MASK OR SIGHASH_ANYONECANPAY :: u32) = 0x9f" by (simp add: SIGHASH_MASK_def SIGHASH_ANYONECANPAY_def)
  ultimately have "pi_hash_type (pt_inputs p ! i) \<le> 0x9f" by (metis word_and_le1)
  then show ?thesis by (simp add: word_le_nat_alt)
qed

text \<open>The script of an input signed by its owner, or by the keys of a condition.\<close>

definition unlocked_by :: "('sk, 'vk, 'sg) env \<Rightarrow> partial_transaction \<Rightarrow> nat \<Rightarrow> bytes \<Rightarrow> bool" where
  "unlocked_by E p index script \<longleftrightarrow> (let i = pt_inputs p ! index in
     \<exists>h. partial_sighash E p index = Inr h \<and> distinct (map cs_pubkey (pi_signatures i)) \<and>
       (\<forall>s \<in> set (pi_signatures i). sound_signature E h i index s) \<and>
       (case pi_kind i of
          KeyHashInput \<Rightarrow> \<exists>s \<in> set (pi_signatures i).
            script = [of_nat (length (cs_bytes s))] @ cs_bytes s @ [of_nat (length (cs_pubkey s))] @ cs_pubkey s
        | ConditionInput \<Rightarrow> fulfillment_script_sig (map (\<lambda>s. (cs_pubkey s, cs_bytes s)) (pi_signatures i)) (ucast (pi_hash_type i)) = Inr script))"

lemma sound_finishes:
  assumes "sound_input E p i" "pi_signatures (pt_inputs p ! i) \<noteq> []" "length (pi_signatures (pt_inputs p ! i)) \<le> 252"
  shows "\<exists>script. finish_input E p i = Inr script \<and> unlocked_by E p i script"
proof -
  let ?in = "pt_inputs p ! i" and ?sigs = "pi_signatures (pt_inputs p ! i)"
  from assms(1,2) obtain h where h: "partial_sighash E p i = Inr h" and sound: "\<forall>s \<in> set ?sigs. sound_signature E h ?in i s"
    and dist: "distinct (map cs_pubkey ?sigs)"
    by (auto simp: sound_input_def Let_def)
  have "\<exists>script. finished_script_sig ?in i = Inr script \<and> unlocked_by E p i script"
  proof (cases "pi_kind ?in")
    case KeyHashInput
    have "?sigs ! 0 \<in> set ?sigs" using assms(2) by simp
    then have "length (cs_bytes (?sigs ! 0)) \<le> 73" "length (cs_pubkey (?sigs ! 0)) \<le> 65"
      using sound KeyHashInput by (auto simp: sound_signature_def)
    then show ?thesis
      using KeyHashInput h sound dist \<open>?sigs ! 0 \<in> set ?sigs\<close>
      by (auto simp: finished_script_sig_def unlocked_by_def refuse_if_def Let_def)
  next
    case ConditionInput
    let ?pairs = "map (\<lambda>s. (cs_pubkey s, cs_bytes s)) ?sigs"
    have fits: "length (cs_bytes s) = 64 \<and> length (cs_pubkey s) \<le> 65" if "s \<in> set ?sigs" for s
      using sound ConditionInput that by (auto simp: sound_signature_def)
    have pairs: "rmap (\<lambda>s. rbind (refuse_if (length (cs_bytes s) \<noteq> 64) (MissingSignature i)) (\<lambda>_.
            Inr (cs_pubkey s, cs_bytes s))) ?sigs = Inr ?pairs"
      using fits by (auto simp: rmap_Inr_iff list_all2_conv_all_nth refuse_if_def)
    have byte: "hash_type_byte (pi_hash_type ?in) = Inr (ucast (pi_hash_type ?in))"
      using sighash_type_fits [OF h] by (simp add: hash_type_byte_def)
    have "\<forall>x \<in> set ?pairs. length (signature_entry x) \<le> 132"
    proof
      fix x
      assume "x \<in> set ?pairs"
      then obtain s where "s \<in> set ?sigs" "x = (cs_pubkey s, cs_bytes s)" by auto
      then show "length (signature_entry x) \<le> 132" using fits by (simp add: signature_entry_def)
    qed
    then have "length (concat (map signature_entry ?pairs)) \<le> 132 * length ?sigs"
      using length_concat_bound [of ?pairs signature_entry 132] by simp
    then have "length ([1, b, of_nat (length ?pairs)] @ concat (map signature_entry ?pairs)) \<le> 65535" for b :: byte
      using assms(3) by simp
    moreover have "\<forall>ps \<in> set ?pairs. length (fst ps) \<le> 255" using fits by fastforce
    ultimately have "\<exists>script. fulfillment_script_sig ?pairs (ucast (pi_hash_type ?in)) = Inr script"
      using assms(2,3) unfolding fulfillment_Inr by (simp del: append.simps)
    then show ?thesis
      using ConditionInput h sound dist by (auto simp: finished_script_sig_def unlocked_by_def pairs byte Let_def)
  qed
  then show ?thesis using assms(2) h sound by (auto simp: finish_input_Inr sound_signature_def)
qed

lemma finalize_total:
  assumes "\<And>i. i < length (pt_inputs p) \<Longrightarrow> finish_input E p i = Inr (script i)"
    and "total_sats (input_values p) < 2 ^ 64" "total_sats (output_values p) < 2 ^ 64"
  obtains st t raw where "partial_finalize E p = Inr st" "serialize t = Inr raw" "st_hex st = env_hex E raw"
    "strip_scripts t = skeleton p" "\<And>i. i < length (pt_inputs p) \<Longrightarrow> in_script_sig (tx_inputs t ! i) = script i"
    "st_fee st = Amount (of_nat (total_sats (input_values p) - total_sats (output_values p)))"
proof -
  let ?xs = "map script [0..<length (pt_inputs p)]"
  let ?t = "fill_script_sigs (skeleton p) ?xs"
  have l: "length ?xs = length (tx_inputs (skeleton p))" by (simp add: skeleton_simps)
  have strip: "strip_scripts ?t = skeleton p" using fill_script_sigs_simps(1) [OF l] by (simp add: skeleton_simps)
  then have "transparent_only ?t"
    using transparent_only_strip [of ?t "skeleton p"] by (simp add: skeleton_simps)
  then obtain raw where raw: "serialize ?t = Inr raw" using serialize_transparent_only by blast
  have scripts: "in_script_sig (tx_inputs ?t ! i) = script i" if "i < length (pt_inputs p)" for i
    using fill_script_sigs_simps(2) [OF l] that by simp
  let ?st = "\<lparr>st_hex = env_hex E raw, st_txid = txid_display (sha256d (hl_sha256 (env_hash E)) raw),
          st_fee = Amount (of_nat (total_sats (input_values p) - total_sats (output_values p))),
          st_change = amount_zero, st_inputs_used = map pi_outpoint (pt_inputs p)\<rparr>"
  have "partial_finalize E p = Inr ?st"
    unfolding partial_finalize_Inr using assms raw
    by (intro exI [of _ ?xs] exI [of _ raw]) simp
  then show thesis by (rule that [OF _ raw _ strip scripts]) simp_all
qed

text \<open>
  C31: a session that is complete finishes.  When every input of a partial transaction that came out of a
  session has a signature, and none has more than 252, and the values fit, \<open>finalize\<close>
  succeeds; what it ships is the transaction the session was started with, every input of
  it unlocked by its owner or by different keys that all verify, and its fee is what the inputs
  exceed the outputs by.
\<close>

theorem complete_session_finishes:
  assumes "ec_lib_ok (env_ec E)" "sec1_ok (env_ec E)" "unsigned_yet p0" "cosigned E p0 p" "is_complete p"
    and "\<forall>i \<in> set (pt_inputs p). length (pi_signatures i) \<le> 252"
    and "total_sats (input_values p) < 2 ^ 64" "total_sats (output_values p) < 2 ^ 64"
  shows "\<exists>st t raw. partial_finalize E p = Inr st \<and> serialize t = Inr raw \<and> st_hex st = env_hex E raw \<and>
      strip_scripts t = skeleton p0 \<and> (\<forall>i < length (pt_inputs p0). unlocked_by E p i (in_script_sig (tx_inputs t ! i))) \<and>
      sats (st_fee st) = total_sats (input_values p0) - total_sats (output_values p0)"
proof -
  have bare: "bare_body p = bare_body p0" and sound: "sound_partial E p"
    using session_sound [OF assms(1-4)] by simp_all
  have ins: "map bare_input (pt_inputs p) = map bare_input (pt_inputs p0)"
    and rest: "pt_outputs p = pt_outputs p0" "pt_expiry p = pt_expiry p0" "pt_lock_time p = pt_lock_time p0"
    using bare by (simp_all add: bare_body_def)
  have via: "map (f \<circ> bare_input) (pt_inputs p) = map (f \<circ> bare_input) (pt_inputs p0)" for f :: "_ \<Rightarrow> 'x"
    using arg_cong [OF ins, of "map f"] by simp
  have skel: "skeleton p = skeleton p0"
    using via [of "\<lambda>(op, _). tx_in_unsigned (to_internal (fst op)) (snd op) 0xffffffff"] rest
    by (simp add: skeleton_def bare_input_def comp_def)
  have vals: "input_values p = input_values p0" "output_values p = output_values p0"
    using via [of "\<lambda>(_, _, v, _). v"] rest by (simp_all add: input_values_def output_values_def bare_input_def comp_def)
  have len: "length (pt_inputs p) = length (pt_inputs p0)" using arg_cong [OF ins, of length] by simp
  have "\<forall>i. \<exists>script. i < length (pt_inputs p) \<longrightarrow> finish_input E p i = Inr script \<and> unlocked_by E p i script"
    using sound_finishes [of E p] sound assms(5,6) by (simp add: sound_partial_def is_complete_def)
  then obtain script where script: "\<And>i. i < length (pt_inputs p) \<Longrightarrow> finish_input E p i = Inr (script i) \<and> unlocked_by E p i (script i)"
    by metis
  obtain st t raw where st: "partial_finalize E p = Inr st" "serialize t = Inr raw" "st_hex st = env_hex E raw" "strip_scripts t = skeleton p"
    and scripts: "\<And>i. i < length (pt_inputs p) \<Longrightarrow> in_script_sig (tx_inputs t ! i) = script i"
    and fee: "st_fee st = Amount (of_nat (total_sats (input_values p) - total_sats (output_values p)))"
    using finalize_total [of p E script] script assms(7,8) by metis
  have "sats (st_fee st) = total_sats (input_values p0) - total_sats (output_values p0)"
    unfolding fee using amount_of_sats [of "total_sats (input_values p) - total_sats (output_values p)"] assms(7) by (simp add: vals)
  then show ?thesis using st skel scripts script len by (intro exI [of _ st] exI [of _ t] exI [of _ raw]) simp
qed

text \<open>
  Two things \<open>finalize\<close> does not look at: the hash type byte at the end of a DER signature, and
  whether the key of a signature over a key-hash input is the owner's.
\<close>

lemma trailing_byte_unchecked:
  "verify_collected E h \<lparr>cs_pubkey = k, cs_bytes = der @ [x]\<rparr> KeyHashInput i =
   verify_collected E h \<lparr>cs_pubkey = k, cs_bytes = der @ [y]\<rparr> KeyHashInput i"
  by (simp add: verify_collected_def)

lemma owner_unchecked:
  assumes "pi_kind (pt_inputs p ! i) = KeyHashInput" "pi_signatures (pt_inputs p ! i) = [s]" "partial_sighash E p i = Inr h"
    and "verify_collected E h s KeyHashInput i = Inr ()" "length (cs_bytes s) \<le> 255" "length (cs_pubkey s) \<le> 255"
  shows "\<exists>script. finish_input E p i = Inr script"
  using assms by (auto simp: finish_input_Inr finished_script_sig_def refuse_if_def Let_def)

section \<open>The properties at concrete inputs\<close>

definition owned_coin :: utxo where
  "owned_coin = \<lparr>utxo_txid = Txid (replicate 32 1), utxo_vout = 0, utxo_satoshis = Amount 500,
     utxo_script_pubkey = [0x76, 0xa9, 0x14] @ (2 # replicate 19 5) @ [0x88, 0xac]\<rparr>"

definition shared_coin :: utxo where
  "shared_coin = \<lparr>utxo_txid = Txid (replicate 32 2), utxo_vout = 1, utxo_satoshis = Amount 600, utxo_script_pubkey = [0xcc]\<rparr>"

definition sample_partial :: partial_transaction where
  "sample_partial = \<lparr>pt_outputs = [\<lparr>out_value = 1000, out_script_pubkey = [0x51]\<rparr>],
     pt_inputs = [fresh_input owned_coin KeyHashInput, fresh_input shared_coin ConditionInput],
     pt_expiry = AtHeight 100, pt_lock_time = 0\<rparr>"

definition other_key :: "key32 private_key" where
  "other_key = \<lparr>sk_signing_key = Abs_key32 (replicate 32 6), sk_compressed = True\<rparr>"

lemma toy_sec1_ok: "sec1_ok (env_ec sample_env)"
proof -
  have "length (Rep_key32 k) = 32" "length (Rep_sig64 g) = 64" for k g using Rep_key32 [of k] Rep_sig64 [of g] by simp_all
  then show ?thesis by (simp add: sec1_ok_def sample_env_def toy_ec_lib_def Rep_key32_inverse)
qed

lemma sample_sighash:
  assumes "i < length (pt_inputs p)" "pi_hash_type (pt_inputs p ! i) = SIGHASH_ALL"
  shows "\<exists>h. partial_sighash E p i = Inr h"
proof -
  have "check_sighash_type SIGHASH_ALL = Inr ()" by code_simp
  moreover have "SIGHASH_ALL AND SIGHASH_MASK \<noteq> SIGHASH_SINGLE" by code_simp
  moreover have "length (tx_inputs (skeleton p)) = length (pt_inputs p)" by (rule skeleton_simps)
  ultimately show ?thesis
    using assms by (simp add: partial_sighash_def transparent_sighash_def refuse_if_def map_err_def Let_def)
qed

lemma sample_sign_input:
  assumes "i < length (pt_inputs p)" "pi_hash_type (pt_inputs p ! i) = SIGHASH_ALL"
  shows "\<exists>r. sign_input sample_env key p i = Inr r"
    and "pi_kind (pt_inputs p ! i) = ConditionInput \<Longrightarrow> pi_signatures (pt_inputs p ! i) = [] \<Longrightarrow> \<exists>s. sign_input sample_env key p i = Inr (Some s)"
    and "pi_kind (pt_inputs p ! i) = KeyHashInput \<Longrightarrow> pi_signatures (pt_inputs p ! i) = [] \<Longrightarrow>
      from_p2pkh_script_pubkey (pi_script_pubkey (pt_inputs p ! i)) = Some a \<Longrightarrow>
      addr_hash a = addr_hash (private_address (env_hash sample_env) (env_ec sample_env) key) \<Longrightarrow> \<exists>s. sign_input sample_env key p i = Inr (Some s)"
proof -
  obtain h where h: "partial_sighash sample_env p i = Inr h" using sample_sighash [OF assms] by blast
  have s: "\<exists>g. sign_prehash (env_ec sample_env) key h = Inr g"
    by (simp add: sign_prehash_def sample_env_def toy_ec_lib_def ok_or_def)
  have b: "hash_type_byte SIGHASH_ALL = Inr 1" by code_simp
  show "\<exists>r. sign_input sample_env key p i = Inr r"
    using s b assms(2) by (auto simp: sign_input_def h Let_def sign_prehash_der_def sign_prehash_compact_def map_err_def
        split: input_kind.split option.split)
  show "pi_kind (pt_inputs p ! i) = ConditionInput \<Longrightarrow> pi_signatures (pt_inputs p ! i) = [] \<Longrightarrow> \<exists>s. sign_input sample_env key p i = Inr (Some s)"
    using s by (auto simp: sign_input_def h Let_def sign_prehash_compact_def map_err_def)
  show "pi_kind (pt_inputs p ! i) = KeyHashInput \<Longrightarrow> pi_signatures (pt_inputs p ! i) = [] \<Longrightarrow>
      from_p2pkh_script_pubkey (pi_script_pubkey (pt_inputs p ! i)) = Some a \<Longrightarrow>
      addr_hash a = addr_hash (private_address (env_hash sample_env) (env_ec sample_env) key) \<Longrightarrow> \<exists>s. sign_input sample_env key p i = Inr (Some s)"
    using s b assms(2) by (auto simp: sign_input_def h Let_def sign_prehash_der_def map_err_def)
qed

lemma sample_signs:
  assumes "\<forall>i < length (pt_inputs p). pi_hash_type (pt_inputs p ! i) = SIGHASH_ALL"
  obtains m q where "partial_sign sample_env p key = (Inr m, q)"
    "\<forall>i < length (pt_inputs q). pi_hash_type (pt_inputs q ! i) = SIGHASH_ALL"
proof -
  let ?q = "p\<lparr>pt_inputs := map (with_own sample_env key p) [0..<length (pt_inputs p)]\<rparr>"
  have "partial_sign sample_env p key = (Inr (\<Sum>j \<leftarrow> [0..<length (pt_inputs p)]. length (own_signatures sample_env key p j)), ?q)"
    using sample_sign_input(1) assms by (simp add: partial_sign_Inr)
  moreover have "\<forall>i < length (pt_inputs ?q). pi_hash_type (pt_inputs ?q ! i) = SIGHASH_ALL"
    using assms by (simp add: with_own_def)
  ultimately show thesis by (rule that)
qed

lemma sample_partial_types: "\<forall>i < length (pt_inputs sample_partial). pi_hash_type (pt_inputs sample_partial ! i) = SIGHASH_ALL"
  by (simp add: sample_partial_def fresh_input_def less_Suc_eq nth_Cons')

lemma key_bytes_differ: "key_bytes sample_env sample_key \<noteq> key_bytes sample_env other_key"
proof -
  have "replicate 32 5 \<noteq> (replicate 32 6 :: bytes)" by code_simp
  then show ?thesis
    by (simp add: sample_env_def toy_ec_lib_def public_to_bytes_def private_public_key_def sample_key_def other_key_def Abs_key32_inverse)
qed

lemma signing_order_is_free_witness:
  "\<exists>pa pab pb pba m n. partial_sign sample_env sample_partial sample_key = (Inr m, pa) \<and> partial_sign sample_env pa other_key = (Inr n, pab) \<and>
     partial_sign sample_env sample_partial other_key = (Inr n, pb) \<and> partial_sign sample_env pb sample_key = (Inr m, pba)"
proof -
  obtain m pa where a: "partial_sign sample_env sample_partial sample_key = (Inr m, pa)"
    and t: "\<forall>i < length (pt_inputs pa). pi_hash_type (pt_inputs pa ! i) = SIGHASH_ALL"
    using sample_signs [OF sample_partial_types] by blast
  obtain n pab where b: "partial_sign sample_env pa other_key = (Inr n, pab)" using sample_signs [OF t] by blast
  show ?thesis using signing_order_is_free [OF a b key_bytes_differ] a b by blast
qed

lemma sample_travels: "sized_partial sample_partial" "pt_expiry sample_partial \<noteq> AtHeight 0"
  "length (partial_to_bytes sample_partial) < usize_bound"
  by (simp_all add: sized_partial_def sized_input_def sample_partial_def fresh_input_def owned_coin_def shared_coin_def wf_txid_def
      partial_to_bytes_def MAGIC_def pt_output_bytes_def partial_input_bytes_def length_compact_bytes write_var_slice_def)

lemma partial_travels_witness: "partial_from_bytes (partial_to_bytes sample_partial) = Inr sample_partial"
  using partial_travels [of sample_partial "[]" sample_partial] sample_travels by blast

lemma sample_session:
  obtains m q where "partial_sign sample_env sample_partial sample_key = (Inr m, q)" "is_complete q" "pt_outputs q = pt_outputs sample_partial"
    "\<forall>i \<in> set (pt_inputs q). length (pi_signatures i) \<le> 252" "input_values q = input_values sample_partial"
proof -
  let ?p = sample_partial and ?n = "length (pt_inputs sample_partial)"
  obtain m q where q: "partial_sign sample_env ?p sample_key = (Inr m, q)" using sample_signs [OF sample_partial_types] by blast
  note Q = partial_sign_inputs [OF q]
  have two: "?n = 2" "pt_inputs ?p ! 0 = fresh_input owned_coin KeyHashInput" "pt_inputs ?p ! 1 = fresh_input shared_coin ConditionInput"
    by (simp_all add: sample_partial_def)
  have "from_p2pkh_script_pubkey (utxo_script_pubkey owned_coin) = Some (address_new PubKeyHash (2 # replicate 19 5))"
    by (subst from_p2pkh_iff) (simp add: owned_coin_def wf_address_def address_new_def p2pkh_script_pubkey_def)
  moreover have "addr_hash (private_address (env_hash sample_env) (env_ec sample_env) sample_key) = 2 # replicate 19 5"
    by (simp add: private_address_def sample_env_def sample_key_def toy_ec_lib_def toy_hash_lib_def private_public_key_def
      public_to_bytes_def Abs_key32_inverse hash160_def public_address_def address_new_def public_hash160_def)
  ultimately have "\<exists>s. sign_input sample_env sample_key ?p 0 = Inr (Some s)"
    using sample_sign_input(3) [of 0 ?p "address_new PubKeyHash (2 # replicate 19 5)" sample_key] two sample_partial_types
    by (simp add: fresh_input_def address_new_def)
  moreover have "\<exists>s. sign_input sample_env sample_key ?p 1 = Inr (Some s)"
    using sample_sign_input(2) [of 1 ?p sample_key] two sample_partial_types by (simp add: fresh_input_def)
  ultimately have own: "own_signatures sample_env sample_key ?p i \<noteq> []" if "i < 2" for i
    using that by (auto simp: own_signatures_def less_2_cases_iff)
  have fresh: "pi_signatures (pt_inputs ?p ! i) = []" if "i < 2" for i
    using that two by (auto simp: less_2_cases_iff fresh_input_def)
  have sig: "pi_signatures (pt_inputs q ! i) = own_signatures sample_env sample_key ?p i" if "i < 2" for i
    using Q(2) that two(1) fresh by (simp add: with_own_def)
  show thesis
  proof (rule that [OF q])
    show "is_complete q"
      using own sig two(1) Q(1) by (auto simp: is_complete_def in_set_conv_nth)
    show "pt_outputs q = pt_outputs ?p" using same_body_inputs(2) [OF Q(3)] .
    show "\<forall>i \<in> set (pt_inputs q). length (pi_signatures i) \<le> 252"
    proof
      fix i
      assume "i \<in> set (pt_inputs q)"
      then obtain j where "j < 2" "i = pt_inputs q ! j" using Q(1) two(1) by (auto simp: in_set_conv_nth)
      then show "length (pi_signatures i) \<le> 252"
        using sig own_signatures_key(2) [of sample_env sample_key ?p j] by simp
    qed
    show "input_values q = input_values ?p"
      unfolding input_values_def by (rule nth_equalityI) (simp_all add: Q(1,2) with_own_def)
  qed
qed

lemma sample_unsigned: "unsigned_yet sample_partial" "total_sats (input_values sample_partial) = 1100" "total_sats (output_values sample_partial) = 1000"
  by (simp_all add: sample_partial_def fresh_input_def input_values_def output_values_def owned_coin_def shared_coin_def total_sats_def from_sat_def)

lemma session_stays_sound_witness:
  "\<exists>m q. partial_sign sample_env sample_partial sample_key = (Inr m, q) \<and> is_complete q \<and> sound_partial sample_env q \<and>
     bare_body q = bare_body sample_partial"
proof -
  obtain m q where q: "partial_sign sample_env sample_partial sample_key = (Inr m, q)" "is_complete q" by (rule sample_session)
  have "cosigned sample_env sample_partial q" using cosigned.signs [OF cosigned.started q(1)] .
  from session_stays_sound [OF sample_env_ok toy_sec1_ok sample_unsigned(1) this] show ?thesis using q by blast
qed

lemma complete_session_finishes_witness:
  "\<exists>q st. cosigned sample_env sample_partial q \<and> partial_finalize sample_env q = Inr st \<and> sats (st_fee st) = 100"
proof -
  obtain m q where q: "partial_sign sample_env sample_partial sample_key = (Inr m, q)" "is_complete q" "pt_outputs q = pt_outputs sample_partial"
    "\<forall>i \<in> set (pt_inputs q). length (pi_signatures i) \<le> 252" "input_values q = input_values sample_partial"
    by (rule sample_session)
  have c: "cosigned sample_env sample_partial q" using cosigned.signs [OF cosigned.started q(1)] .
  have v: "total_sats (input_values q) < 2 ^ 64" "total_sats (output_values q) < 2 ^ 64"
    using sample_unsigned q(3,5) by (simp_all add: output_values_def)
  obtain st where "partial_finalize sample_env q = Inr st"
    "sats (st_fee st) = total_sats (input_values sample_partial) - total_sats (output_values sample_partial)"
    using complete_session_finishes [OF sample_env_ok toy_sec1_ok sample_unsigned(1) c q(2,4) v] by blast
  then show ?thesis using c sample_unsigned by auto
qed

lemma sample_finishes: "\<exists>q st. partial_finalize sample_env q = Inr st \<and> length (pt_inputs q) = 2"
proof -
  obtain m q where q: "partial_sign sample_env sample_partial sample_key = (Inr m, q)" "is_complete q" "pt_outputs q = pt_outputs sample_partial"
    "\<forall>i \<in> set (pt_inputs q). length (pi_signatures i) \<le> 252" "input_values q = input_values sample_partial"
    by (rule sample_session)
  have c: "cosigned sample_env sample_partial q" using cosigned.signs [OF cosigned.started q(1)] .
  have sound: "sound_partial sample_env q" using session_sound [OF sample_env_ok toy_sec1_ok sample_unsigned(1) c] by blast
  have "\<exists>script. finish_input sample_env q i = Inr script" if "i < length (pt_inputs q)" for i
    using sound_finishes [of sample_env q i] sound q(2,4) that by (auto simp: sound_partial_def is_complete_def)
  then obtain script where script: "\<And>i. i < length (pt_inputs q) \<Longrightarrow> finish_input sample_env q i = Inr (script i)" by metis
  have "\<exists>st. partial_finalize sample_env q = Inr st"
    by (rule finalize_total [of q sample_env script]) (use script sample_unsigned q(3,5) in \<open>auto simp: output_values_def\<close>)
  moreover have "length (pt_inputs q) = 2" using partial_sign_inputs(1) [OF q(1)] by (simp add: sample_partial_def)
  ultimately show ?thesis by blast
qed

lemma finalize_checks_witness:
  "\<exists>q st. partial_finalize sample_env q = Inr st \<and> pi_signatures (pt_inputs q ! 1) \<noteq> [] \<and> st_inputs_used st = map pi_outpoint (pt_inputs q)"
proof -
  obtain q st where q: "partial_finalize sample_env q = Inr st" "length (pt_inputs q) = 2" using sample_finishes by blast
  from finalize_checks [OF q(1)] q show ?thesis by (intro exI [of _ q] exI [of _ st]) simp
qed

end
