(* ===== verification/Offer.thy ===== *)
theory Offer
  imports Token Partial
begin

text \<open>
  Marketplace offers (\<open>verus-tx-market/src/offer.rs\<close>): the output that holds what is on offer,
  the maker's half-signed transaction, and the taker's completion of it.  The hexadecimal decoder
  and the derived \<open>Debug\<close> text of a decoded output, which only error messages show, are
  arguments.
\<close>

section \<open>Making an offer\<close>

definition OFFER_HASH_TYPE :: u32 where
  "OFFER_HASH_TYPE = SIGHASH_SINGLE OR SIGHASH_ANYONECANPAY"

definition offer_funding_script :: "bytes \<Rightarrow> tx_error + bytes" where
  "offer_funding_script control =
     (let d = DestPubKeyHash control in
      cc_script (one_of_one EVAL_NONE d)
        ((one_of_one EVAL_IDENTITY_COMMITMENT d)\<lparr>cc_vdata := [replicate 32 0]\<rparr>))"

datatype wanted =
    WantNative amount bytes
  | WantToken currency_id amount bytes

fun wanted_to_output :: "wanted \<Rightarrow> tx_error + tx_out" where
  "wanted_to_output (WantNative amount recipient) =
     rbind (map_err Key (p2pkh_script_pubkey (address_new PubKeyHash recipient))) (\<lambda>script.
     Inr \<lparr>out_value = to_sat amount, out_script_pubkey = script\<rparr>)"
| "wanted_to_output (WantToken currency amount recipient) =
     rbind (reserve_output_script recipient currency (to_sat amount)) (\<lambda>script.
     Inr \<lparr>out_value = 0, out_script_pubkey = script\<rparr>)"

record offer_params =
  of_funding :: utxo
  of_wanted :: wanted
  of_expiry :: expiry

definition offer_params_new :: "utxo \<Rightarrow> wanted \<Rightarrow> expiry \<Rightarrow> offer_params" where
  "offer_params_new funding wanted expiry =
     \<lparr>of_funding = funding, of_wanted = wanted, of_expiry = expiry\<rparr>"

record signed_offer =
  so_hex :: str
  so_offered :: amount
  so_funding_outpoint :: "txid \<times> u32"

definition fund_offer ::
  "('sk, 'vk, 'sg) env \<Rightarrow> 'sk private_key \<Rightarrow> utxo list \<Rightarrow> amount \<Rightarrow> address \<Rightarrow> expiry \<Rightarrow> u64
    \<Rightarrow> tx_error + signed_transaction" where
  "fund_offer E key utxos amount change_address expiry fee_per_kb =
     rbind (expiry_check expiry) (\<lambda>_.
     rbind (refuse_if (amount = amount_zero) (InvalidOffer ''an offer of nothing cannot be taken'')) (\<lambda>_.
     rbind (offer_funding_script (addr_hash (private_address (env_hash E) (env_ec E) key))) (\<lambda>script.
     assemble E key []
       \<lparr>as_leading = [], as_funding = utxos,
        as_outputs = [\<lparr>out_value = to_sat amount, out_script_pubkey = script\<rparr>],
        as_burn = amount_zero, as_fee_output_count = 2, as_change_address = change_address,
        as_change_script = None, as_value_bearing_leading = False, as_expiry = expiry,
        as_fee_per_kb = fee_per_kb\<rparr>)))"

definition offer_skeleton :: "offer_params \<Rightarrow> tx_out \<Rightarrow> tx_v4" where
  "offer_skeleton p out = unsigned_tx [of_funding p] [out] 0 (to_height (of_expiry p))"

definition make_offer ::
  "('sk, 'vk, 'sg) env \<Rightarrow> 'sk private_key \<Rightarrow> offer_params \<Rightarrow> tx_error + signed_offer" where
  "make_offer E key p =
     rbind (expiry_check (of_expiry p)) (\<lambda>_.
     rbind (offer_funding_script (addr_hash (private_address (env_hash E) (env_ec E) key))) (\<lambda>expected.
     rbind (refuse_if (utxo_script_pubkey (of_funding p) \<noteq> expected)
       (InvalidOffer ''the funding output is not an offer commitment controlled by this key'')) (\<lambda>_.
     rbind (wanted_to_output (of_wanted p)) (\<lambda>out.
     let t = offer_skeleton p out in
     rbind (map_err Wire (transparent_sighash (env_blake2b E) t VERUS_BRANCH_ID 0
       (utxo_script_pubkey (of_funding p)) (to_sat (utxo_satoshis (of_funding p))) OFFER_HASH_TYPE)) (\<lambda>sighash.
     rbind (map_err Key (sign_prehash_compact (env_ec E) key sighash)) (\<lambda>signature.
     rbind (if unat OFFER_HASH_TYPE < 256 then Inr (ucast OFFER_HASH_TYPE)
            else Inl (InvalidOffer ''the offer hash type does not fit a byte'')) (\<lambda>hash_type.
     rbind (fulfillment_script_sig
       [(public_to_bytes (env_ec E) (private_public_key (env_ec E) key), signature)] hash_type) (\<lambda>script_sig.
     rbind (map_err Wire (serialize (set_script_sig t 0 script_sig))) (\<lambda>raw.
     Inr \<lparr>so_hex = env_hex E raw, so_offered = utxo_satoshis (of_funding p),
          so_funding_outpoint = (utxo_txid (of_funding p), utxo_vout (of_funding p))\<rparr>)))))))))"

section \<open>Taking one\<close>

record take_params =
  tk_offer :: str
  tk_utxos :: "utxo list"
  tk_recipient :: bytes
  tk_change_address :: address
  tk_offered_value :: amount
  tk_fee :: u64

definition take_params_new ::
  "str \<Rightarrow> utxo list \<Rightarrow> bytes \<Rightarrow> address \<Rightarrow> amount \<Rightarrow> u64 \<Rightarrow> take_params" where
  "take_params_new offer utxos recipient change_address offered_value fee =
     \<lparr>tk_offer = offer, tk_utxos = utxos, tk_recipient = recipient, tk_change_address = change_address,
      tk_offered_value = offered_value, tk_fee = fee\<rparr>"

text \<open>The byte after the first \<open>0x01\<close> of the unlocking script.\<close>

definition offer_hash_type :: "bytes \<Rightarrow> u8 option" where
  "offer_hash_type script_sig =
     (case dropWhile (\<lambda>b. b \<noteq> 1) script_sig of _ # hash_type # _ \<Rightarrow> Some hash_type | _ \<Rightarrow> None)"

definition check_offer_shape :: "tx_v4 \<Rightarrow> tx_error + unit" where
  "check_offer_shape offer =
     rbind (refuse_if (length (tx_inputs offer) \<noteq> 1 \<or> length (tx_outputs offer) \<noteq> 1)
       (InvalidOffer (''an offer has one input and one output, this has '' @
         dec_string (length (tx_inputs offer)) @ '' and '' @ dec_string (length (tx_outputs offer))))) (\<lambda>_.
     rbind (ok_or (offer_hash_type (in_script_sig (tx_inputs offer ! 0)))
       (InvalidOffer ''the offer input has no fulfillment'')) (\<lambda>hash_type.
     refuse_if (ucast hash_type \<noteq> OFFER_HASH_TYPE)
       (InvalidOffer (''the offer is signed under hash type 0x'' @ hex_nat (unat hash_type) @ '', not 0x'' @
         hex_nat (unat OFFER_HASH_TYPE) @ ''; adding to it would void the maker''@[CHR 0x27]@''s signature''))))"

text \<open>What the maker's output demands in tokens.\<close>

definition token_demand ::
  "hash_lib \<Rightarrow> hex_encode \<Rightarrow> (output_kind \<Rightarrow> str) \<Rightarrow> bytes \<Rightarrow> tx_error + (currency_id \<times> u64) list" where
  "token_demand H hx debug script =
     rbind (decode_output_script H hx script) (\<lambda>kind.
     case kind of
       OutReserveOutput _ tokens \<Rightarrow> Inr tokens
     | OutPubKeyHash _ \<Rightarrow> Inr []
     | OutIdentityPayment _ \<Rightarrow> Inr []
     | other \<Rightarrow> Inl (InvalidOffer
         (''the offer''@[CHR 0x27]@''s demand output is not a shape this crate can account for: '' @ debug other)))"

text \<open>A coin of the taker; everything that is not a reserve output is taken for a plain one.\<close>

definition taker_coin :: "hash_lib \<Rightarrow> hex_encode \<Rightarrow> utxo \<Rightarrow> tx_error + decoded_utxo" where
  "taker_coin H hx u =
     rbind (decode_output_script H hx (utxo_script_pubkey u)) (\<lambda>kind.
     rbind (case kind of
         OutReserveOutput d tokens \<Rightarrow> rbind (reject_unspendable_reserve hx u d) (\<lambda>_. Inr (tokens, True))
       | _ \<Rightarrow> Inr ([], False)) (\<lambda>(tokens, cc).
     Inr \<lparr>du_utxo = u, du_tokens = tokens, du_is_cryptocondition = cc\<rparr>))"

definition demand_balances :: "(currency_id \<times> u64) list \<Rightarrow> balances" where
  "demand_balances demand = foldl (\<lambda>bs (c, amount). add_required bs c amount) [] demand"

definition supply_balances :: "balances \<Rightarrow> decoded_utxo list \<Rightarrow> balances" where
  "supply_balances bs coins = foldl bal_supply bs coins"

fun joined :: "str \<Rightarrow> str list \<Rightarrow> str" where
  "joined sep [] = []"
| "joined sep [s] = s"
| "joined sep (s # ss) = s @ sep @ joined sep ss"

definition short_text :: "(currency_id \<times> int) list \<Rightarrow> str" where
  "short_text missing =
     joined '', '' (map (\<lambda>(c, amount). dec_string (nat amount) @ '' of '' @ currency_to_string c) missing)"

text \<open>
  The completed transaction before the taker signs: the offer with the taker's inputs and outputs
  appended, and the taker's coins.
\<close>

definition complete_offer ::
  "hash_lib \<Rightarrow> hex_encode \<Rightarrow> (output_kind \<Rightarrow> str) \<Rightarrow> tx_v4 \<Rightarrow> take_params
    \<Rightarrow> tx_error + tx_v4 \<times> decoded_utxo list" where
  "complete_offer H hx debug offer p =
     rbind (map_err Key (p2pkh_script_pubkey (address_new PubKeyHash (tk_recipient p)))) (\<lambda>script.
     rbind (token_demand H hx debug (out_script_pubkey (tx_outputs offer ! 0))) (\<lambda>demand.
     rbind (rmap (taker_coin H hx) (tk_utxos p)) (\<lambda>coins.
     let bs = supply_balances (demand_balances demand) coins; missing = shortfalls bs in
     rbind (refuse_if (missing \<noteq> []) (InvalidOffer
       (''this offer asks to be paid in a token, and the coins supplied are short by '' @ short_text missing))) (\<lambda>_.
     rbind (ok_or (amount_checked_sum (map utxo_satoshis (tk_utxos p))) ValueOverflow) (\<lambda>available.
     rbind (ok_or (amount_checked_add (from_sat (out_value (tx_outputs offer ! 0))) (from_sat (tk_fee p))) ValueOverflow)
       (\<lambda>needed.
     rbind (refuse_if (available < needed) (InvalidOffer
       (''taking this offer costs '' @ to_coins_string needed @ '' but only '' @ to_coins_string available @
        '' was supplied''))) (\<lambda>_.
     rbind (bal_change bs) (\<lambda>change.
     rbind (rmap (token_change_output (addr_hash (tk_change_address p))) change) (\<lambda>returned.
     rbind (ok_or (amount_checked_sub available needed) (InvalidOffer ''change underflowed'')) (\<lambda>left.
     rbind (native_change_output (tk_change_address p) (to_sat left)) (\<lambda>native.
     Inr (offer\<lparr>
         tx_inputs := tx_inputs offer @
           map (\<lambda>u. tx_in_unsigned (to_internal (utxo_txid u)) (utxo_vout u) 0xffffffff) (tk_utxos p),
         tx_outputs := tx_outputs offer @
           [\<lparr>out_value = to_sat (tk_offered_value p), out_script_pubkey = script\<rparr>] @ returned @ native\<rparr>,
       coins))))))))))))"

definition offer_push_data :: "bytes \<Rightarrow> bytes \<Rightarrow> tx_error + bytes" where
  "offer_push_data script data =
     (if 0x4c \<le> length data then Inl (InvalidOffer ''a scriptSig element is unexpectedly large'')
      else Inr (script @ [of_nat (length data)] @ data))"

definition taker_script_sig ::
  "('sk, 'vk, 'sg) env \<Rightarrow> 'sk private_key \<Rightarrow> bool \<Rightarrow> bytes \<Rightarrow> tx_error + bytes" where
  "taker_script_sig E key is_cryptocondition sighash =
     (let pubkey = public_to_bytes (env_ec E) (private_public_key (env_ec E) key) in
      if is_cryptocondition
      then rbind (map_err Key (sign_prehash_compact (env_ec E) key sighash)) (\<lambda>compact.
        fulfillment_script_sig [(pubkey, compact)] 1)
      else rbind (map_err Key (sign_prehash_der (env_ec E) key sighash 1)) (\<lambda>signature.
        rbind (offer_push_data [] signature) (\<lambda>script_sig. offer_push_data script_sig pubkey)))"

fun sign_taker ::
  "('sk, 'vk, 'sg) env \<Rightarrow> 'sk private_key \<Rightarrow> nat \<Rightarrow> tx_v4 \<Rightarrow> decoded_utxo list \<Rightarrow> tx_error + tx_v4" where
  "sign_taker E key index t [] = Inr t"
| "sign_taker E key index t (d # ds) =
     rbind (sighash_of E t index (du_utxo d)) (\<lambda>sighash.
     rbind (taker_script_sig E key (du_is_cryptocondition d) sighash) (\<lambda>script_sig.
     sign_taker E key (Suc index) (set_script_sig t index script_sig) ds))"

definition take_offer ::
  "('sk, 'vk, 'sg) env \<Rightarrow> hex_decode \<Rightarrow> (output_kind \<Rightarrow> str) \<Rightarrow> 'sk private_key \<Rightarrow> take_params \<Rightarrow> tx_error + bytes" where
  "take_offer E decode debug key p =
     rbind (map_err (\<lambda>e. InvalidOffer (''offer is not hex: '' @ e)) (decode (tk_offer p))) (\<lambda>raw.
     rbind (map_err Wire (deserialize raw)) (\<lambda>offer.
     rbind (check_offer_shape offer) (\<lambda>_.
     rbind (complete_offer (env_hash E) (env_hex E) debug offer p) (\<lambda>(t, coins).
     rbind (sign_taker E key (length (tx_inputs offer)) t coins) (\<lambda>t.
     map_err Wire (serialize t))))))"

section \<open>What a completion adds\<close>

lemma demand_balances_facts:
  "bal_of (demand_balances ts) c = int (token_total c ts)"
  "set (bal_keys (demand_balances ts)) = fst ` set ts" "distinct (bal_keys (demand_balances ts))"
proof -
  have run: "bal_of (foldl (\<lambda>bs (c, amount). add_required bs c amount) bs ts) c = bal_of bs c + int (token_total c ts) \<and>
      set (bal_keys (foldl (\<lambda>bs (c, amount). add_required bs c amount) bs ts)) = set (bal_keys bs) \<union> fst ` set ts \<and>
      (distinct (bal_keys bs) \<longrightarrow> distinct (bal_keys (foldl (\<lambda>bs (c, amount). add_required bs c amount) bs ts)))" for bs
  proof (induction ts arbitrary: bs)
    case (Cons t ts)
    obtain e a where t: "t = (e, a)" by force
    show ?case using Cons [of "add_required bs e a"] by (auto simp: t bal_of_required keys_required)
  qed simp
  from run [of "[]"] show "bal_of (demand_balances ts) c = int (token_total c ts)"
    "set (bal_keys (demand_balances ts)) = fst ` set ts" "distinct (bal_keys (demand_balances ts))"
    by (auto simp: demand_balances_def bal_of_def bal_keys_def)
qed

lemma supply_balances_supplies: "supplies bs ds (supply_balances bs ds)"
  by (induction ds arbitrary: bs) (simp_all add: supply_balances_def supplies_Nil supplies_Cons)

text \<open>The only kind of coin whose tokens \<open>take_offer\<close> counts.\<close>

definition is_reserve_coin :: "hash_lib \<Rightarrow> hex_encode \<Rightarrow> utxo \<Rightarrow> bool" where
  "is_reserve_coin H hx u =
     (case decode_output_script H hx (utxo_script_pubkey u) of Inr (OutReserveOutput _ _) \<Rightarrow> True | _ \<Rightarrow> False)"

lemma taker_coin_Inr:
  assumes "taker_coin H hx u = Inr d"
  shows "du_utxo d = u"
    "du_tokens d = (if is_reserve_coin H hx u then chain_tokens H hx (utxo_script_pubkey u) else [])"
    "du_is_cryptocondition d \<longleftrightarrow> (\<exists>e ts. decode_output_script H hx (utxo_script_pubkey u) = Inr (OutReserveOutput e ts))"
    "\<exists>k. decode_output_script H hx (utxo_script_pubkey u) = Inr k"
proof -
  from assms obtain k where k: "decode_output_script H hx (utxo_script_pubkey u) = Inr k"
    by (auto simp: taker_coin_def rbind_Inr_iff)
  with assms show "du_utxo d = u"
    "du_tokens d = (if is_reserve_coin H hx u then chain_tokens H hx (utxo_script_pubkey u) else [])"
    "du_is_cryptocondition d \<longleftrightarrow> (\<exists>e ts. decode_output_script H hx (utxo_script_pubkey u) = Inr (OutReserveOutput e ts))"
    "\<exists>k. decode_output_script H hx (utxo_script_pubkey u) = Inr k"
    by (cases k; auto simp: taker_coin_def chain_tokens_def is_reserve_coin_def rbind_Inr_iff)+
qed

text \<open>A reserve deposit is taken for a plain coin, and its tokens are not counted.\<close>

lemma taker_deposit_dropped:
  assumes "decode_output_script H hx (utxo_script_pubkey u) = Inr (OutReserveDeposit d c ts)"
  shows "taker_coin H hx u = Inr \<lparr>du_utxo = u, du_tokens = [], du_is_cryptocondition = False\<rparr>"
    "chain_tokens H hx (utxo_script_pubkey u) = ts"
  using assms by (simp_all add: taker_coin_def chain_tokens_def)

lemma chain_total_filter:
  "chain_total H hx (map f us) c = chain_total H hx (map f (filter P us)) c + chain_total H hx (map f (filter (\<lambda>u. \<not> P u) us)) c"
  by (induction us) simp_all

lemma taker_coins:
  assumes "rmap (taker_coin H hx) us = Inr ds"
  shows "map du_utxo ds = us"
    "supplied ds c = chain_total H hx (map utxo_script_pubkey (filter (is_reserve_coin H hx) us)) c"
    "list_all (\<lambda>d. taker_coin H hx (du_utxo d) = Inr d) ds"
proof -
  have l: "list_all2 (\<lambda>u d. taker_coin H hx u = Inr d) us ds" using assms by (simp add: rmap_Inr_iff)
  then have "map du_utxo ds = us \<and>
      supplied ds c = chain_total H hx (map utxo_script_pubkey (filter (is_reserve_coin H hx) us)) c \<and>
      list_all (\<lambda>d. taker_coin H hx (du_utxo d) = Inr d) ds"
    by (induction rule: list_all2_induct) (auto simp: taker_coin_Inr)
  then show "map du_utxo ds = us"
    "supplied ds c = chain_total H hx (map utxo_script_pubkey (filter (is_reserve_coin H hx) us)) c"
    "list_all (\<lambda>d. taker_coin H hx (du_utxo d) = Inr d) ds" by blast+
qed

lemma token_demand_Inr:
  assumes "token_demand H hx debug script = Inr ts"
  shows "ts = chain_tokens H hx script" "\<exists>k. decode_output_script H hx script = Inr k"
proof -
  from assms obtain k where k: "decode_output_script H hx script = Inr k" by (auto simp: token_demand_def rbind_Inr_iff)
  with assms show "ts = chain_tokens H hx script" "\<exists>k. decode_output_script H hx script = Inr k"
    by (cases k; auto simp: token_demand_def chain_tokens_def)+
qed

lemma chain_tokens_wf:
  assumes "length script < usize_bound"
  shows "wf_tokens (chain_tokens H hx script)"
proof (cases "decode_output_script H hx script")
  case (Inr k)
  then have "wf_kind k" using decoded_wf assms by blast
  then show ?thesis by (simp add: chain_tokens_def Inr kind_tokens_wf)
qed (simp add: chain_tokens_def wf_tokens_def)

definition taker_inputs :: "utxo list \<Rightarrow> tx_in list" where
  "taker_inputs us = map (\<lambda>u. tx_in_unsigned (to_internal (utxo_txid u)) (utxo_vout u) 0xffffffff) us"

text \<open>Everything a completion is, over the offer it completes.\<close>

lemma complete_offer_Inr:
  assumes "complete_offer H hx debug offer p = Inr (t, coins)"
  obtains paid change returned native available needed where
    "t = offer\<lparr>tx_inputs := tx_inputs offer @ taker_inputs (tk_utxos p),
       tx_outputs := tx_outputs offer @ [paid] @ returned @ native\<rparr>"
    "paid = \<lparr>out_value = to_sat (tk_offered_value p),
       out_script_pubkey = [0x76, 0xa9, 0x14] @ tk_recipient p @ [0x88, 0xac]\<rparr>"
    "rmap (taker_coin H hx) (tk_utxos p) = Inr coins" "list_all2 (returns_token (tk_change_address p)) change returned"
    "\<And>c. chain_total H hx (map utxo_script_pubkey (filter (is_reserve_coin H hx) (tk_utxos p))) c =
       token_total c (chain_tokens H hx (out_script_pubkey (tx_outputs offer ! 0))) + token_total c change"
    "fst ` set change \<subseteq> fst ` set (chain_tokens H hx (out_script_pubkey (tx_outputs offer ! 0))) \<union> currencies coins"
    "native_change_output (tk_change_address p) (to_sat available - to_sat needed) = Inr native"
    "utxo_total (tk_utxos p) = sats available" "sats needed \<le> sats available"
    "sats needed = unat (out_value (tx_outputs offer ! 0)) + unat (tk_fee p)"
proof -
  define demand where "demand = chain_tokens H hx (out_script_pubkey (tx_outputs offer ! 0))"
  define bs where "bs = supply_balances (demand_balances demand) coins"
  from assms obtain script available needed change returned left native where
    script: "script = [0x76, 0xa9, 0x14] @ tk_recipient p @ [0x88, 0xac]"
    and coins: "rmap (taker_coin H hx) (tk_utxos p) = Inr coins" and short: "shortfalls bs = []"
    and av: "amount_checked_sum (map utxo_satoshis (tk_utxos p)) = Some available"
    and ne: "amount_checked_add (from_sat (out_value (tx_outputs offer ! 0))) (from_sat (tk_fee p)) = Some needed"
    and ch: "bal_change bs = Inr change"
    and ret: "rmap (token_change_output (addr_hash (tk_change_address p))) change = Inr returned"
    and left: "amount_checked_sub available needed = Some left"
    and native: "native_change_output (tk_change_address p) (to_sat left) = Inr native"
    and t: "t = offer\<lparr>tx_inputs := tx_inputs offer @ taker_inputs (tk_utxos p),
       tx_outputs := tx_outputs offer @ [\<lparr>out_value = to_sat (tk_offered_value p), out_script_pubkey = script\<rparr>] @
         returned @ native\<rparr>"
    by (auto simp: complete_offer_def rbind_Inr_iff ok_or_Inr_iff refuse_if_Inr_iff map_err_Inr_iff Let_def bs_def demand_def
        p2pkh_script_pubkey_def address_new_def taker_inputs_def dest: token_demand_Inr(1))
  note d = demand_balances_facts [of demand]
  note s = supply_balances_supplies [of "demand_balances demand" coins, folded bs_def]
  have dist: "distinct (bal_keys bs)" using s d(3) by (simp add: supplies_def)
  note c = bal_change_Inr [OF ch dist]
  have tokens: "chain_total H hx (map utxo_script_pubkey (filter (is_reserve_coin H hx) (tk_utxos p))) e = token_total e demand + token_total e change" for e
  proof -
    have "bal_of bs e = int (token_total e demand) - int (chain_total H hx (map utxo_script_pubkey (filter (is_reserve_coin H hx) (tk_utxos p))) e)"
      using s d(1) [of e] taker_coins(2) [OF coins, of e] by (simp add: supplies_def)
    moreover have "bal_of bs e \<le> 0" using short shortfalls_Nil [OF dist] by blast
    ultimately show ?thesis using c(1) [of e] by linarith
  qed
  have keys: "fst ` set change \<subseteq> fst ` set demand \<union> currencies coins"
    using c(4) s d(2) by (simp add: supplies_def)
  have sums: "utxo_total (tk_utxos p) = sats available" "sats needed \<le> sats available"
    "sats needed = unat (out_value (tx_outputs offer ! 0)) + unat (tk_fee p)" "sats left = sats available - sats needed"
    using av ne left by (simp_all add: checked_simps from_sat_def)
  have "to_sat left = to_sat available - to_sat needed"
    using sums(2,4) by (simp add: word_unat_eq_iff unat_sub word_le_nat_alt)
  with native have "native_change_output (tk_change_address p) (to_sat available - to_sat needed) = Inr native" by simp
  from that [OF t [unfolded script] refl coins change_outputs_return [OF ret c(3)] tokens [unfolded demand_def]
      keys [unfolded demand_def] this sums(1,2,3)] show thesis .
qed

section \<open>The taker's signatures\<close>

lemma taker_script_sig_unlocks:
  assumes "ec_lib_ok (env_ec E)" "taker_script_sig E key cc h = Inr s"
  shows "unlocks E key [key] cc h s"
proof (cases cc)
  case True
  with assms(2) obtain compact where c: "sign_prehash_compact (env_ec E) key h = Inr compact"
    "fulfillment_script_sig [(public_to_bytes (env_ec E) (private_public_key (env_ec E) key), compact)] 1 = Inr s"
    by (auto simp: taker_script_sig_def rbind_Inr_iff map_err_Inr_iff)
  have "fulfillment_unlocks E [key] h s"
    by (rule fulfillment_unlocks_run [OF assms(1)]) (use c in \<open>simp_all add: leading_signature_def SIGHASH_ALL_def\<close>)
  with True show ?thesis by (simp add: unlocks_def)
next
  case False
  with assms(2) have "p2pkh_script_sig E key h (public_to_bytes (env_ec E) (private_public_key (env_ec E) key)) = Inr s"
    by (auto simp: taker_script_sig_def offer_push_data_def p2pkh_script_sig_def rbind_Inr_iff map_err_Inr_iff
        expect_u8_Inr Let_def split: if_splits)
  with False p2pkh_script_sig_unlocks [OF assms(1)] show ?thesis by (simp add: unlocks_def)
qed

lemma sign_taker_eq:
  "(\<And>i. i < length ds \<Longrightarrow> cc (n + i) = du_is_cryptocondition (ds ! i)) \<Longrightarrow>
     sign_taker E key n t ds =
     sign_from (\<lambda>n u t. sighash_of E t n u) (\<lambda>n h. taker_script_sig E key (cc n) h) n t (map du_utxo ds)"
proof (induction ds arbitrary: n t)
  case (Cons d ds)
  have "cc n = du_is_cryptocondition d" using Cons.prems [of 0] by simp
  moreover have "cc (Suc n + i) = du_is_cryptocondition (ds ! i)" if "i < length ds" for i
    using Cons.prems [of "Suc i"] that by simp
  ultimately show ?case using Cons.IH [of "Suc n"] by simp
qed simp

lemma sign_taker_Inr:
  assumes "ec_lib_ok (env_ec E)" "sign_taker E key n t ds = Inr t'"
  shows "strip_scripts t' = strip_scripts t" "\<forall>i < n. tx_inputs t' ! i = tx_inputs t ! i"
    "i < length ds \<Longrightarrow> \<exists>h. sighash_of E t' (n + i) (du_utxo (ds ! i)) = Inr h \<and>
       unlocks E key [key] (du_is_cryptocondition (ds ! i)) h (in_script_sig (tx_inputs t' ! (n + i)))"
proof -
  let ?cc = "\<lambda>m. du_is_cryptocondition (ds ! (m - n))"
  have run: "sign_from (\<lambda>n u t. sighash_of E t n u) (\<lambda>n h. taker_script_sig E key (?cc n) h) n t (map du_utxo ds) = Inr t'"
    using assms(2) sign_taker_eq [of ds ?cc n E key t] by simp
  have s: "strip_scripts t' = strip_scripts t \<and> (\<forall>i < n. tx_inputs t' ! i = tx_inputs t ! i) \<and>
     (\<forall>i < length (map du_utxo ds). \<exists>h s. sighash_of E t' (n + i) (map du_utxo ds ! i) = Inr h \<and>
        taker_script_sig E key (?cc (n + i)) h = Inr s \<and> in_script_sig (tx_inputs t' ! (n + i)) = s)"
    by (rule sign_from_Inr [OF _ _ run]) (rule sighash_of_strip sighash_of_bound; assumption)+
  show "strip_scripts t' = strip_scripts t" "\<forall>i < n. tx_inputs t' ! i = tx_inputs t ! i" using s by blast+
  show "\<exists>h. sighash_of E t' (n + i) (du_utxo (ds ! i)) = Inr h \<and>
       unlocks E key [key] (du_is_cryptocondition (ds ! i)) h (in_script_sig (tx_inputs t' ! (n + i)))"
    if "i < length ds"
    using s that taker_script_sig_unlocks [OF assms(1), of key] by fastforce
qed

lemma strip_scripts_outputs: "strip_scripts t' = strip_scripts t \<Longrightarrow> tx_outputs t' = tx_outputs t"
  by (drule arg_cong [where f = tx_outputs]) (simp add: strip_scripts_def)

lemma strip_scripts_same:
  "strip_scripts t' = strip_scripts t \<Longrightarrow> i < length (tx_inputs t) \<Longrightarrow>
     (tx_inputs t' ! i)\<lparr>in_script_sig := []\<rparr> = (tx_inputs t ! i)\<lparr>in_script_sig := []\<rparr>"
  by (frule strip_scripts_inputs, drule arg_cong [where f = "\<lambda>t. tx_inputs t ! i"]) (simp add: strip_scripts_def)

lemma check_offer_shape_Inr:
  "check_offer_shape offer = Inr u \<longleftrightarrow> length (tx_inputs offer) = 1 \<and> length (tx_outputs offer) = 1 \<and>
     offer_hash_type (in_script_sig (tx_inputs offer ! 0)) = Some 0x83"
proof -
  have "ucast (b :: u8) = OFFER_HASH_TYPE \<longleftrightarrow> b = 0x83" for b
  proof -
    have "OFFER_HASH_TYPE = 0x83" by (simp add: OFFER_HASH_TYPE_def sighash_consts)
    then have "ucast b = OFFER_HASH_TYPE \<longleftrightarrow> (ucast b :: u32) = ucast (0x83 :: u8)" by simp
    also have "\<dots> \<longleftrightarrow> b = 0x83"
      using unat_byte [of b] by (simp add: word_unat_eq_iff [where 'a = 32] word_unat_eq_iff [where 'a = 8] unsigned_ucast_eq
          take_bit_nat_eq_self)
    finally show ?thesis .
  qed
  then show ?thesis
    by (auto simp: check_offer_shape_def rbind_Inr_iff refuse_if_Inr_iff ok_or_Inr_iff)
qed

text \<open>Every completed offer: what the taker's transaction is over the bytes of the offer.\<close>

lemma take_offer_Inr:
  assumes "ec_lib_ok (env_ec E)" "take_offer E decode debug key p = Inr raw"
  obtains bytes offer u coins t where
    "decode (tk_offer p) = Inr bytes" "deserialize bytes = Inr offer" "check_offer_shape offer = Inr ()"
    "complete_offer (env_hash E) (env_hex E) debug offer p = Inr (u, coins)" "serialize t = Inr raw"
    "strip_scripts t = strip_scripts u" "tx_inputs t ! 0 = tx_inputs offer ! 0"
    "\<And>i. i < length coins \<Longrightarrow> \<exists>h. sighash_of E t (Suc i) (du_utxo (coins ! i)) = Inr h \<and>
       unlocks E key [key] (du_is_cryptocondition (coins ! i)) h (in_script_sig (tx_inputs t ! Suc i))"
proof -
  from assms(2) obtain bytes offer u coins t where
    a: "decode (tk_offer p) = Inr bytes" "deserialize bytes = Inr offer" "check_offer_shape offer = Inr ()"
    "complete_offer (env_hash E) (env_hex E) debug offer p = Inr (u, coins)" "serialize t = Inr raw"
    and sign: "sign_taker E key (length (tx_inputs offer)) u coins = Inr t"
    by (auto simp: take_offer_def rbind_Inr_iff map_err_Inr_iff)
  have one: "length (tx_inputs offer) = 1" using a(3) by (simp add: check_offer_shape_Inr)
  note s = sign_taker_Inr [OF assms(1) sign, unfolded one]
  have "tx_inputs u ! 0 = tx_inputs offer ! 0" using one a(4) by (auto simp: nth_append complete_offer_def rbind_Inr_iff Let_def)
  with s(2) have "tx_inputs t ! 0 = tx_inputs offer ! 0" by simp
  from that [OF a s(1) this] s(3) show thesis by simp
qed

section \<open>Properties\<close>

lemma wanted_native_Inr:
  "native_change_output a v = Inr native \<Longrightarrow>
     total_value native = unat v \<and> (wf_address a \<longrightarrow> chain_total H hx (map out_script_pubkey native) c = 0)"
  using p2pkh_tokens [of "addr_hash a" H hx]
  by (auto simp: native_change_output_def p2pkh_script_pubkey_def wf_address_def map_err_def rbind_Inr_iff word_gt_0
      split: if_splits)

text \<open>
  C37: what taking an offer conserves.  The maker's input and output stay where they are, the
  inputs after it are the taker's coins in order, the second output pays the recipient the
  offered value, and what the outputs hold plus the fee is the offered value plus the taker's
  coins.  For every currency, the taker's coins hold, as the decoder reads them, exactly what
  the outputs hold plus what sits on coins that are not reserve outputs: the tokens of a coin of
  another kind (a reserve deposit, an identity commitment, a reserve transfer) are in no output.
  When every coin pays a key hash or is a reserve output nothing is left out, so the maker is
  paid in full and no token of the taker is burned.  The maker's input, of which the taker knows
  the outpoint and states the value, is counted for that value and no tokens.
\<close>

theorem taking_conserves:
  assumes "ec_lib_ok (env_ec E)" "take_offer E decode debug key p = Inr raw" "decode (tk_offer p) = Inr bytes"
    and "length bytes < usize_bound" "length (tk_recipient p) = 20" "wf_address (tk_change_address p)"
    and "list_all (\<lambda>u. length (utxo_script_pubkey u) < usize_bound) (tk_utxos p)"
  shows "\<exists>offer t added. deserialize bytes = Inr offer \<and> serialize t = Inr raw \<and>
     tx_inputs t ! 0 = tx_inputs offer ! 0 \<and>
     map (\<lambda>i. (in_txid i, in_vout i)) (tl (tx_inputs t)) = map (\<lambda>u. (to_internal (utxo_txid u), utxo_vout u)) (tk_utxos p) \<and>
     tx_outputs t = tx_outputs offer @ \<lparr>out_value = to_sat (tk_offered_value p),
       out_script_pubkey = [0x76, 0xa9, 0x14] @ tk_recipient p @ [0x88, 0xac]\<rparr> # added \<and>
     total_value (tx_outputs t) + unat (tk_fee p) = sats (tk_offered_value p) + utxo_total (tk_utxos p) \<and>
     (\<forall>c. chain_total (env_hash E) (env_hex E) (map utxo_script_pubkey (tk_utxos p)) c =
        chain_total (env_hash E) (env_hex E) (map out_script_pubkey (tx_outputs t)) c +
        chain_total (env_hash E) (env_hex E)
          (map utxo_script_pubkey (filter (\<lambda>u. \<not> is_reserve_coin (env_hash E) (env_hex E) u) (tk_utxos p))) c) \<and>
     ((\<forall>u \<in> set (tk_utxos p). is_reserve_coin (env_hash E) (env_hex E) u \<or>
         (\<exists>h. decode_output_script (env_hash E) (env_hex E) (utxo_script_pubkey u) = Inr (OutPubKeyHash h))) \<longrightarrow>
      (\<forall>c. chain_total (env_hash E) (env_hex E) (map utxo_script_pubkey (tk_utxos p)) c =
         chain_total (env_hash E) (env_hex E) (map out_script_pubkey (tx_outputs t)) c))"
proof -
  let ?H = "env_hash E" and ?hx = "env_hex E"
  from take_offer_Inr [OF assms(1,2)] obtain offer u coins t where
    offer: "deserialize bytes = Inr offer" "check_offer_shape offer = Inr ()"
    and run: "complete_offer ?H ?hx debug offer p = Inr (u, coins)"
    and t: "serialize t = Inr raw" "strip_scripts t = strip_scripts u" "tx_inputs t ! 0 = tx_inputs offer ! 0"
    using assms(3) by (metis sum.inject(2))
  obtain paid change returned native available needed where
    u: "u = offer\<lparr>tx_inputs := tx_inputs offer @ taker_inputs (tk_utxos p),
       tx_outputs := tx_outputs offer @ [paid] @ returned @ native\<rparr>"
    and paid: "paid = \<lparr>out_value = to_sat (tk_offered_value p),
       out_script_pubkey = [0x76, 0xa9, 0x14] @ tk_recipient p @ [0x88, 0xac]\<rparr>"
    and coins: "rmap (taker_coin ?H ?hx) (tk_utxos p) = Inr coins"
    and ret: "list_all2 (returns_token (tk_change_address p)) change returned"
    and tokens: "\<And>c. chain_total ?H ?hx (map utxo_script_pubkey (filter (is_reserve_coin ?H ?hx) (tk_utxos p))) c =
       token_total c (chain_tokens ?H ?hx (out_script_pubkey (tx_outputs offer ! 0))) + token_total c change"
    and keys: "fst ` set change \<subseteq> fst ` set (chain_tokens ?H ?hx (out_script_pubkey (tx_outputs offer ! 0))) \<union> currencies coins"
    and native: "native_change_output (tk_change_address p) (to_sat available - to_sat needed) = Inr native"
    and sums: "utxo_total (tk_utxos p) = sats available" "sats needed \<le> sats available"
       "sats needed = unat (out_value (tx_outputs offer ! 0)) + unat (tk_fee p)"
    by (rule complete_offer_Inr [OF run]) (rule that; assumption)
  have one: "length (tx_inputs offer) = 1" "length (tx_outputs offer) = 1" using offer(2) by (simp_all add: check_offer_shape_Inr)
  then obtain out where out: "tx_outputs offer = [out]" by (auto simp: length_Suc_conv)
  have outs: "tx_outputs t = tx_outputs offer @ paid # returned @ native" using strip_scripts_outputs [OF t(2)] by (simp add: u)
  have ins: "map (\<lambda>i. (in_txid i, in_vout i)) (tl (tx_inputs t)) = map (\<lambda>u. (to_internal (utxo_txid u), utxo_vout u)) (tk_utxos p)"
  proof -
    have "map (\<lambda>i. (in_txid i, in_vout i)) (tx_inputs t) = map (\<lambda>i. (in_txid i, in_vout i)) (tx_inputs u)"
      using arg_cong [OF t(2), of "map (\<lambda>i. (in_txid i, in_vout i)) \<circ> tx_inputs"] by (simp add: strip_scripts_def comp_def)
    then have "map (\<lambda>i. (in_txid i, in_vout i)) (tl (tx_inputs t)) = map (\<lambda>i. (in_txid i, in_vout i)) (tl (tx_inputs u))"
      unfolding map_tl by simp
    then show ?thesis using one by (auto simp: u taker_inputs_def tx_in_unsigned_def length_Suc_conv comp_def)
  qed
  have wf: "wf_tokens change"
  proof -
    have "wf_tx_out out" using deserialize_sound(1) [OF assms(4) offer(1)] by (simp add: canonical_tx_def out)
    then have "wf_tokens (chain_tokens ?H ?hx (out_script_pubkey out))" by (intro chain_tokens_wf) (simp add: wf_tx_out_def)
    moreover have "wf_tokens (du_tokens d)" if "d \<in> set coins" for d
    proof -
      have "taker_coin ?H ?hx (du_utxo d) = Inr d" "du_utxo d \<in> set (tk_utxos p)"
        using taker_coins(3) [OF coins] that by (auto simp: list_all_iff simp flip: taker_coins(1) [OF coins])
      then show ?thesis using taker_coin_Inr(2) [of ?H ?hx "du_utxo d" d] chain_tokens_wf [of "utxo_script_pubkey (du_utxo d)"] assms(7)
        by (auto simp: list_all_iff)
    qed
    ultimately have "\<forall>c \<in> fst ` set (chain_tokens ?H ?hx (out_script_pubkey out)) \<union> currencies coins. wf_currency c"
      unfolding wf_tokens_keys currencies_def by blast
    with keys show ?thesis unfolding wf_tokens_keys by (auto simp: out)
  qed
  have change: "chain_total ?H ?hx (map out_script_pubkey returned) c = token_total c change" for c
    by (rule returned_tokens [OF ret assms(6) wf])
  have worth: "total_value (tx_outputs t) + unat (tk_fee p) = sats (tk_offered_value p) + utxo_total (tk_utxos p)"
    using wanted_native_Inr [OF native] valueless_tokens(2) [OF ret] sums
    by (simp add: outs out paid unat_sub word_le_nat_alt)
  let ?other = "filter (\<lambda>u. \<not> is_reserve_coin ?H ?hx u) (tk_utxos p)"
  have all: "chain_total ?H ?hx (map utxo_script_pubkey (tk_utxos p)) c =
      chain_total ?H ?hx (map out_script_pubkey (tx_outputs t)) c + chain_total ?H ?hx (map utxo_script_pubkey ?other) c" for c
    using tokens [of c] change [of c] wanted_native_Inr [OF native, of ?H ?hx c] p2pkh_tokens [OF assms(5), of ?H ?hx] assms(6)
      chain_total_filter [of ?H ?hx utxo_script_pubkey "tk_utxos p" c "is_reserve_coin ?H ?hx"]
    by (simp add: outs out paid)
  have "chain_total ?H ?hx (map utxo_script_pubkey ?other) c = 0"
    if "\<forall>u \<in> set (tk_utxos p). is_reserve_coin ?H ?hx u \<or>
         (\<exists>h. decode_output_script ?H ?hx (utxo_script_pubkey u) = Inr (OutPubKeyHash h))" for c
    using that by (intro chain_total_zero) (auto simp: chain_tokens_def)
  with all offer(1) t(1,3) ins outs worth show ?thesis by (auto simp: paid)
qed

text \<open>The text of the offer reads back, and is no shorter than the bytes.\<close>

definition hex_pair_ok :: "hex_encode \<Rightarrow> hex_decode \<Rightarrow> bool" where
  "hex_pair_ok encode decode \<longleftrightarrow> (\<forall>b. decode (encode b) = Inr b \<and> length b \<le> length (encode b))"

text \<open>What a maker signs.\<close>

lemma offer_hash_type_fits: "unat OFFER_HASH_TYPE < 256" "(ucast OFFER_HASH_TYPE :: u8) = 0x83" "OFFER_HASH_TYPE = 0x83"
  by (simp_all add: OFFER_HASH_TYPE_def sighash_consts)

lemma fulfillment_hash_type:
  assumes "fulfillment_script_sig [(pubkey, sg)] b = Inr s" "length pubkey \<le> 65" "length sg = 64"
  shows "offer_hash_type s = Some b"
proof -
  let ?f = "[1, b, 1] @ signature_entry (pubkey, sg)"
  have s: "s = push_bytes ?f" using assms(1) by (simp add: fulfillment_Inr)
  have len: "70 \<le> length ?f" "length ?f \<le> 135" using assms(2,3) by (simp_all add: signature_entry_def)
  have "unat (of_nat (length ?f) :: u8) = length ?f" using len(2) by (subst unat_of_nat) simp
  with len(1) have op: "(of_nat (length ?f) :: u8) \<noteq> 1" "OP_PUSHDATA1 \<noteq> 1"
    by (auto simp: op_codes simp del: of_nat_add of_nat_Suc)
  have "s = (if length ?f \<le> 75 then [of_nat (length ?f)] else [OP_PUSHDATA1, of_nat (length ?f)]) @ 1 # b # (1 # signature_entry (pubkey, sg))"
    using len unfolding s push_bytes_def by simp
  then show ?thesis using op by (simp add: offer_hash_type_def)
qed

lemma make_offer_Inr:
  assumes "ec_lib_ok (env_ec E)" "make_offer E key p = Inr so"
  obtains out h signature script_sig raw where
    "wanted_to_output (of_wanted p) = Inr out"
    "map_err Wire (transparent_sighash (env_blake2b E) (offer_skeleton p out) VERUS_BRANCH_ID 0
       (utxo_script_pubkey (of_funding p)) (to_sat (utxo_satoshis (of_funding p))) OFFER_HASH_TYPE) = Inr h"
    "verify_compact (env_ec E) (private_public_key (env_ec E) key) h signature" "length signature = 64"
    "fulfillment_script_sig [(public_to_bytes (env_ec E) (private_public_key (env_ec E) key), signature)] 0x83 = Inr script_sig"
    "serialize (set_script_sig (offer_skeleton p out) 0 script_sig) = Inr raw" "so_hex so = env_hex E raw"
    "offer_funding_script (addr_hash (private_address (env_hash E) (env_ec E) key)) = Inr (utxo_script_pubkey (of_funding p))"
proof -
  from assms(2) obtain out h signature script_sig raw where
    a: "wanted_to_output (of_wanted p) = Inr out"
    "map_err Wire (transparent_sighash (env_blake2b E) (offer_skeleton p out) VERUS_BRANCH_ID 0
       (utxo_script_pubkey (of_funding p)) (to_sat (utxo_satoshis (of_funding p))) OFFER_HASH_TYPE) = Inr h"
    and sig: "sign_prehash_compact (env_ec E) key h = Inr signature"
    and b: "fulfillment_script_sig [(public_to_bytes (env_ec E) (private_public_key (env_ec E) key), signature)] 0x83 = Inr script_sig"
    "serialize (set_script_sig (offer_skeleton p out) 0 script_sig) = Inr raw" "so_hex so = env_hex E raw"
    "offer_funding_script (addr_hash (private_address (env_hash E) (env_ec E) key)) = Inr (utxo_script_pubkey (of_funding p))"
    by (auto simp: make_offer_def rbind_Inr_iff refuse_if_Inr_iff map_err_Inr_iff Let_def offer_hash_type_fits)
  have "verify_compact (env_ec E) (private_public_key (env_ec E) key) h signature" "length signature = 64"
    using sig assms(1)
    by (auto simp: sign_prehash_compact_def sign_prehash_def rbind_Inr_iff ok_or_Inr_iff verify_compact_def
        private_public_key_def ec_lib_ok_def)
  from that [OF a this b] show thesis .
qed

lemma wf_length_pair: "hex_pair_ok encode decode \<Longrightarrow> length (encode b) < usize_bound \<Longrightarrow> length b < usize_bound"
  unfolding hex_pair_ok_def using le_less_trans by blast

text \<open>The transaction a maker publishes.\<close>

definition offer_input :: "utxo \<Rightarrow> bytes \<Rightarrow> tx_in" where
  "offer_input u script_sig = (tx_in_unsigned (to_internal (utxo_txid u)) (utxo_vout u) 0xffffffff)\<lparr>in_script_sig := script_sig\<rparr>"

abbreviation published :: "offer_params \<Rightarrow> tx_out \<Rightarrow> bytes \<Rightarrow> tx_v4" where
  "published p out script_sig \<equiv> set_script_sig (offer_skeleton p out) 0 script_sig"

lemma offer_skeleton_simps:
  "tx_inputs (published p out script_sig) = [offer_input (of_funding p) script_sig]"
  "tx_outputs (published p out script_sig) = [out]"
  "tx_expiry_height (published p out script_sig) = to_height (of_expiry p)"
  "strip_scripts (published p out script_sig) = unsigned_tx [of_funding p] [out] 0 (to_height (of_expiry p))"
  "strip_scripts (published p out script_sig) = strip_scripts (offer_skeleton p out)"
  by (simp_all add: offer_skeleton_def) (simp_all add: unsigned_tx_def set_script_sig_def tx_default_def offer_input_def)

lemma made_offer_reads:
  assumes "ec_lib_ok (env_ec E)" "make_offer E key p = Inr so" "wf_txid (utxo_txid (of_funding p))"
    and "hex_pair_ok (env_hex E) decode" "length (so_hex so) < usize_bound"
  obtains out h signature script_sig raw where
    "wanted_to_output (of_wanted p) = Inr out"
    "transparent_sighash (env_blake2b E) (offer_skeleton p out) VERUS_BRANCH_ID 0
       (utxo_script_pubkey (of_funding p)) (to_sat (utxo_satoshis (of_funding p))) OFFER_HASH_TYPE = Inr h"
    "verify_compact (env_ec E) (private_public_key (env_ec E) key) h signature" "length signature = 64"
    "fulfillment_script_sig [(public_to_bytes (env_ec E) (private_public_key (env_ec E) key), signature)] 0x83 = Inr script_sig"
    "decode (so_hex so) = Inr raw" "length raw < usize_bound"
    "deserialize raw = Inr (published p out script_sig)"
proof -
  obtain out h signature script_sig raw where
    a: "wanted_to_output (of_wanted p) = Inr out"
    and h: "map_err Wire (transparent_sighash (env_blake2b E) (offer_skeleton p out) VERUS_BRANCH_ID 0
       (utxo_script_pubkey (of_funding p)) (to_sat (utxo_satoshis (of_funding p))) OFFER_HASH_TYPE) = Inr h"
    and sg: "verify_compact (env_ec E) (private_public_key (env_ec E) key) h signature" "length signature = 64"
    "fulfillment_script_sig [(public_to_bytes (env_ec E) (private_public_key (env_ec E) key), signature)] 0x83 = Inr script_sig"
    and raw: "serialize (published p out script_sig) = Inr raw" "so_hex so = env_hex E raw"
    by (rule make_offer_Inr [OF assms(1,2)])
  have len: "length raw < usize_bound" using wf_length_pair [OF assms(4)] assms(5) raw(2) by simp
  have "decode (so_hex so) = Inr raw" using assms(4) raw(2) by (simp add: hex_pair_ok_def)
  moreover have "deserialize raw = Inr (published p out script_sig)"
    by (rule unsigned_tx_reads_back [OF offer_skeleton_simps(4) _ raw(1) len]) (simp add: assms(3))
  ultimately show thesis using that [OF a _ sg] h len unfolding map_err_Inr_iff by blast
qed

text \<open>A hash under SINGLE and ANYONECANPAY on the first input does not see what is appended.\<close>

lemma appended_sighash:
  assumes "tx_inputs s = i # is" "tx_outputs s = out # outs"
    and "strip_scripts t = strip_scripts (s\<lparr>tx_inputs := tx_inputs s @ ins, tx_outputs := tx_outputs s @ added\<rparr>)"
  shows "transparent_sighash b2 t branch 0 scr v OFFER_HASH_TYPE = transparent_sighash b2 s branch 0 scr v OFFER_HASH_TYPE"
proof -
  have ty: "OFFER_HASH_TYPE AND SIGHASH_MASK = SIGHASH_SINGLE" "OFFER_HASH_TYPE AND SIGHASH_ANYONECANPAY \<noteq> 0"
    by (simp_all add: OFFER_HASH_TYPE_def sighash_consts)
  have "transparent_sighash b2 t branch 0 scr v OFFER_HASH_TYPE =
      transparent_sighash b2 ((s\<lparr>tx_outputs := tx_outputs s @ added\<rparr>)\<lparr>tx_inputs := tx_inputs s @ ins\<rparr>) branch 0 scr v OFFER_HASH_TYPE"
    by (rule transparent_sighash_scripts) (simp add: assms(3), simp add: strip_scripts_def)
  also have "\<dots> = transparent_sighash b2 (s\<lparr>tx_outputs := tx_outputs s @ added\<rparr>) branch 0 scr v OFFER_HASH_TYPE"
    by (rule sighash_inputs_anyonecanpay [OF ty(2)]) (simp_all add: assms)
  also have "\<dots> = transparent_sighash b2 s branch 0 scr v OFFER_HASH_TYPE"
    by (rule sighash_outputs_single [OF ty(1)]) (simp_all add: assms)
  finally show ?thesis .
qed

lemma complete_offer_appends:
  assumes "complete_offer H hx debug offer p = Inr (u, coins)"
  obtains added where "u = offer\<lparr>tx_inputs := tx_inputs offer @ taker_inputs (tk_utxos p), tx_outputs := tx_outputs offer @ added\<rparr>"
    "rmap (taker_coin H hx) (tk_utxos p) = Inr coins"
  using assms by (auto simp: complete_offer_def rbind_Inr_iff Let_def taker_inputs_def)

text \<open>
  C36: an offer settles as it was signed.  When a taker completes what \<open>make_offer\<close> published, in
  the transaction the taker broadcasts the first input still spends the maker's funding output
  with the maker's signature, which verifies on that whole transaction under SINGLE and
  ANYONECANPAY; the first output is still exactly what the maker wanted and the expiry is the
  maker's; and every coin of the taker carries the taker's verifying signature over all of it.
\<close>

theorem offer_settles:
  assumes "ec_lib_ok (env_ec E)" "make_offer E maker mp = Inr so" "wf_txid (utxo_txid (of_funding mp))"
    and "hex_pair_ok (env_hex E) decode" "take_offer E decode debug taker tp = Inr raw"
    and "tk_offer tp = so_hex so" "length (so_hex so) < usize_bound"
  shows "\<exists>t h signature. serialize t = Inr raw \<and>
     in_txid (tx_inputs t ! 0) = to_internal (utxo_txid (of_funding mp)) \<and>
     in_vout (tx_inputs t ! 0) = utxo_vout (of_funding mp) \<and>
     transparent_sighash (env_blake2b E) t VERUS_BRANCH_ID 0 (utxo_script_pubkey (of_funding mp))
       (to_sat (utxo_satoshis (of_funding mp))) OFFER_HASH_TYPE = Inr h \<and>
     fulfillment_script_sig [(public_to_bytes (env_ec E) (private_public_key (env_ec E) maker), signature)] 0x83 =
       Inr (in_script_sig (tx_inputs t ! 0)) \<and>
     verify_compact (env_ec E) (private_public_key (env_ec E) maker) h signature \<and>
     wanted_to_output (of_wanted mp) = Inr (tx_outputs t ! 0) \<and>
     tx_expiry_height t = to_height (of_expiry mp) \<and>
     (\<forall>i < length (tk_utxos tp). \<exists>h cc. sighash_of E t (Suc i) (tk_utxos tp ! i) = Inr h \<and>
        unlocks E taker [taker] cc h (in_script_sig (tx_inputs t ! Suc i)))"
proof -
  obtain out h signature script_sig raw0 where
    out: "wanted_to_output (of_wanted mp) = Inr out"
    and h: "transparent_sighash (env_blake2b E) (offer_skeleton mp out) VERUS_BRANCH_ID 0
       (utxo_script_pubkey (of_funding mp)) (to_sat (utxo_satoshis (of_funding mp))) OFFER_HASH_TYPE = Inr h"
    and sg: "verify_compact (env_ec E) (private_public_key (env_ec E) maker) h signature"
    and s: "fulfillment_script_sig [(public_to_bytes (env_ec E) (private_public_key (env_ec E) maker), signature)] 0x83 = Inr script_sig"
    and raw0: "decode (so_hex so) = Inr raw0" "deserialize raw0 = Inr (published mp out script_sig)"
    by (rule made_offer_reads [OF assms(1,2,3,4,7)])
  let ?o = "published mp out script_sig"
  note o1 = offer_skeleton_simps [of mp out script_sig]
  obtain bytes offer u coins t where
    "decode (tk_offer tp) = Inr bytes" "deserialize bytes = Inr offer"
    and run0: "complete_offer (env_hash E) (env_hex E) debug offer tp = Inr (u, coins)"
    and t: "serialize t = Inr raw" "strip_scripts t = strip_scripts u" "tx_inputs t ! 0 = tx_inputs offer ! 0"
    and un: "\<And>i. i < length coins \<Longrightarrow> \<exists>h. sighash_of E t (Suc i) (du_utxo (coins ! i)) = Inr h \<and>
       unlocks E taker [taker] (du_is_cryptocondition (coins ! i)) h (in_script_sig (tx_inputs t ! Suc i))"
    by (rule take_offer_Inr [OF assms(1,5)]) (rule that; assumption)
  then have same: "offer = ?o" using raw0 assms(6) by simp
  have run: "complete_offer (env_hash E) (env_hex E) debug ?o tp = Inr (u, coins)" using run0 unfolding same .
  obtain added where
    u: "u = ?o\<lparr>tx_inputs := tx_inputs ?o @ taker_inputs (tk_utxos tp), tx_outputs := tx_outputs ?o @ added\<rparr>"
    and coins: "rmap (taker_coin (env_hash E) (env_hex E)) (tk_utxos tp) = Inr coins"
    by (rule complete_offer_appends [OF run])
  have hash: "transparent_sighash (env_blake2b E) t VERUS_BRANCH_ID 0 (utxo_script_pubkey (of_funding mp))
       (to_sat (utxo_satoshis (of_funding mp))) OFFER_HASH_TYPE = Inr h"
    using appended_sighash [OF o1(1,2) t(2) [unfolded u]] transparent_sighash_scripts [OF o1(5)] h by simp
  have outs: "tx_outputs t ! 0 = out" "tx_expiry_height t = to_height (of_expiry mp)"
    using strip_scripts_outputs [OF t(2)] arg_cong [OF t(2), of tx_expiry_height]
    by (simp_all add: u o1 strip_scripts_def)
  have taker: "\<exists>h cc. sighash_of E t (Suc i) (tk_utxos tp ! i) = Inr h \<and>
        unlocks E taker [taker] cc h (in_script_sig (tx_inputs t ! Suc i))" if "i < length (tk_utxos tp)" for i
  proof -
    have "i < length coins" "du_utxo (coins ! i) = tk_utxos tp ! i"
      using that by (simp_all flip: taker_coins(1) [OF coins])
    then show ?thesis using un [of i] by auto
  qed
  have "in_txid (tx_inputs t ! 0) = to_internal (utxo_txid (of_funding mp))"
    "in_vout (tx_inputs t ! 0) = utxo_vout (of_funding mp)" "in_script_sig (tx_inputs t ! 0) = script_sig"
    by (simp_all add: t(3) same o1(1) offer_input_def tx_in_unsigned_def)
  with t(1) hash s sg out outs taker show ?thesis
    by (intro exI [of _ t] exI [of _ h] exI [of _ signature]) simp
qed

section \<open>When offers go through\<close>

definition signs_any :: "('sk, 'vk, 'sg) env \<Rightarrow> 'sk private_key \<Rightarrow> bool" where
  "signs_any E key \<longleftrightarrow> (\<forall>h. \<exists>g. el_sign_prehash (env_ec E) (sk_signing_key key) h = Some g)"

lemma offer_sighash_total:
  "transparent_sighash b2 (offer_skeleton p out) branch 0 scr v OFFER_HASH_TYPE \<noteq> Inl e"
proof -
  have "tx_inputs (offer_skeleton p out) \<noteq> []" "tx_outputs (offer_skeleton p out) \<noteq> []"
    by (simp_all add: offer_skeleton_def unsigned_tx_def)
  then have "\<exists>h. transparent_sighash b2 (offer_skeleton p out) branch 0 scr v OFFER_HASH_TYPE = Inr h"
    by (simp add: transparent_sighash_Inr_iff check_sighash_type_known offer_hash_type_fits)
  then show ?thesis by auto
qed

lemma one_fulfillment_total:
  assumes "length pubkey \<le> 65" "length sg = 64"
  shows "\<exists>s. fulfillment_script_sig [(pubkey, sg)] b = Inr s"
  using assms by (simp add: fulfillment_Inr signature_entry_def)

lemma sec1_key_length: "sec1_ok (env_ec E) \<Longrightarrow> length (public_to_bytes (env_ec E) (private_public_key (env_ec E) key)) \<le> 65"
  by (simp add: sec1_ok_def public_to_bytes_def)

lemma signs_any_compact:
  assumes "ec_lib_ok (env_ec E)" "signs_any E key"
  shows "\<exists>sg. sign_prehash_compact (env_ec E) key h = Inr sg \<and> length sg = 64"
proof -
  obtain g where "el_sign_prehash (env_ec E) (sk_signing_key key) h = Some g" using assms(2) unfolding signs_any_def by blast
  with assms(1) show ?thesis by (simp add: sign_prehash_compact_def sign_prehash_def ec_lib_ok_def)
qed

lemma transparent_published: "transparent_only (published p out script_sig)"
  using transparent_only_strip [of "published p out script_sig" "unsigned_tx [of_funding p] [out] 0 (to_height (of_expiry p))"]
    offer_skeleton_simps(4) [of p out script_sig] by simp

lemma make_offer_total:
  assumes "ec_lib_ok (env_ec E)" "sec1_ok (env_ec E)" "signs_any E key" "expiry_check (of_expiry p) = Inr ()"
    and "offer_funding_script (addr_hash (private_address (env_hash E) (env_ec E) key)) = Inr (utxo_script_pubkey (of_funding p))"
    and "wanted_to_output (of_wanted p) = Inr out"
  shows "\<exists>so. make_offer E key p = Inr so \<and> so_offered so = utxo_satoshis (of_funding p)"
proof -
  obtain h where h: "transparent_sighash (env_blake2b E) (offer_skeleton p out) VERUS_BRANCH_ID 0
      (utxo_script_pubkey (of_funding p)) (to_sat (utxo_satoshis (of_funding p))) OFFER_HASH_TYPE = Inr h"
    using offer_sighash_total by (metis sum.exhaust)
  obtain sg where sg: "sign_prehash_compact (env_ec E) key h = Inr sg" "length sg = 64"
    using signs_any_compact [OF assms(1,3)] by blast
  obtain s where s: "fulfillment_script_sig [(public_to_bytes (env_ec E) (private_public_key (env_ec E) key), sg)] 0x83 = Inr s"
    using one_fulfillment_total [OF sec1_key_length [OF assms(2)] sg(2)] by blast
  obtain raw where "serialize (published p out s) = Inr raw"
    using serialize_transparent_only [OF transparent_published] by blast
  with h sg s assms(4,5,6) show ?thesis
    by (simp add: make_offer_def refuse_if_def offer_hash_type_fits Let_def)
qed

lemma taker_script_sig_total:
  assumes "ec_lib_ok (env_ec E)" "sec1_ok (env_ec E)" "signs_any E key"
  shows "\<exists>s. taker_script_sig E key cc h = Inr s"
proof (cases cc)
  case True
  obtain sg where sg: "sign_prehash_compact (env_ec E) key h = Inr sg" "length sg = 64"
    using signs_any_compact [OF assms(1,3)] by blast
  then show ?thesis
    using one_fulfillment_total [OF sec1_key_length [OF assms(2)] sg(2)] True by (simp add: taker_script_sig_def)
next
  case False
  obtain g where "el_sign_prehash (env_ec E) (sk_signing_key key) h = Some g" "length (el_sig_to_der (env_ec E) g) \<le> 72"
    using assms(2,3) unfolding signs_any_def sec1_ok_def by blast
  with False sec1_key_length [OF assms(2), of key] show ?thesis
    by (simp add: taker_script_sig_def sign_prehash_der_def sign_prehash_def offer_push_data_def Let_def)
qed

lemma sign_taker_total:
  assumes "ec_lib_ok (env_ec E)" "sec1_ok (env_ec E)" "signs_any E key" "n + length ds \<le> length (tx_inputs t)"
  shows "\<exists>t'. sign_taker E key n t ds = Inr t'"
  using assms(4)
proof (induction ds arbitrary: n t)
  case (Cons d ds)
  then obtain h s where "sighash_of E t n (du_utxo d) = Inr h" "taker_script_sig E key (du_is_cryptocondition d) h = Inr s"
    using sighash_of_total [of n t E "du_utxo d"] taker_script_sig_total [OF assms(1-3)] by fastforce
  with Cons.IH [of "Suc n" "set_script_sig t n s"] Cons.prems show ?case by (simp add: set_script_sig_inputs)
qed simp

lemma plain_coins:
  assumes "all_p2pkh us"
  shows "rmap (taker_coin H hx) us = Inr (map (\<lambda>u. \<lparr>du_utxo = u, du_tokens = [], du_is_cryptocondition = False\<rparr>) us)"
proof -
  have "taker_coin H hx u = Inr \<lparr>du_utxo = u, du_tokens = [], du_is_cryptocondition = False\<rparr>"
    if plain: "from_p2pkh_script_pubkey (utxo_script_pubkey u) \<noteq> None" for u
  proof -
    obtain a where "from_p2pkh_script_pubkey (utxo_script_pubkey u) = Some a" using plain by blast
    then have "decode_output_script H hx (utxo_script_pubkey u) = Inr (OutPubKeyHash (addr_hash a))"
      unfolding from_p2pkh_iff decode_p2pkh by (auto simp: wf_address_def p2pkh_script_pubkey_def split: if_splits)
    then show ?thesis by (simp add: taker_coin_def)
  qed
  with assms show ?thesis by (induction us) (auto simp: all_p2pkh_def)
qed

lemma supply_none: "supply_balances bs (map (\<lambda>u. \<lparr>du_utxo = u, du_tokens = [], du_is_cryptocondition = False\<rparr>) us) = bs"
  by (induction us) (simp_all add: supply_balances_def bal_supply_def)

lemma native_offer_completes:
  assumes "decode_output_script H hx (out_script_pubkey (tx_outputs offer ! 0)) = Inr (OutPubKeyHash r)"
    "all_p2pkh (tk_utxos p)" "utxo_total (tk_utxos p) < 2 ^ 64" "addr_kind (tk_change_address p) = PubKeyHash"
    "unat (out_value (tx_outputs offer ! 0)) + unat (tk_fee p) \<le> utxo_total (tk_utxos p)"
  shows "\<exists>u coins. complete_offer H hx debug offer p = Inr (u, coins)"
proof -
  obtain available where av: "amount_checked_sum (map utxo_satoshis (tk_utxos p)) = Some available" "sats available = utxo_total (tk_utxos p)"
    using assms(3) amount_sum_eq by (metis amount_checked_sum_Some)
  define needed where "needed = Amount (of_nat (unat (out_value (tx_outputs offer ! 0)) + unat (tk_fee p)))"
  have n: "sats needed = unat (out_value (tx_outputs offer ! 0)) + unat (tk_fee p)"
    unfolding needed_def using assms(3,5) by (simp only: amount.sel unat_of_nat_u64)
  have ne: "amount_checked_add (from_sat (out_value (tx_outputs offer ! 0))) (from_sat (tk_fee p)) = Some needed"
    using n assms(3,5) by (simp add: amount_checked_add_Some from_sat_def)
  have le: "\<not> available < needed" using n av(2) assms(5) by (simp add: less_amount_def word_less_nat_alt)
  obtain left where left: "amount_checked_sub available needed = Some left"
    using n av(2) assms(5) by (cases "amount_checked_sub available needed") (simp_all add: checked_simps)
  have "\<exists>native. native_change_output (tk_change_address p) (to_sat left) = Inr native"
    using assms(4) by (simp add: native_change_output_def p2pkh_script_pubkey_def)
  then show ?thesis
    using av(1) ne le left assms(1)
    by (auto simp: complete_offer_def token_demand_def p2pkh_script_pubkey_def address_new_def plain_coins [OF assms(2)]
        supply_none demand_balances_def shortfalls_def bal_change_def refuse_if_def Let_def)
qed

lemma take_offer_total:
  assumes "ec_lib_ok (env_ec E)" "sec1_ok (env_ec E)" "signs_any E key"
    and "decode (tk_offer p) = Inr bytes" "deserialize bytes = Inr offer" "check_offer_shape offer = Inr ()" "transparent_only offer"
    and "complete_offer (env_hash E) (env_hex E) debug offer p = Inr (u, coins)"
  shows "\<exists>raw. take_offer E decode debug key p = Inr raw"
proof -
  obtain added where
    u: "u = offer\<lparr>tx_inputs := tx_inputs offer @ taker_inputs (tk_utxos p), tx_outputs := tx_outputs offer @ added\<rparr>"
    and coins: "rmap (taker_coin (env_hash E) (env_hex E)) (tk_utxos p) = Inr coins"
    by (rule complete_offer_appends [OF assms(8)])
  have "length coins = length (tk_utxos p)" by (simp flip: taker_coins(1) [OF coins])
  then obtain t where t: "sign_taker E key (length (tx_inputs offer)) u coins = Inr t"
    using sign_taker_total [OF assms(1-3), of "length (tx_inputs offer)" coins u] by (auto simp: u taker_inputs_def)
  have "transparent_only u" using assms(7) by (simp add: u transparent_only_def is_shielded_def)
  then have "transparent_only t" using transparent_only_strip [OF sign_taker_Inr(1) [OF assms(1) t]] by simp
  then obtain raw where "serialize t = Inr raw" using serialize_transparent_only by blast
  with assms(4,5,6,8) t show ?thesis by (simp add: take_offer_def)
qed

definition good_signer :: "('sk, 'vk, 'sg) env \<Rightarrow> 'sk private_key \<Rightarrow> bool" where
  "good_signer E key \<longleftrightarrow> ec_lib_ok (env_ec E) \<and> sec1_ok (env_ec E) \<and> signs_any E key"

lemma native_offer_taken:
  assumes "good_signer E maker" "good_signer E taker" "hex_pair_ok (env_hex E) decode"
    and "make_offer E maker p = Inr so" "wf_txid (utxo_txid (of_funding p))" "of_wanted p = WantNative w recipient"
    and "length recipient = 20" "tk_offer tp = so_hex so" "length (so_hex so) < usize_bound"
    and "all_p2pkh (tk_utxos tp)" "utxo_total (tk_utxos tp) < 2 ^ 64" "addr_kind (tk_change_address tp) = PubKeyHash"
    and "sats w + unat (tk_fee tp) \<le> utxo_total (tk_utxos tp)"
  shows "\<exists>raw. take_offer E decode debug taker tp = Inr raw"
proof -
  have lib: "ec_lib_ok (env_ec E)" "sec1_ok (env_ec E)" "signs_any E taker"
    using assms(1,2) by (simp_all add: good_signer_def)
  obtain out h sg s raw where
    out: "wanted_to_output (of_wanted p) = Inr out" and sg: "length sg = 64"
    and s: "fulfillment_script_sig [(public_to_bytes (env_ec E) (private_public_key (env_ec E) maker), sg)] 0x83 = Inr s"
    and raw: "decode (so_hex so) = Inr raw" "deserialize raw = Inr (published p out s)"
    by (rule made_offer_reads [OF lib(1) assms(4,5,3,9)])
  have o: "out = \<lparr>out_value = to_sat w, out_script_pubkey = [0x76, 0xa9, 0x14] @ recipient @ [0x88, 0xac]\<rparr>"
    using out by (simp add: assms(6) p2pkh_script_pubkey_def address_new_def)
  have "check_offer_shape (published p out s) = Inr ()"
    using fulfillment_hash_type [OF s sec1_key_length [OF lib(2)] sg]
    by (simp add: check_offer_shape_Inr offer_skeleton_simps offer_input_def)
  moreover have "decode_output_script (env_hash E) (env_hex E) (out_script_pubkey out) = Inr (OutPubKeyHash recipient)"
    unfolding decode_p2pkh by (simp add: o assms(7))
  then have "\<exists>u coins. complete_offer (env_hash E) (env_hex E) debug (published p out s) tp = Inr (u, coins)"
    using assms(10-13) by (intro native_offer_completes) (simp_all add: offer_skeleton_simps o)
  then obtain u coins where "complete_offer (env_hash E) (env_hex E) debug (published p out s) tp = Inr (u, coins)" by blast
  ultimately show ?thesis
    by (intro take_offer_total [OF lib _ raw(2) _ transparent_published]) (simp_all add: assms(8) raw(1))
qed

text \<open>Anyone who signs and holds plain coins worth the price and the fee completes the offer.\<close>

definition takeable ::
  "('sk, 'vk, 'sg) env \<Rightarrow> hex_decode \<Rightarrow> (output_kind \<Rightarrow> str) \<Rightarrow> amount \<Rightarrow> signed_offer \<Rightarrow> bool" where
  "takeable E decode debug w so \<longleftrightarrow> (\<forall>taker tp. good_signer E taker \<and> tk_offer tp = so_hex so \<and>
     all_p2pkh (tk_utxos tp) \<and> utxo_total (tk_utxos tp) < 2 ^ 64 \<and> addr_kind (tk_change_address tp) = PubKeyHash \<and>
     sats w + unat (tk_fee tp) \<le> utxo_total (tk_utxos tp) \<longrightarrow> (\<exists>raw. take_offer E decode debug taker tp = Inr raw))"

text \<open>
  C38: an offer that was funded goes through.  \<open>fund_offer\<close> ships a transaction whose first output
  holds the amount on offer; over it the same key can sign an offer for any native price, giving
  away exactly that amount; and whoever holds plain coins worth the price and the fee, and any key
  that signs, completes it.
\<close>

theorem offers_go_through:
  assumes "good_signer E maker" "hex_pair_ok (env_hex E) decode"
    and "fund_offer E maker coins amount change_address expiry fee_per_kb = Inr st"
  shows "\<exists>t raw script more. st_hex st = env_hex E raw \<and> serialize t = Inr raw \<and>
     tx_outputs t = \<lparr>out_value = to_sat amount, out_script_pubkey = script\<rparr> # more \<and> amount \<noteq> amount_zero \<and>
     (\<forall>txid vout e w recipient. expiry_check e = Inr () \<longrightarrow> length recipient = 20 \<longrightarrow> wf_txid txid \<longrightarrow>
        (\<exists>so. make_offer E maker (offer_params_new \<lparr>utxo_txid = txid, utxo_vout = vout, utxo_satoshis = amount,
             utxo_script_pubkey = script\<rparr> (WantNative w recipient) e) = Inr so \<and> so_offered so = amount \<and>
          (length (so_hex so) < usize_bound \<longrightarrow> takeable E decode debug w so)))"
proof -
  have lib: "ec_lib_ok (env_ec E)" "sec1_ok (env_ec E)" "signs_any E maker"
    using assms(1) by (simp_all add: good_signer_def)
  from assms(3) obtain script plan t0 t ins expected change where
    script: "offer_funding_script (addr_hash (private_address (env_hash E) (env_ec E) maker)) = Inr script"
    and amount: "amount \<noteq> amount_zero"
    and plan: "assemble_unsigned plan = Inr (t0, ins, expected, change)"
      "as_outputs plan = [\<lparr>out_value = to_sat amount, out_script_pubkey = script\<rparr>]"
    and sign: "sign_inputs E t0 maker [] ins (length (as_leading plan)) = Inr t"
    and st: "signed_transaction_of E t (from_sat expected) (from_sat change) ins = Inr st"
    by (auto simp: fund_offer_def assemble_def rbind_Inr_iff refuse_if_Inr_iff)
  obtain more where "tx_outputs t0 = \<lparr>out_value = to_sat amount, out_script_pubkey = script\<rparr> # more"
    using plan by (auto simp: assemble_unsigned_Inr unsigned_tx_def)
  then have t: "tx_outputs t = \<lparr>out_value = to_sat amount, out_script_pubkey = script\<rparr> # more"
    using strip_scripts_outputs [OF sign_inputs_Inr(1) [OF lib(1) sign]] by simp
  from st obtain raw where raw: "serialize t = Inr raw" "st_hex st = env_hex E raw" by (auto simp: signed_transaction_of_Inr)
  have "\<exists>so. make_offer E maker (offer_params_new \<lparr>utxo_txid = txid, utxo_vout = vout, utxo_satoshis = amount,
             utxo_script_pubkey = script\<rparr> (WantNative w recipient) e) = Inr so \<and> so_offered so = amount \<and>
          (length (so_hex so) < usize_bound \<longrightarrow> takeable E decode debug w so)"
    if e: "expiry_check e = Inr ()" "length recipient = 20" "wf_txid txid" for txid vout e w recipient
  proof -
    let ?p = "offer_params_new \<lparr>utxo_txid = txid, utxo_vout = vout, utxo_satoshis = amount,
             utxo_script_pubkey = script\<rparr> (WantNative w recipient) e"
    have "\<exists>out. wanted_to_output (of_wanted ?p) = Inr out"
      by (simp add: offer_params_new_def p2pkh_script_pubkey_def address_new_def)
    then obtain so where so: "make_offer E maker ?p = Inr so" "so_offered so = amount"
      using make_offer_total [OF lib, of ?p] e(1) script by (auto simp: offer_params_new_def)
    have "takeable E decode debug w so" if "length (so_hex so) < usize_bound"
      unfolding takeable_def
      by (intro allI impI, elim conjE, rule native_offer_taken [OF assms(1) _ assms(2) so(1) _ _ e(2) _ that])
        (simp_all add: offer_params_new_def e(3))
    with so show ?thesis by blast
  qed
  with raw t amount show ?thesis by - (rule exI [of _ t], rule exI [of _ raw], rule exI [of _ script], rule exI [of _ more], simp)
qed

section \<open>A sample\<close>

lemma sign_funding_total:
  assumes "signs_all E key" "n + length us \<le> length (tx_inputs t)"
  shows "\<exists>t'. sign_inputs_from E key lks (public_to_bytes (env_ec E) (private_public_key (env_ec E) key)) 0 n t us = Inr t'"
  using assms(2)
proof (induction us arbitrary: n t)
  case (Cons u us)
  then obtain h s where "sighash_of E t n u = Inr h"
    "p2pkh_script_sig E key h (public_to_bytes (env_ec E) (private_public_key (env_ec E) key)) = Inr s"
    using sighash_of_total [of n t E u] p2pkh_script_sig_total [OF assms(1)] by fastforce
  with Cons.IH [of "Suc n" "set_script_sig t n s"] Cons.prems show ?case by (simp add: script_sig_for_def set_script_sig_inputs)
qed simp

definition toy_unhex :: hex_decode where
  "toy_unhex s = Inr (map (\<lambda>c. of_nat (of_char c)) s)"

lemma toy_hex_pair: "hex_pair_ok (env_hex sample_env) toy_unhex"
proof -
  have "word_of_nat (unat b mod 256) = b" for b :: u8 using unat_byte [of b] by simp
  then show ?thesis by (simp add: hex_pair_ok_def toy_unhex_def sample_env_def comp_def)
qed

lemma sample_good_signer: "good_signer sample_env key"
proof -
  have "signs_any sample_env key" by (simp add: signs_any_def sample_env_def toy_ec_lib_def)
  then show ?thesis by (simp add: good_signer_def sample_env_ok toy_sec1_ok)
qed

lemma offer_funding_script_total:
  assumes "length control = 20"
  shows "\<exists>s. offer_funding_script control = Inr s"
  using assms
  by (simp add: offer_funding_script_def cc_script_Inr to_chunk_Inr one_of_one_def push_bytes_def tagged_def
      Let_def)

lemma sample_maker_length: "length (addr_hash (private_address (env_hash sample_env) (env_ec sample_env) key)) = 20"
  using wf_public_address [OF toy_hash_lib_ok] by (simp add: sample_env_def private_address_def wf_address_def)

lemma sample_offer_funded: "\<exists>st. fund_offer sample_env sample_key [sample_coin] (Amount 290000) sample_address Never 10000 = Inr st"
proof -
  obtain script where script: "offer_funding_script (addr_hash (private_address (env_hash sample_env) (env_ec sample_env) sample_key)) = Inr script"
    using offer_funding_script_total [OF sample_maker_length] by blast
  let ?plan = "\<lparr>as_leading = [], as_funding = [sample_coin],
        as_outputs = [\<lparr>out_value = 290000, out_script_pubkey = script\<rparr>],
        as_burn = amount_zero, as_fee_output_count = 2, as_change_address = sample_address,
        as_change_script = None, as_value_bearing_leading = False, as_expiry = Never, as_fee_per_kb = 10000\<rparr>"
  have "\<exists>selected fee change. choose_funding ?plan 290000 0 = Inr (selected, fee, change)"
    by (simp add: choose_funding_def select_utxos_def checked_add_def estimate_fee_value descending_def
      size_estimate_def fee_estimate_def select_loop.simps sample_coin_def amount_checked_sum_def
      amount_checked_add_def amount_zero_def Let_def DUST_THRESHOLD_def check_fee_ceiling_def MAX_MINER_FEE_def)
  then obtain selected fee change where choose: "choose_funding ?plan 290000 0 = Inr (selected, fee, change)" by blast
  obtain extra where "change_output ?plan change = Inr extra"
    by (cases "0 < change") (simp_all add: change_output_def sample_address_def p2pkh_script_pubkey_def)
  with choose have "assembly_run ?plan 290000 0 selected fee change extra"
    by (simp add: assembly_run_def amount_zero_def)
  then have un: "assemble_unsigned ?plan = Inr (unsigned_tx selected (as_outputs ?plan @ extra) 0 0, selected, fee, change)"
    unfolding assemble_unsigned_Inr by (intro exI conjI) (assumption, simp_all add: amount_zero_def)
  obtain t where sign: "sign_inputs sample_env (unsigned_tx selected (as_outputs ?plan @ extra) 0 0) sample_key [] selected 0 = Inr t"
    using sign_funding_total [OF sample_signs_all, of 0 selected "unsigned_tx selected (as_outputs ?plan @ extra) 0 0"]
    by (auto simp: sign_inputs_def refuse_if_def)
  have "transparent_only t" using transparent_only_strip [OF sign_inputs_Inr(1) [OF sample_env_ok sign]] by simp
  from signed_transaction_of_total [OF this] script un sign show ?thesis
    by (auto simp: fund_offer_def assemble_def refuse_if_def amount_zero_def)
qed

lemma offers_go_through_witness:
  "\<exists>st (t :: tx_v4) more script. fund_offer sample_env sample_key [sample_coin] (Amount 290000) sample_address Never 10000 = Inr st \<and>
     tx_outputs t = \<lparr>out_value = 290000, out_script_pubkey = script\<rparr> # more \<and>
     (\<exists>so. make_offer sample_env sample_key (offer_params_new \<lparr>utxo_txid = Txid (replicate 32 4), utxo_vout = 0,
        utxo_satoshis = Amount 290000, utxo_script_pubkey = script\<rparr> (WantNative (Amount 1000) (replicate 20 8)) (AtHeight 90)) = Inr so \<and>
        so_offered so = Amount 290000)"
proof -
  obtain st where st: "fund_offer sample_env sample_key [sample_coin] (Amount 290000) sample_address Never 10000 = Inr st"
    using sample_offer_funded by blast
  have side: "expiry_check (AtHeight 90) = Inr ()" "length (replicate 20 (8 :: u8)) = 20" "wf_txid (Txid (replicate 32 4))"
    by (simp_all add: EXPIRY_HEIGHT_THRESHOLD_def wf_txid_def)
  from offers_go_through [OF sample_good_signer toy_hex_pair st, where debug = "\<lambda>_. []"] obtain t :: tx_v4 and script more where
    outs: "tx_outputs t = \<lparr>out_value = to_sat (Amount 290000), out_script_pubkey = script\<rparr> # more"
    and makes: "\<forall>txid vout e w recipient. expiry_check e = Inr () \<longrightarrow> length recipient = 20 \<longrightarrow> wf_txid txid \<longrightarrow>
      (\<exists>so. make_offer sample_env sample_key (offer_params_new \<lparr>utxo_txid = txid, utxo_vout = vout,
        utxo_satoshis = Amount 290000, utxo_script_pubkey = script\<rparr> (WantNative w recipient) e) = Inr so \<and>
        so_offered so = Amount 290000 \<and> (length (so_hex so) < usize_bound \<longrightarrow> takeable sample_env toy_unhex (\<lambda>_. []) w so))"
    by blast
  have "\<exists>so. make_offer sample_env sample_key (offer_params_new \<lparr>utxo_txid = Txid (replicate 32 4), utxo_vout = 0,
        utxo_satoshis = Amount 290000, utxo_script_pubkey = script\<rparr> (WantNative (Amount 1000) (replicate 20 8)) (AtHeight 90)) = Inr so \<and>
        so_offered so = Amount 290000"
    using makes side by blast
  with st outs show ?thesis by (intro exI [of _ st] exI [of _ t] exI [of _ more] exI [of _ script]) simp
qed

definition sample_funding :: utxo where
  "sample_funding = \<lparr>utxo_txid = Txid (replicate 32 4), utxo_vout = 0, utxo_satoshis = Amount 290000,
     utxo_script_pubkey = (case offer_funding_script (addr_hash (private_address (env_hash sample_env) (env_ec sample_env) sample_key)) of
       Inr script \<Rightarrow> script | Inl _ \<Rightarrow> [])\<rparr>"

definition sample_offer_params :: offer_params where
  "sample_offer_params = offer_params_new sample_funding (WantNative (Amount 1000) (replicate 20 8)) (AtHeight 90)"

definition sample_take :: "str \<Rightarrow> take_params" where
  "sample_take text = take_params_new text [sample_coin] (replicate 20 9) sample_address (Amount 290000) 500"

lemma sample_offer_settles:
  obtains so raw where "make_offer sample_env sample_key sample_offer_params = Inr so" "length (so_hex so) < usize_bound"
    "take_offer sample_env toy_unhex (\<lambda>_. []) other_key (sample_take (so_hex so)) = Inr raw"
proof -
  have lib: "ec_lib_ok (env_ec sample_env)" "sec1_ok (env_ec sample_env)" "signs_any sample_env sample_key"
    using sample_good_signer by (simp_all add: good_signer_def)
  have fund: "offer_funding_script (addr_hash (private_address (env_hash sample_env) (env_ec sample_env) sample_key)) =
      Inr (utxo_script_pubkey (of_funding sample_offer_params))"
    using offer_funding_script_total [OF sample_maker_length, of sample_key]
    by (auto simp: sample_offer_params_def offer_params_new_def sample_funding_def)
  have want: "wanted_to_output (of_wanted sample_offer_params) =
      Inr \<lparr>out_value = 1000, out_script_pubkey = [0x76, 0xa9, 0x14] @ replicate 20 8 @ [0x88, 0xac]\<rparr>"
    by (simp add: sample_offer_params_def offer_params_new_def p2pkh_script_pubkey_def address_new_def)
  obtain so where so: "make_offer sample_env sample_key sample_offer_params = Inr so"
    using make_offer_total [OF lib _ fund want] by (auto simp: sample_offer_params_def offer_params_new_def EXPIRY_HEIGHT_THRESHOLD_def)
  obtain out h signature script_sig raw0 where
    made: "wanted_to_output (of_wanted sample_offer_params) = Inr out" "length signature = 64"
      "fulfillment_script_sig [(public_to_bytes (env_ec sample_env) (private_public_key (env_ec sample_env) sample_key), signature)] 0x83 = Inr script_sig"
      "serialize (published sample_offer_params out script_sig) = Inr raw0" "so_hex so = env_hex sample_env raw0"
    by (rule make_offer_Inr [OF lib(1) so]) (rule that; assumption)
  have "length script_sig \<le> 150"
    using made(2,3) sec1_key_length [OF lib(2), of sample_key]
    by (auto simp: fulfillment_Inr push_bytes_def signature_entry_def split: if_splits)
  moreover have "length (compact_bytes n) \<le> 9" for n by (simp add: length_compact_bytes)
  from this [of 0] this [of 1] this [of "of_nat (length script_sig)"] this [of "of_nat (length (out_script_pubkey out))"]
  have "length (compact_bytes 0) \<le> 9" "length (compact_bytes 1) \<le> 9"
    "length (compact_bytes (of_nat (length script_sig))) \<le> 9"
    "length (compact_bytes (of_nat (length (out_script_pubkey out)))) \<le> 9" by simp_all
  moreover have "length (out_script_pubkey out) = 25" using made(1) want by auto
  moreover have "tx_shielded_spends (published sample_offer_params out script_sig) = []"
    "tx_shielded_outputs (published sample_offer_params out script_sig) = []"
    "tx_binding_sig (published sample_offer_params out script_sig) = None"
    using transparent_published [of sample_offer_params out script_sig] by (simp_all add: transparent_only_def is_shielded_def)
  moreover have "length (to_internal (utxo_txid (of_funding sample_offer_params))) = 32"
    by (simp add: sample_offer_params_def offer_params_new_def sample_funding_def)
  ultimately have small: "length raw0 < usize_bound"
    using made(4)
    by (simp add: serialize_Inr_iff tx_body_bytes_def binding_bytes_def write_vec_def offer_skeleton_simps offer_input_def tx_in_unsigned_def
        input_bytes_def output_bytes_def write_var_slice_def)
  have worth: "sats (utxo_satoshis sample_coin) = 500000" by (simp add: sample_coin_def)
  have short: "length (so_hex so) < usize_bound" using small made(5) by (simp add: sample_env_def)
  have "\<exists>raw. take_offer sample_env toy_unhex (\<lambda>_. []) other_key (sample_take (so_hex so)) = Inr raw"
    by (rule native_offer_taken [OF sample_good_signer sample_good_signer toy_hex_pair so _ _ _ _ short,
          where w = "Amount 1000" and recipient = "replicate 20 8"])
      (simp_all add: sample_take_def take_params_new_def sample_offer_params_def offer_params_new_def wf_txid_def sample_funding_def
        sample_coin_p2pkh sample_address_def worth)
  with that [OF so short] show thesis by blast
qed

lemma offer_settles_witness:
  "\<exists>so raw t. make_offer sample_env sample_key sample_offer_params = Inr so \<and>
     take_offer sample_env toy_unhex (\<lambda>_. []) other_key (sample_take (so_hex so)) = Inr raw \<and> serialize t = Inr raw \<and>
     wanted_to_output (WantNative (Amount 1000) (replicate 20 8)) = Inr (tx_outputs t ! 0) \<and> tx_expiry_height t = 90"
proof -
  obtain so raw where so: "make_offer sample_env sample_key sample_offer_params = Inr so" "length (so_hex so) < usize_bound"
    and raw: "take_offer sample_env toy_unhex (\<lambda>_. []) other_key (sample_take (so_hex so)) = Inr raw"
    by (rule sample_offer_settles)
  have "wf_txid (utxo_txid (of_funding sample_offer_params))"
    by (simp add: sample_offer_params_def offer_params_new_def sample_funding_def wf_txid_def)
  from offer_settles [OF sample_env_ok so(1) this toy_hex_pair raw _ so(2)] so raw show ?thesis
    by (auto simp: sample_take_def take_params_new_def sample_offer_params_def offer_params_new_def)
qed

lemma taking_conserves_witness:
  "\<exists>(so :: signed_offer) raw t. take_offer sample_env toy_unhex (\<lambda>_. []) other_key (sample_take (so_hex so)) = Inr raw \<and> serialize t = Inr raw \<and>
     total_value (tx_outputs t) + 500 = 290000 + 500000 \<and>
     (\<forall>c. chain_total (env_hash sample_env) (env_hex sample_env) [utxo_script_pubkey sample_coin] c =
        chain_total (env_hash sample_env) (env_hex sample_env) (map out_script_pubkey (tx_outputs t)) c)"
proof -
  obtain so raw where so: "make_offer sample_env sample_key sample_offer_params = Inr so" "length (so_hex so) < usize_bound"
    and raw: "take_offer sample_env toy_unhex (\<lambda>_. []) other_key (sample_take (so_hex so)) = Inr raw"
    by (rule sample_offer_settles)
  have "wf_txid (utxo_txid (of_funding sample_offer_params))"
    by (simp add: sample_offer_params_def offer_params_new_def sample_funding_def wf_txid_def)
  then obtain bytes where bytes: "toy_unhex (so_hex so) = Inr bytes" "length bytes < usize_bound"
    by (rule made_offer_reads [OF sample_env_ok so(1) _ toy_hex_pair so(2)]) (rule that; assumption)
  let ?p = "sample_take (so_hex so)"
  have ok: "toy_unhex (tk_offer ?p) = Inr bytes" "length (tk_recipient ?p) = 20" "wf_address (tk_change_address ?p)"
    "list_all (\<lambda>u. length (utxo_script_pubkey u) < usize_bound) (tk_utxos ?p)"
    by (simp_all add: sample_take_def take_params_new_def wf_address_def sample_address_def sample_coin_def bytes)
  from taking_conserves [OF sample_env_ok raw ok(1) bytes(2) ok(2-4)] obtain offer t added where
    t: "serialize t = Inr raw" "total_value (tx_outputs t) + unat (tk_fee ?p) = sats (tk_offered_value ?p) + utxo_total (tk_utxos ?p)"
    and tokens: "(\<forall>u \<in> set (tk_utxos ?p). is_reserve_coin (env_hash sample_env) (env_hex sample_env) u \<or>
         (\<exists>h. decode_output_script (env_hash sample_env) (env_hex sample_env) (utxo_script_pubkey u) = Inr (OutPubKeyHash h))) \<longrightarrow>
      (\<forall>c. chain_total (env_hash sample_env) (env_hex sample_env) (map utxo_script_pubkey (tk_utxos ?p)) c =
         chain_total (env_hash sample_env) (env_hex sample_env) (map out_script_pubkey (tx_outputs t)) c)"
    by (elim exE conjE) (rule that; assumption)
  have coins: "tk_utxos ?p = [sample_coin]" by (simp add: sample_take_def take_params_new_def)
  have "\<exists>h. decode_output_script (env_hash sample_env) (env_hex sample_env) (utxo_script_pubkey sample_coin) = Inr (OutPubKeyHash h)"
    by (intro exI [of _ "replicate 20 7"]) (simp add: decode_p2pkh sample_coin_def)
  with tokens have "\<forall>c. chain_total (env_hash sample_env) (env_hex sample_env) [utxo_script_pubkey sample_coin] c =
      chain_total (env_hash sample_env) (env_hex sample_env) (map out_script_pubkey (tx_outputs t)) c"
    by (simp add: coins)
  moreover have "total_value (tx_outputs t) + 500 = 290000 + 500000"
    using t(2) by (simp add: sample_take_def take_params_new_def sample_coin_def)
  ultimately show ?thesis using raw t(1) by (intro exI [of _ so] exI [of _ raw] exI [of _ t]) simp
qed

end
