(* ===== verification/Multisig.thy ===== *)
theory Multisig
  imports Partial
begin

text \<open>
  Transparent m-of-n multisig as pay-to-script-hash (\<open>verus-tx-market/src/multisig.rs\<close>), with
  the two pieces of consensus it is written for, as its documentation describes them: how a script
  of pushes is read, and the walk \<open>OP_CHECKMULTISIG\<close> makes over the signatures and the keys.
\<close>

section \<open>The redeem script\<close>

definition OP_0 :: u8 where "OP_0 = 0x00"
definition OP_1 :: u8 where "OP_1 = 0x51"
definition OP_HASH160 :: u8 where "OP_HASH160 = 0xa9"
definition OP_EQUAL :: u8 where "OP_EQUAL = 0x87"
definition OP_CHECKMULTISIG :: u8 where "OP_CHECKMULTISIG = 0xae"

definition MAX_MULTISIG_KEYS :: nat where "MAX_MULTISIG_KEYS = 16"

lemmas multisig_ops = OP_0_def OP_1_def OP_HASH160_def OP_EQUAL_def OP_CHECKMULTISIG_def MAX_MULTISIG_KEYS_def

definition small_int :: "nat \<Rightarrow> tx_error + u8" where
  "small_int n =
     (if n = 0 \<or> MAX_MULTISIG_KEYS < n
      then Inl (InvalidMultisig (dec_string n @ '' is not encodable as a small integer opcode''))
      else Inr (OP_1 + of_nat (n - 1)))"

fun push_keys :: "('sk, 'vk, 'sg) ec_lib \<Rightarrow> bytes \<Rightarrow> 'vk public_key list \<Rightarrow> tx_error + bytes" where
  "push_keys X script [] = Inr script"
| "push_keys X script (pubkey # pubkeys) =
     (let key = public_to_bytes X pubkey in
      if 255 < length key then Inl (InvalidMultisig ''a public key is too long to push'')
      else push_keys X (script @ [of_nat (length key)] @ key) pubkeys)"

definition redeem_script :: "('sk, 'vk, 'sg) ec_lib \<Rightarrow> nat \<Rightarrow> 'vk public_key list \<Rightarrow> tx_error + bytes" where
  "redeem_script X required pubkeys =
     rbind (refuse_if (pubkeys = []) (InvalidMultisig ''a multisig needs at least one key'')) (\<lambda>_.
     rbind (refuse_if (MAX_MULTISIG_KEYS < length pubkeys) (InvalidMultisig
       (dec_string (length pubkeys) @ '' keys is more than the '' @ dec_string MAX_MULTISIG_KEYS @
        '' OP_CHECKMULTISIG accepts''))) (\<lambda>_.
     rbind (refuse_if (required = 0) (InvalidMultisig ''a 0-of-n multisig would be spendable by anyone'')) (\<lambda>_.
     rbind (refuse_if (length pubkeys < required) (InvalidMultisig
       (dec_string required @ ''-of-'' @ dec_string (length pubkeys) @ '' can never be satisfied''))) (\<lambda>_.
     rbind (small_int required) (\<lambda>m.
     rbind (push_keys X [m] pubkeys) (\<lambda>script.
     rbind (small_int (length pubkeys)) (\<lambda>n.
     Inr (script @ [n, OP_CHECKMULTISIG]))))))))"

definition script_hash :: "hash_lib \<Rightarrow> bytes \<Rightarrow> bytes" where
  "script_hash H redeem = hash160 H redeem"

definition multisig_address :: "hash_lib \<Rightarrow> bytes \<Rightarrow> address" where
  "multisig_address H redeem = address_new ScriptHash (script_hash H redeem)"

definition p2sh_script_pubkey :: "hash_lib \<Rightarrow> bytes \<Rightarrow> bytes" where
  "p2sh_script_pubkey H redeem = [OP_HASH160, 20] @ script_hash H redeem @ [OP_EQUAL]"

section \<open>The unlocking script\<close>

record 'vk multisig_signature =
  ms_pubkey :: "'vk public_key"
  ms_signature :: bytes

definition multisig_push :: "bytes \<Rightarrow> bytes \<Rightarrow> tx_error + bytes" where
  "multisig_push script data =
     (let n = length data in
      if n = 0 then Inr (script @ [OP_0] @ data)
      else if n < 0x4c then Inr (script @ [of_nat n] @ data)
      else if n \<le> 0xff then Inr (script @ [0x4c, of_nat n] @ data)
      else if n \<le> 0xffff then Inr (script @ [0x4d] @ u16_le (of_nat n) @ data)
      else Inl (InvalidMultisig (dec_string n @ '' bytes is too large to push into a scriptSig'')))"

fun order_signatures ::
  "'vk multisig_signature list \<Rightarrow> 'vk public_key list \<Rightarrow> tx_error + 'vk multisig_signature list" where
  "order_signatures signatures [] = Inr []"
| "order_signatures signatures (pubkey # pubkeys) =
     (case filter (\<lambda>s. ms_pubkey s = pubkey) signatures of
        [] \<Rightarrow> order_signatures signatures pubkeys
      | [found] \<Rightarrow> rbind (order_signatures signatures pubkeys) (\<lambda>ordered. Inr (found # ordered))
      | _ # _ # _ \<Rightarrow> Inl (InvalidMultisig ''the same key signed twice; it still counts once''))"

fun push_each :: "bytes \<Rightarrow> bytes list \<Rightarrow> tx_error + bytes" where
  "push_each script [] = Inr script"
| "push_each script (d # ds) = rbind (multisig_push script d) (\<lambda>script. push_each script ds)"

definition multisig_script_sig ::
  "nat \<Rightarrow> 'vk public_key list \<Rightarrow> 'vk multisig_signature list \<Rightarrow> bytes \<Rightarrow> tx_error + bytes" where
  "multisig_script_sig required pubkeys signatures redeem =
     rbind (order_signatures signatures pubkeys) (\<lambda>ordered.
     rbind (refuse_if (length ordered \<noteq> length signatures)
       (InvalidMultisig ''a signature came from a key that is not in the redeem script'')) (\<lambda>_.
     rbind (refuse_if (length ordered \<noteq> required) (InvalidMultisig
       (dec_string required @ ''-of-'' @ dec_string (length pubkeys) @ '' needs exactly '' @ dec_string required @
        '' signatures, got '' @ dec_string (length ordered)))) (\<lambda>_.
     rbind (push_each [OP_0] (map ms_signature ordered)) (\<lambda>script.
     multisig_push script redeem))))"

section \<open>How the network reads them\<close>

text \<open>The items a script of pushes leaves on the stack, first pushed first; \<open>None\<close> when it is not one.\<close>

fun pushed_items :: "bytes \<Rightarrow> bytes list option" where
  "pushed_items [] = Some []"
| "pushed_items (b # bs) =
     (if b < 0x4c then
        if length bs < unat b then None
        else map_option (\<lambda>items. take (unat b) bs # items) (pushed_items (drop (unat b) bs))
      else if b = 0x4c then
        (case bs of
           n # bs \<Rightarrow> if length bs < unat n then None
             else map_option (\<lambda>items. take (unat n) bs # items) (pushed_items (drop (unat n) bs))
         | [] \<Rightarrow> None)
      else if b = 0x4d then
        (case bs of
           l # h # bs \<Rightarrow> let n = unat l + 256 * unat h in
             if length bs < n then None
             else map_option (\<lambda>items. take n bs # items) (pushed_items (drop n bs))
         | _ \<Rightarrow> None)
      else None)"

declare pushed_items.simps [simp del]

text \<open>
  Both lists once, in order, without backtracking.  The limit of 520 bytes the network puts on one
  pushed item is not part of it.
\<close>

fun checkmultisig :: "('k \<Rightarrow> bytes \<Rightarrow> bool) \<Rightarrow> bytes list \<Rightarrow> 'k list \<Rightarrow> bool" where
  "checkmultisig ok [] keys \<longleftrightarrow> True"
| "checkmultisig ok (s # ss) [] \<longleftrightarrow> False"
| "checkmultisig ok (s # ss) (k # ks) \<longleftrightarrow> (if ok k s then checkmultisig ok ss ks else checkmultisig ok (s # ss) ks)"

text \<open>
  What spends the output: the items are a dummy, \<open>required\<close> signatures and the redeem script whose
  hash the output holds, and the walk accepts them.
\<close>

definition multisig_spends ::
  "hash_lib \<Rightarrow> ('k \<Rightarrow> bytes \<Rightarrow> bool) \<Rightarrow> nat \<Rightarrow> 'k list \<Rightarrow> bytes \<Rightarrow> bytes \<Rightarrow> bytes \<Rightarrow> bool" where
  "multisig_spends H ok required keys redeem script_pubkey script_sig \<longleftrightarrow>
     (\<exists>items. pushed_items script_sig = Some ([] # items @ [redeem]) \<and> length items = required \<and>
        checkmultisig ok items keys) \<and>
     script_pubkey = [0xa9, 20] @ hash160 H redeem @ [0x87]"

section \<open>What the builders write\<close>

definition key_push :: "('sk, 'vk, 'sg) ec_lib \<Rightarrow> 'vk public_key \<Rightarrow> bytes" where
  "key_push X k = of_nat (length (public_to_bytes X k)) # public_to_bytes X k"

lemma push_keys_Inr:
  "push_keys X script ks = Inr r \<longleftrightarrow>
     (\<forall>k \<in> set ks. length (public_to_bytes X k) \<le> 255) \<and> r = script @ concat (map (key_push X) ks)"
  by (induction ks arbitrary: script) (auto simp: key_push_def Let_def not_less)

lemma small_int_Inr: "small_int n = Inr b \<longleftrightarrow> 1 \<le> n \<and> n \<le> 16 \<and> b = of_nat (0x50 + n)"
proof -
  have "OP_1 + of_nat (n - 1) = (of_nat (0x50 + n) :: u8)" if "1 \<le> n" using that by (cases n) (simp_all add: OP_1_def)
  then show ?thesis by (auto simp: small_int_def MAX_MULTISIG_KEYS_def)
qed

lemma redeem_script_Inr:
  "redeem_script X m ks = Inr r \<longleftrightarrow> 1 \<le> m \<and> m \<le> length ks \<and> length ks \<le> 16 \<and>
     (\<forall>k \<in> set ks. length (public_to_bytes X k) \<le> 255) \<and>
     r = of_nat (0x50 + m) # concat (map (key_push X) ks) @ [of_nat (0x50 + length ks), 0xae]"
  by (auto simp: redeem_script_def rbind_Inr_iff refuse_if_Inr_iff small_int_Inr push_keys_Inr multisig_ops)

definition small_push :: "bytes \<Rightarrow> bytes" where
  "small_push d = (let n = length d in
     (if n < 0x4c then [of_nat n] else if n \<le> 0xff then [0x4c, of_nat n] else 0x4d # u16_le (of_nat n)) @ d)"

lemma multisig_push_Inr: "multisig_push script d = Inr s \<longleftrightarrow> length d \<le> 0xffff \<and> s = script @ small_push d"
  by (auto simp: multisig_push_def small_push_def Let_def OP_0_def)

lemma push_each_Inr:
  "push_each script ds = Inr s \<longleftrightarrow> (\<forall>d \<in> set ds. length d \<le> 0xffff) \<and> s = script @ concat (map small_push ds)"
  by (induction ds arbitrary: script) (auto simp: rbind_Inr_iff multisig_push_Inr)

lemma pushed_small_push:
  assumes "length d \<le> 0xffff"
  shows "pushed_items (small_push d @ bs) = map_option ((#) d) (pushed_items bs)"
proof -
  let ?n = "length d"
  consider (direct) "?n < 0x4c" | (one) "0x4c \<le> ?n" "?n \<le> 0xff" | (two) "0x100 \<le> ?n" by linarith
  then show ?thesis
  proof cases
    case direct
    then have n: "unat (of_nat ?n :: u8) = ?n" by (subst unat_of_nat) simp
    then have "(of_nat ?n :: u8) < 0x4c" using direct by (simp add: word_less_nat_alt)
    then show ?thesis using direct n by (simp add: small_push_def pushed_items.simps(2))
  next
    case one
    then have n: "unat (of_nat ?n :: u8) = ?n" by (subst unat_of_nat) simp
    then show ?thesis using one by (simp add: small_push_def pushed_items.simps(2))
  next
    case two
    obtain a b where ab: "u16_le (of_nat ?n) = [a, b]" using u16_le_pair by blast
    have "unat (u16_from_le [a, b]) = ?n"
      using assms unfolding ab [symmetric] by (simp add: unat_of_nat)
    then have "unat a + 256 * unat b = ?n" by (simp add: unat_uN_from_le)
    with ab have "u16_le (of_nat ?n) = [a, b]" "unat a + 256 * unat b = ?n" by simp_all
    then show ?thesis using two by (simp add: small_push_def pushed_items.simps(2) Let_def)
  qed
qed

lemma pushed_concat:
  "\<forall>d \<in> set ds. length d \<le> 0xffff \<Longrightarrow> pushed_items (concat (map small_push ds)) = Some ds"
  by (induction ds) (simp_all add: pushed_items.simps(1) pushed_small_push)

section \<open>The walk\<close>

lemma checkmultisig_fewer: "checkmultisig ok (s # ss) ks \<Longrightarrow> checkmultisig ok ss ks"
proof (induction ks arbitrary: s ss)
  case (Cons k ks)
  then have "checkmultisig ok ss ks" by (auto split: if_splits)
  then show ?case using Cons.IH by (cases ss) auto
qed simp

lemma checkmultisig_skip: "checkmultisig ok ss ks \<Longrightarrow> checkmultisig ok ss (k # ks)"
  using checkmultisig_fewer by (cases ss) auto

lemma order_signatures_Inr:
  assumes "order_signatures sigs ks = Inr ordered"
  shows "set ordered = {s \<in> set sigs. ms_pubkey s \<in> set ks}"
    "\<forall>s \<in> set ordered. ok (ms_pubkey s) (ms_signature s) \<Longrightarrow> checkmultisig ok (map ms_signature ordered) ks"
    "distinct ks \<Longrightarrow> distinct ordered"
proof -
  have "set ordered = {s \<in> set sigs. ms_pubkey s \<in> set ks} \<and>
      ((\<forall>s \<in> set ordered. ok (ms_pubkey s) (ms_signature s)) \<longrightarrow> checkmultisig ok (map ms_signature ordered) ks) \<and>
      (distinct ks \<longrightarrow> distinct ordered)"
    using assms
  proof (induction ks arbitrary: ordered)
    case (Cons k ks)
    show ?case
    proof (cases "filter (\<lambda>s. ms_pubkey s = k) sigs")
      case Nil
      then have "\<forall>s \<in> set sigs. ms_pubkey s \<noteq> k" by (simp add: filter_empty_conv)
      with Nil Cons show ?thesis using checkmultisig_skip by fastforce
    next
      case (Cons found more)
      with Cons.prems obtain rest where m: "more = []" and r: "order_signatures sigs ks = Inr rest" "ordered = found # rest"
        by (auto simp: rbind_Inr_iff split: list.splits)
      have f: "{s \<in> set sigs. ms_pubkey s = k} = {found}" using Cons m by (metis empty_set list.simps(15) set_filter)
      note IH = Cons.IH [OF r(1)]
      have "ms_pubkey found = k" using f by blast
      with IH f r(2) show ?thesis by auto
    qed
  qed simp
  then show "set ordered = {s \<in> set sigs. ms_pubkey s \<in> set ks}"
    "\<forall>s \<in> set ordered. ok (ms_pubkey s) (ms_signature s) \<Longrightarrow> checkmultisig ok (map ms_signature ordered) ks"
    "distinct ks \<Longrightarrow> distinct ordered" by blast+
qed

lemma order_signatures_total:
  assumes "distinct (map ms_pubkey sigs)"
  shows "\<exists>ordered. order_signatures sigs ks = Inr ordered"
proof (induction ks)
  case (Cons k ks)
  have "length (filter (\<lambda>s. ms_pubkey s = k) sigs) \<le> 1"
    using assms by (induction sigs) (auto simp: filter_empty_conv image_iff)
  with Cons show ?case by (auto split: list.split)
qed simp

lemma order_signatures_once:
  "order_signatures sigs ks = Inr ordered \<Longrightarrow> k \<in> set ks \<Longrightarrow> length (filter (\<lambda>s. ms_pubkey s = k) sigs) \<le> 1"
  by (induction ks arbitrary: ordered) (auto simp: rbind_Inr_iff split: list.splits)

lemma all_ordered:
  assumes "order_signatures sigs ks = Inr ordered" "length ordered = length sigs" "distinct ks"
  shows "distinct (map ms_pubkey sigs)" "ms_pubkey ` set sigs \<subseteq> set ks"
proof -
  note o = order_signatures_Inr [OF assms(1)]
  have "card (set ordered) = length sigs" using o(3) [OF assms(3)] assms(2) by (simp add: distinct_card)
  moreover have "set ordered \<subseteq> set sigs" using o(1) by blast
  ultimately have eq: "set ordered = set sigs" "distinct sigs"
    using card_length [of sigs] card_mono [of "set sigs" "set ordered"] card_subset_eq [of "set sigs" "set ordered"]
      card_distinct [of sigs] by auto
  then show sub: "ms_pubkey ` set sigs \<subseteq> set ks" using o(1) by blast
  have "s = t" if st: "s \<in> set sigs" "t \<in> set sigs" "ms_pubkey s = ms_pubkey t" for s t
  proof (rule ccontr)
    assume "s \<noteq> t"
    have "{s, t} \<subseteq> set (filter (\<lambda>u. ms_pubkey u = ms_pubkey s) sigs)" using st by simp
    from card_mono [OF _ this] \<open>s \<noteq> t\<close> have "2 \<le> length (filter (\<lambda>u. ms_pubkey u = ms_pubkey s) sigs)"
      using card_length [of "filter (\<lambda>u. ms_pubkey u = ms_pubkey s) sigs"] by simp
    moreover have "ms_pubkey s \<in> set ks" using sub st(1) by blast
    ultimately show False using order_signatures_once [OF assms(1), of "ms_pubkey s"] by simp
  qed
  with eq(2) show "distinct (map ms_pubkey sigs)" by (auto simp: distinct_map inj_on_def)
qed

lemma ordered_all:
  assumes "distinct (map ms_pubkey sigs)" "ms_pubkey ` set sigs \<subseteq> set ks" "distinct ks"
    and "order_signatures sigs ks = Inr ordered"
  shows "length ordered = length sigs"
proof -
  note o = order_signatures_Inr [OF assms(4)]
  have "set ordered = set sigs" using o(1) assms(2) by auto
  moreover have "distinct sigs" using assms(1) by (simp add: distinct_map)
  ultimately show ?thesis using o(3) [OF assms(3)] by (metis distinct_card)
qed

lemma redeem_length:
  assumes "redeem_script X m ks = Inr r"
  shows "length r = 3 + (\<Sum>k \<leftarrow> ks. 1 + length (public_to_bytes X k))" "length r \<le> 0xffff"
proof -
  have ks: "length ks \<le> 16" "\<forall>k \<in> set ks. length (public_to_bytes X k) \<le> 255"
    and r: "r = of_nat (0x50 + m) # concat (map (key_push X) ks) @ [of_nat (0x50 + length ks), 0xae]"
    using assms by (simp_all add: redeem_script_Inr)
  show len: "length r = 3 + (\<Sum>k \<leftarrow> ks. 1 + length (public_to_bytes X k))"
    by (simp add: r length_concat key_push_def comp_def)
  have "(\<Sum>k \<leftarrow> ks. 1 + length (public_to_bytes X k)) \<le> length ks * 256"
    using ks(2) by (induction ks) auto
  with ks(1) len show "length r \<le> 0xffff" by simp
qed

lemma key_pushes_inj:
  "concat (map (key_push X) ks) @ s = concat (map (key_push X) ks') @ t \<Longrightarrow> length ks = length ks' \<Longrightarrow>
     \<forall>k \<in> set ks \<union> set ks'. length (public_to_bytes X k) \<le> 255 \<Longrightarrow>
     map (public_to_bytes X) ks = map (public_to_bytes X) ks'"
proof (induction ks arbitrary: ks')
  case (Cons k ks)
  then obtain k' ks'' where ks': "ks' = k' # ks''" by (cases ks') simp_all
  have small: "n \<le> 255 \<Longrightarrow> unat (of_nat n :: u8) = n" for n by (subst unat_of_nat) simp
  have "(of_nat (length (public_to_bytes X k)) :: u8) = of_nat (length (public_to_bytes X k'))"
    using Cons.prems(1) ks' by (simp add: key_push_def)
  then have "length (public_to_bytes X k) = length (public_to_bytes X k')"
    using Cons.prems(3) ks' small by (metis UnCI list.set_intros(1))
  moreover from this have "key_push X k = key_push X k' \<and>
      concat (map (key_push X) ks) @ s = concat (map (key_push X) ks'') @ t"
    using Cons.prems(1) ks' append_eq_append_conv [of "key_push X k" "key_push X k'"] by (simp add: key_push_def [of X k] key_push_def [of X k'])
  moreover from this have "public_to_bytes X k = public_to_bytes X k'" by (simp add: key_push_def)
  ultimately show ?case using Cons ks' by simp
qed simp

section \<open>Properties\<close>

text \<open>
  C39: a multisig spend is accepted, and exactly the right sets of signatures make one.  Whatever
  order the signatures were gathered in, the unlocking script leaves the dummy, as many
  signatures as the threshold and the redeem script on the stack, and the one-pass walk over the
  keys accepts them if each verifies for its own key; the output holds the hash of that redeem
  script.  For distinct keys the script is made exactly when the signatures are from as many
  distinct keys of the redeem script as it requires.
\<close>

theorem multisig_spend_accepted:
  assumes "redeem_script X m ks = Inr redeem"
  shows "(\<forall>script_sig. multisig_script_sig m ks sigs redeem = Inr script_sig \<longrightarrow>
       (\<forall>s \<in> set sigs. ok (ms_pubkey s) (ms_signature s)) \<longrightarrow>
       multisig_spends H ok m ks redeem (p2sh_script_pubkey H redeem) script_sig) \<and>
     (distinct ks \<longrightarrow> (\<exists>script_sig. multisig_script_sig m ks sigs redeem = Inr script_sig) =
       (distinct (map ms_pubkey sigs) \<and> ms_pubkey ` set sigs \<subseteq> set ks \<and> length sigs = m \<and>
        (\<forall>s \<in> set sigs. length (ms_signature s) \<le> 0xffff)))"
proof (intro conjI allI impI)
  fix script_sig
  assume run: "multisig_script_sig m ks sigs redeem = Inr script_sig" and ok: "\<forall>s \<in> set sigs. ok (ms_pubkey s) (ms_signature s)"
  then obtain ordered where o: "order_signatures sigs ks = Inr ordered" "length ordered = m"
    and len: "\<forall>s \<in> set ordered. length (ms_signature s) \<le> 0xffff"
    and sig: "script_sig = OP_0 # concat (map small_push (map ms_signature ordered)) @ small_push redeem"
    by (auto simp: multisig_script_sig_def rbind_Inr_iff refuse_if_Inr_iff push_each_Inr multisig_push_Inr)
  have "script_sig = concat (map small_push ([] # map ms_signature ordered @ [redeem]))"
    by (simp add: sig small_push_def OP_0_def)
  then have "pushed_items script_sig = Some ([] # map ms_signature ordered @ [redeem])"
    using pushed_concat [of "[] # map ms_signature ordered @ [redeem]"] len redeem_length(2) [OF assms] by simp
  moreover have "checkmultisig ok (map ms_signature ordered) ks"
    using order_signatures_Inr(1,2) [OF o(1)] ok by blast
  ultimately show "multisig_spends H ok m ks redeem (p2sh_script_pubkey H redeem) script_sig"
    using o(2) by (auto simp: multisig_spends_def p2sh_script_pubkey_def script_hash_def multisig_ops)
next
  assume ks: "distinct ks"
  show "(\<exists>script_sig. multisig_script_sig m ks sigs redeem = Inr script_sig) =
       (distinct (map ms_pubkey sigs) \<and> ms_pubkey ` set sigs \<subseteq> set ks \<and> length sigs = m \<and>
        (\<forall>s \<in> set sigs. length (ms_signature s) \<le> 0xffff))" (is "?made = ?right")
  proof
    assume ?made
    then obtain ordered where o: "order_signatures sigs ks = Inr ordered" "length ordered = length sigs" "length ordered = m"
      "\<forall>s \<in> set ordered. length (ms_signature s) \<le> 0xffff"
      by (auto simp: multisig_script_sig_def rbind_Inr_iff refuse_if_Inr_iff push_each_Inr)
    moreover have "set sigs \<subseteq> set ordered" using order_signatures_Inr(1) [OF o(1)] all_ordered(2) [OF o(1,2) ks] by blast
    ultimately show ?right using all_ordered [OF o(1,2) ks] by auto
  next
    assume ?right
    then have d: "distinct (map ms_pubkey sigs)" "ms_pubkey ` set sigs \<subseteq> set ks" and m: "length sigs = m"
      and len: "\<forall>s \<in> set sigs. length (ms_signature s) \<le> 0xffff" by simp_all
    obtain ordered where o: "order_signatures sigs ks = Inr ordered" using order_signatures_total [OF d(1)] by (rule exE)
    have "length ordered = length sigs" by (rule ordered_all [OF d ks o])
    moreover have "\<forall>s \<in> set ordered. length (ms_signature s) \<le> 0xffff" using order_signatures_Inr(1) [OF o] len by simp
    ultimately show ?made
      using o m redeem_length(2) [OF assms]
      by (simp add: multisig_script_sig_def rbind_Inr_iff refuse_if_Inr_iff push_each_Inr multisig_push_Inr)
  qed
qed

text \<open>
  C40: the redeem script, and so the address, fixes the threshold, the keys and their order, and
  is made exactly for a threshold between one and the number of keys, of which there are at most
  sixteen.
\<close>

theorem redeem_script_determines:
  "((\<exists>r. redeem_script X m ks = Inr r) =
      (1 \<le> m \<and> m \<le> length ks \<and> length ks \<le> 16 \<and> (\<forall>k \<in> set ks. length (public_to_bytes X k) \<le> 255))) \<and>
   (redeem_script X m ks = Inr r \<longrightarrow> redeem_script X m' ks' = Inr r \<longrightarrow>
      m = m' \<and> map (public_to_bytes X) ks = map (public_to_bytes X) ks')"
proof (intro conjI impI)
  show "(\<exists>r. redeem_script X m ks = Inr r) =
      (1 \<le> m \<and> m \<le> length ks \<and> length ks \<le> 16 \<and> (\<forall>k \<in> set ks. length (public_to_bytes X k) \<le> 255))"
    by (auto simp: redeem_script_Inr)
next
  assume a: "redeem_script X m ks = Inr r" "redeem_script X m' ks' = Inr r"
  have small: "n \<le> 255 \<Longrightarrow> unat (of_nat n :: u8) = n" for n by (subst unat_of_nat) simp
  have inj: "n = n'" if "(of_nat (0x50 + n) :: u8) = of_nat (0x50 + n')" "n \<le> 16" "n' \<le> 16" for n n'
    using that small [of "0x50 + n"] small [of "0x50 + n'"] by simp
  have eq: "of_nat (0x50 + m) # concat (map (key_push X) ks) @ [of_nat (0x50 + length ks), 0xae :: u8] =
      of_nat (0x50 + m') # concat (map (key_push X) ks') @ [of_nat (0x50 + length ks'), 0xae]"
    and b: "m \<le> 16" "m' \<le> 16" "length ks \<le> 16" "length ks' \<le> 16"
      "\<forall>k \<in> set ks \<union> set ks'. length (public_to_bytes X k) \<le> 255"
    using a by (auto simp: redeem_script_Inr)
  from eq have "(of_nat (0x50 + m) :: u8) = of_nat (0x50 + m')" by simp
  then show "m = m'" using inj b(1,2) by blast
  have two: "concat (map (key_push X) ks) @ [of_nat (0x50 + length ks), 0xae :: u8] =
      concat (map (key_push X) ks') @ [of_nat (0x50 + length ks'), 0xae]" using eq by simp
  then have "last (butlast (concat (map (key_push X) ks) @ [of_nat (0x50 + length ks), 0xae :: u8])) =
      last (butlast (concat (map (key_push X) ks') @ [of_nat (0x50 + length ks'), 0xae]))" by (rule arg_cong)
  then have "(of_nat (0x50 + length ks) :: u8) = of_nat (0x50 + length ks')" by (simp add: butlast_append)
  then have "length ks = length ks'" using inj b(3,4) by blast
  then show "map (public_to_bytes X) ks = map (public_to_bytes X) ks'" by (rule key_pushes_inj [OF two _ b(5)])
qed

section \<open>A sample\<close>

abbreviation key_a :: "key32 public_key" where "key_a \<equiv> private_public_key (env_ec sample_env) sample_key"
abbreviation key_b :: "key32 public_key" where "key_b \<equiv> private_public_key (env_ec sample_env) other_key"

lemma sample_keys: "key_a \<noteq> key_b" "length (public_to_bytes (env_ec sample_env) key) \<le> 255"
proof -
  show "key_a \<noteq> key_b" using key_bytes_differ by auto
  have "length (Rep_key32 k) = 32" for k using Rep_key32 [of k] by simp
  then show "length (public_to_bytes (env_ec sample_env) key) \<le> 255"
    by (simp add: sample_env_def toy_ec_lib_def public_to_bytes_def)
qed

lemma sample_redeem: "\<exists>r. redeem_script (env_ec sample_env) 2 [key_a, key_b] = Inr r"
  by (simp add: redeem_script_Inr sample_keys(2))

lemma multisig_spend_accepted_witness:
  "\<exists>r script_sig. redeem_script (env_ec sample_env) 2 [key_a, key_b] = Inr r \<and>
     multisig_script_sig 2 [key_a, key_b] [\<lparr>ms_pubkey = key_b, ms_signature = [8]\<rparr>, \<lparr>ms_pubkey = key_a, ms_signature = [7]\<rparr>] r = Inr script_sig \<and>
     multisig_spends toy_hash_lib (\<lambda>k s. s = (if k = key_a then [7] else [8])) 2 [key_a, key_b] r (p2sh_script_pubkey toy_hash_lib r) script_sig"
proof -
  obtain r where r: "redeem_script (env_ec sample_env) 2 [key_a, key_b] = Inr r" using sample_redeem by blast
  let ?sigs = "[\<lparr>ms_pubkey = key_b, ms_signature = [8]\<rparr>, \<lparr>ms_pubkey = key_a, ms_signature = [7]\<rparr>]"
  note t = multisig_spend_accepted [OF r, of ?sigs "\<lambda>k s. s = (if k = key_a then [7] else [8])" toy_hash_lib]
  have "\<exists>script_sig. multisig_script_sig 2 [key_a, key_b] ?sigs r = Inr script_sig"
    using conjunct2 [OF t] sample_keys(1) by auto
  then obtain script_sig where s: "multisig_script_sig 2 [key_a, key_b] ?sigs r = Inr script_sig" by blast
  have "\<forall>s \<in> set ?sigs. ms_signature s = (if ms_pubkey s = key_a then [7] else [8])" using sample_keys(1) by simp
  with conjunct1 [OF t] r s show ?thesis by blast
qed

lemma redeem_script_determines_witness:
  "\<exists>r. redeem_script (env_ec sample_env) 2 [key_a, key_b] = Inr r \<and>
     redeem_script (env_ec sample_env) 2 [key_b, key_a] \<noteq> Inr r \<and> redeem_script (env_ec sample_env) 1 [key_a, key_b] \<noteq> Inr r"
proof -
  obtain r where r: "redeem_script (env_ec sample_env) 2 [key_a, key_b] = Inr r" using sample_redeem by blast
  have "redeem_script (env_ec sample_env) 2 [key_b, key_a] \<noteq> Inr r"
    using redeem_script_determines [of "env_ec sample_env" 2 "[key_a, key_b]" r 2 "[key_b, key_a]"] r key_bytes_differ by auto
  moreover have "redeem_script (env_ec sample_env) 1 [key_a, key_b] \<noteq> Inr r"
    using redeem_script_determines [of "env_ec sample_env" 2 "[key_a, key_b]" r 1 "[key_a, key_b]"] r by auto
  ultimately show ?thesis using r by blast
qed

text \<open>
  Sixteen compressed keys make a redeem script of 547 bytes: more than the 520 bytes the network
  lets a script item hold, so nothing paid to its address can be spent.
\<close>

lemma sixteen_keys_too_long:
  "\<forall>k \<in> set ks. length (public_to_bytes X k) = 33 \<Longrightarrow> length ks = 16 \<Longrightarrow> redeem_script X m ks = Inr r \<Longrightarrow> length r = 547"
proof -
  assume a: "\<forall>k \<in> set ks. length (public_to_bytes X k) = 33" "length ks = 16" "redeem_script X m ks = Inr r"
  have "(\<Sum>k \<leftarrow> ks. 1 + length (public_to_bytes X k)) = length ks * 34" using a(1) by (induction ks) simp_all
  with a(2) redeem_length(1) [OF a(3)] show ?thesis by simp
qed

text \<open>With a repeated key, one signature of it stands in for another and a stranger's is passed over.\<close>

lemma repeated_key_hides_stranger:
  "a \<noteq> x \<Longrightarrow> length s \<le> 0xffff \<Longrightarrow> length r \<le> 0xffff \<Longrightarrow>
     \<exists>sc. multisig_script_sig 2 [a, a] [\<lparr>ms_pubkey = a, ms_signature = s\<rparr>, \<lparr>ms_pubkey = x, ms_signature = u\<rparr>] r = Inr sc"
  by (auto simp: multisig_script_sig_def refuse_if_def rbind_Inr_iff push_each_Inr multisig_push_Inr)

end
