(* ===== verification/Spec2Isabelle.thy ===== *)
theory Spec2Isabelle
  imports Wire_Sighash Keys Fee Script Transparent Identity Convert Decode Btree Output_Types Balances Token Conversion Drive Money Funding Registration Lifecycle Signature Offer Multisig
begin

text \<open>
  A verification library for the core of verus-rust-sdk: an SDK that builds and signs Verus
  transactions without a node, and runs whole wallet operations against one that is not trusted.

  \<^bold>\<open>The program and its parts.\<close>  \<open>verus-wire\<close> reads and writes v4 transactions and computes the
  hashes that are signed.  \<open>verus-keys\<close> holds keys and addresses.  \<open>verus-tx-primitives\<close> has amounts,
  ids, fees with coin selection, and CryptoCondition scripts.  The builders sit on these:
  \<open>verus-tx-transparent\<close> (sends, and the assembler every other builder ends in),
  \<open>verus-tx-protocol\<close> (VerusID objects, reserve transfers, the output decoder, tokens),
  \<open>verus-tx-identity\<close> (registering, changing, spending and signing as an identity) and
  \<open>verus-tx-market\<close> (partial transactions, offers, multisig).  \<open>verus-rpc\<close> words the questions put
  to a node and types its replies; \<open>verus-flows\<close> composes reads, builders and broadcasts, either
  blocking or in rounds driven by the caller.

  \<^bold>\<open>Which theory models what.\<close>  A Rust struct is a record, an enum a datatype, \<open>Result\<close> the sum
  \<open>error + value\<close> threaded by \<open>rbind\<close>, \<open>uN\<close> an N-bit word with the checked, wrapping and
  saturating operations the source uses, \<open>usize\<close> a natural, a \<open>str\<close> its UTF-8 bytes, and a panic
  the error \<open>Panic\<close>.  A method on \<open>&mut self\<close> returns the state it leaves.

  \<^item> \<open>Prelude\<close>, \<open>Codec\<close>, \<open>Rust_Text\<close>, \<open>Btree\<close>: machine types and \<open>Result\<close>; the locales \<open>codec\<close> and
    \<open>codec_item\<close>, which every cursor-based reader interprets; the operations of \<open>str\<close>; \<open>BTreeMap\<close>.
  \<^item> \<open>Wire_Compact\<close>, \<open>Wire_Tx\<close>, \<open>Wire_Sighash\<close>: \<open>verus-wire\<close> (\<open>compact.rs\<close>, \<open>tx.rs\<close>, \<open>hash.rs\<close>,
    \<open>consensus.rs\<close>, \<open>error.rs\<close>): \<open>serialize\<close>, \<open>deserialize\<close>, \<open>transparent_sighash\<close>,
    \<open>shielded_sighash\<close>.
  \<^item> \<open>Keys\<close>: \<open>verus-keys\<close> (\<open>base58.rs\<close>, \<open>address.rs\<close>, \<open>key.rs\<close>), whose text forms interpret the locale
    \<open>text_form\<close>.
  \<^item> \<open>Tx_Primitives\<close>, \<open>Fee\<close>, \<open>Cc\<close>: \<open>verus-tx-primitives\<close>: \<open>TxError\<close>, \<open>Amount\<close>, \<open>Txid\<close>, \<open>Expiry\<close>,
    \<open>CurrencyId\<close>; \<open>estimate_fee\<close> and \<open>select_utxos\<close>; \<open>OptCcParams\<close>, \<open>cc_script\<close>,
    \<open>fulfillment_script_sig\<close>.
  \<^item> \<open>Transparent\<close>: \<open>verus-tx-transparent\<close> (\<open>send.rs\<close>, \<open>assemble.rs\<close>).
  \<^item> \<open>Identity\<close>, \<open>Convert\<close>, \<open>Conversion\<close>, \<open>Script\<close>, \<open>Decode\<close>, \<open>Output_Types\<close>, \<open>Balances\<close>, \<open>Token\<close>:
    \<open>verus-tx-protocol\<close> (\<open>identity.rs\<close>, \<open>convert.rs\<close>, \<open>decode.rs\<close>, \<open>balances.rs\<close>, \<open>token.rs\<close>).
  \<^item> \<open>Registration\<close>, \<open>Identity_Ops\<close>, \<open>Identity_Spend\<close>, \<open>Base64\<close>, \<open>Signature\<close>: \<open>verus-tx-identity\<close>
    (\<open>register.rs\<close>, \<open>revoke.rs\<close> and \<open>update.rs\<close>, \<open>identity_spend.rs\<close>, \<open>signature.rs\<close>).
  \<^item> \<open>Partial\<close>, \<open>Offer\<close>, \<open>Multisig\<close>: \<open>verus-tx-market\<close> (\<open>partial.rs\<close>, \<open>offer.rs\<close>, \<open>multisig.rs\<close>).
  \<^item> \<open>Rpc\<close>, \<open>Money\<close>: \<open>verus-rpc\<close> (\<open>method.rs\<close>, \<open>envelope.rs\<close>, \<open>cassette.rs\<close>, the errors; \<open>json.rs\<close> and the
    signed amounts of \<open>types.rs\<close>).  The cassette interprets the locale \<open>answer_store\<close>.
  \<^item> \<open>Drive\<close>, \<open>Funding\<close>, \<open>Flow\<close>, \<open>Lifecycle\<close>: \<open>verus-flows\<close> (\<open>drive.rs\<close>, \<open>funding.rs\<close>, \<open>error.rs\<close>,
    \<open>broadcast.rs\<close>, \<open>lifecycle.rs\<close>).  A flow is a value of \<open>operation\<close>: it returns, fails, or posts a
    request and goes on with the reply; \<open>Flow\<close> composes these.

  \<^bold>\<open>What the lemmas show.\<close>  Round trips: transactions, scripts, identities, addresses, signatures
  and partial transactions read back from what is written, and what reads is canonical.
  Conservation: what a builder spends is its outputs, fee and burn in satoshis, and in every
  currency on the bytes as the decoder reads them (\<open>chain_tokens\<close> in \<open>Token\<close> counts every kind of
  output it reads tokens from).  Where the code does not look at part of its inputs, the fee funding of a
  conversion or an identity token spend and the coins of an offer's taker that are not reserve
  outputs, the theorem says what the outputs leave out, and in \<open>Conversion\<close> that the fee of a
  bridge leg is not carried.  Authorization: what is shipped is the
  planned transaction with only unlocking scripts filled in, and each of them verifies on that
  final transaction; a signature under SIGHASH_ALL commits to everything, one under an offer's
  type to exactly the maker's input and output.  Identity operations act on
  the identity and the funding that were read, change only what they name and never loosen a
  timelock; \<open>as_written\<close> in \<open>Identity_Ops\<close> is what the bytes hold, the whole identity from version 2 on
  and without its unlock height in version 1.  Totality: a plan that is accepted is signed and shipped, a complete
  session of co-signers finishes, a funded offer can be taken.  Flows: a driven run refines the
  blocking one and ends within its round limit; a co-signing session and a multisig spend are
  independent of the order in which the parties act.

  \<^bold>\<open>Parameters and bounds.\<close>  SHA-256, RIPEMD-160 and base58 digits (\<open>hash_lib\<close>), secp256k1
  (\<open>ec_lib\<close>), BLAKE2b (\<open>blake2b\<close>), hexadecimal coding, JSON reading and writing, and the derived
  \<open>Debug\<close> texts that only messages show (\<open>flow_text\<close>) are crates or derived code: arguments of the
  definitions, with the documented laws used stated as \<open>hash_lib_ok\<close>, \<open>ec_lib_ok\<close>, \<open>sec1_ok\<close>,
  \<open>hex_decode_ok\<close>, \<open>hex_pair_ok\<close>, \<open>no_collision\<close>, each with an instance that satisfies it.
  \<open>usize_bound\<close> is 2 to the 64: hypotheses \<open>length bytes < usize_bound\<close> say that a buffer fits in
  memory on a 64-bit target, which every buffer does.  No definition takes fuel.  The only round
  limit, \<open>MAX_ROUNDS\<close> in \<open>Drive\<close>, is the code's own 16; \<open>driving_terminates\<close> shows that driving
  ends in that many rounds and the flows of \<open>Lifecycle\<close> are shown to need three or four.

  \<^bold>\<open>Not modelled.\<close>  Network and runtime: the HTTP and gRPC transports, the light server client
  (\<open>verus-light\<close>), the typed client of \<open>verus-rpc\<close> apart from the reads the flows here make, and
  \<open>second_source.rs\<close>.  Zero-knowledge proving, note scanning and diversified addresses
  (\<open>verus-sapling\<close>), which are calls of the Sapling crates.  Wasm bindings (\<open>verus-wasm\<close>) and the
  facades \<open>verus-sdk\<close> and \<open>verus-tx\<close>, which re-export and convert.  Left for later, though pure:
  currency definitions and launches (\<open>verus-tx-currency\<close>), VDXF objects, VerusPay invoices and
  base64url in \<open>verus-tx-protocol\<close>, mnemonics and seeds in \<open>verus-keys\<close>, and the flows that send,
  convert, register, launch, log in, browse offers and list history.
\<close>

end
